(* ===== verification/KsiPrelude.thy ===== *)
theory KsiPrelude
  imports Main "HOL-Library.Word"
begin

text \<open>
  Shared vocabulary of the development: the status codes of \<^verbatim>\<open>src/src/ksi/ksi.h\<close>, the
  result type of fallible functions, machine integers and byte strings, and the generic facts on
  results, lists and words on which the component theories rest.

  A C function that returns a status and fills output parameters becomes a function into
  \<open>ksi_err + 'a\<close>: \<open>Inl e\<close> is a return with status \<open>e\<close>, \<open>Inr x\<close> is a return with
  \<open>KSI_OK\<close> and the outputs \<open>x\<close>.  A pointer that the code compares with \<open>NULL\<close> is an
  \<open>option\<close>.
\<close>

unbundle bit_operations_syntax

section \<open>Status codes\<close>

text \<open>The status codes of \<^verbatim>\<open>enum KSI_StatusCode\<close> but \<^verbatim>\<open>KSI_OK\<close>, in its order.\<close>

datatype (plugins only: code) ksi_err =
    KSI_AGGREGATOR_NOT_CONFIGURED
  | KSI_EXTENDER_NOT_CONFIGURED
  | KSI_PUBLICATIONS_FILE_NOT_CONFIGURED
  | KSI_PUBFILE_VERIFICATION_NOT_CONFIGURED
  | KSI_INVALID_VERIFICATION_INPUT
  | KSI_INVALID_ARGUMENT
  | KSI_INVALID_FORMAT
  | KSI_UNTRUSTED_HASH_ALGORITHM
  | KSI_UNAVAILABLE_HASH_ALGORITHM
  | KSI_BUFFER_OVERFLOW
  | KSI_TLV_PAYLOAD_TYPE_MISMATCH
  | KSI_ASYNC_NOT_FINISHED
  | KSI_INVALID_SIGNATURE
  | KSI_INVALID_PKI_SIGNATURE
  | KSI_PKI_CERTIFICATE_NOT_TRUSTED
  | KSI_INVALID_STATE
  | KSI_UNKNOWN_HASH_ALGORITHM_ID
  | KSI_HASH_ALGORITHM_DEPRECATED
  | KSI_HASH_ALGORITHM_OBSOLETE
  | KSI_OUT_OF_MEMORY
  | KSI_IO_ERROR
  | KSI_NETWORK_ERROR
  | KSI_NETWORK_CONNECTION_TIMEOUT
  | KSI_NETWORK_SEND_TIMEOUT
  | KSI_NETWORK_RECIEVE_TIMEOUT
  | KSI_HTTP_ERROR
  | KSI_EXTEND_WRONG_CAL_CHAIN
  | KSI_EXTEND_NO_SUITABLE_PUBLICATION
  | KSI_VERIFICATION_FAILURE
  | KSI_INVALID_PUBLICATION
  | KSI_PUBLICATIONS_FILE_NOT_SIGNED_WITH_PKI
  | KSI_CRYPTO_FAILURE
  | KSI_HMAC_MISMATCH
  | KSI_REQUEST_PENDING
  | KSI_REQUEST_ID_MISMATCH
  | KSI_HMAC_ALGORITHM_MISMATCH
  | KSI_UNSUPPORTED_PDU_VERSION
  | KSI_INCOMPATIBLE_HASH_CHAIN
  | KSI_SERVICE_INVALID_REQUEST
  | KSI_SERVICE_AUTHENTICATION_FAILURE
  | KSI_SERVICE_INVALID_PAYLOAD
  | KSI_SERVICE_INTERNAL_ERROR
  | KSI_SERVICE_UPSTREAM_ERROR
  | KSI_SERVICE_UPSTREAM_TIMEOUT
  | KSI_SERVICE_UNKNOWN_ERROR
  | KSI_SERVICE_AGGR_REQUEST_TOO_LARGE
  | KSI_SERVICE_AGGR_REQUEST_OVER_QUOTA
  | KSI_SERVICE_AGGR_TOO_MANY_REQUESTS
  | KSI_SERVICE_AGGR_INPUT_TOO_LONG
  | KSI_SERVICE_AGGR_PDU_V2_RESPONSE_TO_PDU_V1_REQUEST
  | KSI_SERVICE_AGGR_PDU_V1_RESPONSE_TO_PDU_V2_REQUEST
  | KSI_SERVICE_EXTENDER_INVALID_TIME_RANGE
  | KSI_SERVICE_EXTENDER_DATABASE_MISSING
  | KSI_SERVICE_EXTENDER_DATABASE_CORRUPT
  | KSI_SERVICE_EXTENDER_REQUEST_TIME_TOO_OLD
  | KSI_SERVICE_EXTENDER_REQUEST_TIME_TOO_NEW
  | KSI_SERVICE_EXTENDER_REQUEST_TIME_IN_FUTURE
  | KSI_SERVICE_EXTENDER_PDU_V2_RESPONSE_TO_PDU_V1_REQUEST
  | KSI_SERVICE_EXTENDER_PDU_V1_RESPONSE_TO_PDU_V2_REQUEST
  | KSI_ASYNC_CONNECTION_CLOSED
  | KSI_ASYNC_REQUEST_CACHE_FULL
  | KSI_UNKNOWN_ERROR

text \<open>A bare status return: \<open>None\<close> is \<open>KSI_OK\<close>.\<close>

type_synonym ksi_status = "ksi_err option"
type_synonym 'a ksi_result = "ksi_err + 'a"

type_synonym byte = "8 word"
type_synonym bytes = "8 word list"
type_synonym u32 = "32 word"
type_synonym u64 = "64 word"

section \<open>Lemma collections\<close>

named_theorems ksi_result_simps \<open>rewriting of results and of their sequencing\<close>
named_theorems ksi_defs \<open>definitions of the operations a component proof unfolds\<close>

section \<open>Sequencing of fallible calls\<close>

text \<open>\<open>rbind m f\<close> is \<^verbatim>\<open>res = m; if (res != KSI_OK) goto cleanup; f\<close>.\<close>

definition rbind :: "'e + 'a \<Rightarrow> ('a \<Rightarrow> 'e + 'b) \<Rightarrow> 'e + 'b" where
  "rbind m f = (case m of Inl e \<Rightarrow> Inl e | Inr x \<Rightarrow> f x)"

definition check :: "bool \<Rightarrow> 'e \<Rightarrow> ('e + 'b) \<Rightarrow> 'e + 'b" where
  "check bad e k = (if bad then Inl e else k)"

definition the_ptr :: "'a option \<Rightarrow> 'e \<Rightarrow> ('a \<Rightarrow> 'e + 'b) \<Rightarrow> 'e + 'b" where
  "the_ptr p e k = (case p of None \<Rightarrow> Inl e | Some x \<Rightarrow> k x)"

lemma rbind_simps [simp, ksi_result_simps]:
  "rbind (Inl e) f = Inl e" "rbind (Inr x) f = f x"
  by (simp_all add: rbind_def)

lemma rbind_eq_Inr [ksi_result_simps]: "rbind m f = Inr y \<longleftrightarrow> (\<exists>x. m = Inr x \<and> f x = Inr y)"
  by (cases m) simp_all

lemma rbind_eq_Inl [ksi_result_simps]:
  "rbind m f = Inl e \<longleftrightarrow> m = Inl e \<or> (\<exists>x. m = Inr x \<and> f x = Inl e)"
  by (cases m) simp_all

lemma rbind_split:
  "P (rbind m f) \<longleftrightarrow> (\<forall>e. m = Inl e \<longrightarrow> P (Inl e)) \<and> (\<forall>x. m = Inr x \<longrightarrow> P (f x))"
  by (cases m) simp_all

lemma rbind_assoc [ksi_result_simps]: "rbind (rbind m f) g = rbind m (\<lambda>x. rbind (f x) g)"
  by (cases m) simp_all

lemma check_simps [simp, ksi_result_simps]:
  "check True e k = Inl e" "check False e k = k"
  by (simp_all add: check_def)

lemma check_eq_Inr [simp, ksi_result_simps]: "check b e k = Inr y \<longleftrightarrow> \<not> b \<and> k = Inr y"
  by (simp add: check_def)

lemma check_eq_Inl [ksi_result_simps]:
  "check b e k = Inl e' \<longleftrightarrow> (b \<and> e' = e) \<or> (\<not> b \<and> k = Inl e')"
  by (auto simp: check_def)

lemma the_ptr_simps [simp, ksi_result_simps]:
  "the_ptr None e k = Inl e" "the_ptr (Some x) e k = k x"
  by (simp_all add: the_ptr_def)

lemma the_ptr_eq_Inr [ksi_result_simps]:
  "the_ptr p e k = Inr y \<longleftrightarrow> (\<exists>x. p = Some x \<and> k x = Inr y)"
  by (cases p) simp_all

lemma rbind_cong [fundef_cong]:
  "m = m' \<Longrightarrow> (\<And>x. m' = Inr x \<Longrightarrow> f x = f' x) \<Longrightarrow> rbind m f = rbind m' f'"
  by (cases m') simp_all

lemma check_cong [fundef_cong]:
  "b = b' \<Longrightarrow> e = e' \<Longrightarrow> (\<not> b' \<Longrightarrow> k = k') \<Longrightarrow> check b e k = check b' e' k'"
  by (cases b') simp_all

lemma the_ptr_cong [fundef_cong]:
  "p = p' \<Longrightarrow> e = e' \<Longrightarrow> (\<And>x. p' = Some x \<Longrightarrow> k x = k' x) \<Longrightarrow> the_ptr p e k = the_ptr p' e' k'"
  by (cases p') simp_all

section \<open>Lists\<close>

lemma take_Suc_update:
  "n < length xs \<Longrightarrow> take (Suc n) (xs[n := x]) = take n xs @ [x]"
  by (simp add: take_Suc_conv_app_nth)

lemma sum_list_map_append [simp]:
  "sum_list (map f (xs @ ys)) = sum_list (map f xs) + (sum_list (map f ys) :: nat)"
  by simp

section \<open>Words and big-endian integers\<close>

text \<open>The value of a big-endian byte string; the loops \<^verbatim>\<open>val = val << 8 | raw[i]\<close>.\<close>

definition be_val :: "bytes \<Rightarrow> nat" where
  "be_val bs = foldl (\<lambda>v b. v * 256 + unat b) 0 bs"

lemma foldl_be_val:
  "foldl (\<lambda>v b. v * 256 + unat (b :: byte)) a bs = a * 256 ^ length bs + be_val bs"
proof (induction bs arbitrary: a)
  case Nil
  then show ?case by (simp add: be_val_def)
next
  case (Cons b bs)
  have "foldl (\<lambda>v b. v * 256 + unat b) a (b # bs)
      = (a * 256 + unat b) * 256 ^ length bs + be_val bs"
    using Cons by simp
  moreover have "be_val (b # bs) = unat b * 256 ^ length bs + be_val bs"
    using Cons [of "unat b"] by (simp add: be_val_def)
  ultimately show ?case by (simp add: algebra_simps)
qed

lemma be_val_Nil [simp]: "be_val [] = 0"
  by (simp add: be_val_def)

lemma be_val_Cons [simp]: "be_val (b # bs) = unat b * 256 ^ length bs + be_val bs"
  using foldl_be_val [of "unat b" bs] by (simp add: be_val_def)

lemma be_val_append: "be_val (xs @ ys) = be_val xs * 256 ^ length ys + be_val ys"
  by (induction xs) (simp_all add: algebra_simps power_add)

lemma be_val_snoc [simp]: "be_val (xs @ [b]) = be_val xs * 256 + unat b"
  by (simp add: be_val_append)

lemma unat_byte_less [simp]: "unat (b :: byte) < 256"
  using unsigned_less [of b, where ?'a = nat] by simp

lemma unat_drop_bit: "unat (drop_bit n (w :: 'a::len word)) = unat w div 2 ^ n"
proof -
  have "take_bit LENGTH('a) (unat w) = unat w"
    by (rule take_bit_nat_eq_self) (rule unsigned_less)
  then show ?thesis by (simp only: unsigned_drop_bit_eq drop_bit_nat_def)
qed

lemma unat_low_byte: "unat (ucast ((v :: 'a::len word) AND 0xff) :: byte) = unat v mod 256"
proof -
  have m: "(0xff :: 'a word) = mask 8" by (simp add: mask_eq_exp_minus_1)
  show ?thesis unfolding m
    by (simp only: unsigned_ucast_eq take_bit_eq_mask [symmetric] unsigned_take_bit_eq) (simp add: take_bit_eq_mod)
qed

lemma be_val_bound: "be_val bs < 256 ^ length bs"
proof (induction bs)
  case (Cons b bs)
  have "unat b * 256 ^ length bs + be_val bs < (unat b + 1) * 256 ^ length bs"
    using Cons by simp
  also have "\<dots> \<le> 256 * 256 ^ length bs"
  proof (rule mult_le_mono1)
    show "unat b + 1 \<le> 256" using unat_byte_less [of b] by linarith
  qed
  finally show ?case by simp
qed simp

end
