(* ===== verification/KsiList.thy ===== *)
theory KsiList
  imports KsiPrelude "HOL-Library.Multiset"
begin

text \<open>
  The generic list of \<^verbatim>\<open>src/src/ksi/list.c\<close>: an array that grows by ten cells, and the
  operations that every \<^verbatim>\<open>KSI_LIST(T)\<close> of the library is an instance of.  The model keeps the
  array with its allocated size and used length, and the log of the objects handed to the element
  destructor.  The theory shows that each operation implements the corresponding operation on HOL
  lists, which is why the later theories use HOL lists for \<^verbatim>\<open>KSI_LIST(T)\<close>, and that no object is
  lost or freed twice.
\<close>

section \<open>State\<close>

text \<open>\<^verbatim>\<open>struct listEl_st\<close>, \<^verbatim>\<open>struct listImpl_st\<close> and \<^verbatim>\<open>struct KSI_List_st\<close>.  A pointer to an
  object is an \<open>option\<close>, \<open>None\<close> being \<open>NULL\<close>.\<close>

record 'a listEl_st =
  initialIdx :: nat
  el_ptr :: "'a option"
  el_cmp :: "('a option \<Rightarrow> 'a option \<Rightarrow> int) option"

record 'a listImpl_st =
  arr :: "'a listEl_st list option"
  arr_size :: nat
  arr_len :: nat

record 'a KSI_List =
  pImpl :: "'a listImpl_st option"
  obj_free :: bool
  freed :: "'a option list"

definition KSI_LIST_SIZE_INCREMENT :: nat where
  "KSI_LIST_SIZE_INCREMENT = 10"

text \<open>A cell of an array that \<^verbatim>\<open>KSI_calloc\<close> has cleared.\<close>

definition calloc_el :: "'a listEl_st" where
  "calloc_el = \<lparr>initialIdx = 0, el_ptr = None, el_cmp = None\<rparr>"

section \<open>Operations\<close>

text \<open>\<^verbatim>\<open>for (i = 0; i < arr_len; i++) tmp_arr[i] = arr[i]\<close>.\<close>

function copyArr :: "nat \<Rightarrow> nat \<Rightarrow> 'b list \<Rightarrow> 'b list \<Rightarrow> 'b list" where
  "copyArr i n src dst = (if i < n then copyArr (Suc i) n src (dst[i := src ! i]) else dst)"
  by pat_completeness auto
termination
  by (relation "measure (\<lambda>(i, n, src, dst). n - i)") auto

definition growArr :: "'a listImpl_st \<Rightarrow> 'a listImpl_st" where
  "growArr impl =
     (if arr_len impl + 1 > arr_size impl then
        impl\<lparr>arr := Some (copyArr 0 (arr_len impl) (case arr impl of None \<Rightarrow> [] | Some a \<Rightarrow> a)
                       (replicate (arr_size impl + KSI_LIST_SIZE_INCREMENT) calloc_el)),
             arr_size := arr_size impl + KSI_LIST_SIZE_INCREMENT\<rparr>
      else impl)"

definition appendElement :: "'a KSI_List option \<Rightarrow> 'a option \<Rightarrow> 'a KSI_List ksi_result" where
  "appendElement list obj =
     the_ptr list KSI_INVALID_ARGUMENT (\<lambda>l.
     the_ptr (pImpl l) KSI_INVALID_STATE (\<lambda>impl.
       let impl = growArr impl in
       the_ptr (arr impl) KSI_INVALID_STATE (\<lambda>a.
         Inr (l\<lparr>pImpl := Some (impl\<lparr>arr := Some (a[arr_len impl := (a ! arr_len impl)\<lparr>el_ptr := obj\<rparr>]),
                                     arr_len := arr_len impl + 1\<rparr>)\<rparr>))))"

text \<open>The search loop of \<^verbatim>\<open>find\<close>; objects are compared by address, so the model's objects are
  the addresses.\<close>

fun findPos :: "'a \<Rightarrow> 'a option list \<Rightarrow> nat \<Rightarrow> nat option" where
  "findPos o' [] i = None"
| "findPos o' (p # ps) i = (if p = Some o' then Some i else findPos o' ps (Suc i))"

definition list_find :: "'a KSI_List option \<Rightarrow> 'a option \<Rightarrow> nat option ksi_result" where
  "list_find list ob =
     the_ptr list KSI_INVALID_ARGUMENT (\<lambda>l.
     the_ptr ob KSI_INVALID_ARGUMENT (\<lambda>x.
     the_ptr (pImpl l) KSI_INVALID_STATE (\<lambda>impl.
       Inr (case arr impl of None \<Rightarrow> None
            | Some a \<Rightarrow> findPos x (map el_ptr (take (arr_len impl) a)) 0))))"

text \<open>\<^verbatim>\<open>indexOf\<close> returns the position in a freshly allocated cell, or \<open>NULL\<close>.\<close>

definition indexOf :: "'a KSI_List option \<Rightarrow> 'a option \<Rightarrow> nat option ksi_result" where
  "indexOf list ob = rbind (list_find list ob) (\<lambda>pos. Inr pos)"

text \<open>\<^verbatim>\<open>list->obj_free(ptr)\<close>, when the list has a destructor.\<close>

definition call_free :: "'a KSI_List \<Rightarrow> 'a option \<Rightarrow> 'a KSI_List" where
  "call_free l p = (if obj_free l then l\<lparr>freed := freed l @ [p]\<rparr> else l)"

definition with_array ::
    "'a KSI_List option \<Rightarrow> ('a KSI_List \<Rightarrow> 'a listImpl_st \<Rightarrow> 'a listEl_st list \<Rightarrow> 'b ksi_result)
     \<Rightarrow> 'b ksi_result" where
  "with_array list k =
     the_ptr list KSI_INVALID_ARGUMENT (\<lambda>l.
     the_ptr (pImpl l) KSI_INVALID_STATE (\<lambda>impl.
     the_ptr (arr impl) KSI_INVALID_STATE (\<lambda>a. k l impl a)))"

definition replaceElementAt :: "'a KSI_List option \<Rightarrow> nat \<Rightarrow> 'a option \<Rightarrow> 'a KSI_List ksi_result" where
  "replaceElementAt list pos ob =
     with_array list (\<lambda>l impl a.
       if pos \<ge> arr_len impl then Inl KSI_BUFFER_OVERFLOW
       else Inr ((call_free l (el_ptr (a ! pos)))
                  \<lparr>pImpl := Some (impl\<lparr>arr := Some (a[pos := (a ! pos)\<lparr>el_ptr := ob\<rparr>])\<rparr>)\<rparr>))"

text \<open>\<^verbatim>\<open>for (i = arr_len - 1; i > pos; i--) arr[i] = arr[i - 1]\<close>.\<close>

fun shiftRight :: "nat \<Rightarrow> nat \<Rightarrow> 'b list \<Rightarrow> 'b list" where
  "shiftRight 0 pos a = a"
| "shiftRight (Suc i) pos a = (if Suc i > pos then shiftRight i pos (a[Suc i := a ! i]) else a)"

definition insertElementAt :: "'a KSI_List option \<Rightarrow> nat \<Rightarrow> 'a option \<Rightarrow> 'a KSI_List ksi_result" where
  "insertElementAt list pos ob =
     with_array list (\<lambda>l impl a.
       if pos \<ge> arr_len impl then Inl KSI_BUFFER_OVERFLOW
       else rbind (appendElement (Some l) None) (\<lambda>l.
         with_array (Some l) (\<lambda>l impl a.
           let a = shiftRight (arr_len impl - 1) pos a in
           Inr (l\<lparr>pImpl := Some (impl\<lparr>arr := Some (a[pos := (a ! pos)\<lparr>el_ptr := ob\<rparr>])\<rparr>)\<rparr>))))"

definition elementAt :: "'a KSI_List option \<Rightarrow> nat \<Rightarrow> 'a option ksi_result" where
  "elementAt list pos =
     with_array list (\<lambda>l impl a.
       if pos \<ge> arr_len impl then Inl KSI_BUFFER_OVERFLOW else Inr (el_ptr (a ! pos)))"

definition list_length :: "'a KSI_List option \<Rightarrow> nat" where
  "list_length list = (case list of None \<Rightarrow> 0 | Some l \<Rightarrow>
     (case pImpl l of None \<Rightarrow> 0 | Some impl \<Rightarrow> arr_len impl))"

text \<open>\<^verbatim>\<open>for (i = pos + 1; i < arr_len; i++) arr[i - 1] = arr[i]\<close>.\<close>

function shiftLeft :: "nat \<Rightarrow> nat \<Rightarrow> 'b list \<Rightarrow> 'b list" where
  "shiftLeft i n a = (if i < n then shiftLeft (Suc i) n (a[i - 1 := a ! i]) else a)"
  by pat_completeness auto
termination
  by (relation "measure (\<lambda>(i, n, a). n - i)") auto

text \<open>\<open>want\<close> says whether the caller passed an output pointer; without one the element is freed.\<close>

definition removeElement ::
    "'a KSI_List option \<Rightarrow> nat \<Rightarrow> bool \<Rightarrow> ('a option \<times> 'a KSI_List) ksi_result" where
  "removeElement list pos want =
     with_array list (\<lambda>l impl a.
       if pos \<ge> arr_len impl then Inl KSI_INVALID_ARGUMENT
       else let p = el_ptr (a ! pos);
                l = (if want then l else call_free l p)
            in Inr (if want then p else None,
                    l\<lparr>pImpl := Some (impl\<lparr>arr := Some (shiftLeft (pos + 1) (arr_len impl) a),
                                           arr_len := arr_len impl - 1\<rparr>)\<rparr>))"

definition KSI_List_new :: "bool \<Rightarrow> 'a KSI_List" where
  "KSI_List_new has_free =
     \<lparr>pImpl = Some \<lparr>arr = None, arr_size = 0, arr_len = 0\<rparr>, obj_free = has_free, freed = []\<rparr>"

text \<open>\<^verbatim>\<open>KSI_List_free\<close>: the objects handed to the destructor, in order, over the list's life.\<close>

fun freeLoop :: "nat \<Rightarrow> nat \<Rightarrow> 'a listEl_st list \<Rightarrow> 'a KSI_List \<Rightarrow> 'a KSI_List" where
  "freeLoop 0 i a l = l"
| "freeLoop (Suc n) i a l = freeLoop n (Suc i) a (call_free l (el_ptr (a ! i)))"

definition KSI_List_free :: "'a KSI_List option \<Rightarrow> 'a option list" where
  "KSI_List_free list = (case list of None \<Rightarrow> [] | Some l \<Rightarrow>
     (case pImpl l of None \<Rightarrow> freed l
      | Some impl \<Rightarrow> freed (freeLoop (arr_len impl) 0 (case arr impl of None \<Rightarrow> [] | Some a \<Rightarrow> a) l)))"

text \<open>The dispatching functions \<^verbatim>\<open>KSI_List_append\<close>, \<dots> test the list pointer and call the method
  installed by \<^verbatim>\<open>KSI_List_new\<close>.\<close>

definition KSI_List_append :: "'a KSI_List option \<Rightarrow> 'a option \<Rightarrow> 'a KSI_List ksi_result" where
  "KSI_List_append list ob = the_ptr list KSI_INVALID_ARGUMENT (\<lambda>l. appendElement (Some l) ob)"

definition KSI_List_indexOf :: "'a KSI_List option \<Rightarrow> 'a option \<Rightarrow> nat option ksi_result" where
  "KSI_List_indexOf list ob = the_ptr list KSI_INVALID_ARGUMENT (\<lambda>l. indexOf (Some l) ob)"

definition KSI_List_replaceAt :: "'a KSI_List option \<Rightarrow> nat \<Rightarrow> 'a option \<Rightarrow> 'a KSI_List ksi_result" where
  "KSI_List_replaceAt list pos ob =
     the_ptr list KSI_INVALID_ARGUMENT (\<lambda>l. replaceElementAt (Some l) pos ob)"

definition KSI_List_insertAt :: "'a KSI_List option \<Rightarrow> nat \<Rightarrow> 'a option \<Rightarrow> 'a KSI_List ksi_result" where
  "KSI_List_insertAt list pos ob =
     the_ptr list KSI_INVALID_ARGUMENT (\<lambda>l. insertElementAt (Some l) pos ob)"

definition KSI_List_elementAt :: "'a KSI_List option \<Rightarrow> nat \<Rightarrow> 'a option ksi_result" where
  "KSI_List_elementAt list pos = the_ptr list KSI_INVALID_ARGUMENT (\<lambda>l. elementAt (Some l) pos)"

definition KSI_List_length :: "'a KSI_List option \<Rightarrow> nat" where
  "KSI_List_length list = (case list of None \<Rightarrow> 0 | Some l \<Rightarrow> list_length (Some l))"

definition KSI_List_remove ::
    "'a KSI_List option \<Rightarrow> nat \<Rightarrow> bool \<Rightarrow> ('a option \<times> 'a KSI_List) ksi_result" where
  "KSI_List_remove list pos want =
     the_ptr list KSI_INVALID_ARGUMENT (\<lambda>l. removeElement (Some l) pos want)"

definition KSI_List_find :: "'a KSI_List option \<Rightarrow> 'a option \<Rightarrow> nat option ksi_result" where
  "KSI_List_find list ob = the_ptr list KSI_INVALID_ARGUMENT (\<lambda>l. list_find (Some l) ob)"

text \<open>Sorting: the comparison function is written into every cell with the cell's index, and
  \<^verbatim>\<open>sortCmp\<close> falls back on the index.  The C library's \<^verbatim>\<open>qsort\<close> returns the cells in the order
  of the comparison it is given; here it is an insertion sort by that comparison.\<close>

definition sortCmp :: "'a listEl_st \<Rightarrow> 'a listEl_st \<Rightarrow> int" where
  "sortCmp l r =
     (let c = (case el_cmp l of None \<Rightarrow> 0 | Some f \<Rightarrow> f (el_ptr l) (el_ptr r))
      in if c = 0 then (if initialIdx l > initialIdx r then 1 else -1) else c)"

fun qinsert :: "('b \<Rightarrow> 'b \<Rightarrow> int) \<Rightarrow> 'b \<Rightarrow> 'b list \<Rightarrow> 'b list" where
  "qinsert c x [] = [x]"
| "qinsert c x (y # ys) = (if c x y \<le> 0 then x # y # ys else y # qinsert c x ys)"

definition qsort :: "('b \<Rightarrow> 'b \<Rightarrow> int) \<Rightarrow> 'b list \<Rightarrow> 'b list" where
  "qsort c xs = foldr (qinsert c) xs []"

fun prepareLoop :: "('a option \<Rightarrow> 'a option \<Rightarrow> int) \<Rightarrow> nat \<Rightarrow> 'a listEl_st list \<Rightarrow> 'a listEl_st list" where
  "prepareLoop c i [] = []"
| "prepareLoop c i (e # es) = e\<lparr>initialIdx := i, el_cmp := Some c\<rparr> # prepareLoop c (Suc i) es"

definition prepareSort ::
    "'a KSI_List option \<Rightarrow> ('a option \<Rightarrow> 'a option \<Rightarrow> int) \<Rightarrow> 'a KSI_List ksi_result" where
  "prepareSort list c =
     the_ptr list KSI_INVALID_ARGUMENT (\<lambda>l.
     the_ptr (pImpl l) KSI_INVALID_STATE (\<lambda>impl.
       (case arr impl of None \<Rightarrow> Inr l
        | Some a \<Rightarrow>
            Inr (l\<lparr>pImpl := Some (impl\<lparr>arr := Some (prepareLoop c 0 (take (arr_len impl) a)
                                                  @ drop (arr_len impl) a)\<rparr>)\<rparr>))))"

definition KSI_List_sort ::
    "'a KSI_List option \<Rightarrow> ('a option \<Rightarrow> 'a option \<Rightarrow> int) option \<Rightarrow> 'a KSI_List ksi_result" where
  "KSI_List_sort list c =
     the_ptr c KSI_INVALID_ARGUMENT (\<lambda>c.
     with_array list (\<lambda>l impl a.
       rbind (prepareSort (Some l) c) (\<lambda>l.
       with_array (Some l) (\<lambda>l impl a.
         Inr (l\<lparr>pImpl := Some (impl\<lparr>arr := Some (qsort sortCmp (take (arr_len impl) a)
                                               @ drop (arr_len impl) a)\<rparr>)\<rparr>)))))"

text \<open>\<^verbatim>\<open>KSI_List_foldl\<close>: the loop over the indices, stopping at the first failing call.\<close>

function foldlLoop ::
    "'a KSI_List \<Rightarrow> ('a option \<Rightarrow> 'c \<Rightarrow> 'c ksi_result) \<Rightarrow> nat \<Rightarrow> 'c \<Rightarrow> 'c ksi_result" where
  "foldlLoop l fn i acc =
     (if i < KSI_List_length (Some l) then
        rbind (KSI_List_elementAt (Some l) i) (\<lambda>el. rbind (fn el acc) (\<lambda>acc. foldlLoop l fn (Suc i) acc))
      else Inr acc)"
  by pat_completeness auto
termination
  by (relation "measure (\<lambda>(l, fn, i, acc). KSI_List_length (Some l) - i)") auto

definition KSI_List_foldl ::
    "'a KSI_List option \<Rightarrow> 'c \<Rightarrow> ('a option \<Rightarrow> 'c \<Rightarrow> 'c ksi_result) option \<Rightarrow> 'c ksi_result" where
  "KSI_List_foldl list c fn =
     the_ptr list KSI_INVALID_ARGUMENT (\<lambda>l.
     the_ptr fn KSI_INVALID_ARGUMENT (\<lambda>fn. foldlLoop l fn 0 c))"

section \<open>Invariant and abstraction\<close>

definition impl_wf :: "'a listImpl_st \<Rightarrow> bool" where
  "impl_wf impl = (case arr impl of None \<Rightarrow> arr_size impl = 0 \<and> arr_len impl = 0
     | Some a \<Rightarrow> length a = arr_size impl \<and> arr_len impl \<le> arr_size impl)"

definition list_wf :: "'a KSI_List \<Rightarrow> bool" where
  "list_wf l = (case pImpl l of None \<Rightarrow> False | Some impl \<Rightarrow> impl_wf impl)"

definition list_abs :: "'a KSI_List \<Rightarrow> 'a option list" where
  "list_abs l = (case pImpl l of None \<Rightarrow> [] | Some impl \<Rightarrow>
     (case arr impl of None \<Rightarrow> [] | Some a \<Rightarrow> map el_ptr (take (arr_len impl) a)))"

text \<open>A client's calls, and their effect on the sequence the list stands for.  \<open>exec_op\<close> makes one call
  and keeps, beside the list, the objects stored so far and the objects handed back to the caller; a
  call that fails leaves the list as it was.\<close>

datatype 'a list_op =
    OpAppend "'a option"
  | OpInsertAt nat "'a option"
  | OpReplaceAt nat "'a option"
  | OpRemove nat bool

fun spec_op :: "'a list_op \<Rightarrow> 'a option list \<Rightarrow> 'a option list" where
  "spec_op (OpAppend x) xs = xs @ [x]"
| "spec_op (OpInsertAt i x) xs = (if i < length xs then take i xs @ x # drop i xs else xs)"
| "spec_op (OpReplaceAt i x) xs = (if i < length xs then xs[i := x] else xs)"
| "spec_op (OpRemove i w) xs = (if i < length xs then take i xs @ drop (Suc i) xs else xs)"

fun exec_op ::
    "('l \<Rightarrow> 'a option \<Rightarrow> 'l ksi_result) \<Rightarrow> ('l \<Rightarrow> nat \<Rightarrow> 'a option \<Rightarrow> 'l ksi_result) \<Rightarrow>
     ('l \<Rightarrow> nat \<Rightarrow> 'a option \<Rightarrow> 'l ksi_result) \<Rightarrow> ('l \<Rightarrow> nat \<Rightarrow> bool \<Rightarrow> ('a option \<times> 'l) ksi_result) \<Rightarrow>
     'a list_op \<Rightarrow> 'l \<times> 'a option multiset \<times> 'a option multiset \<Rightarrow>
     'l \<times> 'a option multiset \<times> 'a option multiset" where
  "exec_op app ins rep rem (OpAppend x) (l, stored, taken) =
     (case app l x of Inl e \<Rightarrow> (l, stored, taken) | Inr l' \<Rightarrow> (l', add_mset x stored, taken))"
| "exec_op app ins rep rem (OpInsertAt i x) (l, stored, taken) =
     (case ins l i x of Inl e \<Rightarrow> (l, stored, taken) | Inr l' \<Rightarrow> (l', add_mset x stored, taken))"
| "exec_op app ins rep rem (OpReplaceAt i x) (l, stored, taken) =
     (case rep l i x of Inl e \<Rightarrow> (l, stored, taken) | Inr l' \<Rightarrow> (l', add_mset x stored, taken))"
| "exec_op app ins rep rem (OpRemove i w) (l, stored, taken) =
     (case rem l i w of Inl e \<Rightarrow> (l, stored, taken)
      | Inr (y, l') \<Rightarrow> (l', stored, if w then add_mset y taken else taken))"

text \<open>The calls of a client made on the list of \<^verbatim>\<open>list.c\<close>.\<close>

definition run_ops ::
    "'a list_op list \<Rightarrow> 'a KSI_List \<times> 'a option multiset \<times> 'a option multiset \<Rightarrow>
     'a KSI_List \<times> 'a option multiset \<times> 'a option multiset" where
  "run_ops ops s =
     fold (exec_op (\<lambda>l. KSI_List_append (Some l)) (\<lambda>l. KSI_List_insertAt (Some l))
            (\<lambda>l. KSI_List_replaceAt (Some l)) (\<lambda>l. KSI_List_remove (Some l))) ops s"

declare copyArr.simps [simp del] shiftLeft.simps [simp del] foldlLoop.simps [simp del]

section \<open>The loops\<close>

lemma length_copyArr [simp]: "length (copyArr i n src dst) = length dst"
  by (induction i n src dst rule: copyArr.induct) (simp add: copyArr.simps)

lemma copyArr_take:
  "i \<le> n \<Longrightarrow> n \<le> length src \<Longrightarrow> n \<le> length dst \<Longrightarrow>
   take n (copyArr i n src dst) = take i dst @ drop i (take n src)"
proof (induction i n src dst rule: copyArr.induct)
  case (1 i n src dst)
  show ?case
  proof (cases "i < n")
    case True
    with 1 have "take n (copyArr i n src dst) = take (Suc i) (dst[i := src ! i]) @ drop (Suc i) (take n src)"
      by (subst copyArr.simps) simp
    also have "\<dots> = take i dst @ src ! i # drop (Suc i) (take n src)"
      using True "1.prems" by (simp add: take_Suc_conv_app_nth)
    also have "src ! i # drop (Suc i) (take n src) = drop i (take n src)"
      using True "1.prems" by (simp add: Cons_nth_drop_Suc [symmetric])
    finally show ?thesis .
  next
    case False
    with "1.prems" show ?thesis by (subst copyArr.simps) simp
  qed
qed

lemma length_shiftRight [simp]: "length (shiftRight i pos a) = length a"
  by (induction i pos a rule: shiftRight.induct) auto

lemma shiftRight_nth:
  "i < length a \<Longrightarrow> k < length a \<Longrightarrow>
   shiftRight i pos a ! k = (if pos < k \<and> k \<le> i then a ! (k - 1) else a ! k)"
proof (induction i pos a rule: shiftRight.induct)
  case (2 i pos a)
  then show ?case
    by (cases "k = Suc i") (auto simp: nth_list_update le_Suc_eq)
qed simp

lemma length_shiftLeft [simp]: "length (shiftLeft i n a) = length a"
  by (induction i n a rule: shiftLeft.induct) (simp add: shiftLeft.simps)

lemma shiftLeft_nth:
  "0 < i \<Longrightarrow> n \<le> length a \<Longrightarrow> k < length a \<Longrightarrow>
   shiftLeft i n a ! k = (if i \<le> Suc k \<and> Suc k < n then a ! Suc k else a ! k)"
proof (induction i n a rule: shiftLeft.induct)
  case (1 i n a)
  show ?case
  proof (cases "i < n")
    case True
    with 1 have "shiftLeft i n a ! k =
        (if Suc i \<le> Suc k \<and> Suc k < n then a[i - 1 := a ! i] ! Suc k else a[i - 1 := a ! i] ! k)"
      by (subst shiftLeft.simps) simp
    with True "1.prems" show ?thesis by (auto simp: nth_list_update not_le less_Suc_eq)
  next
    case False
    with "1.prems" show ?thesis by (subst shiftLeft.simps) auto
  qed
qed

lemma take_insert_shift:
  assumes "pos < n" and "n < length a"
  shows "take (Suc n) ((shiftRight n pos a)[pos := x]) = take pos a @ x # drop pos (take n a)"
proof (rule nth_equalityI)
  show "length (take (Suc n) ((shiftRight n pos a)[pos := x])) = length (take pos a @ x # drop pos (take n a))"
    using assms by simp
next
  fix k assume "k < length (take (Suc n) ((shiftRight n pos a)[pos := x]))"
  with assms show "take (Suc n) ((shiftRight n pos a)[pos := x]) ! k = (take pos a @ x # drop pos (take n a)) ! k"
    by (auto simp: nth_append shiftRight_nth nth_Cons' nth_list_update)
qed

lemma take_shiftLeft:
  assumes "pos < n" and "n \<le> length a"
  shows "take (n - Suc 0) (shiftLeft (Suc pos) n a) = take pos a @ drop (Suc pos) (take n a)"
proof (rule nth_equalityI)
  show "length (take (n - Suc 0) (shiftLeft (Suc pos) n a)) = length (take pos a @ drop (Suc pos) (take n a))"
    using assms by simp
next
  fix k assume "k < length (take (n - Suc 0) (shiftLeft (Suc pos) n a))"
  with assms show "take (n - Suc 0) (shiftLeft (Suc pos) n a) ! k = (take pos a @ drop (Suc pos) (take n a)) ! k"
    by (auto simp: nth_append shiftLeft_nth)
qed

lemma map_listUpdate_take:
  "map el_ptr (take n (a[pos := (a ! pos)\<lparr>el_ptr := x\<rparr>])) = (map el_ptr (take n a))[pos := x]"
  by (cases "pos < length a") (simp_all add: take_update_swap map_update list_update_beyond)

section \<open>Each operation implements its list operation\<close>

lemma growArr_wf:
  assumes "impl_wf impl"
  shows "\<exists>a. arr (growArr impl) = Some a \<and> length a = arr_size (growArr impl)
           \<and> arr_len impl < length a \<and> arr_len (growArr impl) = arr_len impl
           \<and> take (arr_len impl) a = (case arr impl of None \<Rightarrow> [] | Some b \<Rightarrow> take (arr_len impl) b)"
proof (cases "arr impl")
  case None
  with assms show ?thesis
    by (simp add: growArr_def impl_wf_def KSI_LIST_SIZE_INCREMENT_def copyArr.simps)
next
  case (Some b)
  with assms have b: "length b = arr_size impl" "arr_len impl \<le> arr_size impl"
    by (simp_all add: impl_wf_def)
  with Some show ?thesis
    by (auto simp: growArr_def KSI_LIST_SIZE_INCREMENT_def copyArr_take)
qed

lemma list_wfE:
  assumes "list_wf l"
  obtains impl where "pImpl l = Some impl" and "impl_wf impl"
  using assms by (auto simp: list_wf_def split: option.splits)

lemma appendElement_ok:
  assumes "list_wf l"
  shows "\<exists>l'. appendElement (Some l) x = Inr l' \<and> list_wf l' \<and> list_abs l' = list_abs l @ [x]
           \<and> freed l' = freed l \<and> obj_free l' = obj_free l"
proof -
  from assms obtain impl where impl: "pImpl l = Some impl" "impl_wf impl" by (rule list_wfE)
  from growArr_wf [OF impl(2)] obtain a where a: "arr (growArr impl) = Some a"
    "length a = arr_size (growArr impl)" "arr_len impl < length a" "arr_len (growArr impl) = arr_len impl"
    "take (arr_len impl) a = (case arr impl of None \<Rightarrow> [] | Some b \<Rightarrow> take (arr_len impl) b)"
    by blast
  then have "list_abs l = map el_ptr (take (arr_len impl) a)"
    by (simp add: list_abs_def impl split: option.splits)
  with a show ?thesis
    by (auto simp: appendElement_def impl Let_def list_wf_def impl_wf_def list_abs_def take_Suc_update)
qed

lemma with_array_wf:
  assumes "list_wf l" and "i < length (list_abs l)"
  shows "\<exists>impl a. pImpl l = Some impl \<and> arr impl = Some a \<and> arr_len impl = length (list_abs l)
      \<and> length a = arr_size impl \<and> arr_len impl \<le> arr_size impl
      \<and> list_abs l = map el_ptr (take (arr_len impl) a)"
  using assms
  by (auto simp: list_wf_def list_abs_def impl_wf_def min_def split: option.splits)

lemma replaceElementAt_ok:
  assumes "list_wf l" and "pos < length (list_abs l)"
  shows "\<exists>l'. replaceElementAt (Some l) pos x = Inr l' \<and> list_wf l' \<and> list_abs l' = (list_abs l)[pos := x]
           \<and> freed l' = freed l @ (if obj_free l then [list_abs l ! pos] else []) \<and> obj_free l' = obj_free l"
proof -
  from with_array_wf [OF assms] obtain impl a where a: "pImpl l = Some impl" "arr impl = Some a"
    "arr_len impl = length (list_abs l)" "length a = arr_size impl" "arr_len impl \<le> arr_size impl"
    "list_abs l = map el_ptr (take (arr_len impl) a)"
    by blast
  then show ?thesis
    using assms(2)
    by (auto simp: replaceElementAt_def with_array_def list_wf_def impl_wf_def list_abs_def call_free_def
        map_listUpdate_take)
qed

lemma insertElementAt_ok:
  assumes wf: "list_wf l" and pos: "pos < length (list_abs l)"
  shows "\<exists>l'. insertElementAt (Some l) pos x = Inr l' \<and> list_wf l'
           \<and> list_abs l' = take pos (list_abs l) @ x # drop pos (list_abs l)
           \<and> freed l' = freed l \<and> obj_free l' = obj_free l"
proof -
  from with_array_wf [OF wf pos] obtain impl0 a0 where a0: "pImpl l = Some impl0" "arr impl0 = Some a0"
    "arr_len impl0 = length (list_abs l)"
    by blast
  from appendElement_ok [OF wf, of None] obtain l1 where l1: "appendElement (Some l) None = Inr l1"
    "list_wf l1" "list_abs l1 = list_abs l @ [None]" "freed l1 = freed l" "obj_free l1 = obj_free l"
    by blast
  from with_array_wf [OF l1(2), of pos] pos l1(3) obtain impl a where a: "pImpl l1 = Some impl" "arr impl = Some a"
    "arr_len impl = Suc (length (list_abs l))" "length a = arr_size impl" "arr_len impl \<le> arr_size impl"
    "list_abs l1 = map el_ptr (take (arr_len impl) a)"
    by auto
  define n where "n = length (list_abs l)"
  define y where "y = (shiftRight n pos a ! pos)\<lparr>el_ptr := x\<rparr>"
  have "take n (list_abs l1) = list_abs l" by (simp add: l1(3) n_def)
  then have old: "map el_ptr (take n a) = list_abs l"
    using a(3,4,5) by (simp add: a(6) n_def take_map)
  have n: "pos < n" "n < length a" using pos a(3,4,5) by (simp_all add: n_def)
  have "map el_ptr (take (Suc n) ((shiftRight n pos a)[pos := y]))
      = take pos (map el_ptr (take n a)) @ x # drop pos (map el_ptr (take n a))"
    using n by (simp add: take_insert_shift y_def take_map drop_map)
  then have new: "map el_ptr (take (Suc n) ((shiftRight n pos a)[pos := y]))
      = take pos (list_abs l) @ x # drop pos (list_abs l)"
    by (simp only: old)
  have "insertElementAt (Some l) pos x =
      Inr (l1\<lparr>pImpl := Some (impl\<lparr>arr := Some ((shiftRight n pos a)[pos := y])\<rparr>)\<rparr>)"
    using a(1-3) a0 pos by (simp add: insertElementAt_def with_array_def l1(1) Let_def n_def y_def)
  then show ?thesis
    using a(3-5) new l1(4,5) by (auto simp: list_wf_def impl_wf_def list_abs_def n_def)
qed

lemma elementAt_ok:
  assumes "list_wf l" and "pos < length (list_abs l)"
  shows "elementAt (Some l) pos = Inr (list_abs l ! pos)"
proof -
  from with_array_wf [OF assms] obtain impl a where a: "pImpl l = Some impl" "arr impl = Some a"
    "arr_len impl = length (list_abs l)" "length a = arr_size impl" "arr_len impl \<le> arr_size impl"
    "list_abs l = map el_ptr (take (arr_len impl) a)"
    by blast
  have "list_abs l ! pos = el_ptr (a ! pos)"
    using assms(2) a(3-5) by (subst a(6)) simp
  with a(1-3) assms(2) show ?thesis
    by (simp add: elementAt_def with_array_def)
qed

lemma list_length_ok [simp]: "list_wf l \<Longrightarrow> list_length (Some l) = length (list_abs l)"
  by (auto simp: list_length_def list_wf_def impl_wf_def list_abs_def split: option.splits)

lemma removeElement_ok:
  assumes "list_wf l" and "pos < length (list_abs l)"
  shows "\<exists>l'. removeElement (Some l) pos want = Inr (if want then list_abs l ! pos else None, l') \<and> list_wf l'
           \<and> list_abs l' = take pos (list_abs l) @ drop (Suc pos) (list_abs l)
           \<and> freed l' = freed l @ (if obj_free l \<and> \<not> want then [list_abs l ! pos] else [])
           \<and> obj_free l' = obj_free l"
proof -
  from with_array_wf [OF assms] obtain impl a where a: "pImpl l = Some impl" "arr impl = Some a"
    "arr_len impl = length (list_abs l)" "length a = arr_size impl" "arr_len impl \<le> arr_size impl"
    "list_abs l = map el_ptr (take (arr_len impl) a)"
    by blast
  define n where "n = arr_len impl"
  have n: "pos < n" "n \<le> length a" using assms(2) a(3-5) by (simp_all add: n_def)
  have new: "map el_ptr (take (n - 1) (shiftLeft (Suc pos) n a))
      = take pos (list_abs l) @ drop (Suc pos) (list_abs l)"
    using n by (simp add: take_shiftLeft take_map drop_map a(6) n_def)
  show ?thesis
    using a(1-5) n new
    by (auto simp: removeElement_def with_array_def Let_def list_wf_def impl_wf_def call_free_def
        list_abs_def n_def)
qed

lemma elementAt_bad:
  assumes "list_wf l" and "length (list_abs l) \<le> pos"
  shows "elementAt (Some l) pos =
     Inl (if arr (the (pImpl l)) = None then KSI_INVALID_STATE else KSI_BUFFER_OVERFLOW)"
  using assms
  by (auto simp: elementAt_def with_array_def list_wf_def impl_wf_def list_abs_def min_def
      split: option.splits if_splits)

lemma findPos_spec:
  "findPos x ps i = (if Some x \<in> set ps then Some (i + length (takeWhile (\<lambda>p. p \<noteq> Some x) ps)) else None)"
  by (induction ps arbitrary: i) auto

lemma freed_freeLoop:
  "freed (freeLoop n i a l) = freed l @ (if obj_free l then map (\<lambda>k. el_ptr (a ! k)) [i..<i + n] else [])"
proof (induction n arbitrary: i l)
  case (Suc n)
  have "[i..<i + Suc n] = i # [Suc i..<Suc i + n]" by (simp add: upt_rec)
  with Suc show ?case by (simp add: call_free_def del: upt_Suc)
qed simp

lemma KSI_List_free_ok:
  assumes "list_wf l"
  shows "KSI_List_free (Some l) = freed l @ (if obj_free l then list_abs l else [])"
proof -
  from assms obtain impl where impl: "pImpl l = Some impl" "impl_wf impl" by (rule list_wfE)
  show ?thesis
  proof (cases "arr impl")
    case None
    with impl show ?thesis by (simp add: KSI_List_free_def list_abs_def freed_freeLoop impl_wf_def)
  next
    case (Some a)
    with impl have "arr_len impl \<le> length a" by (simp add: impl_wf_def)
    then have "map (\<lambda>k. el_ptr (a ! k)) [0..<arr_len impl] = map el_ptr (take (arr_len impl) a)"
      by (intro nth_equalityI) simp_all
    with Some impl show ?thesis by (simp add: KSI_List_free_def list_abs_def freed_freeLoop)
  qed
qed

lemma foldlLoop_ok:
  assumes "list_wf l"
  shows "foldlLoop l fn i acc = foldl (\<lambda>r el. rbind r (fn el)) (Inr acc) (drop i (list_abs l))"
proof (induction "length (list_abs l) - i" arbitrary: i acc)
  case 0
  then show ?case using assms by (subst foldlLoop.simps) (simp add: KSI_List_length_def)
next
  case (Suc n)
  then have i: "i < length (list_abs l)" by simp
  have err: "foldl (\<lambda>r el. rbind r (fn el)) (Inl e) xs = Inl e" for e xs
    by (induction xs) simp_all
  have "foldlLoop l fn i acc = rbind (fn (list_abs l ! i) acc) (\<lambda>acc. foldlLoop l fn (Suc i) acc)"
    using assms i by (subst foldlLoop.simps) (simp add: KSI_List_length_def KSI_List_elementAt_def elementAt_ok)
  also have "\<dots> = rbind (fn (list_abs l ! i) acc) (\<lambda>acc. foldl (\<lambda>r el. rbind r (fn el)) (Inr acc) (drop (Suc i) (list_abs l)))"
    using Suc by simp
  also have "\<dots> = foldl (\<lambda>r el. rbind r (fn el)) (Inr acc) (list_abs l ! i # drop (Suc i) (list_abs l))"
    by (cases "fn (list_abs l ! i) acc") (simp_all add: err)
  also have "list_abs l ! i # drop (Suc i) (list_abs l) = drop i (list_abs l)"
    using i by (simp add: Cons_nth_drop_Suc)
  finally show ?case .
qed

section \<open>The contract of a list and what it gives a client\<close>

text \<open>What every \<^verbatim>\<open>KSI_LIST(T)\<close> promises: an invariant, the sequence of stored objects, and the log of
  the destructor.\<close>

locale ksi_sequence =
  fixes invar :: "'l \<Rightarrow> bool"
    and abs :: "'l \<Rightarrow> 'a option list"
    and log :: "'l \<Rightarrow> 'a option list"
    and app :: "'l \<Rightarrow> 'a option \<Rightarrow> 'l ksi_result"
    and ins :: "'l \<Rightarrow> nat \<Rightarrow> 'a option \<Rightarrow> 'l ksi_result"
    and rep :: "'l \<Rightarrow> nat \<Rightarrow> 'a option \<Rightarrow> 'l ksi_result"
    and rem :: "'l \<Rightarrow> nat \<Rightarrow> bool \<Rightarrow> ('a option \<times> 'l) ksi_result"
  assumes app: "invar l \<Longrightarrow> \<exists>l'. app l x = Inr l' \<and> invar l' \<and> abs l' = abs l @ [x] \<and> log l' = log l"
    and ins: "invar l \<Longrightarrow> i < length (abs l) \<Longrightarrow>
      \<exists>l'. ins l i x = Inr l' \<and> invar l' \<and> abs l' = take i (abs l) @ x # drop i (abs l) \<and> log l' = log l"
    and rep: "invar l \<Longrightarrow> i < length (abs l) \<Longrightarrow>
      \<exists>l'. rep l i x = Inr l' \<and> invar l' \<and> abs l' = (abs l)[i := x] \<and> log l' = log l @ [abs l ! i]"
    and rem: "invar l \<Longrightarrow> i < length (abs l) \<Longrightarrow>
      \<exists>l'. rem l i w = Inr (if w then abs l ! i else None, l') \<and> invar l'
        \<and> abs l' = take i (abs l) @ drop (Suc i) (abs l) \<and> log l' = log l @ (if w then [] else [abs l ! i])"
    and ins_bad: "invar l \<Longrightarrow> length (abs l) \<le> i \<Longrightarrow> \<exists>e. ins l i x = Inl e"
    and rep_bad: "invar l \<Longrightarrow> length (abs l) \<le> i \<Longrightarrow> \<exists>e. rep l i x = Inl e"
    and rem_bad: "invar l \<Longrightarrow> length (abs l) \<le> i \<Longrightarrow> \<exists>e. rem l i w = Inl e"
begin

lemma mset_update_at: "i < length xs \<Longrightarrow> add_mset (xs ! i) (mset (xs[i := x])) = add_mset x (mset xs)"
  by (simp add: mset_update)

lemma mset_remove_at:
  "i < length xs \<Longrightarrow> add_mset (xs ! i) (mset (take i xs @ drop (Suc i) xs)) = mset xs"
  by (metis append_take_drop_id Cons_nth_drop_Suc mset.simps(2) mset_append union_mset_add_mset_right)

lemma exec_op_step:
  assumes "invar l" and "mset (abs l) + mset (log l) + taken = stored"
    and "exec_op app ins rep rem op (l, stored, taken) = (l', stored', taken')"
  shows "invar l' \<and> abs l' = spec_op op (abs l) \<and> mset (abs l') + mset (log l') + taken' = stored'"
proof (cases op)
  case (OpAppend x)
  with assms app [OF assms(1), of x] show ?thesis by auto
next
  case (OpInsertAt i x)
  show ?thesis
  proof (cases "i < length (abs l)")
    case True
    have "mset (take i (abs l)) + mset (drop i (abs l)) = mset (abs l)"
      by (metis append_take_drop_id mset_append)
    with OpInsertAt True assms ins [OF assms(1) True, of x] show ?thesis by auto
  next
    case False
    with OpInsertAt assms ins_bad [OF assms(1), of i x] show ?thesis by auto
  qed
next
  case (OpReplaceAt i x)
  show ?thesis
  proof (cases "i < length (abs l)")
    case True
    with OpReplaceAt assms rep [OF assms(1) True, of x] mset_update_at [OF True, of x] show ?thesis
      by auto
  next
    case False
    with OpReplaceAt assms rep_bad [OF assms(1), of i x] show ?thesis by auto
  qed
next
  case (OpRemove i w)
  show ?thesis
  proof (cases "i < length (abs l)")
    case True
    have "add_mset (abs l ! i) (mset (take i (abs l)) + mset (drop (Suc i) (abs l))) = mset (abs l)"
      using mset_remove_at [OF True] by simp
    with OpRemove True assms rem [OF assms(1) True, of w] show ?thesis
      by (auto split: if_splits)
  next
    case False
    with OpRemove assms rem_bad [OF assms(1), of i w] show ?thesis by auto
  qed
qed

lemma exec_ops_run:
  assumes "invar l" and "mset (abs l) + mset (log l) + taken = stored"
    and "fold (exec_op app ins rep rem) ops (l, stored, taken) = (l', stored', taken')"
  shows "invar l' \<and> abs l' = fold spec_op ops (abs l) \<and> mset (abs l') + mset (log l') + taken' = stored'"
  using assms
proof (induction ops arbitrary: l stored taken)
  case (Cons op ops)
  obtain l1 st1 tk1 where s1: "exec_op app ins rep rem op (l, stored, taken) = (l1, st1, tk1)"
    by (cases "exec_op app ins rep rem op (l, stored, taken)") auto
  from exec_op_step [OF Cons.prems(1,2) s1] Cons.IH [of l1 tk1 st1] Cons.prems(3) s1
  show ?case by auto
qed simp

end

lemma bad_position:
  assumes "list_wf l" and "length (list_abs l) \<le> i"
  shows "\<exists>e. insertElementAt (Some l) i x = Inl e" and "\<exists>e. replaceElementAt (Some l) i x = Inl e"
    and "\<exists>e. removeElement (Some l) i w = Inl e"
  using assms
  by (auto simp: insertElementAt_def replaceElementAt_def removeElement_def with_array_def list_wf_def
      impl_wf_def list_abs_def min_def the_ptr_def split: option.splits if_splits)

interpretation kl: ksi_sequence
  "\<lambda>l. list_wf l \<and> obj_free l" list_abs freed
  "\<lambda>l. KSI_List_append (Some l)" "\<lambda>l. KSI_List_insertAt (Some l)"
  "\<lambda>l. KSI_List_replaceAt (Some l)" "\<lambda>l. KSI_List_remove (Some l)"
proof (unfold_locales, goal_cases)
  case (1 l x)
  then show ?case using appendElement_ok [of l x] by (auto simp: KSI_List_append_def)
next
  case (2 l i x)
  then show ?case using insertElementAt_ok [of l i x] by (auto simp: KSI_List_insertAt_def)
next
  case (3 l i x)
  then show ?case using replaceElementAt_ok [of l i x] by (auto simp: KSI_List_replaceAt_def)
next
  case (4 l i w)
  then show ?case using removeElement_ok [of l i w] by (auto simp: KSI_List_remove_def)
next
  case (5 l i x)
  then show ?case using bad_position(1) [of l i x] by (auto simp: KSI_List_insertAt_def)
next
  case (6 l i x)
  then show ?case using bad_position(2) [of l i x] by (auto simp: KSI_List_replaceAt_def)
next
  case (7 l i w)
  then show ?case using bad_position(3) [of l i w] by (auto simp: KSI_List_remove_def)
qed

lemma new_list [simp]:
  "list_wf (KSI_List_new b)" "list_abs (KSI_List_new b) = []" "freed (KSI_List_new b) = []"
  "obj_free (KSI_List_new b) = b"
  by (simp_all add: KSI_List_new_def list_wf_def impl_wf_def list_abs_def)

section \<open>Sorting is stable\<close>

lemma qinsert_insort:
  assumes "\<And>y. y \<in> set ys \<Longrightarrow> (c x y \<le> 0) = (key (f x) \<le> key (f y))"
  shows "map f (qinsert c x ys) = insort_key key (f x) (map f ys)"
  using assms by (induction ys) auto

lemma set_qinsert [simp]: "set (qinsert c x ys) = insert x (set ys)"
  by (induction ys) auto

lemma set_qsort [simp]: "set (qsort c xs) = set xs"
  by (induction xs) (auto simp: qsort_def)

lemma length_qsort [simp]: "length (qsort c xs) = length xs"
proof -
  have "length (qinsert c x ys) = Suc (length ys)" for x ys
    by (induction ys) auto
  then show ?thesis by (induction xs) (simp_all add: qsort_def)
qed

lemma length_prepareLoop [simp]: "length (prepareLoop c i es) = length es"
  by (induction c i es rule: prepareLoop.induct) auto

lemma prepareLoop_idx:
  "e \<in> set (prepareLoop c i es) \<Longrightarrow> i \<le> initialIdx e \<and> el_cmp e = Some c \<and> el_ptr e \<in> el_ptr ` set es"
  by (induction c i es rule: prepareLoop.induct) fastforce+

lemma qsort_prepared:
  assumes key: "\<And>p q. p \<in> el_ptr ` set es \<Longrightarrow> q \<in> el_ptr ` set es \<Longrightarrow>
      (c p q < 0 \<longleftrightarrow> key p < (key q :: 'k :: linorder)) \<and> (c p q = 0 \<longleftrightarrow> key p = key q)"
  shows "map el_ptr (qsort sortCmp (prepareLoop c i es)) = sort_key key (map el_ptr es)"
  using assms
proof (induction c i es rule: prepareLoop.induct)
  case (2 c i e es)
  let ?e = "e\<lparr>initialIdx := i, el_cmp := Some c\<rparr>"
  have "(sortCmp ?e y \<le> 0) = (key (el_ptr ?e) \<le> key (el_ptr y))"
    if "y \<in> set (qsort sortCmp (prepareLoop c (Suc i) es))" for y
  proof -
    from that prepareLoop_idx [of y c "Suc i" es]
    have y: "Suc i \<le> initialIdx y" "el_cmp y = Some c" "el_ptr y \<in> el_ptr ` set es" by auto
    have "(c (el_ptr e) (el_ptr y) < 0 \<longleftrightarrow> key (el_ptr e) < key (el_ptr y))
        \<and> (c (el_ptr e) (el_ptr y) = 0 \<longleftrightarrow> key (el_ptr e) = key (el_ptr y))"
      using 2 y(3) by auto
    with y(1,2) show ?thesis by (auto simp: sortCmp_def Let_def)
  qed
  then have "map el_ptr (qsort sortCmp (prepareLoop c i (e # es)))
      = insort_key key (el_ptr e) (map el_ptr (qsort sortCmp (prepareLoop c (Suc i) es)))"
    using qinsert_insort [of "qsort sortCmp (prepareLoop c (Suc i) es)" sortCmp ?e key el_ptr]
    by (simp add: qsort_def)
  with 2 show ?case by (simp add: sort_key_def)
qed (simp add: qsort_def)

lemma KSI_List_sort_ok:
  assumes "list_wf l" and "list_abs l \<noteq> []"
    and "\<And>p q. p \<in> set (list_abs l) \<Longrightarrow> q \<in> set (list_abs l) \<Longrightarrow>
      (c p q < 0 \<longleftrightarrow> key p < (key q :: 'k :: linorder)) \<and> (c p q = 0 \<longleftrightarrow> key p = key q)"
  shows "\<exists>l'. KSI_List_sort (Some l) (Some c) = Inr l' \<and> list_wf l' \<and> list_abs l' = sort_key key (list_abs l)"
proof -
  have len: "0 < length (list_abs l)" using assms(2) by simp
  from with_array_wf [OF assms(1) len] obtain impl a where a: "pImpl l = Some impl" "arr impl = Some a"
    "length a = arr_size impl" "arr_len impl \<le> arr_size impl"
    "list_abs l = map el_ptr (take (arr_len impl) a)"
    by blast
  have "map el_ptr (qsort sortCmp (prepareLoop c 0 (take (arr_len impl) a)))
      = sort_key key (map el_ptr (take (arr_len impl) a))"
    by (rule qsort_prepared) (use assms(3) a(5) in auto)
  with a show ?thesis
    by (auto simp: KSI_List_sort_def prepareSort_def with_array_def list_wf_def impl_wf_def list_abs_def)
qed

section \<open>Properties\<close>

text \<open>C26. Refinement and ownership: after any sequence of append, insert, replace and remove calls on a
  new list, successful or not, the list is well formed and holds exactly the sequence that the same
  calls produce on a mathematical list; and when the list is finally freed, the objects passed to the
  destructor together with those handed back to the caller are exactly the objects that were stored,
  each as often as it was stored: nothing leaks and nothing is freed twice.\<close>

theorem list_refines_and_conserves:
  assumes "run_ops ops (KSI_List_new True, {#}, {#}) = (l, stored, taken)"
  shows "list_wf l \<and> list_abs l = fold spec_op ops [] \<and> mset (KSI_List_free (Some l)) + taken = stored"
proof -
  from kl.exec_ops_run [of "KSI_List_new True" "{#}" "{#}" ops l stored taken] assms
  have "(list_wf l \<and> obj_free l) \<and> list_abs l = fold spec_op ops [] \<and> mset (list_abs l) + mset (freed l) + taken = stored"
    by (auto simp: run_ops_def)
  then show ?thesis by (auto simp: KSI_List_free_ok add.commute)
qed

theorem list_refines_and_conserves_witness:
  "\<exists>l stored taken.
     run_ops [OpAppend (Some (1::nat)), OpAppend (Some 2), OpInsertAt 0 (Some 3), OpRemove 1 True, OpInsertAt 9 (Some 4)]
       (KSI_List_new True, {#}, {#}) = (l, stored, taken)
     \<and> list_abs l = [Some 3, Some 2] \<and> mset (KSI_List_free (Some l)) + taken = stored"
proof -
  let ?ops = "[OpAppend (Some (1::nat)), OpAppend (Some 2), OpInsertAt 0 (Some 3), OpRemove 1 True, OpInsertAt 9 (Some 4)]"
  obtain l stored taken where r: "run_ops ?ops (KSI_List_new True, {#}, {#}) = (l, stored, taken)"
    by (cases "run_ops ?ops (KSI_List_new True, {#}, {#})") auto
  from list_refines_and_conserves [OF r] r show ?thesis by auto
qed

text \<open>Sorting: on a non-empty list and for a comparison function that orders by some key,
  \<^verbatim>\<open>KSI_List_sort\<close> succeeds and leaves the elements sorted by that key, equal keys in their old order.\<close>

theorem KSI_List_sort_stable:
  assumes "list_wf l" and "list_abs l \<noteq> []"
    and "\<And>p q. p \<in> set (list_abs l) \<Longrightarrow> q \<in> set (list_abs l) \<Longrightarrow>
      (c p q < 0 \<longleftrightarrow> key p < (key q :: 'k :: linorder)) \<and> (c p q = 0 \<longleftrightarrow> key p = key q)"
  shows "\<exists>l'. KSI_List_sort (Some l) (Some c) = Inr l' \<and> list_wf l' \<and> list_abs l' = sort_key key (list_abs l)"
  by (rule KSI_List_sort_ok [OF assms])

theorem KSI_List_sort_stable_witness:
  "\<exists>l l'. list_abs l = [Some (5::nat), Some 3] \<and> KSI_List_sort (Some l) (Some (\<lambda>p q. int (the p) - int (the q))) = Inr l'
     \<and> list_abs l' = [Some 3, Some 5]"
proof -
  from appendElement_ok [of "KSI_List_new True" "Some (5::nat)"] obtain l1 where
    l1: "list_wf l1" "list_abs l1 = [Some (5::nat)]" by auto
  from appendElement_ok [OF l1(1), of "Some 3"] obtain l2 where
    l2: "list_wf l2" "list_abs l2 = [Some (5::nat), Some 3]" using l1(2) by auto
  have "\<exists>l'. KSI_List_sort (Some l2) (Some (\<lambda>p q. int (the p) - int (the q))) = Inr l' \<and> list_wf l'
     \<and> list_abs l' = sort_key the (list_abs l2)"
    by (rule KSI_List_sort_stable) (auto simp: l2)
  with l2 show ?thesis by auto
qed

end
