(* ===== verification/FastTlv.thy ===== *)
theory FastTlv
  imports KsiPrelude
begin

text \<open>
  The TLV header reader of \<^verbatim>\<open>src/src/ksi/fast_tlv.c\<close>, over memory, over a file and over a socket,
  with the two byte sources of \<^verbatim>\<open>src/src/ksi/io.c\<close>.  A TLV starts with two bytes (short form) or
  four bytes (long form) holding the tag, two flags and the length of the payload.  Lengths and offsets
  (\<^verbatim>\<open>size_t\<close>) are natural numbers, the tag is an \<^verbatim>\<open>unsigned\<close>, a 32-bit word.
\<close>

section \<open>State and constants\<close>

record KSI_FTLV =
  off :: nat
  hdr_len :: nat
  dat_len :: nat
  tag :: u32
  is_nc :: bool
  is_fwd :: bool

definition KSI_TLV_MASK_TLV16 :: byte where "KSI_TLV_MASK_TLV16 = 0x80"
definition KSI_TLV_MASK_LENIENT :: byte where "KSI_TLV_MASK_LENIENT = 0x40"
definition KSI_TLV_MASK_FORWARD :: byte where "KSI_TLV_MASK_FORWARD = 0x20"
definition KSI_TLV_MASK_TLV8_TYPE :: byte where "KSI_TLV_MASK_TLV8_TYPE = 0x1f"

lemmas tlv_masks = KSI_TLV_MASK_TLV16_def KSI_TLV_MASK_LENIENT_def KSI_TLV_MASK_FORWARD_def
  KSI_TLV_MASK_TLV8_TYPE_def

definition ftlv_zero :: KSI_FTLV where
  "ftlv_zero = \<lparr>off = 0, hdr_len = 0, dat_len = 0, tag = 0, is_nc = False, is_fwd = False\<rparr>"

section \<open>Parsing a header\<close>

text \<open>\<^verbatim>\<open>parseHdr\<close> fills in as much of the result as the bytes allow, also when it fails.  The length
  argument of the C function is the length of the byte list.\<close>

definition parseHdr :: "bytes \<Rightarrow> KSI_FTLV \<Rightarrow> ksi_status \<times> KSI_FTLV" where
  "parseHdr hdr t =
     (if hdr = [] then (Some KSI_INVALID_FORMAT, t)
      else
        let t = t\<lparr>tag := ucast (hdr ! 0 AND KSI_TLV_MASK_TLV8_TYPE),
                   is_nc := (hdr ! 0 AND KSI_TLV_MASK_LENIENT \<noteq> 0),
                   is_fwd := (hdr ! 0 AND KSI_TLV_MASK_FORWARD \<noteq> 0)\<rparr>
        in if hdr ! 0 AND KSI_TLV_MASK_TLV16 \<noteq> 0 then
             let t = t\<lparr>hdr_len := 4\<rparr> in
             if length hdr > 1 then
               let t = t\<lparr>tag := push_bit 8 (tag t) OR ucast (hdr ! 1)\<rparr> in
               if length hdr > 2 then
                 let t = t\<lparr>dat_len := (unat (hdr ! 2) * 2 ^ 8) mod 2 ^ 16\<rparr> in
                 if length hdr > 3 then
                   (None, t\<lparr>dat_len := (dat_len t) OR unat (hdr ! 3)\<rparr>)
                 else (Some KSI_INVALID_FORMAT, t)
               else (Some KSI_INVALID_FORMAT, t)
             else (Some KSI_INVALID_FORMAT, t)
           else
             let t = t\<lparr>hdr_len := 2\<rparr> in
             if length hdr > 1 then (None, t\<lparr>dat_len := unat (hdr ! 1)\<rparr>)
             else (Some KSI_INVALID_FORMAT, t))"

section \<open>Reading from a byte source\<close>

text \<open>A byte source \<open>rd\<close> is asked for a number of bytes and returns a status, the bytes it read and
  the rest of the source.  The results are the status, \<open>consumed\<close>, the header, what stands in the
  buffer and the source.\<close>

type_synonym 'fd reader = "'fd \<Rightarrow> nat \<Rightarrow> ksi_status \<times> bytes \<times> 'fd"

definition readPayload ::
    "'fd reader \<Rightarrow> 'fd \<Rightarrow> nat \<Rightarrow> bytes \<Rightarrow> KSI_FTLV \<Rightarrow> ksi_status \<times> nat \<times> KSI_FTLV \<times> bytes \<times> 'fd" where
  "readPayload rd fd len buf t =
     (if len < hdr_len t + dat_len t then (Some KSI_BUFFER_OVERFLOW, length buf, t, buf, fd)
      else if dat_len t > 0 then
        (case rd fd (dat_len t) of (st, dat, fd) \<Rightarrow>
           (case st of Some e \<Rightarrow> (Some e, length buf + length dat, t, buf @ dat, fd)
            | None \<Rightarrow>
                ((if length dat \<noteq> dat_len t then Some KSI_INVALID_FORMAT else None),
                 length buf + length dat, t, buf @ dat, fd)))
      else (None, length buf, t, buf, fd))"

definition readHdr ::
    "'fd reader \<Rightarrow> 'fd \<Rightarrow> nat \<Rightarrow> bytes \<Rightarrow> KSI_FTLV \<Rightarrow> ksi_status \<times> nat \<times> KSI_FTLV \<times> bytes \<times> 'fd" where
  "readHdr rd fd len buf t =
     (case parseHdr buf t of
        (Some e, t) \<Rightarrow> (Some e, length buf, t, buf, fd)
      | (None, t) \<Rightarrow> readPayload rd fd len buf t)"

definition readData ::
    "'fd reader \<Rightarrow> 'fd \<Rightarrow> nat \<Rightarrow> KSI_FTLV \<Rightarrow> ksi_status \<times> nat \<times> KSI_FTLV \<times> bytes \<times> 'fd" where
  "readData rd fd len t =
     (if len < 2 then (Some KSI_INVALID_ARGUMENT, 0, t, [], fd)
      else case rd fd 2 of (st, buf, fd) \<Rightarrow>
        (case st of Some e \<Rightarrow> (Some e, length buf, t, buf, fd)
         | None \<Rightarrow>
           if length buf \<noteq> 2 then (Some KSI_INVALID_FORMAT, length buf, t, buf, fd)
           else if buf ! 0 AND KSI_TLV_MASK_TLV16 \<noteq> 0 then
             (if len < 4 then (Some KSI_BUFFER_OVERFLOW, length buf, t, buf, fd)
              else case rd fd 2 of (st, buf2, fd) \<Rightarrow>
                (case st of Some e \<Rightarrow> (Some e, length buf + length buf2, t, buf @ buf2, fd)
                 | None \<Rightarrow>
                   if length buf2 \<noteq> 2 then
                     (Some KSI_INVALID_FORMAT, length buf + length buf2, t, buf @ buf2, fd)
                   else readHdr rd fd len (buf @ buf2) t))
           else readHdr rd fd len buf t))"

text \<open>\<^verbatim>\<open>KSI_IO_readFile\<close>: \<^verbatim>\<open>fread\<close> returns what is left of the file, at most the requested size.\<close>

definition KSI_IO_readFile :: "bytes reader" where
  "KSI_IO_readFile f req =
     (if req = 0 then (Some KSI_INVALID_ARGUMENT, [], f) else (None, take req f, drop req f))"

text \<open>\<^verbatim>\<open>KSI_IO_readSocket\<close>: what the peer and the kernel do is a list of events; \<^verbatim>\<open>recv\<close> returns at
  most the requested number of bytes and leaves the rest of a chunk for the next call.  The list ends
  when the peer has closed the connection.\<close>

datatype recv_event = RecvData bytes | RecvWouldBlock | RecvTimedOut | RecvError

fun socketLoop :: "recv_event list \<Rightarrow> nat \<Rightarrow> bytes \<Rightarrow> ksi_status \<times> bytes \<times> recv_event list" where
  "socketLoop evs 0 acc = (None, acc, evs)"
| "socketLoop [] len acc = (Some KSI_NETWORK_ERROR, acc, [])"
| "socketLoop (RecvWouldBlock # evs) len acc = (Some KSI_NETWORK_RECIEVE_TIMEOUT, acc, evs)"
| "socketLoop (RecvTimedOut # evs) len acc = (Some KSI_NETWORK_RECIEVE_TIMEOUT, acc, evs)"
| "socketLoop (RecvError # evs) len acc = (Some KSI_IO_ERROR, acc, evs)"
| "socketLoop (RecvData chunk # evs) len acc =
     (if chunk = [] then (Some KSI_NETWORK_ERROR, acc, evs)
      else if length chunk > len then (None, acc @ take len chunk, RecvData (drop len chunk) # evs)
      else socketLoop evs (len - length chunk) (acc @ chunk))"

definition KSI_IO_readSocket :: "recv_event list reader" where
  "KSI_IO_readSocket evs req =
     (if req = 0 then (Some KSI_INVALID_ARGUMENT, [], evs) else socketLoop evs req [])"

definition KSI_FTLV_fileRead ::
    "bytes \<Rightarrow> nat \<Rightarrow> KSI_FTLV \<Rightarrow> ksi_status \<times> nat \<times> KSI_FTLV \<times> bytes \<times> bytes" where
  "KSI_FTLV_fileRead f len t = readData KSI_IO_readFile f len t"

definition KSI_FTLV_socketRead ::
    "recv_event list \<Rightarrow> nat \<Rightarrow> KSI_FTLV \<Rightarrow> ksi_status \<times> nat \<times> KSI_FTLV \<times> bytes \<times> recv_event list" where
  "KSI_FTLV_socketRead fd len t = readData KSI_IO_readSocket fd len t"

section \<open>Reading from memory\<close>

text \<open>Both branches of the source's test of \<^verbatim>\<open>m[0]\<close> make the same call.\<close>

definition KSI_FTLV_memRead :: "bytes option \<Rightarrow> KSI_FTLV \<Rightarrow> ksi_status \<times> KSI_FTLV" where
  "KSI_FTLV_memRead m t =
     (case m of None \<Rightarrow> (Some KSI_INVALID_ARGUMENT, t)
      | Some m \<Rightarrow>
        (case parseHdr m (t\<lparr>off := 0\<rparr>) of
           (Some e, t) \<Rightarrow> (Some e, t)
         | (None, t) \<Rightarrow> ((if length m < hdr_len t + dat_len t then Some KSI_INVALID_FORMAT else None), t)))"

text \<open>The loop of \<^verbatim>\<open>KSI_FTLV_memReadN\<close>; \<open>n\<close> is the number of free cells of the output array, \<open>None\<close>
  when there is no array and the call only counts.\<close>

lemma parseHdr_hdr_len: "parseHdr m t = (None, t') \<Longrightarrow> hdr_len t' = 2 \<or> hdr_len t' = 4"
  by (auto simp: parseHdr_def Let_def split: if_splits)

lemma memRead_hdr_len: "KSI_FTLV_memRead m t = (None, t') \<Longrightarrow> hdr_len t' = 2 \<or> hdr_len t' = 4"
  by (auto simp: KSI_FTLV_memRead_def split: option.splits prod.splits if_splits dest: parseHdr_hdr_len)

function memReadLoop :: "bytes \<Rightarrow> nat \<Rightarrow> nat option \<Rightarrow> KSI_FTLV list ksi_result" where
  "memReadLoop m base n =
     (if (n = None \<or> (\<exists>k. n = Some (Suc k))) \<and> m \<noteq> [] then
        (case KSI_FTLV_memRead (Some m) ftlv_zero of
           (Some e, t) \<Rightarrow> Inl e
         | (None, t) \<Rightarrow>
             rbind (memReadLoop (drop (hdr_len t + dat_len t) m) (base + (hdr_len t + dat_len t))
                      (map_option (\<lambda>k. k - 1) n))
               (\<lambda>ts. Inr (t\<lparr>off := base\<rparr> # ts)))
      else Inr [])"
  by pat_completeness auto
termination
  by (relation "measure (\<lambda>(m, base, n). length m)") (auto dest!: memRead_hdr_len [OF sym])

definition KSI_FTLV_memReadN :: "bytes option \<Rightarrow> bool \<Rightarrow> nat \<Rightarrow> KSI_FTLV list ksi_result" where
  "KSI_FTLV_memReadN buf has_arr arr_len =
     the_ptr buf KSI_INVALID_ARGUMENT (\<lambda>buf.
       check (buf = [] \<or> (has_arr \<and> arr_len = 0) \<or> (\<not> has_arr \<and> arr_len \<noteq> 0)) KSI_INVALID_ARGUMENT
         (memReadLoop buf 0 (if arr_len = 0 then None else Some arr_len)))"

declare memReadLoop.simps [simp del]

section \<open>Facts about a parsed header\<close>

lemma nat_or_low: "b < 256 \<Longrightarrow> (a * 256) OR b = a * 256 + (b :: nat)"
proof -
  assume b: "b < 256"
  have "push_bit 8 a AND take_bit 8 b = 0"
    by (rule bit_eqI) (auto simp: bit_simps)
  moreover have "take_bit 8 b = b" using b by (simp add: take_bit_nat_eq_self_iff)
  moreover have "push_bit 8 a = a * 256" by (simp add: push_bit_eq_mult)
  ultimately have "(a * 256) AND b = 0" by simp
  then show ?thesis by (simp add: disjunctive_add_eq_or)
qed

lemma unat_tag16:
  "unat (push_bit 8 (ucast (x :: byte)) OR ucast (y :: byte) :: u32) = unat x * 256 + unat y"
proof -
  have "unat x * 256 < 4294967296" using unat_byte_less [of x] by linarith
  then have "take_bit 32 (push_bit 8 (unat x)) = unat x * 256"
    by (simp add: push_bit_eq_mult take_bit_nat_eq_self)
  then have "unat (push_bit 8 (ucast x) OR ucast y :: u32) = (unat x * 256) OR unat y"
    by (simp add: unsigned_or_eq unsigned_push_bit_eq unsigned_ucast_eq take_bit_nat_eq_self
        unat_byte_less [THEN less_trans])
  then show ?thesis by (simp add: nat_or_low)
qed

lemma unat_low5: "unat (b AND 0x1f :: byte) < 32"
proof -
  have "b AND 0x1f \<le> (0x1f :: byte)" by (rule word_and_le1)
  then have "unat (b AND 0x1f) \<le> unat (0x1f :: byte)" by (simp only: word_le_nat_alt)
  then show ?thesis by simp
qed

lemma parseHdr_short:
  "b0 AND 0x80 = 0 \<Longrightarrow>
   parseHdr (b0 # b1 # m) t =
     (None, t\<lparr>tag := ucast (b0 AND 0x1f), is_nc := (b0 AND 0x40 \<noteq> 0), is_fwd := (b0 AND 0x20 \<noteq> 0),
              hdr_len := 2, dat_len := unat b1\<rparr>)"
  by (simp add: parseHdr_def Let_def tlv_masks)

lemma parseHdr_long:
  "b0 AND 0x80 \<noteq> 0 \<Longrightarrow>
   parseHdr (b0 # b1 # b2 # b3 # m) t =
     (None, t\<lparr>tag := push_bit 8 (ucast (b0 AND 0x1f)) OR ucast b1,
              is_nc := (b0 AND 0x40 \<noteq> 0), is_fwd := (b0 AND 0x20 \<noteq> 0),
              hdr_len := 4, dat_len := unat b2 * 256 + unat b3\<rparr>)"
proof -
  have "unat b2 * 256 mod 65536 = unat b2 * 256" using unat_byte_less [of b2] by simp
  then show "b0 AND 0x80 \<noteq> 0 \<Longrightarrow> ?thesis"
    by (simp add: parseHdr_def Let_def tlv_masks nat_or_low)
qed

lemma parseHdr_ok_cases:
  assumes "parseHdr m t = (None, t')"
  obtains b0 b1 r where "m = b0 # b1 # r" and "b0 AND 0x80 = 0" and "parseHdr (b0 # b1 # r) t = (None, t')"
  | b0 b1 b2 b3 r where "m = b0 # b1 # b2 # b3 # r" and "b0 AND 0x80 \<noteq> 0"
      and "parseHdr (b0 # b1 # b2 # b3 # r) t = (None, t')"
proof (cases "hd m AND 0x80 = 0")
  case True
  with assms have "length m > 1"
    by (auto simp: parseHdr_def Let_def tlv_masks hd_conv_nth split: if_splits)
  then obtain b0 b1 r where "m = b0 # b1 # r"
    by (auto simp: Suc_le_eq [symmetric] Suc_le_length_iff)
  with True that(1) assms show ?thesis by simp
next
  case False
  with assms have "length m > 3"
    by (auto simp: parseHdr_def Let_def tlv_masks hd_conv_nth split: if_splits)
  then obtain b0 b1 b2 b3 r where "m = b0 # b1 # b2 # b3 # r"
    by (auto simp: Suc_le_eq [symmetric] Suc_le_length_iff numeral_eq_Suc)
  with False that(2) assms show ?thesis by simp
qed

text \<open>A successful parse does not depend on what stood in the result before.\<close>

lemma parseHdr_indep: "parseHdr m t = (None, t') \<Longrightarrow> parseHdr m s = (None, t'\<lparr>off := off s\<rparr>)"
  by (erule parseHdr_ok_cases) (auto simp: parseHdr_short parseHdr_long)

lemma parseHdr_append: "parseHdr m t = (None, t') \<Longrightarrow> parseHdr (m @ r) t = (None, t')"
  by (erule parseHdr_ok_cases) (auto simp: parseHdr_short parseHdr_long)

lemma parseHdr_take: "parseHdr m t = (None, t') \<Longrightarrow> parseHdr (take (hdr_len t') m) t = (None, t')"
  by (erule parseHdr_ok_cases) (auto simp: parseHdr_short parseHdr_long)

lemma parseHdr_bounds:
  assumes "parseHdr m t = (None, t')"
  shows "hdr_len t' \<le> length m \<and> off t' = off t \<and>
    (hdr_len t' = 2 \<and> dat_len t' < 2 ^ 8 \<and> unat (tag t') < 2 ^ 5 \<or>
     hdr_len t' = 4 \<and> dat_len t' < 2 ^ 16 \<and> unat (tag t') < 2 ^ 13)"
  using assms
proof (cases rule: parseHdr_ok_cases [consumes 1])
  case (1 b0 b1 r)
  then show ?thesis
    using unat_low5 [of b0] by (auto simp: parseHdr_short unsigned_ucast_eq take_bit_nat_eq_self)
next
  case (2 b0 b1 b2 b3 r)
  have "unat (b0 AND 0x1f) * 256 + unat b1 < 8192" "unat b2 * 256 + unat b3 < 65536"
    using unat_low5 [of b0] unat_byte_less [of b1] unat_byte_less [of b2] unat_byte_less [of b3] by linarith+
  with 2 show ?thesis
    by (auto simp: parseHdr_long unat_tag16)
qed

lemma memRead_iff:
  "KSI_FTLV_memRead (Some m) t = (None, t') \<longleftrightarrow>
   parseHdr m (t\<lparr>off := 0\<rparr>) = (None, t') \<and> hdr_len t' + dat_len t' \<le> length m"
  by (auto simp: KSI_FTLV_memRead_def split: prod.splits option.splits if_splits)

lemma memRead_take:
  assumes "KSI_FTLV_memRead (Some m) t = (None, t')"
  shows "KSI_FTLV_memRead (Some (take (hdr_len t' + dat_len t') m @ r)) t = (None, t')"
proof -
  from assms have p: "parseHdr m (t\<lparr>off := 0\<rparr>) = (None, t')" and len: "hdr_len t' + dat_len t' \<le> length m"
    by (simp_all add: memRead_iff)
  have "take (hdr_len t' + dat_len t') m @ r = take (hdr_len t') m @ (take (dat_len t') (drop (hdr_len t') m) @ r)"
    by (simp add: take_add)
  with parseHdr_append [OF parseHdr_take [OF p]] have
    "parseHdr (take (hdr_len t' + dat_len t') m @ r) (t\<lparr>off := 0\<rparr>) = (None, t')" by simp
  with len show ?thesis by (simp add: memRead_iff)
qed

section \<open>Reading several TLVs from memory\<close>

abbreviation ftlv_len :: "KSI_FTLV \<Rightarrow> nat" where
  "ftlv_len t \<equiv> hdr_len t + dat_len t"

text \<open>\<open>tiles m base ts\<close>: the headers \<open>ts\<close> lie one after the other in \<open>m\<close>, which starts at offset
  \<open>base\<close>, each of them the header found in memory at its offset.\<close>

fun tiles :: "bytes \<Rightarrow> nat \<Rightarrow> KSI_FTLV list \<Rightarrow> bool" where
  "tiles m base [] = True"
| "tiles m base (t # ts) =
     (off t = base \<and> KSI_FTLV_memRead (Some m) ftlv_zero = (None, t\<lparr>off := 0\<rparr>)
      \<and> tiles (drop (ftlv_len t) m) (base + ftlv_len t) ts)"

lemma memRead_off [simp]: "KSI_FTLV_memRead m ftlv_zero = (None, t) \<Longrightarrow> off t = 0"
  by (cases m) (auto simp: KSI_FTLV_memRead_def split: prod.splits option.splits if_splits
      dest: parseHdr_bounds)

lemma memReadLoop_tiles:
  "memReadLoop m base n = Inr ts \<Longrightarrow>
   tiles m base ts \<and> (n = None \<longrightarrow> sum_list (map ftlv_len ts) = length m)
   \<and> (\<forall>k. n = Some k \<longrightarrow> length ts \<le> k \<and> (length ts < k \<longrightarrow> sum_list (map ftlv_len ts) = length m))"
proof (induction m base n arbitrary: ts rule: memReadLoop.induct)
  case (1 m base n)
  show ?case
  proof (cases "(n = None \<or> (\<exists>k. n = Some (Suc k))) \<and> m \<noteq> []")
    case False
    with "1.prems" have "ts = []" by (subst (asm) memReadLoop.simps) simp
    with False show ?thesis by (auto simp: gr0_conv_Suc)
  next
    case True
    obtain st t where r: "KSI_FTLV_memRead (Some m) ftlv_zero = (st, t)"
      by (cases "KSI_FTLV_memRead (Some m) ftlv_zero")
    with True "1.prems" have st: "st = None"
      by (subst (asm) memReadLoop.simps) (cases st, simp_all)
    with True "1.prems" r obtain ts' where
      ts': "memReadLoop (drop (ftlv_len t) m) (base + ftlv_len t) (map_option (\<lambda>k. k - 1) n) = Inr ts'"
        "ts = t\<lparr>off := base\<rparr> # ts'"
      by (subst (asm) memReadLoop.simps) (auto simp: rbind_eq_Inr)
    have len: "ftlv_len t \<le> length m" using r st by (simp add: memRead_iff)
    have IH: "tiles (drop (ftlv_len t) m) (base + ftlv_len t) ts'
      \<and> (n = None \<longrightarrow> sum_list (map ftlv_len ts') = length m - ftlv_len t)
      \<and> (\<forall>k. map_option (\<lambda>k. k - 1) n = Some k \<longrightarrow> length ts' \<le> k
            \<and> (length ts' < k \<longrightarrow> sum_list (map ftlv_len ts') = length m - ftlv_len t))"
      using "1.IH" [OF True r [symmetric] st ts'(1)] by simp
    have "t\<lparr>off := 0\<rparr> = t" using r st by simp
    with IH len r st ts'(2) True show ?thesis by (cases n) auto
  qed
qed

section \<open>Reading from a byte source\<close>

text \<open>What a byte source promises: while it holds enough bytes it delivers exactly the next ones.\<close>

locale byte_source =
  fixes rd :: "'fd reader"
    and contents :: "'fd \<Rightarrow> bytes"
    and live :: "'fd \<Rightarrow> bool"
  assumes deliver: "live fd \<Longrightarrow> 0 < n \<Longrightarrow> n \<le> length (contents fd) \<Longrightarrow>
     \<exists>fd'. rd fd n = (None, take n (contents fd), fd') \<and> contents fd' = drop n (contents fd) \<and> live fd'"
begin

lemma readPayload_complete:
  assumes "live fd" and "dat_len t \<le> length (contents fd)" and "hdr_len t + dat_len t \<le> len"
    and "length buf = hdr_len t"
  shows "\<exists>fd'. readPayload rd fd len buf t = (None, ftlv_len t, t, buf @ take (dat_len t) (contents fd), fd')
     \<and> contents fd' = drop (dat_len t) (contents fd) \<and> live fd'"
proof (cases "dat_len t = 0")
  case True
  with assms show ?thesis by (simp add: readPayload_def)
next
  case False
  with deliver [OF assms(1), of "dat_len t"] assms show ?thesis
    by (auto simp: readPayload_def split: prod.splits)
qed

lemma readData_complete:
  assumes live: "live fd" and mem: "KSI_FTLV_memRead (Some (contents fd)) ftlv_zero = (None, t')"
    and len: "ftlv_len t' \<le> len"
  shows "\<exists>fd'. readData rd fd len t =
       (None, ftlv_len t', t'\<lparr>off := off t\<rparr>, take (ftlv_len t') (contents fd), fd')
     \<and> contents fd' = drop (ftlv_len t') (contents fd) \<and> live fd'"
proof -
  let ?m = "contents fd" and ?t = "t'\<lparr>off := off t\<rparr>"
  have p: "parseHdr ?m ftlv_zero = (None, t')" and mlen: "ftlv_len t' \<le> length ?m"
    using mem by (simp_all add: memRead_iff ftlv_zero_def)
  have hdr: "parseHdr (take (hdr_len t') ?m) t = (None, ?t)"
    using parseHdr_indep [OF parseHdr_take [OF p]] by simp
  have two: "length ?m \<ge> 2" "len \<ge> 2" using parseHdr_bounds [OF p] len by auto
  have hd0: "?m ! 0 = hd ?m" using two by (cases ?m) auto
  from deliver [OF live _ two(1)] obtain fd1 where
    fd1: "rd fd 2 = (None, take 2 ?m, fd1)" "contents fd1 = drop 2 ?m" "live fd1" by auto
  show ?thesis
  proof (cases "hd ?m AND 0x80 = 0")
    case True
    have h: "hdr_len t' = 2"
      using p True by (cases rule: parseHdr_ok_cases [consumes 1]) (auto simp: parseHdr_short)
    have d: "dat_len t' \<le> length ?m - 2" using h mlen by simp
    from readPayload_complete [OF fd1(3), of ?t len "take 2 ?m"] fd1(2) d len h two
    obtain fd' where "readPayload rd fd1 len (take 2 ?m) ?t =
        (None, ftlv_len t', ?t, take 2 ?m @ take (dat_len t') (drop 2 ?m), fd')"
      "contents fd' = drop (dat_len t') (drop 2 ?m)" "live fd'" by auto
    moreover have "readData rd fd len t = readPayload rd fd1 len (take 2 ?m) ?t"
      using two True h hdr fd1(1)
      by (simp add: readData_def tlv_masks readHdr_def hd0)
    moreover have "take (ftlv_len t') ?m = take 2 ?m @ take (dat_len t') (drop 2 ?m)"
      unfolding h by (rule take_add)
    ultimately show ?thesis using h by auto
  next
    case False
    have h: "hdr_len t' = 4"
      using p False by (cases rule: parseHdr_ok_cases [consumes 1]) (auto simp: parseHdr_long)
    have "2 \<le> length ?m - 2" using h mlen by simp
    with deliver [OF fd1(3), of 2] fd1(2) obtain fd2 where
      fd2: "rd fd1 2 = (None, take 2 (drop 2 ?m), fd2)" "contents fd2 = drop 2 (drop 2 ?m)" "live fd2" by auto
    have four: "take 2 ?m @ take 2 (drop 2 ?m) = take 4 ?m" by (simp add: take_add [symmetric])
    have d: "dat_len t' \<le> length ?m - 4" "4 \<le> length ?m" using h mlen by simp_all
    from readPayload_complete [OF fd2(3), of ?t len "take 4 ?m"] fd2(2) d len h
    obtain fd' where fd': "readPayload rd fd2 len (take 4 ?m) ?t =
        (None, ftlv_len t', ?t, take 4 ?m @ take (dat_len t') (drop 4 ?m), fd')"
      "contents fd' = drop (dat_len t') (drop 4 ?m)" "live fd'" by auto
    have "readData rd fd len t = readHdr rd fd2 len (take 4 ?m) t"
      using two False h len mlen fd1(1) fd2(1) four
      by (simp add: readData_def tlv_masks hd0)
    also have "\<dots> = readPayload rd fd2 len (take 4 ?m) ?t"
      using hdr h by (simp add: readHdr_def)
    finally have "readData rd fd len t = readPayload rd fd2 len (take 4 ?m) ?t" .
    moreover have "take (ftlv_len t') ?m = take 4 ?m @ take (dat_len t') (drop 4 ?m)"
      unfolding h by (rule take_add)
    ultimately show ?thesis using fd' h by (auto simp: add.commute)
  qed
qed

end

interpretation fsrc: byte_source KSI_IO_readFile "\<lambda>f. f" "\<lambda>f. True"
  by unfold_locales (simp add: KSI_IO_readFile_def)

text \<open>A socket from which only data arrives, in chunks of any sizes.\<close>

fun event_bytes :: "recv_event \<Rightarrow> bytes" where
  "event_bytes (RecvData bs) = bs"
| "event_bytes _ = []"

definition only_data :: "recv_event list \<Rightarrow> bool" where
  "only_data evs = list_all (\<lambda>e. event_bytes e \<noteq> []) evs"

lemma socketLoop_delivers:
  "only_data evs \<Longrightarrow> n \<le> length (concat (map event_bytes evs)) \<Longrightarrow>
   \<exists>evs'. socketLoop evs n acc = (None, acc @ take n (concat (map event_bytes evs)), evs')
     \<and> concat (map event_bytes evs') = drop n (concat (map event_bytes evs)) \<and> only_data evs'"
proof (induction evs n acc rule: socketLoop.induct)
  case (6 chunk evs len acc)
  then show ?case
    by (cases "length chunk > Suc len") (auto simp: only_data_def)
qed (auto simp: only_data_def)

interpretation ssrc: byte_source KSI_IO_readSocket "\<lambda>evs. concat (map event_bytes evs)" only_data
proof
  fix fd n
  assume "only_data fd" "0 < n" "n \<le> length (concat (map event_bytes fd))"
  then show "\<exists>fd'. KSI_IO_readSocket fd n = (None, take n (concat (map event_bytes fd)), fd')
      \<and> concat (map event_bytes fd') = drop n (concat (map event_bytes fd)) \<and> only_data fd'"
    using socketLoop_delivers [of fd n "[]"] by (simp add: KSI_IO_readSocket_def)
qed

section \<open>Properties\<close>

text \<open>A successful \<^verbatim>\<open>KSI_FTLV_memRead\<close> stays inside the buffer: header and payload fit in it, the
  header has two or four bytes, and the tag and the payload length are within the field widths of the
  form that was found.\<close>

theorem memRead_in_bounds:
  assumes "KSI_FTLV_memRead (Some m) t = (None, t')"
  shows "hdr_len t' + dat_len t' \<le> length m \<and> off t' = 0 \<and>
    (hdr_len t' = 2 \<and> dat_len t' < 2 ^ 8 \<and> unat (tag t') < 2 ^ 5 \<or>
     hdr_len t' = 4 \<and> dat_len t' < 2 ^ 16 \<and> unat (tag t') < 2 ^ 13)"
  using assms parseHdr_bounds [of m "t\<lparr>off := 0\<rparr>" t'] by (simp add: memRead_iff)

theorem memRead_in_bounds_witness:
  "hdr_len (snd (KSI_FTLV_memRead (Some [0x88, 0x02, 0x00, 0x01, 0xaa, 0xbb]) ftlv_zero)) = 4"
proof -
  have r: "KSI_FTLV_memRead (Some [0x88, 0x02, 0x00, 0x01, 0xaa, 0xbb]) ftlv_zero
      = (None, \<lparr>off = 0, hdr_len = 4, dat_len = 1, tag = 0x802, is_nc = False, is_fwd = False\<rparr>)"
    by (simp add: KSI_FTLV_memRead_def parseHdr_def tlv_masks ftlv_zero_def Let_def)
  from memRead_in_bounds [OF r] r show ?thesis by simp
qed

text \<open>\<^verbatim>\<open>KSI_FTLV_memReadN\<close> without an output limit splits the whole buffer: the headers it returns
  carry consecutive offsets, each is the header that stands at its offset, and their extents add up to
  the length of the buffer.\<close>

theorem memReadN_tiles_buffer:
  assumes "KSI_FTLV_memReadN (Some buf) False 0 = Inr ts"
  shows "tiles buf 0 ts \<and> sum_list (map ftlv_len ts) = length buf"
  using assms memReadLoop_tiles [of buf 0 None ts] by (simp add: KSI_FTLV_memReadN_def)

theorem memReadN_tiles_buffer_witness:
  "\<exists>ts. KSI_FTLV_memReadN (Some [0x01, 0x01, 0xaa, 0x02, 0x00]) False 0 = Inr ts \<and> map ftlv_len ts = [3, 2]
     \<and> tiles [0x01, 0x01, 0xaa, 0x02, 0x00] 0 ts"
proof -
  have r: "KSI_FTLV_memReadN (Some [0x01, 0x01, 0xaa, 0x02, 0x00]) False 0 =
     Inr [\<lparr>off = 0, hdr_len = 2, dat_len = 1, tag = 1, is_nc = False, is_fwd = False\<rparr>,
          \<lparr>off = 3, hdr_len = 2, dat_len = 0, tag = 2, is_nc = False, is_fwd = False\<rparr>]"
    by (simp add: KSI_FTLV_memReadN_def memReadLoop.simps KSI_FTLV_memRead_def parseHdr_def tlv_masks
        ftlv_zero_def Let_def)
  from memReadN_tiles_buffer [OF r] r show ?thesis by simp
qed

text \<open>C34. Reading a TLV from a socket gives the same header, the same bytes and the same count as reading
  it from a file with the same contents, however the bytes are cut into chunks on the way, and leaves
  the bytes that follow the TLV unread.\<close>

theorem socketRead_as_fileRead:
  assumes "only_data evs" and "KSI_FTLV_memRead (Some (concat (map event_bytes evs))) ftlv_zero = (None, t')"
    and "hdr_len t' + dat_len t' \<le> len"
  shows "\<exists>rest evs'. KSI_FTLV_fileRead (concat (map event_bytes evs)) len t =
       (None, ftlv_len t', t'\<lparr>off := off t\<rparr>, take (ftlv_len t') (concat (map event_bytes evs)), rest)
     \<and> KSI_FTLV_socketRead evs len t =
       (None, ftlv_len t', t'\<lparr>off := off t\<rparr>, take (ftlv_len t') (concat (map event_bytes evs)), evs')
     \<and> rest = drop (ftlv_len t') (concat (map event_bytes evs)) \<and> concat (map event_bytes evs') = rest"
  using fsrc.readData_complete [OF _ assms(2,3)] ssrc.readData_complete [OF assms]
  by (fastforce simp: KSI_FTLV_fileRead_def KSI_FTLV_socketRead_def)

theorem socketRead_as_fileRead_witness:
  "\<exists>evs'. KSI_FTLV_socketRead [RecvData [0x01], RecvData [0x02, 0xaa], RecvData [0xbb, 0xcc]] 10 ftlv_zero =
     (None, 4, \<lparr>off = 0, hdr_len = 2, dat_len = 2, tag = 1, is_nc = False, is_fwd = False\<rparr>, [0x01, 0x02, 0xaa, 0xbb], evs')
     \<and> concat (map event_bytes evs') = [0xcc]"
proof -
  let ?evs = "[RecvData [0x01], RecvData [0x02, 0xaa], RecvData [0xbb, 0xcc]]"
  let ?t = "\<lparr>off = 0, hdr_len = 2, dat_len = 2, tag = 1, is_nc = False, is_fwd = False\<rparr> :: KSI_FTLV"
  have o: "only_data ?evs" by (simp add: only_data_def)
  have r: "KSI_FTLV_memRead (Some (concat (map event_bytes ?evs))) ftlv_zero = (None, ?t)"
    by (simp add: KSI_FTLV_memRead_def parseHdr_def tlv_masks ftlv_zero_def Let_def)
  from socketRead_as_fileRead [OF o r, of 10 ftlv_zero] show ?thesis by (auto simp: ftlv_zero_def)
qed

end
