(* ===== verification/Tlv.thy ===== *)
theory Tlv
  imports FastTlv
begin

text \<open>
  The TLV object of \<^verbatim>\<open>src/src/ksi/tlv.c\<close>: a tag with two flags and a payload that is either raw
  bytes or a list of nested TLVs, converted on demand from one form to the other, parsed from and
  serialized to bytes.  Serialization fills a buffer from its end; the model computes the bytes that
  end up there and takes the size of the buffer, \<open>None\<close> for a call without a buffer that only asks for
  the length.  The bytes a TLV points at are part of its value; whether the TLV owns a buffer, of which
  size, and whether that buffer has been released is its \<open>buffer\<close> field.
\<close>

section \<open>State\<close>

datatype tlv_buffer = BufNull | BufOwned nat | BufFreed nat

datatype KSI_TLV = KSI_TLV
  (isNonCritical: bool) (isForwardable: bool) (tlv_tag: u32) (buffer: tlv_buffer)
  (nested: "KSI_TLV list option") (datap: bytes) (absoluteOffset: nat)

definition KSI_BUFFER_SIZE :: nat where
  "KSI_BUFFER_SIZE = 0xffff + 1"

definition KSI_TLV_new :: "u32 \<Rightarrow> bool \<Rightarrow> bool \<Rightarrow> KSI_TLV" where
  "KSI_TLV_new tg isLenient isForward = KSI_TLV isLenient isForward tg BufNull None [] 0"

fun set_raw :: "tlv_buffer \<Rightarrow> bytes \<Rightarrow> KSI_TLV \<Rightarrow> KSI_TLV" where
  "set_raw b d (KSI_TLV nc fwd tg buf nst dat ao) = KSI_TLV nc fwd tg b None d ao"

fun set_nested :: "KSI_TLV list option \<Rightarrow> KSI_TLV \<Rightarrow> KSI_TLV" where
  "set_nested l (KSI_TLV nc fwd tg buf nst dat ao) = KSI_TLV nc fwd tg buf l dat ao"

fun set_buffer :: "tlv_buffer \<Rightarrow> KSI_TLV \<Rightarrow> KSI_TLV" where
  "set_buffer b (KSI_TLV nc fwd tg buf nst dat ao) = KSI_TLV nc fwd tg b nst dat ao"

fun move_offset :: "nat \<Rightarrow> KSI_TLV \<Rightarrow> KSI_TLV" where
  "move_offset n (KSI_TLV nc fwd tg buf nst dat ao) = KSI_TLV nc fwd tg buf nst dat (ao + n)"

section \<open>Serialization\<close>

definition flag_bits :: "bool \<Rightarrow> bool \<Rightarrow> byte" where
  "flag_bits nc fwd = (if nc then KSI_TLV_MASK_LENIENT else 0) OR (if fwd then KSI_TLV_MASK_FORWARD else 0)"

text \<open>The header \<^verbatim>\<open>serializeTlv\<close> writes in front of a payload of \<open>len\<close> bytes.\<close>

definition tlv_header :: "u32 \<Rightarrow> bool \<Rightarrow> bool \<Rightarrow> nat \<Rightarrow> bytes" where
  "tlv_header tg nc fwd len =
     (if len > 0xff \<or> tg > ucast KSI_TLV_MASK_TLV8_TYPE then
        [KSI_TLV_MASK_TLV16 OR flag_bits nc fwd OR ucast (drop_bit 8 tg), ucast (tg AND 0xff),
         of_nat (len div 2 ^ 8), of_nat len]
      else [flag_bits nc fwd OR ucast tg, of_nat len])"

definition serializeRaw :: "bytes \<Rightarrow> nat option \<Rightarrow> bytes ksi_result" where
  "serializeRaw dat cap =
     (case cap of None \<Rightarrow> Inr dat
      | Some buf_size \<Rightarrow> if buf_size < length dat then Inl KSI_INVALID_ARGUMENT else Inr dat)"

text \<open>\<open>serializeTlv\<close> is the C function of that name; \<open>hdr\<close> is the absence of the option
  \<^verbatim>\<open>KSI_TLV_OPT_NO_HEADER\<close>.  \<open>serializeNested\<close> is the loop over the nested list, last element first,
  each element into what the later ones left of the buffer.\<close>

fun serializeTlv :: "KSI_TLV \<Rightarrow> nat option \<Rightarrow> bool \<Rightarrow> bytes ksi_result"
and serializePayload :: "KSI_TLV list option \<Rightarrow> bytes \<Rightarrow> nat option \<Rightarrow> bytes ksi_result"
and serializeNested :: "KSI_TLV list \<Rightarrow> nat option \<Rightarrow> bytes ksi_result" where
  "serializeTlv (KSI_TLV nc fwd tg buf nst dat ao) cap hdr =
     rbind (serializePayload nst dat cap) (\<lambda>payload.
       if hdr then
         let h = tlv_header tg nc fwd (length payload) in
         (case cap of None \<Rightarrow> Inr (h @ payload)
          | Some buf_size \<Rightarrow>
              if buf_size < length h + length payload then Inl KSI_BUFFER_OVERFLOW
              else Inr (h @ payload))
       else Inr payload)"
| "serializePayload (Some l) dat cap = serializeNested l cap"
| "serializePayload None dat cap = serializeRaw dat cap"
| "serializeNested [] cap = Inr []"
| "serializeNested (t # ts) cap =
     rbind (serializeNested ts cap) (\<lambda>rest.
     rbind (serializeTlv t (map_option (\<lambda>n. n - length rest) cap) True) (\<lambda>b. Inr (b @ rest)))"

text \<open>\<^verbatim>\<open>KSI_TLV_writeBytes\<close> on a caller's buffer: the serialization is left at the end of the buffer and,
  unless \<^verbatim>\<open>KSI_TLV_OPT_NO_MOVE\<close> is given, copied byte by byte to its beginning.\<close>

fun moveLoop :: "nat \<Rightarrow> nat \<Rightarrow> nat \<Rightarrow> bytes \<Rightarrow> bytes" where
  "moveLoop 0 i src buf = buf"
| "moveLoop (Suc n) i src buf = moveLoop n (Suc i) src (buf[i := buf ! (src + i)])"

definition KSI_TLV_writeBytes ::
    "KSI_TLV \<Rightarrow> bytes option \<Rightarrow> bool \<Rightarrow> bool \<Rightarrow> (bytes option \<times> nat) ksi_result" where
  "KSI_TLV_writeBytes t buf hdr move =
     rbind (serializeTlv t (map_option length buf) hdr) (\<lambda>out.
       Inr (map_option (\<lambda>buf.
              let buf = take (length buf - length out) buf @ out in
              if move then moveLoop (length out) 0 (length buf - length out) buf else buf) buf,
            length out))"

definition KSI_TLV_serialize_ex :: "KSI_TLV \<Rightarrow> bytes option \<Rightarrow> (bytes option \<times> nat) ksi_result" where
  "KSI_TLV_serialize_ex t buf = KSI_TLV_writeBytes t buf True True"

definition KSI_TLV_serialize :: "KSI_TLV \<Rightarrow> bytes ksi_result" where
  "KSI_TLV_serialize t =
     rbind (KSI_TLV_serialize_ex t (Some (replicate (4 + KSI_BUFFER_SIZE) 0))) (\<lambda>(buf, len).
       Inr (take len (the buf)))"

definition KSI_TLV_serializePayload :: "KSI_TLV \<Rightarrow> bytes option \<Rightarrow> (bytes option \<times> nat) ksi_result" where
  "KSI_TLV_serializePayload t buf = KSI_TLV_writeBytes t buf False True"

section \<open>Raw and nested form\<close>

definition createOwnBuffer :: "KSI_TLV \<Rightarrow> bool \<Rightarrow> KSI_TLV ksi_result" where
  "createOwnBuffer t cp =
     check (buffer t \<noteq> BufNull) KSI_INVALID_ARGUMENT
       (Inr (KSI_TLV (isNonCritical t) (isForwardable t) (tlv_tag t) (BufOwned KSI_BUFFER_SIZE) (nested t)
              (if cp then datap t else []) (absoluteOffset t)))"

text \<open>\<^verbatim>\<open>encodeAsRaw\<close> serializes the nested list into the TLV's own buffer, or into a new one.  When that
  fails, the buffer is released although the TLV still points to it.\<close>

definition buffer_size :: "tlv_buffer \<Rightarrow> nat" where
  "buffer_size b = (case b of BufNull \<Rightarrow> 0 | BufOwned n \<Rightarrow> n | BufFreed n \<Rightarrow> n)"

definition encodeAsRaw :: "KSI_TLV \<Rightarrow> ksi_status \<times> KSI_TLV" where
  "encodeAsRaw t =
     (if nested t = None then (None, t)
      else
        let buf_size = (if buffer t = BufNull then 0xffff + 1 else buffer_size (buffer t)) in
        (case KSI_TLV_serializePayload t (Some (replicate buf_size 0)) of
           Inl e \<Rightarrow> (Some e, if buffer t = BufNull then t else set_buffer (BufFreed buf_size) t)
         | Inr (buf, len) \<Rightarrow> (None, set_raw (BufOwned buf_size) (take len (the buf)) t)))"

definition KSI_TLV_getRawValue :: "KSI_TLV \<Rightarrow> ksi_status \<times> bytes \<times> KSI_TLV" where
  "KSI_TLV_getRawValue t =
     (if nested t \<noteq> None then
        (case encodeAsRaw t of (Some e, t) \<Rightarrow> (Some e, [], t) | (None, t) \<Rightarrow> (None, datap t, t))
      else (None, datap t, t))"

definition KSI_TLV_setRawValue :: "KSI_TLV \<Rightarrow> bytes option \<Rightarrow> KSI_TLV ksi_result" where
  "KSI_TLV_setRawValue t data =
     (let bs = (case data of None \<Rightarrow> [] | Some bs \<Rightarrow> bs) in
      check (length bs \<ge> KSI_BUFFER_SIZE) KSI_BUFFER_OVERFLOW
        (rbind (if buffer t = BufNull \<and> bs \<noteq> [] then createOwnBuffer t False else Inr t) (\<lambda>t.
           check (buffer_size (buffer t) < length bs) KSI_BUFFER_OVERFLOW
             (Inr (set_raw (buffer t) bs t)))))"

section \<open>Parsing\<close>

definition readFirstTlv :: "bytes \<Rightarrow> (KSI_TLV \<times> nat) option" where
  "readFirstTlv data =
     (if data = [] then None
      else case KSI_FTLV_memRead (Some data) ftlv_zero of
        (Some e, f) \<Rightarrow> None
      | (None, f) \<Rightarrow>
          Some (KSI_TLV (is_nc f) (is_fwd f) (tag f) BufNull None
                  (take (dat_len f) (drop (hdr_len f) data)) 0,
                hdr_len f + dat_len f))"

lemma readFirstTlv_consumes: "readFirstTlv data = Some (t, n) \<Longrightarrow> 0 < n \<and> n \<le> length data"
  by (auto simp: readFirstTlv_def memRead_iff split: if_splits prod.splits option.splits
      dest: parseHdr_hdr_len)

text \<open>The loop of \<^verbatim>\<open>encodeAsNestedTlvs\<close>; \<open>pos\<close> is \<^verbatim>\<open>allConsumedBytes\<close>.\<close>

function nestedLoop :: "bytes \<Rightarrow> nat \<Rightarrow> KSI_TLV list ksi_result" where
  "nestedLoop dat pos =
     (if pos < length dat then
        (case readFirstTlv (drop pos dat) of
           None \<Rightarrow> Inl KSI_INVALID_FORMAT
         | Some (t, n) \<Rightarrow> rbind (nestedLoop dat (pos + n)) (\<lambda>ts. Inr (move_offset pos t # ts)))
      else check (pos > length dat) KSI_INVALID_FORMAT (Inr []))"
  by pat_completeness auto
termination
  by (relation "measure (\<lambda>(dat, pos). length dat - pos)") (auto dest!: readFirstTlv_consumes)

declare nestedLoop.simps [simp del]

definition encodeAsNestedTlvs :: "KSI_TLV \<Rightarrow> KSI_TLV ksi_result" where
  "encodeAsNestedTlvs t =
     (if nested t \<noteq> None then Inr t
      else rbind (nestedLoop (datap t) 0) (\<lambda>l. Inr (set_nested (Some l) t)))"

definition KSI_TLV_getNestedList :: "KSI_TLV \<Rightarrow> (KSI_TLV list \<times> KSI_TLV) ksi_result" where
  "KSI_TLV_getNestedList t =
     rbind (if nested t = None then encodeAsNestedTlvs t else Inr t) (\<lambda>t. Inr (the (nested t), t))"

definition KSI_TLV_parseBlob2 :: "bytes option \<Rightarrow> bool \<Rightarrow> KSI_TLV ksi_result" where
  "KSI_TLV_parseBlob2 data ownMemory =
     the_ptr data KSI_INVALID_ARGUMENT (\<lambda>data.
     check (length data < 2) KSI_INVALID_ARGUMENT
       (case readFirstTlv data of
          None \<Rightarrow> Inl KSI_INVALID_FORMAT
        | Some (t, n) \<Rightarrow>
            check (n \<noteq> length data) KSI_INVALID_FORMAT
              (Inr (if ownMemory then set_buffer (BufOwned (length data)) t else t))))"

definition KSI_TLV_parseBlob :: "bytes option \<Rightarrow> KSI_TLV ksi_result" where
  "KSI_TLV_parseBlob data =
     the_ptr data KSI_INVALID_ARGUMENT (\<lambda>data. KSI_TLV_parseBlob2 (Some data) True)"

section \<open>Editing and copying\<close>

definition KSI_TLV_appendNestedTlv :: "KSI_TLV option \<Rightarrow> KSI_TLV option \<Rightarrow> KSI_TLV ksi_result" where
  "KSI_TLV_appendNestedTlv target t =
     the_ptr target KSI_INVALID_ARGUMENT (\<lambda>target.
     the_ptr t KSI_INVALID_ARGUMENT (\<lambda>t.
       Inr (set_nested (Some ((case nested target of None \<Rightarrow> [] | Some l \<Rightarrow> l) @ [t])) target)))"

text \<open>\<^verbatim>\<open>KSI_TLV_replaceNestedTlv\<close> looks the old TLV up by its address; \<open>is_old\<close> is that comparison.\<close>

fun replace_first :: "('b \<Rightarrow> bool) \<Rightarrow> 'b \<Rightarrow> 'b list \<Rightarrow> 'b list option" where
  "replace_first p y [] = None"
| "replace_first p y (x # xs) = (if p x then Some (y # xs) else map_option ((#) x) (replace_first p y xs))"

definition KSI_TLV_replaceNestedTlv ::
    "KSI_TLV \<Rightarrow> (KSI_TLV \<Rightarrow> bool) option \<Rightarrow> KSI_TLV option \<Rightarrow> KSI_TLV ksi_result" where
  "KSI_TLV_replaceNestedTlv parent is_old newTlv =
     the_ptr is_old KSI_INVALID_ARGUMENT (\<lambda>is_old.
     the_ptr newTlv KSI_INVALID_ARGUMENT (\<lambda>newTlv.
     the_ptr (nested parent) KSI_INVALID_ARGUMENT (\<lambda>l.
     the_ptr (replace_first is_old newTlv l) KSI_INVALID_ARGUMENT (\<lambda>l'.
       Inr (set_nested (Some l') parent)))))"

text \<open>\<^verbatim>\<open>expandNested\<close> gives a freshly parsed TLV the nesting of a sample.\<close>

fun expandNested :: "KSI_TLV \<Rightarrow> KSI_TLV \<Rightarrow> KSI_TLV ksi_result"
and expandList :: "KSI_TLV list \<Rightarrow> KSI_TLV list \<Rightarrow> KSI_TLV list ksi_result" where
  "expandNested (KSI_TLV nc fwd tg buf nst dat ao) t =
     check (tg \<noteq> tlv_tag t) KSI_INVALID_ARGUMENT
       (case nst of None \<Rightarrow> Inr t
        | Some samples \<Rightarrow>
            rbind (if nested t = None then encodeAsNestedTlvs t else Inr t) (\<lambda>t.
              check (length samples \<noteq> length (the (nested t))) KSI_INVALID_ARGUMENT
                (rbind (expandList samples (the (nested t))) (\<lambda>l. Inr (set_nested (Some l) t)))))"
| "expandList [] ts = Inr []"
| "expandList (s # ss) [] = Inr []"
| "expandList (s # ss) (t # ts) =
     rbind (expandNested s t) (\<lambda>t. rbind (expandList ss ts) (\<lambda>ts. Inr (t # ts)))"

definition KSI_TLV_clone :: "KSI_TLV \<Rightarrow> KSI_TLV ksi_result" where
  "KSI_TLV_clone t =
     rbind (KSI_TLV_serialize t) (\<lambda>buf.
     rbind (KSI_TLV_parseBlob2 (Some buf) True) (\<lambda>tmp. expandNested t tmp))"

section \<open>The encoding and its properties\<close>


lemma low5_masks:
  assumes "unat (x :: byte) < 32"
  shows "x AND 0x1f = x" "x AND 0x20 = 0" "x AND 0x40 = 0" "x AND 0x80 = 0"
proof -
  have t: "take_bit 5 x = x"
    using assms by (simp add: word_eq_iff_unsigned [where ?'a = nat] unsigned_take_bit_eq take_bit_nat_eq_self)
  have m: "(0x1f :: byte) = mask 5" by (simp add: mask_eq_exp_minus_1)
  show "x AND 0x1f = x" unfolding m using t by (simp add: take_bit_eq_mask)
  have z: "x AND push_bit n 1 = 0" if "5 \<le> n" for n
  proof -
    have "\<not> bit x n" using t that by (metis bit_take_bit_iff linorder_not_le)
    then show ?thesis by (auto intro!: bit_eqI simp: bit_simps)
  qed
  show "x AND 0x20 = 0" using z [of 5] by (simp add: push_bit_eq_mult)
  show "x AND 0x40 = 0" using z [of 6] by (simp add: push_bit_eq_mult)
  show "x AND 0x80 = 0" using z [of 7] by (simp add: push_bit_eq_mult)
qed

lemma header_byte:
  assumes "unat (x :: byte) < 32"
  shows "(flag_bits nc fwd OR x) AND 0x1f = x" "(flag_bits nc fwd OR x) AND 0x80 = 0"
    "((flag_bits nc fwd OR x) AND 0x40 \<noteq> 0) = nc" "((flag_bits nc fwd OR x) AND 0x20 \<noteq> 0) = fwd"
    "(0x80 OR flag_bits nc fwd OR x) AND 0x1f = x" "(0x80 OR flag_bits nc fwd OR x) AND 0x80 \<noteq> 0"
    "((0x80 OR flag_bits nc fwd OR x) AND 0x40 \<noteq> 0) = nc"
    "((0x80 OR flag_bits nc fwd OR x) AND 0x20 \<noteq> 0) = fwd"
  by (cases nc; cases fwd;
      simp add: flag_bits_def tlv_masks bit.conj_disj_distrib2 low5_masks [OF assms])+

lemma tag_split:
  assumes "unat tg < 2 ^ 13"
  shows "unat (ucast (drop_bit 8 (tg :: u32)) :: byte) < 32"
    and "push_bit 8 (ucast (ucast (drop_bit 8 tg) :: byte)) OR ucast (ucast (tg AND 0xff) :: byte) = tg"
proof -
  have d: "unat (ucast (drop_bit 8 tg) :: byte) = unat tg div 256"
  proof -
    have "unat (drop_bit 8 tg) = unat tg div 256"
      using assms by (simp only: unsigned_drop_bit_eq) (simp add: drop_bit_eq_div take_bit_nat_eq_self)
    moreover have "unat tg div 256 < 256" using assms by simp
    ultimately show ?thesis
      by (simp only: unsigned_ucast_eq) (simp add: take_bit_nat_eq_self)
  qed
  with assms show "unat (ucast (drop_bit 8 tg) :: byte) < 32" by simp
  have m: "(0xff :: u32) = mask 8" by (simp add: mask_eq_exp_minus_1)
  have l: "unat (ucast (tg AND 0xff) :: byte) = unat tg mod 256"
    unfolding m
    by (simp only: unsigned_ucast_eq take_bit_eq_mask [symmetric] unsigned_take_bit_eq) (simp add: take_bit_eq_mod)
  have "unat (push_bit 8 (ucast (ucast (drop_bit 8 tg) :: byte)) OR ucast (ucast (tg AND 0xff) :: byte) :: u32) = unat tg"
    by (simp only: unat_tag16 d l) simp
  then show "push_bit 8 (ucast (ucast (drop_bit 8 tg) :: byte)) OR ucast (ucast (tg AND 0xff) :: byte) = tg"
    by (simp only: word_eq_iff_unsigned [where ?'a = nat])
qed

lemma unat_of_nat_byte: "n < 256 \<Longrightarrow> unat (of_nat n :: byte) = n"
  by (simp add: unsigned_of_nat take_bit_nat_eq_self)

lemma len_split: "len < 2 ^ 16 \<Longrightarrow> unat (of_nat (len div 256) :: byte) * 256 + unat (of_nat len :: byte) = len"
  by (simp add: unsigned_of_nat take_bit_eq_mod)

lemma ucast_short: "unat (tg :: u32) \<le> 31 \<Longrightarrow> ucast (ucast tg :: byte) = tg" "unat (tg :: u32) \<le> 31 \<Longrightarrow> unat (ucast tg :: byte) < 32"
proof -
  assume a: "unat tg \<le> 31"
  have u: "unat (ucast tg :: byte) = unat tg"
    using a by (simp only: unsigned_ucast_eq) (simp add: take_bit_nat_eq_self)
  then show "unat (ucast tg :: byte) < 32" using a by simp
  have "unat (ucast (ucast tg :: byte) :: u32) = unat tg"
    using a u by (simp only: unsigned_ucast_eq [of "ucast tg :: byte"]) (simp add: take_bit_nat_eq_self)
  then show "ucast (ucast tg :: byte) = tg" by (simp only: word_eq_iff_unsigned [where ?'a = nat])
qed

lemma length_tlv_header: "length (tlv_header tg nc fwd len) = (if len > 0xff \<or> unat tg > 31 then 4 else 2)"
  by (simp add: tlv_header_def tlv_masks word_less_nat_alt)

lemma parse_tlv_header:
  assumes "unat tg < 2 ^ 13" and "len < 2 ^ 16"
  shows "parseHdr (tlv_header tg nc fwd len @ r) t =
     (None, t\<lparr>tag := tg, is_nc := nc, is_fwd := fwd, hdr_len := length (tlv_header tg nc fwd len), dat_len := len\<rparr>)"
proof (cases "len > 0xff \<or> unat tg > 31")
  case True
  with assms show ?thesis
    by (simp add: tlv_header_def tlv_masks word_less_nat_alt parseHdr_long header_byte tag_split len_split)
next
  case False
  with assms show ?thesis
    by (simp add: tlv_header_def tlv_masks word_less_nat_alt parseHdr_short header_byte ucast_short unat_of_nat_byte)
qed

section \<open>What serialization produces\<close>

text \<open>The encoding of a TLV as a function of its value alone.\<close>

fun tlv_enc :: "KSI_TLV \<Rightarrow> bytes" and payload_enc :: "KSI_TLV list option \<Rightarrow> bytes \<Rightarrow> bytes"
and list_enc :: "KSI_TLV list \<Rightarrow> bytes" where
  "tlv_enc (KSI_TLV nc fwd tg buf nst dat ao) =
     tlv_header tg nc fwd (length (payload_enc nst dat)) @ payload_enc nst dat"
| "payload_enc (Some l) dat = list_enc l"
| "payload_enc None dat = dat"
| "list_enc [] = []"
| "list_enc (t # ts) = tlv_enc t @ list_enc ts"

lemma serialize_no_buffer:
  "serializeTlv t None True = Inr (tlv_enc t)"
  "serializePayload nst dat None = Inr (payload_enc nst dat)"
  "serializeNested ts None = Inr (list_enc ts)"
  by (induction t and nst dat and ts rule: tlv_enc_payload_enc_list_enc.induct)
     (simp_all add: serializeRaw_def Let_def)

text \<open>With a buffer the result is the same bytes exactly when they fit, and an error otherwise.\<close>

lemma serialize_buffer:
  "(length (tlv_enc t) \<le> n \<longrightarrow> serializeTlv t (Some n) True = Inr (tlv_enc t))
     \<and> (n < length (tlv_enc t) \<longrightarrow> (\<exists>e. serializeTlv t (Some n) True = Inl e))"
  "(length (payload_enc nst dat) \<le> n \<longrightarrow> serializePayload nst dat (Some n) = Inr (payload_enc nst dat))
     \<and> (n < length (payload_enc nst dat) \<longrightarrow> (\<exists>e. serializePayload nst dat (Some n) = Inl e))"
  "(length (list_enc ts) \<le> n \<longrightarrow> serializeNested ts (Some n) = Inr (list_enc ts))
     \<and> (n < length (list_enc ts) \<longrightarrow> (\<exists>e. serializeNested ts (Some n) = Inl e))"
proof (induction t and nst dat and ts arbitrary: n and n and n rule: tlv_enc_payload_enc_list_enc.induct)
  case (1 nc fwd tg buf nst dat ao)
  show ?case
  proof (cases "length (payload_enc nst dat) \<le> n")
    case True
    with 1 [of n] show ?thesis by (auto simp: Let_def)
  next
    case False
    with 1 [of n] show ?thesis by auto
  qed
next
  case (5 t ts)
  show ?case
  proof (cases "length (list_enc ts) \<le> n")
    case True
    with 5(2) [of n] have "serializeNested ts (Some n) = Inr (list_enc ts)" by blast
    with True 5(1) [of "n - length (list_enc ts)"] show ?thesis by (auto simp: le_diff_conv)
  next
    case False
    with 5(2) [of n] show ?thesis by auto
  qed
qed (auto simp: serializeRaw_def)

lemma serializeTlv_no_header:
  "serializeTlv t cap False = serializePayload (nested t) (datap t) cap"
  by (cases t; cases "serializePayload (nested t) (datap t) cap") auto

lemma length_moveLoop [simp]: "length (moveLoop n i src buf) = length buf"
  by (induction n i src buf rule: moveLoop.induct) auto

lemma moveLoop_nth:
  "src + i + n \<le> length buf \<Longrightarrow> k < length buf \<Longrightarrow>
   moveLoop n i src buf ! k = (if i \<le> k \<and> k < i + n then buf ! (src + k) else buf ! k)"
proof (induction n i src buf rule: moveLoop.induct)
  case (2 n i src buf)
  have IH: "moveLoop n (Suc i) src (buf[i := buf ! (src + i)]) ! k =
      (if Suc i \<le> k \<and> k < Suc i + n then buf[i := buf ! (src + i)] ! (src + k)
       else buf[i := buf ! (src + i)] ! k)"
    using 2 by simp
  show ?case
    using 2(2,3) by (auto simp: IH nth_list_update)
qed auto

lemma move_to_front:
  assumes "length out \<le> length buf"
  shows "take (length out) (moveLoop (length out) 0 (length buf - length out)
            (take (length buf - length out) buf @ out)) = out"
proof (rule nth_equalityI)
  fix k assume "k < length (take (length out) (moveLoop (length out) 0 (length buf - length out)
            (take (length buf - length out) buf @ out)))"
  with assms show "take (length out) (moveLoop (length out) 0 (length buf - length out)
            (take (length buf - length out) buf @ out)) ! k = out ! k"
    by (auto simp: moveLoop_nth nth_append)
qed (use assms in simp)

lemma writeBytes_ok:
  assumes "serializeTlv t (Some (length buf)) hdr = Inr out" and "length out \<le> length buf"
  shows "\<exists>buf'. KSI_TLV_writeBytes t (Some buf) hdr True = Inr (Some buf', length out)
     \<and> take (length out) buf' = out \<and> length buf' = length buf"
  using assms move_to_front [OF assms(2)] by (simp add: KSI_TLV_writeBytes_def Let_def)

lemma KSI_TLV_serialize_ok:
  assumes "length (tlv_enc t) \<le> 4 + KSI_BUFFER_SIZE"
  shows "KSI_TLV_serialize t = Inr (tlv_enc t)"
proof -
  have "serializeTlv t (Some (length (replicate (4 + KSI_BUFFER_SIZE) (0 :: byte)))) True = Inr (tlv_enc t)"
    using serialize_buffer(1) [of t "4 + KSI_BUFFER_SIZE"] assms by simp
  from writeBytes_ok [OF this] assms show ?thesis
    by (auto simp: KSI_TLV_serialize_def KSI_TLV_serialize_ex_def)
qed

lemma KSI_TLV_serialize_too_long:
  "4 + KSI_BUFFER_SIZE < length (tlv_enc t) \<Longrightarrow> \<exists>e. KSI_TLV_serialize t = Inl e"
  using serialize_buffer(1) [of t "4 + KSI_BUFFER_SIZE"]
  by (auto simp: KSI_TLV_serialize_def KSI_TLV_serialize_ex_def KSI_TLV_writeBytes_def)

section \<open>Parsing inverts serialization\<close>

text \<open>A TLV that fits the format: at every level the tag has at most 13 bits and the payload at most
  \<open>0xffff\<close> bytes.\<close>

fun tlv_ok :: "KSI_TLV \<Rightarrow> bool" and tlv_list_ok :: "KSI_TLV list \<Rightarrow> bool" where
  "tlv_ok (KSI_TLV nc fwd tg buf nst dat ao) =
     (unat tg < 2 ^ 13 \<and> length (payload_enc nst dat) < 2 ^ 16
      \<and> (case nst of None \<Rightarrow> True | Some l \<Rightarrow> tlv_list_ok l))"
| "tlv_list_ok [] = True"
| "tlv_list_ok (t # ts) = (tlv_ok t \<and> tlv_list_ok ts)"

text \<open>What is read back: the TLV in raw form.\<close>

definition raw_of :: "KSI_TLV \<Rightarrow> KSI_TLV" where
  "raw_of t = KSI_TLV (isNonCritical t) (isForwardable t) (tlv_tag t) BufNull None (payload_enc (nested t) (datap t)) 0"

lemma length_tlv_enc_pos: "2 \<le> length (tlv_enc t)"
  by (cases t) (simp add: length_tlv_header)

lemma readFirstTlv_enc:
  assumes "tlv_ok t"
  shows "readFirstTlv (tlv_enc t @ rest) = Some (raw_of t, length (tlv_enc t))"
proof (cases t)
  case (KSI_TLV nc fwd tg buf nst dat ao)
  let ?p = "payload_enc nst dat"
  let ?h = "tlv_header tg nc fwd (length ?p)"
  have p: "parseHdr (?h @ ?p @ rest) ftlv_zero =
      (None, \<lparr>off = 0, hdr_len = length ?h, dat_len = length ?p, tag = tg, is_nc = nc, is_fwd = fwd\<rparr>)"
    using assms KSI_TLV by (subst parse_tlv_header) (auto simp: ftlv_zero_def)
  have "tlv_enc t @ rest \<noteq> []" using length_tlv_enc_pos [of t] by auto
  with p show ?thesis
    by (simp add: readFirstTlv_def KSI_TLV KSI_FTLV_memRead_def ftlv_zero_def raw_of_def)
qed

lemma nestedLoop_enc:
  assumes "tlv_list_ok ts"
  shows "\<exists>ts'. nestedLoop (pre @ list_enc ts) (length pre) = Inr ts'
     \<and> list_all2 (\<lambda>t t'. \<exists>n. t' = move_offset n (raw_of t)) ts ts'"
  using assms
proof (induction ts arbitrary: pre)
  case Nil
  then show ?case by (simp add: nestedLoop.simps)
next
  case (Cons t ts)
  let ?dat = "pre @ list_enc (t # ts)"
  from Cons.IH [of "pre @ tlv_enc t"] Cons.prems obtain ts' where
    IH: "nestedLoop ?dat (length pre + length (tlv_enc t)) = Inr ts'"
      "list_all2 (\<lambda>t t'. \<exists>n. t' = move_offset n (raw_of t)) ts ts'" by auto
  have "readFirstTlv (drop (length pre) ?dat) = Some (raw_of t, length (tlv_enc t))"
    using readFirstTlv_enc [of t "list_enc ts"] Cons.prems by simp
  moreover have "length pre < length ?dat" using length_tlv_enc_pos [of t] by auto
  ultimately have "nestedLoop ?dat (length pre) = Inr (move_offset (length pre) (raw_of t) # ts')"
    using IH(1) by (subst nestedLoop.simps) simp
  with IH(2) show ?case by auto
qed

text \<open>The value of a TLV without its memory layout.\<close>

datatype tlv_tree = Raw u32 bool bool bytes | Nested u32 bool bool "tlv_tree list"

fun tree_of :: "KSI_TLV \<Rightarrow> tlv_tree" and trees_of :: "KSI_TLV list \<Rightarrow> tlv_tree list" where
  "tree_of (KSI_TLV nc fwd tg buf nst dat ao) =
     (case nst of None \<Rightarrow> Raw tg nc fwd dat | Some l \<Rightarrow> Nested tg nc fwd (trees_of l))"
| "trees_of [] = []"
| "trees_of (t # ts) = tree_of t # trees_of ts"

lemma move_raw_of [simp]:
  "tlv_tag (move_offset n (raw_of t)) = tlv_tag t" "nested (move_offset n (raw_of t)) = None"
  "datap (move_offset n (raw_of t)) = payload_enc (nested t) (datap t)"
  "isNonCritical (move_offset n (raw_of t)) = isNonCritical t"
  "isForwardable (move_offset n (raw_of t)) = isForwardable t"
  by (simp_all add: raw_of_def)

lemma expand_raw:
  "tlv_ok t \<Longrightarrow> nested t' = None \<Longrightarrow> tlv_tag t' = tlv_tag t \<Longrightarrow> datap t' = payload_enc (nested t) (datap t) \<Longrightarrow>
   isNonCritical t' = isNonCritical t \<Longrightarrow> isForwardable t' = isForwardable t \<Longrightarrow>
   \<exists>t''. expandNested t t' = Inr t'' \<and> tree_of t'' = tree_of t"
  "tlv_list_ok ts \<Longrightarrow> list_all2 (\<lambda>t t'. \<exists>n. t' = move_offset n (raw_of t)) ts ts' \<Longrightarrow>
   \<exists>ts''. expandList ts ts' = Inr ts'' \<and> trees_of ts'' = trees_of ts"
proof (induction t and ts arbitrary: t' and ts' rule: tree_of_trees_of.induct)
  case (1 nc fwd tg buf nst dat ao)
  show ?case
  proof (cases nst)
    case None
    with 1 show ?thesis by (cases t') auto
  next
    case (Some l)
    with 1 have l: "tlv_list_ok l" by simp
    from nestedLoop_enc [OF l, of "[]"] obtain l' where
      l': "nestedLoop (list_enc l) 0 = Inr l'" "list_all2 (\<lambda>t t'. \<exists>n. t' = move_offset n (raw_of t)) l l'" by auto
    from "1.IH" [OF Some l l'(2)] obtain l'' where
      l'': "expandList l l' = Inr l''" "trees_of l'' = trees_of l" by auto
    have "length l = length l'" using l'(2) by (rule list_all2_lengthD)
    with Some "1.prems" l' l'' show ?thesis
      by (cases t') (auto simp: encodeAsNestedTlvs_def)
  qed
next
  case 2
  then show ?case by simp
next
  case (3 t ts)
  then obtain n ts1 where ts': "ts' = move_offset n (raw_of t) # ts1"
    "list_all2 (\<lambda>t t'. \<exists>n. t' = move_offset n (raw_of t)) ts ts1" by (auto simp: list_all2_Cons1)
  from "3.IH"(1) [of "move_offset n (raw_of t)"] "3.prems"(1) obtain t2 where
    "expandNested t (move_offset n (raw_of t)) = Inr t2" "tree_of t2 = tree_of t" by auto
  moreover from "3.IH"(2) [OF _ ts'(2)] "3.prems"(1) obtain ts2 where
    "expandList ts ts1 = Inr ts2" "trees_of ts2 = trees_of ts" by auto
  ultimately show ?case using ts'(1) by simp
qed


section \<open>Serialization inverts parsing of minimal headers\<close>

lemma byte_split:
  "b AND 0x80 = 0 \<Longrightarrow> flag_bits (b AND 0x40 \<noteq> 0) (b AND 0x20 \<noteq> 0) OR (b AND 0x1f) = (b :: byte)"
  "b AND 0x80 \<noteq> 0 \<Longrightarrow> 0x80 OR flag_bits (b AND 0x40 \<noteq> 0) (b AND 0x20 \<noteq> 0) OR (b AND 0x1f) = (b :: byte)"
proof -
  have one: "b AND push_bit k 1 = (if bit b k then push_bit k 1 else 0)" for k
    by (auto intro!: bit_eqI simp: bit_simps)
  have k: "b AND 0x80 = (if bit b 7 then 0x80 else 0)" "b AND 0x40 = (if bit b 6 then 0x40 else 0)"
    "b AND 0x20 = (if bit b 5 then 0x20 else 0)"
    using one [of 7] one [of 6] one [of 5] by (simp_all add: push_bit_eq_mult)
  have "b = (if bit b 7 then 0x80 else 0) OR (if bit b 6 then 0x40 else 0) OR (if bit b 5 then 0x20 else 0)
      OR (b AND 0x1f)"
  proof -
    have "(0x80 OR 0x40 OR 0x20 OR 0x1f :: byte) = mask 8" by (simp add: mask_eq_exp_minus_1)
    moreover have "b AND mask 8 = b" using take_bit_length_eq [of b] by (simp add: take_bit_eq_mask)
    ultimately have "b = b AND (0x80 OR 0x40 OR 0x20 OR 0x1f)" by simp
    also have "\<dots> = (b AND 0x80) OR (b AND 0x40) OR (b AND 0x20) OR (b AND 0x1f)"
      by (simp only: bit.conj_disj_distrib)
    finally show ?thesis by (simp only: k)
  qed
  then show "b AND 0x80 = 0 \<Longrightarrow> flag_bits (b AND 0x40 \<noteq> 0) (b AND 0x20 \<noteq> 0) OR (b AND 0x1f) = b"
    and "b AND 0x80 \<noteq> 0 \<Longrightarrow> 0x80 OR flag_bits (b AND 0x40 \<noteq> 0) (b AND 0x20 \<noteq> 0) OR (b AND 0x1f) = b"
    unfolding k by (auto simp: flag_bits_def tlv_masks or.assoc split: if_splits)
qed

lemma byte_of_nat_split: "word_of_nat ((unat (b2 :: byte) * 256 + unat (b3 :: byte)) div 256) = b2"
  "word_of_nat (unat (b2 :: byte) * 256 + unat (b3 :: byte)) = b3"
proof -
  have "(unat b2 * 256 + unat b3) div 256 = unat b2" by (simp add: div_mult_self3)
  then show "word_of_nat ((unat b2 * 256 + unat b3) div 256) = b2" by simp
  have "unat (word_of_nat (unat b2 * 256 + unat b3) :: byte) = unat b3"
    by (simp only: unsigned_of_nat) (simp add: take_bit_eq_mod)
  then show "word_of_nat (unat b2 * 256 + unat b3) = b3" by (simp only: word_eq_iff_unsigned [where ?'a = nat])
qed

lemma reencode_header:
  assumes "parseHdr m t = (None, t')" and "m \<noteq> []"
  shows "length (tlv_header (tag t') (is_nc t') (is_fwd t') (dat_len t')) \<le> hdr_len t'
     \<and> (length (tlv_header (tag t') (is_nc t') (is_fwd t') (dat_len t')) = hdr_len t' \<longrightarrow>
        tlv_header (tag t') (is_nc t') (is_fwd t') (dat_len t') = take (hdr_len t') m)"
  using assms(1)
proof (cases rule: parseHdr_ok_cases [consumes 1])
  case (1 b0 b1 r)
  then have t': "tag t' = ucast (b0 AND 0x1f)" "is_nc t' = (b0 AND 0x40 \<noteq> 0)" "is_fwd t' = (b0 AND 0x20 \<noteq> 0)"
    "hdr_len t' = 2" "dat_len t' = unat b1"
    by (auto simp: parseHdr_short)
  have tg: "unat (ucast (b0 AND 0x1f) :: u32) = unat (b0 AND 0x1f)"
    using unat_low5 [of b0] by (simp only: unsigned_ucast_eq) (simp add: take_bit_nat_eq_self)
  have "unat (ucast (ucast (b0 AND 0x1f) :: u32) :: byte) = unat (b0 AND 0x1f)"
    using unat_low5 [of b0] by (simp only: unsigned_ucast_eq [of "ucast (b0 AND 0x1f) :: u32"] tg)
      (simp add: take_bit_nat_eq_self)
  then have u: "ucast (ucast (b0 AND 0x1f) :: u32) = b0 AND 0x1f"
    by (simp only: word_eq_iff_unsigned [where ?'a = nat])
  have "\<not> 255 < unat b1" using unat_byte_less [of b1] by linarith
  with tg unat_low5 [of b0] have "\<not> (dat_len t' > 0xff \<or> tag t' > ucast KSI_TLV_MASK_TLV8_TYPE)"
    by (simp add: t' tlv_masks word_less_nat_alt)
  then have "tlv_header (tag t') (is_nc t') (is_fwd t') (dat_len t') = [b0, b1]"
    using byte_split(1) [OF 1(2)] by (simp add: tlv_header_def t' u)
  with 1 t' show ?thesis by simp
next
  case (2 b0 b1 b2 b3 r)
  then have t': "tag t' = push_bit 8 (ucast (b0 AND 0x1f)) OR ucast b1" "is_nc t' = (b0 AND 0x40 \<noteq> 0)"
    "is_fwd t' = (b0 AND 0x20 \<noteq> 0)" "hdr_len t' = 4" "dat_len t' = unat b2 * 256 + unat b3"
    by (auto simp: parseHdr_long)
  have tg: "unat (tag t') = unat (b0 AND 0x1f) * 256 + unat b1" by (simp only: t' unat_tag16)
  have hi: "ucast (drop_bit 8 (tag t')) = b0 AND 0x1f"
  proof -
    have "unat (b0 AND 0x1f) * 256 + unat b1 < 8192" using unat_low5 [of b0] unat_byte_less [of b1] by linarith
    then have "take_bit 32 (unat (b0 AND 0x1f) * 256 + unat b1) = unat (b0 AND 0x1f) * 256 + unat b1"
      by (intro take_bit_nat_eq_self) simp
    then have "unat (drop_bit 8 (tag t')) = unat (b0 AND 0x1f)"
      by (simp only: unsigned_drop_bit_eq tg) (simp add: drop_bit_eq_div)
    then have "unat (ucast (drop_bit 8 (tag t')) :: byte) = unat (b0 AND 0x1f)"
      using unat_low5 [of b0] by (simp only: unsigned_ucast_eq) (simp add: take_bit_nat_eq_self)
    then show ?thesis by (simp only: word_eq_iff_unsigned [where ?'a = nat])
  qed
  have lo: "ucast (tag t' AND 0xff) = b1"
  proof -
    have m: "(0xff :: u32) = mask 8" by (simp add: mask_eq_exp_minus_1)
    have "unat (ucast (tag t' AND 0xff) :: byte) = unat b1"
      unfolding m by (simp only: unsigned_ucast_eq take_bit_eq_mask [symmetric] unsigned_take_bit_eq tg)
        (simp add: take_bit_eq_mod)
    then show ?thesis by (simp only: word_eq_iff_unsigned [where ?'a = nat])
  qed
  show ?thesis
  proof (cases "dat_len t' > 0xff \<or> tag t' > ucast KSI_TLV_MASK_TLV8_TYPE")
    case True
    then have "tlv_header (tag t') (is_nc t') (is_fwd t') (dat_len t') = [b0, b1, b2, b3]"
      using byte_split(2) [OF 2(2)] byte_of_nat_split [of b2 b3]
      by (simp add: tlv_header_def hi lo t'(2,3,5) tlv_masks)
    with 2 t'(4) show ?thesis by simp
  next
    case False
    then show ?thesis using t'(4) by (simp add: tlv_header_def)
  qed
qed

lemma clone_tree:
  assumes "tlv_ok t"
  shows "\<exists>t'. KSI_TLV_clone t = Inr t' \<and> tree_of t' = tree_of t"
proof -
  have len: "length (tlv_enc t) \<le> 4 + KSI_BUFFER_SIZE"
    using assms by (cases t) (auto simp: length_tlv_header KSI_BUFFER_SIZE_def)
  have p: "KSI_TLV_parseBlob2 (Some (tlv_enc t)) True = Inr (set_buffer (BufOwned (length (tlv_enc t))) (raw_of t))"
    using readFirstTlv_enc [OF assms, of "[]"] length_tlv_enc_pos [of t] by (simp add: KSI_TLV_parseBlob2_def not_less)
  have "\<exists>t''. expandNested t (set_buffer (BufOwned (length (tlv_enc t))) (raw_of t)) = Inr t'' \<and> tree_of t'' = tree_of t"
    by (rule expand_raw(1) [OF assms]) (simp_all add: raw_of_def)
  with p show ?thesis by (simp add: KSI_TLV_clone_def KSI_TLV_serialize_ok [OF len])
qed

section \<open>Properties\<close>

text \<open>C28. Cloning is exact: for every TLV that fits the format, however deeply nested,
  \<^verbatim>\<open>KSI_TLV_clone\<close> succeeds and returns a TLV with the same tags, flags, nesting and raw payloads.\<close>

theorem clone_exact:
  assumes "tlv_ok t"
  shows "\<exists>t'. KSI_TLV_clone t = Inr t' \<and> tree_of t' = tree_of t"
  using assms by (rule clone_tree)

theorem clone_exact_witness:
  "\<exists>t'. KSI_TLV_clone (KSI_TLV True False 0x801 BufNull
      (Some [KSI_TLV False False 1 BufNull None [0xaa] 0, KSI_TLV False True 2 BufNull (Some []) [] 0]) [] 0) = Inr t'
     \<and> tree_of t' = Nested 0x801 True False [Raw 1 False False [0xaa], Nested 2 False True []]"
  using clone_exact [of "KSI_TLV True False 0x801 BufNull
      (Some [KSI_TLV False False 1 BufNull None [0xaa] 0, KSI_TLV False True 2 BufNull (Some []) [] 0]) [] 0"]
  by (simp add: tlv_header_def tlv_masks)

text \<open>C25. Parsing inverts serialization: for every TLV that fits the format, \<^verbatim>\<open>KSI_TLV_serialize\<close> succeeds
  and \<^verbatim>\<open>KSI_TLV_parseBlob\<close> of the result returns the same tag, flags and payload bytes.\<close>

theorem parse_serialize_roundtrip:
  assumes "tlv_ok t"
  shows "\<exists>bs t'. KSI_TLV_serialize t = Inr bs \<and> KSI_TLV_parseBlob (Some bs) = Inr t'
     \<and> tlv_tag t' = tlv_tag t \<and> isNonCritical t' = isNonCritical t \<and> isForwardable t' = isForwardable t
     \<and> serializeTlv t None False = Inr (datap t') \<and> nested t' = None"
proof -
  have len: "length (tlv_enc t) \<le> 4 + KSI_BUFFER_SIZE"
    using assms by (cases t) (auto simp: length_tlv_header KSI_BUFFER_SIZE_def)
  have "KSI_TLV_parseBlob (Some (tlv_enc t)) = Inr (set_buffer (BufOwned (length (tlv_enc t))) (raw_of t))"
    using readFirstTlv_enc [OF assms, of "[]"] length_tlv_enc_pos [of t]
    by (simp add: KSI_TLV_parseBlob_def KSI_TLV_parseBlob2_def not_less)
  then show ?thesis
    by (simp add: KSI_TLV_serialize_ok [OF len] raw_of_def serializeTlv_no_header serialize_no_buffer)
qed

theorem parse_serialize_roundtrip_witness:
  "\<exists>bs t'. KSI_TLV_serialize (KSI_TLV False True 5 BufNull None [1, 2] 0) = Inr bs
     \<and> KSI_TLV_parseBlob (Some bs) = Inr t' \<and> tlv_tag t' = 5"
  using parse_serialize_roundtrip [of "KSI_TLV False True 5 BufNull None [1, 2] 0"] by auto

text \<open>Serialization of a parsed TLV is canonical: it succeeds, is never longer than the bytes that
  were parsed, and is those very bytes whenever it has their length, that is, whenever the header that
  was parsed is the shortest one.\<close>

theorem serialize_parse_canonical:
  assumes "KSI_TLV_parseBlob (Some bs) = Inr t"
  shows "\<exists>bs'. KSI_TLV_serialize t = Inr bs' \<and> length bs' \<le> length bs \<and> (length bs' = length bs \<longrightarrow> bs' = bs)"
proof -
  from assms obtain u where u: "readFirstTlv bs = Some (u, length bs)" "t = set_buffer (BufOwned (length bs)) u" and ne: "bs \<noteq> []"
    by (cases bs) (auto simp: KSI_TLV_parseBlob_def KSI_TLV_parseBlob2_def split: option.splits prod.splits if_splits)
  then obtain f where f: "KSI_FTLV_memRead (Some bs) ftlv_zero = (None, f)" "ftlv_len f = length bs"
    "u = KSI_TLV (is_nc f) (is_fwd f) (tag f) BufNull None (take (dat_len f) (drop (hdr_len f) bs)) 0"
    by (auto simp: readFirstTlv_def split: if_splits prod.splits option.splits)
  have p: "parseHdr bs (ftlv_zero\<lparr>off := 0\<rparr>) = (None, f)" using f(1) by (simp add: memRead_iff)
  let ?h = "tlv_header (tag f) (is_nc f) (is_fwd f) (dat_len f)" and ?p = "drop (hdr_len f) bs"
  have plen: "length ?p = dat_len f" using f(2) by simp
  have pl: "take (dat_len f) ?p = ?p" using plen by simp
  have "tlv_enc t = ?h @ ?p" using plen by (simp add: u(2) f(3) pl)
  moreover have hl: "length ?h \<le> hdr_len f" "length ?h = hdr_len f \<Longrightarrow> ?h = take (hdr_len f) bs"
    using reencode_header [OF p ne] by auto
  moreover have "length (?h @ ?p) \<le> 4 + KSI_BUFFER_SIZE"
    using hl(1) parseHdr_bounds [OF p] plen by (auto simp: KSI_BUFFER_SIZE_def)
  ultimately have "KSI_TLV_serialize t = Inr (?h @ ?p)" using KSI_TLV_serialize_ok [of t] by simp
  moreover have "?h @ ?p = bs" if "length (?h @ ?p) = length bs"
  proof -
    have "length ?h = hdr_len f" using that plen f(2) by simp
    from hl(2) [OF this] show ?thesis by simp
  qed
  ultimately show ?thesis using hl(1) plen f(2) by auto
qed

theorem serialize_parse_canonical_witness:
  "\<exists>bs'. KSI_TLV_serialize (KSI_TLV False False 1 (BufOwned 5) None [0xaa] 0) = Inr bs' \<and> length bs' \<le> 5"
proof -
  have r: "KSI_TLV_parseBlob (Some [0x80, 0x01, 0x00, 0x01, 0xaa]) = Inr (KSI_TLV False False 1 (BufOwned 5) None [0xaa] 0)"
    by (simp add: KSI_TLV_parseBlob_def KSI_TLV_parseBlob2_def readFirstTlv_def KSI_FTLV_memRead_def parseHdr_def
        tlv_masks ftlv_zero_def Let_def)
  from serialize_parse_canonical [OF r] show ?thesis by auto
qed

text \<open>C35. Asking for the length is reliable: \<^verbatim>\<open>KSI_TLV_writeBytes\<close> without a buffer always succeeds, and with a
  buffer it succeeds exactly when the buffer has at least that length, reports that length and leaves the
  serialization at the front of the buffer, whose size is unchanged.\<close>

theorem writeBytes_size_query:
  "\<exists>out. KSI_TLV_writeBytes t None hdr True = Inr (None, length out)
     \<and> (\<forall>buf. if length out \<le> length buf
             then \<exists>buf'. KSI_TLV_writeBytes t (Some buf) hdr True = Inr (Some buf', length out)
                    \<and> take (length out) buf' = out \<and> length buf' = length buf
             else \<exists>e. KSI_TLV_writeBytes t (Some buf) hdr True = Inl e)"
proof -
  define out where "out = (if hdr then tlv_enc t else payload_enc (nested t) (datap t))"
  have n: "serializeTlv t None hdr = Inr out"
    by (simp add: out_def serialize_no_buffer serializeTlv_no_header)
  have b: "(length out \<le> k \<longrightarrow> serializeTlv t (Some k) hdr = Inr out)
      \<and> (k < length out \<longrightarrow> (\<exists>e. serializeTlv t (Some k) hdr = Inl e))" for k
    using serialize_buffer(1) [of t k] serialize_buffer(2) [of "nested t" "datap t" k]
    by (simp add: out_def serializeTlv_no_header)
  have "\<exists>buf'. KSI_TLV_writeBytes t (Some buf) hdr True = Inr (Some buf', length out)
       \<and> take (length out) buf' = out \<and> length buf' = length buf" if "length out \<le> length buf" for buf
    using writeBytes_ok [of t buf hdr out] b [of "length buf"] that by simp
  moreover have "\<exists>e. KSI_TLV_writeBytes t (Some buf) hdr True = Inl e" if "\<not> length out \<le> length buf" for buf
    using b [of "length buf"] that by (auto simp: KSI_TLV_writeBytes_def)
  ultimately show ?thesis using n by (intro exI [of _ out]) (auto simp: KSI_TLV_writeBytes_def)
qed

text \<open>A payload of \<open>0x10000\<close> bytes slips through: a TLV whose nested payload has exactly that length is
  serialized without an error, with a length field of zero, and the result cannot be parsed back.\<close>

theorem serialize_length_truncated:
  assumes "unat tg < 2 ^ 13" and "length (list_enc l) = 0x10000"
  shows "\<exists>bs. KSI_TLV_serialize (KSI_TLV nc fwd tg buf (Some l) dat ao) = Inr bs
     \<and> take 2 (drop 2 bs) = [0, 0] \<and> KSI_TLV_parseBlob (Some bs) = Inl KSI_INVALID_FORMAT"
proof -
  let ?t = "KSI_TLV nc fwd tg buf (Some l) dat ao"
  let ?b0 = "0x80 OR flag_bits nc fwd OR ucast (drop_bit 8 tg)" and ?b1 = "ucast (tg AND 0xff)"
  let ?bs = "?b0 # ?b1 # 0 # 0 # list_enc l"
  have h: "tlv_header tg nc fwd 0x10000 = [?b0, ?b1, 0, 0]"
    by (simp add: tlv_header_def tlv_masks word_eq_iff_unsigned [where ?'a = nat] unsigned_of_nat take_bit_eq_mod)
  then have "tlv_enc ?t = ?bs" using assms(2) by simp
  then have "KSI_TLV_serialize ?t = Inr ?bs"
    using KSI_TLV_serialize_ok [of ?t] assms(2) h by (simp add: KSI_BUFFER_SIZE_def)
  moreover have "?b0 AND 0x80 \<noteq> 0" by (rule header_byte(6) [OF tag_split(1) [OF assms(1)]])
  then have "\<exists>u. readFirstTlv ?bs = Some (u, 4)"
    using assms(2) by (simp add: readFirstTlv_def KSI_FTLV_memRead_def parseHdr_long)
  then have "KSI_TLV_parseBlob (Some ?bs) = Inl KSI_INVALID_FORMAT"
    using assms(2) by (auto simp: KSI_TLV_parseBlob_def KSI_TLV_parseBlob2_def)
  ultimately show ?thesis by simp
qed

theorem serialize_length_truncated_witness:
  "\<exists>bs. KSI_TLV_serialize (KSI_TLV False False 1 BufNull (Some
       [KSI_TLV False False 2 BufNull None (replicate 32764 0) 0, KSI_TLV False False 2 BufNull None (replicate 32764 0) 0]) [] 0) = Inr bs
     \<and> KSI_TLV_parseBlob (Some bs) = Inl KSI_INVALID_FORMAT"
  using serialize_length_truncated [of 1 "[KSI_TLV False False 2 BufNull None (replicate 32764 0) 0,
      KSI_TLV False False 2 BufNull None (replicate 32764 0) 0]" False False BufNull "[]" 0]
  by (auto simp: length_tlv_header)

text \<open>The error path of \<^verbatim>\<open>KSI_TLV_getRawValue\<close>: when the nested elements no longer fit into the buffer the
  TLV owns, the call fails, and the TLV is left pointing to a buffer that has been released; when they
  fit, the value returned is the concatenation of the encoded elements.\<close>

theorem getRawValue_nested:
  assumes "nested t = Some l" and "buffer t = BufOwned n"
  shows "if length (list_enc l) \<le> n
         then KSI_TLV_getRawValue t = (None, list_enc l, set_raw (BufOwned n) (list_enc l) t)
         else \<exists>e. KSI_TLV_getRawValue t = (Some e, [], set_buffer (BufFreed n) t)"
proof (cases "length (list_enc l) \<le> n")
  case True
  then have "serializeTlv t (Some (length (replicate n (0 :: byte)))) False = Inr (list_enc l)"
    using serialize_buffer(2) [of "nested t" "datap t" n] assms by (simp add: serializeTlv_no_header)
  from writeBytes_ok [OF this] True obtain buf' where
    "KSI_TLV_serializePayload t (Some (replicate n 0)) = Inr (Some buf', length (list_enc l))"
    "take (length (list_enc l)) buf' = list_enc l" by (auto simp: KSI_TLV_serializePayload_def)
  with True assms show ?thesis
    by (cases t) (simp add: KSI_TLV_getRawValue_def encodeAsRaw_def buffer_size_def)
next
  case False
  then have "\<exists>e. serializeTlv t (Some n) False = Inl e"
    using serialize_buffer(2) [of "nested t" "datap t" n] assms by (simp add: serializeTlv_no_header)
  with False assms show ?thesis
    by (auto simp: KSI_TLV_getRawValue_def encodeAsRaw_def buffer_size_def KSI_TLV_serializePayload_def
        KSI_TLV_writeBytes_def)
qed

theorem getRawValue_nested_witness:
  "\<exists>e. KSI_TLV_getRawValue (KSI_TLV False False 1 (BufOwned 3) (Some [KSI_TLV False False 2 BufNull None [7, 7] 0]) [] 0)
     = (Some e, [], KSI_TLV False False 1 (BufFreed 3) (Some [KSI_TLV False False 2 BufNull None [7, 7] 0]) [] 0)"
  using getRawValue_nested [of "KSI_TLV False False 1 (BufOwned 3) (Some [KSI_TLV False False 2 BufNull None [7, 7] 0]) [] 0"
      "[KSI_TLV False False 2 BufNull None [7, 7] 0]" 3]
  by (simp add: length_tlv_header)

end
