(* ===== verification/TypesBase.thy ===== *)
theory TypesBase
  imports Tlv
begin

text \<open>
  The base types of \<^verbatim>\<open>src/src/ksi/types_base.c\<close>: octet strings, UTF-8 strings and 64-bit integers, with
  their conversions from and to TLVs.  A string object is its bytes, the terminating zero of a UTF-8
  string included; an integer object is its value (the shared pool of small integers only saves
  allocations).  A comparison of two objects first compares their addresses and then their values, which
  is a comparison of the values.  A TLV with an empty payload has a non-null data pointer here, as every
  parsed TLV has.
\<close>

type_synonym KSI_OctetString = bytes
type_synonym KSI_Utf8String = bytes
type_synonym KSI_Integer = u64

section \<open>Octet strings\<close>

text \<open>The prefix common to the \<^verbatim>\<open>fromTlv\<close> functions: fetch the payload (which turns a nested TLV into a
  raw one) and decode it.\<close>

definition with_raw :: "(bytes \<Rightarrow> 'a ksi_result) \<Rightarrow> KSI_TLV \<Rightarrow> 'a ksi_result \<times> KSI_TLV" where
  "with_raw f t = (case KSI_TLV_getRawValue t of (Some e, raw, t') \<Rightarrow> (Inl e, t') | (None, raw, t') \<Rightarrow> (f raw, t'))"

definition KSI_OctetString_new :: "bytes option \<Rightarrow> nat \<Rightarrow> KSI_OctetString ksi_result" where
  "KSI_OctetString_new data data_len =
     (case data of None \<Rightarrow> check (data_len \<noteq> 0) KSI_INVALID_ARGUMENT (Inr [])
      | Some bs \<Rightarrow> Inr (take data_len bs))"

definition KSI_OctetString_extract :: "KSI_OctetString option \<Rightarrow> bytes ksi_result" where
  "KSI_OctetString_extract s = the_ptr s KSI_INVALID_ARGUMENT Inr"

definition KSI_OctetString_equals :: "KSI_OctetString option \<Rightarrow> KSI_OctetString option \<Rightarrow> bool" where
  "KSI_OctetString_equals l r = (l \<noteq> None \<and> r \<noteq> None \<and> length (the l) = length (the r) \<and> the l = the r)"

definition KSI_OctetString_fromTlv :: "KSI_TLV \<Rightarrow> KSI_OctetString ksi_result \<times> KSI_TLV" where
  "KSI_OctetString_fromTlv t = with_raw (\<lambda>raw. KSI_OctetString_new (Some raw) (length raw)) t"

definition KSI_OctetString_toTlv :: "KSI_OctetString option \<Rightarrow> u32 \<Rightarrow> bool \<Rightarrow> bool \<Rightarrow> KSI_TLV ksi_result" where
  "KSI_OctetString_toTlv s tg nc fwd =
     the_ptr s KSI_INVALID_ARGUMENT (\<lambda>s. KSI_TLV_setRawValue (KSI_TLV_new tg nc fwd) (Some s))"

section \<open>UTF-8 strings\<close>

text \<open>The number of continuation bytes a leading byte announces.\<close>

definition charContinuationLen :: "byte \<Rightarrow> nat option" where
  "charContinuationLen c =
     (if c \<le> 0x7f then Some 0
      else if 0xc0 \<le> c \<and> c \<le> 0xdf then Some 1
      else if 0xe0 \<le> c \<and> c \<le> 0xef then Some 2
      else if 0xf0 \<le> c \<and> c \<le> 0xf4 then Some 3
      else None)"

definition isContinuation :: "byte \<Rightarrow> bool" where
  "isContinuation c = (0x80 \<le> c \<and> c \<le> 0xbf)"

text \<open>The inner loop of \<^verbatim>\<open>verifyUtf8\<close>: skip continuation bytes while any is expected.\<close>

fun skipContinuation :: "nat \<Rightarrow> bytes \<Rightarrow> nat \<times> bytes" where
  "skipContinuation 0 str = (0, str)"
| "skipContinuation (Suc n) [] = (Suc n, [])"
| "skipContinuation (Suc n) (c # str) =
     (if isContinuation c then skipContinuation n str else (Suc n, c # str))"

lemma skipContinuation_shorter: "length (snd (skipContinuation n str)) \<le> length str"
  by (induction n str rule: skipContinuation.induct) auto

text \<open>\<open>verifyUtf8\<close> walks the string; its argument is what is left of it from position \<^verbatim>\<open>i\<close> on.\<close>

function verifyUtf8 :: "bytes \<Rightarrow> ksi_status" where
  "verifyUtf8 [] = None"
| "verifyUtf8 (c # str) =
     (if str \<noteq> [] \<and> c = 0 then Some KSI_INVALID_FORMAT
      else case charContinuationLen c of
        None \<Rightarrow> Some KSI_INVALID_FORMAT
      | Some n \<Rightarrow>
          if n \<ge> length (c # str) then Some KSI_BUFFER_OVERFLOW
          else if fst (skipContinuation n str) \<noteq> 0 then Some KSI_INVALID_FORMAT
          else verifyUtf8 (snd (skipContinuation n str)))"
  by pat_completeness auto
termination
  by (relation "measure length") (auto simp: le_imp_less_Suc skipContinuation_shorter)

declare verifyUtf8.simps(2) [simp del]

definition KSI_Utf8String_new :: "bytes option \<Rightarrow> nat \<Rightarrow> KSI_Utf8String ksi_result" where
  "KSI_Utf8String_new str len =
     the_ptr str KSI_INVALID_ARGUMENT (\<lambda>str.
     check (len = 0 \<or> str ! (len - 1) \<noteq> 0) KSI_INVALID_FORMAT
       (case verifyUtf8 (take len str) of Some e \<Rightarrow> Inl e | None \<Rightarrow> Inr (take len str)))"

definition KSI_Utf8String_size :: "KSI_Utf8String option \<Rightarrow> nat" where
  "KSI_Utf8String_size s = (case s of None \<Rightarrow> 0 | Some s \<Rightarrow> length s)"

definition KSI_Utf8String_fromTlv :: "KSI_TLV \<Rightarrow> KSI_Utf8String ksi_result \<times> KSI_TLV" where
  "KSI_Utf8String_fromTlv t = with_raw (\<lambda>raw. KSI_Utf8String_new (Some raw) (length raw)) t"

definition KSI_Utf8String_toTlv :: "KSI_Utf8String option \<Rightarrow> u32 \<Rightarrow> bool \<Rightarrow> bool \<Rightarrow> KSI_TLV ksi_result" where
  "KSI_Utf8String_toTlv s tg nc fwd =
     the_ptr s KSI_INVALID_ARGUMENT (\<lambda>s.
     check (length s > 0xffff) KSI_INVALID_ARGUMENT
       (KSI_TLV_setRawValue (KSI_TLV_new tg nc fwd) (Some s)))"

definition emptyUtf8 :: "KSI_Utf8String \<Rightarrow> bool" where
  "emptyUtf8 s = (length s = 0 \<or> (length s = 1 \<and> s ! 0 = 0))"

definition KSI_Utf8StringNZ_fromTlv :: "KSI_TLV \<Rightarrow> KSI_Utf8String ksi_result \<times> KSI_TLV" where
  "KSI_Utf8StringNZ_fromTlv t =
     (let (r, t') = KSI_Utf8String_fromTlv t in
      (rbind r (\<lambda>s. check (emptyUtf8 s) KSI_INVALID_FORMAT (Inr s)), t'))"

definition KSI_Utf8StringNZ_toTlv :: "KSI_Utf8String option \<Rightarrow> u32 \<Rightarrow> bool \<Rightarrow> bool \<Rightarrow> KSI_TLV ksi_result" where
  "KSI_Utf8StringNZ_toTlv s tg nc fwd =
     the_ptr s KSI_INVALID_ARGUMENT (\<lambda>s.
     check (emptyUtf8 s) KSI_INVALID_FORMAT (KSI_Utf8String_toTlv (Some s) tg nc fwd))"

text \<open>\<^verbatim>\<open>KSI_OctetString_LegacyId_getUtf8String\<close> trusts the length byte of the legacy identifier; \<open>None\<close> is
  a read behind the end of the octet string.\<close>

definition LEGACY_ID_STR_LEN_POS :: nat where "LEGACY_ID_STR_LEN_POS = 2"
definition LEGACY_ID_STR_POS :: nat where "LEGACY_ID_STR_POS = 3"

definition KSI_OctetString_LegacyId_getUtf8String ::
    "KSI_OctetString option \<Rightarrow> KSI_Utf8String ksi_result option" where
  "KSI_OctetString_LegacyId_getUtf8String s =
     (case KSI_OctetString_extract s of
        Inl e \<Rightarrow> Some (Inl e)
      | Inr raw \<Rightarrow>
          if length raw \<le> LEGACY_ID_STR_LEN_POS
           \<or> length raw < LEGACY_ID_STR_POS + (unat (raw ! LEGACY_ID_STR_LEN_POS) + 1) then None
          else Some (KSI_Utf8String_new (Some (drop LEGACY_ID_STR_POS raw))
                       (unat (raw ! LEGACY_ID_STR_LEN_POS) + 1)))"

section \<open>Integers\<close>

definition KSI_Integer_getUInt64 :: "KSI_Integer option \<Rightarrow> u64" where
  "KSI_Integer_getUInt64 n = (case n of None \<Rightarrow> 0 | Some v \<Rightarrow> v)"

definition KSI_Integer_equals :: "KSI_Integer option \<Rightarrow> KSI_Integer option \<Rightarrow> bool" where
  "KSI_Integer_equals a b = (a \<noteq> None \<and> b \<noteq> None \<and> the a = the b)"

definition KSI_Integer_equalsUInt :: "KSI_Integer option \<Rightarrow> u64 \<Rightarrow> bool" where
  "KSI_Integer_equalsUInt n i = (n \<noteq> None \<and> the n = i)"

definition KSI_Integer_compare :: "KSI_Integer option \<Rightarrow> KSI_Integer option \<Rightarrow> int" where
  "KSI_Integer_compare a b =
     (case (a, b) of
        (None, None) \<Rightarrow> 0
      | (None, Some _) \<Rightarrow> -1
      | (Some _, None) \<Rightarrow> 1
      | (Some x, Some y) \<Rightarrow> if x > y then 1 else if x < y then -1 else 0)"

definition KSI_UINT16_MINSIZE :: "u64 \<Rightarrow> nat" where
  "KSI_UINT16_MINSIZE val = (if val > 0xff then 2 else if val = 0 then 0 else 1)"

definition KSI_UINT32_MINSIZE :: "u64 \<Rightarrow> nat" where
  "KSI_UINT32_MINSIZE val =
     (if val > 0xffff then 2 + KSI_UINT16_MINSIZE (drop_bit 16 val) else KSI_UINT16_MINSIZE val)"

definition KSI_UINT64_MINSIZE :: "u64 \<Rightarrow> nat" where
  "KSI_UINT64_MINSIZE val =
     (if val > 0xffffffff then 4 + KSI_UINT32_MINSIZE (drop_bit 32 val) else KSI_UINT32_MINSIZE val)"

text \<open>The decoding loop \<^verbatim>\<open>val = val << 8 | raw[i]\<close> and the encoding loop, which fills its array from the
  end.\<close>

definition decodeInt :: "bytes \<Rightarrow> u64" where
  "decodeInt raw = foldl (\<lambda>val b. push_bit 8 val OR ucast b) 0 raw"

function encodeInt :: "u64 \<Rightarrow> bytes \<Rightarrow> bytes" where
  "encodeInt val raw = (if val \<noteq> 0 then encodeInt (drop_bit 8 val) (ucast (val AND 0xff) # raw) else raw)"
  by pat_completeness auto
termination
proof (relation "measure (\<lambda>(val, raw). unat val)")
  fix val :: u64 and raw :: bytes
  assume "val \<noteq> 0"
  then have "0 < unat val" by (simp add: unat_gt_0)
  moreover have "unat (drop_bit 8 val) = unat val div 256"
    by (simp add: unat_drop_bit)
  ultimately show "((drop_bit 8 val, ucast (val AND 0xff) # raw), (val, raw)) \<in> measure (\<lambda>(val, raw). unat val)"
    by simp
qed simp

declare encodeInt.simps [simp del]

definition KSI_Integer_fromTlv :: "KSI_TLV \<Rightarrow> KSI_Integer ksi_result \<times> KSI_TLV" where
  "KSI_Integer_fromTlv t = with_raw (\<lambda>raw.
     check (length raw > 8) KSI_INVALID_FORMAT
       (let val = decodeInt raw in
        check (length raw > 0 \<and> length raw \<noteq> KSI_UINT64_MINSIZE val) KSI_INVALID_FORMAT (Inr val))) t"

definition KSI_Integer_toTlv :: "KSI_Integer option \<Rightarrow> u32 \<Rightarrow> bool \<Rightarrow> bool \<Rightarrow> KSI_TLV ksi_result" where
  "KSI_Integer_toTlv n tg nc fwd =
     the_ptr n KSI_INVALID_ARGUMENT (\<lambda>val.
       let raw = encodeInt val [] in
       if length raw > 0 then KSI_TLV_setRawValue (KSI_TLV_new tg nc fwd) (Some raw)
       else Inr (KSI_TLV_new tg nc fwd))"


section \<open>Integers: the encoding is a bijection\<close>

lemma unat_ucast_byte [simp]: "unat (ucast (b :: byte) :: u64) = unat b"
  by (simp add: unsigned_ucast_eq) (rule take_bit_nat_eq_self, rule less_trans [OF unat_byte_less], simp)

lemma unat_shift_in:
  assumes "unat (v :: u64) < 2 ^ 56"
  shows "unat (push_bit 8 v OR ucast (b :: byte)) = unat v * 256 + unat b"
proof -
  have "push_bit 8 v AND ucast b = 0"
    by (rule bit_eqI) (auto simp: bit_simps dest: bit_imp_le_length)
  then have "push_bit 8 v OR ucast b = push_bit 8 v + ucast b"
    by (simp add: disjunctive_add_eq_or)
  moreover have "unat (push_bit 8 v) = unat v * 256"
    using assms by (simp only: unsigned_push_bit_eq) (simp add: push_bit_eq_mult take_bit_nat_eq_self)
  moreover have "unat v * 256 + unat b < 2 ^ 64"
  proof -
    have "unat v * 256 + unat b < (unat v + 1) * 256" by simp
    also have "\<dots> \<le> 2 ^ 56 * 256" using assms by (intro mult_le_mono1) simp
    finally show ?thesis by simp
  qed
  ultimately show ?thesis by (simp add: unat_word_ariths)
qed

lemma decodeInt_be_val:
  assumes "length raw \<le> 8"
  shows "unat (decodeInt raw) = be_val raw"
  using assms
proof (induction raw rule: rev_induct)
  case Nil
  then show ?case by (simp add: decodeInt_def)
next
  case (snoc b raw)
  then have "unat (decodeInt raw) < 2 ^ 56"
    using be_val_bound [of raw] power_increasing [of "length raw" 7 "256 :: nat"] by simp
  moreover have "decodeInt (raw @ [b]) = push_bit 8 (decodeInt raw) OR ucast b" by (simp add: decodeInt_def)
  ultimately show ?case using snoc by (simp add: unat_shift_in)
qed

lemma encodeInt_unat:
  "\<exists>bs. encodeInt v raw = bs @ raw \<and> be_val bs = unat v \<and> (bs \<noteq> [] \<longrightarrow> hd bs \<noteq> 0)"
proof (induction "unat v" arbitrary: v raw rule: less_induct)
  case less
  show ?case
  proof (cases "v = 0")
    case False
    have half: "unat (drop_bit 8 v) = unat v div 256" by (simp add: unat_drop_bit)
    then have "unat (drop_bit 8 v) < unat v" using False by (simp add: unat_gt_0)
    from less [OF this, of "ucast (v AND 0xff) # raw"] obtain bs where
      bs: "encodeInt (drop_bit 8 v) (ucast (v AND 0xff) # raw) = bs @ ucast (v AND 0xff) # raw"
      "be_val bs = unat v div 256" "bs \<noteq> [] \<longrightarrow> hd bs \<noteq> 0" by (auto simp: half)
    have low: "unat (ucast (v AND 0xff) :: byte) = unat v mod 256" by (rule unat_low_byte)
    have "encodeInt v raw = (bs @ [ucast (v AND 0xff)]) @ raw"
      using False bs(1) by (subst encodeInt.simps) simp
    moreover have "be_val (bs @ [ucast (v AND 0xff)]) = unat v" using bs(2) low by simp
    moreover have "hd (bs @ [ucast (v AND 0xff)]) \<noteq> 0"
    proof (cases bs)
      case Nil
      then have "unat (ucast (v AND 0xff) :: byte) = unat v" using low bs(2) by simp
      moreover have "0 < unat v" using False by (simp add: unat_gt_0)
      ultimately show ?thesis using Nil by auto
    qed (use bs(3) in auto)
    ultimately show ?thesis by blast
  qed (simp add: encodeInt.simps)
qed

lemma minsize16: "unat v < 2 ^ 16 \<Longrightarrow> unat v < 256 ^ KSI_UINT16_MINSIZE v \<and> (v \<noteq> 0 \<longrightarrow> 256 ^ (KSI_UINT16_MINSIZE v - 1) \<le> unat v)"
  by (auto simp: KSI_UINT16_MINSIZE_def word_less_nat_alt unat_gt_0 Suc_le_eq not_less)

lemma minsize32:
  assumes "unat v < 2 ^ 32"
  shows "unat v < 256 ^ KSI_UINT32_MINSIZE v \<and> (v \<noteq> 0 \<longrightarrow> 256 ^ (KSI_UINT32_MINSIZE v - 1) \<le> unat v)"
proof (cases "v > 0xffff")
  case True
  let ?w = "drop_bit 16 v"
  have w: "unat ?w = unat v div 65536" by (simp add: unat_drop_bit)
  have big: "65536 \<le> unat v" using True by (simp add: word_less_nat_alt)
  then have "0 < unat ?w" using w by simp
  then have nz: "?w \<noteq> 0" by (simp add: unat_gt_0)
  have "unat ?w < 2 ^ 16" using assms w by simp
  from minsize16 [OF this] nz w have
    "unat v div 65536 < 256 ^ KSI_UINT16_MINSIZE ?w" "256 ^ (KSI_UINT16_MINSIZE ?w - 1) \<le> unat v div 65536" by auto
  moreover have "0 < KSI_UINT16_MINSIZE ?w" using nz by (simp add: KSI_UINT16_MINSIZE_def)
  ultimately show ?thesis using True
    by (cases "KSI_UINT16_MINSIZE ?w") (auto simp: KSI_UINT32_MINSIZE_def div_less_iff_less_mult less_eq_div_iff_mult_less_eq algebra_simps)
next
  case False
  then have "unat v < 2 ^ 16" by (simp add: word_less_nat_alt)
  from minsize16 [OF this] False show ?thesis by (simp add: KSI_UINT32_MINSIZE_def)
qed

lemma minsize64: "unat v < 256 ^ KSI_UINT64_MINSIZE v \<and> (v \<noteq> 0 \<longrightarrow> 256 ^ (KSI_UINT64_MINSIZE v - 1) \<le> unat v)"
proof (cases "v > 0xffffffff")
  case True
  let ?w = "drop_bit 32 v"
  have w: "unat ?w = unat v div 2 ^ 32" by (simp only: unat_drop_bit)
  have big: "2 ^ 32 \<le> unat v" using True by (simp add: word_less_nat_alt)
  then have "0 < unat ?w" using w by simp
  then have nz: "?w \<noteq> 0" by (simp add: unat_gt_0)
  have "unat v < 2 ^ 64" using unsigned_less [of v, where ?'a = nat] by simp
  then have "unat ?w < 2 ^ 32" using w by simp
  from minsize32 [OF this] nz w have
    "unat v div 2 ^ 32 < 256 ^ KSI_UINT32_MINSIZE ?w" "256 ^ (KSI_UINT32_MINSIZE ?w - 1) \<le> unat v div 2 ^ 32" by auto
  moreover have "0 < KSI_UINT32_MINSIZE ?w" using nz by (simp add: KSI_UINT32_MINSIZE_def KSI_UINT16_MINSIZE_def)
  ultimately show ?thesis using True
    by (cases "KSI_UINT32_MINSIZE ?w") (auto simp: KSI_UINT64_MINSIZE_def div_less_iff_less_mult less_eq_div_iff_mult_less_eq power_add algebra_simps)
next
  case False
  then have "unat v < 2 ^ 32" by (simp add: word_less_nat_alt)
  from minsize32 [OF this] False show ?thesis by (simp add: KSI_UINT64_MINSIZE_def)
qed

lemma be_val_canonical_lower:
  assumes "bs \<noteq> []" and "hd bs \<noteq> 0"
  shows "256 ^ (length bs - 1) \<le> be_val bs"
proof (cases bs)
  case (Cons b cs)
  then have "0 < unat b" using assms by (simp add: unat_gt_0)
  then have "1 * 256 ^ length cs \<le> unat b * 256 ^ length cs" by (intro mult_le_mono1) simp
  then have "256 ^ length cs \<le> unat b * 256 ^ length cs + be_val cs" by linarith
  then show ?thesis using Cons by simp
qed (use assms in simp)

text \<open>A size that brackets a positive number between two successive powers of 256 is unique.\<close>

lemma byte_size_unique:
  assumes "(256 :: nat) ^ (a - 1) \<le> n" "n < 256 ^ a" "256 ^ (b - 1) \<le> n" "n < 256 ^ b"
  shows "a = b"
proof -
  have "(256 :: nat) ^ (a - 1) < 256 ^ b" "(256 :: nat) ^ (b - 1) < 256 ^ a" using assms by linarith+
  then have "a - 1 < b" "b - 1 < a" by (simp_all add: power_less_imp_less_exp)
  then show ?thesis by linarith
qed

lemma length_encodeInt: "length (encodeInt v []) = KSI_UINT64_MINSIZE v"
proof (cases "v = 0")
  case True
  then show ?thesis
    by (simp add: encodeInt.simps KSI_UINT64_MINSIZE_def KSI_UINT32_MINSIZE_def KSI_UINT16_MINSIZE_def)
next
  case False
  from encodeInt_unat [of v "[]"] obtain bs where bs: "encodeInt v [] = bs" "be_val bs = unat v" "bs \<noteq> [] \<longrightarrow> hd bs \<noteq> 0"
    by auto
  have "0 < unat v" using False by (simp add: unat_gt_0)
  then have "bs \<noteq> []" using bs(2) by auto
  then have "256 ^ (length bs - 1) \<le> unat v" using be_val_canonical_lower [of bs] bs by simp
  moreover have "unat v < 256 ^ length bs" using be_val_bound [of bs] bs by simp
  ultimately show ?thesis using minsize64 [of v] False bs(1) byte_size_unique by blast
qed

lemma minsize64_le: "KSI_UINT64_MINSIZE v \<le> 8"
  by (simp add: KSI_UINT64_MINSIZE_def KSI_UINT32_MINSIZE_def KSI_UINT16_MINSIZE_def)

lemma be_val_inj:
  "length xs = length ys \<Longrightarrow> be_val xs = be_val ys \<Longrightarrow> xs = ys"
proof (induction xs arbitrary: ys rule: rev_induct)
  case (snoc b xs)
  then obtain zs c where ys: "ys = zs @ [c]" by (cases ys rule: rev_cases) auto
  then have e: "be_val xs * 256 + unat b = be_val zs * 256 + unat c" using snoc.prems(2) by simp
  have "(be_val xs * 256 + unat b) mod 256 = unat b" "(be_val zs * 256 + unat c) mod 256 = unat c"
    by simp_all
  with e have "unat b = unat c" by simp
  with e have "be_val xs = be_val zs" by simp
  moreover have "b = c" using \<open>unat b = unat c\<close> by (simp add: word_eq_iff_unsigned [where ?'a = nat])
  ultimately show ?case using snoc ys by simp
qed simp

lemma decode_encodeInt: "decodeInt (encodeInt v []) = v"
proof -
  have "be_val (encodeInt v []) = unat v" using encodeInt_unat [of v "[]"] by auto
  then show ?thesis
    using decodeInt_be_val [of "encodeInt v []"] length_encodeInt [of v] minsize64_le [of v]
    by (simp add: word_eq_iff_unsigned [where ?'a = nat])
qed

lemma setRawValue_new:
  "length bs \<le> 0xffff \<Longrightarrow> \<exists>b. KSI_TLV_setRawValue (KSI_TLV_new tg nc fwd) (Some bs) = Inr (KSI_TLV nc fwd tg b None bs 0)"
  by (cases "bs = []") (auto simp: KSI_TLV_setRawValue_def KSI_TLV_new_def createOwnBuffer_def KSI_BUFFER_SIZE_def buffer_size_def Let_def)

lemma with_raw_raw [simp]: "nested t = None \<Longrightarrow> with_raw f t = (f (datap t), t)"
  by (simp add: with_raw_def KSI_TLV_getRawValue_def)

lemma toTlv_encodes:
  "\<exists>t. KSI_Integer_toTlv (Some v) tg nc fwd = Inr t \<and> nested t = None \<and> datap t = encodeInt v []"
proof (cases "encodeInt v [] = []")
  case True
  then show ?thesis by (simp add: KSI_Integer_toTlv_def KSI_TLV_new_def)
next
  case False
  have "length (encodeInt v []) \<le> 0xffff" using length_encodeInt [of v] minsize64_le [of v] by simp
  from setRawValue_new [OF this, of tg nc fwd] False show ?thesis by (auto simp: KSI_Integer_toTlv_def Let_def)
qed

text \<open>C29. The TLV encoding of integers is a bijection with the accepted payloads: every 64-bit value is encoded
  without an error and decodes to itself, and every payload the decoder accepts is the encoding of the
  value it yields, so that no two payloads decode to the same integer.\<close>

theorem integer_tlv_bijection:
  "(\<exists>t. KSI_Integer_toTlv (Some v) tg nc fwd = Inr t \<and> KSI_Integer_fromTlv t = (Inr v, t))
   \<and> (\<forall>u. nested u = None \<and> fst (KSI_Integer_fromTlv u) = Inr v
        \<longrightarrow> (\<exists>t. KSI_Integer_toTlv (Some v) tg nc fwd = Inr t \<and> datap t = datap u))"
proof (intro conjI allI impI)
  obtain t where t: "KSI_Integer_toTlv (Some v) tg nc fwd = Inr t" "nested t = None" "datap t = encodeInt v []"
    using toTlv_encodes by blast
  then show "\<exists>t. KSI_Integer_toTlv (Some v) tg nc fwd = Inr t \<and> KSI_Integer_fromTlv t = (Inr v, t)"
    using length_encodeInt [of v] minsize64_le [of v] by (simp add: KSI_Integer_fromTlv_def decode_encodeInt)
  fix u assume u: "nested u = None \<and> fst (KSI_Integer_fromTlv u) = Inr v"
  then have l: "length (datap u) \<le> 8" "decodeInt (datap u) = v"
      "datap u \<noteq> [] \<Longrightarrow> length (datap u) = KSI_UINT64_MINSIZE v"
    by (auto simp: KSI_Integer_fromTlv_def Let_def)
  have "length (datap u) = KSI_UINT64_MINSIZE v"
  proof (cases "datap u = []")
    case True
    then have "v = 0" using l(2) by (simp add: decodeInt_def)
    then show ?thesis using True by (simp add: KSI_UINT64_MINSIZE_def KSI_UINT32_MINSIZE_def KSI_UINT16_MINSIZE_def)
  qed (use l(3) in simp)
  moreover have "be_val (datap u) = be_val (encodeInt v [])"
    using l decodeInt_be_val [of "datap u"] encodeInt_unat [of v "[]"] by auto
  ultimately have "datap u = encodeInt v []" using be_val_inj length_encodeInt by metis
  with t show "\<exists>t. KSI_Integer_toTlv (Some v) tg nc fwd = Inr t \<and> datap t = datap u" by simp
qed

theorem integer_tlv_bijection_witness:
  "\<exists>t. KSI_Integer_toTlv (Some 0x1234) 4 False False = Inr t \<and> datap t = [0x12, 0x34]"
proof -
  have "fst (KSI_Integer_fromTlv (KSI_TLV False False 4 BufNull None [0x12, 0x34] 0)) = Inr 0x1234"
    by (simp add: KSI_Integer_fromTlv_def decodeInt_def KSI_UINT64_MINSIZE_def KSI_UINT32_MINSIZE_def KSI_UINT16_MINSIZE_def)
  then show ?thesis
    using integer_tlv_bijection [of "0x1234" 4 False False, THEN conjunct2, rule_format,
        of "KSI_TLV False False 4 BufNull None [0x12, 0x34] 0"] by simp
qed


section \<open>UTF-8 strings: what is accepted\<close>

text \<open>One encoded character: a leading byte with the continuation bytes it announces.\<close>

fun utf8_char :: "bytes \<Rightarrow> bool" where
  "utf8_char [a] = (a \<le> 0x7f)"
| "utf8_char [a, b] = (0xc0 \<le> a \<and> a \<le> 0xdf \<and> isContinuation b)"
| "utf8_char [a, b, c] = (0xe0 \<le> a \<and> a \<le> 0xef \<and> isContinuation b \<and> isContinuation c)"
| "utf8_char [a, b, c, d] = (0xf0 \<le> a \<and> a \<le> 0xf4 \<and> isContinuation b \<and> isContinuation c \<and> isContinuation d)"
| "utf8_char _ = False"

definition utf8_text :: "bytes \<Rightarrow> bool" where
  "utf8_text s = (\<exists>cs. s = concat cs \<and> list_all utf8_char cs)"

lemma charContinuationLen_iff:
  "charContinuationLen c = Some 0 \<longleftrightarrow> c \<le> 0x7f"
  "charContinuationLen c = Some (Suc 0) \<longleftrightarrow> 0xc0 \<le> c \<and> c \<le> 0xdf"
  "charContinuationLen c = Some (Suc (Suc 0)) \<longleftrightarrow> 0xe0 \<le> c \<and> c \<le> 0xef"
  "charContinuationLen c = Some (Suc (Suc (Suc 0))) \<longleftrightarrow> 0xf0 \<le> c \<and> c \<le> 0xf4"
  "charContinuationLen c \<noteq> Some (Suc (Suc (Suc (Suc n))))"
  by (auto simp: charContinuationLen_def word_le_nat_alt)

lemma utf8_char_Cons:
  "utf8_char (c # ks) \<longleftrightarrow> charContinuationLen c = Some (length ks) \<and> list_all isContinuation ks"
  by (induction "c # ks" rule: utf8_char.induct) (auto simp: charContinuationLen_iff)

lemma skipContinuation_done:
  "fst (skipContinuation n str) = 0 \<longleftrightarrow> n \<le> length str \<and> list_all isContinuation (take n str)"
  "fst (skipContinuation n str) = 0 \<Longrightarrow> snd (skipContinuation n str) = drop n str"
  by (induction n str rule: skipContinuation.induct) auto

lemma utf8_text_Nil [simp]: "utf8_text []"
  by (auto simp: utf8_text_def intro!: exI [of _ "[]"])

lemma utf8_text_Cons:
  "utf8_text (c # str) \<longleftrightarrow> (\<exists>n. charContinuationLen c = Some n \<and> n \<le> length str
     \<and> list_all isContinuation (take n str) \<and> utf8_text (drop n str))" (is "?l \<longleftrightarrow> ?r")
proof
  assume ?l
  then obtain cs where cs: "c # str = concat cs" "list_all utf8_char cs" by (auto simp: utf8_text_def)
  then obtain k ks where k: "cs = k # ks" by (cases cs) auto
  with cs have "k \<noteq> []" by auto
  then obtain ds where ds: "k = c # ds" "str = ds @ concat ks" using cs k by (cases k) auto
  then show ?r using cs k by (auto simp: utf8_char_Cons utf8_text_def)
next
  assume ?r
  then obtain n cs where n: "charContinuationLen c = Some n" "n \<le> length str" "list_all isContinuation (take n str)"
      "drop n str = concat cs" "list_all utf8_char cs" by (auto simp: utf8_text_def)
  then have "c # str = concat ((c # take n str) # cs)" using append_take_drop_id [of n str] by simp
  moreover have "list_all utf8_char ((c # take n str) # cs)" using n by (simp add: utf8_char_Cons)
  ultimately show ?l unfolding utf8_text_def by blast
qed

lemma continuation_nonzero: "list_all isContinuation xs \<Longrightarrow> 0 \<notin> set xs"
  by (induction xs) (auto simp: isContinuation_def)

lemma verifyUtf8_iff:
  "verifyUtf8 s = None \<longleftrightarrow> utf8_text s \<and> 0 \<notin> set (butlast s)"
proof (induction s rule: verifyUtf8.induct)
  case 1
  then show ?case by simp
next
  case (2 c str)
  show ?case
  proof (cases "str \<noteq> [] \<and> c = 0 \<or> charContinuationLen c = None")
    case True
    then show ?thesis by (auto simp: verifyUtf8.simps utf8_text_Cons)
  next
    case False
    then obtain n where n: "charContinuationLen c = Some n" and c: "str = [] \<or> c \<noteq> 0" by auto
    show ?thesis
    proof (cases "n \<le> length str \<and> list_all isContinuation (take n str)")
      case True
      then have s: "fst (skipContinuation n str) = 0" "snd (skipContinuation n str) = drop n str"
        using skipContinuation_done by blast+
      have b: "butlast str = take n str @ butlast (drop n str)" if "drop n str \<noteq> []"
        using that by (metis append_take_drop_id butlast_append)
      have z: "0 \<notin> set (butlast (c # str)) \<longleftrightarrow> 0 \<notin> set (butlast (drop n str))"
        using c continuation_nonzero [of "take n str"] True b
        by (cases "drop n str = []") (auto dest: in_set_butlastD)
      from 2(1) [OF _ n] False n True s have "verifyUtf8 (drop n str) = None \<longleftrightarrow> utf8_text (drop n str) \<and> 0 \<notin> set (butlast (drop n str))"
        by auto
      moreover have "verifyUtf8 (c # str) = verifyUtf8 (drop n str)"
        using False n True s by (auto simp: verifyUtf8.simps)
      moreover have "utf8_text (c # str) = utf8_text (drop n str)" using n True by (auto simp: utf8_text_Cons)
      ultimately show ?thesis using z by simp
    next
      case False
      then show ?thesis using n skipContinuation_done(1) [of n str] by (auto simp: verifyUtf8.simps utf8_text_Cons)
    qed
  qed
qed

lemma Utf8String_new_iff:
  "KSI_Utf8String_new (Some s) (length s) = Inr u
     \<longleftrightarrow> u = s \<and> s \<noteq> [] \<and> last s = 0 \<and> 0 \<notin> set (butlast s) \<and> utf8_text s"
proof (cases "verifyUtf8 s")
  case None
  then show ?thesis using verifyUtf8_iff [of s] by (cases "s = []") (auto simp: KSI_Utf8String_new_def last_conv_nth)
next
  case (Some e)
  then show ?thesis using verifyUtf8_iff [of s] by (auto simp: KSI_Utf8String_new_def)
qed

text \<open>A UTF-8 string object is created exactly from a non-empty sequence of well-formed characters whose
  last byte, and no other, is zero; and every object that fits a TLV survives the conversion to a TLV and
  back unchanged.\<close>

theorem utf8_string_objects:
  "(KSI_Utf8String_new (Some s) (length s) = Inr u
     \<longleftrightarrow> u = s \<and> s \<noteq> [] \<and> last s = 0 \<and> 0 \<notin> set (butlast s) \<and> utf8_text s)
   \<and> (KSI_Utf8String_new (Some s) (length s) = Inr u \<and> length u \<le> 0xffff
        \<longrightarrow> (\<exists>t. KSI_Utf8String_toTlv (Some u) tg nc fwd = Inr t \<and> KSI_Utf8String_fromTlv t = (Inr u, t)))"
proof (intro conjI impI)
  assume a: "KSI_Utf8String_new (Some s) (length s) = Inr u \<and> length u \<le> 0xffff"
  then have "u = s" using Utf8String_new_iff by blast
  with a show "\<exists>t. KSI_Utf8String_toTlv (Some u) tg nc fwd = Inr t \<and> KSI_Utf8String_fromTlv t = (Inr u, t)"
    using setRawValue_new [of u tg nc fwd] by (auto simp: KSI_Utf8String_toTlv_def KSI_Utf8String_fromTlv_def)
qed (rule Utf8String_new_iff)

theorem utf8_string_objects_witness:
  "\<exists>t. KSI_Utf8String_toTlv (Some [0xc3, 0xb5, 0]) 1 False False = Inr t
      \<and> KSI_Utf8String_fromTlv t = (Inr [0xc3, 0xb5, 0], t)"
proof -
  have "KSI_Utf8String_new (Some [0xc3, 0xb5, 0]) (length [0xc3, 0xb5, 0 :: byte]) = Inr [0xc3, 0xb5, 0]"
    by (simp add: KSI_Utf8String_new_def verifyUtf8.simps charContinuationLen_def isContinuation_def)
  then show ?thesis
    using utf8_string_objects [of "[0xc3, 0xb5, 0]" "[0xc3, 0xb5, 0]" 1 False False] by simp
qed

end
