(* ===== verification/TlvElement.thy ===== *)
theory TlvElement
  imports TypesBase
begin

text \<open>
  The TLV element of \<^verbatim>\<open>src/src/ksi/tlv_element.c\<close>: a parsed header, the payload it points at and, once it
  has been asked for, a list of sub-elements.  An element keeps its own record of its payload length,
  \<^verbatim>\<open>ftlv.dat_len\<close>, which the editing functions update with the wrap-around arithmetic of \<^verbatim>\<open>size_t\<close>.

  An element is modelled by value.  A call that would access memory outside the buffers it was given has
  the outcome \<open>Fault\<close>.
\<close>

section \<open>Outcomes\<close>

datatype 'a run = Fault | Err ksi_err | Ok 'a

definition run_bind :: "'a run \<Rightarrow> ('a \<Rightarrow> 'b run) \<Rightarrow> 'b run" where
  "run_bind m f = (case m of Fault \<Rightarrow> Fault | Err e \<Rightarrow> Err e | Ok x \<Rightarrow> f x)"

definition run_of :: "'a ksi_result \<Rightarrow> 'a run" where
  "run_of r = (case r of Inl e \<Rightarrow> Err e | Inr x \<Rightarrow> Ok x)"

lemma run_bind_simps [simp]:
  "run_bind Fault f = Fault" "run_bind (Err e) f = Err e" "run_bind (Ok x) f = f x"
  by (simp_all add: run_bind_def)

lemma run_of_simps [simp]: "run_of (Inl e) = Err e" "run_of (Inr x) = Ok x"
  by (simp_all add: run_of_def)

lemma run_bind_eq_Ok: "run_bind m f = Ok y \<longleftrightarrow> (\<exists>x. m = Ok x \<and> f x = Ok y)"
  by (cases m) simp_all

lemma run_of_eq_Ok: "run_of r = Ok x \<longleftrightarrow> r = Inr x"
  by (cases r) simp_all

lemma run_bind_cong [fundef_cong]:
  "m = m' \<Longrightarrow> (\<And>x. m' = Ok x \<Longrightarrow> f x = f' x) \<Longrightarrow> run_bind m f = run_bind m' f'"
  by (cases m') simp_all

section \<open>State\<close>

text \<open>\<open>payload\<close> is what stands behind the header at \<^verbatim>\<open>ptr\<close>; \<open>ptr_own\<close> tells whether the element releases
  that memory.\<close>

datatype KSI_TlvElement = KSI_TlvElement
  (ftlv: KSI_FTLV) (payload: bytes) (ptr_own: bool) (subList: "KSI_TlvElement list option")

definition KSI_TlvElement_new :: KSI_TlvElement where
  "KSI_TlvElement_new = KSI_TlvElement ftlv_zero [] False None"

definition KSI_TlvElement_parse :: "bytes option \<Rightarrow> KSI_TlvElement ksi_result" where
  "KSI_TlvElement_parse dat =
     (case KSI_FTLV_memRead dat ftlv_zero of
        (Some e, f) \<Rightarrow> Inl e
      | (None, f) \<Rightarrow> Inr (KSI_TlvElement f (take (dat_len f) (drop (hdr_len f) (the dat))) False None))"

fun with_subList :: "KSI_TlvElement list option \<Rightarrow> KSI_TlvElement \<Rightarrow> KSI_TlvElement" where
  "with_subList l (KSI_TlvElement f p own sub) = KSI_TlvElement f p own l"

fun with_ftlv :: "KSI_FTLV \<Rightarrow> KSI_TlvElement \<Rightarrow> KSI_TlvElement" where
  "with_ftlv f (KSI_TlvElement f0 p own sub) = KSI_TlvElement f p own sub"

text \<open>Arithmetic on \<^verbatim>\<open>size_t\<close>.\<close>

definition size_add :: "nat \<Rightarrow> nat \<Rightarrow> nat" where
  "size_add a b = (a + b) mod 2 ^ 64"

definition size_sub :: "nat \<Rightarrow> nat \<Rightarrow> nat" where
  "size_sub a b = (a + (2 ^ 64 - b mod 2 ^ 64)) mod 2 ^ 64"

section \<open>Serialization\<close>

definition HDR_LEN :: "u32 \<Rightarrow> nat \<Rightarrow> nat" where
  "HDR_LEN tg len = (if tg > 0x1f \<or> len > 0xff then 4 else 2)"

text \<open>A call without a buffer: the length of the serialized payload and of the whole element.\<close>

fun datLen :: "KSI_TlvElement \<Rightarrow> nat" and subLen :: "KSI_TlvElement list \<Rightarrow> nat" where
  "datLen (KSI_TlvElement f p own sub) =
     (case sub of None \<Rightarrow> dat_len f | Some l \<Rightarrow> if l = [] then dat_len f else subLen l)"
| "subLen [] = 0"
| "subLen (e # es) = size_add (subLen es) (size_add (datLen e) (HDR_LEN (tag (ftlv e)) (datLen e)))"

definition elementLen :: "KSI_TlvElement \<Rightarrow> bool \<Rightarrow> nat" where
  "elementLen e hdr = (if hdr then size_add (datLen e) (HDR_LEN (tag (ftlv e)) (datLen e)) else datLen e)"

definition elementHeader :: "KSI_FTLV \<Rightarrow> nat \<Rightarrow> bytes" where
  "elementHeader f len =
     (let flags = (if is_fwd f then KSI_TLV_MASK_FORWARD else 0) OR (if is_nc f then KSI_TLV_MASK_LENIENT else 0) in
      if HDR_LEN (tag f) len = 4 then
        [(ucast (drop_bit 8 (tag f)) AND KSI_TLV_MASK_TLV8_TYPE OR KSI_TLV_MASK_TLV16) OR flags,
         ucast (tag f AND 0xff), of_nat (len div 2 ^ 8), of_nat len]
      else [(ucast (tag f) AND KSI_TLV_MASK_TLV8_TYPE) OR flags, of_nat len])"

text \<open>A call with a buffer of \<open>buf_size\<close> bytes: the bytes that end up in it.  \<open>writeSub\<close> is the loop over the
  sub-elements, from the last to the first; \<open>used\<close> is \<^verbatim>\<open>dat_len\<close>, what the later ones have taken.  It
  hands every sub-element a part of the buffer without comparing its length with what is left, and the
  comparison with \<^verbatim>\<open>buf_size\<close> comes after the loop.\<close>

fun writeElement :: "KSI_TlvElement \<Rightarrow> nat \<Rightarrow> bool \<Rightarrow> bytes run" and writeSub :: "KSI_TlvElement list \<Rightarrow> nat \<Rightarrow> bytes run" where
  "writeElement (KSI_TlvElement f p own sub) buf_size hdr =
     run_bind
       (case sub of
          None \<Rightarrow> if buf_size \<le> dat_len f then Err KSI_BUFFER_OVERFLOW
                  else if length p < dat_len f then Fault else Ok (take (dat_len f) p)
        | Some l \<Rightarrow>
            if l = [] then
              if buf_size \<le> dat_len f then Err KSI_BUFFER_OVERFLOW
              else if length p < dat_len f then Fault else Ok (take (dat_len f) p)
            else writeSub l buf_size)
       (\<lambda>dat.
          let h = (if hdr then elementHeader f (length dat) else []) in
          if length h + length dat > buf_size then Err KSI_BUFFER_OVERFLOW else Ok (h @ dat))"
| "writeSub [] buf_size = Ok []"
| "writeSub (e # es) buf_size =
     run_bind (writeSub es buf_size) (\<lambda>later.
       let tmpLen = elementLen e True in
       if length later + tmpLen > buf_size then Fault
       else run_bind (writeElement e tmpLen True) (\<lambda>b. Ok (b @ later)))"

text \<open>The bytes come to stand at the front of the buffer (\<^verbatim>\<open>memmove\<close>) unless \<^verbatim>\<open>KSI_TLV_OPT_NO_MOVE\<close> is given.\<close>

definition KSI_TlvElement_serialize ::
    "KSI_TlvElement option \<Rightarrow> bytes option \<Rightarrow> bool \<Rightarrow> bool \<Rightarrow> (bytes option \<times> nat) run" where
  "KSI_TlvElement_serialize e buf hdr move =
     (case e of None \<Rightarrow> Err KSI_INVALID_ARGUMENT
      | Some e \<Rightarrow>
          (case buf of
             None \<Rightarrow> Ok (None, elementLen e hdr)
           | Some buf \<Rightarrow>
               run_bind (writeElement e (length buf) hdr) (\<lambda>out.
                 Ok (Some (if move then out @ drop (length out) (take (length buf - length out) buf @ out)
                           else take (length buf - length out) buf @ out),
                     length out))))"

section \<open>Detaching from the parsed buffer\<close>

text \<open>\<open>remap\<close> redirects an element and its sub-elements to a buffer that holds their serialization.\<close>

fun remap :: "KSI_TlvElement \<Rightarrow> bytes \<Rightarrow> KSI_TlvElement ksi_result" and remapSub :: "KSI_TlvElement list \<Rightarrow> bytes \<Rightarrow> KSI_TlvElement list ksi_result" where
  "remap (KSI_TlvElement f p own sub) buf =
     check (buf = []) KSI_INVALID_ARGUMENT
       (case KSI_FTLV_memRead (Some buf) ftlv_zero of
          (Some e, g) \<Rightarrow> Inl e
        | (None, g) \<Rightarrow>
            check (tag g \<noteq> tag f) KSI_INVALID_STATE
              (case sub of
                 Some l \<Rightarrow>
                   rbind (remapSub l (drop (hdr_len g) buf)) (\<lambda>l.
                     Inr (KSI_TlvElement g (take (dat_len g) (drop (hdr_len g) buf)) False (Some l)))
               | None \<Rightarrow>
                   check (dat_len f > length buf - hdr_len g) KSI_BUFFER_OVERFLOW
                     (let moved = take (dat_len f) p @ drop (hdr_len g + dat_len f) buf in
                      Inr (KSI_TlvElement g (take (dat_len g) moved) False None))))"
| "remapSub [] buf = Inr []"
| "remapSub (e # es) buf =
     rbind (remap e buf) (\<lambda>e.
       let consumed = hdr_len (ftlv e) + dat_len (ftlv e) in
       check (consumed > length buf) KSI_INVALID_STATE
         (rbind (remapSub es (drop consumed buf)) (\<lambda>es. Inr (e # es))))"

definition KSI_TlvElement_detach :: "KSI_TlvElement \<Rightarrow> KSI_TlvElement run" where
  "KSI_TlvElement_detach el =
     (let len = elementLen el True in
      run_bind (writeElement el len True) (\<lambda>buf.
      run_bind (run_of (remap el buf)) (\<lambda>el.
        Ok (KSI_TlvElement (ftlv el) (payload el) True (subList el)))))"

section \<open>Sub-elements\<close>

lemma parse_consumes: "KSI_TlvElement_parse (Some dat) = Inr e \<Longrightarrow> 0 < dat_len (ftlv e) + hdr_len (ftlv e)"
  by (auto simp: KSI_TlvElement_parse_def split: prod.splits option.splits dest: memRead_hdr_len)

text \<open>The loop of \<^verbatim>\<open>convertToNested\<close>.\<close>

function parseSub :: "bytes \<Rightarrow> KSI_TlvElement list ksi_result" where
  "parseSub dat =
     (if dat = [] then Inr []
      else rbind (KSI_TlvElement_parse (Some dat)) (\<lambda>e.
        let consumed = dat_len (ftlv e) + hdr_len (ftlv e) in
        check (length dat < consumed) KSI_INVALID_FORMAT
          (rbind (parseSub (drop consumed dat)) (\<lambda>es. Inr (e # es)))))"
  by pat_completeness auto
termination
  by (relation "measure length") (auto dest!: parse_consumes)

declare parseSub.simps [simp del]

definition convertToNested :: "KSI_TlvElement \<Rightarrow> KSI_TlvElement ksi_result" where
  "convertToNested el =
     (if subList el = None then rbind (parseSub (take (dat_len (ftlv el)) (payload el))) (\<lambda>l. Inr (with_subList (Some l) el))
      else Inr el)"

text \<open>\<open>filter_tags\<close> folded over the list: the elements with one of the tags, once per tag they match.\<close>

definition filter_tags :: "u32 list \<Rightarrow> KSI_TlvElement list \<Rightarrow> KSI_TlvElement list" where
  "filter_tags tags l = concat (map (\<lambda>el. map (\<lambda>_. el) (filter (\<lambda>t. tag (ftlv el) = t) tags)) l)"

definition KSI_TlvElement_appendElement :: "KSI_TlvElement \<Rightarrow> KSI_TlvElement \<Rightarrow> KSI_TlvElement ksi_result" where
  "KSI_TlvElement_appendElement parent child =
     rbind (convertToNested parent) (\<lambda>parent.
       Inr (with_subList (Some (the (subList parent) @ [child])) parent))"

text \<open>The single element found is located again by its address; it is the only one with its tag.\<close>

definition tag_index :: "u32 \<Rightarrow> KSI_TlvElement list \<Rightarrow> nat" where
  "tag_index tg l = length (takeWhile (\<lambda>el. tag (ftlv el) \<noteq> tg) l)"

definition KSI_TlvElement_setElement :: "KSI_TlvElement \<Rightarrow> KSI_TlvElement \<Rightarrow> KSI_TlvElement ksi_result" where
  "KSI_TlvElement_setElement parent child =
     rbind (convertToNested parent) (\<lambda>parent.
       (case filter_tags [tag (ftlv child)] (the (subList parent)) of
          [] \<Rightarrow>
            rbind (KSI_TlvElement_appendElement parent child) (\<lambda>parent.
              Inr (with_ftlv ((ftlv parent)\<lparr>dat_len := size_add (dat_len (ftlv parent))
                                   (hdr_len (ftlv child) + dat_len (ftlv child))\<rparr>) parent))
        | [ptr] \<Rightarrow>
            Inr (with_ftlv ((ftlv parent)\<lparr>dat_len := size_sub
                     (size_add (dat_len (ftlv parent)) (hdr_len (ftlv child) + dat_len (ftlv child)))
                     (hdr_len (ftlv ptr) + dat_len (ftlv ptr))\<rparr>)
                  (with_subList (Some ((the (subList parent))[tag_index (tag (ftlv child)) (the (subList parent)) := child]))
                     parent))
        | _ \<Rightarrow> Inl KSI_INVALID_STATE))"

definition KSI_TlvElement_getElement :: "KSI_TlvElement \<Rightarrow> u32 \<Rightarrow> (KSI_TlvElement option \<times> KSI_TlvElement) ksi_result" where
  "KSI_TlvElement_getElement parent tg =
     rbind (convertToNested parent) (\<lambda>parent.
       (case filter_tags [tg] (the (subList parent)) of
          [] \<Rightarrow> Inr (None, parent)
        | [el] \<Rightarrow> Inr (Some el, parent)
        | _ \<Rightarrow> Inl KSI_INVALID_STATE))"

fun remove_index :: "nat \<Rightarrow> 'a list \<Rightarrow> 'a list" where
  "remove_index i xs = take i xs @ drop (Suc i) xs"

definition KSI_TlvElement_removeElement :: "KSI_TlvElement \<Rightarrow> u32 \<Rightarrow> (KSI_TlvElement \<times> KSI_TlvElement) ksi_result" where
  "KSI_TlvElement_removeElement parent tg =
     rbind (convertToNested parent) (\<lambda>parent.
       (case filter_tags [tg] (the (subList parent)) of
          [ptr] \<Rightarrow>
            Inr (ptr,
                 with_ftlv ((ftlv parent)\<lparr>dat_len := size_sub (dat_len (ftlv parent)) (hdr_len (ftlv ptr) + dat_len (ftlv ptr))\<rparr>)
                   (with_subList (Some (remove_index (tag_index tg (the (subList parent))) (the (subList parent)))) parent))
        | _ \<Rightarrow> Inl KSI_INVALID_STATE))"

section \<open>Typed sub-elements\<close>

text \<open>The getters serialize the payload of the element into a local buffer of \<open>0xffff + 4\<close> bytes and decode
  it.\<close>

definition getPayload :: "KSI_TlvElement \<Rightarrow> bytes run" where
  "getPayload el = writeElement el (0xffff + 4) False"

definition get_decoded ::
    "(KSI_TlvElement \<Rightarrow> 'a run) \<Rightarrow> KSI_TlvElement \<Rightarrow> u32 \<Rightarrow> ('a option \<times> KSI_TlvElement) run" where
  "get_decoded dec parent tg =
     run_bind (run_of (KSI_TlvElement_getElement parent tg)) (\<lambda>(el, parent).
       (case el of None \<Rightarrow> Ok (None, parent)
        | Some el \<Rightarrow> run_bind (dec el) (\<lambda>x. Ok (Some x, parent))))"

definition KSI_TlvElement_getUtf8String :: "KSI_TlvElement \<Rightarrow> u32 \<Rightarrow> (KSI_Utf8String option \<times> KSI_TlvElement) run" where
  "KSI_TlvElement_getUtf8String = get_decoded (\<lambda>el.
     run_bind (getPayload el) (\<lambda>buf. run_of (KSI_Utf8String_new (Some buf) (length buf))))"

definition KSI_TlvElement_getOctetString :: "KSI_TlvElement \<Rightarrow> u32 \<Rightarrow> (KSI_OctetString option \<times> KSI_TlvElement) run" where
  "KSI_TlvElement_getOctetString = get_decoded (\<lambda>el.
     run_bind (getPayload el) (\<lambda>buf. run_of (KSI_OctetString_new (Some buf) (length buf))))"

definition KSI_TlvElement_getInteger :: "KSI_TlvElement \<Rightarrow> u32 \<Rightarrow> (KSI_Integer option \<times> KSI_TlvElement) run" where
  "KSI_TlvElement_getInteger = get_decoded (\<lambda>el.
     if dat_len (ftlv el) > 8 then Err KSI_INVALID_FORMAT
     else run_bind (getPayload el) (\<lambda>buf. Ok (decodeInt buf)))"

definition set_raw_element :: "KSI_TlvElement \<Rightarrow> u32 \<Rightarrow> bytes \<Rightarrow> KSI_TlvElement run" where
  "set_raw_element parent tg bs =
     run_bind (KSI_TlvElement_detach (KSI_TlvElement (ftlv_zero\<lparr>tag := tg, dat_len := length bs\<rparr>) bs False None)) (\<lambda>el.
       run_of (KSI_TlvElement_setElement parent el))"

definition KSI_TlvElement_setUtf8String :: "KSI_TlvElement \<Rightarrow> u32 \<Rightarrow> KSI_Utf8String option \<Rightarrow> KSI_TlvElement run" where
  "KSI_TlvElement_setUtf8String parent tg s =
     (case s of None \<Rightarrow> Err KSI_INVALID_ARGUMENT | Some s \<Rightarrow> set_raw_element parent tg s)"

definition KSI_TlvElement_setOctetString :: "KSI_TlvElement \<Rightarrow> u32 \<Rightarrow> KSI_OctetString option \<Rightarrow> KSI_TlvElement run" where
  "KSI_TlvElement_setOctetString parent tg s =
     (case s of None \<Rightarrow> Err KSI_INVALID_ARGUMENT | Some s \<Rightarrow> set_raw_element parent tg s)"

text \<open>\<^verbatim>\<open>KSI_TlvElement_setInteger\<close> fills its array of eight bytes from the end, as \<^verbatim>\<open>KSI_Integer_toTlv\<close> does,
  but stops after eight bytes; a value left over is an error.\<close>

fun encodeLimited :: "nat \<Rightarrow> u64 \<Rightarrow> bytes \<Rightarrow> u64 \<times> bytes" where
  "encodeLimited 0 val buf = (val, buf)"
| "encodeLimited (Suc n) val buf =
     (if val > 0 then encodeLimited n (drop_bit 8 val) (ucast (val AND 0xff) # buf) else (val, buf))"

definition KSI_TlvElement_setInteger :: "KSI_TlvElement \<Rightarrow> u32 \<Rightarrow> KSI_Integer option \<Rightarrow> KSI_TlvElement run" where
  "KSI_TlvElement_setInteger parent tg s =
     (case s of None \<Rightarrow> Err KSI_INVALID_ARGUMENT
      | Some s \<Rightarrow>
          (let (val, buf) = encodeLimited 8 s [] in
           if val \<noteq> 0 then Err KSI_INVALID_STATE else set_raw_element parent tg buf))"


section \<open>Serialization agrees with the TLV object\<close>

text \<open>An element whose tags fit the format and whose payload lengths do not exceed the payloads, and the TLV
  object with the same content.\<close>

fun el_ok :: "KSI_TlvElement \<Rightarrow> bool" and el_list_ok :: "KSI_TlvElement list \<Rightarrow> bool" where
  "el_ok (KSI_TlvElement f p own sub) =
     (unat (tag f) < 2 ^ 13
      \<and> (case sub of None \<Rightarrow> dat_len f \<le> length p | Some l \<Rightarrow> if l = [] then dat_len f \<le> length p else el_list_ok l))"
| "el_list_ok [] = True"
| "el_list_ok (e # es) = (el_ok e \<and> el_list_ok es)"

fun el_tlv :: "KSI_TlvElement \<Rightarrow> KSI_TLV" and el_tlvs :: "KSI_TlvElement list \<Rightarrow> KSI_TLV list" where
  "el_tlv (KSI_TlvElement f p own sub) =
     KSI_TLV (is_nc f) (is_fwd f) (tag f) BufNull
       (case sub of None \<Rightarrow> None | Some l \<Rightarrow> if l = [] then None else Some (el_tlvs l)) (take (dat_len f) p) 0"
| "el_tlvs [] = []"
| "el_tlvs (e # es) = el_tlv e # el_tlvs es"

definition el_payload :: "KSI_TlvElement \<Rightarrow> bytes" where
  "el_payload e = payload_enc (nested (el_tlv e)) (datap (el_tlv e))"

lemma tlv_enc_el: "tlv_enc (el_tlv e) = tlv_header (tag (ftlv e)) (is_nc (ftlv e)) (is_fwd (ftlv e)) (length (el_payload e)) @ el_payload e"
  by (cases e) (simp add: el_payload_def)

lemma elementHeader_tlv_header:
  assumes "unat (tag f) < 2 ^ 13"
  shows "elementHeader f len = tlv_header (tag f) (is_nc f) (is_fwd f) len"
proof -
  have l: "ucast (drop_bit 8 (tag f)) AND (0x1f :: byte) = ucast (drop_bit 8 (tag f))"
    by (rule low5_masks(1)) (rule tag_split(1) [OF assms])
  have s: "ucast (tag f) AND (0x1f :: byte) = ucast (tag f)" if "unat (tag f) \<le> 31"
    by (rule low5_masks(1)) (rule ucast_short(2) [OF that])
  let ?F = "if is_fwd f then KSI_TLV_MASK_FORWARD else 0" and ?N = "if is_nc f then KSI_TLV_MASK_LENIENT else 0"
  have ac: "(x OR a) OR (?F OR ?N) = a OR flag_bits (is_nc f) (is_fwd f) OR x"
      "x OR (?F OR ?N) = flag_bits (is_nc f) (is_fwd f) OR x" for x a :: byte
    unfolding flag_bits_def by (simp_all only: ac_simps)
  show ?thesis
  proof (cases "len > 0xff \<or> unat (tag f) > 31")
    case True
    then have "HDR_LEN (tag f) len = 4" "len > 0xff \<or> tag f > 0x1f" by (auto simp: HDR_LEN_def word_less_nat_alt)
    then show ?thesis
      unfolding elementHeader_def tlv_header_def Let_def ac(1) using l by (simp add: tlv_masks)
  next
    case False
    then have "HDR_LEN (tag f) len = 2" "\<not> (len > 0xff \<or> tag f > 0x1f)" by (auto simp: HDR_LEN_def word_less_nat_alt)
    then show ?thesis
      unfolding elementHeader_def tlv_header_def Let_def ac(2) using s False by (simp add: tlv_masks)
  qed
qed

lemma length_header [simp]: "length (tlv_header tg nc fwd len) = HDR_LEN tg len"
  by (simp add: length_tlv_header HDR_LEN_def word_less_nat_alt)

lemma HDR_LEN_pos: "2 \<le> HDR_LEN tg len" "HDR_LEN tg len \<le> 4"
  by (simp_all add: HDR_LEN_def)

lemma length_take_ok: "n \<le> length p \<Longrightarrow> length (take n p) = n"
  by simp

lemma element_len:
  "el_ok e \<Longrightarrow> length (tlv_enc (el_tlv e)) < 2 ^ 64 \<Longrightarrow> datLen e = length (el_payload e)"
  "el_list_ok es \<Longrightarrow> length (list_enc (el_tlvs es)) < 2 ^ 64 \<Longrightarrow> subLen es = length (list_enc (el_tlvs es))"
proof (induction e and es rule: el_tlv_el_tlvs.induct)
  case (1 f p own sub)
  then show ?case by (cases sub) (auto simp: el_payload_def split: if_splits)
next
  case 2
  then show ?case by simp
next
  case (3 e es)
  then have "datLen e = length (el_payload e)" "subLen es = length (list_enc (el_tlvs es))" by auto
  with 3(4) show ?case by (simp add: tlv_enc_el size_add_def)
qed

lemma elementLen_ok:
  "el_ok e \<Longrightarrow> length (tlv_enc (el_tlv e)) < 2 ^ 64 \<Longrightarrow> elementLen e True = length (tlv_enc (el_tlv e))"
  by (simp add: elementLen_def element_len(1) tlv_enc_el size_add_def)

text \<open>The outcome of a call with a buffer, in all cases.\<close>

definition write_outcome :: "KSI_TlvElement \<Rightarrow> nat \<Rightarrow> bool \<Rightarrow> bytes run" where
  "write_outcome e n hdr =
     (let out = (if hdr then tlv_enc (el_tlv e) else el_payload e) in
      if nested (el_tlv e) = None then if n \<le> length (el_payload e) \<or> n < length out then Err KSI_BUFFER_OVERFLOW else Ok out
      else if n < length (el_payload e) then Fault
      else if n < length out then Err KSI_BUFFER_OVERFLOW else Ok out)"

lemma element_write:
  "el_ok e \<Longrightarrow> length (tlv_enc (el_tlv e)) < 2 ^ 64 \<Longrightarrow> writeElement e n hdr = write_outcome e n hdr"
  "el_list_ok es \<Longrightarrow> length (list_enc (el_tlvs es)) < 2 ^ 64 \<Longrightarrow>
     writeSub es n = (if n < length (list_enc (el_tlvs es)) then Fault else Ok (list_enc (el_tlvs es)))"
proof (induction e and es arbitrary: n hdr and n rule: el_tlv_el_tlvs.induct)
  case (1 f p own sub)
  have h: "elementHeader f k = tlv_header (tag f) (is_nc f) (is_fwd f) k" for k
    using "1.prems"(1) by (simp add: elementHeader_tlv_header)
  show ?case
  proof (cases "sub = None \<or> sub = Some []")
    case True
    then show ?thesis using "1.prems"(1) by (auto simp: h write_outcome_def el_payload_def Let_def)
  next
    case False
    then obtain l where l: "sub = Some l" "l \<noteq> []" by auto
    with 1 have "writeSub l n = (if n < length (list_enc (el_tlvs l)) then Fault else Ok (list_enc (el_tlvs l)))" by simp
    with l show ?thesis by (simp add: h write_outcome_def el_payload_def Let_def)
  qed
next
  case 2
  then show ?case by simp
next
  case (3 e es)
  let ?k = "length (tlv_enc (el_tlv e))"
  have ok: "el_ok e" "?k < 2 ^ 64" using "3.prems" by auto
  have "\<not> ?k \<le> length (el_payload e)" using HDR_LEN_pos(1) [of "tag (ftlv e)" "length (el_payload e)"]
    by (auto simp: tlv_enc_el)
  then have "writeElement e ?k True = Ok (tlv_enc (el_tlv e))"
    using "3.IH"(1) [OF ok, of ?k True] by (simp add: write_outcome_def Let_def)
  then show ?case using "3.IH"(2) [of n] "3.prems" by (auto simp: elementLen_ok [OF ok])
qed

lemma moved_length:
  "length out \<le> length buf \<Longrightarrow>
   length (out @ drop (length out) (take (length buf - length out) buf @ out)) = length buf"
  by (cases "length out \<le> length buf - length out") auto

text \<open>C36. \<^verbatim>\<open>KSI_TlvElement_serialize\<close> produces the bytes \<^verbatim>\<open>KSI_TLV_serialize\<close> produces for the TLV with the same
  content, and asking for the length is exact.  A buffer that is too small is reported, except that a
  buffer smaller than the payload of an element with sub-elements is overrun at its front before the
  length is compared.\<close>

theorem element_serialize_exact:
  assumes "el_ok e" and "length (tlv_enc (el_tlv e)) < 2 ^ 64"
  shows "KSI_TlvElement_serialize (Some e) None True True = Ok (None, length (tlv_enc (el_tlv e)))
     \<and> (if length (tlv_enc (el_tlv e)) \<le> length buf
        then \<exists>buf'. KSI_TlvElement_serialize (Some e) (Some buf) True True = Ok (Some buf', length (tlv_enc (el_tlv e)))
               \<and> take (length (tlv_enc (el_tlv e))) buf' = tlv_enc (el_tlv e) \<and> length buf' = length buf
        else KSI_TlvElement_serialize (Some e) (Some buf) True True =
               (if nested (el_tlv e) \<noteq> None \<and> length buf < length (el_payload e) then Fault else Err KSI_BUFFER_OVERFLOW))"
proof -
  have "length (el_payload e) < length (tlv_enc (el_tlv e))"
    using HDR_LEN_pos(1) [of "tag (ftlv e)" "length (el_payload e)"] by (simp add: tlv_enc_el)
  moreover have "writeElement e (length buf) True = write_outcome e (length buf) True"
    by (rule element_write(1) [OF assms])
  ultimately show ?thesis
    using moved_length [of "tlv_enc (el_tlv e)" buf]
    by (cases "length (tlv_enc (el_tlv e)) \<le> length buf")
       (simp_all add: KSI_TlvElement_serialize_def elementLen_ok [OF assms] write_outcome_def Let_def del: drop_append length_append)
qed

theorem element_serialize_exact_witness:
  "KSI_TlvElement_serialize (Some (KSI_TlvElement (ftlv_zero\<lparr>tag := 1\<rparr>) [] False
      (Some [KSI_TlvElement (ftlv_zero\<lparr>tag := 2, hdr_len := 2, dat_len := 1\<rparr>) [7] False None]))) (Some [0, 0]) True True = Fault"
  using element_serialize_exact [of "KSI_TlvElement (ftlv_zero\<lparr>tag := 1\<rparr>) [] False
      (Some [KSI_TlvElement (ftlv_zero\<lparr>tag := 2, hdr_len := 2, dat_len := 1\<rparr>) [7] False None])" "[0, 0]"]
  by (simp add: ftlv_zero_def HDR_LEN_def el_payload_def)


section \<open>Editing\<close>

lemma filter_tags_single: "filter_tags [tg] l = filter (\<lambda>el. tag (ftlv el) = tg) l"
  by (induction l) (auto simp: filter_tags_def)

lemma single_match:
  assumes "filter P l = [x]"
  obtains ys zs where "l = ys @ x # zs" "filter P ys = []" "filter P zs = []" "P x" "length (takeWhile (\<lambda>y. \<not> P y) l) = length ys"
proof -
  obtain ys zs where s: "l = ys @ x # zs" "\<forall>u\<in>set ys. \<not> P u" "P x" "filter P zs = []"
    using assms [symmetric] by (auto simp: Cons_eq_filter_iff)
  then have "takeWhile (\<lambda>y. \<not> P y) l = ys" by (auto simp: takeWhile_append2)
  with s that show ?thesis by (auto simp: filter_empty_conv)
qed

lemma with_sub_simps [simp]:
  "subList (with_subList l e) = l" "ftlv (with_subList l e) = ftlv e" "payload (with_subList l e) = payload e"
  "subList (with_ftlv f e) = subList e" "ftlv (with_ftlv f e) = f" "payload (with_ftlv f e) = payload e"
  by (cases e; simp)+

lemma convertToNested_nested: "subList e \<noteq> None \<Longrightarrow> convertToNested e = Inr e"
  by (auto simp: convertToNested_def)

lemma convertToNested_subList: "convertToNested e = Inr q \<Longrightarrow> subList q \<noteq> None"
  by (auto simp: convertToNested_def rbind_eq_Inr split: if_splits)

text \<open>What \<^verbatim>\<open>KSI_TlvElement_setElement\<close> does to the list of sub-elements.\<close>

lemma setElement_list:
  assumes "convertToNested parent = Inr q" and "length (filter_tags [tag (ftlv child)] (the (subList q))) \<le> 1"
  obtains p l where "KSI_TlvElement_setElement parent child = Inr p" "subList p = Some l"
    "filter_tags [tag (ftlv child)] l = [child]"
    "\<And>tg. tg \<noteq> tag (ftlv child) \<Longrightarrow> filter_tags [tg] l = filter_tags [tg] (the (subList q))"
proof -
  let ?l = "the (subList q)" and ?tg = "tag (ftlv child)"
  have q: "subList q \<noteq> None" by (rule convertToNested_subList [OF assms(1)])
  show ?thesis
  proof (cases "filter_tags [?tg] ?l")
    case Nil
    then show ?thesis
      using assms(1) q that [OF _ _ , of _ "?l @ [child]"]
      by (auto simp: KSI_TlvElement_setElement_def KSI_TlvElement_appendElement_def convertToNested_nested filter_tags_single)
  next
    case (Cons x xs)
    then have x: "filter (\<lambda>el. tag (ftlv el) = ?tg) ?l = [x]" using assms(2) by (simp add: filter_tags_single)
    obtain ys zs where s: "?l = ys @ x # zs" "filter (\<lambda>el. tag (ftlv el) = ?tg) ys = []"
        "filter (\<lambda>el. tag (ftlv el) = ?tg) zs = []" "tag (ftlv x) = ?tg" "tag_index ?tg ?l = length ys"
      using single_match [OF x] unfolding tag_index_def by metis
    have "?l[tag_index ?tg ?l := child] = ys @ child # zs" using s(1,5) by simp
    then show ?thesis
      using assms(1) q x s that [OF _ _ , of _ "ys @ child # zs"]
      by (auto simp: KSI_TlvElement_setElement_def filter_tags_single)
  qed
qed

lemma getElement_nested:
  "subList p = Some l \<Longrightarrow> KSI_TlvElement_getElement p tg =
     (case filter_tags [tg] l of [] \<Rightarrow> Inr (None, p) | [el] \<Rightarrow> Inr (Some el, p) | _ \<Rightarrow> Inl KSI_INVALID_STATE)"
  by (simp add: KSI_TlvElement_getElement_def convertToNested_nested)

text \<open>The element that the typed setters store: payloads of at most \<open>0xffff\<close> bytes are kept, longer ones lose
  what does not fit the length field.\<close>

lemma unat_of_nat_mod: "unat (of_nat n :: byte) = n mod 256"
  by (simp add: unsigned_of_nat take_bit_eq_mod)

lemma parse_long_header:
  assumes "unat tg < 2 ^ 13" and "len > 0xff"
  shows "parseHdr (tlv_header tg nc fwd len @ r) t =
     (None, t\<lparr>tag := tg, is_nc := nc, is_fwd := fwd, hdr_len := 4, dat_len := len mod 2 ^ 16\<rparr>)"
proof -
  have "unat (of_nat (len div 256) :: byte) * 256 + unat (of_nat len :: byte) = len mod 65536"
    by (simp only: unat_of_nat_mod) (simp add: mod_mult2_eq [of len 256 256, simplified])
  with assms show ?thesis
    by (simp add: tlv_header_def tlv_masks parseHdr_long header_byte tag_split)
qed

definition stored_element :: "u32 \<Rightarrow> bytes \<Rightarrow> KSI_TlvElement" where
  "stored_element tg bs = KSI_TlvElement
     \<lparr>off = 0, hdr_len = HDR_LEN tg (length bs), dat_len = length bs mod 2 ^ 16, tag = tg, is_nc = False, is_fwd = False\<rparr>
     (take (length bs mod 2 ^ 16) bs) True None"

lemma detach_raw:
  assumes "unat tg < 2 ^ 13" and "length bs < 2 ^ 63"
  shows "KSI_TlvElement_detach (KSI_TlvElement (ftlv_zero\<lparr>tag := tg, dat_len := length bs\<rparr>) bs False None) = Ok (stored_element tg bs)"
proof -
  let ?e = "KSI_TlvElement (ftlv_zero\<lparr>tag := tg, dat_len := length bs\<rparr>) bs False None"
  let ?h = "tlv_header tg False False (length bs)"
  have enc: "tlv_enc (el_tlv ?e) = ?h @ bs" by (simp add: ftlv_zero_def)
  have ok: "el_ok ?e" "length (tlv_enc (el_tlv ?e)) < 2 ^ 64"
    using assms HDR_LEN_pos(2) [of tg "length bs"] by (simp_all add: ftlv_zero_def)
  have "write_outcome ?e (length (tlv_enc (el_tlv ?e))) True = Ok (?h @ bs)"
    using HDR_LEN_pos(1) [of tg "length bs"]
    by (simp add: write_outcome_def enc Let_def el_payload_def ftlv_zero_def)
  then have w: "writeElement ?e (elementLen ?e True) True = Ok (?h @ bs)"
    by (simp only: elementLen_ok [OF ok] element_write(1) [OF ok])
  have "KSI_FTLV_memRead (Some (?h @ bs)) ftlv_zero =
      (None, \<lparr>off = 0, hdr_len = HDR_LEN tg (length bs), dat_len = length bs mod 2 ^ 16, tag = tg, is_nc = False, is_fwd = False\<rparr>)"
  proof (cases "length bs > 0xff")
    case True
    then show ?thesis using assms
      by (simp add: KSI_FTLV_memRead_def parse_long_header ftlv_zero_def HDR_LEN_def)
  next
    case False
    then show ?thesis using assms
      by (simp add: KSI_FTLV_memRead_def parse_tlv_header ftlv_zero_def)
  qed
  moreover have "?h \<noteq> []" using HDR_LEN_pos(1) [of tg "length bs"] by (auto simp flip: length_0_conv)
  ultimately have "remap ?e (?h @ bs) = Inr (KSI_TlvElement (ftlv (stored_element tg bs)) (payload (stored_element tg bs)) False None)"
    by (simp add: stored_element_def)
  with w show ?thesis
    by (simp add: KSI_TlvElement_detach_def stored_element_def del: writeElement.simps remap.simps)
qed

lemma stored_simps [simp]:
  "ftlv (stored_element tg bs) = \<lparr>off = 0, hdr_len = HDR_LEN tg (length bs), dat_len = length bs mod 2 ^ 16,
     tag = tg, is_nc = False, is_fwd = False\<rparr>"
  "payload (stored_element tg bs) = take (length bs mod 2 ^ 16) bs"
  by (simp_all add: stored_element_def)

lemma getPayload_stored: "getPayload (stored_element tg bs) = Ok (take (length bs mod 2 ^ 16) bs)"
proof -
  have "length bs mod 65536 < 65539" "length bs mod 65536 \<le> length bs"
    using mod_less_divisor [of 65536 "length bs"] by (simp_all add: mod_less_eq_dividend)
  then show ?thesis by (simp add: getPayload_def stored_element_def Let_def)
qed

lemma set_raw_element_list:
  assumes "convertToNested parent = Inr q" and "length (filter_tags [tg] (the (subList q))) \<le> 1"
    and "unat tg < 2 ^ 13" and "length bs < 2 ^ 63"
  obtains p l where "set_raw_element parent tg bs = Ok p" "subList p = Some l"
    "filter_tags [tg] l = [stored_element tg bs]"
    "\<And>tg'. tg' \<noteq> tg \<Longrightarrow> filter_tags [tg'] l = filter_tags [tg'] (the (subList q))"
proof -
  have "length (filter_tags [tag (ftlv (stored_element tg bs))] (the (subList q))) \<le> 1" using assms(2) by simp
  from setElement_list [OF assms(1) this] obtain p l where
    "KSI_TlvElement_setElement parent (stored_element tg bs) = Inr p" "subList p = Some l"
    "filter_tags [tg] l = [stored_element tg bs]"
    "\<And>tg'. tg' \<noteq> tg \<Longrightarrow> filter_tags [tg'] l = filter_tags [tg'] (the (subList q))" by auto
  then show ?thesis using that by (simp add: set_raw_element_def detach_raw [OF assms(3,4)])
qed

lemma encodeLimited_encodeInt:
  "unat v < 256 ^ n \<Longrightarrow> encodeLimited n v raw = (0, encodeInt v raw)"
proof (induction n v raw rule: encodeLimited.induct)
  case (1 v raw)
  then have "v = 0" by (simp add: unat_eq_0)
  then show ?case by (simp add: encodeInt.simps)
next
  case (2 n v raw)
  show ?case
  proof (cases "v = 0")
    case False
    have "unat (drop_bit 8 v) < 256 ^ n"
      using 2(2) by (simp only: unat_drop_bit) (simp add: div_less_iff_less_mult mult.commute)
    with 2 False show ?thesis by (simp add: word_neq_0_conv [symmetric] encodeInt.simps [of v])
  qed (simp add: encodeInt.simps)
qed

lemma encodeLimited_8: "encodeLimited 8 v [] = (0, encodeInt v [])"
proof -
  have "unat v < 256 ^ 8" using unsigned_less [of v, where ?'a = nat] by simp
  then show ?thesis by (rule encodeLimited_encodeInt)
qed

lemma set_get_parts:
  assumes "convertToNested parent = Inr q" and "length (filter_tags [tg] (the (subList q))) \<le> 1"
    and "unat tg < 2 ^ 13" and "length s \<le> 0xffff"
  shows "\<exists>p. KSI_TlvElement_setOctetString parent tg (Some s) = Ok p
      \<and> KSI_TlvElement_getOctetString p tg = Ok (Some s, p)
      \<and> (\<forall>tg' x. tg' \<noteq> tg \<and> KSI_TlvElement_getElement parent tg' = Inr (x, q) \<longrightarrow> KSI_TlvElement_getElement p tg' = Inr (x, p))"
    and "\<exists>p. KSI_TlvElement_setInteger parent tg (Some v) = Ok p \<and> KSI_TlvElement_getInteger p tg = Ok (Some v, p)"
proof -
  have len: "length s < 2 ^ 63" using assms(4) by simp
  obtain p l where p: "set_raw_element parent tg s = Ok p" "subList p = Some l" "filter_tags [tg] l = [stored_element tg s]"
    "\<And>tg'. tg' \<noteq> tg \<Longrightarrow> filter_tags [tg'] l = filter_tags [tg'] (the (subList q))"
    using set_raw_element_list [OF assms(1-3) len] by metis
  have frame: "KSI_TlvElement_getElement p tg' = Inr (x, p)"
    if "tg' \<noteq> tg" "KSI_TlvElement_getElement parent tg' = Inr (x, q)" for tg' x
    using that assms(1) by (subst getElement_nested [OF p(2)]) (auto simp: p(4) KSI_TlvElement_getElement_def split: list.splits)
  have "KSI_TlvElement_getOctetString p tg = Ok (Some s, p)"
    using assms(4) p(3) by (simp add: KSI_TlvElement_getOctetString_def get_decoded_def getElement_nested [OF p(2)]
        getPayload_stored KSI_OctetString_new_def)
  with p(1) frame show "\<exists>p. KSI_TlvElement_setOctetString parent tg (Some s) = Ok p
      \<and> KSI_TlvElement_getOctetString p tg = Ok (Some s, p)
      \<and> (\<forall>tg' x. tg' \<noteq> tg \<and> KSI_TlvElement_getElement parent tg' = Inr (x, q) \<longrightarrow> KSI_TlvElement_getElement p tg' = Inr (x, p))"
    by (auto simp: KSI_TlvElement_setOctetString_def)
  let ?b = "encodeInt v []"
  have b8: "length ?b \<le> 8" using length_encodeInt [of v] minsize64_le [of v] by simp
  then have "length ?b < 2 ^ 63" by simp
  then obtain p l where p: "set_raw_element parent tg ?b = Ok p" "subList p = Some l" "filter_tags [tg] l = [stored_element tg ?b]"
    using set_raw_element_list [OF assms(1-3)] by metis
  have "KSI_TlvElement_getInteger p tg = Ok (Some v, p)"
    using b8 p(3) by (simp add: KSI_TlvElement_getInteger_def get_decoded_def getElement_nested [OF p(2)]
        getPayload_stored decode_encodeInt)
  with p(1) show "\<exists>p. KSI_TlvElement_setInteger parent tg (Some v) = Ok p \<and> KSI_TlvElement_getInteger p tg = Ok (Some v, p)"
    by (simp add: KSI_TlvElement_setInteger_def encodeLimited_8)
qed



text \<open>A string longer than the length field allows is cut without an error: setting an octet string of
  \<open>0x10000 + k\<close> bytes succeeds, and only its first \<open>k\<close> bytes are read back.\<close>

theorem set_oversized_truncated:
  assumes "convertToNested parent = Inr q" and "length (filter_tags [tg] (the (subList q))) \<le> 1"
    and "unat tg < 2 ^ 13" and "length s = 0x10000 + k" and "k \<le> 0xffff"
  shows "\<exists>p. KSI_TlvElement_setOctetString parent tg (Some s) = Ok p
      \<and> KSI_TlvElement_getOctetString p tg = Ok (Some (take k s), p)"
proof -
  have len: "length s < 2 ^ 63" "length s mod 2 ^ 16 = k" using assms(4,5) by simp_all
  obtain p l where p: "set_raw_element parent tg s = Ok p" "subList p = Some l" "filter_tags [tg] l = [stored_element tg s]"
    using set_raw_element_list [OF assms(1-3) len(1)] by metis
  have "KSI_TlvElement_getOctetString p tg = Ok (Some (take k s), p)"
    using p(3) len(2) by (simp add: KSI_TlvElement_getOctetString_def get_decoded_def getElement_nested [OF p(2)]
        getPayload_stored KSI_OctetString_new_def)
  with p(1) show ?thesis by (auto simp: KSI_TlvElement_setOctetString_def)
qed

theorem set_oversized_truncated_witness:
  "\<exists>p. KSI_TlvElement_setOctetString KSI_TlvElement_new 3 (Some (replicate 0x10001 7)) = Ok p
     \<and> KSI_TlvElement_getOctetString p 3 = Ok (Some [7], p)"
proof -
  have q: "convertToNested KSI_TlvElement_new = Inr (KSI_TlvElement ftlv_zero [] False (Some []))"
    by (simp add: convertToNested_def KSI_TlvElement_new_def parseSub.simps)
  have one: "take 1 (replicate 65537 (7 :: byte)) = [7]" by (simp only: take_replicate) simp
  show ?thesis using set_oversized_truncated [OF q, of 3 "replicate 0x10001 7" 1] one by (simp add: filter_tags_def)
qed

text \<open>\<^verbatim>\<open>KSI_TlvElement_appendElement\<close> does not count the new sub-element in the payload length of the parent,
  whereas \<^verbatim>\<open>KSI_TlvElement_removeElement\<close> subtracts it: an element that is appended to an empty parent and
  removed again leaves the parent with a payload length just below \<open>2\<^sup>6\<^sup>4\<close>, and the parent can no longer be
  serialized into any buffer that is smaller than that.\<close>

theorem append_remove_underflow:
  assumes "subList parent = Some []" and "dat_len (ftlv parent) = 0"
    and "0 < hdr_len (ftlv child) + dat_len (ftlv child)" and "hdr_len (ftlv child) + dat_len (ftlv child) < 2 ^ 63"
    and "n \<le> 2 ^ 63"
  shows "\<exists>p1 p2. KSI_TlvElement_appendElement parent child = Inr p1
     \<and> KSI_TlvElement_removeElement p1 (tag (ftlv child)) = Inr (child, p2)
     \<and> subList p2 = Some [] \<and> dat_len (ftlv p2) = 2 ^ 64 - (hdr_len (ftlv child) + dat_len (ftlv child))
     \<and> writeElement p2 n hdr = Err KSI_BUFFER_OVERFLOW"
proof -
  let ?c = "hdr_len (ftlv child) + dat_len (ftlv child)"
  let ?p1 = "with_subList (Some [child]) parent"
  let ?p2 = "with_ftlv ((ftlv parent)\<lparr>dat_len := size_sub 0 ?c\<rparr>) (with_subList (Some []) ?p1)"
  have d: "size_sub 0 ?c = 2 ^ 64 - ?c" using assms(3,4) by (simp add: size_sub_def)
  have "KSI_TlvElement_appendElement parent child = Inr ?p1"
    using assms(1) by (simp add: KSI_TlvElement_appendElement_def convertToNested_nested)
  moreover have "KSI_TlvElement_removeElement ?p1 (tag (ftlv child)) = Inr (child, ?p2)"
    using assms(2) by (simp add: KSI_TlvElement_removeElement_def convertToNested_nested filter_tags_single tag_index_def)
  moreover have "n \<le> 2 ^ 64 - ?c" using assms(4,5) by simp
  then have "writeElement ?p2 n hdr = Err KSI_BUFFER_OVERFLOW"
    using d by (cases parent) simp
  ultimately show ?thesis using d by auto
qed

theorem append_remove_underflow_witness:
  "\<exists>p1 p2. KSI_TlvElement_appendElement (KSI_TlvElement ftlv_zero [] False (Some []))
       (KSI_TlvElement (ftlv_zero\<lparr>tag := 1, hdr_len := 2, dat_len := 1\<rparr>) [7] False None) = Inr p1
     \<and> KSI_TlvElement_removeElement p1 1 = Inr (KSI_TlvElement (ftlv_zero\<lparr>tag := 1, hdr_len := 2, dat_len := 1\<rparr>) [7] False None, p2)
     \<and> dat_len (ftlv p2) = 2 ^ 64 - 3"
  using append_remove_underflow [of "KSI_TlvElement ftlv_zero [] False (Some [])"
      "KSI_TlvElement (ftlv_zero\<lparr>tag := 1, hdr_len := 2, dat_len := 1\<rparr>) [7] False None" 0 False]
  by (auto simp: ftlv_zero_def)

end
