(* ===== verification/DataHash.thy ===== *)
theory DataHash
  imports TlvElement
begin

text \<open>
  Hash values and hashers of \<^verbatim>\<open>src/src/ksi/hash.c\<close> with the OpenSSL back end
  \<^verbatim>\<open>src/src/ksi/hash_openssl.c\<close> (default build options of OpenSSL).  A hash value is its imprint: the
  identifier of the algorithm, one byte, followed by the digest.  The digest functions themselves belong
  to OpenSSL and are the parameter \<open>D\<close>: \<open>D a m\<close> is the digest of the message \<open>m\<close> under the algorithm
  \<open>a\<close>; all that is assumed of it, where it matters, is the documented digest length (\<open>digest_ok\<close>).
\<close>

type_synonym KSI_HashAlgorithm = int
type_synonym KSI_DataHash = bytes

section \<open>The table of algorithms\<close>

record hashAlgorithmInfo =
  algo_id :: int
  outputBitCount :: nat
  blockSize :: nat
  names :: "string list option"
  deprecatedFrom :: int
  obsoleteFrom :: int

definition HASH_ALGO :: "int \<Rightarrow> nat \<Rightarrow> nat \<Rightarrow> string list \<Rightarrow> int \<Rightarrow> int \<Rightarrow> hashAlgorithmInfo" where
  "HASH_ALGO i bitcount blk nms dep obs =
     \<lparr>algo_id = i, outputBitCount = bitcount, blockSize = blk, names = Some nms, deprecatedFrom = dep, obsoleteFrom = obs\<rparr>"

text \<open>The arrays of names end with an empty string, all but one.\<close>

definition KSI_hashAlgorithmInfo :: "hashAlgorithmInfo list" where
  "KSI_hashAlgorithmInfo =
    [HASH_ALGO 0 160 512 [''SHA-1'', ''SHA1'', ''''] 1467331200 0,
     HASH_ALGO 1 256 512 [''SHA-256'', ''SHA2-256'', ''SHA-2'', ''SHA2'', ''SHA256'', ''DEFAULT'', ''''] 0 0,
     HASH_ALGO 2 160 512 [''RIPEMD-160'', ''RIPEMD160'', ''''] 0 0,
     \<lparr>algo_id = 3, outputBitCount = 0, blockSize = 0, names = None, deprecatedFrom = 1, obsoleteFrom = 1\<rparr>,
     HASH_ALGO 4 384 1024 [''SHA-384'', ''SHA384'', ''SHA2-384'', ''''] 0 0,
     HASH_ALGO 5 512 1024 [''SHA-512'', ''SHA512'', ''SHA2-512'', ''''] 0 0,
     \<lparr>algo_id = 6, outputBitCount = 0, blockSize = 0, names = None, deprecatedFrom = 1, obsoleteFrom = 1\<rparr>,
     HASH_ALGO 7 224 1152 [''SHA3-224'', ''''] 0 0,
     HASH_ALGO 8 256 1088 [''SHA3-256'', ''''] 0 0,
     HASH_ALGO 9 384 832 [''SHA3-384'', ''''] 0 0,
     HASH_ALGO 10 512 576 [''SHA3-512''] 0 0,
     HASH_ALGO 11 256 512 [''SM-3'', ''SM3'', ''''] 0 0]"

definition KSI_NUMBER_OF_KNOWN_HASHALGS :: int where
  "KSI_NUMBER_OF_KNOWN_HASHALGS = 12"

definition KSI_MAX_IMPRINT_LEN :: nat where
  "KSI_MAX_IMPRINT_LEN = 65"

definition algoInfo :: "int \<Rightarrow> hashAlgorithmInfo" where
  "algoInfo a = KSI_hashAlgorithmInfo ! nat a"

definition ksi_isHashAlgorithmIdValid :: "int \<Rightarrow> bool" where
  "ksi_isHashAlgorithmIdValid a = (a \<ge> 0 \<and> a < KSI_NUMBER_OF_KNOWN_HASHALGS \<and> names (algoInfo a) \<noteq> None)"

definition KSI_isHashAlgorithmTrusted :: "KSI_HashAlgorithm \<Rightarrow> bool" where
  "KSI_isHashAlgorithmTrusted a =
     (if ksi_isHashAlgorithmIdValid a then obsoleteFrom (algoInfo a) = 0 \<and> deprecatedFrom (algoInfo a) = 0 else False)"

definition KSI_checkHashAlgorithmAt :: "KSI_HashAlgorithm \<Rightarrow> int \<Rightarrow> ksi_status" where
  "KSI_checkHashAlgorithmAt a used_at =
     (if \<not> ksi_isHashAlgorithmIdValid a then Some KSI_UNKNOWN_HASH_ALGORITHM_ID
      else if obsoleteFrom (algoInfo a) \<noteq> 0 \<and> obsoleteFrom (algoInfo a) \<le> used_at then Some KSI_HASH_ALGORITHM_OBSOLETE
      else if deprecatedFrom (algoInfo a) \<noteq> 0 \<and> deprecatedFrom (algoInfo a) \<le> used_at then Some KSI_HASH_ALGORITHM_DEPRECATED
      else None)"

definition KSI_getHashLength :: "KSI_HashAlgorithm \<Rightarrow> nat" where
  "KSI_getHashLength a = (if ksi_isHashAlgorithmIdValid a then drop_bit 3 (outputBitCount (algoInfo a)) else 0)"

definition KSI_HashAlgorithm_getBlockSize :: "KSI_HashAlgorithm \<Rightarrow> nat" where
  "KSI_HashAlgorithm_getBlockSize a = (if ksi_isHashAlgorithmIdValid a then drop_bit 3 (blockSize (algoInfo a)) else 0)"

definition KSI_HashAlgorithm_getDeprecatedFrom :: "KSI_HashAlgorithm \<Rightarrow> int" where
  "KSI_HashAlgorithm_getDeprecatedFrom a = (if ksi_isHashAlgorithmIdValid a then deprecatedFrom (algoInfo a) else -1)"

definition KSI_HashAlgorithm_getObsoleteFrom :: "KSI_HashAlgorithm \<Rightarrow> int" where
  "KSI_HashAlgorithm_getObsoleteFrom a = (if ksi_isHashAlgorithmIdValid a then obsoleteFrom (algoInfo a) else -1)"

definition KSI_getHashAlgorithmName :: "KSI_HashAlgorithm \<Rightarrow> string option" where
  "KSI_getHashAlgorithmName a = (if ksi_isHashAlgorithmIdValid a then Some (the (names (algoInfo a)) ! 0) else None)"

text \<open>Searching the table by name.  \<open>None\<close> is a read behind the end of an array of names.\<close>

definition toupper :: "char \<Rightarrow> char" where
  "toupper c = (if 97 \<le> (of_char c :: nat) \<and> (of_char c :: nat) \<le> 122 then char_of (of_char c - 32 :: nat) else c)"

definition upperName :: "string \<Rightarrow> string" where
  "upperName s = map (\<lambda>c. if c = CHR ''_'' then CHR ''-'' else toupper c) s"

fun aliasLoop :: "string \<Rightarrow> string list \<Rightarrow> bool option" where
  "aliasLoop nm [] = None"
| "aliasLoop nm (alias # rest) =
     (if alias = [] then Some False else if nm = alias then Some True else aliasLoop nm rest)"

fun algoLoop :: "string \<Rightarrow> hashAlgorithmInfo list \<Rightarrow> int \<Rightarrow> int option" where
  "algoLoop nm [] i = Some (-1)"
| "algoLoop nm (info # rest) i =
     (case names info of
        None \<Rightarrow> algoLoop nm rest (i + 1)
      | Some nms \<Rightarrow>
          (case aliasLoop nm nms of
             None \<Rightarrow> None
           | Some found \<Rightarrow> if found then Some i else algoLoop nm rest (i + 1)))"

definition KSI_getHashAlgorithmByName :: "string option \<Rightarrow> int option" where
  "KSI_getHashAlgorithmByName nm =
     (case nm of None \<Rightarrow> Some (-1)
      | Some s \<Rightarrow> if s = [] \<or> CHR '','' \<in> set s then Some (-1) else algoLoop (upperName s) KSI_hashAlgorithmInfo 0)"

section \<open>Hash values\<close>

definition KSI_DataHash_extract :: "KSI_DataHash option \<Rightarrow> (KSI_HashAlgorithm \<times> bytes) ksi_result" where
  "KSI_DataHash_extract h = the_ptr h KSI_INVALID_ARGUMENT (\<lambda>h. Inr (int (unat (h ! 0)), drop 1 h))"

definition KSI_DataHash_fromDigest :: "KSI_HashAlgorithm \<Rightarrow> bytes option \<Rightarrow> KSI_DataHash ksi_result" where
  "KSI_DataHash_fromDigest a digest =
     the_ptr digest KSI_INVALID_ARGUMENT (\<lambda>digest.
     check (digest = []) KSI_INVALID_ARGUMENT
     (check (\<not> ksi_isHashAlgorithmIdValid a) KSI_UNAVAILABLE_HASH_ALGORITHM
     (check (KSI_getHashLength a \<noteq> length digest) KSI_INVALID_FORMAT
     (check (length digest > KSI_MAX_IMPRINT_LEN) KSI_CRYPTO_FAILURE
        (Inr (of_int a # digest))))))"

definition KSI_DataHash_getImprint :: "KSI_DataHash option \<Rightarrow> bytes ksi_result" where
  "KSI_DataHash_getImprint h = the_ptr h KSI_SERVICE_UNKNOWN_ERROR Inr"

text \<open>For an empty imprint the code reads the byte behind it as the algorithm and takes \<^verbatim>\<open>imprint_length - 1\<close>,
  the largest \<^verbatim>\<open>size_t\<close>, for the length of the digest.  No byte makes that acceptable: the outcome is one
  of two errors, depending on the byte read; the model has the one for a valid algorithm.\<close>

definition KSI_DataHash_fromImprint :: "bytes \<Rightarrow> KSI_DataHash ksi_result" where
  "KSI_DataHash_fromImprint imprint =
     (case imprint of [] \<Rightarrow> Inl KSI_INVALID_FORMAT
      | b # digest \<Rightarrow> KSI_DataHash_fromDigest (int (unat b)) (Some digest))"

definition KSI_DataHash_equals :: "KSI_DataHash option \<Rightarrow> KSI_DataHash option \<Rightarrow> bool" where
  "KSI_DataHash_equals l r = (l \<noteq> None \<and> r \<noteq> None \<and> length (the l) = length (the r) \<and> the l = the r)"

definition KSI_DataHash_clone :: "KSI_DataHash option \<Rightarrow> KSI_DataHash ksi_result" where
  "KSI_DataHash_clone h = the_ptr h KSI_INVALID_ARGUMENT Inr"

definition KSI_DataHash_fromTlv :: "KSI_TLV \<Rightarrow> KSI_DataHash ksi_result \<times> KSI_TLV" where
  "KSI_DataHash_fromTlv t = with_raw KSI_DataHash_fromImprint t"

definition KSI_DataHash_toTlv :: "KSI_DataHash option \<Rightarrow> u32 \<Rightarrow> bool \<Rightarrow> bool \<Rightarrow> KSI_TLV ksi_result" where
  "KSI_DataHash_toTlv h tg nc fwd =
     the_ptr h KSI_INVALID_ARGUMENT (\<lambda>h.
     rbind (KSI_DataHash_getImprint (Some h)) (\<lambda>raw. KSI_TLV_setRawValue (KSI_TLV_new tg nc fwd) (Some raw)))"

definition KSI_DataHash_getHashAlg :: "KSI_DataHash option \<Rightarrow> KSI_HashAlgorithm ksi_result" where
  "KSI_DataHash_getHashAlg h = the_ptr h KSI_INVALID_ARGUMENT (\<lambda>h. Inr (int (unat (h ! 0))))"

definition KSI_DataHash_createZero :: "KSI_HashAlgorithm \<Rightarrow> KSI_DataHash ksi_result" where
  "KSI_DataHash_createZero a =
     (let buf = (replicate KSI_MAX_IMPRINT_LEN 0)[0 := of_int a] in
      check (\<not> ksi_isHashAlgorithmIdValid a) KSI_UNAVAILABLE_HASH_ALGORITHM
        (KSI_DataHash_fromImprint (take (drop_bit 3 (outputBitCount (algoInfo a)) + 1) buf)))"

section \<open>Hashers\<close>

record KSI_DataHasher =
  algorithm :: int
  isOpen :: bool
  fed :: bytes

text \<open>The digests OpenSSL provides: SHA-1, SHA-256, RIPEMD-160, SHA-384 and SHA-512.\<close>

definition KSI_isHashAlgorithmSupported :: "KSI_HashAlgorithm \<Rightarrow> bool" where
  "KSI_isHashAlgorithmSupported a = (a = 0 \<or> a = 2 \<or> a = 1 \<or> a = 4 \<or> a = 5)"

definition KSI_DataHasher_reset :: "KSI_DataHasher option \<Rightarrow> KSI_DataHasher ksi_result" where
  "KSI_DataHasher_reset hsr =
     the_ptr hsr KSI_INVALID_ARGUMENT (\<lambda>hsr.
     check (\<not> KSI_isHashAlgorithmSupported (algorithm hsr)) KSI_OUT_OF_MEMORY
       (Inr (hsr\<lparr>fed := [], isOpen := True\<rparr>)))"

definition KSI_DataHasher_open :: "KSI_HashAlgorithm \<Rightarrow> KSI_DataHasher ksi_result" where
  "KSI_DataHasher_open a =
     check (\<not> KSI_isHashAlgorithmSupported a) KSI_UNAVAILABLE_HASH_ALGORITHM
       (KSI_DataHasher_reset (Some \<lparr>algorithm = a, isOpen = False, fed = []\<rparr>))"

definition KSI_DataHasher_add :: "KSI_DataHasher option \<Rightarrow> bytes option \<Rightarrow> KSI_DataHasher ksi_result" where
  "KSI_DataHasher_add hsr data =
     the_ptr hsr KSI_INVALID_ARGUMENT (\<lambda>hsr.
     the_ptr data KSI_INVALID_ARGUMENT (\<lambda>data.
     check (\<not> isOpen hsr) KSI_INVALID_STATE (Inr (hsr\<lparr>fed := fed hsr @ data\<rparr>))))"

definition KSI_DataHasher_addImprint :: "KSI_DataHasher option \<Rightarrow> KSI_DataHash option \<Rightarrow> KSI_DataHasher ksi_result" where
  "KSI_DataHasher_addImprint hsr h =
     (if hsr = None \<or> h = None then Inl KSI_INVALID_ARGUMENT
      else rbind (KSI_DataHash_getImprint h) (\<lambda>imprint. KSI_DataHasher_add hsr (Some imprint)))"

text \<open>The data pointer of an empty octet string is null.\<close>

definition octet_ptr :: "KSI_OctetString \<Rightarrow> bytes option" where
  "octet_ptr s = (if s = [] then None else Some s)"

definition KSI_DataHasher_addOctetString :: "KSI_DataHasher option \<Rightarrow> KSI_OctetString option \<Rightarrow> KSI_DataHasher ksi_result" where
  "KSI_DataHasher_addOctetString hsr data =
     (if hsr = None \<or> data = None then Inl KSI_INVALID_ARGUMENT
      else rbind (KSI_OctetString_extract data) (\<lambda>p. KSI_DataHasher_add hsr (octet_ptr p)))"

definition closeExisting :: "(int \<Rightarrow> bytes \<Rightarrow> bytes) \<Rightarrow> KSI_DataHasher \<Rightarrow> KSI_DataHash ksi_result" where
  "closeExisting D hsr =
     check (\<not> KSI_isHashAlgorithmSupported (algorithm hsr)) KSI_INVALID_ARGUMENT
     (check (KSI_getHashLength (algorithm hsr) = 0) KSI_UNKNOWN_ERROR
       (let d = D (algorithm hsr) (fed hsr) in
        check (KSI_getHashLength (algorithm hsr) \<noteq> length d) KSI_UNKNOWN_ERROR
          (Inr (of_int (algorithm hsr) # d))))"

definition KSI_DataHasher_close :: "(int \<Rightarrow> bytes \<Rightarrow> bytes) \<Rightarrow> KSI_DataHasher option \<Rightarrow> (KSI_DataHash \<times> KSI_DataHasher) ksi_result" where
  "KSI_DataHasher_close D hsr =
     the_ptr hsr KSI_INVALID_ARGUMENT (\<lambda>hsr.
     check (\<not> isOpen hsr) KSI_INVALID_STATE
       (rbind (closeExisting D hsr) (\<lambda>h. Inr (h, hsr\<lparr>isOpen := False\<rparr>))))"

definition KSI_DataHash_create :: "(int \<Rightarrow> bytes \<Rightarrow> bytes) \<Rightarrow> bytes option \<Rightarrow> KSI_HashAlgorithm \<Rightarrow> KSI_DataHash ksi_result" where
  "KSI_DataHash_create D data a =
     rbind (KSI_DataHasher_open a) (\<lambda>hsr.
     rbind (case data of None \<Rightarrow> Inr hsr
            | Some bs \<Rightarrow> if length bs > 0 then KSI_DataHasher_add (Some hsr) (Some bs) else Inr hsr) (\<lambda>hsr.
     rbind (KSI_DataHasher_close D (Some hsr)) (\<lambda>(hsh, hsr). Inr hsh)))"


section \<open>Imprints\<close>

text \<open>What the code relies on: OpenSSL returns digests of the documented length.\<close>

definition digest_ok :: "(int \<Rightarrow> bytes \<Rightarrow> bytes) \<Rightarrow> bool" where
  "digest_ok D \<longleftrightarrow> (\<forall>a m. KSI_isHashAlgorithmSupported a \<longrightarrow> length (D a m) = KSI_getHashLength a)"

definition imprint_ok :: "KSI_DataHash \<Rightarrow> bool" where
  "imprint_ok h \<longleftrightarrow> h \<noteq> [] \<and> ksi_isHashAlgorithmIdValid (int (unat (hd h)))
     \<and> length h = Suc (KSI_getHashLength (int (unat (hd h))))"

lemma valid_ids: "ksi_isHashAlgorithmIdValid a \<longleftrightarrow> a \<in> {0, 1, 2, 4, 5, 7, 8, 9, 10, 11}"
proof -
  have "a \<in> {0..11} \<longleftrightarrow> a \<in> {0, 1, 2, 3, 4, 5, 6, 7, 8, 9, 10, 11}"
    unfolding atLeastAtMost_iff insert_iff empty_iff by presburger
  then show ?thesis
    by (auto simp: ksi_isHashAlgorithmIdValid_def KSI_NUMBER_OF_KNOWN_HASHALGS_def algoInfo_def KSI_hashAlgorithmInfo_def
        HASH_ALGO_def)
qed

lemma hash_lengths:
  "KSI_getHashLength 0 = 20" "KSI_getHashLength 1 = 32" "KSI_getHashLength 2 = 20" "KSI_getHashLength 4 = 48"
  "KSI_getHashLength 5 = 64" "KSI_getHashLength 7 = 28" "KSI_getHashLength 8 = 32" "KSI_getHashLength 9 = 48"
  "KSI_getHashLength 10 = 64" "KSI_getHashLength 11 = 32"
  by (simp_all add: KSI_getHashLength_def valid_ids) (simp_all add: algoInfo_def KSI_hashAlgorithmInfo_def HASH_ALGO_def)

lemma hash_length_bounds: "ksi_isHashAlgorithmIdValid a \<Longrightarrow> 20 \<le> KSI_getHashLength a \<and> KSI_getHashLength a \<le> 64"
  by (auto simp: valid_ids hash_lengths)

lemma supported_valid: "KSI_isHashAlgorithmSupported a \<Longrightarrow> ksi_isHashAlgorithmIdValid a"
  by (auto simp: KSI_isHashAlgorithmSupported_def valid_ids)

lemma unat_algo: "ksi_isHashAlgorithmIdValid a \<Longrightarrow> int (unat (of_int a :: byte)) = a"
  by (auto simp: valid_ids)

lemma fromImprint_iff: "KSI_DataHash_fromImprint im = Inr h \<longleftrightarrow> h = im \<and> imprint_ok im"
proof (cases im)
  case Nil
  then show ?thesis by (simp add: KSI_DataHash_fromImprint_def imprint_ok_def)
next
  case (Cons b d)
  have "KSI_getHashLength (int (unat b)) \<le> 65" if "ksi_isHashAlgorithmIdValid (int (unat b))"
    using hash_length_bounds [OF that] by simp
  moreover have "d \<noteq> []" if "ksi_isHashAlgorithmIdValid (int (unat b))" "length d = KSI_getHashLength (int (unat b))"
    using hash_length_bounds [OF that(1)] that(2) by auto
  ultimately show ?thesis
    using Cons by (auto simp: KSI_DataHash_fromImprint_def KSI_DataHash_fromDigest_def imprint_ok_def KSI_MAX_IMPRINT_LEN_def)
qed

lemma digest_imprint_ok:
  assumes "digest_ok D" and "KSI_isHashAlgorithmSupported a"
  shows "imprint_ok (of_int a # D a m)"
  using assms unat_algo [OF supported_valid [OF assms(2)]]
  by (simp add: imprint_ok_def digest_ok_def supported_valid)

lemma closeExisting_ok:
  assumes "digest_ok D" and "KSI_isHashAlgorithmSupported (algorithm hsr)"
  shows "closeExisting D hsr = Inr (of_int (algorithm hsr) # D (algorithm hsr) (fed hsr))"
  using assms hash_length_bounds [OF supported_valid [OF assms(2)]]
  by (auto simp: closeExisting_def digest_ok_def Let_def)

text \<open>Feeding a hasher with several pieces of data.\<close>

fun feed :: "KSI_DataHasher \<Rightarrow> bytes list \<Rightarrow> KSI_DataHasher ksi_result" where
  "feed hsr [] = Inr hsr"
| "feed hsr (c # cs) = rbind (KSI_DataHasher_add (Some hsr) (Some c)) (\<lambda>hsr. feed hsr cs)"

lemma feed_open: "isOpen hsr \<Longrightarrow> feed hsr cs = Inr (hsr\<lparr>fed := fed hsr @ concat cs\<rparr>)"
  by (induction cs arbitrary: hsr) (auto simp: KSI_DataHasher_add_def)

text \<open>C30. A hasher computes the digest of the concatenation of everything it was fed, whatever the pieces; the
  result is a well-formed imprint, which \<^verbatim>\<open>KSI_DataHash_fromImprint\<close> accepts and a TLV carries unchanged; and a
  closed hasher refuses further data until it is reset.\<close>

theorem hasher_digest:
  assumes "digest_ok D" and "KSI_isHashAlgorithmSupported a"
  shows "\<exists>hsr hsr' t. KSI_DataHasher_open a = Inr hsr \<and>
     rbind (feed hsr chunks) (\<lambda>hsr. KSI_DataHasher_close D (Some hsr)) = Inr (of_int a # D a (concat chunks), hsr')
     \<and> KSI_DataHash_create D (Some (concat chunks)) a = Inr (of_int a # D a (concat chunks))
     \<and> KSI_DataHash_fromImprint (of_int a # D a (concat chunks)) = Inr (of_int a # D a (concat chunks))
     \<and> KSI_DataHash_toTlv (Some (of_int a # D a (concat chunks))) tg nc fwd = Inr t
     \<and> KSI_DataHash_fromTlv t = (Inr (of_int a # D a (concat chunks)), t)
     \<and> KSI_DataHasher_add (Some hsr') (Some m) = Inl KSI_INVALID_STATE
     \<and> KSI_DataHasher_reset (Some hsr') = Inr hsr"
proof -
  let ?h = "of_int a # D a (concat chunks) :: bytes"
  let ?hsr = "\<lparr>algorithm = a, isOpen = True, fed = []\<rparr>"
  have ok: "imprint_ok ?h" by (rule digest_imprint_ok [OF assms])
  then have im: "KSI_DataHash_fromImprint ?h = Inr ?h" by (simp add: fromImprint_iff)
  have o: "KSI_DataHasher_open a = Inr ?hsr" using assms by (simp add: KSI_DataHasher_open_def KSI_DataHasher_reset_def)
  have c: "KSI_DataHasher_close D (Some (?hsr\<lparr>fed := m\<rparr>)) = Inr (of_int a # D a m, \<lparr>algorithm = a, isOpen = False, fed = m\<rparr>)" for m
    using assms by (simp add: KSI_DataHasher_close_def closeExisting_ok)
  have "length ?h \<le> 0xffff" using ok hash_length_bounds [of "int (unat (hd ?h))"] by (simp add: imprint_ok_def)
  then obtain t where t: "KSI_DataHash_toTlv (Some ?h) tg nc fwd = Inr t" "nested t = None" "datap t = ?h"
    using setRawValue_new [of ?h tg nc fwd] by (auto simp: KSI_DataHash_toTlv_def KSI_DataHash_getImprint_def)
  have "KSI_DataHash_create D (Some m) a = Inr (of_int a # D a m)" for m
    using c [of m] c [of "[]"] by (cases m) (simp_all add: KSI_DataHash_create_def o KSI_DataHasher_add_def)
  with o c [of "concat chunks"] t im assms(2) show ?thesis
    by (auto simp: feed_open KSI_DataHash_fromTlv_def KSI_DataHasher_add_def KSI_DataHasher_reset_def)
qed

theorem hasher_digest_witness:
  "KSI_DataHash_create (\<lambda>a m. replicate (KSI_getHashLength a) 0) (Some [1, 2, 3]) 1 = Inr (1 # replicate 32 0)"
proof -
  have "digest_ok (\<lambda>a m. replicate (KSI_getHashLength a) 0)" by (simp add: digest_ok_def)
  from hasher_digest [OF this, of 1 "[[1], [2, 3]]" 0 False False "[]"] show ?thesis
    by (auto simp: KSI_isHashAlgorithmSupported_def hash_lengths)
qed

text \<open>Looking an algorithm up by the name \<^verbatim>\<open>KSI_getHashAlgorithmName\<close> gives for it finds it, with one
  exception: the array of names of SHA3-512 lacks its terminator, so that the search for SM3, and for
  every name that is not in the table, runs over the end of that array.\<close>

theorem algorithm_by_name:
  "(ksi_isHashAlgorithmIdValid a \<and> a \<noteq> 11 \<longrightarrow> KSI_getHashAlgorithmByName (KSI_getHashAlgorithmName a) = Some a)
   \<and> KSI_getHashAlgorithmByName (KSI_getHashAlgorithmName 11) = None
   \<and> KSI_getHashAlgorithmByName (Some ''MD5'') = None"
proof -
  have "KSI_getHashAlgorithmByName (KSI_getHashAlgorithmName a) = Some a" if "a \<in> {0, 1, 2, 4, 5, 7, 8, 9, 10}"
    using that by (elim insertE emptyE; simp add: KSI_getHashAlgorithmName_def valid_ids;
        simp add: KSI_getHashAlgorithmByName_def algoInfo_def KSI_hashAlgorithmInfo_def HASH_ALGO_def upperName_def toupper_def)
  then show ?thesis
    by (simp add: valid_ids KSI_getHashAlgorithmName_def;
        simp add: KSI_getHashAlgorithmByName_def algoInfo_def KSI_hashAlgorithmInfo_def HASH_ALGO_def upperName_def toupper_def)
qed

theorem algorithm_by_name_witness: "KSI_getHashAlgorithmByName (KSI_getHashAlgorithmName 5) = Some 5"
  using algorithm_by_name [of 5] by (simp add: valid_ids)

end
