(* ===== verification/HashChain.thy ===== *)
theory HashChain
  imports DataHash
begin

text \<open>
  Hash chains of \<^verbatim>\<open>src/src/ksi/hashchain.c\<close>: the links, the aggregation of a chain to a root hash and
  level, the time a calendar chain encodes, the shape of an aggregation chain, identities, and the
  comparison of two calendar chains.  Lists of links are HOL lists (theory \<open>KsiList\<close> justifies that for the
  list operations used here); \<open>D\<close> is the digest function.

  C's \<^verbatim>\<open>int\<close> is 32 bits wide; where the code narrows a 64-bit value to \<^verbatim>\<open>int\<close> or adds \<^verbatim>\<open>int\<close>s, the model
  wraps around.
\<close>

definition to_int :: "u64 \<Rightarrow> int" where
  "to_int v = sint (ucast v :: 32 word)"

definition int_wrap :: "int \<Rightarrow> int" where
  "int_wrap n = sint (word_of_int n :: 32 word)"

section \<open>State\<close>

record KSI_HashChainLink =
  isLeft :: bool
  levelCorrection :: "KSI_Integer option"
  legacyId :: "KSI_OctetString option"
  metaData :: "KSI_TlvElement option"
  imprint :: "KSI_DataHash option"

record KSI_CalendarHashChain =
  publicationTime :: "KSI_Integer option"
  cal_aggregationTime :: "KSI_Integer option"
  cal_inputHash :: "KSI_DataHash option"
  cal_outputHash :: "KSI_DataHash option"
  hashChain :: "KSI_HashChainLink list option"

text \<open>\<open>released\<close> records that the reference in \<^verbatim>\<open>outputHash\<close> has been given up although the pointer is still
  there.\<close>

record KSI_AggregationHashChain =
  aggregationTime :: "KSI_Integer option"
  chainIndex :: "KSI_Integer list option"
  inputData :: "KSI_OctetString option"
  inputHash :: "KSI_DataHash option"
  aggrHashId :: "KSI_Integer option"
  chain :: "KSI_HashChainLink list option"
  outputHash :: "KSI_DataHash option"
  outputLevel :: int
  inputLevel :: int
  released :: bool

definition KSI_HashChainLink_new :: KSI_HashChainLink where
  "KSI_HashChainLink_new = \<lparr>isLeft = False, levelCorrection = None, legacyId = None, metaData = None, imprint = None\<rparr>"

definition KSI_CalendarHashChain_new :: KSI_CalendarHashChain where
  "KSI_CalendarHashChain_new = \<lparr>publicationTime = None, cal_aggregationTime = None, cal_inputHash = None,
     cal_outputHash = None, hashChain = None\<rparr>"

definition KSI_AggregationHashChain_new :: KSI_AggregationHashChain where
  "KSI_AggregationHashChain_new = \<lparr>aggregationTime = None, chainIndex = None, inputData = None, inputHash = None,
     aggrHashId = None, chain = None, outputHash = None, outputLevel = -1, inputLevel = 0x1ff, released = False\<rparr>"

section \<open>Aggregation\<close>

definition dataHasher_addNvlImprint ::
    "KSI_DataHasher \<Rightarrow> KSI_DataHash option \<Rightarrow> KSI_DataHash option \<Rightarrow> KSI_DataHasher ksi_result" where
  "dataHasher_addNvlImprint hsr first second =
     (case first of
        Some h \<Rightarrow> KSI_DataHasher_addImprint (Some hsr) (Some h)
      | None \<Rightarrow> (case second of None \<Rightarrow> Inl KSI_INVALID_ARGUMENT
                 | Some h \<Rightarrow> KSI_DataHasher_addImprint (Some hsr) (Some h)))"

text \<open>The sibling value of a link is an imprint, a legacy identifier or a metadata element, exactly one of
  them.\<close>

definition linkImprint :: "KSI_HashChainLink \<Rightarrow> bytes option run" where
  "linkImprint link =
     (case (imprint link, legacyId link, metaData link) of
        (Some h, None, None) \<Rightarrow> run_of (rbind (KSI_DataHash_getImprint (Some h)) (\<lambda>b. Inr (Some b)))
      | (None, Some l, None) \<Rightarrow> run_of (rbind (KSI_OctetString_extract (Some l)) (\<lambda>b. Inr (octet_ptr b)))
      | (None, None, Some m) \<Rightarrow> run_bind (writeElement m (0xffff + 4) False) (\<lambda>b. Ok (Some b))
      | _ \<Rightarrow> Err KSI_INVALID_FORMAT)"

definition dataHasher_addLinkImprint :: "KSI_DataHasher \<Rightarrow> KSI_HashChainLink \<Rightarrow> KSI_DataHasher run" where
  "dataHasher_addLinkImprint hsr link =
     run_bind (linkImprint link) (\<lambda>b. run_of (KSI_DataHasher_add (Some hsr) b))"

text \<open>The state of the loop in \<^verbatim>\<open>aggregateChain\<close>.\<close>

record aggr_state =
  level :: int
  ag_hsr :: "KSI_DataHasher option"
  ag_hsh :: "KSI_DataHash option"
  ag_algo :: int

text \<open>The first part of the loop body: the new level, or, in a calendar chain, the algorithm of a left link.
  The range check of the level correction only records an error and goes on.\<close>

definition aggregate_prepare :: "bool \<Rightarrow> KSI_HashChainLink \<Rightarrow> aggr_state \<Rightarrow> aggr_state ksi_result" where
  "aggregate_prepare isCalendar link st =
     (if \<not> isCalendar then
        Inr (st\<lparr>level := int_wrap (level st + int_wrap (to_int (KSI_Integer_getUInt64 (levelCorrection link)) + 1))\<rparr>)
      else if isLeft link then
        rbind (KSI_DataHash_extract (imprint link)) (\<lambda>(tmp, digest).
          if tmp \<noteq> ag_algo st then
            rbind (KSI_DataHasher_open tmp) (\<lambda>hsr. Inr (st\<lparr>ag_algo := tmp, ag_hsr := Some hsr\<rparr>))
          else Inr st)
      else Inr st)"

definition aggregate_step ::
    "(int \<Rightarrow> bytes \<Rightarrow> bytes) \<Rightarrow> KSI_DataHash \<Rightarrow> bool \<Rightarrow> KSI_HashChainLink \<Rightarrow> aggr_state \<Rightarrow> aggr_state run" where
  "aggregate_step D inHash isCalendar link st =
     run_bind (run_of (aggregate_prepare isCalendar link st)) (\<lambda>st.
     run_bind (run_of (case ag_hsr st of None \<Rightarrow> KSI_DataHasher_open (ag_algo st)
                       | Some hsr \<Rightarrow> KSI_DataHasher_reset (Some hsr))) (\<lambda>hsr.
     run_bind (if isLeft link then
                 run_bind (run_of (dataHasher_addNvlImprint hsr (ag_hsh st) (Some inHash))) (\<lambda>hsr.
                   dataHasher_addLinkImprint hsr link)
               else
                 run_bind (dataHasher_addLinkImprint hsr link) (\<lambda>hsr.
                   run_of (dataHasher_addNvlImprint hsr (ag_hsh st) (Some inHash)))) (\<lambda>hsr.
     if level st > 0xff then Err KSI_INVALID_FORMAT
     else
       let hsr = (case KSI_DataHasher_add (Some hsr) (Some [of_int (level st)]) of Inl _ \<Rightarrow> hsr | Inr hsr \<Rightarrow> hsr) in
       run_bind (run_of (KSI_DataHasher_close D (Some hsr))) (\<lambda>(hsh, hsr).
         Ok (st\<lparr>ag_hsr := Some hsr, ag_hsh := Some hsh\<rparr>)))))"

fun aggregateLoop ::
    "(int \<Rightarrow> bytes \<Rightarrow> bytes) \<Rightarrow> KSI_DataHash \<Rightarrow> bool \<Rightarrow> KSI_HashChainLink list \<Rightarrow> aggr_state \<Rightarrow> aggr_state run" where
  "aggregateLoop D inHash isCalendar [] st = Ok st"
| "aggregateLoop D inHash isCalendar (link # links) st =
     run_bind (aggregate_step D inHash isCalendar link st) (aggregateLoop D inHash isCalendar links)"

text \<open>The result is the end level and the output hash; an empty chain leaves the latter null.\<close>

definition aggregateChain ::
    "(int \<Rightarrow> bytes \<Rightarrow> bytes) \<Rightarrow> KSI_HashChainLink list option \<Rightarrow> KSI_DataHash option \<Rightarrow> int \<Rightarrow> int \<Rightarrow> bool
       \<Rightarrow> (int \<times> KSI_DataHash option) run" where
  "aggregateChain D chn inHash startLevel aggr_algo_id isCalendar =
     (case (chn, inHash) of
        (Some chn, Some inHash) \<Rightarrow>
          run_bind (run_of (if isCalendar then rbind (KSI_DataHash_extract (Some inHash)) (\<lambda>(a, d). Inr a)
                            else Inr aggr_algo_id)) (\<lambda>a.
          run_bind (aggregateLoop D inHash isCalendar chn \<lparr>level = startLevel, ag_hsr = None, ag_hsh = None, ag_algo = a\<rparr>)
            (\<lambda>st. Ok (level st, ag_hsh st)))
      | _ \<Rightarrow> Err KSI_INVALID_ARGUMENT)"

definition KSI_HashChain_aggregate ::
    "(int \<Rightarrow> bytes \<Rightarrow> bytes) \<Rightarrow> KSI_HashChainLink list option \<Rightarrow> KSI_DataHash option \<Rightarrow> int \<Rightarrow> int
       \<Rightarrow> (int \<times> KSI_DataHash option) run" where
  "KSI_HashChain_aggregate D chn inHash startLevel a = aggregateChain D chn inHash startLevel a False"

definition KSI_HashChain_aggregateCalendar ::
    "(int \<Rightarrow> bytes \<Rightarrow> bytes) \<Rightarrow> KSI_HashChainLink list option \<Rightarrow> KSI_DataHash option \<Rightarrow> KSI_DataHash option run" where
  "KSI_HashChain_aggregateCalendar D chn inHash =
     run_bind (aggregateChain D chn inHash 0xff (-1) True) (\<lambda>(l, h). Ok h)"

definition KSI_CalendarHashChain_aggregate ::
    "(int \<Rightarrow> bytes \<Rightarrow> bytes) \<Rightarrow> KSI_CalendarHashChain \<Rightarrow> (KSI_DataHash option \<times> KSI_CalendarHashChain) run" where
  "KSI_CalendarHashChain_aggregate D c =
     run_bind (if cal_outputHash c = None then
                 run_bind (KSI_HashChain_aggregateCalendar D (hashChain c) (cal_inputHash c)) (\<lambda>h.
                   Ok (c\<lparr>cal_outputHash := h\<rparr>))
               else Ok c) (\<lambda>c. Ok (cal_outputHash c, c))"

text \<open>\<^verbatim>\<open>KSI_AggregationHashChain_aggregate\<close> keeps its last result.  Before it computes a new one it gives up its
  reference to the old one; on an error after that, the pointer stays.  Giving up or taking a reference
  through such a pointer is a \<open>Fault\<close>.\<close>

definition KSI_AggregationHashChain_aggregate ::
    "(int \<Rightarrow> bytes \<Rightarrow> bytes) \<Rightarrow> KSI_AggregationHashChain \<Rightarrow> int
       \<Rightarrow> (int \<times> KSI_DataHash option) run \<times> KSI_AggregationHashChain" where
  "KSI_AggregationHashChain_aggregate D aggr startLevel =
     (if startLevel < 0 \<or> startLevel > 0xff then (Err KSI_INVALID_ARGUMENT, aggr)
      else if outputHash aggr = None \<or> startLevel \<noteq> inputLevel aggr then
        if outputHash aggr \<noteq> None \<and> released aggr then (Fault, aggr)
        else
          let aggr = aggr\<lparr>released := (outputHash aggr \<noteq> None)\<rparr> in
          if aggrHashId aggr = None \<or> chain aggr = None \<or> inputHash aggr = None then (Err KSI_INVALID_STATE, aggr)
          else
            (case KSI_HashChain_aggregate D (chain aggr) (inputHash aggr) startLevel
                    (to_int (KSI_Integer_getUInt64 (aggrHashId aggr))) of
               Ok (lvl, h) \<Rightarrow>
                 (Ok (lvl, h), aggr\<lparr>outputHash := h, outputLevel := lvl, inputLevel := startLevel, released := False\<rparr>)
             | Err e \<Rightarrow> (Err e, aggr)
             | Fault \<Rightarrow> (Fault, aggr))
      else if released aggr then (Fault, aggr)
      else (Ok (outputLevel aggr, outputHash aggr), aggr))"

text \<open>All the aggregation chains of a signature, each from the level the previous one has reached.\<close>

fun aggregateList ::
    "(int \<Rightarrow> bytes \<Rightarrow> bytes) \<Rightarrow> KSI_AggregationHashChain list \<Rightarrow> int \<Rightarrow> KSI_DataHash option
       \<Rightarrow> KSI_DataHash option run \<times> KSI_AggregationHashChain list" where
  "aggregateList D [] lvl hsh = (Ok hsh, [])"
| "aggregateList D (c # cs) lvl hsh =
     (case KSI_AggregationHashChain_aggregate D c lvl of
        (Ok (lvl', h), c') \<Rightarrow> (let (r, cs') = aggregateList D cs lvl' h in (r, c' # cs'))
      | (Err e, c') \<Rightarrow> (Err e, c' # cs)
      | (Fault, c') \<Rightarrow> (Fault, c' # cs))"

definition KSI_AggregationHashChainList_aggregate ::
    "(int \<Rightarrow> bytes \<Rightarrow> bytes) \<Rightarrow> KSI_AggregationHashChain list option \<Rightarrow> int
       \<Rightarrow> KSI_DataHash option run \<times> KSI_AggregationHashChain list" where
  "KSI_AggregationHashChainList_aggregate D cl lvl =
     (case cl of None \<Rightarrow> (Err KSI_INVALID_ARGUMENT, [])
      | Some cs \<Rightarrow> if \<not> (lvl \<le> 0xff \<and> lvl \<ge> 0) then (Err KSI_INVALID_ARGUMENT, cs) else aggregateList D cs lvl None)"

section \<open>The time of a calendar chain\<close>

definition highBit :: "int \<Rightarrow> int" where
  "highBit n =
     (let n = n OR drop_bit 1 n;
          n = n OR drop_bit 2 n;
          n = n OR drop_bit 4 n;
          n = n OR drop_bit 8 n;
          n = n OR drop_bit 16 n;
          n = n OR drop_bit 32 n
      in n - drop_bit 1 n)"

text \<open>The loop walks the chain from its end; its argument is what is left of the reversed chain.\<close>

fun calendarTimeLoop :: "KSI_HashChainLink list \<Rightarrow> int \<Rightarrow> int \<Rightarrow> int ksi_result" where
  "calendarTimeLoop [] r t = (if r \<noteq> 0 then Inl KSI_INVALID_FORMAT else Inr t)"
| "calendarTimeLoop (hn # links) r t =
     (if r \<le> 0 then Inl KSI_INVALID_FORMAT
      else if isLeft hn then calendarTimeLoop links (highBit r - 1) t
      else calendarTimeLoop links (r - highBit r) (t + highBit r))"

definition calculateCalendarAggregationTime :: "KSI_HashChainLink list option \<Rightarrow> KSI_Integer option \<Rightarrow> int ksi_result" where
  "calculateCalendarAggregationTime chn pub_time =
     the_ptr chn KSI_INVALID_ARGUMENT (\<lambda>chn.
     the_ptr pub_time KSI_INVALID_ARGUMENT (\<lambda>pub_time.
     check (chn = []) KSI_INVALID_FORMAT
       (calendarTimeLoop (rev chn) (sint (KSI_Integer_getUInt64 (Some pub_time))) 0)))"

definition KSI_CalendarHashChain_calculateAggregationTime :: "KSI_CalendarHashChain option \<Rightarrow> int ksi_result" where
  "KSI_CalendarHashChain_calculateAggregationTime c =
     the_ptr c KSI_INVALID_ARGUMENT (\<lambda>c. calculateCalendarAggregationTime (hashChain c) (publicationTime c))"

section \<open>Shape and order of aggregation chains\<close>

definition shape_bits :: "KSI_HashChainLink list \<Rightarrow> u64" where
  "shape_bits links = foldl (\<lambda>tmp p. if isLeft p then push_bit 1 tmp OR 1 else push_bit 1 tmp) 1 (rev links)"

definition KSI_AggregationHashChain_calculateShape :: "KSI_AggregationHashChain option \<Rightarrow> u64 ksi_result" where
  "KSI_AggregationHashChain_calculateShape chn =
     the_ptr chn KSI_INVALID_ARGUMENT (\<lambda>chn.
       let links = (case chain chn of None \<Rightarrow> [] | Some l \<Rightarrow> l) in
       check (length links > push_bit 3 8 + 1) KSI_INVALID_STATE (Inr (shape_bits links)))"

definition intCmp :: "u64 \<Rightarrow> u64 \<Rightarrow> int" where
  "intCmp a b = (if a = b then 0 else if a > b then 1 else -1)"

text \<open>The order \<^verbatim>\<open>KSI_List_sort\<close> is called with; chains without an index are ordered by the addresses \<open>la\<close> and
  \<open>ra\<close> of the arguments.\<close>

definition KSI_AggregationHashChain_compare ::
    "KSI_AggregationHashChain option \<times> u64 \<Rightarrow> KSI_AggregationHashChain option \<times> u64 \<Rightarrow> int" where
  "KSI_AggregationHashChain_compare left right =
     (case (left, right) of ((l, la), (r, ra)) \<Rightarrow>
        (case (l, r) of
           (Some l, Some r) \<Rightarrow>
             (case (chainIndex l, chainIndex r) of
                (Some li, Some ri) \<Rightarrow> intCmp (of_nat (length ri)) (of_nat (length li))
              | _ \<Rightarrow> intCmp ra la)
         | _ \<Rightarrow> intCmp ra la))"

section \<open>Links and TLVs\<close>

definition KSI_CalendarHashChainLink_fromTlv :: "KSI_TLV \<Rightarrow> KSI_HashChainLink ksi_result \<times> KSI_TLV" where
  "KSI_CalendarHashChainLink_fromTlv t =
     (if tlv_tag t \<noteq> 0x07 \<and> tlv_tag t \<noteq> 0x08 then (Inl KSI_INVALID_FORMAT, t)
      else
        let (r, t') = KSI_DataHash_fromTlv t in
        (rbind r (\<lambda>hsh. Inr (KSI_HashChainLink_new\<lparr>isLeft := (tlv_tag t = 0x07), imprint := Some hsh\<rparr>)), t'))"

definition KSI_CalendarHashChainLink_toTlv :: "KSI_HashChainLink option \<Rightarrow> bool \<Rightarrow> bool \<Rightarrow> KSI_TLV ksi_result" where
  "KSI_CalendarHashChainLink_toTlv link nc fwd =
     the_ptr link KSI_INVALID_ARGUMENT (\<lambda>link.
       KSI_DataHash_toTlv (imprint link) (if isLeft link then 0x07 else 0x08) nc fwd)"

text \<open>The padding of a legacy identifier is checked byte by byte.\<close>

definition legacyId_verify :: "bytes option \<Rightarrow> ksi_status" where
  "legacyId_verify raw =
     (case raw of None \<Rightarrow> Some KSI_INVALID_ARGUMENT
      | Some raw \<Rightarrow>
          if length raw \<noteq> 29 then Some KSI_INVALID_FORMAT
          else if \<not> (raw ! 0 = 0x03 \<and> raw ! 1 = 0x00) then Some KSI_INVALID_FORMAT
          else if raw ! 2 > 25 then Some KSI_INVALID_FORMAT
          else if list_ex (\<lambda>b. b \<noteq> 0) (drop (unat (raw ! 2) + 3) raw) then Some KSI_INVALID_FORMAT
          else None)"

definition KSI_HashChainLink_LegacyId_fromTlv :: "KSI_TLV \<Rightarrow> KSI_OctetString ksi_result \<times> KSI_TLV" where
  "KSI_HashChainLink_LegacyId_fromTlv t = with_raw (\<lambda>raw.
     (case legacyId_verify (Some raw) of Some e \<Rightarrow> Inl e
      | None \<Rightarrow> KSI_OctetString_new (Some raw) (length raw))) t"

definition KSI_HashChainLink_LegacyId_toTlv :: "KSI_OctetString option \<Rightarrow> u32 \<Rightarrow> bool \<Rightarrow> bool \<Rightarrow> KSI_TLV ksi_result" where
  "KSI_HashChainLink_LegacyId_toTlv l tg nc fwd = KSI_OctetString_toTlv l tg nc fwd"

section \<open>Identities\<close>

datatype KSI_HashChainLinkIdentityType =
    KSI_IDENTITY_TYPE_UNKNOWN | KSI_IDENTITY_TYPE_LEGACY_ID | KSI_IDENTITY_TYPE_METADATA

record KSI_HashChainLinkIdentity =
  id_type :: KSI_HashChainLinkIdentityType
  clientId :: "KSI_Utf8String option"
  machineId :: "KSI_Utf8String option"
  sequenceNr :: "KSI_Integer option"
  requestTime :: "KSI_Integer option"

text \<open>The getters of a metadata element look into its TLV element and, on the way, turn it into a list of
  sub-elements: the link that is asked for its identity is returned with its metadata in that form.\<close>

definition metaData_identity :: "KSI_TlvElement \<Rightarrow> (KSI_HashChainLinkIdentity \<times> KSI_TlvElement) run" where
  "metaData_identity m =
     run_bind (KSI_TlvElement_getUtf8String m 0x01) (\<lambda>(cid, m).
     run_bind (KSI_TlvElement_getUtf8String m 0x02) (\<lambda>(mid, m).
     run_bind (KSI_TlvElement_getInteger m 0x03) (\<lambda>(sn, m).
     run_bind (KSI_TlvElement_getInteger m 0x04) (\<lambda>(rt, m).
       Ok (\<lparr>id_type = KSI_IDENTITY_TYPE_METADATA, clientId = cid, machineId = mid, sequenceNr = sn, requestTime = rt\<rparr>, m)))))"

definition hashChainLink_getIdentity :: "KSI_HashChainLink \<Rightarrow> (KSI_HashChainLinkIdentity option \<times> KSI_HashChainLink) run" where
  "hashChainLink_getIdentity link =
     (case legacyId link of
        Some l \<Rightarrow>
          (case KSI_OctetString_LegacyId_getUtf8String (Some l) of
             None \<Rightarrow> Fault
           | Some r \<Rightarrow> run_bind (run_of r) (\<lambda>cid.
               Ok (Some \<lparr>id_type = KSI_IDENTITY_TYPE_LEGACY_ID, clientId = Some cid, machineId = None,
                         sequenceNr = None, requestTime = None\<rparr>, link)))
      | None \<Rightarrow>
          (case metaData link of
             None \<Rightarrow> Ok (None, link)
           | Some m \<Rightarrow> run_bind (metaData_identity m) (\<lambda>(i, m). Ok (Some i, link\<lparr>metaData := Some m\<rparr>))))"

text \<open>The identities of a chain, from its last link to its first.\<close>

fun identityLoop :: "KSI_HashChainLink list \<Rightarrow> (KSI_HashChainLinkIdentity list \<times> KSI_HashChainLink list) run" where
  "identityLoop [] = Ok ([], [])"
| "identityLoop (link # links) =
     run_bind (hashChainLink_getIdentity link) (\<lambda>(i, link).
     run_bind (identityLoop links) (\<lambda>(ids, links).
       Ok ((case i of None \<Rightarrow> ids | Some i \<Rightarrow> i # ids), link # links)))"

definition KSI_AggregationHashChain_getIdentity ::
    "KSI_AggregationHashChain option \<Rightarrow> (KSI_HashChainLinkIdentity list \<times> KSI_AggregationHashChain) run" where
  "KSI_AggregationHashChain_getIdentity aggr =
     (case aggr of None \<Rightarrow> Err KSI_INVALID_ARGUMENT
      | Some aggr \<Rightarrow>
          (case chain aggr of None \<Rightarrow> Ok ([], aggr)
           | Some links \<Rightarrow> run_bind (identityLoop (rev links)) (\<lambda>(ids, links).
               Ok (ids, aggr\<lparr>chain := Some (rev links)\<rparr>))))"

section \<open>Compatibility of calendar chains\<close>

definition extractAggregationTime :: "KSI_CalendarHashChain option \<Rightarrow> KSI_Integer ksi_result" where
  "extractAggregationTime hc =
     the_ptr hc KSI_INVALID_ARGUMENT (\<lambda>hc.
       (case cal_aggregationTime hc of
          Some tm \<Rightarrow> Inr tm
        | None \<Rightarrow> the_ptr (publicationTime hc) KSI_INVALID_STATE Inr))"

definition verifyInputHashCompatibility :: "KSI_CalendarHashChain \<Rightarrow> KSI_CalendarHashChain \<Rightarrow> ksi_status" where
  "verifyInputHashCompatibility a b =
     (if \<not> KSI_DataHash_equals (cal_inputHash a) (cal_inputHash b) then Some KSI_INCOMPATIBLE_HASH_CHAIN else None)"

definition verifyAggregationtimeCompatibility :: "KSI_CalendarHashChain \<Rightarrow> KSI_CalendarHashChain \<Rightarrow> ksi_status" where
  "verifyAggregationtimeCompatibility a b =
     (case extractAggregationTime (Some a) of Inl e \<Rightarrow> Some e
      | Inr at \<Rightarrow>
          (case extractAggregationTime (Some b) of Inl e \<Rightarrow> Some e
           | Inr bt \<Rightarrow> if \<not> KSI_Integer_equals (Some at) (Some bt) then Some KSI_INCOMPATIBLE_HASH_CHAIN else None))"

text \<open>\<open>nextRight\<close> is the inner loop: it returns the last link it has looked at (\<open>None\<close> when there was none)
  and what is left of the second chain.\<close>

fun nextRight :: "KSI_HashChainLink list \<Rightarrow> KSI_HashChainLink option \<Rightarrow> KSI_HashChainLink option \<times> KSI_HashChainLink list" where
  "nextRight [] bLink = (bLink, [])"
| "nextRight (b # bs) bLink = (if \<not> isLeft b then (Some b, bs) else nextRight bs (Some b))"

fun rightLinkLoop :: "KSI_HashChainLink list \<Rightarrow> KSI_HashChainLink list \<Rightarrow> ksi_status" where
  "rightLinkLoop [] bs = (if list_ex (\<lambda>b. \<not> isLeft b) bs then Some KSI_INCOMPATIBLE_HASH_CHAIN else None)"
| "rightLinkLoop (a # as) bs =
     (if isLeft a then rightLinkLoop as bs
      else
        (case nextRight bs None of
           (None, bs') \<Rightarrow> Some KSI_INCOMPATIBLE_HASH_CHAIN
         | (Some bLink, bs') \<Rightarrow>
             if \<not> KSI_DataHash_equals (imprint a) (imprint bLink) then Some KSI_INCOMPATIBLE_HASH_CHAIN
             else rightLinkLoop as bs'))"

definition links_of :: "KSI_CalendarHashChain \<Rightarrow> KSI_HashChainLink list" where
  "links_of c = (case hashChain c of None \<Rightarrow> [] | Some l \<Rightarrow> l)"

definition verifyRightLinkCompatibility :: "KSI_CalendarHashChain \<Rightarrow> KSI_CalendarHashChain \<Rightarrow> ksi_status" where
  "verifyRightLinkCompatibility a b = rightLinkLoop (links_of a) (links_of b)"

definition KSI_CalendarHashChain_verifyCompatibilityTo ::
    "KSI_CalendarHashChain option \<Rightarrow> KSI_CalendarHashChain option \<Rightarrow> ksi_status" where
  "KSI_CalendarHashChain_verifyCompatibilityTo a b =
     (case (a, b) of
        (Some a, Some b) \<Rightarrow>
          (case verifyAggregationtimeCompatibility a b of Some e \<Rightarrow> Some e
           | None \<Rightarrow> (case verifyInputHashCompatibility a b of Some e \<Rightarrow> Some e
                      | None \<Rightarrow> verifyRightLinkCompatibility a b))
      | _ \<Rightarrow> Some KSI_INVALID_ARGUMENT)"


section \<open>The highest bit\<close>

text \<open>\<open>smeared w n m\<close>: every bit of \<open>m\<close> tells whether one of \<open>w\<close> successive bits of \<open>n\<close> is set.\<close>

definition smeared :: "nat \<Rightarrow> int \<Rightarrow> int \<Rightarrow> bool" where
  "smeared w n m \<longleftrightarrow> (\<forall>j. bit m j \<longleftrightarrow> (\<exists>d<w. bit n (j + d)))"

lemma smeared_double:
  assumes "smeared w n m" and "w' = 2 * w" and "m' = m OR drop_bit w m"
  shows "smeared w' n m'"
  unfolding smeared_def assms(2,3)
proof (intro allI)
  fix j
  have "bit (m OR drop_bit w m) j \<longleftrightarrow> (\<exists>d<w. bit n (j + d)) \<or> (\<exists>d<w. bit n (w + j + d))"
    using assms(1) by (simp add: smeared_def bit_simps)
  also have "\<dots> \<longleftrightarrow> (\<exists>d<2 * w. bit n (j + d))" (is "?l \<longleftrightarrow> ?r")
  proof
    assume ?l
    then show ?r
    proof
      assume "\<exists>d<w. bit n (w + j + d)"
      then obtain d where "d < w" "bit n (j + (w + d))" by (auto simp: ac_simps)
      then show ?r by (intro exI [of _ "w + d"]) simp
    next
      assume "\<exists>d<w. bit n (j + d)"
      then obtain d where "d < w" "bit n (j + d)" by auto
      then show ?r by (intro exI [of _ d]) simp
    qed
  next
    assume ?r
    then obtain d where d: "d < 2 * w" "bit n (j + d)" by auto
    show ?l
    proof (cases "d < w")
      case False
      then have "bit n (w + j + (d - w))" using d by (simp add: ac_simps)
      with d False show ?l by (intro disjI2 exI [of _ "d - w"]) simp
    qed (use d in auto)
  qed
  finally show "bit (m OR drop_bit w m) j \<longleftrightarrow> (\<exists>d<2 * w. bit n (j + d))" .
qed

lemma bit_power_interval:
  assumes "2 ^ k \<le> n" and "n < (2 :: int) ^ Suc k"
  shows "bit n k" and "k < j \<Longrightarrow> \<not> bit n j"
proof -
  have "n div 2 ^ k = 1" using assms by (intro int_div_pos_eq [of _ _ _ "n - 2 ^ k"]) auto
  then show "bit n k" by (simp add: bit_iff_odd)
  have "0 \<le> n" using assms(1) by (meson order_trans zero_le_power zero_le_numeral)
  then have "take_bit (Suc k) n = n" using assms(2) by (simp add: take_bit_int_eq_self_iff)
  then show "k < j \<Longrightarrow> \<not> bit n j" by (metis bit_take_bit_iff not_less_eq)
qed

lemma smeared_mask:
  assumes "smeared 64 n m" and "2 ^ k \<le> n" and "n < (2 :: int) ^ Suc k" and "k < 64"
  shows "m = mask (Suc k)"
proof (rule bit_eqI)
  fix j
  have "bit m j \<longleftrightarrow> j \<le> k"
  proof
    assume "bit m j"
    then obtain d where "bit n (j + d)" using assms(1) by (auto simp: smeared_def)
    then have "\<not> k < j + d" using bit_power_interval(2) [OF assms(2,3)] by blast
    then show "j \<le> k" by simp
  next
    assume j: "j \<le> k"
    then have "bit n (j + (k - j))" using bit_power_interval(1) [OF assms(2,3)] by simp
    moreover have "k - j < 64" using assms(4) by simp
    ultimately show "bit m j" using assms(1) unfolding smeared_def by blast
  qed
  then show "bit m j \<longleftrightarrow> bit (mask (Suc k) :: int) j" by (simp add: bit_mask_iff less_Suc_eq_le)
qed

definition smear :: "nat \<Rightarrow> int \<Rightarrow> int" where
  "smear w n = n OR drop_bit w n"

lemma highBit_smear:
  "highBit n = (let m = smear 32 (smear 16 (smear 8 (smear 4 (smear 2 (smear 1 n))))) in m - drop_bit 1 m)"
  by (simp only: highBit_def smear_def [symmetric] Let_def)

lemma smeared_smear: "smeared w n m \<Longrightarrow> smeared (2 * w) n (smear w m)"
  by (rule smeared_double) (simp_all only: smear_def)

lemma smeared_highBit: "\<exists>m. smeared 64 n m \<and> highBit n = m - drop_bit 1 m"
proof -
  have "smeared 1 n n" by (simp add: smeared_def)
  then have "smeared (2 * 1) n (smear 1 n)" by (rule smeared_smear)
  then have "smeared 2 n (smear 1 n)" by (simp only: mult_1_right)
  from smeared_smear [OF smeared_smear [OF smeared_smear [OF smeared_smear [OF smeared_smear [OF this]]]]]
  have "smeared 64 n (smear 32 (smear 16 (smear 8 (smear 4 (smear 2 (smear 1 n))))))" by simp
  then show ?thesis by (auto simp only: highBit_smear Let_def)
qed

lemma highBit_power:
  assumes "2 ^ k \<le> n" and "n < (2 :: int) ^ Suc k" and "k < 64"
  shows "highBit n = 2 ^ k"
proof -
  obtain m where m: "smeared 64 n m" "highBit n = m - drop_bit 1 m" using smeared_highBit by blast
  have "drop_bit 1 (mask (Suc k) :: int) = mask k" by (rule bit_eqI) (simp add: bit_drop_bit_eq bit_mask_iff)
  with m(2) smeared_mask [OF m(1) assms] have "highBit n = mask (Suc k) - mask k" by simp
  then show ?thesis by (simp add: mask_eq_exp_minus_1)
qed

lemma highBit_bounds:
  assumes "0 < r" and "r < 2 ^ 64"
  shows "0 < highBit r" and "highBit r \<le> r" and "r < 2 * highBit r"
proof -
  have "1 \<le> nat r" using assms(1) by simp
  from ex_power_ivl1 [OF _ this, of 2] obtain k where k: "2 ^ k \<le> nat r" "nat r < 2 ^ (k + 1)" by auto
  then have k': "2 ^ k \<le> r" "r < 2 ^ Suc k" using assms(1) by (simp_all add: le_nat_iff nat_less_iff)
  have "(2 :: int) ^ k < 2 ^ 64" using k'(1) assms(2) by (rule le_less_trans)
  then have "k < 64" by (rule power_less_imp_less_exp [rotated]) simp
  from highBit_power [OF k' this] k' show "0 < highBit r" "highBit r \<le> r" "r < 2 * highBit r" by simp_all
qed

section \<open>Calendar chains and times correspond\<close>

lemma calendarTimeLoop_range:
  "calendarTimeLoop ds r t0 = Inr t \<Longrightarrow> 0 \<le> r \<Longrightarrow> r < 2 ^ 64 \<Longrightarrow> t0 \<le> t \<and> t \<le> t0 + r"
proof (induction ds r t0 rule: calendarTimeLoop.induct)
  case (2 hn links r t0)
  then have r: "0 < r" by (simp split: if_splits)
  note hb = highBit_bounds [OF r "2.prems"(3)]
  show ?case
  proof (cases "isLeft hn")
    case True
    then have "t0 \<le> t \<and> t \<le> t0 + (highBit r - 1)" using 2 r hb by (intro "2.IH"(1)) auto
    then show ?thesis using hb by auto
  next
    case False
    then have "t0 + highBit r \<le> t \<and> t \<le> t0 + highBit r + (r - highBit r)" using 2 r hb by (intro "2.IH"(2)) auto
    then show ?thesis using hb by auto
  qed
qed (auto split: if_splits)

lemma calendarTimeLoop_unique:
  "calendarTimeLoop ds r t0 = Inr t \<Longrightarrow> calendarTimeLoop ds' r t0 = Inr t \<Longrightarrow> 0 \<le> r \<Longrightarrow> r < 2 ^ 64 \<Longrightarrow>
   map isLeft ds = map isLeft ds'"
proof (induction ds arbitrary: ds' r t0)
  case Nil
  then show ?case by (cases ds') (auto split: if_splits)
next
  case (Cons d ds)
  then have r: "0 < r" by (simp split: if_splits)
  note hb = highBit_bounds [OF r Cons.prems(4)]
  obtain e es where e: "ds' = e # es" using Cons.prems(2) r by (cases ds') auto
  let ?l = "\<lambda>xs. calendarTimeLoop xs (highBit r - 1) t0" and ?r = "\<lambda>xs. calendarTimeLoop xs (r - highBit r) (t0 + highBit r)"
  have l: "t < t0 + highBit r" if "?l xs = Inr t" for xs using calendarTimeLoop_range [OF that] hb Cons.prems(4) by auto
  have rr: "t0 + highBit r \<le> t" if "?r xs = Inr t" for xs using calendarTimeLoop_range [OF that] hb Cons.prems(4) by auto
  have d: "(if isLeft d then ?l ds else ?r ds) = Inr t" "(if isLeft e then ?l es else ?r es) = Inr t"
    using Cons.prems(1,2) r e by auto
  show ?case
  proof (cases "isLeft d")
    case True
    then have "?l ds = Inr t" using d by simp
    moreover from this have "isLeft e" using l [of ds] rr [of es] d(2) by (auto split: if_splits)
    moreover from this have "?l es = Inr t" using d by simp
    ultimately show ?thesis using Cons.IH [of "highBit r - 1" t0 es] hb Cons.prems(4) e True by simp
  next
    case False
    then have "?r ds = Inr t" using d by simp
    moreover from this have "\<not> isLeft e" using rr [of ds] l [of es] d(2) by (auto split: if_splits)
    moreover from this have "?r es = Inr t" using d by simp
    ultimately show ?thesis using Cons.IH [of "r - highBit r" "t0 + highBit r" es] hb Cons.prems(4) e False by simp
  qed
qed

lemma calendarTimeLoop_complete:
  "0 \<le> r \<Longrightarrow> r < 2 ^ 64 \<Longrightarrow> t0 \<le> t \<Longrightarrow> t \<le> t0 + r \<Longrightarrow> \<exists>ds. calendarTimeLoop ds r t0 = Inr t"
proof (induction "nat r" arbitrary: r t0 rule: less_induct)
  case less
  show ?case
  proof (cases "r = 0")
    case True
    then show ?thesis using less.prems by (intro exI [of _ "[]"]) simp
  next
    case False
    then have r: "0 < r" using less.prems by simp
    note hb = highBit_bounds [OF r less.prems(2)]
    show ?thesis
    proof (cases "t < t0 + highBit r")
      case True
      then obtain ds where "calendarTimeLoop ds (highBit r - 1) t0 = Inr t"
        using less.hyps [of "highBit r - 1" t0] hb less.prems by auto
      then show ?thesis using r by (intro exI [of _ "KSI_HashChainLink_new\<lparr>isLeft := True\<rparr> # ds"]) simp
    next
      case False
      then obtain ds where "calendarTimeLoop ds (r - highBit r) (t0 + highBit r) = Inr t"
        using less.hyps [of "r - highBit r" "t0 + highBit r"] hb less.prems by auto
      then show ?thesis using r by (intro exI [of _ "KSI_HashChainLink_new # ds"]) (simp add: KSI_HashChainLink_new_def)
    qed
  qed
qed

lemma calendarTime_iff:
  assumes "0 < sint p"
  shows "calculateCalendarAggregationTime (Some c) (Some p) = Inr t \<longleftrightarrow> calendarTimeLoop (rev c) (sint p) 0 = Inr t"
  using assms by (auto simp: calculateCalendarAggregationTime_def KSI_Integer_getUInt64_def)

lemma sint_less: "sint (p :: u64) < 2 ^ 64"
  using sint_lt [of p] by simp

lemma calendar_time_parts:
  assumes "0 < sint p"
  shows "(\<exists>c. calculateCalendarAggregationTime (Some c) (Some p) = Inr t) \<longleftrightarrow> 0 \<le> t \<and> t \<le> sint p"
    and "calculateCalendarAggregationTime (Some c) (Some p) = Inr t \<Longrightarrow>
         calculateCalendarAggregationTime (Some c') (Some p) = Inr t \<Longrightarrow> map isLeft c = map isLeft c'"
proof -
  have r: "0 \<le> sint p" "sint p < 2 ^ 64" using assms sint_less [of p] by auto
  show "(\<exists>c. calculateCalendarAggregationTime (Some c) (Some p) = Inr t) \<longleftrightarrow> 0 \<le> t \<and> t \<le> sint p"
  proof
    assume "\<exists>c. calculateCalendarAggregationTime (Some c) (Some p) = Inr t"
    then obtain c where "calendarTimeLoop (rev c) (sint p) 0 = Inr t" using calendarTime_iff [OF assms] by auto
    from calendarTimeLoop_range [OF this r] show "0 \<le> t \<and> t \<le> sint p" by simp
  next
    assume "0 \<le> t \<and> t \<le> sint p"
    then obtain ds where "calendarTimeLoop ds (sint p) 0 = Inr t" using calendarTimeLoop_complete [OF r, of 0 t] by auto
    then have "calculateCalendarAggregationTime (Some (rev ds)) (Some p) = Inr t" using calendarTime_iff [OF assms] by simp
    then show "\<exists>c. calculateCalendarAggregationTime (Some c) (Some p) = Inr t" by blast
  qed
  assume "calculateCalendarAggregationTime (Some c) (Some p) = Inr t" "calculateCalendarAggregationTime (Some c') (Some p) = Inr t"
  then have "map isLeft (rev c) = map isLeft (rev c')"
    using calendarTimeLoop_unique [OF _ _ r] calendarTime_iff [OF assms] by metis
  then show "map isLeft c = map isLeft c'" by (simp flip: rev_map)
qed

text \<open>C14. A calendar hash chain and the time it proves determine each other.  For a publication time \<open>p\<close> (positive
  as a signed 64-bit number) the times that chains can yield are exactly \<open>0\<close> to \<open>p\<close>, and the directions of
  the links are determined by the time: there is one leaf per second and one path to each leaf.\<close>

theorem calendar_time_bijection:
  assumes "0 < sint p"
  shows "((\<exists>c. calculateCalendarAggregationTime (Some c) (Some p) = Inr t) \<longleftrightarrow> 0 \<le> t \<and> t \<le> sint p)
    \<and> (\<forall>c c'. calculateCalendarAggregationTime (Some c) (Some p) = Inr t
         \<and> calculateCalendarAggregationTime (Some c') (Some p) = Inr t \<longrightarrow> map isLeft c = map isLeft c')"
  using calendar_time_parts [OF assms] by blast

theorem calendar_time_bijection_witness:
  "\<exists>c. calculateCalendarAggregationTime (Some c) (Some 1398866256) = Inr 1398866255"
  using calendar_time_bijection [of 1398866256 1398866255] by simp


section \<open>What aggregation computes\<close>

text \<open>The sibling value of a link and the message hashed for it: the hash so far on the side the link names,
  the sibling on the other, and the level.\<close>

definition sibling :: "KSI_HashChainLink \<Rightarrow> bytes option" where
  "sibling k = (case linkImprint k of Ok v \<Rightarrow> v | _ \<Rightarrow> None)"

definition correction :: "KSI_HashChainLink \<Rightarrow> int" where
  "correction k = int (unat (KSI_Integer_getUInt64 (levelCorrection k)))"

definition node_msg :: "KSI_HashChainLink \<Rightarrow> bytes \<Rightarrow> byte \<Rightarrow> bytes" where
  "node_msg k h l = (if isLeft k then h @ the (sibling k) else the (sibling k) @ h) @ [l]"

definition imprint_of :: "(int \<Rightarrow> bytes \<Rightarrow> bytes) \<Rightarrow> int \<Rightarrow> bytes \<Rightarrow> KSI_DataHash" where
  "imprint_of D a m = of_int a # D a m"

fun chain_root :: "(int \<Rightarrow> bytes \<Rightarrow> bytes) \<Rightarrow> int \<Rightarrow> KSI_HashChainLink list \<Rightarrow> int \<Rightarrow> KSI_DataHash \<Rightarrow> int \<times> KSI_DataHash" where
  "chain_root D a [] lvl h = (lvl, h)"
| "chain_root D a (k # ks) lvl h =
     (let lvl = lvl + correction k + 1 in chain_root D a ks lvl (imprint_of D a (node_msg k h (of_int lvl))))"

definition hasher_inv :: "aggr_state \<Rightarrow> bool" where
  "hasher_inv st \<longleftrightarrow> (case ag_hsr st of None \<Rightarrow> True | Some hsr \<Rightarrow> algorithm hsr = ag_algo st)"

definition current :: "KSI_DataHash \<Rightarrow> aggr_state \<Rightarrow> KSI_DataHash" where
  "current inHash st = (case ag_hsh st of None \<Rightarrow> inHash | Some h \<Rightarrow> h)"

lemma int_wrap_id: "- (2 ^ 31) \<le> n \<Longrightarrow> n < 2 ^ 31 \<Longrightarrow> int_wrap n = n"
  by (simp add: int_wrap_def signed_of_int signed_take_bit_int_eq_self)

lemma to_int_small: "unat v < 2 ^ 31 \<Longrightarrow> to_int v = int (unat v)"
proof -
  assume a: "unat v < 2 ^ 31"
  have "sint (ucast v :: 32 word) = signed_take_bit 31 (uint v)" by (subst signed_ucast_eq) simp
  moreover have u: "int (unat v) = uint v" by simp
  have "int (unat v) < int (2 ^ 31)" using a by (simp only: of_nat_less_iff)
  then have "uint v < 2 ^ 31" by (simp only: u of_nat_power of_nat_numeral)
  then have "signed_take_bit 31 (uint v) = uint v"
    by (intro signed_take_bit_int_eq_self) (simp_all add: order_trans [OF _ unsigned_greater_eq])
  ultimately show ?thesis by (simp only: to_int_def u)
qed

lemma hasher_ready:
  assumes "hasher_inv st" and "KSI_isHashAlgorithmSupported (ag_algo st)"
  shows "(case ag_hsr st of None \<Rightarrow> KSI_DataHasher_open (ag_algo st) | Some hsr \<Rightarrow> KSI_DataHasher_reset (Some hsr))
     = Inr \<lparr>algorithm = ag_algo st, isOpen = True, fed = []\<rparr>"
proof (cases "ag_hsr st")
  case None
  then show ?thesis using assms by (simp add: KSI_DataHasher_open_def KSI_DataHasher_reset_def)
next
  case (Some hsr)
  then show ?thesis using assms by (cases hsr) (simp add: KSI_DataHasher_reset_def hasher_inv_def)
qed

lemma add_current:
  "isOpen hsr \<Longrightarrow> dataHasher_addNvlImprint hsr (ag_hsh st) (Some inHash) = Inr (hsr\<lparr>fed := fed hsr @ current inHash st\<rparr>)"
  by (cases "ag_hsh st") (simp_all add: dataHasher_addNvlImprint_def KSI_DataHasher_addImprint_def
      KSI_DataHash_getImprint_def KSI_DataHasher_add_def current_def)

lemma add_link:
  "isOpen hsr \<Longrightarrow> dataHasher_addLinkImprint hsr k =
     (case linkImprint k of Fault \<Rightarrow> Fault | Err e \<Rightarrow> Err e | Ok None \<Rightarrow> Err KSI_INVALID_ARGUMENT
      | Ok (Some v) \<Rightarrow> Ok (hsr\<lparr>fed := fed hsr @ v\<rparr>))"
  by (auto simp: dataHasher_addLinkImprint_def KSI_DataHasher_add_def split: run.splits option.splits)

text \<open>One step of the loop, once the level and the algorithm are known.\<close>

definition step_result :: "(int \<Rightarrow> bytes \<Rightarrow> bytes) \<Rightarrow> KSI_DataHash \<Rightarrow> KSI_HashChainLink \<Rightarrow> aggr_state \<Rightarrow> aggr_state run" where
  "step_result D inHash k st =
     (case linkImprint k of Fault \<Rightarrow> Fault | Err e \<Rightarrow> Err e | Ok None \<Rightarrow> Err KSI_INVALID_ARGUMENT
      | Ok (Some v) \<Rightarrow>
          if level st > 0xff then Err KSI_INVALID_FORMAT
          else let m = node_msg k (current inHash st) (of_int (level st)) in
            Ok (st\<lparr>ag_hsr := Some \<lparr>algorithm = ag_algo st, isOpen = False, fed = m\<rparr>,
                   ag_hsh := Some (imprint_of D (ag_algo st) m)\<rparr>))"

lemma aggregate_step_result:
  assumes "digest_ok D" and "aggregate_prepare cal k st0 = Inr st" and "hasher_inv st"
    and "KSI_isHashAlgorithmSupported (ag_algo st)"
  shows "aggregate_step D inHash cal k st0 = step_result D inHash k st"
proof (cases "linkImprint k")
  case (Ok v)
  note simps = aggregate_step_def assms(2) hasher_ready [OF assms(3,4)] add_current add_link step_result_def Ok
  show ?thesis
  proof (cases v)
    case (Some b)
    then have "sibling k = Some b" by (simp add: sibling_def Ok)
    then show ?thesis
      using Some assms(1,4)
      by (auto simp: simps KSI_DataHasher_add_def KSI_DataHasher_close_def closeExisting_ok node_msg_def imprint_of_def Let_def)
  qed (auto simp: simps)
qed (auto simp: aggregate_step_def assms(2) hasher_ready [OF assms(3,4)] add_current add_link step_result_def)

lemma sibling_Some: "sibling k = Some v \<longleftrightarrow> linkImprint k = Ok (Some v)"
  by (auto simp: sibling_def split: run.splits)

definition link_wf :: "KSI_HashChainLink \<Rightarrow> bool" where
  "link_wf k \<longleftrightarrow> sibling k \<noteq> None \<and> correction k \<le> 0xff"

lemma correction_nonneg [simp]: "0 \<le> correction k"
  by (simp add: correction_def)

lemma chain_root_level: "lvl \<le> fst (chain_root D a ks lvl h)"
proof (induction ks arbitrary: lvl h)
  case (Cons k ks)
  have "lvl \<le> lvl + correction k + 1" by simp
  also have "\<dots> \<le> fst (chain_root D a (k # ks) lvl h)" using Cons by (simp add: Let_def)
  finally show ?case .
qed simp

lemma prepare_level:
  assumes "0 \<le> level st" "level st \<le> 0xff" "correction k \<le> 0xff"
  shows "aggregate_prepare False k st = Inr (st\<lparr>level := level st + correction k + 1\<rparr>)"
proof -
  let ?v = "KSI_Integer_getUInt64 (levelCorrection k)"
  have c: "int (unat ?v) \<le> 0xff" using assms(3) by (simp only: correction_def)
  then have "unat ?v \<le> 255" by linarith
  then have "unat ?v < 2 ^ 31" by simp
  then have "to_int ?v = correction k" by (simp only: to_int_small correction_def)
  moreover have "int_wrap (correction k + 1) = correction k + 1"
    using assms(3) correction_nonneg [of k] by (intro int_wrap_id) simp_all
  moreover have "int_wrap (level st + (correction k + 1)) = level st + (correction k + 1)"
    using assms correction_nonneg [of k] by (intro int_wrap_id) simp_all
  ultimately show ?thesis by (simp add: aggregate_prepare_def add.assoc)
qed

lemma aggregateLoop_chain_root:
  assumes "digest_ok D" and "KSI_isHashAlgorithmSupported (ag_algo st)" and "hasher_inv st"
    and "0 \<le> level st" and "level st \<le> 0xff" and "list_all link_wf ks"
  shows "if fst (chain_root D (ag_algo st) ks (level st) (current inHash st)) \<le> 0xff
    then \<exists>st'. aggregateLoop D inHash False ks st = Ok st'
         \<and> (level st', current inHash st') = chain_root D (ag_algo st) ks (level st) (current inHash st)
         \<and> (ag_hsh st' = None \<longleftrightarrow> ks = [] \<and> ag_hsh st = None)
    else aggregateLoop D inHash False ks st = Err KSI_INVALID_FORMAT"
  using assms
proof (induction ks arbitrary: st)
  case Nil
  then show ?case by simp
next
  case (Cons k ks)
  let ?a = "ag_algo st" and ?l = "level st + correction k + 1"
  let ?m = "node_msg k (current inHash st) (of_int ?l)"
  define st1 where "st1 = st\<lparr>level := ?l, ag_hsr := Some \<lparr>algorithm = ?a, isOpen = False, fed = ?m\<rparr>, ag_hsh := Some (imprint_of D ?a ?m)\<rparr>"
  have st1: "level st1 = ?l" "ag_algo st1 = ?a" "current inHash st1 = imprint_of D ?a ?m" "hasher_inv st1" "ag_hsh st1 \<noteq> None"
    by (simp_all add: st1_def current_def hasher_inv_def)
  have wf: "correction k \<le> 0xff" "list_all link_wf ks" using Cons.prems(6) by (simp_all add: link_wf_def [of k])
  obtain v where v: "linkImprint k = Ok (Some v)" using Cons.prems(6) by (auto simp: link_wf_def sibling_Some)
  have inv: "hasher_inv (st\<lparr>level := ?l\<rparr>)" using Cons.prems(3) by (cases "ag_hsr st") (simp_all add: hasher_inv_def)
  have cur: "current inHash (st\<lparr>level := ?l\<rparr>) = current inHash st" by (simp add: current_def)
  have step: "aggregate_step D inHash False k st = (if ?l > 0xff then Err KSI_INVALID_FORMAT else Ok st1)"
    unfolding st1_def using aggregate_step_result [OF Cons.prems(1) prepare_level [OF Cons.prems(4,5) wf(1)] inv, of inHash] Cons.prems(2) v
    by (simp add: step_result_def cur Let_def)
  have root: "chain_root D ?a (k # ks) (level st) (current inHash st) = chain_root D ?a ks ?l (imprint_of D ?a ?m)"
    by (simp add: Let_def)
  show ?case
  proof (cases "?l > 0xff")
    case True
    have "\<not> fst (chain_root D ?a (k # ks) (level st) (current inHash st)) \<le> 0xff"
      unfolding root using True chain_root_level [of ?l D ?a ks "imprint_of D ?a ?m"] by linarith
    then show ?thesis using True step by simp
  next
    case False
    have "0 \<le> level st1" "level st1 \<le> 0xff" using Cons.prems(4) correction_nonneg [of k] False st1(1) by simp_all
    note IH = Cons.IH [OF Cons.prems(1) _ st1(4) this wf(2), unfolded st1(1-3), OF Cons.prems(2)]
    show ?thesis unfolding root using IH step False st1(5) by (cases "fst (chain_root D ?a ks ?l (imprint_of D ?a ?m)) \<le> 0xff") auto
  qed
qed

lemma aggregate_chain_root:
  assumes "digest_ok D" and "KSI_isHashAlgorithmSupported a" and "0 \<le> lvl" and "lvl \<le> 0xff" and "list_all link_wf ks"
  shows "KSI_HashChain_aggregate D (Some ks) (Some h) lvl a =
     (let (end, root) = chain_root D a ks lvl h in
      if end \<le> 0xff then Ok (end, if ks = [] then None else Some root) else Err KSI_INVALID_FORMAT)"
proof -
  let ?st = "\<lparr>level = lvl, ag_hsr = None, ag_hsh = None, ag_algo = a\<rparr>"
  have c: "current h ?st = h" by (simp add: current_def)
  obtain e r where er: "chain_root D a ks lvl h = (e, r)" by (cases "chain_root D a ks lvl h")
  note loop = aggregateLoop_chain_root [of D ?st ks h]
  show ?thesis
  proof (cases "e \<le> 0xff")
    case True
    with loop assms er c obtain st' where st': "aggregateLoop D h False ks ?st = Ok st'" "level st' = e"
      "current h st' = r" "ag_hsh st' = None \<longleftrightarrow> ks = []" by (auto simp: hasher_inv_def)
    with True er show ?thesis
      by (cases "ag_hsh st'") (auto simp: KSI_HashChain_aggregate_def aggregateChain_def current_def)
  next
    case False
    with loop assms er c have "aggregateLoop D h False ks ?st = Err KSI_INVALID_FORMAT" by (simp add: hasher_inv_def)
    with False er show ?thesis by (simp add: KSI_HashChain_aggregate_def aggregateChain_def)
  qed
qed




section \<open>Aggregation binds the input\<close>

fun path_root :: "(int \<Rightarrow> bytes \<Rightarrow> bytes) \<Rightarrow> int \<Rightarrow> (KSI_HashChainLink \<times> byte) list \<Rightarrow> KSI_DataHash \<Rightarrow> KSI_DataHash" where
  "path_root D a [] h = h"
| "path_root D a ((k, b) # ks) h = path_root D a ks (imprint_of D a (node_msg k h b))"

lemma hasher_inv_level [simp]: "hasher_inv (st\<lparr>level := l\<rparr>) = hasher_inv st"
  by (cases "ag_hsr st") (simp_all add: hasher_inv_def)

lemma current_level [simp]: "current i (st\<lparr>level := l\<rparr>) = current i st"
  by (simp add: current_def)

lemma step_unsupported:
  assumes "hasher_inv st" and "\<not> KSI_isHashAlgorithmSupported (ag_algo st)"
  shows "\<exists>e. aggregate_step D inHash False k st = Err e"
proof -
  obtain l where l: "aggregate_prepare False k st = Inr (st\<lparr>level := l\<rparr>)" by (simp add: aggregate_prepare_def)
  show ?thesis
  proof (cases "ag_hsr st")
    case None
    then show ?thesis using assms l by (simp add: aggregate_step_def KSI_DataHasher_open_def)
  next
    case (Some hsr)
    then show ?thesis using assms l by (simp add: aggregate_step_def KSI_DataHasher_reset_def hasher_inv_def)
  qed
qed

lemma step_OkE:
  assumes "digest_ok D" and "hasher_inv st" and "aggregate_step D inHash False k st = Ok st'"
  obtains v b where "sibling k = Some v" "hasher_inv st'" "ag_algo st' = ag_algo st" "ag_hsh st' \<noteq> None"
    "current inHash st' = imprint_of D (ag_algo st) (node_msg k (current inHash st) b)"
proof -
  obtain l where l: "aggregate_prepare False k st = Inr (st\<lparr>level := l\<rparr>)" by (simp add: aggregate_prepare_def)
  have sup: "KSI_isHashAlgorithmSupported (ag_algo st)" using step_unsupported [OF assms(2), of D inHash k] assms(3) by auto
  have "step_result D inHash k (st\<lparr>level := l\<rparr>) = Ok st'"
    using aggregate_step_result [OF assms(1) l, of inHash] assms(2,3) sup by simp
  then show ?thesis
    using that by (auto simp: step_result_def Let_def sibling_Some hasher_inv_def current_def split: run.splits option.splits if_splits)
qed

lemma loop_Ok_path:
  assumes "digest_ok D" and "hasher_inv st" and "aggregateLoop D inHash False ks st = Ok st'"
  shows "\<exists>bs. length bs = length ks \<and> current inHash st' = path_root D (ag_algo st) (zip ks bs) (current inHash st)
     \<and> list_all (\<lambda>k. sibling k \<noteq> None) ks"
  using assms
proof (induction ks arbitrary: st)
  case (Cons k ks)
  then obtain st1 where s: "aggregate_step D inHash False k st = Ok st1" "aggregateLoop D inHash False ks st1 = Ok st'"
    by (auto simp: run_bind_eq_Ok)
  obtain v b where v: "sibling k = Some v" "hasher_inv st1" "ag_algo st1 = ag_algo st"
    "current inHash st1 = imprint_of D (ag_algo st) (node_msg k (current inHash st) b)"
    using step_OkE [OF Cons.prems(1,2) s(1)] by metis
  from Cons.IH [OF Cons.prems(1) v(2) s(2)] obtain bs where
    "length bs = length ks" "current inHash st' = path_root D (ag_algo st1) (zip ks bs) (current inHash st1)"
    "list_all (\<lambda>k. sibling k \<noteq> None) ks" by auto
  with v show ?case by (intro exI [of _ "b # bs"]) simp
qed simp

lemma node_msg_inj:
  assumes "node_msg k h b = node_msg k' h' b'" "isLeft k = isLeft k'" "length h = length h'"
    "sibling k \<noteq> None" "sibling k' \<noteq> None"
  shows "h = h' \<and> sibling k = sibling k'"
  using assms by (cases "isLeft k'") (auto simp: node_msg_def append_eq_append_conv)

lemma path_binding:
  assumes "\<And>m m'. length (D a m) = length (D a m')"
  shows "path_root D a (zip ks bs) h = path_root D a (zip ks' bs') h' \<Longrightarrow> map isLeft ks = map isLeft ks' \<Longrightarrow>
    length bs = length ks \<Longrightarrow> length bs' = length ks' \<Longrightarrow> length h = length h' \<Longrightarrow>
    list_all (\<lambda>k. sibling k \<noteq> None) ks \<Longrightarrow> list_all (\<lambda>k. sibling k \<noteq> None) ks' \<Longrightarrow>
    (h = h' \<and> map sibling ks = map sibling ks') \<or> (\<exists>m m'. m \<noteq> m' \<and> D a m = D a m')"
proof (induction ks arbitrary: ks' bs bs' h h')
  case (Cons k ks)
  then obtain k' ks1 b bs1 b' bs2 where c: "ks' = k' # ks1" "bs = b # bs1" "bs' = b' # bs2"
    by (cases ks'; cases bs; cases bs') auto
  let ?h = "imprint_of D a (node_msg k h b)" and ?h' = "imprint_of D a (node_msg k' h' b')"
  have "length ?h = length ?h'" by (simp add: imprint_of_def assms)
  then have "(?h = ?h' \<and> map sibling ks = map sibling ks1) \<or> (\<exists>m m'. m \<noteq> m' \<and> D a m = D a m')"
    using Cons.prems c by (intro Cons.IH [of bs1 ?h ks1 bs2 ?h']) simp_all
  then show ?case
  proof
    assume e: "?h = ?h' \<and> map sibling ks = map sibling ks1"
    then have "D a (node_msg k h b) = D a (node_msg k' h' b')" by (simp add: imprint_of_def)
    then show ?thesis using node_msg_inj [of k h b k' h' b'] Cons.prems c e by auto
  qed blast
qed simp

lemma aggregate_Ok_path:
  assumes "digest_ok D" and "KSI_HashChain_aggregate D (Some ks) (Some h) l a = Ok (e, Some r)"
  shows "\<exists>bs. length bs = length ks \<and> r = path_root D a (zip ks bs) h \<and> list_all (\<lambda>k. sibling k \<noteq> None) ks
     \<and> (\<forall>m m'. length (D a m) = length (D a m'))"
proof -
  let ?st = "\<lparr>level = l, ag_hsr = None, ag_hsh = None, ag_algo = a\<rparr>"
  obtain st' where st': "aggregateLoop D h False ks ?st = Ok st'" "ag_hsh st' = Some r"
    using assms(2) by (auto simp: KSI_HashChain_aggregate_def aggregateChain_def run_bind_eq_Ok)
  have i: "hasher_inv ?st" "current h ?st = h" "current h st' = r" using st'(2) by (simp_all add: hasher_inv_def current_def)
  have "KSI_isHashAlgorithmSupported a"
  proof (cases ks)
    case Nil
    then show ?thesis using st' by auto
  next
    case (Cons k ks')
    then obtain st1 where "aggregate_step D h False k ?st = Ok st1" using st'(1) by (auto simp: run_bind_eq_Ok)
    then show ?thesis using step_unsupported [OF i(1), of D h k] by auto
  qed
  then have "length (D a m) = length (D a m')" for m m' using assms(1) by (simp add: digest_ok_def)
  with loop_Ok_path [OF assms(1) i(1) st'(1)] i(2,3) show ?thesis by auto
qed




section \<open>Level corrections outside their range\<close>

definition add_2_32 :: "KSI_HashChainLink \<Rightarrow> KSI_HashChainLink" where
  "add_2_32 k = k\<lparr>levelCorrection := Some (KSI_Integer_getUInt64 (levelCorrection k) + 2 ^ 32)\<rparr>"

lemma to_int_add: "to_int (v + 2 ^ 32) = to_int v"
proof -
  have u: "unat (ucast x :: 32 word) = unat x mod 2 ^ 32" for x :: u64
    by (simp only: unsigned_ucast_eq) (simp add: take_bit_eq_mod)
  have "unat (v + 2 ^ 32) mod 2 ^ 32 = (unat v + 2 ^ 32) mod 2 ^ 64 mod 2 ^ 32"
    by (simp add: unat_word_ariths)
  also have "\<dots> = (unat v + 2 ^ 32) mod 2 ^ 32" by (rule mod_mod_cancel) simp
  also have "\<dots> = unat v mod 2 ^ 32" by (rule mod_add_self2)
  finally have "unat (ucast (v + 2 ^ 32) :: 32 word) = unat (ucast v :: 32 word)" by (simp only: u)
  then have "(ucast (v + 2 ^ 32) :: 32 word) = ucast v" by (simp only: word_eq_iff_unsigned [where ?'a = nat])
  then show ?thesis by (simp only: to_int_def)
qed

lemma step_add_2_32: "aggregate_step D i False (add_2_32 k) st = aggregate_step D i False k st"
proof -
  have p: "aggregate_prepare False (add_2_32 k) st = aggregate_prepare False k st"
    by (simp add: aggregate_prepare_def add_2_32_def KSI_Integer_getUInt64_def [of "Some _"] to_int_add del: power_numeral)
  have l: "dataHasher_addLinkImprint hsr (add_2_32 k) = dataHasher_addLinkImprint hsr k" for hsr
    by (simp add: dataHasher_addLinkImprint_def linkImprint_def add_2_32_def)
  have "isLeft (add_2_32 k) = isLeft k" by (simp add: add_2_32_def)
  then show ?thesis by (simp only: aggregate_step_def p l)
qed

lemma aggregateLoop_add_2_32: "aggregateLoop D i False (map add_2_32 ks) st = aggregateLoop D i False ks st"
proof (induction ks arbitrary: st)
  case (Cons k ks)
  then have "aggregateLoop D i False (map add_2_32 ks) = aggregateLoop D i False ks" by (intro ext)
  then show ?case by (simp add: step_add_2_32)
qed simp

lemma flat_link_prepare:
  assumes "KSI_Integer_getUInt64 (levelCorrection k) = 0xffffffff" and "0 \<le> level st" and "level st \<le> 0xff"
  shows "aggregate_prepare False k st = Inr st"
proof -
  have "to_int 0xffffffff = -1" by (simp add: to_int_def)
  moreover have "int_wrap (level st) = level st" using assms(2,3) by (intro int_wrap_id) simp_all
  moreover have "int_wrap 0 = 0" by (simp add: int_wrap_def)
  ultimately show ?thesis using assms(1) by (simp add: aggregate_prepare_def)
qed

lemma flat_chain_loop:
  assumes "digest_ok D" and "KSI_Integer_getUInt64 (levelCorrection k) = 0xffffffff" and "sibling k \<noteq> None"
  shows "hasher_inv st \<Longrightarrow> KSI_isHashAlgorithmSupported (ag_algo st) \<Longrightarrow> 0 \<le> level st \<Longrightarrow> level st \<le> 0xff \<Longrightarrow>
    \<exists>st'. aggregateLoop D i False (replicate n k) st = Ok st' \<and> level st' = level st \<and> (n > 0 \<longrightarrow> ag_hsh st' \<noteq> None)"
proof (induction n arbitrary: st)
  case (Suc n)
  obtain v where v: "linkImprint k = Ok (Some v)" using assms(3) by (auto simp: sibling_Some)
  define st1 where "st1 = st\<lparr>ag_hsr := Some \<lparr>algorithm = ag_algo st, isOpen = False, fed = node_msg k (current i st) (of_int (level st))\<rparr>,
     ag_hsh := Some (imprint_of D (ag_algo st) (node_msg k (current i st) (of_int (level st))))\<rparr>"
  have s: "aggregate_step D i False k st = Ok st1"
    using aggregate_step_result [OF assms(1) flat_link_prepare [OF assms(2) Suc.prems(3,4)] Suc.prems(1,2), of i] v Suc.prems(4)
    by (simp add: step_result_def Let_def st1_def)
  have "hasher_inv st1" "ag_algo st1 = ag_algo st" "level st1 = level st" "ag_hsh st1 \<noteq> None"
    by (simp_all add: st1_def hasher_inv_def)
  with Suc.IH [of st1] Suc.prems obtain st' where
    st': "aggregateLoop D i False (replicate n k) st1 = Ok st'" "level st' = level st" "n > 0 \<longrightarrow> ag_hsh st' \<noteq> None" by auto
  with s \<open>ag_hsh st1 \<noteq> None\<close> show ?case by (cases "n = 0") auto
qed simp

text \<open>Level corrections are cut to 32 bits: the range check of the correction records an error but does not
  stop, so that adding \<open>2\<^sup>3\<^sup>2\<close> to every correction of a chain changes nothing; and with the correction
  \<open>0xffffffff\<close> a link does not raise the level, so that chains of any length are accepted.\<close>

theorem level_correction_truncated:
  assumes "digest_ok D" and "KSI_isHashAlgorithmSupported a" and "0 \<le> lvl" and "lvl \<le> 0xff"
    and "KSI_Integer_getUInt64 (levelCorrection k) = 0xffffffff" and "sibling k \<noteq> None"
  shows "KSI_HashChain_aggregate D (Some (map add_2_32 ks)) h lvl' a' = KSI_HashChain_aggregate D (Some ks) h lvl' a'
     \<and> (\<exists>r. KSI_HashChain_aggregate D (Some (replicate (Suc n) k)) (Some i) lvl a = Ok (lvl, Some r))"
proof
  show "KSI_HashChain_aggregate D (Some (map add_2_32 ks)) h lvl' a' = KSI_HashChain_aggregate D (Some ks) h lvl' a'"
    by (cases h) (simp_all add: KSI_HashChain_aggregate_def aggregateChain_def aggregateLoop_add_2_32)
  let ?st = "\<lparr>level = lvl, ag_hsr = None, ag_hsh = None, ag_algo = a\<rparr>"
  have "hasher_inv ?st" by (simp add: hasher_inv_def)
  with flat_chain_loop [OF assms(1,5,6), of ?st i "Suc n"] assms(2-4) obtain st' where
    "aggregateLoop D i False (replicate (Suc n) k) ?st = Ok st'" "level st' = lvl" "ag_hsh st' \<noteq> None" by auto
  then show "\<exists>r. KSI_HashChain_aggregate D (Some (replicate (Suc n) k)) (Some i) lvl a = Ok (lvl, Some r)"
    by (auto simp: KSI_HashChain_aggregate_def aggregateChain_def)
qed

theorem level_correction_truncated_witness:
  "\<exists>r. KSI_HashChain_aggregate (\<lambda>a m. replicate (KSI_getHashLength a) 0)
     (Some (replicate 1000 \<lparr>isLeft = True, levelCorrection = Some 0xffffffff, legacyId = None, metaData = None, imprint = Some [1, 2]\<rparr>))
     (Some [9]) 3 1 = Ok (3, Some r)"
proof -
  let ?k = "\<lparr>isLeft = True, levelCorrection = Some 0xffffffff, legacyId = None, metaData = None, imprint = Some [1, 2]\<rparr>"
  have d: "digest_ok (\<lambda>a m. replicate (KSI_getHashLength a) 0)" by (simp add: digest_ok_def)
  have s: "sibling ?k = Some [1, 2]" by (simp add: sibling_Some linkImprint_def KSI_DataHash_getImprint_def)
  have "Suc 999 = 1000" by simp
  with level_correction_truncated [OF d, of 1 3 ?k "[]" None 0 0 999 "[9]"] s show ?thesis
    by (simp only: KSI_isHashAlgorithmSupported_def KSI_Integer_getUInt64_def) simp
qed

section \<open>Calendar chains\<close>

definition alg_of :: "KSI_DataHash \<Rightarrow> int" where
  "alg_of h = int (unat (h ! 0))"

text \<open>In a calendar chain the level is always \<open>0xff\<close>, and a left link also sets the algorithm from there on.\<close>

fun calendar_root :: "(int \<Rightarrow> bytes \<Rightarrow> bytes) \<Rightarrow> int \<Rightarrow> KSI_HashChainLink list \<Rightarrow> KSI_DataHash \<Rightarrow> KSI_DataHash" where
  "calendar_root D a [] h = h"
| "calendar_root D a (k # ks) h =
     (let a = (if isLeft k then alg_of (the (imprint k)) else a) in
      calendar_root D a ks (imprint_of D a (node_msg k h 0xff)))"

definition calendar_link_wf :: "KSI_HashChainLink \<Rightarrow> bool" where
  "calendar_link_wf k \<longleftrightarrow> imprint k \<noteq> None \<and> legacyId k = None \<and> metaData k = None
     \<and> (isLeft k \<longrightarrow> KSI_isHashAlgorithmSupported (alg_of (the (imprint k))))"

lemma calendar_step:
  assumes "digest_ok D" and "KSI_isHashAlgorithmSupported (ag_algo st)" and "hasher_inv st" and "level st = 0xff"
    and "calendar_link_wf k"
  defines "a \<equiv> if isLeft k then alg_of (the (imprint k)) else ag_algo st"
  shows "\<exists>st'. aggregate_step D i True k st = Ok st' \<and> ag_algo st' = a \<and> hasher_inv st' \<and> level st' = 0xff
     \<and> ag_hsh st' \<noteq> None \<and> current i st' = imprint_of D a (node_msg k (current i st) 0xff)"
proof -
  obtain im where im: "imprint k = Some im" "legacyId k = None" "metaData k = None" using assms(5) by (auto simp: calendar_link_wf_def)
  then have lk: "linkImprint k = Ok (Some im)" by (simp add: linkImprint_def KSI_DataHash_getImprint_def)
  have a: "KSI_isHashAlgorithmSupported a" using assms(2,5) by (auto simp: a_def calendar_link_wf_def)
  obtain st1 where p: "aggregate_prepare True k st = Inr st1" "ag_algo st1 = a" "hasher_inv st1" "level st1 = 0xff"
    "current i st1 = current i st"
  proof (cases "isLeft k \<and> alg_of im \<noteq> ag_algo st")
    case True
    then show ?thesis using im a assms(4) that [of "st\<lparr>ag_algo := a, ag_hsr := Some \<lparr>algorithm = a, isOpen = True, fed = []\<rparr>\<rparr>"]
      by (simp add: aggregate_prepare_def KSI_DataHash_extract_def a_def alg_of_def KSI_DataHasher_open_def
          KSI_DataHasher_reset_def hasher_inv_def current_def)
  next
    case False
    then show ?thesis using im assms(3,4) that [of st]
      by (auto simp: aggregate_prepare_def KSI_DataHash_extract_def a_def alg_of_def)
  qed
  show ?thesis
    using aggregate_step_result [OF assms(1) p(1,3), of i] a p lk
    by (simp add: step_result_def Let_def hasher_inv_def current_def)
qed

lemma calendar_loop:
  assumes "digest_ok D"
  shows "KSI_isHashAlgorithmSupported (ag_algo st) \<Longrightarrow> hasher_inv st \<Longrightarrow> level st = 0xff \<Longrightarrow> list_all calendar_link_wf ks \<Longrightarrow>
    \<exists>st'. aggregateLoop D i True ks st = Ok st' \<and> current i st' = calendar_root D (ag_algo st) ks (current i st)
      \<and> (ag_hsh st' = None \<longleftrightarrow> ks = [] \<and> ag_hsh st = None)"
proof (induction ks arbitrary: st)
  case (Cons k ks)
  let ?a = "if isLeft k then alg_of (the (imprint k)) else ag_algo st"
  obtain st1 where s: "aggregate_step D i True k st = Ok st1" "ag_algo st1 = ?a" "hasher_inv st1" "level st1 = 0xff"
    "ag_hsh st1 \<noteq> None" "current i st1 = imprint_of D ?a (node_msg k (current i st) 0xff)"
    using calendar_step [OF assms Cons.prems(1-3), of k i] Cons.prems(4) by auto
  have "KSI_isHashAlgorithmSupported (ag_algo st1)" using Cons.prems(1,4) s(2) by (auto simp: calendar_link_wf_def)
  with Cons.IH [of st1] s Cons.prems(4) show ?case by (auto simp: Let_def)
qed simp

text \<open>C27. The aggregation of a calendar chain: for links with an imprint as their only sibling value and supported
  algorithms, it succeeds and folds the chain at level \<open>0xff\<close>, with the algorithm of the input hash up to the
  first left link and that of the last left link seen after it.\<close>

theorem calendar_aggregate_folds:
  assumes "digest_ok D" and "KSI_isHashAlgorithmSupported (alg_of h)" and "list_all calendar_link_wf ks"
  shows "KSI_HashChain_aggregateCalendar D (Some ks) (Some h) =
     Ok (if ks = [] then None else Some (calendar_root D (alg_of h) ks h))"
proof -
  let ?st = "\<lparr>level = 0xff, ag_hsr = None, ag_hsh = None, ag_algo = alg_of h\<rparr>"
  have "hasher_inv ?st" "current h ?st = h" by (simp_all add: hasher_inv_def current_def)
  with calendar_loop [OF assms(1), of ?st ks h] assms(2,3) obtain st' where
    st': "aggregateLoop D h True ks ?st = Ok st'" "current h st' = calendar_root D (alg_of h) ks h" "ag_hsh st' = None \<longleftrightarrow> ks = []"
    by auto
  then show ?thesis
    by (cases "ag_hsh st'") (auto simp: KSI_HashChain_aggregateCalendar_def aggregateChain_def KSI_DataHash_extract_def alg_of_def current_def)
qed

theorem calendar_aggregate_folds_witness:
  "KSI_HashChain_aggregateCalendar (\<lambda>a m. replicate (KSI_getHashLength a) (of_nat (length m)))
     (Some [\<lparr>isLeft = False, levelCorrection = None, legacyId = None, metaData = None, imprint = Some [1, 2]\<rparr>]) (Some [1, 9])
   = Ok (Some (1 # replicate 32 5))"
proof -
  let ?D = "\<lambda>a m. replicate (KSI_getHashLength a) (of_nat (length m)) :: bytes"
  let ?k = "\<lparr>isLeft = False, levelCorrection = None, legacyId = None, metaData = None, imprint = Some [1, 2]\<rparr>"
  have "digest_ok ?D" by (simp add: digest_ok_def)
  from calendar_aggregate_folds [OF this, of "[1, 9]" "[?k]"] show ?thesis
    by (simp add: alg_of_def KSI_isHashAlgorithmSupported_def calendar_link_wf_def imprint_of_def node_msg_def sibling_def
        linkImprint_def KSI_DataHash_getImprint_def hash_lengths)
qed


section \<open>Shapes\<close>

fun shape_nat :: "bool list \<Rightarrow> nat" where
  "shape_nat [] = 1"
| "shape_nat (b # bs) = 2 * shape_nat bs + (if b then 1 else 0)"

lemma shape_nat_pos: "1 \<le> shape_nat bs"
  by (induction bs) auto

lemma shape_nat_bound: "shape_nat bs < 2 ^ Suc (length bs)"
  by (induction bs) auto

lemma shape_nat_inj: "shape_nat bs = shape_nat cs \<Longrightarrow> bs = cs"
proof (induction bs arbitrary: cs)
  case Nil
  then show ?case
  proof (cases cs)
    case (Cons c cs')
    then show ?thesis using Nil shape_nat_pos [of cs'] by (auto split: if_splits)
  qed simp
next
  case (Cons b bs)
  show ?case
  proof (cases cs)
    case Nil
    then show ?thesis using Cons.prems shape_nat_pos [of bs] by (auto split: if_splits)
  next
    case (Cons c cs')
    then have e: "2 * shape_nat bs + (if b then 1 else 0) = 2 * shape_nat cs' + (if c then 1 else 0)" using Cons.prems by simp
    then have "b = c" by (cases b; cases c; simp; presburger)
    then show ?thesis using e Cons Cons.IH [of cs'] by simp
  qed
qed

lemma shape_bits_Cons: "shape_bits (k # ks) = (if isLeft k then push_bit 1 (shape_bits ks) OR 1 else push_bit 1 (shape_bits ks))"
  by (simp add: shape_bits_def)

lemma unat_double: "unat (push_bit 1 (v :: u64)) = (2 * unat v) mod 2 ^ 64"
  by (simp only: unsigned_push_bit_eq) (simp add: push_bit_eq_mult take_bit_eq_mod mult.commute)

lemma unat_double_or: "unat (push_bit 1 (v :: u64) OR 1) = (2 * unat v + 1) mod 2 ^ 64"
proof -
  have "push_bit 1 v AND 1 = 0" by (rule bit_eqI) (simp only: bit_and_iff bit_push_bit_iff bit_1_iff, simp)
  then have o: "push_bit 1 v OR 1 = push_bit 1 v + 1" by (simp add: disjunctive_add_eq_or)
  have "unat (push_bit 1 v + 1) = (unat (push_bit 1 v) + 1) mod 2 ^ 64" by (simp only: unat_word_ariths) simp
  then show ?thesis unfolding o by (simp only: unat_double) (simp add: mod_simps)
qed

lemma unat_shape_bits: "unat (shape_bits ks) = shape_nat (map isLeft ks) mod 2 ^ 64"
proof (induction ks)
  case Nil
  then show ?case by (simp add: shape_bits_def)
next
  case (Cons k ks)
  have m: "(2 * (x mod m) + 1) mod m = (2 * x + 1) mod m" "(2 * (x mod m)) mod m = 2 * x mod m" for x m :: nat
    by (metis mod_add_left_eq mod_mult_right_eq) (rule mod_mult_right_eq)
  show ?case
    by (simp only: shape_bits_Cons if_distrib [where f = unat] unat_double unat_double_or Cons m list.map shape_nat.simps) simp
qed

text \<open>The shape of an aggregation chain determines the directions of its links for chains of at most 63 links.
  The guard admits up to 65, where it no longer does: 64 left links have the shape of 63.\<close>

theorem shape_determines_directions:
  assumes "chain c = Some ks" and "chain c' = Some ks'" and "length ks \<le> 63" and "length ks' \<le> 63"
    and "KSI_AggregationHashChain_calculateShape (Some c) = Inr s"
    and "KSI_AggregationHashChain_calculateShape (Some c') = Inr s"
  shows "map isLeft ks = map isLeft ks'"
proof -
  have "s = shape_bits ks" "s = shape_bits ks'" using assms by (auto simp: KSI_AggregationHashChain_calculateShape_def)
  then have m: "shape_nat (map isLeft ks) mod 2 ^ 64 = shape_nat (map isLeft ks') mod 2 ^ 64" using unat_shape_bits by metis
  have "shape_nat (map isLeft xs) < 2 ^ 64" if "length xs \<le> 63" for xs
  proof -
    have "shape_nat (map isLeft xs) < 2 ^ Suc (length xs)" using shape_nat_bound [of "map isLeft xs"] by simp
    also have "\<dots> \<le> 2 ^ 64" using that by (intro power_increasing) simp_all
    finally show ?thesis .
  qed
  from this [OF assms(3)] this [OF assms(4)] m have "shape_nat (map isLeft ks) = shape_nat (map isLeft ks')" by (simp only: mod_less)
  then show ?thesis by (rule shape_nat_inj)
qed

theorem shape_determines_directions_witness:
  "KSI_AggregationHashChain_calculateShape (Some (KSI_AggregationHashChain_new\<lparr>chain := Some [KSI_HashChainLink_new\<lparr>isLeft := True\<rparr>]\<rparr>))
     \<noteq> KSI_AggregationHashChain_calculateShape (Some (KSI_AggregationHashChain_new\<lparr>chain := Some [KSI_HashChainLink_new]\<rparr>))"
proof
  let ?c = "KSI_AggregationHashChain_new\<lparr>chain := Some [KSI_HashChainLink_new\<lparr>isLeft := True\<rparr>]\<rparr>"
    and ?c' = "KSI_AggregationHashChain_new\<lparr>chain := Some [KSI_HashChainLink_new]\<rparr>"
  assume a: "KSI_AggregationHashChain_calculateShape (Some ?c) = KSI_AggregationHashChain_calculateShape (Some ?c')"
  have i: "KSI_AggregationHashChain_calculateShape (Some ?c) = Inr 3"
    by (simp add: KSI_AggregationHashChain_calculateShape_def shape_bits_def)
  with a have "KSI_AggregationHashChain_calculateShape (Some ?c') = Inr 3" by simp
  from shape_determines_directions [OF _ _ _ _ i this, of "[KSI_HashChainLink_new\<lparr>isLeft := True\<rparr>]" "[KSI_HashChainLink_new]"]
  show False by (simp add: KSI_HashChainLink_new_def)
qed

text \<open>Two chains of different length with the same shape.\<close>

theorem shape_collision:
  "KSI_AggregationHashChain_calculateShape (Some (KSI_AggregationHashChain_new\<lparr>chain := Some (replicate 64 (KSI_HashChainLink_new\<lparr>isLeft := True\<rparr>))\<rparr>))
   = KSI_AggregationHashChain_calculateShape (Some (KSI_AggregationHashChain_new\<lparr>chain := Some (replicate 63 (KSI_HashChainLink_new\<lparr>isLeft := True\<rparr>))\<rparr>))"
proof -
  let ?l = "KSI_HashChainLink_new\<lparr>isLeft := True\<rparr>"
  have n: "shape_nat (replicate n True) = 2 ^ Suc n - 1" for n
  proof (induction n)
    case (Suc n)
    have "1 \<le> (2 :: nat) ^ n" by simp
    with Suc show ?case by (simp; arith)
  qed simp
  have "unat (shape_bits (replicate 64 ?l)) = unat (shape_bits (replicate 63 ?l))"
    by (simp only: unat_shape_bits map_replicate KSI_HashChainLink.select_convs n) (simp add: KSI_HashChainLink_new_def n)
  then have "shape_bits (replicate 64 ?l) = shape_bits (replicate 63 ?l)" by (simp only: word_eq_iff_unsigned [where ?'a = nat])
  then show ?thesis by (simp add: KSI_AggregationHashChain_calculateShape_def)
qed


section \<open>Compatibility of calendar chains\<close>

definition same_hash :: "KSI_DataHash option \<Rightarrow> KSI_DataHash option \<Rightarrow> bool" where
  "same_hash x y \<longleftrightarrow> x \<noteq> None \<and> x = y"

definition right_values :: "KSI_HashChainLink list \<Rightarrow> KSI_DataHash option list" where
  "right_values ks = map imprint (filter (\<lambda>k. \<not> isLeft k) ks)"

text \<open>The right links of two chains carry the same values, or the first has one more, which equals the value of
  the last link of the second, a left link.\<close>

definition rights_agree :: "KSI_DataHash option list \<Rightarrow> KSI_HashChainLink list \<Rightarrow> bool" where
  "rights_agree rs bs \<longleftrightarrow> list_all2 same_hash rs (right_values bs)"

definition rights_slip :: "KSI_DataHash option list \<Rightarrow> KSI_HashChainLink list \<Rightarrow> bool" where
  "rights_slip rs bs \<longleftrightarrow> rs \<noteq> [] \<and> list_all2 same_hash (butlast rs) (right_values bs)
     \<and> bs \<noteq> [] \<and> isLeft (last bs) \<and> same_hash (last rs) (imprint (last bs))"

lemma equals_same_hash: "KSI_DataHash_equals x y = same_hash x y"
  by (auto simp: KSI_DataHash_equals_def same_hash_def)

lemma nextRight_found: "list_all isLeft ls \<Longrightarrow> \<not> isLeft b \<Longrightarrow> nextRight (ls @ b # bs) l = (Some b, bs)"
  by (induction ls arbitrary: l) auto

lemma nextRight_none: "list_all isLeft ls \<Longrightarrow> nextRight ls l = (if ls = [] then l else Some (last ls), [])"
  by (induction ls arbitrary: l) auto

lemma split_first_right:
  obtains "list_all isLeft bs" | ls b cs where "bs = ls @ b # cs" "list_all isLeft ls" "\<not> isLeft b"
proof (cases "\<exists>b\<in>set bs. \<not> isLeft b")
  case True
  then obtain ls b cs where "bs = ls @ b # cs" "\<not> isLeft b" "\<forall>x\<in>set ls. \<not> \<not> isLeft x" by (rule split_list_first_propE)
  then show ?thesis using that(2) by (auto simp: list_all_iff)
qed (use that(1) in \<open>auto simp: list_all_iff\<close>)

lemma right_values_left [simp]: "list_all isLeft ls \<Longrightarrow> right_values ls = []"
  by (auto simp: right_values_def list_all_iff)

lemma right_values_simps [simp]:
  "right_values [] = []" "right_values (k # ks) = (if isLeft k then right_values ks else imprint k # right_values ks)"
  "right_values (xs @ ys) = right_values xs @ right_values ys"
  by (simp_all add: right_values_def)

lemma rightLinkLoop_Nil: "rightLinkLoop as [] = None \<longleftrightarrow> right_values as = []"
  by (induction as) auto

lemma rightLinkLoop_iff:
  "rightLinkLoop as bs = None \<longleftrightarrow> rights_agree (right_values as) bs \<or> rights_slip (right_values as) bs"
proof (induction as arbitrary: bs)
  case Nil
  have "right_values bs = [] \<longleftrightarrow> \<not> list_ex (\<lambda>b. \<not> isLeft b) bs" by (induction bs) auto
  then show ?case by (auto simp: rights_agree_def rights_slip_def)
next
  case (Cons a as)
  show ?case
  proof (cases "isLeft a")
    case True
    then show ?thesis using Cons by simp
  next
    case False
    show ?thesis
    proof (rule split_first_right [of bs])
      assume l: "list_all isLeft bs"
      then have "rightLinkLoop (a # as) bs = None \<longleftrightarrow> bs \<noteq> [] \<and> same_hash (imprint a) (imprint (last bs)) \<and> right_values as = []"
        using False by (simp add: nextRight_none equals_same_hash rightLinkLoop_Nil)
      moreover have "bs \<noteq> [] \<Longrightarrow> isLeft (last bs)" using l by (simp add: list_all_iff)
      ultimately show ?thesis using l False by (auto simp: rights_agree_def rights_slip_def)
    next
      fix ls b cs assume s: "bs = ls @ b # cs" "list_all isLeft ls" "\<not> isLeft b"
      then have "rightLinkLoop (a # as) bs = None \<longleftrightarrow> same_hash (imprint a) (imprint b) \<and> rightLinkLoop as cs = None"
        using False by (simp add: nextRight_found equals_same_hash)
      then have "rightLinkLoop (a # as) bs = None \<longleftrightarrow> same_hash (imprint a) (imprint b)
          \<and> (rights_agree (right_values as) cs \<or> rights_slip (right_values as) cs)" by (simp only: Cons)
      also have "\<dots> \<longleftrightarrow> rights_agree (imprint a # right_values as) bs \<or> rights_slip (imprint a # right_values as) bs"
        using s by (cases "cs = []") (auto simp: rights_agree_def rights_slip_def)
      finally show ?thesis using False by simp
    qed
  qed
qed

text \<open>C38. What \<^verbatim>\<open>KSI_CalendarHashChain_verifyCompatibilityTo\<close> establishes: it accepts two chains exactly if they have
  the same aggregation time and the same input hash and either their right links carry the same values in
  the same order, as intended, or the first chain has one right link more than the second, whose last
  link is a left link that happens to carry the same value.\<close>

theorem compatibility_exact:
  "KSI_CalendarHashChain_verifyCompatibilityTo (Some a) (Some b) = None \<longleftrightarrow>
     (\<exists>t. extractAggregationTime (Some a) = Inr t \<and> extractAggregationTime (Some b) = Inr t)
     \<and> (\<exists>h. cal_inputHash a = Some h \<and> cal_inputHash b = Some h)
     \<and> (rights_agree (right_values (links_of a)) (links_of b) \<or> rights_slip (right_values (links_of a)) (links_of b))"
proof -
  have "verifyAggregationtimeCompatibility a b = None \<longleftrightarrow> (\<exists>t. extractAggregationTime (Some a) = Inr t \<and> extractAggregationTime (Some b) = Inr t)"
    by (auto simp: verifyAggregationtimeCompatibility_def KSI_Integer_equals_def split: sum.splits)
  moreover have "verifyInputHashCompatibility a b = None \<longleftrightarrow> (\<exists>h. cal_inputHash a = Some h \<and> cal_inputHash b = Some h)"
    by (cases "cal_inputHash a"; cases "cal_inputHash b") (auto simp: verifyInputHashCompatibility_def equals_same_hash same_hash_def)
  moreover have "verifyRightLinkCompatibility a b = None \<longleftrightarrow>
      rights_agree (right_values (links_of a)) (links_of b) \<or> rights_slip (right_values (links_of a)) (links_of b)"
    unfolding verifyRightLinkCompatibility_def by (rule rightLinkLoop_iff)
  moreover have "KSI_CalendarHashChain_verifyCompatibilityTo (Some a) (Some b) = None \<longleftrightarrow>
      verifyAggregationtimeCompatibility a b = None \<and> verifyInputHashCompatibility a b = None \<and> verifyRightLinkCompatibility a b = None"
    by (simp add: KSI_CalendarHashChain_verifyCompatibilityTo_def split: option.split)
  ultimately show ?thesis by (simp only:)
qed

text \<open>Two incompatible chains that are reported compatible: the first has a right link where the second has a
  left link.\<close>

theorem compatibility_slip:
  "KSI_CalendarHashChain_verifyCompatibilityTo
     (Some \<lparr>publicationTime = Some p, cal_aggregationTime = Some t, cal_inputHash = Some h, cal_outputHash = None,
            hashChain = Some [KSI_HashChainLink_new\<lparr>isLeft := False, imprint := Some x\<rparr>]\<rparr>)
     (Some \<lparr>publicationTime = Some q, cal_aggregationTime = Some t, cal_inputHash = Some h, cal_outputHash = None,
            hashChain = Some [KSI_HashChainLink_new\<lparr>isLeft := True, imprint := Some x\<rparr>]\<rparr>) = None"
  by (simp add: KSI_CalendarHashChain_verifyCompatibilityTo_def verifyAggregationtimeCompatibility_def
      extractAggregationTime_def KSI_Integer_equals_def verifyInputHashCompatibility_def equals_same_hash same_hash_def
      verifyRightLinkCompatibility_def links_of_def)

section \<open>Cached results\<close>

lemma released_faults:
  assumes "outputHash c \<noteq> None" and "released c" and "0 \<le> l" and "l \<le> 0xff"
  shows "fst (KSI_AggregationHashChain_aggregate D c l) = Fault"
  using assms by (simp add: KSI_AggregationHashChain_aggregate_def)

lemma aggregate_computes:
  assumes "\<not> (outputHash c \<noteq> None \<and> l = inputLevel c)" and "\<not> (l < 0 \<or> l > 0xff)" and "\<not> released c"
  shows "KSI_AggregationHashChain_aggregate D c l =
     (if aggrHashId c = None \<or> chain c = None \<or> inputHash c = None then (Err KSI_INVALID_STATE, c\<lparr>released := (outputHash c \<noteq> None)\<rparr>)
      else case KSI_HashChain_aggregate D (chain c) (inputHash c) l (to_int (KSI_Integer_getUInt64 (aggrHashId c))) of
             Ok (lvl, h) \<Rightarrow> (Ok (lvl, h), c\<lparr>outputHash := h, outputLevel := lvl, inputLevel := l, released := False\<rparr>)
           | Err e \<Rightarrow> (Err e, c\<lparr>released := (outputHash c \<noteq> None)\<rparr>)
           | Fault \<Rightarrow> (Fault, c\<lparr>released := (outputHash c \<noteq> None)\<rparr>))"
  using assms unfolding KSI_AggregationHashChain_aggregate_def Let_def
  by (simp split: run.split prod.split del: not_None_eq)

lemma aggregate_cache_parts:
  assumes "\<not> released c"
  shows "KSI_AggregationHashChain_aggregate D c l = (Ok x, c1) \<Longrightarrow> KSI_AggregationHashChain_aggregate D c1 l = (Ok x, c1)"
    and "KSI_AggregationHashChain_aggregate D c l = (Err e, c1) \<Longrightarrow> 0 \<le> l \<Longrightarrow> l \<le> 0xff \<Longrightarrow> outputHash c \<noteq> None \<Longrightarrow>
         0 \<le> l' \<Longrightarrow> l' \<le> 0xff \<Longrightarrow> fst (KSI_AggregationHashChain_aggregate D c1 l') = Fault"
proof -
  assume a: "KSI_AggregationHashChain_aggregate D c l = (Ok x, c1)"
  then have l: "\<not> (l < 0 \<or> l > 0xff)" by (auto simp: KSI_AggregationHashChain_aggregate_def)
  show "KSI_AggregationHashChain_aggregate D c1 l = (Ok x, c1)"
  proof (cases "outputHash c \<noteq> None \<and> l = inputLevel c")
    case True
    then have "c1 = c" using a assms l by (auto simp: KSI_AggregationHashChain_aggregate_def)
    then show ?thesis using a by simp
  next
    case False
    from aggregate_computes [OF False l assms, of D] a obtain lvl h where
      c1: "x = (lvl, h)" "c1 = c\<lparr>outputHash := h, outputLevel := lvl, inputLevel := l, released := False\<rparr>"
      and k: "KSI_HashChain_aggregate D (chain c) (inputHash c) l (to_int (KSI_Integer_getUInt64 (aggrHashId c))) = Ok (lvl, h)"
      and p: "\<not> (aggrHashId c = None \<or> chain c = None \<or> inputHash c = None)"
      by (auto split: if_splits run.splits prod.splits)
    show ?thesis
    proof (cases h)
      case None
      then have "\<not> (outputHash c1 \<noteq> None \<and> l = inputLevel c1)" "\<not> released c1" by (simp_all add: c1(2))
      from aggregate_computes [OF this(1) l this(2), of D] show ?thesis using k p None by (simp add: c1)
    next
      case (Some r)
      then show ?thesis using l by (auto simp: KSI_AggregationHashChain_aggregate_def c1)
    qed
  qed
next
  assume a: "KSI_AggregationHashChain_aggregate D c l = (Err e, c1)" "0 \<le> l" "l \<le> 0xff" "outputHash c \<noteq> None"
    and l': "0 \<le> l'" "l' \<le> 0xff"
  then have l: "\<not> (l < 0 \<or> l > 0xff)" by simp
  have n: "\<not> (outputHash c \<noteq> None \<and> l = inputLevel c)"
    using a assms by (auto simp: KSI_AggregationHashChain_aggregate_def)
  from aggregate_computes [OF n l assms, of D] a have "outputHash c1 \<noteq> None \<and> released c1"
    by (auto split: if_splits run.splits prod.splits)
  then show "fst (KSI_AggregationHashChain_aggregate D c1 l') = Fault" using released_faults l' by blast
qed

text \<open>The cache of \<^verbatim>\<open>KSI_AggregationHashChain_aggregate\<close>: a successful call is repeatable, with the same result and
  no further change of the object.  But a failed call on an object with a cached result leaves a pointer to a
  hash value it no longer owns, and every later call, at whatever level, uses that pointer.\<close>

theorem aggregate_cache:
  assumes "\<not> released c" and "0 \<le> l" and "l \<le> 0xff" and "0 \<le> l'" and "l' \<le> 0xff"
  shows "case KSI_AggregationHashChain_aggregate D c l of
       (Ok x, c1) \<Rightarrow> KSI_AggregationHashChain_aggregate D c1 l = (Ok x, c1)
     | (Err e, c1) \<Rightarrow> outputHash c \<noteq> None \<longrightarrow> fst (KSI_AggregationHashChain_aggregate D c1 l') = Fault
     | (Fault, c1) \<Rightarrow> True"
proof -
  obtain r c1 where a: "KSI_AggregationHashChain_aggregate D c l = (r, c1)" by (cases "KSI_AggregationHashChain_aggregate D c l")
  show ?thesis
  proof (cases r)
    case (Err e)
    have "fst (KSI_AggregationHashChain_aggregate D c1 l') = Fault" if "outputHash c \<noteq> None"
      by (intro aggregate_cache_parts(2) [OF assms(1) a [unfolded Err] assms(2,3) that assms(4,5)])
    then show ?thesis by (simp add: a Err)
  next
    case (Ok x)
    have "KSI_AggregationHashChain_aggregate D c1 l = (Ok x, c1)" by (rule aggregate_cache_parts(1) [OF assms(1) a [unfolded Ok]])
    then show ?thesis by (simp add: a Ok)
  qed (simp add: a)
qed

theorem aggregate_cache_witness:
  "fst (KSI_AggregationHashChain_aggregate (\<lambda>a m. []) (KSI_AggregationHashChain_new\<lparr>outputHash := Some [1], outputLevel := 1, inputLevel := 0, released := True\<rparr>) 0) = Fault"
proof -
  let ?c = "KSI_AggregationHashChain_new\<lparr>outputHash := Some [1], outputLevel := 1, inputLevel := 0\<rparr>"
  have "KSI_AggregationHashChain_aggregate (\<lambda>a m. []) ?c 1 = (Err KSI_INVALID_STATE, ?c\<lparr>released := True\<rparr>)"
    by (simp add: KSI_AggregationHashChain_aggregate_def KSI_AggregationHashChain_new_def)
  with aggregate_cache [of ?c 1 0 "\<lambda>a m. []"] show ?thesis by (simp add: KSI_AggregationHashChain_new_def)
qed

section \<open>Legacy identifiers\<close>

lemma utf8_text_append: "utf8_text xs \<Longrightarrow> utf8_text ys \<Longrightarrow> utf8_text (xs @ ys)"
proof -
  assume "utf8_text xs" "utf8_text ys"
  then obtain cs ds where "xs = concat cs" "list_all utf8_char cs" "ys = concat ds" "list_all utf8_char ds" by (auto simp: utf8_text_def)
  then have "xs @ ys = concat (cs @ ds) \<and> list_all utf8_char (cs @ ds)" by simp
  then show ?thesis unfolding utf8_text_def by blast
qed

lemma utf8_text_zero: "utf8_text [0]"
  unfolding utf8_text_def by (rule exI [of _ "[[0]]"]) simp

lemma Utf8String_new_take:
  "n \<le> length s \<Longrightarrow> KSI_Utf8String_new (Some s) n = KSI_Utf8String_new (Some (take n s)) (length (take n s))"
  by (cases "n = 0") (auto simp: KSI_Utf8String_new_def split: option.split)

text \<open>Legacy identifiers: whatever \<^verbatim>\<open>legacyId_verify\<close> accepts can be asked for its name without reading behind its
  end, and the identifier built from a UTF-8 name of at most 25 bytes is accepted and yields that name.\<close>

theorem legacy_id_name:
  "(legacyId_verify (Some raw) = None \<longrightarrow> KSI_OctetString_LegacyId_getUtf8String (Some raw) \<noteq> None)
   \<and> (length name \<le> 25 \<and> utf8_text name \<and> 0 \<notin> set name \<longrightarrow>
        legacyId_verify (Some (3 # 0 # of_nat (length name) # name @ replicate (26 - length name) 0)) = None
      \<and> KSI_OctetString_LegacyId_getUtf8String (Some (3 # 0 # of_nat (length name) # name @ replicate (26 - length name) 0))
          = Some (Inr (name @ [0])))"
proof (intro conjI impI)
  assume "legacyId_verify (Some raw) = None"
  then have l: "length raw = 29" "\<not> raw ! 2 > 25" by (auto simp: legacyId_verify_def split: if_splits)
  then have "unat (raw ! 2) \<le> 25" by (simp add: word_less_nat_alt)
  with l(1) show "KSI_OctetString_LegacyId_getUtf8String (Some raw) \<noteq> None"
    by (simp add: KSI_OctetString_LegacyId_getUtf8String_def KSI_OctetString_extract_def LEGACY_ID_STR_LEN_POS_def LEGACY_ID_STR_POS_def)
next
  assume n: "length name \<le> 25 \<and> utf8_text name \<and> 0 \<notin> set name"
  let ?r = "3 # 0 # of_nat (length name) # name @ replicate (26 - length name) 0 :: bytes"
  have u: "unat (of_nat (length name) :: byte) = length name" using n by (simp add: unat_of_nat_byte)
  then have g: "\<not> (of_nat (length name) :: byte) > 25" using n by (simp only: word_less_nat_alt) simp
  have pad: "drop (length name + 3) ?r = replicate (26 - length name) 0" by (simp add: numeral_3_eq_3)
  show "legacyId_verify (Some ?r) = None"
    using n g u pad by (simp add: legacyId_verify_def list_ex_iff)
  have t: "take (length name + 1) (drop 3 ?r) = name @ [0]" using n by (cases "26 - length name") simp_all
  have "KSI_Utf8String_new (Some (drop 3 ?r)) (length name + 1) = KSI_Utf8String_new (Some (name @ [0])) (length (name @ [0]))"
    using Utf8String_new_take [of "length name + 1" "drop 3 ?r", unfolded t] n by simp
  also have "\<dots> = Inr (name @ [0])"
    using n by (simp only: Utf8String_new_iff) (simp add: utf8_text_append utf8_text_zero)
  finally show "KSI_OctetString_LegacyId_getUtf8String (Some ?r) = Some (Inr (name @ [0]))"
    using n u by (simp add: KSI_OctetString_LegacyId_getUtf8String_def KSI_OctetString_extract_def LEGACY_ID_STR_LEN_POS_def LEGACY_ID_STR_POS_def)
qed

theorem legacy_id_name_witness:
  "KSI_OctetString_LegacyId_getUtf8String (Some (3 # 0 # 4 # [0x54, 0x65, 0x73, 0x74] @ replicate 22 0)) = Some (Inr [0x54, 0x65, 0x73, 0x74, 0])"
proof -
  have "utf8_text [0x54, 0x65, 0x73, 0x74]" by (simp add: utf8_text_Cons charContinuationLen_def)
  then show ?thesis using legacy_id_name [of "[]" "[0x54, 0x65, 0x73, 0x74]"] by simp
qed


section \<open>Looking at metadata\<close>

lemma parse_element:
  assumes "KSI_TlvElement_parse (Some dat) = Inr e" and "dat \<noteq> []"
  defines "n \<equiv> dat_len (ftlv e) + hdr_len (ftlv e)"
  shows "el_ok e \<and> n \<le> length dat \<and> length (tlv_enc (el_tlv e)) \<le> n \<and> (length (tlv_enc (el_tlv e)) = n \<longrightarrow> tlv_enc (el_tlv e) = take n dat)"
proof -
  obtain f where f: "KSI_FTLV_memRead (Some dat) ftlv_zero = (None, f)"
    and e: "e = KSI_TlvElement f (take (dat_len f) (drop (hdr_len f) dat)) False None"
    using assms(1) by (auto simp: KSI_TlvElement_parse_def split: prod.splits option.splits)
  have p: "parseHdr dat (ftlv_zero\<lparr>off := 0\<rparr>) = (None, f)" and len: "hdr_len f + dat_len f \<le> length dat"
    using f by (simp_all add: memRead_iff)
  let ?p = "take (dat_len f) (drop (hdr_len f) dat)" and ?h = "tlv_header (tag f) (is_nc f) (is_fwd f) (dat_len f)"
  have lp: "length ?p = dat_len f" using len by simp
  have enc: "tlv_enc (el_tlv e) = ?h @ ?p" using lp by (simp add: e)
  have n: "n = dat_len f + hdr_len f" by (simp add: n_def e)
  have h: "length ?h \<le> hdr_len f" "length ?h = hdr_len f \<Longrightarrow> ?h = take (hdr_len f) dat" using reencode_header [OF p assms(2)] by auto
  have "take n dat = take (hdr_len f) dat @ ?p" unfolding n by (subst add.commute) (rule take_add)
  moreover have "el_ok e" using parseHdr_bounds [OF p] lp by (auto simp: e)
  ultimately show ?thesis using h len lp by (auto simp: enc n)
qed

lemma parseSub_enc:
  "parseSub dat = Inr es \<Longrightarrow> el_list_ok es \<and> length (list_enc (el_tlvs es)) \<le> length dat
     \<and> (length (list_enc (el_tlvs es)) = length dat \<longrightarrow> list_enc (el_tlvs es) = dat) \<and> (es = [] \<longleftrightarrow> dat = [])"
proof (induction dat arbitrary: es rule: parseSub.induct)
  case (1 dat)
  show ?case
  proof (cases "dat = []")
    case True
    then show ?thesis using 1(2) by (simp add: parseSub.simps)
  next
    case False
    then obtain e es1 where e: "KSI_TlvElement_parse (Some dat) = Inr e"
      "parseSub (drop (dat_len (ftlv e) + hdr_len (ftlv e)) dat) = Inr es1" "es = e # es1"
      "\<not> length dat < dat_len (ftlv e) + hdr_len (ftlv e)"
      using 1(2) by (subst (asm) parseSub.simps) (auto simp: rbind_eq_Inr Let_def)
    let ?n = "dat_len (ftlv e) + hdr_len (ftlv e)"
    note pe = parse_element [OF e(1) False]
    have IH: "el_list_ok es1" "length (list_enc (el_tlvs es1)) \<le> length (drop ?n dat)"
      "length (list_enc (el_tlvs es1)) = length (drop ?n dat) \<Longrightarrow> list_enc (el_tlvs es1) = drop ?n dat"
      using 1(1) [OF False e(1) refl e(4) e(2)] by auto
    have le: "length (tlv_enc (el_tlv e)) \<le> ?n" "length (drop ?n dat) = length dat - ?n" using pe by auto
    show ?thesis
    proof (intro conjI impI)
      show "length (list_enc (el_tlvs es)) \<le> length dat" using le IH(2) e(4) unfolding e(3) by (simp only: el_tlvs.simps list_enc.simps length_append)
      assume l: "length (list_enc (el_tlvs es)) = length dat"
      then have "length (tlv_enc (el_tlv e)) = ?n" "length (list_enc (el_tlvs es1)) = length (drop ?n dat)"
        using le IH(2) e(4) unfolding e(3) by (simp_all only: el_tlvs.simps list_enc.simps length_append)
      then show "list_enc (el_tlvs es) = dat" using pe IH(3) e(3) append_take_drop_id [of ?n dat] by simp
    qed (use pe IH e False in auto)
  qed
qed

lemma get_decoded_nested:
  assumes "get_decoded dec m tg = Ok (x, m')"
  shows "convertToNested m = Inr m'"
proof -
  obtain el where "KSI_TlvElement_getElement m tg = Inr (el, m')"
    using assms by (auto simp: get_decoded_def run_bind_eq_Ok run_of_eq_Ok split: option.splits)
  then obtain q where q: "convertToNested m = Inr q"
    "(case filter_tags [tg] (the (subList q)) of [] \<Rightarrow> Inr (None, q) | [el] \<Rightarrow> Inr (Some el, q) | _ \<Rightarrow> Inl KSI_INVALID_STATE) = Inr (el, m')"
    by (auto simp: KSI_TlvElement_getElement_def rbind_eq_Inr)
  then have "q = m'"
    by (cases "filter_tags [tg] (the (subList q))"; cases "tl (filter_tags [tg] (the (subList q)))") auto
  with q(1) show ?thesis by simp
qed

lemma metaData_identity_nested:
  assumes "metaData_identity m = Ok (i, m')"
  shows "convertToNested m = Inr m'"
proof -
  obtain c1 m1 c2 m2 c3 m3 c4 where
    "KSI_TlvElement_getUtf8String m 1 = Ok (c1, m1)" "KSI_TlvElement_getUtf8String m1 2 = Ok (c2, m2)"
    "KSI_TlvElement_getInteger m2 3 = Ok (c3, m3)" "KSI_TlvElement_getInteger m3 4 = Ok (c4, m')"
    using assms by (auto simp: metaData_identity_def run_bind_eq_Ok)
  then have n: "convertToNested m = Inr m1" "convertToNested m1 = Inr m2" "convertToNested m2 = Inr m3" "convertToNested m3 = Inr m'"
    by (auto simp: KSI_TlvElement_getUtf8String_def KSI_TlvElement_getInteger_def dest: get_decoded_nested)
  then have "subList m1 \<noteq> None" using convertToNested_subList by blast
  then have "m2 = m1" using n(2) by (simp add: convertToNested_nested)
  moreover have "m3 = m1" using \<open>subList m1 \<noteq> None\<close> n(3) \<open>m2 = m1\<close> by (simp add: convertToNested_nested)
  moreover have "m' = m1" using \<open>subList m1 \<noteq> None\<close> n(4) \<open>m3 = m1\<close> by (simp add: convertToNested_nested)
  ultimately show ?thesis using n(1) by simp
qed

text \<open>Asking a link for its identity can change what it contributes to the root hash: the metadata of the link
  is turned into a list of sub-elements, and from then on what is hashed is their canonical encoding.  It is
  never longer than the metadata as received, and the same only if it has the same length, that is, if every
  sub-element was received with the shortest header.\<close>

theorem identity_recodes_metadata:
  assumes "metaData k = Some m" and "legacyId k = None" and "imprint k = None" and "subList m = None"
    and "dat_len (ftlv m) = length (payload m)" and "length (payload m) \<le> 0xffff"
    and "hashChainLink_getIdentity k = Ok (i, k')"
  shows "\<exists>p'. sibling k = Some (payload m) \<and> sibling k' = Some p' \<and> length p' \<le> length (payload m)
     \<and> (length p' = length (payload m) \<longrightarrow> p' = payload m)"
proof -
  obtain m' where m': "convertToNested m = Inr m'" "k' = k\<lparr>metaData := Some m'\<rparr>"
    using assms(1,2,7) by (auto simp: hashChainLink_getIdentity_def run_bind_eq_Ok dest: metaData_identity_nested)
  then obtain es where es: "parseSub (payload m) = Inr es" "m' = with_subList (Some es) m"
    using assms(4,5) by (auto simp: convertToNested_def rbind_eq_Inr)
  note enc = parseSub_enc [OF es(1)]
  have s: "sibling k = Some (payload m)"
    using assms(1-6) by (cases m) (simp add: sibling_Some linkImprint_def Let_def)
  have "writeElement m' (0xffff + 4) False = Ok (list_enc (el_tlvs es))"
  proof (cases "es = []")
    case True
    then show ?thesis using enc assms(5) es(2) by (cases m) simp
  next
    case False
    have "length (list_enc (el_tlvs es)) \<le> 0xffff" using enc assms(6) by simp
    then have "writeSub es (0xffff + 4) = Ok (list_enc (el_tlvs es))" using element_write(2) [of es "0xffff + 4"] enc by simp
    with False \<open>length (list_enc (el_tlvs es)) \<le> 0xffff\<close> show ?thesis by (cases m) (simp add: es(2))
  qed
  then have "sibling k' = Some (list_enc (el_tlvs es))"
    using assms(2,3) m'(2) by (simp add: sibling_Some linkImprint_def)
  with s enc show ?thesis by simp
qed

theorem identity_recodes_metadata_witness:
  "\<exists>i k' p'. hashChainLink_getIdentity (KSI_HashChainLink_new\<lparr>metaData := Some (KSI_TlvElement
       \<lparr>off = 0, hdr_len = 2, dat_len = 6, tag = 4, is_nc = False, is_fwd = False\<rparr> [0x80, 1, 0, 2, 0x41, 0] False None)\<rparr>)
     = Ok (i, k') \<and> sibling k' = Some p' \<and> length p' \<le> 6"
proof -
  let ?m = "KSI_TlvElement \<lparr>off = 0, hdr_len = 2, dat_len = 6, tag = 4, is_nc = False, is_fwd = False\<rparr> [0x80, 1, 0, 2, 0x41, 0] False None"
  let ?k = "KSI_HashChainLink_new\<lparr>metaData := Some ?m\<rparr>"
  let ?s = "KSI_TlvElement \<lparr>off = 0, hdr_len = 4, dat_len = 2, tag = 1, is_nc = False, is_fwd = False\<rparr> [0x41, 0] False None"
  let ?q = "KSI_TlvElement \<lparr>off = 0, hdr_len = 2, dat_len = 6, tag = 4, is_nc = False, is_fwd = False\<rparr> [0x80, 1, 0, 2, 0x41, 0] False (Some [?s])"
  have c: "convertToNested ?m = Inr ?q"
    by (simp add: convertToNested_def parseSub.simps KSI_TlvElement_parse_def KSI_FTLV_memRead_def parseHdr_def tlv_masks ftlv_zero_def Let_def)
  have "\<exists>i. metaData_identity ?m = Ok (i, ?q)"
    by (simp add: metaData_identity_def KSI_TlvElement_getUtf8String_def KSI_TlvElement_getInteger_def get_decoded_def
        KSI_TlvElement_getElement_def c convertToNested_nested [of ?q] filter_tags_def getPayload_def Let_def KSI_Utf8String_new_def verifyUtf8.simps charContinuationLen_def)
  then obtain i where i: "hashChainLink_getIdentity ?k = Ok (i, ?k\<lparr>metaData := Some ?q\<rparr>)"
    by (auto simp: hashChainLink_getIdentity_def KSI_HashChainLink_new_def)
  from identity_recodes_metadata [OF _ _ _ _ _ _ i, of ?m] obtain p' where
    "sibling (?k\<lparr>metaData := Some ?q\<rparr>) = Some p'" "length p' \<le> 6"
    by (auto simp: KSI_HashChainLink_new_def)
  with i show ?thesis by blast
qed

end
