(* ===== verification/MetaData.thy ===== *)
theory MetaData
  imports HashChain
begin

text \<open>
  Client-side metadata of \<^verbatim>\<open>src/src/ksi/types.c\<close>: the object a caller fills in, its serialization, which puts a
  padding element in front so that the payload has an even length, and its conversion to the metadata
  element that hash chain links carry.  A metadata element is its TLV element (\<^verbatim>\<open>impl\<close>).
\<close>

record KSI_MetaData =
  md_clientId :: "KSI_Utf8String option"
  md_machineId :: "KSI_Utf8String option"
  md_sequenceNr :: "KSI_Integer option"
  md_reqTimeInMicros :: "KSI_Integer option"

definition KSI_MetaData_new :: KSI_MetaData where
  "KSI_MetaData_new = \<lparr>md_clientId = None, md_machineId = None, md_sequenceNr = None, md_reqTimeInMicros = None\<rparr>"

definition KSI_MetaDataElement_new :: KSI_TlvElement where
  "KSI_MetaDataElement_new = with_ftlv (ftlv_zero\<lparr>tag := 0x04\<rparr>) KSI_TlvElement_new"

text \<open>The padding element before its payload is known, and with its payload of one or two bytes.\<close>

definition padding_element :: "bytes \<Rightarrow> KSI_TlvElement" where
  "padding_element p = KSI_TlvElement (ftlv_zero\<lparr>tag := 0x1e, is_fwd := True, is_nc := True, dat_len := length p\<rparr>) p False None"

definition set_optional :: "(KSI_TlvElement \<Rightarrow> u32 \<Rightarrow> 'a option \<Rightarrow> KSI_TlvElement run) \<Rightarrow> u32 \<Rightarrow> 'a option \<Rightarrow> KSI_TlvElement \<Rightarrow> KSI_TlvElement run" where
  "set_optional set_fn tg v m = (case v of None \<Rightarrow> Ok m | Some x \<Rightarrow> set_fn m tg (Some x))"

definition metaData_fields :: "KSI_MetaData \<Rightarrow> KSI_TlvElement \<Rightarrow> KSI_TlvElement run" where
  "metaData_fields t m =
     run_bind (set_optional KSI_TlvElement_setUtf8String 0x01 (md_clientId t) m) (\<lambda>m.
     run_bind (set_optional KSI_TlvElement_setUtf8String 0x02 (md_machineId t) m) (\<lambda>m.
     run_bind (set_optional KSI_TlvElement_setInteger 0x03 (md_sequenceNr t) m) (\<lambda>m.
     set_optional KSI_TlvElement_setInteger 0x04 (md_reqTimeInMicros t) m)))"

text \<open>\<^verbatim>\<open>KSI_MetaData_serializePayload\<close> into a buffer of \<open>buf_size\<close> bytes.  The padding element is shared with the list
  of sub-elements, so that the payload it is given after the length is known is part of what is serialized.\<close>

definition KSI_MetaData_serializePayload :: "KSI_MetaData \<Rightarrow> nat \<Rightarrow> bytes run" where
  "KSI_MetaData_serializePayload t buf_size =
     run_bind (run_of (KSI_TlvElement_appendElement KSI_MetaDataElement_new (padding_element []))) (\<lambda>m.
     run_bind (metaData_fields t m) (\<lambda>m.
       let len = elementLen m False;
           pad = (if len mod 2 = 0 then [0x01, 0x01] else [0x01]) in
       writeElement (with_subList (Some (padding_element pad # tl (the (subList m)))) m) buf_size False))"

definition KSI_MetaData_toMetaDataElement :: "KSI_MetaData \<Rightarrow> KSI_TlvElement run" where
  "KSI_MetaData_toMetaDataElement t =
     run_bind (KSI_MetaData_serializePayload t (0xffff + 4)) (\<lambda>buf.
       KSI_TlvElement_detach (KSI_TlvElement (ftlv_zero\<lparr>tag := 0x04, dat_len := length buf\<rparr>) buf False None))"

definition KSI_MetaDataElement_toTlv :: "KSI_TlvElement \<Rightarrow> KSI_TLV run" where
  "KSI_MetaDataElement_toTlv m =
     (case KSI_TlvElement_getElement m 0x01 of
        Inr (Some el, m) \<Rightarrow>
          run_bind (writeElement m (0xffff + 4) False) (\<lambda>buf.
            run_of (KSI_TLV_setRawValue (KSI_TLV_new (tag (ftlv m)) (is_nc (ftlv m)) (is_fwd (ftlv m))) (Some buf)))
      | _ \<Rightarrow> Err KSI_INVALID_FORMAT)"

section \<open>The serialized form\<close>


text \<open>The sub-elements of a metadata object behind the padding, as tags with payloads, and their encoding.\<close>

definition md_items :: "KSI_MetaData \<Rightarrow> (u32 \<times> bytes) list" where
  "md_items t =
     (case md_clientId t of None \<Rightarrow> [] | Some s \<Rightarrow> [(0x01, s)]) @
     (case md_machineId t of None \<Rightarrow> [] | Some s \<Rightarrow> [(0x02, s)]) @
     (case md_sequenceNr t of None \<Rightarrow> [] | Some v \<Rightarrow> [(0x03, encodeInt v [])]) @
     (case md_reqTimeInMicros t of None \<Rightarrow> [] | Some v \<Rightarrow> [(0x04, encodeInt v [])])"

definition md_body :: "KSI_MetaData \<Rightarrow> bytes" where
  "md_body t = concat (map (\<lambda>(tg, bs). tlv_header tg False False (length bs) @ bs) (md_items t))"

definition md_fits :: "KSI_MetaData \<Rightarrow> bool" where
  "md_fits t \<longleftrightarrow> pred_option (\<lambda>s. length s \<le> 0xffff) (md_clientId t) \<and> pred_option (\<lambda>s. length s \<le> 0xffff) (md_machineId t)"

lemma set_raw_fresh:
  assumes "subList m = Some l" and "tg \<notin> (\<lambda>e. tag (ftlv e)) ` set l" and "unat tg < 2 ^ 13" and "length bs < 2 ^ 63"
  shows "\<exists>m'. set_raw_element m tg bs = Ok m' \<and> subList m' = Some (l @ [stored_element tg bs]) \<and> tag (ftlv m') = tag (ftlv m)"
proof -
  have "filter_tags [tag (ftlv (stored_element tg bs))] l = []"
    using assms(2) by (auto simp: filter_tags_single filter_empty_conv)
  then show ?thesis
    using assms(1) by (simp add: set_raw_element_def detach_raw [OF assms(3,4)] KSI_TlvElement_setElement_def
        KSI_TlvElement_appendElement_def convertToNested_nested)
qed

lemma encodeInt_short: "length (encodeInt v []) \<le> 8"
  using length_encodeInt [of v] minsize64_le [of v] by simp

text \<open>Both kinds of setters store the payload of the item.\<close>

lemma set_optional_append:
  assumes "subList m = Some l" and "tg \<notin> (\<lambda>e. tag (ftlv e)) ` set l" and "unat tg < 2 ^ 13"
  shows "pred_option (\<lambda>s. length s \<le> 0xffff) s \<Longrightarrow>
      \<exists>m'. set_optional KSI_TlvElement_setUtf8String tg s m = Ok m'
        \<and> subList m' = Some (l @ (case s of None \<Rightarrow> [] | Some b \<Rightarrow> [stored_element tg b])) \<and> tag (ftlv m') = tag (ftlv m)"
    and "\<exists>m'. set_optional KSI_TlvElement_setInteger tg v m = Ok m'
        \<and> subList m' = Some (l @ (case v of None \<Rightarrow> [] | Some x \<Rightarrow> [stored_element tg (encodeInt x [])])) \<and> tag (ftlv m') = tag (ftlv m)"
  using assms set_raw_fresh [OF assms] encodeInt_short
  by (auto simp: set_optional_def KSI_TlvElement_setUtf8String_def KSI_TlvElement_setInteger_def encodeLimited_8
      order.strict_trans1 [of _ 65535] order.strict_trans1 [of _ 8] split: option.splits)

definition md_elements :: "KSI_MetaData \<Rightarrow> KSI_TlvElement list" where
  "md_elements t = map (\<lambda>(tg, bs). stored_element tg bs) (md_items t)"

lemma metaData_fields_elements:
  assumes "subList m = Some [padding_element p]" and "md_fits t"
  shows "\<exists>m'. metaData_fields t m = Ok m' \<and> subList m' = Some (padding_element p # md_elements t) \<and> tag (ftlv m') = tag (ftlv m)"
proof -
  let ?c = "case md_clientId t of None \<Rightarrow> [] | Some b \<Rightarrow> [stored_element 0x01 b]"
  let ?d = "case md_machineId t of None \<Rightarrow> [] | Some b \<Rightarrow> [stored_element 0x02 b]"
  let ?s = "case md_sequenceNr t of None \<Rightarrow> [] | Some b \<Rightarrow> [stored_element 0x03 (encodeInt b [])]"
  let ?r = "case md_reqTimeInMicros t of None \<Rightarrow> [] | Some b \<Rightarrow> [stored_element 0x04 (encodeInt b [])]"
  have tags: "(\<lambda>e. tag (ftlv e)) ` set [padding_element p] = {0x1e}" "(\<lambda>e. tag (ftlv e)) ` set ?c \<subseteq> {1}"
    "(\<lambda>e. tag (ftlv e)) ` set ?d \<subseteq> {2}" "(\<lambda>e. tag (ftlv e)) ` set ?s \<subseteq> {3}"
    by (auto simp: padding_element_def ftlv_zero_def split: option.splits)
  have "\<exists>m1. set_optional KSI_TlvElement_setUtf8String 0x01 (md_clientId t) m = Ok m1
      \<and> subList m1 = Some ([padding_element p] @ ?c) \<and> tag (ftlv m1) = tag (ftlv m)"
    by (rule set_optional_append(1) [OF assms(1)]) (use assms(2) tags in \<open>auto simp: md_fits_def\<close>)
  then obtain m1 where m1: "set_optional KSI_TlvElement_setUtf8String 0x01 (md_clientId t) m = Ok m1"
      "subList m1 = Some ([padding_element p] @ ?c)" "tag (ftlv m1) = tag (ftlv m)" by blast
  have "\<exists>m2. set_optional KSI_TlvElement_setUtf8String 0x02 (md_machineId t) m1 = Ok m2
      \<and> subList m2 = Some (([padding_element p] @ ?c) @ ?d) \<and> tag (ftlv m2) = tag (ftlv m1)"
    by (rule set_optional_append(1) [OF m1(2)]) (use assms(2) tags in \<open>auto simp: md_fits_def\<close>)
  then obtain m2 where m2: "set_optional KSI_TlvElement_setUtf8String 0x02 (md_machineId t) m1 = Ok m2"
      "subList m2 = Some (([padding_element p] @ ?c) @ ?d)" "tag (ftlv m2) = tag (ftlv m1)" by blast
  have "\<exists>m3. set_optional KSI_TlvElement_setInteger 0x03 (md_sequenceNr t) m2 = Ok m3
      \<and> subList m3 = Some ((([padding_element p] @ ?c) @ ?d) @ ?s) \<and> tag (ftlv m3) = tag (ftlv m2)"
    by (rule set_optional_append(2) [OF m2(2)]) (use tags in auto)
  then obtain m3 where m3: "set_optional KSI_TlvElement_setInteger 0x03 (md_sequenceNr t) m2 = Ok m3"
      "subList m3 = Some ((([padding_element p] @ ?c) @ ?d) @ ?s)" "tag (ftlv m3) = tag (ftlv m2)" by blast
  have "\<exists>m4. set_optional KSI_TlvElement_setInteger 0x04 (md_reqTimeInMicros t) m3 = Ok m4
      \<and> subList m4 = Some (((([padding_element p] @ ?c) @ ?d) @ ?s) @ ?r) \<and> tag (ftlv m4) = tag (ftlv m3)"
    by (rule set_optional_append(2) [OF m3(2)]) (use tags in auto)
  then obtain m4 where m4: "set_optional KSI_TlvElement_setInteger 0x04 (md_reqTimeInMicros t) m3 = Ok m4"
      "subList m4 = Some (((([padding_element p] @ ?c) @ ?d) @ ?s) @ ?r)" "tag (ftlv m4) = tag (ftlv m3)" by blast
  have "md_elements t = ?c @ ?d @ ?s @ ?r" by (auto simp: md_elements_def md_items_def split: option.splits)
  then show ?thesis using m1 m2 m3 m4 by (simp add: metaData_fields_def)
qed


lemma md_items_short: "md_fits t \<Longrightarrow> (tg, bs) \<in> set (md_items t) \<Longrightarrow> length bs \<le> 0xffff \<and> unat tg < 2 ^ 13"
  by (cases "md_clientId t"; cases "md_machineId t"; cases "md_sequenceNr t"; cases "md_reqTimeInMicros t")
     (auto simp: md_fits_def md_items_def intro: order_trans [OF encodeInt_short])

lemma stored_items_enc:
  assumes "\<And>tg bs. (tg, bs) \<in> set its \<Longrightarrow> length bs \<le> 0xffff \<and> unat tg < 2 ^ 13"
  shows "el_list_ok (map (\<lambda>(tg, bs). stored_element tg bs) its)
      \<and> list_enc (el_tlvs (map (\<lambda>(tg, bs). stored_element tg bs) its)) = concat (map (\<lambda>(tg, bs). tlv_header tg False False (length bs) @ bs) its)"
  using assms
proof (induction its)
  case (Cons a its)
  obtain tg bs where a: "a = (tg, bs)" by (cases a)
  then have "length bs \<le> 0xffff" "unat tg < 2 ^ 13" using Cons.prems [of tg bs] by auto
  with Cons show ?case by (auto simp: a stored_element_def)
qed simp

definition padding_bytes :: "bytes \<Rightarrow> bytes" where
  "padding_bytes body = (if even (length body) then [0x7e, 2, 1, 1] else [0x7e, 1, 1])"

definition md_enc :: "KSI_MetaData \<Rightarrow> bytes" where
  "md_enc t = padding_bytes (md_body t) @ md_body t"

lemma md_body_length:
  assumes "md_fits t"
  shows "length (md_body t) < 2 ^ 20"
proof -
  have "length (concat (map (\<lambda>(tg, bs). tlv_header tg False False (length bs) @ bs) its)) \<le> length its * 65539"
    if "\<forall>(tg, bs)\<in>set its. length bs \<le> 0xffff" for its :: "(u32 \<times> bytes) list"
    using that
  proof (induction its)
    case (Cons a its)
    obtain tg bs where a: "a = (tg, bs)" by (cases a)
    with Cons HDR_LEN_pos(2) [of tg "length bs"] show ?case by auto
  qed simp
  moreover have "length (md_items t) \<le> 4" by (simp add: md_items_def split: option.splits)
  moreover have "\<forall>(tg, bs)\<in>set (md_items t). length bs \<le> 0xffff" using md_items_short [OF assms] by auto
  ultimately have "length (md_body t) \<le> 4 * 65539" unfolding md_body_def
    by (meson mult_le_mono1 order_trans)
  then show ?thesis by simp
qed

lemma padding_enc:
  "tlv_enc (el_tlv (padding_element [])) = [0x7e, 0]" "tlv_enc (el_tlv (padding_element [1])) = [0x7e, 1, 1]"
  "tlv_enc (el_tlv (padding_element [1, 1])) = [0x7e, 2, 1, 1]" "length p \<le> 2 \<Longrightarrow> el_ok (padding_element p)"
  by (simp_all add: padding_element_def ftlv_zero_def tlv_header_def flag_bits_def tlv_masks)

lemma nested_enc:
  assumes "subList m = Some (padding_element p # md_elements t)" and "md_fits t" and "length p \<le> 2" and "unat (tag (ftlv m)) < 2 ^ 13"
  shows "el_ok m" and "el_payload m = tlv_enc (el_tlv (padding_element p)) @ md_body t" and "length (tlv_enc (el_tlv m)) < 2 ^ 64"
    and "nested (el_tlv m) \<noteq> None"
proof -
  have s: "el_list_ok (md_elements t) \<and> list_enc (el_tlvs (md_elements t)) = md_body t"
    unfolding md_body_def md_elements_def by (rule stored_items_enc) (rule md_items_short [OF assms(2)])
  show ok: "el_ok m" using assms s padding_enc(4) [OF assms(3)] by (cases m) auto
  show pl: "el_payload m = tlv_enc (el_tlv (padding_element p)) @ md_body t"
    using assms(1) s by (cases m) (simp add: el_payload_def)
  have "length (tlv_enc (el_tlv (padding_element p))) \<le> 6"
    using assms(3) HDR_LEN_pos(2) [of "0x1e" "length p"] by (simp add: padding_element_def)
  then show "length (tlv_enc (el_tlv m)) < 2 ^ 64"
    using md_body_length [OF assms(2)] HDR_LEN_pos(2) [of "tag (ftlv m)" "length (el_payload m)"] by (simp add: tlv_enc_el pl)
  show "nested (el_tlv m) \<noteq> None" using assms(1) by (cases m) simp
qed

lemma serializePayload_eq:
  assumes "md_fits t"
  shows "KSI_MetaData_serializePayload t n = (if n < length (md_enc t) then Fault else Ok (md_enc t))"
proof -
  let ?m0 = "with_subList (Some [padding_element []]) KSI_MetaDataElement_new"
  have m0: "KSI_TlvElement_appendElement KSI_MetaDataElement_new (padding_element []) = Inr ?m0"
    by (simp add: KSI_TlvElement_appendElement_def convertToNested_def KSI_MetaDataElement_new_def KSI_TlvElement_new_def parseSub.simps)
  have tg: "unat (tag (ftlv ?m0)) < 2 ^ 13" by (simp add: KSI_MetaDataElement_new_def)
  obtain m where m: "metaData_fields t ?m0 = Ok m" "subList m = Some (padding_element [] # md_elements t)" "tag (ftlv m) = tag (ftlv ?m0)"
    using metaData_fields_elements [of ?m0 "[]" t] assms by auto
  have "length ([] :: bytes) \<le> 2" "unat (tag (ftlv m)) < 2 ^ 13" using tg by (simp_all add: m(3))
  note e = nested_enc [OF m(2) assms this]
  have len: "even (elementLen m False) = even (length (md_body t))"
    using element_len(1) [OF e(1,3)] by (simp add: elementLen_def e(2) padding_enc)
  let ?p = "if elementLen m False mod 2 = 0 then [0x01, 0x01] else [0x01] :: bytes"
  let ?m = "with_subList (Some (padding_element ?p # md_elements t)) m"
  have m': "subList ?m = Some (padding_element ?p # md_elements t)" "length ?p \<le> 2" "unat (tag (ftlv ?m)) < 2 ^ 13"
    using tg by (simp_all add: m(3))
  note e' = nested_enc [OF m'(1) assms m'(2,3)]
  have pad: "tlv_enc (el_tlv (padding_element ?p)) = padding_bytes (md_body t)"
    using len by (simp only: padding_bytes_def even_iff_mod_2_eq_zero) (simp add: padding_enc)
  have "writeElement ?m n False = (if n < length (md_enc t) then Fault else Ok (md_enc t))"
    unfolding element_write(1) [OF e'(1,3)] write_outcome_def if_not_P [OF e'(4)] e'(2) pad md_enc_def
    by (simp add: Let_def)
  with m m0 show ?thesis by (simp add: KSI_MetaData_serializePayload_def Let_def)
qed


text \<open>Serialized metadata: into a buffer that is long enough \<^verbatim>\<open>KSI_MetaData_serializePayload\<close> writes a padding
  element and the encodings of the fields that are set.  The result has an even length, and as it starts
  with the padding element no hash imprint has the same bytes: the first byte is not the identifier of a
  hash algorithm.  A buffer that is too short is overrun.\<close>

theorem metadata_payload:
  assumes "md_fits t"
  shows "KSI_MetaData_serializePayload t n = (if n < length (md_enc t) then Fault else Ok (md_enc t))
     \<and> even (length (md_enc t))
     \<and> KSI_DataHash_fromImprint (md_enc t) = Inl KSI_UNAVAILABLE_HASH_ALGORITHM"
proof (intro conjI)
  show "KSI_MetaData_serializePayload t n = (if n < length (md_enc t) then Fault else Ok (md_enc t))"
    by (rule serializePayload_eq [OF assms])
  show "even (length (md_enc t))" by (simp add: md_enc_def padding_bytes_def)
  have "\<exists>b r. md_enc t = 0x7e # b # r" by (simp add: md_enc_def padding_bytes_def)
  then show "KSI_DataHash_fromImprint (md_enc t) = Inl KSI_UNAVAILABLE_HASH_ALGORITHM"
    by (auto simp: KSI_DataHash_fromImprint_def KSI_DataHash_fromDigest_def ksi_isHashAlgorithmIdValid_def KSI_NUMBER_OF_KNOWN_HASHALGS_def)
qed

theorem metadata_payload_witness:
  "KSI_MetaData_serializePayload (KSI_MetaData_new\<lparr>md_clientId := Some [0x41, 0]\<rparr>) 10 = Ok [0x7e, 2, 1, 1, 1, 2, 0x41, 0]"
proof -
  let ?t = "KSI_MetaData_new\<lparr>md_clientId := Some [0x41, 0]\<rparr>"
  have "md_enc ?t = [0x7e, 2, 1, 1, 1, 2, 0x41, 0]" by code_simp
  then show ?thesis using metadata_payload [of ?t 10] by (simp add: KSI_MetaData_new_def md_fits_def)
qed

definition parsed_element :: "u32 \<Rightarrow> bool \<Rightarrow> bool \<Rightarrow> bytes \<Rightarrow> KSI_TlvElement" where
  "parsed_element tg nc fwd bs = KSI_TlvElement
     \<lparr>off = 0, hdr_len = HDR_LEN tg (length bs), dat_len = length bs, tag = tg, is_nc = nc, is_fwd = fwd\<rparr> bs False None"

lemma parse_encoded:
  assumes "unat tg < 2 ^ 13" and "length bs \<le> 0xffff"
  shows "KSI_TlvElement_parse (Some (tlv_header tg nc fwd (length bs) @ bs @ r)) = Inr (parsed_element tg nc fwd bs)"
  using assms by (simp add: KSI_TlvElement_parse_def KSI_FTLV_memRead_def parse_tlv_header ftlv_zero_def parsed_element_def)

lemma parseSub_encoded:
  assumes "unat tg < 2 ^ 13" and "length bs \<le> 0xffff"
  shows "parseSub (tlv_header tg nc fwd (length bs) @ bs @ r) = rbind (parseSub r) (\<lambda>es. Inr (parsed_element tg nc fwd bs # es))"
proof -
  have "tlv_header tg nc fwd (length bs) @ bs @ r \<noteq> []"
    using HDR_LEN_pos(1) [of tg "length bs"] by (auto simp flip: length_0_conv)
  then show ?thesis
    by (subst parseSub.simps) (simp add: parse_encoded [OF assms] del: append_is_Nil_conv, simp add: parsed_element_def)
qed

lemma getPayload_parsed: "length bs \<le> 0xffff \<Longrightarrow> getPayload (parsed_element tg nc fwd bs) = Ok bs"
  by (simp add: getPayload_def parsed_element_def Let_def)


lemma parseSub_items:
  assumes "\<And>tg bs. (tg, bs) \<in> set its \<Longrightarrow> length bs \<le> 0xffff \<and> unat tg < 2 ^ 13"
  shows "parseSub (concat (map (\<lambda>(tg, bs). tlv_header tg False False (length bs) @ bs) its)) =
     Inr (map (\<lambda>(tg, bs). parsed_element tg False False bs) its)"
  using assms
proof (induction its)
  case (Cons a its)
  obtain tg bs where a: "a = (tg, bs)" by (cases a)
  then have "length bs \<le> 0xffff" "unat tg < 2 ^ 13" using Cons.prems [of tg bs] by auto
  moreover have "parseSub (concat (map (\<lambda>(tg, bs). tlv_header tg False False (length bs) @ bs) its)) =
      Inr (map (\<lambda>(tg, bs). parsed_element tg False False bs) its)" by (rule Cons.IH) (rule Cons.prems, simp)
  ultimately show ?case by (simp add: a parseSub_encoded)
qed (simp add: parseSub.simps)

text \<open>What the getters find in a metadata element that has the serialized payload.\<close>

definition md_value :: "KSI_MetaData \<Rightarrow> u32 \<Rightarrow> bytes option" where
  "md_value t tg = map_of (md_items t) tg"

lemma filter_items:
  "filter (\<lambda>el. tag (ftlv el) = tg) (map (\<lambda>(tg, bs). parsed_element tg False False bs) (md_items t)) =
     (case md_value t tg of None \<Rightarrow> [] | Some bs \<Rightarrow> [parsed_element tg False False bs])"
  by (cases "md_clientId t"; cases "md_machineId t"; cases "md_sequenceNr t"; cases "md_reqTimeInMicros t")
     (auto simp: md_items_def md_value_def parsed_element_def)

definition md_parsed :: "KSI_MetaData \<Rightarrow> KSI_TlvElement list" where
  "md_parsed t = parsed_element 0x1e True True (if even (length (md_body t)) then [1, 1] else [1])
     # map (\<lambda>(tg, bs). parsed_element tg False False bs) (md_items t)"

lemma md_enc_header:
  "md_enc t = tlv_header 0x1e True True (length (if even (length (md_body t)) then [1, 1] else [1 :: byte]))
     @ (if even (length (md_body t)) then [1, 1] else [1]) @ md_body t"
  by (simp add: md_enc_def padding_bytes_def tlv_header_def flag_bits_def tlv_masks)

lemma md_convert:
  assumes "md_fits t" and "length (md_enc t) \<le> 0xffff"
  shows "convertToNested (stored_element 4 (md_enc t)) = Inr (with_subList (Some (md_parsed t)) (stored_element 4 (md_enc t)))"
proof -
  have "parseSub (md_body t) = Inr (map (\<lambda>(tg, bs). parsed_element tg False False bs) (md_items t))"
    unfolding md_body_def by (rule parseSub_items) (rule md_items_short [OF assms(1)])
  then have "parseSub (md_enc t) = Inr (md_parsed t)"
    unfolding md_enc_header by (subst parseSub_encoded) (simp_all add: md_parsed_def)
  then show ?thesis using assms(2) by (simp add: convertToNested_def stored_element_def)
qed

lemma md_parsed_enc:
  assumes "md_fits t"
  shows "el_list_ok (md_parsed t) \<and> list_enc (el_tlvs (md_parsed t)) = md_enc t"
proof -
  have "el_list_ok (map (\<lambda>(tg, bs). parsed_element tg False False bs) its)
      \<and> list_enc (el_tlvs (map (\<lambda>(tg, bs). parsed_element tg False False bs) its)) = concat (map (\<lambda>(tg, bs). tlv_header tg False False (length bs) @ bs) its)"
    if "\<And>tg bs. (tg, bs) \<in> set its \<Longrightarrow> unat tg < 2 ^ 13" for its
    using that
  proof (induction its)
    case (Cons a its)
    obtain tg bs where a: "a = (tg, bs)" by (cases a)
    then have "unat tg < 2 ^ 13" using Cons.prems [of tg bs] by auto
    with Cons show ?case by (auto simp: a parsed_element_def)
  qed simp
  from this [of "md_items t"] show ?thesis
    using md_items_short [OF assms] unfolding md_enc_header by (simp add: md_parsed_def md_body_def) (simp add: parsed_element_def)
qed

lemma md_element_get:
  assumes "md_fits t" and "length (md_enc t) \<le> 0xffff" and "tg \<noteq> 0x1e"
  shows "KSI_TlvElement_getElement (stored_element 4 (md_enc t)) tg =
      Inr (map_option (parsed_element tg False False) (md_value t tg), with_subList (Some (md_parsed t)) (stored_element 4 (md_enc t)))"
proof -
  have "filter_tags [tg] (md_parsed t) = (case md_value t tg of None \<Rightarrow> [] | Some bs \<Rightarrow> [parsed_element tg False False bs])"
    using assms(3) by (simp add: filter_tags_single filter_items md_parsed_def) (simp add: parsed_element_def)
  then show ?thesis
    by (cases "md_value t tg") (simp_all add: KSI_TlvElement_getElement_def md_convert [OF assms(1,2)])
qed

lemma md_value_short: "md_fits t \<Longrightarrow> md_value t tg = Some bs \<Longrightarrow> length bs \<le> 0xffff"
  using md_items_short [of t tg bs] by (auto simp: md_value_def dest: map_of_SomeD)

lemma md_value_fields:
  "md_value t 1 = md_clientId t" "md_value t 2 = md_machineId t"
  "md_value t 3 = map_option (\<lambda>v. encodeInt v []) (md_sequenceNr t)"
  "md_value t 4 = map_option (\<lambda>v. encodeInt v []) (md_reqTimeInMicros t)"
  by (auto simp: md_value_def md_items_def split: option.splits)

text \<open>Metadata that a link may carry: the client identifier is set, both identifiers are strings
  \<^verbatim>\<open>KSI_Utf8String_new\<close> accepts, and the serialized form fits the payload of a TLV.\<close>

definition md_valid :: "KSI_MetaData \<Rightarrow> bool" where
  "md_valid t \<longleftrightarrow> md_fits t \<and> length (md_enc t) \<le> 0xffff \<and> md_clientId t \<noteq> None
     \<and> pred_option (\<lambda>s. KSI_Utf8String_new (Some s) (length s) = Inr s) (md_clientId t)
     \<and> pred_option (\<lambda>s. KSI_Utf8String_new (Some s) (length s) = Inr s) (md_machineId t)"

lemma md_get_string:
  assumes "md_fits t" and "length (md_enc t) \<le> 0xffff" and "tg \<noteq> 0x1e" and "md_value t tg = x"
    and "pred_option (\<lambda>s. KSI_Utf8String_new (Some s) (length s) = Inr s) x"
  shows "map_run fst (KSI_TlvElement_getUtf8String (stored_element 4 (md_enc t)) tg) = Ok x"
  using assms(5) md_value_short [OF assms(1), of tg]
  by (cases x) (simp_all add: KSI_TlvElement_getUtf8String_def get_decoded_def md_element_get [OF assms(1-3)] assms(4) getPayload_parsed)

lemma md_get_integer:
  assumes "md_fits t" and "length (md_enc t) \<le> 0xffff" and "tg \<noteq> 0x1e" and "md_value t tg = map_option (\<lambda>v. encodeInt v []) x"
  shows "map_run fst (KSI_TlvElement_getInteger (stored_element 4 (md_enc t)) tg) = Ok x"
proof (cases x)
  case (Some v)
  have "getPayload (parsed_element tg False False (encodeInt v [])) = Ok (encodeInt v [])"
    using encodeInt_short [of v] by (simp add: getPayload_parsed)
  with Some show ?thesis using encodeInt_short [of v]
    by (simp add: KSI_TlvElement_getInteger_def get_decoded_def md_element_get [OF assms(1-3)] assms(4) decode_encodeInt)
       (simp add: parsed_element_def)
qed (simp add: KSI_TlvElement_getInteger_def get_decoded_def md_element_get [OF assms(1-3)] assms(4))

lemma md_toTlv:
  assumes "md_valid t"
  shows "\<exists>b. KSI_MetaDataElement_toTlv (stored_element 4 (md_enc t)) = Ok (KSI_TLV False False 4 b None (md_enc t) 0)"
proof -
  have a: "md_fits t" "length (md_enc t) \<le> 0xffff" "md_value t 1 \<noteq> None"
    using assms by (auto simp: md_valid_def md_value_fields)
  let ?m = "with_subList (Some (md_parsed t)) (stored_element 4 (md_enc t))"
  have m: "el_ok ?m" "el_payload ?m = md_enc t" "nested (el_tlv ?m) \<noteq> None"
    using md_parsed_enc [OF a(1)] by (simp_all add: stored_element_def el_payload_def) (auto simp: md_parsed_def)
  then have l: "length (tlv_enc (el_tlv ?m)) < 2 ^ 64"
    using a(2) HDR_LEN_pos(2) [of "tag (ftlv ?m)" "length (md_enc t)"] by (simp add: tlv_enc_el m(2))
  have "writeElement ?m (0xffff + 4) False = Ok (md_enc t)"
    unfolding element_write(1) [OF m(1) l] write_outcome_def if_not_P [OF m(3)] m(2) using a(2) by simp
  moreover obtain b where "KSI_TLV_setRawValue (KSI_TLV_new 4 False False) (Some (md_enc t)) = Inr (KSI_TLV False False 4 b None (md_enc t) 0)"
    using setRawValue_new [OF a(2)] by blast
  ultimately show ?thesis
    using a(3) md_element_get [OF a(1,2), of 1] by (auto simp: KSI_MetaDataElement_toTlv_def)
qed

text \<open>C39. Metadata put into a hash chain: for metadata with a client identifier and at most \<open>0xffff\<close> bytes,
  \<^verbatim>\<open>KSI_MetaData_toMetaDataElement\<close> yields an element whose bytes, as a hash chain link contributes them, are
  the serialized metadata, whose TLV carries the same bytes, and from which the getters read back the
  fields that were set.\<close>

theorem metadata_element_roundtrip:
  assumes "md_valid t"
  shows "\<exists>m. KSI_MetaData_toMetaDataElement t = Ok m
     \<and> linkImprint (KSI_HashChainLink_new\<lparr>metaData := Some m\<rparr>) = Ok (Some (md_enc t))
     \<and> (\<exists>b. KSI_MetaDataElement_toTlv m = Ok (KSI_TLV False False 4 b None (md_enc t) 0))
     \<and> map_run fst (KSI_TlvElement_getUtf8String m 1) = Ok (md_clientId t)
     \<and> map_run fst (KSI_TlvElement_getUtf8String m 2) = Ok (md_machineId t)
     \<and> map_run fst (KSI_TlvElement_getInteger m 3) = Ok (md_sequenceNr t)
     \<and> map_run fst (KSI_TlvElement_getInteger m 4) = Ok (md_reqTimeInMicros t)"
proof -
  let ?m = "stored_element 4 (md_enc t)"
  have a: "md_fits t" "length (md_enc t) \<le> 0xffff" using assms by (auto simp: md_valid_def)
  have "length (md_enc t) < 2 ^ 63" using a(2) by simp
  from detach_raw [OF _ this, of 4] have "KSI_MetaData_toMetaDataElement t = Ok ?m"
    using a(2) by (simp add: KSI_MetaData_toMetaDataElement_def serializePayload_eq [OF a(1)])
  moreover have "linkImprint (KSI_HashChainLink_new\<lparr>metaData := Some ?m\<rparr>) = Ok (Some (md_enc t))"
    using a(2) getPayload_stored [of 4 "md_enc t"] by (simp add: linkImprint_def KSI_HashChainLink_new_def getPayload_def)
  moreover have "map_run fst (KSI_TlvElement_getUtf8String ?m 1) = Ok (md_clientId t)"
       "map_run fst (KSI_TlvElement_getUtf8String ?m 2) = Ok (md_machineId t)"
    using md_get_string [OF a _ md_value_fields(1)] md_get_string [OF a _ md_value_fields(2)] assms by (simp_all add: md_valid_def)
  moreover have "map_run fst (KSI_TlvElement_getInteger ?m 3) = Ok (md_sequenceNr t)"
       "map_run fst (KSI_TlvElement_getInteger ?m 4) = Ok (md_reqTimeInMicros t)"
    using md_get_integer [OF a _ md_value_fields(3)] md_get_integer [OF a _ md_value_fields(4)] by simp_all
  ultimately show ?thesis using md_toTlv [OF assms] by blast
qed

theorem metadata_element_roundtrip_witness:
  "\<exists>m. KSI_MetaData_toMetaDataElement (KSI_MetaData_new\<lparr>md_clientId := Some [0x41, 0], md_sequenceNr := Some 7\<rparr>) = Ok m
     \<and> linkImprint (KSI_HashChainLink_new\<lparr>metaData := Some m\<rparr>) = Ok (Some [0x7e, 1, 1, 1, 2, 0x41, 0, 3, 1, 7])
     \<and> map_run fst (KSI_TlvElement_getInteger m 3) = Ok (Some 7)"
proof -
  let ?t = "KSI_MetaData_new\<lparr>md_clientId := Some [0x41, 0], md_sequenceNr := Some 7\<rparr>"
  have e: "md_enc ?t = [0x7e, 1, 1, 1, 2, 0x41, 0, 3, 1, 7]" by code_simp
  have "md_valid ?t" unfolding md_valid_def e
    by (simp add: KSI_MetaData_new_def md_fits_def Utf8String_new_iff utf8_text_Cons charContinuationLen_def)
  from metadata_element_roundtrip [OF this] show ?thesis unfolding e by (auto simp: KSI_MetaData_new_def)
qed

end
