(* ===== verification/TreeBuilder.thy ===== *)
theory TreeBuilder
  imports MetaData
begin

text \<open>
  The local aggregation tree of \<^verbatim>\<open>src/src/ksi/tree_builder.c\<close>.  Leaves are added one by one; the builder keeps
  a stack with at most one complete subtree per level, joins two subtrees of the same level at once, and
  joins the remaining ones when it is closed.  Every leaf can then be asked for the hash chain from it to
  the root.

  Tree nodes live in a memory (a list that only grows) and refer to each other by their positions in it,
  as the code refers to them by address.  A call that frees a node twice has the outcome \<open>Fault\<close>; a call
  that fails otherwise leaves the nodes as they were: the nodes it has made are not reachable any more.
  The state a failed call leaves in the hasher is not kept either, since every use of the hasher starts
  with a reset.
\<close>

section \<open>State\<close>

record KSI_TreeNode =
  tn_hash :: "KSI_DataHash option"
  tn_metaData :: "KSI_MetaData option"
  tn_level :: nat
  parent :: "nat option"
  leftChild :: "nat option"
  rightChild :: "nat option"

record tree_mem =
  nodes :: "KSI_TreeNode list"
  hsr :: KSI_DataHasher

text \<open>A leaf processor gets the memory, a node and the state its context points at; it returns that state
  and either an error or the node it has made, if any.\<close>

record 'c KSI_TreeBuilderLeafProcessor =
  proc_fn :: "(tree_mem \<Rightarrow> nat \<Rightarrow> 'c \<Rightarrow> 'c \<times> (nat option \<times> tree_mem) ksi_result) option"
  levelOverhead :: nat

record 'c KSI_TreeBuilder =
  rootNode :: "nat option"
  tb_algo :: int
  stack :: "nat option list"
  cbList :: "'c KSI_TreeBuilderLeafProcessor list"
  mem :: tree_mem
  maxTreeLevel :: int
  cbState :: 'c

definition KSI_TREE_BUILDER_STACK_LEN :: nat where
  "KSI_TREE_BUILDER_STACK_LEN = 0x100"

definition KSI_IS_VALID_TREE_LEVEL :: "int \<Rightarrow> bool" where
  "KSI_IS_VALID_TREE_LEVEL l \<longleftrightarrow> l \<le> 0xff \<and> l \<ge> 0"

section \<open>Nodes\<close>

definition KSI_TreeNode_new :: "KSI_DataHash option \<Rightarrow> KSI_MetaData option \<Rightarrow> int \<Rightarrow> KSI_TreeNode ksi_result" where
  "KSI_TreeNode_new hash md l =
     (if hash = None \<and> md = None \<or> hash \<noteq> None \<and> md \<noteq> None \<or> \<not> KSI_IS_VALID_TREE_LEVEL l then Inl KSI_INVALID_ARGUMENT
      else Inr \<lparr>tn_hash = hash, tn_metaData = md, tn_level = nat l, parent = None, leftChild = None, rightChild = None\<rparr>)"

text \<open>A new node comes to stand behind all others.\<close>

definition alloc :: "KSI_TreeNode \<Rightarrow> tree_mem \<Rightarrow> nat \<times> tree_mem" where
  "alloc n m = (length (nodes m), m\<lparr>nodes := nodes m @ [n]\<rparr>)"

definition KSI_DataHasher_addTreeNode :: "KSI_DataHasher \<Rightarrow> KSI_TreeNode \<Rightarrow> KSI_DataHasher run" where
  "KSI_DataHasher_addTreeNode h n =
     (case tn_hash n of
        Some im \<Rightarrow> run_of (KSI_DataHasher_addImprint (Some h) (Some im))
      | None \<Rightarrow>
          (case tn_metaData n of
             Some md \<Rightarrow>
               run_bind (KSI_MetaData_serializePayload md (0xffff + 4)) (\<lambda>buf.
                 run_of (KSI_DataHasher_add (Some h) (Some buf)))
           | None \<Rightarrow> Ok h))"

definition joinHashes ::
    "(int \<Rightarrow> bytes \<Rightarrow> bytes) \<Rightarrow> KSI_DataHasher \<Rightarrow> KSI_TreeNode \<Rightarrow> KSI_TreeNode \<Rightarrow> int \<Rightarrow> (KSI_DataHash \<times> KSI_DataHasher) run" where
  "joinHashes D h left right l =
     (if \<not> KSI_IS_VALID_TREE_LEVEL l then Err KSI_INVALID_ARGUMENT
      else
        run_bind (run_of (KSI_DataHasher_reset (Some h))) (\<lambda>h.
        run_bind (KSI_DataHasher_addTreeNode h left) (\<lambda>h.
        run_bind (KSI_DataHasher_addTreeNode h right) (\<lambda>h.
        run_bind (run_of (KSI_DataHasher_add (Some h) (Some [of_int l]))) (\<lambda>h.
          run_of (KSI_DataHasher_close D (Some h)))))))"

definition set_parent :: "nat \<Rightarrow> nat \<Rightarrow> KSI_TreeNode list \<Rightarrow> KSI_TreeNode list" where
  "set_parent p i ns = ns[i := (ns ! i)\<lparr>parent := Some p\<rparr>]"

text \<open>Joining two nodes: the new node, and the memory in which both have it as parent.\<close>

definition KSI_TreeNode_join :: "(int \<Rightarrow> bytes \<Rightarrow> bytes) \<Rightarrow> tree_mem \<Rightarrow> nat \<Rightarrow> nat \<Rightarrow> (nat \<times> tree_mem) run" where
  "KSI_TreeNode_join D m l r =
     (let ln = nodes m ! l; rn = nodes m ! r in
      if \<not> KSI_IS_VALID_TREE_LEVEL (int (tn_level ln)) \<or> \<not> KSI_IS_VALID_TREE_LEVEL (int (tn_level rn)) then Err KSI_INVALID_STATE
      else
        let lvl = int (if tn_level ln > tn_level rn then tn_level ln else tn_level rn) + 1 in
        if \<not> KSI_IS_VALID_TREE_LEVEL lvl then Err KSI_UNKNOWN_ERROR
        else
          run_bind (joinHashes D (hsr m) ln rn lvl) (\<lambda>(hsh, h).
          run_bind (run_of (KSI_TreeNode_new (Some hsh) None lvl)) (\<lambda>n.
            let (tmp, m) = alloc (n\<lparr>leftChild := Some l, rightChild := Some r\<rparr>) (m\<lparr>hsr := h\<rparr>) in
            Ok (tmp, m\<lparr>nodes := set_parent tmp r (set_parent tmp l (nodes m))\<rparr>))))"

section \<open>The builder\<close>

definition KSI_TreeBuilder_new :: "int \<Rightarrow> 'c \<Rightarrow> 'c KSI_TreeBuilder ksi_result" where
  "KSI_TreeBuilder_new algo c =
     (if \<not> KSI_isHashAlgorithmSupported algo then Inl KSI_UNAVAILABLE_HASH_ALGORITHM
      else rbind (KSI_DataHasher_open algo) (\<lambda>h.
        Inr \<lparr>rootNode = None, tb_algo = algo, stack = replicate KSI_TREE_BUILDER_STACK_LEN None, cbList = [],
             mem = \<lparr>nodes = [], hsr = h\<rparr>, maxTreeLevel = 0, cbState = c\<rparr>))"

lemma nth_set_parent:
  "set_parent p i ns ! k = (if k = i \<and> i < length ns then (ns ! k)\<lparr>parent := Some p\<rparr> else ns ! k)"
  by (auto simp: set_parent_def list_update_beyond)

lemma length_set_parent [simp]: "length (set_parent p i ns) = length ns"
  by (simp add: set_parent_def)

lemma set_parent_simps [simp]:
  "tn_hash (set_parent p i ns ! k) = tn_hash (ns ! k)" "tn_metaData (set_parent p i ns ! k) = tn_metaData (ns ! k)"
  "tn_level (set_parent p i ns ! k) = tn_level (ns ! k)" "leftChild (set_parent p i ns ! k) = leftChild (ns ! k)"
  "rightChild (set_parent p i ns ! k) = rightChild (ns ! k)"
  "i < length ns \<Longrightarrow> parent (set_parent p i ns ! k) = (if k = i then Some p else parent (ns ! k))"
  by (simp_all add: nth_set_parent)

lemma join_outcome:
  assumes "KSI_TreeNode_join D m l r = Ok (t, m')"
  shows "t = length (nodes m)" and "length (nodes m') = Suc (length (nodes m))"
    and "tn_level (nodes m' ! t) = Suc (max (tn_level (nodes m ! l)) (tn_level (nodes m ! r)))"
    and "tn_level (nodes m ! r) < 255"
  using assms
  by (auto simp: KSI_TreeNode_join_def Let_def alloc_def run_bind_eq_Ok run_of_eq_Ok KSI_TreeNode_new_def KSI_IS_VALID_TREE_LEVEL_def
      nth_append split: if_splits)

text \<open>\<^verbatim>\<open>insertNode\<close>.  When the recursive call fails, the joined node is freed together with its children, which
  are the node the caller still owns and frees as well, and the one that was taken off the stack.\<close>

function insertNode :: "(int \<Rightarrow> bytes \<Rightarrow> bytes) \<Rightarrow> 'c KSI_TreeBuilder \<Rightarrow> nat \<Rightarrow> 'c KSI_TreeBuilder run" where
  "insertNode D b node =
     (let lvl = tn_level (nodes (mem b) ! node) in
      if \<not> KSI_IS_VALID_TREE_LEVEL (int lvl) then Err KSI_INVALID_STATE
      else
        (case stack b ! lvl of
           None \<Rightarrow> Ok (b\<lparr>stack := (stack b)[lvl := Some node]\<rparr>)
         | Some pSlot \<Rightarrow>
             (case KSI_TreeNode_join D (mem b) pSlot node of
                Fault \<Rightarrow> Fault
              | Err e \<Rightarrow> Err e
              | Ok (root, m) \<Rightarrow>
                  (case insertNode D (b\<lparr>mem := m, stack := (stack b)[lvl := None]\<rparr>) root of
                     Ok b \<Rightarrow> Ok b
                   | _ \<Rightarrow> Fault))))"
  by pat_completeness auto
termination
  by (relation "measure (\<lambda>(D, b, node). 256 - tn_level (nodes (mem b) ! node))") (auto, frule join_outcome(3), drule join_outcome(4), simp)

declare insertNode.simps [simp del]

text \<open>The leaf processors in turn, each on the node the previous one has left.\<close>

fun processNode ::
    "(int \<Rightarrow> bytes \<Rightarrow> bytes) \<Rightarrow> 'c KSI_TreeBuilderLeafProcessor list \<Rightarrow> tree_mem \<Rightarrow> nat \<Rightarrow> 'c \<Rightarrow> 'c \<times> (nat \<times> tree_mem) run" where
  "processNode D [] m node c = (c, Ok (node, m))"
| "processNode D (cb # cbs) m node c =
     (case proc_fn cb of
        None \<Rightarrow> (c, Err KSI_INVALID_STATE)
      | Some f \<Rightarrow>
          (case f m node c of
             (c, Inl e) \<Rightarrow> (c, Err e)
           | (c, Inr (None, m)) \<Rightarrow> processNode D cbs m node c
           | (c, Inr (Some tmp, m)) \<Rightarrow>
               (case KSI_TreeNode_join D m node tmp of
                  Fault \<Rightarrow> (c, Fault)
                | Err e \<Rightarrow> (c, Err e)
                | Ok (localRoot, m) \<Rightarrow> processNode D cbs m localRoot c)))"

definition processAndInsertNode ::
    "(int \<Rightarrow> bytes \<Rightarrow> bytes) \<Rightarrow> 'c KSI_TreeBuilder \<Rightarrow> tree_mem \<Rightarrow> nat \<Rightarrow> 'c \<times> 'c KSI_TreeBuilder run" where
  "processAndInsertNode D b m node =
     (let (c, r) = processNode D (cbList b) m node (cbState b) in
      (c, run_bind r (\<lambda>(root, m). insertNode D (b\<lparr>mem := m, cbState := c\<rparr>) root)))"

text \<open>The level is an \<^verbatim>\<open>unsigned short\<close>.\<close>

fun levelWithOverhead :: "'c KSI_TreeBuilderLeafProcessor list \<Rightarrow> nat \<Rightarrow> nat ksi_result" where
  "levelWithOverhead [] l = Inr l"
| "levelWithOverhead (cb # cbs) l =
     (let l = (l + levelOverhead cb) mod 2 ^ 16 in
      check (\<not> KSI_IS_VALID_TREE_LEVEL (int l)) KSI_INVALID_STATE (levelWithOverhead cbs l))"

fun highestLoop :: "nat option list \<Rightarrow> nat \<Rightarrow> nat \<Rightarrow> nat \<Rightarrow> nat \<Rightarrow> nat" where
  "highestLoop [] i l height carry = height"
| "highestLoop (slot # slots) i l height carry =
     (if i < l then highestLoop slots (Suc i) l height (if slot \<noteq> None then 1 else carry)
      else
        let (height, carry) = (if i = l then (l + carry, carry + 1) else (height, carry)) in
        if slot \<noteq> None then highestLoop slots (Suc i) l (i + carry) carry
        else highestLoop slots (Suc i) l height 1)"

definition calculateHighestLevel :: "'c KSI_TreeBuilder \<Rightarrow> nat \<Rightarrow> nat" where
  "calculateHighestLevel b l = highestLoop (stack b) 0 l 0 0"

text \<open>\<^verbatim>\<open>addLeaf\<close>: the builder afterwards, and the new leaf.  A failed call keeps what the leaf processors did to
  the state of their contexts.\<close>

definition addLeaf_height :: "'c KSI_TreeBuilder \<Rightarrow> int \<Rightarrow> unit ksi_result" where
  "addLeaf_height b l =
     (if maxTreeLevel b > 0 then
        check (l > maxTreeLevel b) KSI_BUFFER_OVERFLOW
          (rbind (levelWithOverhead (cbList b) (nat l)) (\<lambda>actualInputHeight.
             check (int (calculateHighestLevel b actualInputHeight) > maxTreeLevel b) KSI_BUFFER_OVERFLOW (Inr ())))
      else Inr ())"

definition addLeaf ::
    "(int \<Rightarrow> bytes \<Rightarrow> bytes) \<Rightarrow> 'c KSI_TreeBuilder \<Rightarrow> KSI_DataHash option \<Rightarrow> KSI_MetaData option \<Rightarrow> int
       \<Rightarrow> 'c KSI_TreeBuilder \<times> nat run" where
  "addLeaf D b hsh md l =
     (if hsh = None \<and> md = None \<or> hsh \<noteq> None \<and> md \<noteq> None \<or> \<not> KSI_IS_VALID_TREE_LEVEL l then (b, Err KSI_INVALID_ARGUMENT)
      else
        (case addLeaf_height b l of
           Inl e \<Rightarrow> (b, Err e)
         | Inr _ \<Rightarrow>
             if rootNode b \<noteq> None then (b, Err KSI_INVALID_STATE)
             else
               (case KSI_TreeNode_new hsh md l of
                  Inl e \<Rightarrow> (b, Err e)
                | Inr n \<Rightarrow>
                    let (node, m) = alloc n (mem b) in
                    (case processAndInsertNode D b m node of
                       (c, Ok b') \<Rightarrow> (b', Ok node)
                     | (c, Err e) \<Rightarrow> (b\<lparr>cbState := c\<rparr>, Err e)
                     | (c, Fault) \<Rightarrow> (b\<lparr>cbState := c\<rparr>, Fault)))))"

definition KSI_TreeBuilder_addDataHash ::
    "(int \<Rightarrow> bytes \<Rightarrow> bytes) \<Rightarrow> 'c KSI_TreeBuilder \<Rightarrow> KSI_DataHash option \<Rightarrow> int \<Rightarrow> 'c KSI_TreeBuilder \<times> nat run" where
  "KSI_TreeBuilder_addDataHash D b hsh l = addLeaf D b hsh None l"

definition KSI_TreeBuilder_addMetaData ::
    "(int \<Rightarrow> bytes \<Rightarrow> bytes) \<Rightarrow> 'c KSI_TreeBuilder \<Rightarrow> KSI_MetaData option \<Rightarrow> int \<Rightarrow> 'c KSI_TreeBuilder \<times> nat run" where
  "KSI_TreeBuilder_addMetaData D b md l = addLeaf D b None md l"

text \<open>The loop of \<^verbatim>\<open>KSI_TreeBuilder_close\<close>: the stack it leaves, the memory, and the root it has reached.\<close>

fun closeLoop ::
    "(int \<Rightarrow> bytes \<Rightarrow> bytes) \<Rightarrow> nat option list \<Rightarrow> nat option \<Rightarrow> tree_mem \<Rightarrow> nat option list \<times> tree_mem \<times> nat option run" where
  "closeLoop D [] root m = ([], m, Ok root)"
| "closeLoop D (None # slots) root m = (let (s, m, r) = closeLoop D slots root m in (None # s, m, r))"
| "closeLoop D (Some node # slots) None m = (let (s, m, r) = closeLoop D slots (Some node) m in (None # s, m, r))"
| "closeLoop D (Some node # slots) (Some root) m =
     (case KSI_TreeNode_join D m node root of
        Fault \<Rightarrow> (None # slots, m, Fault)
      | Err e \<Rightarrow> (None # slots, m, Err e)
      | Ok (tmp, m) \<Rightarrow> (let (s, m, r) = closeLoop D slots (Some tmp) m in (None # s, m, r)))"

definition KSI_TreeBuilder_close :: "(int \<Rightarrow> bytes \<Rightarrow> bytes) \<Rightarrow> 'c KSI_TreeBuilder \<Rightarrow> 'c KSI_TreeBuilder \<times> unit run" where
  "KSI_TreeBuilder_close D b =
     (if rootNode b \<noteq> None then (b, Err KSI_INVALID_STATE)
      else
        let (s, m, r) = closeLoop D (stack b) None (mem b);
            b = b\<lparr>stack := s, mem := m\<rparr> in
        (case r of
           Fault \<Rightarrow> (b, Fault)
         | Err e \<Rightarrow> (b, Err e)
         | Ok None \<Rightarrow> (b, Err KSI_INVALID_STATE)
         | Ok (Some root) \<Rightarrow> (b\<lparr>rootNode := Some root\<rparr>, Ok ())))"

section \<open>Hash chains of the leaves\<close>

text \<open>The link from a node to its parent.\<close>

definition nodeLink :: "KSI_TreeNode list \<Rightarrow> nat \<Rightarrow> nat \<Rightarrow> KSI_HashChainLink run" where
  "nodeLink ns node p =
     (let n = ns ! node; pn = ns ! p in
      if leftChild pn \<noteq> Some node \<and> rightChild pn \<noteq> Some node then Err KSI_INVALID_STATE
      else
        let isL = (leftChild pn = Some node) in
        (case (if isL then rightChild pn else leftChild pn) of
           None \<Rightarrow> Err KSI_INVALID_STATE
         | Some s \<Rightarrow>
             let sib = ns ! s in
             if tn_hash sib = None \<and> tn_metaData sib = None \<or> tn_hash sib \<noteq> None \<and> tn_metaData sib \<noteq> None then Err KSI_INVALID_STATE
             else
               run_bind (case tn_metaData sib of None \<Rightarrow> Ok None
                         | Some md \<Rightarrow> run_bind (KSI_MetaData_toMetaDataElement md) (\<lambda>el. Ok (Some el))) (\<lambda>mdEl.
                 if tn_level pn \<le> tn_level n then Err KSI_INVALID_STATE
                 else
                   let levelGap = tn_level pn - tn_level n - 1 in
                   Ok (KSI_HashChainLink_new\<lparr>isLeft := isL, imprint := tn_hash sib, metaData := mdEl,
                         levelCorrection := (if levelGap > 0 then Some (of_nat levelGap) else None)\<rparr>))))"

text \<open>The recursion to the root.  \<open>fuel\<close> bounds the number of nodes on the way; a way that does not end is a
  \<open>Fault\<close>.\<close>

fun getHashChainLinks :: "nat \<Rightarrow> KSI_TreeNode list \<Rightarrow> nat \<Rightarrow> KSI_HashChainLink list run" where
  "getHashChainLinks 0 ns node = Fault"
| "getHashChainLinks (Suc fuel) ns node =
     (case parent (ns ! node) of
        None \<Rightarrow> Ok []
      | Some p \<Rightarrow>
          run_bind (nodeLink ns node p) (\<lambda>link.
          run_bind (getHashChainLinks fuel ns p) (\<lambda>links. Ok (link # links))))"

definition KSI_TreeLeafHandle_getAggregationChain :: "'c KSI_TreeBuilder \<Rightarrow> nat \<Rightarrow> KSI_AggregationHashChain run" where
  "KSI_TreeLeafHandle_getAggregationChain b leafNode =
     run_bind (getHashChainLinks (Suc (length (nodes (mem b)))) (nodes (mem b)) leafNode) (\<lambda>links.
       Ok (KSI_AggregationHashChain_new\<lparr>chain := Some links, inputHash := tn_hash (nodes (mem b) ! leafNode),
             aggrHashId := Some (of_int (tb_algo b))\<rparr>))"


section \<open>Joining nodes\<close>

text \<open>A node holds a hash or metadata that fits a TLV; these are the bytes it contributes to its parent.\<close>

definition node_ok :: "KSI_TreeNode \<Rightarrow> bool" where
  "node_ok n \<longleftrightarrow> (tn_hash n = None) \<noteq> (tn_metaData n = None) \<and> tn_level n \<le> 255
     \<and> pred_option (\<lambda>md. md_fits md \<and> length (md_enc md) \<le> 0xffff) (tn_metaData n)"

definition node_bytes :: "KSI_TreeNode \<Rightarrow> bytes" where
  "node_bytes n = (case tn_hash n of Some h \<Rightarrow> h | None \<Rightarrow> md_enc (the (tn_metaData n)))"

lemma addTreeNode_ok:
  assumes "node_ok n" and "isOpen h"
  shows "KSI_DataHasher_addTreeNode h n = Ok (h\<lparr>fed := fed h @ node_bytes n\<rparr>)"
proof (cases "tn_hash n")
  case None
  then obtain md where "tn_metaData n = Some md" "md_fits md" "length (md_enc md) \<le> 0xffff"
    using assms(1) by (auto simp: node_ok_def)
  with None assms(2) show ?thesis
    by (simp add: KSI_DataHasher_addTreeNode_def serializePayload_eq KSI_DataHasher_add_def node_bytes_def)
qed (use assms(2) in \<open>simp add: KSI_DataHasher_addTreeNode_def KSI_DataHasher_addImprint_def KSI_DataHash_getImprint_def
       KSI_DataHasher_add_def node_bytes_def\<close>)

definition join_level :: "KSI_TreeNode list \<Rightarrow> nat \<Rightarrow> nat \<Rightarrow> nat" where
  "join_level ns l r = Suc (max (tn_level (ns ! l)) (tn_level (ns ! r)))"

definition join_msg :: "KSI_TreeNode list \<Rightarrow> nat \<Rightarrow> nat \<Rightarrow> bytes" where
  "join_msg ns l r = node_bytes (ns ! l) @ node_bytes (ns ! r) @ [of_nat (join_level ns l r)]"

definition joined :: "(int \<Rightarrow> bytes \<Rightarrow> bytes) \<Rightarrow> int \<Rightarrow> KSI_TreeNode list \<Rightarrow> nat \<Rightarrow> nat \<Rightarrow> KSI_TreeNode list" where
  "joined D a ns l r =
     (let t = length ns in
      set_parent t r (set_parent t l (ns @ [\<lparr>tn_hash = Some (imprint_of D a (join_msg ns l r)), tn_metaData = None,
         tn_level = join_level ns l r, parent = None, leftChild = Some l, rightChild = Some r\<rparr>])))"

text \<open>A hasher of a supported algorithm.\<close>

definition mem_algo :: "int \<Rightarrow> tree_mem \<Rightarrow> bool" where
  "mem_algo a m \<longleftrightarrow> algorithm (hsr m) = a \<and> KSI_isHashAlgorithmSupported a"

lemma join_eq:
  assumes "digest_ok D" and "mem_algo a m" and "node_ok (nodes m ! l)" and "node_ok (nodes m ! r)"
  shows "join_level (nodes m) l r \<le> 255 \<Longrightarrow>
      \<exists>m'. KSI_TreeNode_join D m l r = Ok (length (nodes m), m') \<and> nodes m' = joined D a (nodes m) l r \<and> mem_algo a m'"
    and "join_level (nodes m) l r > 255 \<Longrightarrow> KSI_TreeNode_join D m l r = Err KSI_UNKNOWN_ERROR"
proof -
  let ?ln = "nodes m ! l" and ?rn = "nodes m ! r"
  have v: "KSI_IS_VALID_TREE_LEVEL (int (tn_level ?ln))" "KSI_IS_VALID_TREE_LEVEL (int (tn_level ?rn))"
    using assms(3,4) by (auto simp: node_ok_def KSI_IS_VALID_TREE_LEVEL_def)
  have lvl: "int (if tn_level ?ln > tn_level ?rn then tn_level ?ln else tn_level ?rn) + 1 = int (join_level (nodes m) l r)"
    by (simp add: join_level_def)
  show "KSI_TreeNode_join D m l r = Err KSI_UNKNOWN_ERROR" if "join_level (nodes m) l r > 255"
    using that v unfolding KSI_TreeNode_join_def Let_def lvl by (simp add: KSI_IS_VALID_TREE_LEVEL_def)
  assume le: "join_level (nodes m) l r \<le> 255"
  then have "joinHashes D (hsr m) ?ln ?rn (int (join_level (nodes m) l r)) =
      Ok (imprint_of D a (join_msg (nodes m) l r), \<lparr>algorithm = a, isOpen = False, fed = join_msg (nodes m) l r\<rparr>)"
    using assms
    by (cases "hsr m") (simp add: joinHashes_def KSI_DataHasher_reset_def addTreeNode_ok KSI_DataHasher_add_def KSI_DataHasher_close_def
        closeExisting_ok mem_algo_def join_msg_def imprint_of_def KSI_IS_VALID_TREE_LEVEL_def)
  then show "\<exists>m'. KSI_TreeNode_join D m l r = Ok (length (nodes m), m') \<and> nodes m' = joined D a (nodes m) l r \<and> mem_algo a m'"
    using v le assms(2) unfolding KSI_TreeNode_join_def Let_def lvl
    by (simp add: KSI_IS_VALID_TREE_LEVEL_def KSI_TreeNode_new_def alloc_def joined_def Let_def mem_algo_def)
qed

section \<open>The memory\<close>

definition roots :: "KSI_TreeNode list \<Rightarrow> nat set" where
  "roots ns = {i. i < length ns \<and> parent (ns ! i) = None}"

text \<open>A node and its parent: the parent is younger, one level above the higher of its two children, and has
  the hash of both.\<close>

definition edge_ok :: "(int \<Rightarrow> bytes \<Rightarrow> bytes) \<Rightarrow> int \<Rightarrow> KSI_TreeNode list \<Rightarrow> nat \<Rightarrow> nat \<Rightarrow> bool" where
  "edge_ok D a ns i p \<longleftrightarrow> p < length ns \<and> i < p
     \<and> (\<exists>l r. leftChild (ns ! p) = Some l \<and> rightChild (ns ! p) = Some r \<and> l \<noteq> r \<and> (i = l \<or> i = r)
          \<and> l < p \<and> r < p \<and> tn_hash (ns ! p) = Some (imprint_of D a (join_msg ns l r)) \<and> tn_level (ns ! p) = join_level ns l r)"

definition heap_ok :: "(int \<Rightarrow> bytes \<Rightarrow> bytes) \<Rightarrow> int \<Rightarrow> KSI_TreeNode list \<Rightarrow> bool" where
  "heap_ok D a ns \<longleftrightarrow> (\<forall>i < length ns. node_ok (ns ! i) \<and> (\<forall>p. parent (ns ! i) = Some p \<longrightarrow> edge_ok D a ns i p))"

text \<open>Nodes that are kept: everything but the parent stays.\<close>

definition kept :: "KSI_TreeNode list \<Rightarrow> KSI_TreeNode list \<Rightarrow> bool" where
  "kept ns ns' \<longleftrightarrow> length ns \<le> length ns' \<and> (\<forall>i < length ns. tn_hash (ns' ! i) = tn_hash (ns ! i)
     \<and> tn_metaData (ns' ! i) = tn_metaData (ns ! i) \<and> tn_level (ns' ! i) = tn_level (ns ! i)
     \<and> leftChild (ns' ! i) = leftChild (ns ! i) \<and> rightChild (ns' ! i) = rightChild (ns ! i))"

lemma kept_refl [simp]: "kept ns ns"
  by (simp add: kept_def)

lemma kept_trans: "kept ns ns' \<Longrightarrow> kept ns' ns'' \<Longrightarrow> kept ns ns''"
  by (force simp: kept_def)

lemma kept_node:
  "kept ns ns' \<Longrightarrow> i < length ns \<Longrightarrow> node_bytes (ns' ! i) = node_bytes (ns ! i) \<and> node_ok (ns' ! i) = node_ok (ns ! i)"
  by (cases "tn_hash (ns ! i)") (simp_all add: kept_def node_bytes_def node_ok_def)

lemma kept_join:
  "kept ns ns' \<Longrightarrow> l < length ns \<Longrightarrow> r < length ns \<Longrightarrow> join_level ns' l r = join_level ns l r \<and> join_msg ns' l r = join_msg ns l r"
  by (simp add: join_level_def join_msg_def kept_node) (simp add: kept_def join_level_def)

lemma kept_edge:
  assumes "kept ns ns'" and "edge_ok D a ns i p"
  shows "edge_ok D a ns' i p"
proof -
  obtain l r where e: "p < length ns" "i < p" "leftChild (ns ! p) = Some l" "rightChild (ns ! p) = Some r" "l \<noteq> r" "i = l \<or> i = r"
    "l < p" "r < p" "tn_hash (ns ! p) = Some (imprint_of D a (join_msg ns l r))" "tn_level (ns ! p) = join_level ns l r"
    using assms(2) unfolding edge_ok_def by blast
  then have j: "join_level ns' l r = join_level ns l r" "join_msg ns' l r = join_msg ns l r"
    using kept_join [OF assms(1), of l r] by auto
  have "p < length ns'" "leftChild (ns' ! p) = Some l" "rightChild (ns' ! p) = Some r"
    "tn_hash (ns' ! p) = tn_hash (ns ! p)" "tn_level (ns' ! p) = tn_level (ns ! p)"
    using assms(1) e(1,3,4) by (auto simp: kept_def)
  with e j show ?thesis unfolding edge_ok_def by auto
qed

lemma kept_append: "kept ns (ns @ [n])"
  by (simp add: kept_def nth_append)

lemma kept_joined: "kept ns (joined D a ns l r)"
  by (simp add: kept_def joined_def Let_def nth_append)

lemma heap_ok_append:
  "heap_ok D a ns \<Longrightarrow> node_ok n \<Longrightarrow> parent n = None \<Longrightarrow> heap_ok D a (ns @ [n])"
  using kept_edge [OF kept_append [of ns n]] by (auto simp: heap_ok_def nth_append less_Suc_eq)

lemma roots_append: "parent n = None \<Longrightarrow> roots (ns @ [n]) = insert (length ns) (roots ns)"
  by (auto simp: roots_def nth_append less_Suc_eq)

lemma heap_ok_joined:
  assumes "heap_ok D a ns" and "l \<in> roots ns" and "r \<in> roots ns" and "l \<noteq> r" and "join_level ns l r \<le> 255"
  shows "heap_ok D a (joined D a ns l r)" and "roots (joined D a ns l r) = insert (length ns) (roots ns - {l, r})"
    and "tn_level (joined D a ns l r ! length ns) = join_level ns l r"
    and "tn_hash (joined D a ns l r ! length ns) \<noteq> None"
proof -
  let ?ns = "joined D a ns l r" and ?t = "length ns"
  have lr: "l < ?t" "r < ?t" using assms(2,3) by (auto simp: roots_def)
  have len: "length ?ns = Suc ?t" by (simp add: joined_def Let_def)
  have par: "parent (?ns ! i) = (if i = l \<or> i = r then Some ?t else if i = ?t then None else parent (ns ! i))" if "i < length ?ns" for i
    using that lr by (auto simp: joined_def Let_def nth_append less_Suc_eq)
  have t: "leftChild (?ns ! ?t) = Some l" "rightChild (?ns ! ?t) = Some r" "tn_level (?ns ! ?t) = join_level ns l r"
    "tn_hash (?ns ! ?t) = Some (imprint_of D a (join_msg ns l r))" "tn_metaData (?ns ! ?t) = None"
    by (simp_all add: joined_def Let_def)
  then have new: "edge_ok D a ?ns l ?t" "edge_ok D a ?ns r ?t"
    using lr assms(4) len kept_join [OF kept_joined [of ns D a l r] lr] by (simp_all add: edge_ok_def)
  have "node_ok (?ns ! i) \<and> (\<forall>p. parent (?ns ! i) = Some p \<longrightarrow> edge_ok D a ?ns i p)" if i: "i < length ?ns" for i
  proof (cases "i = ?t")
    case True
    have "node_ok (?ns ! ?t)" using t assms(5) by (simp add: node_ok_def)
    then show ?thesis using True par [OF i] lr by auto
  next
    case False
    then have "i < ?t" using i len by simp
    then have "node_ok (?ns ! i)" "parent (ns ! i) = Some p \<Longrightarrow> edge_ok D a ?ns i p" for p
      using assms(1) kept_node [OF kept_joined] kept_edge [OF kept_joined] by (auto simp: heap_ok_def)
    then show ?thesis using par [OF i] False new by auto
  qed
  then show "heap_ok D a ?ns" by (simp add: heap_ok_def)
  show "roots ?ns = insert (length ns) (roots ns - {l, r})"
    using lr len par by (auto simp: roots_def less_Suc_eq split: if_splits)
  show "tn_level (?ns ! ?t) = join_level ns l r" by (rule t(3))
  show "tn_hash (?ns ! ?t) \<noteq> None" using t(4) by simp
qed


section \<open>The chain from a node to its root\<close>

lemma md_sibling:
  assumes "md_fits md" and "length (md_enc md) \<le> 0xffff"
  shows "KSI_MetaData_toMetaDataElement md = Ok (stored_element 4 (md_enc md))"
    and "writeElement (stored_element 4 (md_enc md)) (0xffff + 4) False = Ok (md_enc md)"
proof -
  have "length (md_enc md) < 2 ^ 63" using assms(2) by simp
  from detach_raw [OF _ this, of 4] show "KSI_MetaData_toMetaDataElement md = Ok (stored_element 4 (md_enc md))"
    using assms(2) by (simp add: KSI_MetaData_toMetaDataElement_def serializePayload_eq [OF assms(1)])
  show "writeElement (stored_element 4 (md_enc md)) (0xffff + 4) False = Ok (md_enc md)"
    using assms(2) getPayload_stored [of 4 "md_enc md"] by (simp add: getPayload_def)
qed

lemma nodeLink_ok:
  assumes "heap_ok D a ns" and "edge_ok D a ns i p"
  shows "\<exists>k. nodeLink ns i p = Ok k \<and> link_wf k \<and> int (tn_level (ns ! i)) + correction k + 1 = int (tn_level (ns ! p))
     \<and> Some (imprint_of D a (node_msg k (node_bytes (ns ! i)) (of_nat (tn_level (ns ! p))))) = tn_hash (ns ! p)"
proof -
  obtain l r where e: "p < length ns" "i < p" "leftChild (ns ! p) = Some l" "rightChild (ns ! p) = Some r" "l \<noteq> r" "i = l \<or> i = r"
    "l < p" "r < p" "tn_hash (ns ! p) = Some (imprint_of D a (join_msg ns l r))" "tn_level (ns ! p) = join_level ns l r"
    using assms(2) unfolding edge_ok_def by blast
  define s where "s = (if i = l then r else l)"
  define sib where "sib = ns ! s"
  have ok: "node_ok sib" "node_ok (ns ! p)" using e assms(1) by (auto simp: heap_ok_def s_def sib_def)
  define md where "md = map_option (\<lambda>md. stored_element 4 (md_enc md)) (tn_metaData sib)"
  define gap where "gap = tn_level (ns ! p) - tn_level (ns ! i) - 1"
  have gap: "tn_level (ns ! p) = tn_level (ns ! i) + gap + 1" "gap \<le> 255"
    using e(6,10) ok(2) by (auto simp: gap_def join_level_def node_ok_def)
  define k where "k = KSI_HashChainLink_new\<lparr>isLeft := (i = l), imprint := tn_hash sib, metaData := md,
      levelCorrection := (if gap > 0 then Some (of_nat gap) else None)\<rparr>"
  have mdrun: "(case tn_metaData sib of None \<Rightarrow> Ok None | Some m \<Rightarrow> run_bind (KSI_MetaData_toMetaDataElement m) (\<lambda>el. Ok (Some el))) = Ok md"
    using ok(1) md_sibling(1) by (cases "tn_metaData sib") (simp_all add: md_def node_ok_def)
  have one: "\<not> (tn_hash sib = None \<and> tn_metaData sib = None \<or> tn_hash sib \<noteq> None \<and> tn_metaData sib \<noteq> None)"
    using ok(1) by (auto simp: node_ok_def)
  have child: "\<not> (leftChild (ns ! p) \<noteq> Some i \<and> rightChild (ns ! p) \<noteq> Some i)" "(leftChild (ns ! p) = Some i) = (i = l)"
    "(if i = l then rightChild (ns ! p) else leftChild (ns ! p)) = Some s" using e(3-6) by (auto simp: s_def)
  have lt: "\<not> tn_level (ns ! p) \<le> tn_level (ns ! i)" using gap(1) by simp
  have n: "nodeLink ns i p = Ok k"
    unfolding nodeLink_def Let_def if_not_P [OF child(1)] child(2,3) option.case(2) sib_def [symmetric] if_not_P [OF one] mdrun
      run_bind_simps if_not_P [OF lt] gap_def [symmetric] k_def using e(4,6) by auto
  have si: "sibling k = Some (node_bytes sib)"
  proof (cases "tn_hash sib")
    case None
    then obtain m where "tn_metaData sib = Some m" "md_fits m" "length (md_enc m) \<le> 0xffff"
      using ok(1) by (auto simp: node_ok_def)
    with None md_sibling(2) [of m] show ?thesis
      by (simp add: sibling_Some linkImprint_def k_def KSI_HashChainLink_new_def md_def node_bytes_def)
  next
    case (Some h)
    then show ?thesis using ok(1)
      by (simp add: sibling_Some linkImprint_def k_def KSI_HashChainLink_new_def md_def node_bytes_def node_ok_def KSI_DataHash_getImprint_def)
  qed
  have c: "correction k = int gap"
    using gap(2) by (simp add: correction_def k_def KSI_Integer_getUInt64_def unsigned_of_nat take_bit_eq_mod)
  have "node_msg k (node_bytes (ns ! i)) (of_nat (tn_level (ns ! p))) = join_msg ns l r"
    using e(5,6,10) si by (auto simp: node_msg_def join_msg_def k_def sib_def s_def)
  with n si c gap e(9) show ?thesis by (auto simp: link_wf_def)
qed

text \<open>Every node's chain exists and aggregates to the node at the top of its tree.\<close>

lemma chain_of_node:
  assumes "heap_ok D a ns" and "i < length ns" and "length ns - i \<le> fuel"
  shows "\<exists>ks r. getHashChainLinks fuel ns i = Ok ks \<and> r \<in> roots ns \<and> list_all link_wf ks
     \<and> chain_root D a ks (int (tn_level (ns ! i))) (node_bytes (ns ! i)) = (int (tn_level (ns ! r)), node_bytes (ns ! r))
     \<and> (ks = [] \<longleftrightarrow> r = i) \<and> (ks \<noteq> [] \<longrightarrow> tn_hash (ns ! r) \<noteq> None)"
  using assms(2,3)
proof (induction fuel arbitrary: i)
  case (Suc fuel)
  show ?case
  proof (cases "parent (ns ! i)")
    case None
    then show ?thesis using Suc.prems(1) by (auto simp: roots_def)
  next
    case (Some p)
    then have e: "edge_ok D a ns i p" using assms(1) Suc.prems(1) by (auto simp: heap_ok_def)
    then have p: "p < length ns" "i < p" by (auto simp: edge_ok_def)
    then have fuel: "length ns - p \<le> fuel" using Suc.prems(2) by linarith
    obtain k where k: "nodeLink ns i p = Ok k" "link_wf k" "int (tn_level (ns ! i)) + correction k + 1 = int (tn_level (ns ! p))"
      "Some (imprint_of D a (node_msg k (node_bytes (ns ! i)) (of_nat (tn_level (ns ! p))))) = tn_hash (ns ! p)"
      using nodeLink_ok [OF assms(1) e] by blast
    have nb: "node_bytes (ns ! p) = imprint_of D a (node_msg k (node_bytes (ns ! i)) (of_nat (tn_level (ns ! p))))"
      using k(4) [symmetric] by (simp add: node_bytes_def)
    obtain ks r where ks: "getHashChainLinks fuel ns p = Ok ks" "r \<in> roots ns" "list_all link_wf ks"
      "chain_root D a ks (int (tn_level (ns ! p))) (node_bytes (ns ! p)) = (int (tn_level (ns ! r)), node_bytes (ns ! r))"
      "ks = [] \<longleftrightarrow> r = p" "ks \<noteq> [] \<longrightarrow> tn_hash (ns ! r) \<noteq> None"
      using Suc.IH [OF p(1)] fuel by blast
    have "r \<noteq> i" using ks(2) Some by (auto simp: roots_def)
    moreover have "tn_hash (ns ! r) \<noteq> None" using ks(5,6) k(4) by (cases "ks = []") (auto simp: eq_commute [of "Some _"])
    ultimately show ?thesis using ks k Some nb by (auto simp: Let_def)
  qed
qed simp


section \<open>The stack as a binary counter\<close>

text \<open>The number of leaves of level 0 that would fill the subtrees on the stack.\<close>

fun weight_from :: "nat \<Rightarrow> nat option list \<Rightarrow> nat" where
  "weight_from i [] = 0"
| "weight_from i (x # s) = (if x \<noteq> None then 2 ^ i else 0) + weight_from (Suc i) s"

abbreviation weight :: "nat option list \<Rightarrow> nat" where
  "weight s \<equiv> weight_from 0 s"

lemma weight_from_set: "k < length s \<Longrightarrow> s ! k = None \<Longrightarrow> weight_from i (s[k := Some x]) = weight_from i s + 2 ^ (i + k)"
  by (induction s arbitrary: i k) (auto simp: nth_Cons split: nat.splits)

lemma weight_from_clear: "k < length s \<Longrightarrow> s ! k \<noteq> None \<Longrightarrow> weight_from i (s[k := None]) + 2 ^ (i + k) = weight_from i s"
proof (induction s arbitrary: i k)
  case (Cons x s)
  show ?case
  proof (cases k)
    case (Suc j)
    with Cons.IH [of j "Suc i"] Cons.prems show ?thesis by simp
  qed (use Cons.prems in auto)
qed simp

lemmas weight_set = weight_from_set [where i = 0, simplified]
lemmas weight_clear = weight_from_clear [where i = 0, simplified]

lemma weight_from_less: "weight_from i s + 2 ^ i \<le> 2 ^ (i + length s)"
proof (induction s arbitrary: i)
  case (Cons x s)
  have "weight_from i (x # s) + 2 ^ i \<le> weight_from (Suc i) s + 2 ^ Suc i" by simp
  also have "\<dots> \<le> 2 ^ (i + length (x # s))" using Cons [of "Suc i"] by simp
  finally show ?case .
qed simp

lemma weight_less: "weight s < 2 ^ length s"
  using weight_from_less [of 0 s] by simp

section \<open>The height of a tree\<close>

text \<open>The height of a tree with \<open>w\<close> leaves of level 0: the least one that has room for them.\<close>

definition tree_height :: "nat \<Rightarrow> nat \<Rightarrow> bool" where
  "tree_height w h \<longleftrightarrow> w \<le> 2 ^ h \<and> (\<forall>j < h. 2 ^ j < w)"

lemma tree_height_unique: "tree_height w h \<Longrightarrow> tree_height w h' \<Longrightarrow> h = h'"
  unfolding tree_height_def by (metis leD linorder_neqE_nat)

lemma tree_height_mono: "tree_height w h \<Longrightarrow> tree_height w' h' \<Longrightarrow> w \<le> w' \<Longrightarrow> h \<le> h'"
  unfolding tree_height_def by (metis leI le_trans leD)

lemma tree_height_power [simp]: "tree_height (2 ^ i) i"
  by (simp add: tree_height_def)

lemma tree_height_above: "0 < w \<Longrightarrow> w \<le> 2 ^ i \<Longrightarrow> tree_height (w + 2 ^ i) (Suc i)"
  unfolding tree_height_def
proof (intro conjI allI impI)
  fix j assume w: "0 < w" and "j < Suc i"
  then have "(2 :: nat) ^ j \<le> 2 ^ i" by (intro power_increasing) auto
  then show "2 ^ j < w + 2 ^ i" using w by linarith
qed simp

lemma highestLoop_broken:
  "l < i \<Longrightarrow> 0 < w \<Longrightarrow> w \<le> 2 ^ i \<Longrightarrow> tree_height w h \<Longrightarrow> tree_height (w + weight_from i s) (highestLoop s i l h 1)"
proof (induction s arbitrary: i w h)
  case (Cons x s)
  show ?case
  proof (cases x)
    case None
    with Cons show ?thesis by simp
  next
    case (Some n)
    have "tree_height (w + 2 ^ i + weight_from (Suc i) s) (highestLoop s (Suc i) l (Suc i) 1)"
      by (rule Cons.IH) (use Cons.prems tree_height_above in auto)
    with Some Cons.prems(1) show ?thesis by (simp add: add.assoc)
  qed
qed simp

lemma highestLoop_chain:
  "l < i \<Longrightarrow> w < 2 ^ i \<Longrightarrow> c = (if w > 0 then 1 else 0) \<Longrightarrow>
   tree_height (w + 2 ^ i + weight_from i s) (highestLoop s i l (i + c) (c + 1))"
proof (induction s arbitrary: i)
  case Nil
  then show ?case using tree_height_above [of w i] by auto
next
  case (Cons x s)
  show ?case
  proof (cases x)
    case None
    have "tree_height (w + 2 ^ i + weight_from (Suc i) s) (highestLoop s (Suc i) l (i + c) 1)"
      by (rule highestLoop_broken) (use Cons.prems tree_height_above [of w i] in auto)
    with None Cons.prems(1) show ?thesis by simp
  next
    case (Some n)
    have "tree_height (w + 2 ^ Suc i + weight_from (Suc i) s) (highestLoop s (Suc i) l (Suc i + c) (c + 1))"
      by (rule Cons.IH) (use Cons.prems in auto)
    with Some Cons.prems(1) show ?thesis by (simp add: mult_2 add.assoc add.commute [of i])
  qed
qed

lemma highestLoop_height:
  "i \<le> l \<Longrightarrow> l < i + length s \<Longrightarrow> w < 2 ^ i \<Longrightarrow> c = (if w > 0 then 1 else 0) \<Longrightarrow>
   tree_height (w + 2 ^ l + weight_from i s) (highestLoop s i l h c)"
proof (induction s arbitrary: i w h c)
  case (Cons x s)
  show ?case
  proof (cases "i = l")
    case True
    show ?thesis
    proof (cases x)
      case None
      have "tree_height (w + 2 ^ i + weight_from (Suc i) s) (highestLoop s (Suc i) l (l + c) 1)"
        by (rule highestLoop_broken) (use Cons.prems True tree_height_above [of w i] in auto)
      with None True show ?thesis by simp
    next
      case (Some n)
      have "tree_height (w + 2 ^ Suc l + weight_from (Suc l) s) (highestLoop s (Suc l) l (Suc l + c) (c + 1))"
        by (rule highestLoop_chain) (use Cons.prems True in auto)
      with Some True show ?thesis by (simp add: mult_2 add.assoc)
    qed
  next
    case False
    let ?w = "w + (if x \<noteq> None then 2 ^ i else 0)" and ?c = "if x \<noteq> None then 1 else c"
    have "tree_height (?w + 2 ^ l + weight_from (Suc i) s) (highestLoop s (Suc i) l h ?c)"
      by (rule Cons.IH) (use Cons.prems False in auto)
    with False Cons.prems(1) show ?thesis by (simp add: add.assoc add.left_commute)
  qed
qed simp

section \<open>The invariant of an open builder\<close>

definition stacked :: "nat option list \<Rightarrow> nat set" where
  "stacked s = {i. Some i \<in> set s}"

text \<open>The trees in memory are those on the stack, each in the slot of its level, and \<open>P\<close>, those about to be
  inserted.\<close>

definition tb_inv :: "(int \<Rightarrow> bytes \<Rightarrow> bytes) \<Rightarrow> 'c KSI_TreeBuilder \<Rightarrow> nat set \<Rightarrow> bool" where
  "tb_inv D b P \<longleftrightarrow> length (stack b) = 256 \<and> mem_algo (tb_algo b) (mem b) \<and> heap_ok D (tb_algo b) (nodes (mem b))
     \<and> (\<forall>k i. k < 256 \<and> stack b ! k = Some i \<longrightarrow> tn_level (nodes (mem b) ! i) = k)
     \<and> roots (nodes (mem b)) = stacked (stack b) \<union> P \<and> stacked (stack b) \<inter> P = {}"

lemma stacked_nth: "i \<in> stacked s \<longleftrightarrow> (\<exists>k < length s. s ! k = Some i)"
  by (auto simp: stacked_def in_set_conv_nth)

lemma stacked_set:
  assumes "k < length s" and "s ! k = None"
  shows "stacked (s[k := Some x]) = insert x (stacked s)"
proof -
  have "i \<in> stacked (s[k := Some x]) \<longleftrightarrow> i = x \<or> i \<in> stacked s" for i
    unfolding stacked_nth length_list_update using assms by (metis nth_list_update option.distinct(1) option.inject)
  then show ?thesis by blast
qed

lemma stacked_clear:
  assumes "k < length s" and "s ! k = Some x" and "\<And>j. j < length s \<Longrightarrow> s ! j = Some x \<Longrightarrow> j = k"
  shows "stacked (s[k := None]) = stacked s - {x}"
proof -
  have "i \<in> stacked (s[k := None]) \<longleftrightarrow> i \<in> stacked s \<and> i \<noteq> x" for i
    unfolding stacked_nth length_list_update
    using assms by (metis nth_list_update option.distinct(1) option.inject)
  then show ?thesis by blast
qed

lemma tb_inv_level:
  assumes "tb_inv D b P" and "i \<in> roots (nodes (mem b))"
  shows "tn_level (nodes (mem b) ! i) < 256" and "node_ok (nodes (mem b) ! i)"
proof -
  have "heap_ok D (tb_algo b) (nodes (mem b))" using assms(1) by (simp add: tb_inv_def)
  moreover have "i < length (nodes (mem b))" using assms(2) by (simp add: roots_def)
  ultimately show "node_ok (nodes (mem b) ! i)" by (simp add: heap_ok_def)
  then show "tn_level (nodes (mem b) ! i) < 256" by (simp add: node_ok_def)
qed

lemma tb_inv_put:
  assumes "tb_inv D b {node}" and "k = tn_level (nodes (mem b) ! node)" and "stack b ! k = None"
  shows "tb_inv D (b\<lparr>stack := (stack b)[k := Some node]\<rparr>) {}"
proof -
  have "node \<in> roots (nodes (mem b))" using assms(1) by (simp add: tb_inv_def)
  then have k: "k < 256" using tb_inv_level(1) [OF assms(1)] assms(2) by simp
  have st: "stacked ((stack b)[k := Some node]) = insert node (stacked (stack b))"
    using assms(1,3) k by (intro stacked_set) (simp_all add: tb_inv_def)
  have lv: "tn_level (nodes (mem b) ! i) = j" if "j < 256" "(stack b)[k := Some node] ! j = Some i" for i j
    using that assms(1,2) k by (cases "j = k") (simp_all add: tb_inv_def)
  show ?thesis using assms(1) st lv by (simp add: tb_inv_def)
qed

text \<open>Two nodes of one level are replaced by the node that joins them.\<close>

lemma tb_inv_join:
  assumes "digest_ok D" and "tb_inv D b {node}" and "k = tn_level (nodes (mem b) ! node)" and "stack b ! k = Some s" and "k < 255"
  shows "\<exists>m. KSI_TreeNode_join D (mem b) s node = Ok (length (nodes (mem b)), m)
     \<and> tb_inv D (b\<lparr>mem := m, stack := (stack b)[k := None]\<rparr>) {length (nodes (mem b))}
     \<and> tn_level (nodes m ! length (nodes (mem b))) = Suc k \<and> kept (nodes (mem b)) (nodes m)"
proof -
  let ?ns = "nodes (mem b)"
  have st: "length (stack b) = 256" using assms(2) by (simp add: tb_inv_def)
  have s: "s \<in> stacked (stack b)" unfolding stacked_nth using assms(4,5) st by (intro exI [of _ k]) simp
  then have r: "s \<in> roots ?ns" "node \<in> roots ?ns" "s \<noteq> node" using assms(2) by (auto simp: tb_inv_def)
  have "tn_level (?ns ! s) = k" using assms(2,4,5) by (simp add: tb_inv_def)
  then have lvl: "join_level ?ns s node = Suc k" using assms(3) by (simp add: join_level_def)
  have ok: "node_ok (?ns ! s)" "node_ok (?ns ! node)" "mem_algo (tb_algo b) (mem b)" "heap_ok D (tb_algo b) ?ns"
    using assms(2) tb_inv_level(2) [OF assms(2)] r by (simp_all add: tb_inv_def)
  have le: "join_level ?ns s node \<le> 255" using lvl assms(5) by simp
  from join_eq(1) [OF assms(1) ok(3,1,2) le] obtain m where m: "KSI_TreeNode_join D (mem b) s node = Ok (length ?ns, m)"
      "nodes m = joined D (tb_algo b) ?ns s node" "mem_algo (tb_algo b) m" by blast
  note h = heap_ok_joined [OF ok(4) r le]
  have kept: "kept ?ns (nodes m)" unfolding m(2) by (rule kept_joined)
  have cl: "stacked ((stack b)[k := None]) = stacked (stack b) - {s}"
    by (rule stacked_clear) (use assms(2,4,5) st \<open>tn_level (?ns ! s) = k\<close> in \<open>auto simp: tb_inv_def\<close>)
  have lv: "tn_level (nodes m ! i) = j" if "j < 256" "(stack b)[k := None] ! j = Some i" for i j
  proof -
    have j: "stack b ! j = Some i" using that st by (cases "j = k") auto
    then have "i \<in> stacked (stack b)" unfolding stacked_nth using that(1) st by auto
    then have "i < length ?ns" using assms(2) by (auto simp: tb_inv_def roots_def)
    then show ?thesis using kept j that(1) assms(2) by (simp add: kept_def tb_inv_def)
  qed
  have "stacked (stack b) \<subseteq> {..<length ?ns}" using assms(2) by (auto simp: tb_inv_def roots_def)
  then have "tb_inv D (b\<lparr>mem := m, stack := (stack b)[k := None]\<rparr>) {length ?ns}"
    using assms(2) m(3) h(1,2) lv cl by (auto simp: tb_inv_def m(2))
  with m h(3) lvl kept show ?thesis by (auto simp: m(2))
qed


section \<open>Inserting and closing\<close>

text \<open>What insertion leaves alone.\<close>

definition same_settings :: "'c KSI_TreeBuilder \<Rightarrow> 'c KSI_TreeBuilder \<Rightarrow> bool" where
  "same_settings b b' \<longleftrightarrow> rootNode b' = rootNode b \<and> tb_algo b' = tb_algo b \<and> cbList b' = cbList b
     \<and> maxTreeLevel b' = maxTreeLevel b \<and> cbState b' = cbState b"

lemma insertNode_cases:
  assumes "digest_ok D" and "tb_inv D b {node}"
  shows "(weight (stack b) + 2 ^ tn_level (nodes (mem b) ! node) < 2 ^ 256 \<longrightarrow>
           (\<exists>b'. insertNode D b node = Ok b' \<and> tb_inv D b' {}
             \<and> weight (stack b') = weight (stack b) + 2 ^ tn_level (nodes (mem b) ! node)
             \<and> kept (nodes (mem b)) (nodes (mem b')) \<and> same_settings b b'))
     \<and> (2 ^ 256 \<le> weight (stack b) + 2 ^ tn_level (nodes (mem b) ! node) \<longrightarrow>
           insertNode D b node = (if tn_level (nodes (mem b) ! node) = 255 then Err KSI_UNKNOWN_ERROR else Fault))"
  using assms(2)
proof (induction "256 - tn_level (nodes (mem b) ! node)" arbitrary: b node rule: less_induct)
  case less
  let ?k = "tn_level (nodes (mem b) ! node)"
  have r: "node \<in> roots (nodes (mem b))" and len: "length (stack b) = 256" using less.prems by (simp_all add: tb_inv_def)
  have k: "?k < 256" by (rule tb_inv_level(1) [OF less.prems r])
  then have v: "KSI_IS_VALID_TREE_LEVEL (int ?k)" by (simp add: KSI_IS_VALID_TREE_LEVEL_def)
  have ?case if n: "stack b ! ?k = None"
  proof -
    have w: "weight ((stack b)[?k := Some node]) = weight (stack b) + 2 ^ ?k" using n k len by (simp add: weight_set)
    then have "weight (stack b) + 2 ^ ?k < 2 ^ 256" using weight_less [of "(stack b)[?k := Some node]"] len by simp
    moreover have "insertNode D b node = Ok (b\<lparr>stack := (stack b)[?k := Some node]\<rparr>)"
      using v n by (subst insertNode.simps) (simp add: Let_def)
    ultimately show ?thesis using tb_inv_put [OF less.prems refl n] w by (simp add: same_settings_def)
  qed
  moreover have ?case if s: "stack b ! ?k = Some s" and top: "?k = 255" for s
  proof -
    have "weight (stack b) + 2 ^ ?k \<ge> 2 ^ 256"
      using weight_clear [of ?k "stack b"] s k len top by simp
    moreover have "KSI_TreeNode_join D (mem b) s node = Err KSI_UNKNOWN_ERROR"
    proof (rule join_eq(2) [OF assms(1)])
      show "mem_algo (tb_algo b) (mem b)" using less.prems by (simp add: tb_inv_def)
      have "s \<in> roots (nodes (mem b))" using less.prems s k len by (auto simp: tb_inv_def stacked_nth)
      then show "node_ok (nodes (mem b) ! s)" by (rule tb_inv_level(2) [OF less.prems])
      show "node_ok (nodes (mem b) ! node)" by (rule tb_inv_level(2) [OF less.prems r])
      show "join_level (nodes (mem b)) s node > 255" using top by (simp add: join_level_def)
    qed
    then have "insertNode D b node = Err KSI_UNKNOWN_ERROR"
      using v s by (subst insertNode.simps) (simp add: Let_def)
    ultimately show ?thesis using top by simp
  qed
  moreover have ?case if s: "stack b ! ?k = Some s" and low: "?k < 255" for s
  proof -
    let ?t = "length (nodes (mem b))"
    obtain m where m: "KSI_TreeNode_join D (mem b) s node = Ok (?t, m)"
        "tb_inv D (b\<lparr>mem := m, stack := (stack b)[?k := None]\<rparr>) {?t}" "tn_level (nodes m ! ?t) = Suc ?k" "kept (nodes (mem b)) (nodes m)"
      using tb_inv_join [OF assms(1) less.prems refl s low] by blast
    let ?b = "b\<lparr>mem := m, stack := (stack b)[?k := None]\<rparr>"
    have w: "weight (stack ?b) + 2 ^ tn_level (nodes (mem ?b) ! ?t) = weight (stack b) + 2 ^ ?k"
      using weight_clear [of ?k "stack b"] s k len by (simp add: m(3))
    have dec: "256 - tn_level (nodes (mem ?b) ! ?t) < 256 - ?k" using m(3) k by simp
    have i: "insertNode D b node = (case insertNode D ?b ?t of Ok b \<Rightarrow> Ok b | _ \<Rightarrow> Fault)"
      using v s m(1) by (subst insertNode.simps) (simp add: Let_def)
    note IH = less.hyps [OF dec m(2), unfolded w]
    show ?thesis
    proof (intro conjI impI)
      assume lt: "weight (stack b) + 2 ^ ?k < 2 ^ 256"
      from IH [THEN conjunct1, rule_format, OF this] obtain b' where b': "insertNode D ?b ?t = Ok b'" "tb_inv D b' {}"
          "weight (stack b') = weight (stack b) + 2 ^ ?k" "kept (nodes m) (nodes (mem b'))" "same_settings ?b b'" by auto
      then have "insertNode D b node = Ok b'" "kept (nodes (mem b)) (nodes (mem b'))" "same_settings b b'"
        using i kept_trans [OF m(4)] by (auto simp: same_settings_def)
      with b' show "\<exists>b'. insertNode D b node = Ok b' \<and> tb_inv D b' {} \<and> weight (stack b') = weight (stack b) + 2 ^ ?k
           \<and> kept (nodes (mem b)) (nodes (mem b')) \<and> same_settings b b'" by blast
    next
      assume "2 ^ 256 \<le> weight (stack b) + 2 ^ ?k"
      from IH [THEN conjunct2, rule_format, OF this] show "insertNode D b node = (if ?k = 255 then Err KSI_UNKNOWN_ERROR else Fault)"
        using i low by (simp split: if_splits)
    qed
  qed
  ultimately show ?case using k by (cases "stack b ! ?k"; cases "?k = 255") auto
qed

lemmas insertNode_outcome = insertNode_cases [THEN conjunct1, rule_format] insertNode_cases [THEN conjunct2, rule_format]


text \<open>The state of the loop in \<^verbatim>\<open>KSI_TreeBuilder_close\<close> at slot \<open>i\<close>: the subtrees that remain, the tree made of
  those before, and their weight.\<close>

definition close_inv ::
    "(int \<Rightarrow> bytes \<Rightarrow> bytes) \<Rightarrow> int \<Rightarrow> nat \<Rightarrow> nat option list \<Rightarrow> nat option \<Rightarrow> tree_mem \<Rightarrow> nat \<Rightarrow> bool" where
  "close_inv D a i s root m w \<longleftrightarrow> mem_algo a m \<and> heap_ok D a (nodes m)
     \<and> (\<forall>k n. k < length s \<and> s ! k = Some n \<longrightarrow> tn_level (nodes m ! n) = i + k)
     \<and> roots (nodes m) = stacked s \<union> set_option root \<and> stacked s \<inter> set_option root = {}
     \<and> (case root of None \<Rightarrow> w = 0 | Some r \<Rightarrow> tree_height w (tn_level (nodes m ! r)) \<and> 0 < w \<and> w \<le> 2 ^ i)"

lemma stacked_Cons [simp]: "stacked (None # s) = stacked s" "stacked (Some n # s) = insert n (stacked s)" "stacked [] = {}"
  by (auto simp: stacked_def)

lemma close_inv_skip: "close_inv D a i (None # s) root m w \<Longrightarrow> close_inv D a (Suc i) s root m w"
  by (cases root) (fastforce simp: close_inv_def)+

lemma close_inv_first:
  assumes "close_inv D a i (Some n # s) None m w"
  shows "close_inv D a (Suc i) s (Some n) m (2 ^ i)"
proof -
  have a: "\<And>k j. k < Suc (length s) \<and> (Some n # s) ! k = Some j \<Longrightarrow> tn_level (nodes m ! j) = i + k"
    using assms by (simp add: close_inv_def)
  have n: "tn_level (nodes m ! n) = i" using a [of 0 n] by simp
  have "n \<notin> stacked s"
  proof
    assume "n \<in> stacked s"
    then obtain k where "k < length s" "s ! k = Some n" by (auto simp: stacked_nth)
    then show False using a [of "Suc k" n] n by simp
  qed
  moreover have "tn_level (nodes m ! j) = Suc i + k" if "k < length s \<and> s ! k = Some j" for j k
    using a [of "Suc k" j] that by simp
  ultimately show ?thesis using assms n by (auto simp: close_inv_def)
qed

lemma close_inv_join:
  assumes "digest_ok D" and "close_inv D a i (Some n # s) (Some r) m w" and "i < 255"
  shows "\<exists>m'. KSI_TreeNode_join D m n r = Ok (length (nodes m), m') \<and> kept (nodes m) (nodes m')
     \<and> close_inv D a (Suc i) s (Some (length (nodes m))) m' (w + 2 ^ i)"
proof -
  let ?ns = "nodes m"
  have h: "mem_algo a m" "heap_ok D a ?ns" and rt: "roots ?ns = insert r (insert n (stacked s))" and nr: "n \<noteq> r" "r \<notin> stacked s"
    and w: "tree_height w (tn_level (?ns ! r))" "0 < w" "w \<le> 2 ^ i"
    and a: "\<And>k j. k < Suc (length s) \<and> (Some n # s) ! k = Some j \<Longrightarrow> tn_level (?ns ! j) = i + k"
    using assms(2) by (auto simp: close_inv_def)
  have n: "tn_level (?ns ! n) = i" using a [of 0 n] by simp
  have "n \<notin> stacked s"
  proof
    assume "n \<in> stacked s"
    then obtain k where "k < length s" "s ! k = Some n" by (auto simp: stacked_nth)
    then show False using a [of "Suc k" n] n by simp
  qed
  have "tn_level (?ns ! r) \<le> i" using tree_height_mono [OF w(1) tree_height_power w(3)] .
  then have jl: "join_level ?ns n r = Suc i" using n by (simp add: join_level_def)
  have in_r: "n \<in> roots ?ns" "r \<in> roots ?ns" using rt by auto
  have ok: "node_ok (?ns ! n)" "node_ok (?ns ! r)" using h(2) in_r by (auto simp: heap_ok_def roots_def)
  have le: "join_level ?ns n r \<le> 255" using jl assms(3) by simp
  obtain m' where m': "KSI_TreeNode_join D m n r = Ok (length ?ns, m')" "nodes m' = joined D a ?ns n r" "mem_algo a m'"
    using join_eq(1) [OF assms(1) h(1) ok le] by blast
  note j = heap_ok_joined [OF h(2) in_r nr(1) le]
  have kept: "kept ?ns (nodes m')" unfolding m'(2) by (rule kept_joined)
  have old: "stacked s \<subseteq> {..<length ?ns}" using rt by (auto simp: roots_def)
  have lv: "tn_level (nodes m' ! q) = Suc i + k" if "k < length s \<and> s ! k = Some q" for k q
  proof -
    have "q \<in> stacked s" using that by (auto simp: stacked_nth)
    then have "q < length ?ns" using old by auto
    then show ?thesis using kept a [of "Suc k" q] that by (simp add: kept_def)
  qed
  have "close_inv D a (Suc i) s (Some (length ?ns)) m' (w + 2 ^ i)"
    using m'(3) j lv rt nr \<open>n \<notin> stacked s\<close> old w tree_height_above [OF w(2,3)] jl
    by (auto simp: close_inv_def m'(2))
  with m' kept show ?thesis by blast
qed

lemma close_inv_root:
  assumes "close_inv D a i s (Some r) m w"
  shows "node_ok (nodes m ! r)" and "w \<le> 2 ^ 255"
proof -
  have "r \<in> roots (nodes m)" using assms by (simp add: close_inv_def)
  then show ok: "node_ok (nodes m ! r)" using assms unfolding close_inv_def heap_ok_def roots_def by blast
  have "w \<le> 2 ^ tn_level (nodes m ! r)" using assms by (simp add: close_inv_def tree_height_def)
  also have "\<dots> \<le> 2 ^ 255" using ok by (intro power_increasing) (simp_all add: node_ok_def)
  finally show "w \<le> 2 ^ 255" .
qed

lemma close_inv_top:
  assumes "digest_ok D" and "close_inv D a 255 (Some n # s) (Some r) m w"
  shows "KSI_TreeNode_join D m n r = Err KSI_UNKNOWN_ERROR"
proof (rule join_eq(2) [OF assms(1)])
  show "mem_algo a m" using assms(2) by (simp add: close_inv_def)
  show "node_ok (nodes m ! r)" by (rule close_inv_root(1) [OF assms(2)])
  have "n \<in> roots (nodes m)" using assms(2) by (simp add: close_inv_def)
  then show "node_ok (nodes m ! n)" using assms(2) unfolding close_inv_def heap_ok_def roots_def by blast
  have "tn_level (nodes m ! n) = 255 + 0" using assms(2) unfolding close_inv_def by (metis length_Cons nth_Cons_0 zero_less_Suc)
  then show "join_level (nodes m) n r > 255" by (simp add: join_level_def)
qed

lemma closeLoop_outcome:
  assumes "digest_ok D" and "close_inv D a i s root m w" and "i + length s = 256"
  shows "(w + weight_from i s \<le> 2 ^ 255 \<longrightarrow>
           (\<exists>m' root'. closeLoop D s root m = (replicate (length s) None, m', Ok root') \<and> kept (nodes m) (nodes m')
             \<and> close_inv D a 256 [] root' m' (w + weight_from i s)))
     \<and> (2 ^ 255 < w + weight_from i s \<longrightarrow> snd (snd (closeLoop D s root m)) = Err KSI_UNKNOWN_ERROR)"
  using assms(2,3)
proof (induction s arbitrary: i root m w)
  case Nil
  have "w \<le> 2 ^ 255"
  proof (cases root)
    case None
    then show ?thesis using Nil.prems(1) by (simp add: close_inv_def)
  next
    case (Some r)
    then show ?thesis using close_inv_root(2) Nil.prems(1) by blast
  qed
  then show ?case using Nil by simp
next
  case (Cons x s)
  have i: "Suc i + length s = 256" using Cons.prems(2) by simp
  consider "x = None" | n where "x = Some n" "root = None" | n r where "x = Some n" "root = Some r" by (cases x; cases root) auto
  then show ?case
  proof cases
    case 1
    from Cons.IH [OF close_inv_skip [OF Cons.prems(1) [unfolded 1]] i] 1 show ?thesis by (auto split: prod.splits)
  next
    case (2 n)
    then have w: "w = 0" using Cons.prems(1) by (simp add: close_inv_def)
    from Cons.IH [OF close_inv_first [OF Cons.prems(1) [unfolded 2]] i] 2 w show ?thesis by (auto split: prod.splits)
  next
    case (3 n r)
    note inv = Cons.prems(1) [unfolded 3]
    show ?thesis
    proof (cases "i < 255")
      case True
      obtain m' where m': "KSI_TreeNode_join D m n r = Ok (length (nodes m), m')" "kept (nodes m) (nodes m')"
          "close_inv D a (Suc i) s (Some (length (nodes m))) m' (w + 2 ^ i)"
        using close_inv_join [OF assms(1) inv True] by blast
      from Cons.IH [OF m'(3) i] m' 3 show ?thesis by (auto simp: add.assoc split: prod.splits intro: kept_trans [OF m'(2)])
    next
      case False
      then have [simp]: "i = 255" using i by simp
      have "0 < w" using inv by (simp add: close_inv_def)
      then have "2 ^ 255 < w + weight_from i (x # s)" using 3 by simp
      moreover have "snd (snd (closeLoop D (x # s) root m)) = Err KSI_UNKNOWN_ERROR"
        using close_inv_top [OF assms(1) inv [simplified]] 3 by simp
      ultimately show ?thesis by simp
    qed
  qed
qed

lemma close_outcome:
  assumes "digest_ok D" and "tb_inv D b {}" and "rootNode b = None"
  shows "0 < weight (stack b) \<Longrightarrow> weight (stack b) \<le> 2 ^ 255 \<Longrightarrow>
      \<exists>b' r. KSI_TreeBuilder_close D b = (b', Ok ()) \<and> rootNode b' = Some r \<and> heap_ok D (tb_algo b) (nodes (mem b'))
        \<and> tb_algo b' = tb_algo b \<and> kept (nodes (mem b)) (nodes (mem b')) \<and> roots (nodes (mem b')) = {r}
        \<and> tree_height (weight (stack b)) (tn_level (nodes (mem b') ! r)) \<and> stack b' = replicate 256 None"
    and "weight (stack b) = 0 \<or> 2 ^ 255 < weight (stack b) \<Longrightarrow> \<exists>b' e. KSI_TreeBuilder_close D b = (b', Err e)"
proof -
  have inv: "close_inv D (tb_algo b) 0 (stack b) None (mem b) 0" and len: "length (stack b) = 256"
    using assms(2) by (auto simp: tb_inv_def close_inv_def)
  note c = closeLoop_outcome [OF assms(1) inv, simplified, OF len]
  show "\<exists>b' e. KSI_TreeBuilder_close D b = (b', Err e)" if "weight (stack b) = 0 \<or> 2 ^ 255 < weight (stack b)"
    using that c assms(3) by (auto simp: KSI_TreeBuilder_close_def close_inv_def split: prod.splits option.splits)
  assume w: "0 < weight (stack b)" "weight (stack b) \<le> 2 ^ 255"
  then obtain m' root' where m': "closeLoop D (stack b) None (mem b) = (replicate 256 None, m', Ok root')" "kept (nodes (mem b)) (nodes m')"
      "close_inv D (tb_algo b) 256 [] root' m' (weight (stack b))" using c len by auto
  with w obtain r where r: "root' = Some r" by (cases root') (auto simp: close_inv_def)
  show "\<exists>b' r. KSI_TreeBuilder_close D b = (b', Ok ()) \<and> rootNode b' = Some r \<and> heap_ok D (tb_algo b) (nodes (mem b'))
        \<and> tb_algo b' = tb_algo b \<and> kept (nodes (mem b)) (nodes (mem b')) \<and> roots (nodes (mem b')) = {r}
        \<and> tree_height (weight (stack b)) (tn_level (nodes (mem b') ! r)) \<and> stack b' = replicate 256 None"
    using m' r assms(3) by (auto simp: KSI_TreeBuilder_close_def close_inv_def)
qed


section \<open>Leaf processors\<close>

text \<open>What the builder relies on when it runs leaf processors: a processor keeps the state of its context
  sound, and when it succeeds it leaves the nodes alone or adds one new node to them, and then joining
  that node raises the level by no more than the processor has announced.\<close>

locale leaf_processors =
  fixes cbs :: "'c KSI_TreeBuilderLeafProcessor list" and ok :: "'c \<Rightarrow> bool"
  assumes overhead: "cb \<in> set cbs \<Longrightarrow> levelOverhead cb \<le> 255"
    and keeps: "cb \<in> set cbs \<Longrightarrow> proc_fn cb = Some f \<Longrightarrow> ok c \<Longrightarrow> ok (fst (f m i c))"
    and adds: "cb \<in> set cbs \<Longrightarrow> proc_fn cb = Some f \<Longrightarrow> ok c \<Longrightarrow> mem_algo a m \<Longrightarrow> node_ok (nodes m ! i) \<Longrightarrow>
      snd (f m i c) = Inr (out, m') \<Longrightarrow>
      mem_algo a m' \<and> (case out of None \<Rightarrow> nodes m' = nodes m
        | Some t \<Rightarrow> t = length (nodes m) \<and> (\<exists>n. nodes m' = nodes m @ [n] \<and> node_ok n \<and> parent n = None
            \<and> max (tn_level (nodes m ! i)) (tn_level n) < tn_level (nodes m ! i) + levelOverhead cb))"
begin

definition total_overhead :: nat where
  "total_overhead = sum_list (map levelOverhead cbs)"

text \<open>A memory whose trees are \<open>node\<close> and \<open>R\<close>.\<close>

definition forest :: "(int \<Rightarrow> bytes \<Rightarrow> bytes) \<Rightarrow> int \<Rightarrow> tree_mem \<Rightarrow> nat \<Rightarrow> nat set \<Rightarrow> bool" where
  "forest D a m node R \<longleftrightarrow> mem_algo a m \<and> heap_ok D a (nodes m) \<and> roots (nodes m) = insert node R \<and> node \<notin> R"

lemma forest_node: "forest D a m node R \<Longrightarrow> node_ok (nodes m ! node) \<and> node < length (nodes m)"
  unfolding forest_def heap_ok_def roots_def by blast

lemma forest_join:
  assumes "digest_ok D" and "forest D a m node R" and "mem_algo a m'" and "nodes m' = nodes m @ [n]" and "node_ok n" and "parent n = None"
    and "KSI_TreeNode_join D m' node (length (nodes m)) = r"
  shows "r \<noteq> Fault" and "r = Ok (root, m'') \<Longrightarrow> forest D a m'' root R \<and> kept (nodes m) (nodes m'')
      \<and> tn_level (nodes m'' ! root) = Suc (max (tn_level (nodes m ! node)) (tn_level n))"
proof -
  let ?t = "length (nodes m)"
  have h: "heap_ok D a (nodes m')" "roots (nodes m') = insert ?t (insert node R)" and lt: "node < ?t" "node \<notin> R"
    using assms forest_node [OF assms(2)] by (auto simp: forest_def heap_ok_append roots_append)
  have ok: "node_ok (nodes m' ! node)" "node_ok (nodes m' ! ?t)" using assms(4,5) forest_node [OF assms(2)] by (auto simp: nth_append)
  note j = join_eq [OF assms(1,3) ok]
  show "r \<noteq> Fault" using j assms(7) by (cases "join_level (nodes m') node ?t \<le> 255") auto
  assume r: "r = Ok (root, m'')"
  then have le: "join_level (nodes m') node ?t \<le> 255" using j(2) assms(7) by (cases "join_level (nodes m') node ?t \<le> 255") auto
  from j(1) [OF this] r assms(7) have m'': "root = length (nodes m')" "nodes m'' = joined D a (nodes m') node ?t" "mem_algo a m''" by auto
  have R: "R \<subseteq> {..<?t}" using assms(2) by (auto simp: forest_def roots_def)
  have "node \<noteq> ?t" "node \<in> roots (nodes m')" "?t \<in> roots (nodes m')" using lt h(2) by auto
  note hj = heap_ok_joined [OF h(1) this(2,3,1) le]
  have "forest D a m'' root R"
    using hj m'' lt R h(2) assms(4) unfolding forest_def by auto
  moreover have "kept (nodes m) (nodes m'')"
    using kept_append [of "nodes m" n] kept_joined [of "nodes m'" D a node ?t] assms(4) m''(2) kept_trans by metis
  moreover have "tn_level (nodes m'' ! root) = Suc (max (tn_level (nodes m ! node)) (tn_level n))"
    using hj(3) m'' assms(4) lt by (simp add: join_level_def nth_append)
  ultimately show "forest D a m'' root R \<and> kept (nodes m) (nodes m'')
      \<and> tn_level (nodes m'' ! root) = Suc (max (tn_level (nodes m ! node)) (tn_level n))" by blast
qed

lemma processNode_outcome:
  assumes "digest_ok D" and "set cs \<subseteq> set cbs" and "ok c" and "forest D a m node R"
  shows "ok (fst (processNode D cs m node c)) \<and> snd (processNode D cs m node c) \<noteq> Fault
    \<and> (\<forall>root m'. snd (processNode D cs m node c) = Ok (root, m') \<longrightarrow> forest D a m' root R \<and> kept (nodes m) (nodes m')
         \<and> tn_level (nodes m ! node) \<le> tn_level (nodes m' ! root)
         \<and> tn_level (nodes m' ! root) \<le> tn_level (nodes m ! node) + sum_list (map levelOverhead cs))"
  using assms(2-4)
proof (induction cs arbitrary: c m node)
  case Nil
  then show ?case by simp
next
  case (Cons cb cs)
  have cb: "cb \<in> set cbs" and cs: "set cs \<subseteq> set cbs" using Cons.prems(1) by auto
  show ?case
  proof (cases "proc_fn cb")
    case None
    then show ?thesis using Cons.prems(2) by simp
  next
    case (Some f)
    obtain c' res where f: "f m node c = (c', res)" by (cases "f m node c")
    have c': "ok c'" using keeps [OF cb Some Cons.prems(2), of m node] f by simp
    show ?thesis
    proof (cases res)
      case (Inl e)
      then show ?thesis using Some f c' by simp
    next
      case (Inr p)
      obtain out m' where p: "p = (out, m')" by (cases p)
      have "mem_algo a m" using Cons.prems(3) by (simp add: forest_def)
      from adds [OF cb Some Cons.prems(2) this, of node out m'] have a: "mem_algo a m'" "case out of None \<Rightarrow> nodes m' = nodes m
        | Some t \<Rightarrow> t = length (nodes m) \<and> (\<exists>n. nodes m' = nodes m @ [n] \<and> node_ok n \<and> parent n = None
            \<and> max (tn_level (nodes m ! node)) (tn_level n) < tn_level (nodes m ! node) + levelOverhead cb)"
        using forest_node [OF Cons.prems(3)] f Inr p by auto
      show ?thesis
      proof (cases out)
        case None
        then have "forest D a m' node R" using a Cons.prems(3) by (simp add: forest_def)
        from Cons.IH [OF cs c' this] show ?thesis using None a(2) Some f Inr p by auto
      next
        case (Some t)
        then obtain n where n: "t = length (nodes m)" "nodes m' = nodes m @ [n]" "node_ok n" "parent n = None"
            "max (tn_level (nodes m ! node)) (tn_level n) < tn_level (nodes m ! node) + levelOverhead cb" using a(2) by auto
        note j = forest_join [OF assms(1) Cons.prems(3) a(1) n(2-4) refl]
        show ?thesis
        proof (cases "KSI_TreeNode_join D m' node t")
          case (Ok q)
          obtain root m'' where q: "q = (root, m'')" by (cases q)
          have u: "forest D a m'' root R" "kept (nodes m) (nodes m'')"
              "tn_level (nodes m'' ! root) = Suc (max (tn_level (nodes m ! node)) (tn_level n))"
            using j(2) [of root m''] Ok q n(1) by auto
          from Cons.IH [OF cs c' u(1)] show ?thesis
            using \<open>proc_fn cb = Some f\<close> f Inr p Some Ok q u(2,3) n(5) kept_trans [OF u(2)] by fastforce
        qed (use j(1) n(1) \<open>proc_fn cb = Some f\<close> f Inr p Some c' in auto)
      qed
    qed
  qed
qed

end


definition leaf_ok :: "KSI_MetaData option \<Rightarrow> bool" where
  "leaf_ok md \<longleftrightarrow> pred_option (\<lambda>md. md_fits md \<and> length (md_enc md) \<le> 0xffff) md"

text \<open>The states of an open builder: leaves are added, some of the calls may fail.  The list has the leaves
  that were added, with their hashes and levels.\<close>

inductive building ::
    "(int \<Rightarrow> bytes \<Rightarrow> bytes) \<Rightarrow> 'c KSI_TreeBuilder \<Rightarrow> 'c KSI_TreeBuilder \<Rightarrow> (nat \<times> KSI_DataHash option \<times> int) list \<Rightarrow> bool"
  for D b0 where
  start: "building D b0 b0 []"
| added: "building D b0 b ls \<Longrightarrow> leaf_ok md \<Longrightarrow> addLeaf D b hsh md l = (b', Ok leaf) \<Longrightarrow> building D b0 b' (ls @ [(leaf, hsh, l)])"
| refused: "building D b0 b ls \<Longrightarrow> leaf_ok md \<Longrightarrow> addLeaf D b hsh md l = (b', Err e) \<Longrightarrow> building D b0 b' ls"

context leaf_processors begin

definition ready :: "(int \<Rightarrow> bytes \<Rightarrow> bytes) \<Rightarrow> 'c KSI_TreeBuilder \<Rightarrow> bool" where
  "ready D b \<longleftrightarrow> tb_inv D b {} \<and> rootNode b = None \<and> cbList b = cbs \<and> ok (cbState b)"

lemma new_leaf_forest:
  assumes "ready D b" and "leaf_ok md" and "KSI_TreeNode_new hsh md l = Inr n"
  shows "forest D (tb_algo b) (snd (alloc n (mem b))) (length (nodes (mem b))) (stacked (stack b))"
    and "tn_level n = nat l" and "tn_hash n = hsh" and "node_ok n" and "0 \<le> l" and "l \<le> 255"
proof -
  show n: "tn_level n = nat l" "tn_hash n = hsh" "0 \<le> l" "l \<le> 255"
    using assms(3) by (auto simp: KSI_TreeNode_new_def KSI_IS_VALID_TREE_LEVEL_def split: if_splits)
  have ok: "node_ok n" "parent n = None"
    using assms(2,3) by (auto simp: KSI_TreeNode_new_def KSI_IS_VALID_TREE_LEVEL_def node_ok_def leaf_ok_def split: if_splits)
  show "node_ok n" by (rule ok(1))
  have "stacked (stack b) \<subseteq> {..<length (nodes (mem b))}" using assms(1) by (auto simp: ready_def tb_inv_def roots_def)
  with ok show "forest D (tb_algo b) (snd (alloc n (mem b))) (length (nodes (mem b))) (stacked (stack b))"
    using assms(1) by (auto simp: forest_def ready_def tb_inv_def alloc_def mem_algo_def heap_ok_append roots_append)
qed

lemma forest_tb_inv:
  assumes "ready D b" and "forest D (tb_algo b) m root (stacked (stack b))" and "kept (nodes (mem b)) (nodes m)"
  shows "tb_inv D (b\<lparr>mem := m, cbState := c\<rparr>) {root}"
proof -
  have "tn_level (nodes m ! i) = k" if "k < 256 \<and> stack b ! k = Some i" for k i
  proof -
    have len: "length (stack b) = 256" and lv: "tn_level (nodes (mem b) ! i) = k"
      and rt: "roots (nodes (mem b)) = stacked (stack b)" using assms(1) that by (auto simp: ready_def tb_inv_def)
    have "i \<in> stacked (stack b)" unfolding stacked_nth using that len by (intro exI [of _ k]) simp
    then have "i < length (nodes (mem b))" using rt by (auto simp: roots_def)
    then show ?thesis using assms(3) lv by (simp add: kept_def)
  qed
  then show ?thesis using assms(1,2) by (auto simp: tb_inv_def ready_def forest_def)
qed

text \<open>What a call of \<^verbatim>\<open>addLeaf\<close> does: \<open>k\<close> is the level at which the leaf enters the forest.\<close>

lemma addLeaf_Ok:
  assumes "digest_ok D" and "ready D b" and "leaf_ok md" and "addLeaf D b hsh md l = (b', Ok leaf)"
  obtains k where "ready D b'" "leaf = length (nodes (mem b))" "kept (nodes (mem b)) (nodes (mem b'))" "leaf < length (nodes (mem b'))"
    "tn_hash (nodes (mem b') ! leaf) = hsh" "tn_level (nodes (mem b') ! leaf) = nat l" "0 \<le> l" "l \<le> 255"
    "tb_algo b' = tb_algo b" "maxTreeLevel b' = maxTreeLevel b"
    "nat l \<le> k" "k \<le> nat l + total_overhead" "weight (stack b') = weight (stack b) + 2 ^ k"
proof -
  obtain n where n: "KSI_TreeNode_new hsh md l = Inr n"
    using assms(4) by (auto simp: addLeaf_def split: if_splits sum.splits)
  note nl = new_leaf_forest [OF assms(2,3) n]
  define m where "m = snd (alloc n (mem b))"
  define node where "node = length (nodes (mem b))"
  have m: "alloc n (mem b) = (node, m)" "nodes m = nodes (mem b) @ [n]" by (simp_all add: m_def node_def alloc_def)
  obtain c r where pr: "processNode D (cbList b) m node (cbState b) = (c, r)" by (cases "processNode D (cbList b) m node (cbState b)")
  have ins: "run_bind r (\<lambda>(root, m). insertNode D (b\<lparr>mem := m, cbState := c\<rparr>) root) = Ok b'" "leaf = node"
    using assms(4) n m(1) pr by (auto simp: addLeaf_def processAndInsertNode_def split: if_splits sum.splits run.splits)
  then obtain root m' where r: "r = Ok (root, m')" "insertNode D (b\<lparr>mem := m', cbState := c\<rparr>) root = Ok b'"
    by (auto simp: run_bind_eq_Ok)
  have p: "ok c" "forest D (tb_algo b) m' root (stacked (stack b))" "kept (nodes m) (nodes m')"
      "tn_level (nodes m ! node) \<le> tn_level (nodes m' ! root)"
      "tn_level (nodes m' ! root) \<le> tn_level (nodes m ! node) + total_overhead"
    using processNode_outcome [OF assms(1) _ _ nl(1), of cbs "cbState b"] pr r(1) assms(2)
    by (auto simp: ready_def m_def node_def total_overhead_def)
  have kb: "kept (nodes (mem b)) (nodes m')" using kept_trans [OF kept_append p(3) [unfolded m(2)]] .
  let ?b = "b\<lparr>mem := m', cbState := c\<rparr>"
  note io = insertNode_outcome [OF assms(1) forest_tb_inv [OF assms(2) p(2) kb, of c]]
  have "\<not> 2 ^ 256 \<le> weight (stack ?b) + 2 ^ tn_level (nodes (mem ?b) ! root)" using io(2) r(2) by (auto split: if_splits)
  then have b': "tb_inv D b' {}" "weight (stack b') = weight (stack b) + 2 ^ tn_level (nodes m' ! root)"
      "kept (nodes m') (nodes (mem b'))" "same_settings ?b b'" using io(1) r(2) by auto
  have kk: "kept (nodes m) (nodes (mem b'))" by (rule kept_trans [OF p(3) b'(3)])
  then have "leaf < length (nodes (mem b'))" "tn_hash (nodes (mem b') ! leaf) = hsh" "tn_level (nodes (mem b') ! leaf) = nat l"
    using nl(2,3) ins(2) by (auto simp: kept_def m(2) node_def)
  moreover have "ready D b'" using assms(2) p(1) b'(1,4) by (simp add: ready_def same_settings_def)
  moreover have "tn_level (nodes m ! node) = nat l" using nl(2) by (simp add: m(2) node_def)
  ultimately show ?thesis
    using that [of "tn_level (nodes m' ! root)"] ins(2) node_def kept_trans [OF kb b'(3)] nl(5,6) b'(2,4) p(4,5)
    by (simp add: same_settings_def)
qed

lemma addLeaf_Err:
  assumes "digest_ok D" and "ready D b" and "leaf_ok md" and "addLeaf D b hsh md l = (b', Err e)"
  shows "ready D b'" and "\<exists>c. b' = b\<lparr>cbState := c\<rparr>"
proof -
  have "b' = b \<or> (\<exists>n c. KSI_TreeNode_new hsh md l = Inr n \<and> b' = b\<lparr>cbState := c\<rparr>
      \<and> c = fst (processNode D (cbList b) (snd (alloc n (mem b))) (length (nodes (mem b))) (cbState b)))"
    using assms(4) by (auto simp: addLeaf_def processAndInsertNode_def alloc_def split: if_splits sum.splits run.splits prod.splits)
  moreover have "ok (fst (processNode D (cbList b) (snd (alloc n (mem b))) (length (nodes (mem b))) (cbState b)))"
    if "KSI_TreeNode_new hsh md l = Inr n" for n
    using processNode_outcome [OF assms(1) _ _ new_leaf_forest(1) [OF assms(2,3) that], of cbs "cbState b"] assms(2)
    by (simp add: ready_def)
  ultimately have "b' = b \<or> (\<exists>c. b' = b\<lparr>cbState := c\<rparr> \<and> ok c)" by blast
  then show "ready D b'" "\<exists>c. b' = b\<lparr>cbState := c\<rparr>"
    using assms(2) by (auto simp: ready_def tb_inv_def intro: exI [of _ "cbState b"])
qed

lemma addLeaf_Fault:
  assumes "digest_ok D" and "ready D b" and "leaf_ok md" and "addLeaf D b hsh md l = (b', Fault)"
  obtains k where "k \<le> nat l + total_overhead" "2 ^ 256 \<le> weight (stack b) + 2 ^ k" "0 \<le> l" "l \<le> 255" "addLeaf_height b l = Inr ()"
proof -
  obtain n where n: "KSI_TreeNode_new hsh md l = Inr n" "addLeaf_height b l = Inr ()"
    using assms(4) by (auto simp: addLeaf_def split: if_splits sum.splits)
  note nl = new_leaf_forest [OF assms(2,3) n(1)]
  define m where "m = snd (alloc n (mem b))"
  define node where "node = length (nodes (mem b))"
  have m: "alloc n (mem b) = (node, m)" "nodes m = nodes (mem b) @ [n]" by (simp_all add: m_def node_def alloc_def)
  obtain c r where pr: "processNode D (cbList b) m node (cbState b) = (c, r)" by (cases "processNode D (cbList b) m node (cbState b)")
  have ins: "run_bind r (\<lambda>(root, m). insertNode D (b\<lparr>mem := m, cbState := c\<rparr>) root) = Fault"
    using assms(4) n m(1) pr by (auto simp: addLeaf_def processAndInsertNode_def split: if_splits sum.splits run.splits)
  have pn: "r \<noteq> Fault" "\<And>root m'. r = Ok (root, m') \<Longrightarrow> forest D (tb_algo b) m' root (stacked (stack b)) \<and> kept (nodes m) (nodes m')
      \<and> tn_level (nodes m' ! root) \<le> tn_level (nodes m ! node) + total_overhead"
    using processNode_outcome [OF assms(1) _ _ nl(1), of cbs "cbState b"] pr assms(2)
    by (auto simp: ready_def m_def node_def total_overhead_def)
  obtain root m' where r: "r = Ok (root, m')" "insertNode D (b\<lparr>mem := m', cbState := c\<rparr>) root = Fault"
    using ins pn(1) by (cases r) auto
  have p: "forest D (tb_algo b) m' root (stacked (stack b))" "kept (nodes m) (nodes m')"
      "tn_level (nodes m' ! root) \<le> tn_level (nodes m ! node) + total_overhead" using pn(2) [OF r(1)] by auto
  have kb: "kept (nodes (mem b)) (nodes m')" using kept_trans [OF kept_append p(2) [unfolded m(2)]] .
  note io = insertNode_outcome [OF assms(1) forest_tb_inv [OF assms(2) p(1) kb, of c]]
  have "2 ^ 256 \<le> weight (stack b) + 2 ^ tn_level (nodes m' ! root)" using io(1) r(2) by (force simp: not_less [symmetric])
  moreover have "tn_level (nodes m ! node) = nat l" using nl(2) by (simp add: m(2) node_def)
  ultimately show ?thesis using that p(3) nl(5,6) n(2) by simp
qed

end


lemma levelWithOverhead_sum:
  "l \<le> 255 \<Longrightarrow> (\<And>cb. cb \<in> set cs \<Longrightarrow> levelOverhead cb \<le> 255) \<Longrightarrow> levelWithOverhead cs l = Inr x \<Longrightarrow>
   x = l + sum_list (map levelOverhead cs) \<and> x \<le> 255"
proof (induction cs arbitrary: l)
  case (Cons cb cs)
  have le: "levelOverhead cb \<le> 255" using Cons.prems(2) [of cb] by simp
  then have m: "(l + levelOverhead cb) mod 2 ^ 16 = l + levelOverhead cb" using Cons.prems(1) by simp
  then have "levelWithOverhead cs (l + levelOverhead cb) = Inr x" "l + levelOverhead cb \<le> 255"
    using Cons.prems(3) by (auto simp: Let_def KSI_IS_VALID_TREE_LEVEL_def check_eq_Inr)
  from Cons.IH [OF this(2) _ this(1)] Cons.prems(2) show ?case by (simp add: add.assoc)
qed simp

lemma height_stack:
  assumes "length (stack b) = 256" and "l < 256"
  shows "tree_height (weight (stack b) + 2 ^ l) (calculateHighestLevel b l)"
  using highestLoop_height [of 0 l "stack b" 0 0 0] assms by (simp add: calculateHighestLevel_def add.commute)

lemma addLeaf_checked:
  "addLeaf D b hsh md l = (b', r) \<Longrightarrow> (\<And>e. r \<noteq> Err e) \<Longrightarrow> addLeaf_height b l = Inr ()"
  by (auto simp: addLeaf_def split: if_splits sum.splits)

context leaf_processors begin

lemma height_checked:
  assumes "ready D b" and "addLeaf_height b l = Inr ()" and "0 < maxTreeLevel b" and "maxTreeLevel b \<le> 255"
    and "0 \<le> l" and "l \<le> 255" and "k \<le> nat l + total_overhead"
  shows "weight (stack b) + 2 ^ k \<le> 2 ^ nat (maxTreeLevel b)"
proof -
  have len: "length (stack b) = 256" and cb: "cbList b = cbs" using assms(1) by (simp_all add: ready_def tb_inv_def)
  obtain x where x: "levelWithOverhead cbs (nat l) = Inr x" "int (calculateHighestLevel b x) \<le> maxTreeLevel b"
    using assms(2,3) cb by (auto simp: addLeaf_height_def rbind_eq_Inr check_eq_Inr not_less)
  have "nat l \<le> 255" using assms(6) by simp
  from levelWithOverhead_sum [OF this overhead x(1)] have sx: "x = nat l + total_overhead" "x \<le> 255"
    by (auto simp: total_overhead_def)
  have "weight (stack b) + 2 ^ k \<le> weight (stack b) + 2 ^ x"
    using assms(7) sx(1) by (intro add_left_mono power_increasing) simp_all
  also have "\<dots> \<le> 2 ^ calculateHighestLevel b x" using height_stack [OF len, of x] sx(2) by (simp add: tree_height_def)
  also have "\<dots> \<le> 2 ^ nat (maxTreeLevel b)" using x(2) by (intro power_increasing) simp_all
  finally show ?thesis .
qed

lemma addLeaf_bounded:
  assumes "digest_ok D" and "ready D b" and "leaf_ok md" and "0 < maxTreeLevel b" and "maxTreeLevel b \<le> 255"
  shows "snd (addLeaf D b hsh md l) \<noteq> Fault"
    and "addLeaf D b hsh md l = (b', Ok leaf) \<Longrightarrow> weight (stack b') \<le> 2 ^ nat (maxTreeLevel b)"
proof -
  have "(2 :: nat) ^ nat (maxTreeLevel b) < 2 ^ 256" using assms(5) by (intro power_strict_increasing) simp_all
  note small = height_checked [OF assms(2) _ assms(4,5)] this
  show "snd (addLeaf D b hsh md l) \<noteq> Fault"
  proof
    assume "snd (addLeaf D b hsh md l) = Fault"
    then obtain b' where "addLeaf D b hsh md l = (b', Fault)" by (cases "addLeaf D b hsh md l") simp
    from addLeaf_Fault [OF assms(1-3) this] obtain k where k: "k \<le> nat l + total_overhead" "2 ^ 256 \<le> weight (stack b) + 2 ^ k"
      "0 \<le> l" "l \<le> 255" "addLeaf_height b l = Inr ()" by metis
    show False using small(1) [OF k(5,3,4,1)] k(2) small(2) by linarith
  qed
  assume a: "addLeaf D b hsh md l = (b', Ok leaf)"
  from addLeaf_Ok [OF assms(1-3) this] obtain k where k: "k \<le> nat l + total_overhead" "weight (stack b') = weight (stack b) + 2 ^ k"
    "0 \<le> l" "l \<le> 255" by metis
  show "weight (stack b') \<le> 2 ^ nat (maxTreeLevel b)"
    using small(1) [OF addLeaf_checked [OF a] k(3,4,1)] k(2) by simp
qed

definition leaf_stored :: "'c KSI_TreeBuilder \<Rightarrow> nat \<times> KSI_DataHash option \<times> int \<Rightarrow> bool" where
  "leaf_stored b x \<longleftrightarrow> (case x of (leaf, hsh, l) \<Rightarrow> leaf < length (nodes (mem b)) \<and> tn_hash (nodes (mem b) ! leaf) = hsh
     \<and> int (tn_level (nodes (mem b) ! leaf)) = l)"

lemma leaf_stored_kept: "leaf_stored b x \<Longrightarrow> kept (nodes (mem b)) (nodes (mem b')) \<Longrightarrow> leaf_stored b' x"
  by (auto simp: leaf_stored_def kept_def)

text \<open>The invariant of an open builder.\<close>

lemma building_invariant:
  assumes "digest_ok D" and "ready D b0" and "building D b0 b ls"
  shows "ready D b \<and> tb_algo b = tb_algo b0 \<and> maxTreeLevel b = maxTreeLevel b0 \<and> list_all (leaf_stored b) ls
    \<and> (ls \<noteq> [] \<longrightarrow> 0 < weight (stack b))"
  using assms(3)
proof (induction rule: building.induct)
  case start
  then show ?case using assms(2) by simp
next
  case (added b ls md hsh l b' leaf)
  from addLeaf_Ok [OF assms(1) _ added.hyps(2,3)] added.IH obtain k where k: "ready D b'" "kept (nodes (mem b)) (nodes (mem b'))"
    "leaf < length (nodes (mem b'))" "tn_hash (nodes (mem b') ! leaf) = hsh" "tn_level (nodes (mem b') ! leaf) = nat l" "0 \<le> l"
    "tb_algo b' = tb_algo b" "maxTreeLevel b' = maxTreeLevel b" "weight (stack b') = weight (stack b) + 2 ^ k" by metis
  have "list_all (leaf_stored b') ls" using added.IH leaf_stored_kept [OF _ k(2)] by (auto simp: list_all_iff)
  moreover have "leaf_stored b' (leaf, hsh, l)" using k by (simp add: leaf_stored_def)
  ultimately show ?case using added.IH k by simp
next
  case (refused b ls md hsh l b' e)
  from addLeaf_Err [OF assms(1) _ refused.hyps(2,3)] refused.IH obtain c where "ready D b'" "b' = b\<lparr>cbState := c\<rparr>" by auto
  with refused.IH show ?case by (auto simp: leaf_stored_def list_all_iff)
qed

lemma building_bounded:
  assumes "digest_ok D" and "ready D b0" and "building D b0 b ls" and "0 < maxTreeLevel b0" and "maxTreeLevel b0 \<le> 255"
    and "weight (stack b0) \<le> 2 ^ nat (maxTreeLevel b0)"
  shows "weight (stack b) \<le> 2 ^ nat (maxTreeLevel b0)"
  using assms(3)
proof (induction rule: building.induct)
  case start
  then show ?case by (rule assms(6))
next
  case (added b ls md hsh l b' leaf)
  note i = building_invariant [OF assms(1,2) added.hyps(1)]
  then show ?case using addLeaf_bounded(2) [OF assms(1) _ added.hyps(2) _ _ added.hyps(3)] assms(4,5) by auto
next
  case (refused b ls md hsh l b' e)
  note i = building_invariant [OF assms(1,2) refused.hyps(1)]
  then show ?case using addLeaf_Err(2) [OF assms(1) _ refused.hyps(2,3)] refused.IH by auto
qed

end


section \<open>The chains of a finished tree\<close>

lemma algo_id: "KSI_isHashAlgorithmSupported a \<Longrightarrow> to_int (KSI_Integer_getUInt64 (Some (of_int a))) = a"
  by (auto simp: KSI_isHashAlgorithmSupported_def KSI_Integer_getUInt64_def to_int_def)

lemma chain_of_leaf:
  assumes "digest_ok D" and "heap_ok D (tb_algo b) (nodes (mem b))" and "KSI_isHashAlgorithmSupported (tb_algo b)"
    and "roots (nodes (mem b)) = {r}" and "leaf < length (nodes (mem b))" and "tn_hash (nodes (mem b) ! leaf) = Some h"
  shows "\<exists>c. KSI_TreeLeafHandle_getAggregationChain b leaf = Ok c \<and> inputHash c = Some h
     \<and> fst (KSI_AggregationHashChain_aggregate D c (int (tn_level (nodes (mem b) ! leaf)))) =
         Ok (int (tn_level (nodes (mem b) ! r)), if chain c = Some [] then None else tn_hash (nodes (mem b) ! r))
     \<and> (chain c = Some [] \<longrightarrow> r = leaf)"
proof -
  let ?ns = "nodes (mem b)" and ?a = "tb_algo b"
  obtain ks r' where ks: "getHashChainLinks (Suc (length ?ns)) ?ns leaf = Ok ks" "r' \<in> roots ?ns" "list_all link_wf ks"
      "chain_root D ?a ks (int (tn_level (?ns ! leaf))) (node_bytes (?ns ! leaf)) = (int (tn_level (?ns ! r')), node_bytes (?ns ! r'))"
      "ks = [] \<longleftrightarrow> r' = leaf" "ks \<noteq> [] \<longrightarrow> tn_hash (?ns ! r') \<noteq> None"
    using chain_of_node [OF assms(2,5), of "Suc (length ?ns)"] by (metis diff_le_self le_SucI)
  have r': "r' = r" using ks(2) assms(4) by simp
  have lv: "tn_level (?ns ! leaf) \<le> 255" "tn_level (?ns ! r) \<le> 255"
    using assms(2,4,5) by (auto simp: heap_ok_def node_ok_def roots_def)
  have nb: "node_bytes (?ns ! leaf) = h" using assms(6) by (simp add: node_bytes_def)
  have rh: "(if ks = [] then None else Some (node_bytes (?ns ! r))) = (if ks = [] then None else tn_hash (?ns ! r))"
    using ks(6) r' by (auto simp: node_bytes_def)
  define c where "c = KSI_AggregationHashChain_new\<lparr>chain := Some ks, inputHash := Some h, aggrHashId := Some (of_int ?a)\<rparr>"
  have c: "KSI_TreeLeafHandle_getAggregationChain b leaf = Ok c"
    using ks(1) assms(6) by (simp add: KSI_TreeLeafHandle_getAggregationChain_def c_def del: getHashChainLinks.simps)
  have "KSI_HashChain_aggregate D (Some ks) (Some h) (int (tn_level (?ns ! leaf))) ?a =
      Ok (int (tn_level (?ns ! r)), if ks = [] then None else tn_hash (?ns ! r))"
    using aggregate_chain_root [OF assms(1,3) _ _ ks(3), of "int (tn_level (?ns ! leaf))" h] lv ks(4) r' nb rh by simp
  then have "fst (KSI_AggregationHashChain_aggregate D c (int (tn_level (?ns ! leaf)))) =
      Ok (int (tn_level (?ns ! r)), if ks = [] then None else tn_hash (?ns ! r))"
    using lv(1) algo_id [OF assms(3)]
    by (simp add: KSI_AggregationHashChain_aggregate_def c_def KSI_AggregationHashChain_new_def)
  with c ks(5) r' show ?thesis by (auto simp: c_def)
qed

context leaf_processors begin

lemma ready_reaches_root:
  assumes "digest_ok D" and "ready D b" and "list_all (leaf_stored b) ls" and "KSI_TreeBuilder_close D b = (b', Ok ())"
  shows "\<exists>r. rootNode b' = Some r \<and> tree_height (weight (stack b)) (tn_level (nodes (mem b') ! r))
    \<and> (\<forall>leaf h l. (leaf, Some h, l) \<in> set ls \<longrightarrow>
       (\<exists>c. KSI_TreeLeafHandle_getAggregationChain b' leaf = Ok c \<and> inputHash c = Some h
         \<and> fst (KSI_AggregationHashChain_aggregate D c l) =
             Ok (int (tn_level (nodes (mem b') ! r)), if chain c = Some [] then None else tn_hash (nodes (mem b') ! r))
         \<and> (chain c = Some [] \<longrightarrow> r = leaf)))"
proof -
  have rd: "tb_inv D b {}" "rootNode b = None" and sup: "KSI_isHashAlgorithmSupported (tb_algo b)"
    using assms(2) by (auto simp: ready_def tb_inv_def mem_algo_def)
  note co = close_outcome [OF assms(1) rd]
  have "\<not> (weight (stack b) = 0 \<or> 2 ^ 255 < weight (stack b))"
  proof
    assume "weight (stack b) = 0 \<or> 2 ^ 255 < weight (stack b)"
    from co(2) [OF this] assms(4) show False by simp
  qed
  then have "0 < weight (stack b)" "weight (stack b) \<le> 2 ^ 255" by linarith+
  from co(1) [OF this] assms(4) obtain r where r: "rootNode b' = Some r" "heap_ok D (tb_algo b) (nodes (mem b'))" "tb_algo b' = tb_algo b"
    "kept (nodes (mem b)) (nodes (mem b'))" "roots (nodes (mem b')) = {r}" "tree_height (weight (stack b)) (tn_level (nodes (mem b') ! r))" by auto
  have "\<exists>c. KSI_TreeLeafHandle_getAggregationChain b' leaf = Ok c \<and> inputHash c = Some h
      \<and> fst (KSI_AggregationHashChain_aggregate D c l) =
          Ok (int (tn_level (nodes (mem b') ! r)), if chain c = Some [] then None else tn_hash (nodes (mem b') ! r))
      \<and> (chain c = Some [] \<longrightarrow> r = leaf)" if "(leaf, Some h, l) \<in> set ls" for leaf h l
  proof -
    have "leaf_stored b' (leaf, Some h, l)" using that assms(3) leaf_stored_kept [OF _ r(4)] by (auto simp: list_all_iff)
    then have s: "leaf < length (nodes (mem b'))" "tn_hash (nodes (mem b') ! leaf) = Some h" "int (tn_level (nodes (mem b') ! leaf)) = l"
      by (auto simp: leaf_stored_def)
    from chain_of_leaf [OF assms(1) _ _ r(5) s(1,2)] show ?thesis using r(2,3) sup s(3) by simp
  qed
  with r(1,6) show ?thesis by blast
qed

lemma building_close:
  assumes "digest_ok D" and "ready D b0" and "building D b0 b ls" and "ls \<noteq> []" and "weight (stack b) \<le> 2 ^ k" and "k \<le> 255"
  shows "\<exists>b' r. KSI_TreeBuilder_close D b = (b', Ok ()) \<and> rootNode b' = Some r \<and> tn_level (nodes (mem b') ! r) \<le> k"
proof -
  note inv = building_invariant [OF assms(1-3)]
  have rd: "tb_inv D b {}" "rootNode b = None" using inv by (auto simp: ready_def)
  have "(2 :: nat) ^ k \<le> 2 ^ 255" using assms(6) by (intro power_increasing) simp_all
  then have "weight (stack b) \<le> 2 ^ 255" using assms(5) by linarith
  from close_outcome(1) [OF assms(1) rd _ this] inv assms(4) obtain b' r where
    "KSI_TreeBuilder_close D b = (b', Ok ())" "rootNode b' = Some r" "tree_height (weight (stack b)) (tn_level (nodes (mem b') ! r))" by auto
  moreover from this(3) have "tn_level (nodes (mem b') ! r) \<le> k" using tree_height_mono [OF _ tree_height_power assms(5)] by blast
  ultimately show ?thesis by blast
qed

text \<open>Without overhead the weight is the sum over the leaves.\<close>

lemma building_weight:
  assumes "digest_ok D" and "ready D b0" and "building D b0 b ls" and "total_overhead = 0"
  shows "weight (stack b) = weight (stack b0) + (\<Sum>(leaf, hsh, l) \<leftarrow> ls. 2 ^ nat l)"
  using assms(3)
proof (induction rule: building.induct)
  case start
  then show ?case by simp
next
  case (added b ls md hsh l b' leaf)
  have "ready D b" using building_invariant [OF assms(1,2) added.hyps(1)] by simp
  from addLeaf_Ok [OF assms(1) this added.hyps(2,3)] assms(4) have "weight (stack b') = weight (stack b) + 2 ^ nat l"
    by (metis add_0_right le_antisym)
  with added.IH show ?case by simp
next
  case (refused b ls md hsh l b' e)
  have "ready D b" using building_invariant [OF assms(1,2) refused.hyps(1)] by simp
  from addLeaf_Err(2) [OF assms(1) this refused.hyps(2,3)] refused.IH show ?case by auto
qed

end


section \<open>The builder without processors\<close>

interpretation plain: leaf_processors "[]" "\<lambda>_ :: unit. True"
  by unfold_locales simp_all

lemma weight_empty [simp]: "weight_from i (replicate n None) = 0"
  by (induction n arbitrary: i) simp_all

lemma stacked_empty [simp]: "stacked (replicate n None) = {}"
  by (auto simp: stacked_def)

lemma builder_new:
  assumes "KSI_TreeBuilder_new a c = Inr b0"
  shows "tb_inv D (b0\<lparr>maxTreeLevel := mx, cbList := cbs, cbState := c'\<rparr>) {}" and "rootNode b0 = None" and "cbList b0 = []"
    and "stack b0 = replicate 256 None" and "tb_algo b0 = a"
  using assms
  by (auto simp: KSI_TreeBuilder_new_def KSI_DataHasher_open_def KSI_DataHasher_reset_def rbind_eq_Inr KSI_TREE_BUILDER_STACK_LEN_def
      tb_inv_def mem_algo_def heap_ok_def roots_def split: if_splits)

lemma plain_ready: "KSI_TreeBuilder_new a () = Inr b0 \<Longrightarrow> plain.ready D (b0\<lparr>maxTreeLevel := mx\<rparr>)"
  using builder_new(1) [where mx = mx and cbs = "[]" and c' = "()" and D = D] builder_new(2,3) [of a "()" b0] by (simp add: plain.ready_def tb_inv_def)

text \<open>C12. A finished tree proves every leaf: after any sequence of additions, some of which may have been
  refused, closing the builder gives a root such that the hash chain of every leaf with a hash, aggregated
  from the leaf's hash and level, ends in the hash and the level of the root.  The level of the root is
  the least one that has room for the leaves, where a leaf of level \<open>l\<close> counts as \<open>2 ^ l\<close>.\<close>

theorem tree_leaves_reach_root:
  assumes "digest_ok D" and "KSI_TreeBuilder_new a () = Inr b0" and "building D (b0\<lparr>maxTreeLevel := mx\<rparr>) b ls"
    and "KSI_TreeBuilder_close D b = (b', Ok ())"
  shows "\<exists>r. rootNode b' = Some r \<and> tree_height (\<Sum>(leaf, hsh, l) \<leftarrow> ls. 2 ^ nat l) (tn_level (nodes (mem b') ! r))
     \<and> (\<forall>leaf h l. (leaf, Some h, l) \<in> set ls \<longrightarrow>
          (\<exists>c. KSI_TreeLeafHandle_getAggregationChain b' leaf = Ok c \<and> inputHash c = Some h
             \<and> fst (KSI_AggregationHashChain_aggregate D c l) =
                 Ok (int (tn_level (nodes (mem b') ! r)), if chain c = Some [] then None else tn_hash (nodes (mem b') ! r))
             \<and> (chain c = Some [] \<longrightarrow> r = leaf)))"
proof -
  note rd = plain_ready [OF assms(2), of D mx]
  have "weight (stack b) = (\<Sum>(leaf, hsh, l) \<leftarrow> ls. 2 ^ nat l)"
    using plain.building_weight [OF assms(1) rd assms(3)] builder_new(4) [OF assms(2)] by (simp add: plain.total_overhead_def)
  moreover have "plain.ready D b" "list_all (plain.leaf_stored b) ls" using plain.building_invariant [OF assms(1) rd assms(3)] by simp_all
  ultimately show ?thesis using plain.ready_reaches_root [OF assms(1) _ _ assms(4)] by metis
qed

text \<open>C23. A height limit holds: with a maximum level between 1 and 255 no addition fails with an error of
  memory management, whatever is added, and as soon as there is a leaf the builder can be closed, with a
  root whose level does not exceed the maximum.\<close>

theorem tree_height_limit:
  assumes "digest_ok D" and "KSI_TreeBuilder_new a () = Inr b0" and "building D (b0\<lparr>maxTreeLevel := mx\<rparr>) b ls"
    and "0 < mx" and "mx \<le> 255" and "leaf_ok md"
  shows "snd (addLeaf D b hsh md l) \<noteq> Fault
     \<and> (ls \<noteq> [] \<longrightarrow> (\<exists>b' r. KSI_TreeBuilder_close D b = (b', Ok ()) \<and> rootNode b' = Some r \<and> int (tn_level (nodes (mem b') ! r)) \<le> mx))"
proof -
  note rd = plain_ready [OF assms(2), of D mx]
  note inv = plain.building_invariant [OF assms(1) rd assms(3)]
  have w: "weight (stack b) \<le> 2 ^ nat mx"
    using plain.building_bounded [OF assms(1) rd assms(3)] assms(4,5) builder_new(4) [OF assms(2)] by simp
  have "snd (addLeaf D b hsh md l) \<noteq> Fault"
    using plain.addLeaf_bounded(1) [OF assms(1) _ assms(6)] inv assms(4,5) by simp
  moreover have "nat mx \<le> 255" using assms(5) by simp
  then have "ls \<noteq> [] \<longrightarrow> (\<exists>b' r. KSI_TreeBuilder_close D b = (b', Ok ()) \<and> rootNode b' = Some r \<and> int (tn_level (nodes (mem b') ! r)) \<le> mx)"
    using plain.building_close [OF assms(1) rd assms(3) _ w] assms(4) by (metis le_nat_iff less_imp_le)
  ultimately show ?thesis by blast
qed

text \<open>The height \<^verbatim>\<open>calculateHighestLevel\<close> predicts before a leaf is added is the level of the root when the
  leaf is added and the tree is closed.\<close>

theorem predicted_height:
  assumes "digest_ok D" and "KSI_TreeBuilder_new a () = Inr b0" and "building D (b0\<lparr>maxTreeLevel := mx\<rparr>) b ls"
    and "leaf_ok md" and "addLeaf D b hsh md l = (b1, Ok leaf)" and "KSI_TreeBuilder_close D b1 = (b2, Ok ())"
  shows "\<exists>r. rootNode b2 = Some r \<and> tn_level (nodes (mem b2) ! r) = calculateHighestLevel b (nat l)"
proof -
  note rd = plain_ready [OF assms(2), of D mx]
  have b: "plain.ready D b" using plain.building_invariant [OF assms(1) rd assms(3)] by simp
  have l: "l \<le> 255" and w: "weight (stack b1) = weight (stack b) + 2 ^ nat l"
    using plain.addLeaf_Ok [OF assms(1) b assms(4,5)] by (metis add_0_right le_antisym plain.total_overhead_def list.map(1) sum_list.Nil)+
  have len: "length (stack b) = 256" "nat l < 256" using b l by (simp_all add: plain.ready_def tb_inv_def)
  obtain r where "rootNode b2 = Some r" "tree_height (weight (stack b1)) (tn_level (nodes (mem b2) ! r))"
    using plain.building_invariant [OF assms(1) rd building.added [OF assms(3-5)]] plain.ready_reaches_root [OF assms(1) _ _ assms(6)] by metis
  then show ?thesis using tree_height_unique height_stack [OF len] w by metis
qed

text \<open>Without a height limit leaves can be added until the tree would become higher than level 255, and
  the addition that goes too far is not refused: unless the leaf itself has level 255, a node is freed
  twice.\<close>

theorem unlimited_double_free:
  assumes "digest_ok D" and "KSI_TreeBuilder_new a () = Inr b0" and "building D (b0\<lparr>maxTreeLevel := 0\<rparr>) b ls"
    and "0 \<le> l" and "l < 255"
  shows "snd (KSI_TreeBuilder_addDataHash D b (Some h) l) = Fault \<longleftrightarrow> (2 :: nat) ^ 256 \<le> (\<Sum>(leaf, hsh, l) \<leftarrow> ls. 2 ^ nat l) + 2 ^ nat l"
proof -
  note rd = plain_ready [OF assms(2), of D 0]
  note inv = plain.building_invariant [OF assms(1) rd assms(3)]
  have b: "plain.ready D b" "rootNode b = None" "cbList b = []" "maxTreeLevel b = 0" using inv by (simp_all add: plain.ready_def)
  have w: "weight (stack b) = (\<Sum>(leaf, hsh, l) \<leftarrow> ls. 2 ^ nat l)"
    using plain.building_weight [OF assms(1) rd assms(3)] builder_new(4) [OF assms(2)] by (simp add: plain.total_overhead_def)
  define n where "n = \<lparr>tn_hash = Some h, tn_metaData = None, tn_level = nat l, parent = None, leftChild = None, rightChild = None\<rparr>"
  have n: "KSI_TreeNode_new (Some h) None l = Inr n" using assms(4,5) by (simp add: KSI_TreeNode_new_def n_def KSI_IS_VALID_TREE_LEVEL_def)
  define m where "m = snd (alloc n (mem b))"
  have m: "alloc n (mem b) = (length (nodes (mem b)), m)" "nodes m = nodes (mem b) @ [n]" by (simp_all add: m_def alloc_def)
  have "plain.forest D (tb_algo b) m (length (nodes (mem b))) (stacked (stack b))"
    unfolding m_def by (rule plain.new_leaf_forest(1) [OF b(1) _ n]) (simp add: leaf_ok_def)
  from plain.forest_tb_inv [OF b(1) this, of "()"] have i: "tb_inv D (b\<lparr>mem := m, cbState := ()\<rparr>) {length (nodes (mem b))}"
    using m(2) kept_append by metis
  have lv: "tn_level (nodes m ! length (nodes (mem b))) = nat l" by (simp add: m(2) n_def)
  have "snd (addLeaf D b (Some h) None l) = Fault \<longleftrightarrow> insertNode D (b\<lparr>mem := m, cbState := ()\<rparr>) (length (nodes (mem b))) = Fault"
    using n m(1) b(2-4) assms(4,5)
    by (auto simp: addLeaf_def KSI_IS_VALID_TREE_LEVEL_def addLeaf_height_def processAndInsertNode_def split: run.splits)
  also have "\<dots> \<longleftrightarrow> 2 ^ 256 \<le> weight (stack b) + 2 ^ nat l"
    using insertNode_outcome [OF assms(1) i] lv assms(5) by (cases "2 ^ 256 \<le> weight (stack b) + 2 ^ nat l") (auto simp: not_le)
  finally show ?thesis by (simp only: KSI_TreeBuilder_addDataHash_def w)
qed


text \<open>A tree with two leaves, and one without a limit that is full.\<close>

definition zero_digest :: "int \<Rightarrow> bytes \<Rightarrow> bytes" where
  "zero_digest a m = replicate (KSI_getHashLength a) (of_nat (length m))"

definition sample_builder :: "int \<Rightarrow> unit KSI_TreeBuilder" where
  "sample_builder mx = projr (KSI_TreeBuilder_new 1 ())\<lparr>maxTreeLevel := mx\<rparr>"

fun sample_add :: "unit KSI_TreeBuilder \<Rightarrow> int list \<Rightarrow> unit KSI_TreeBuilder" where
  "sample_add b [] = b"
| "sample_add b (l # ls) = sample_add (fst (addLeaf zero_digest b (Some [1, 2, 3]) None l)) ls"

lemma zero_digest_ok: "digest_ok zero_digest"
  by (simp add: digest_ok_def zero_digest_def)

lemma sample_new: "KSI_TreeBuilder_new 1 () = Inr (projr (KSI_TreeBuilder_new 1 () :: unit KSI_TreeBuilder ksi_result))"
  by (simp add: KSI_TreeBuilder_new_def KSI_isHashAlgorithmSupported_def KSI_DataHasher_open_def KSI_DataHasher_reset_def)

lemma sample_step:
  "building zero_digest b0 b ls \<Longrightarrow> snd (addLeaf zero_digest b (Some [1, 2, 3]) None l) = Ok leaf \<Longrightarrow>
   building zero_digest b0 (sample_add b [l]) (ls @ [(leaf, Some [1, 2, 3], l)])"
  by (cases "addLeaf zero_digest b (Some [1, 2, 3]) None l") (auto simp: leaf_ok_def intro!: building.added)

lemma sample_two:
  "building zero_digest (sample_builder 2) (sample_add (sample_builder 2) [0, 1]) [(0, Some [1, 2, 3], 0), (1, Some [1, 2, 3], 1)]"
proof -
  have a: "snd (addLeaf zero_digest (sample_builder 2) (Some [1, 2, 3]) None 0) = Ok 0" by code_simp
  have b: "snd (addLeaf zero_digest (sample_add (sample_builder 2) [0]) (Some [1, 2, 3]) None 1) = Ok 1" by code_simp
  from sample_step [OF sample_step [OF building.start a] b] show ?thesis by simp
qed

lemma sample_full:
  "building zero_digest (sample_builder 0) (sample_add (sample_builder 0) [255, 254]) [(0, Some [1, 2, 3], 255), (1, Some [1, 2, 3], 254)]"
proof -
  have a: "snd (addLeaf zero_digest (sample_builder 0) (Some [1, 2, 3]) None 255) = Ok 0" by code_simp
  have b: "snd (addLeaf zero_digest (sample_add (sample_builder 0) [255]) (Some [1, 2, 3]) None 254) = Ok 1" by code_simp
  from sample_step [OF sample_step [OF building.start a] b] show ?thesis by simp
qed

lemma sample_close:
  "KSI_TreeBuilder_close zero_digest (sample_add (sample_builder 2) [0, 1]) =
     (fst (KSI_TreeBuilder_close zero_digest (sample_add (sample_builder 2) [0, 1])), Ok ())"
proof -
  have "snd (KSI_TreeBuilder_close zero_digest (sample_add (sample_builder 2) [0, 1])) = Ok ()" by code_simp
  then show ?thesis by (metis prod.collapse)
qed

theorem tree_leaves_reach_root_witness:
  "\<exists>r c. rootNode (fst (KSI_TreeBuilder_close zero_digest (sample_add (sample_builder 2) [0, 1]))) = Some r
     \<and> KSI_TreeLeafHandle_getAggregationChain (fst (KSI_TreeBuilder_close zero_digest (sample_add (sample_builder 2) [0, 1]))) 1 = Ok c
     \<and> inputHash c = Some [1, 2, 3]"
  using tree_leaves_reach_root [OF zero_digest_ok sample_new sample_two [unfolded sample_builder_def] sample_close [unfolded sample_builder_def]]
  unfolding sample_builder_def by (metis list.set_intros(1) list.set_intros(2))

theorem tree_height_limit_witness:
  "snd (addLeaf zero_digest (sample_add (sample_builder 2) [0, 1]) (Some [1]) None 1) \<noteq> Fault"
  using tree_height_limit [OF zero_digest_ok sample_new sample_two [unfolded sample_builder_def], of None "Some [1]" 1]
  unfolding sample_builder_def by (simp add: leaf_ok_def)

theorem predicted_height_witness:
  "\<exists>r. rootNode (fst (KSI_TreeBuilder_close zero_digest (sample_add (sample_builder 2) [0, 1]))) = Some r
     \<and> tn_level (nodes (mem (fst (KSI_TreeBuilder_close zero_digest (sample_add (sample_builder 2) [0, 1])))) ! r) = 2"
proof -
  have a: "snd (addLeaf zero_digest (sample_builder 2) (Some [1, 2, 3]) None 0) = Ok 0" by code_simp
  have "snd (addLeaf zero_digest (sample_add (sample_builder 2) [0]) (Some [1, 2, 3]) None 1) = Ok 1" by code_simp
  then have b: "addLeaf zero_digest (sample_add (sample_builder 2) [0]) (Some [1, 2, 3]) None 1 = (sample_add (sample_builder 2) [0, 1], Ok 1)"
    by (simp add: prod_eq_iff)
  have h: "calculateHighestLevel (sample_add (sample_builder 2) [0]) 1 = 2" by code_simp
  from predicted_height [OF zero_digest_ok sample_new sample_step [OF building.start a, unfolded sample_builder_def] _ b [unfolded sample_builder_def]
      sample_close [unfolded sample_builder_def]] h
  show ?thesis unfolding sample_builder_def by (simp add: leaf_ok_def)
qed

theorem unlimited_double_free_witness:
  "snd (KSI_TreeBuilder_addDataHash zero_digest (sample_add (sample_builder 0) [255, 254]) (Some [9]) 254) = Fault"
  using unlimited_double_free [OF zero_digest_ok sample_new sample_full [unfolded sample_builder_def], of 254 "[9]"]
  unfolding sample_builder_def by simp

end
