(* ===== verification/BlockSigner.thy ===== *)
theory BlockSigner
  imports TreeBuilder
begin

text \<open>
  The block signer of \<^verbatim>\<open>src/src/ksi/blocksigner.c\<close>: it collects hash values in a tree builder and signs the
  root.  Two leaf processors stand between a leaf and the tree: one blinds the leaf with a mask derived
  from the previous leaf and a secret, the other attaches the metadata of the leaf.

  The processors work on the fields of the signer their contexts point at; these are the state of the
  contexts in the tree builder.  The request to the aggregation service is a parameter.
\<close>

section \<open>State\<close>

record signer_state =
  prevLeaf :: "KSI_DataHash option"
  iv :: "KSI_OctetString option"
  sg_metaData :: "KSI_MetaData option"

record 'sig KSI_BlockSigner =
  builder :: "signer_state KSI_TreeBuilder"
  signature :: "'sig option"
  origPrevLeaf :: "KSI_DataHash option"

section \<open>Leaf processors\<close>

definition metaDataProcessor :: "tree_mem \<Rightarrow> nat \<Rightarrow> signer_state \<Rightarrow> signer_state \<times> (nat option \<times> tree_mem) ksi_result" where
  "metaDataProcessor m node c =
     (case sg_metaData c of
        Some md \<Rightarrow>
          (c, rbind (KSI_TreeNode_new None (Some md) (int (tn_level (nodes m ! node)))) (\<lambda>n.
                let (t, m) = alloc n m in Inr (Some t, m)))
      | None \<Rightarrow> (c, Inr (None, m)))"

text \<open>The mask of a leaf, and the value the code takes for the masked leaf.\<close>

definition maskValue ::
    "(int \<Rightarrow> bytes \<Rightarrow> bytes) \<Rightarrow> KSI_DataHasher \<Rightarrow> KSI_DataHash \<Rightarrow> KSI_OctetString \<Rightarrow> (KSI_DataHash \<times> KSI_DataHasher) ksi_result" where
  "maskValue D h prev v =
     rbind (KSI_DataHasher_reset (Some h)) (\<lambda>h.
     rbind (KSI_DataHasher_addImprint (Some h) (Some prev)) (\<lambda>h.
     rbind (KSI_DataHasher_addOctetString (Some h) (Some v)) (\<lambda>h.
       KSI_DataHasher_close D (Some h))))"

definition maskedLeaf ::
    "(int \<Rightarrow> bytes \<Rightarrow> bytes) \<Rightarrow> KSI_DataHasher \<Rightarrow> KSI_DataHash \<Rightarrow> KSI_DataHash \<Rightarrow> int \<Rightarrow> (KSI_DataHash \<times> KSI_DataHasher) ksi_result" where
  "maskedLeaf D h msk leaf lvl =
     rbind (KSI_DataHasher_reset (Some h)) (\<lambda>h.
     rbind (KSI_DataHasher_addImprint (Some h) (Some msk)) (\<lambda>h.
     rbind (KSI_DataHasher_addImprint (Some h) (Some leaf)) (\<lambda>h.
     check (\<not> KSI_IS_VALID_TREE_LEVEL (lvl + 1)) KSI_INVALID_STATE
     (rbind (KSI_DataHasher_add (Some h) (Some [of_int (lvl + 1)])) (\<lambda>h.
       KSI_DataHasher_close D (Some h))))))"

definition maskingProcessor ::
    "(int \<Rightarrow> bytes \<Rightarrow> bytes) \<Rightarrow> tree_mem \<Rightarrow> nat \<Rightarrow> signer_state \<Rightarrow> signer_state \<times> (nat option \<times> tree_mem) ksi_result" where
  "maskingProcessor D m node c =
     (let n = nodes m ! node; lvl = int (tn_level n) in
      case (iv c, prevLeaf c) of
        (Some v, Some prev) \<Rightarrow>
          (case tn_hash n of
             None \<Rightarrow> (c, Inl KSI_INVALID_STATE)
           | Some leaf \<Rightarrow>
               (case rbind (maskValue D (hsr m) prev v) (\<lambda>(msk, h).
                      rbind (KSI_TreeNode_new (Some msk) None lvl) (\<lambda>tmp.
                      rbind (maskedLeaf D h msk leaf lvl) (\<lambda>(leafHash, h). Inr (tmp, leafHash, h)))) of
                  Inl e \<Rightarrow> (c, Inl e)
                | Inr (tmp, leafHash, h) \<Rightarrow>
                    let (t, m) = alloc tmp (m\<lparr>hsr := h\<rparr>) in (c\<lparr>prevLeaf := Some leafHash\<rparr>, Inr (Some t, m))))
      | _ \<Rightarrow> (c, Inr (None, m)))"

definition signer_processors :: "(int \<Rightarrow> bytes \<Rightarrow> bytes) \<Rightarrow> signer_state KSI_TreeBuilderLeafProcessor list" where
  "signer_processors D =
     [\<lparr>proc_fn = Some (maskingProcessor D), levelOverhead = 1\<rparr>, \<lparr>proc_fn = Some metaDataProcessor, levelOverhead = 1\<rparr>]"

section \<open>The signer\<close>

definition KSI_BlockSigner_new ::
    "(int \<Rightarrow> bytes \<Rightarrow> bytes) \<Rightarrow> int \<Rightarrow> KSI_DataHash option \<Rightarrow> KSI_OctetString option \<Rightarrow> 'sig KSI_BlockSigner ksi_result" where
  "KSI_BlockSigner_new D algoId prev initVal =
     (if prev = None \<and> initVal \<noteq> None \<or> prev \<noteq> None \<and> initVal = None then Inl KSI_INVALID_ARGUMENT
      else if \<not> KSI_isHashAlgorithmTrusted algoId then Inl KSI_UNTRUSTED_HASH_ALGORITHM
      else
        rbind (KSI_DataHasher_open algoId) (\<lambda>h.
        rbind (KSI_TreeBuilder_new algoId \<lparr>prevLeaf = prev, iv = initVal, sg_metaData = None\<rparr>) (\<lambda>b.
          Inr \<lparr>builder = b\<lparr>cbList := signer_processors D\<rparr>, signature = None, origPrevLeaf = prev\<rparr>)))"

definition KSI_BlockSigner_addLeaf ::
    "(int \<Rightarrow> bytes \<Rightarrow> bytes) \<Rightarrow> 'sig KSI_BlockSigner \<Rightarrow> KSI_DataHash option \<Rightarrow> int \<Rightarrow> KSI_MetaData option
       \<Rightarrow> 'sig KSI_BlockSigner \<times> nat run" where
  "KSI_BlockSigner_addLeaf D s hsh l md =
     (let clear = (\<lambda>s. s\<lparr>builder := (builder s)\<lparr>cbState := (cbState (builder s))\<lparr>sg_metaData := None\<rparr>\<rparr>\<rparr>) in
      if hsh = None then (clear s, Err KSI_INVALID_ARGUMENT)
      else
        (case KSI_DataHash_extract hsh of
           Inl e \<Rightarrow> (clear s, Err e)
         | Inr (algoId, digest) \<Rightarrow>
             if \<not> KSI_isHashAlgorithmTrusted algoId then (clear s, Err KSI_UNTRUSTED_HASH_ALGORITHM)
             else
               let b = (builder s)\<lparr>cbState := (cbState (builder s))\<lparr>sg_metaData := md\<rparr>\<rparr>;
                   (b, r) = KSI_TreeBuilder_addDataHash D b hsh l in
               (clear (s\<lparr>builder := b\<rparr>), r)))"

text \<open>\<open>sign\<close> is the request for a signature of the root hash at its level.\<close>

definition KSI_BlockSigner_closeAndSign ::
    "(int \<Rightarrow> bytes \<Rightarrow> bytes) \<Rightarrow> (KSI_DataHash option \<Rightarrow> nat \<Rightarrow> 'sig ksi_result) \<Rightarrow> 'sig KSI_BlockSigner
       \<Rightarrow> 'sig KSI_BlockSigner \<times> unit run" where
  "KSI_BlockSigner_closeAndSign D sign s =
     (let (b, r) = KSI_TreeBuilder_close D (builder s); s = s\<lparr>builder := b\<rparr> in
      (case r of
         Fault \<Rightarrow> (s, Fault)
       | Err e \<Rightarrow> (s, Err e)
       | Ok _ \<Rightarrow>
           let root = nodes (mem b) ! the (rootNode b) in
           (case sign (tn_hash root) (tn_level root) of
              Inl e \<Rightarrow> (s, Err e)
            | Inr sig \<Rightarrow> (s\<lparr>signature := Some sig\<rparr>, Ok ()))))"

definition KSI_BlockSigner_close ::
    "(int \<Rightarrow> bytes \<Rightarrow> bytes) \<Rightarrow> (KSI_DataHash option \<Rightarrow> nat \<Rightarrow> 'sig ksi_result) \<Rightarrow> 'sig KSI_BlockSigner
       \<Rightarrow> 'sig KSI_BlockSigner \<times> unit run" where
  "KSI_BlockSigner_close = KSI_BlockSigner_closeAndSign"

definition KSI_BlockSigner_reset :: "(int \<Rightarrow> bytes \<Rightarrow> bytes) \<Rightarrow> 'sig KSI_BlockSigner \<Rightarrow> 'sig KSI_BlockSigner ksi_result" where
  "KSI_BlockSigner_reset D s =
     rbind (KSI_TreeBuilder_new (tb_algo (builder s)) (cbState (builder s))) (\<lambda>b.
       Inr (s\<lparr>signature := None,
              builder := b\<lparr>cbList := signer_processors D, cbState := (cbState b)\<lparr>prevLeaf := origPrevLeaf s\<rparr>\<rparr>\<rparr>))"

definition KSI_BlockSigner_getPrevLeaf :: "'sig KSI_BlockSigner \<Rightarrow> KSI_DataHash option" where
  "KSI_BlockSigner_getPrevLeaf s = prevLeaf (cbState (builder s))"

section \<open>The processors keep the contract\<close>

definition signer_ok :: "signer_state \<Rightarrow> bool" where
  "signer_ok c \<longleftrightarrow> leaf_ok (sg_metaData c)"

lemma hasher_algorithm:
  "KSI_DataHasher_reset (Some h) = Inr h' \<Longrightarrow> algorithm h' = algorithm h"
  "KSI_DataHasher_addImprint (Some h) x = Inr h' \<Longrightarrow> algorithm h' = algorithm h"
  "KSI_DataHasher_addOctetString (Some h) y = Inr h' \<Longrightarrow> algorithm h' = algorithm h"
  "KSI_DataHasher_add (Some h) z = Inr h' \<Longrightarrow> algorithm h' = algorithm h"
  "KSI_DataHasher_close D (Some h) = Inr (v, h') \<Longrightarrow> algorithm h' = algorithm h"
  by (cases x; cases y; cases z; auto simp: KSI_DataHasher_reset_def KSI_DataHasher_addImprint_def KSI_DataHasher_addOctetString_def
      KSI_DataHasher_add_def KSI_DataHasher_close_def rbind_eq_Inr octet_ptr_def split: if_splits)+

lemma mask_algorithm:
  "maskValue D h p v = Inr (x, h') \<Longrightarrow> algorithm h' = algorithm h"
  "maskedLeaf D h p q l = Inr (x, h') \<Longrightarrow> algorithm h' = algorithm h"
  by (auto simp: maskValue_def maskedLeaf_def rbind_eq_Inr dest!: hasher_algorithm)


lemma masking_cases:
  assumes "snd (maskingProcessor D m node c) = Inr (out, m')"
  shows "out = None \<and> m' = m \<or> out = Some (length (nodes m)) \<and> algorithm (hsr m') = algorithm (hsr m)
      \<and> tn_level (nodes m ! node) \<le> 255
      \<and> (\<exists>msk. nodes m' = nodes m @ [\<lparr>tn_hash = Some msk, tn_metaData = None, tn_level = tn_level (nodes m ! node),
                parent = None, leftChild = None, rightChild = None\<rparr>])"
  using assms
  by (auto simp: maskingProcessor_def Let_def KSI_TreeNode_new_def KSI_IS_VALID_TREE_LEVEL_def alloc_def rbind_eq_Inr
      dest!: mask_algorithm split: option.splits sum.splits if_splits)

lemma metaData_cases:
  assumes "snd (metaDataProcessor m node c) = Inr (out, m')"
  shows "out = None \<and> m' = m \<or> (\<exists>md. sg_metaData c = Some md \<and> out = Some (length (nodes m)) \<and>
      m' = m\<lparr>nodes := nodes m @ [\<lparr>tn_hash = None, tn_metaData = Some md, tn_level = tn_level (nodes m ! node),
                parent = None, leftChild = None, rightChild = None\<rparr>]\<rparr> \<and> tn_level (nodes m ! node) \<le> 255)"
  using assms
  by (auto simp: metaDataProcessor_def KSI_TreeNode_new_def KSI_IS_VALID_TREE_LEVEL_def alloc_def rbind_eq_Inr
      split: option.splits if_splits)

lemma processors_state:
  "sg_metaData (fst (maskingProcessor D m node c)) = sg_metaData c" "iv (fst (maskingProcessor D m node c)) = iv c"
  "fst (metaDataProcessor m node c) = c"
  by (auto simp: maskingProcessor_def metaDataProcessor_def Let_def alloc_def split: option.splits sum.splits prod.splits)

interpretation signer: leaf_processors "signer_processors D" signer_ok for D
proof (unfold_locales, goal_cases)
  case (1 cb)
  then show ?case by (auto simp: signer_processors_def)
next
  case (2 cb f c m i)
  then show ?case by (auto simp: signer_processors_def signer_ok_def processors_state)
next
  case (3 cb f c a m i out m')
  then consider "f = maskingProcessor D" | "f = metaDataProcessor" by (auto simp: signer_processors_def)
  then show ?case
  proof cases
    case 1
    with 3 masking_cases [of D m i c out m'] show ?thesis
      by (auto simp: signer_processors_def mem_algo_def node_ok_def)
  next
    case 2
    with 3 metaData_cases [of m i c out m'] show ?thesis
      by (auto simp: signer_processors_def mem_algo_def node_ok_def signer_ok_def leaf_ok_def)
  qed
qed

section \<open>A session of the signer\<close>

inductive signing ::
    "(int \<Rightarrow> bytes \<Rightarrow> bytes) \<Rightarrow> 'sig KSI_BlockSigner \<Rightarrow> 'sig KSI_BlockSigner \<Rightarrow> (nat \<times> KSI_DataHash option \<times> int) list \<Rightarrow> bool"
  for D s0 where
  start: "signing D s0 s0 []"
| added: "signing D s0 s ls \<Longrightarrow> leaf_ok md \<Longrightarrow> KSI_BlockSigner_addLeaf D s hsh l md = (s', Ok leaf) \<Longrightarrow>
    signing D s0 s' (ls @ [(leaf, hsh, l)])"
| refused: "signing D s0 s ls \<Longrightarrow> leaf_ok md \<Longrightarrow> KSI_BlockSigner_addLeaf D s hsh l md = (s', Err e) \<Longrightarrow> signing D s0 s' ls"

text \<open>What a call of \<^verbatim>\<open>KSI_BlockSigner_addLeaf\<close> amounts to in the tree builder.\<close>

definition with_state :: "signer_state \<Rightarrow> signer_state KSI_TreeBuilder \<Rightarrow> signer_state KSI_TreeBuilder" where
  "with_state c b = b\<lparr>cbState := c\<rparr>"

lemma ready_with_state: "signer.ready D D b \<Longrightarrow> signer_ok c \<Longrightarrow> signer.ready D D (with_state c b)"
  by (simp add: signer.ready_def with_state_def tb_inv_def)

lemma with_state_simps [simp]:
  "stack (with_state c b) = stack b" "mem (with_state c b) = mem b" "tb_algo (with_state c b) = tb_algo b"
  "maxTreeLevel (with_state c b) = maxTreeLevel b" "cbState (with_state c b) = c" "rootNode (with_state c b) = rootNode b"
  "with_state d (with_state c b) = with_state d b" "cbList (with_state c b) = cbList b"
  by (simp_all add: with_state_def)

lemma addLeaf_builder:
  assumes "KSI_BlockSigner_addLeaf D s hsh l md = (s', r)"
  shows "(\<exists>e. r = Err e \<and> s' = s\<lparr>builder := with_state ((cbState (builder s))\<lparr>sg_metaData := None\<rparr>) (builder s)\<rparr>)
     \<or> (\<exists>b. addLeaf D (with_state ((cbState (builder s))\<lparr>sg_metaData := md\<rparr>) (builder s)) hsh None l = (b, r)
          \<and> s' = s\<lparr>builder := with_state ((cbState b)\<lparr>sg_metaData := None\<rparr>) b\<rparr>)"
proof (cases "hsh = None \<or> (\<forall>x. KSI_DataHash_extract hsh = Inr x \<longrightarrow> \<not> KSI_isHashAlgorithmTrusted (fst x))")
  case True
  then show ?thesis using assms by (auto simp: KSI_BlockSigner_addLeaf_def Let_def with_state_def split: sum.splits if_splits)
next
  case False
  then obtain a d where "hsh \<noteq> None" "KSI_DataHash_extract hsh = Inr (a, d)" "KSI_isHashAlgorithmTrusted a" by auto
  then show ?thesis using assms
    by (cases "addLeaf D (with_state ((cbState (builder s))\<lparr>sg_metaData := md\<rparr>) (builder s)) hsh None l")
       (auto simp: KSI_BlockSigner_addLeaf_def Let_def with_state_def KSI_TreeBuilder_addDataHash_def)
qed


lemma join_kept: "KSI_TreeNode_join D m l r = Ok (t, m') \<Longrightarrow> kept (nodes m) (nodes m')"
  by (auto simp: KSI_TreeNode_join_def Let_def alloc_def run_bind_eq_Ok kept_def nth_append split: if_splits)

lemma insertNode_keeps: "insertNode D b node = Ok b' \<Longrightarrow> cbState b' = cbState b \<and> kept (nodes (mem b)) (nodes (mem b'))"
proof (induction D b node arbitrary: b' rule: insertNode.induct)
  case (1 D b node)
  let ?k = "tn_level (nodes (mem b) ! node)"
  from "1.prems" have v: "KSI_IS_VALID_TREE_LEVEL (int ?k)" by (subst (asm) insertNode.simps) (auto simp: Let_def split: if_splits)
  show ?case
  proof (cases "stack b ! ?k")
    case None
    then show ?thesis using "1.prems" v by (subst (asm) insertNode.simps) (auto simp: Let_def)
  next
    case (Some s)
    with "1.prems" v obtain root m where m: "KSI_TreeNode_join D (mem b) s node = Ok (root, m)"
        "insertNode D (b\<lparr>mem := m, stack := (stack b)[?k := None]\<rparr>) root = Ok b'"
      by (subst (asm) insertNode.simps) (auto simp: Let_def split: run.splits)
    from "1.IH" [OF refl _ Some m(1) refl m(2)] v show ?thesis using kept_trans [OF join_kept [OF m(1)]] by simp
  qed
qed

lemma addLeaf_state:
  assumes "addLeaf D b hsh md l = (b', r)"
  shows "cbState b' = cbState b \<or> (\<exists>m node. cbState b' = fst (processNode D (cbList b) m node (cbState b)))"
proof (cases "KSI_TreeNode_new hsh md l")
  case (Inl e)
  then show ?thesis using assms by (auto simp: addLeaf_def split: if_splits sum.splits)
next
  case (Inr n)
  obtain node m where m: "alloc n (mem b) = (node, m)" by (cases "alloc n (mem b)")
  obtain c q where p: "processNode D (cbList b) m node (cbState b) = (c, q)" by (cases "processNode D (cbList b) m node (cbState b)")
  then have "c = fst (processNode D (cbList b) m node (cbState b))" by simp
  moreover have "cbState b' = c \<or> cbState b' = cbState b"
    using assms Inr m p
    by (auto simp: addLeaf_def processAndInsertNode_def run_bind_eq_Ok dest!: insertNode_keeps split: if_splits sum.splits run.splits)
  ultimately show ?thesis by blast
qed

lemma processNode_keeps:
  assumes "\<And>cb f m i c. cb \<in> set cbs \<Longrightarrow> proc_fn cb = Some f \<Longrightarrow> P c \<Longrightarrow> P (fst (f m i c))" and "P c"
  shows "P (fst (processNode D cbs m node c))"
  using assms
proof (induction cbs arbitrary: m node c)
  case (Cons cb cbs)
  show ?case
  proof (cases "proc_fn cb")
    case (Some f)
    obtain c' r where f: "f m node c = (c', r)" by (cases "f m node c")
    have c': "P c'" using Cons.prems(1) [of cb f c m node] Cons.prems(2) Some f by simp
    have IH: "P (fst (processNode D cbs m' i c'))" for m' i by (rule Cons.IH) (rule Cons.prems(1), simp_all add: c')
    then show ?thesis using Some f c' by (auto split: sum.split option.split run.split)
  qed (use Cons.prems in simp)
qed simp

lemma processors_iv: "iv (fst (processNode D (signer_processors D) m node c)) = iv c"
  by (rule processNode_keeps [where P = "\<lambda>x. iv x = iv c"]) (auto simp: signer_processors_def processors_state)

lemma signing_invariant:
  assumes "digest_ok D" and "signer.ready D D (builder s0)" and "signing D s0 s ls"
  shows "signer.ready D D (builder s) \<and> list_all (signer.leaf_stored (builder s)) ls \<and> tb_algo (builder s) = tb_algo (builder s0)
    \<and> origPrevLeaf s = origPrevLeaf s0 \<and> iv (cbState (builder s)) = iv (cbState (builder s0))"
  using assms(3)
proof (induction rule: signing.induct)
  case start
  then show ?case using assms(2) by simp
next
  case (added s ls md hsh l s' leaf)
  let ?c = "(cbState (builder s))\<lparr>sg_metaData := md\<rparr>"
  have rd: "signer.ready D D (with_state ?c (builder s))"
    by (rule ready_with_state) (use added.IH in blast, use added.hyps(2) in \<open>simp add: signer_ok_def\<close>)
  obtain b where b: "addLeaf D (with_state ?c (builder s)) hsh None l = (b, Ok leaf)"
      "s' = s\<lparr>builder := with_state ((cbState b)\<lparr>sg_metaData := None\<rparr>) b\<rparr>"
    using addLeaf_builder [OF added.hyps(3)] by auto
  have none: "leaf_ok None" by (simp add: leaf_ok_def)
  from signer.addLeaf_Ok [OF assms(1) rd none b(1)] have k: "signer.ready D D b" "kept (nodes (mem (builder s))) (nodes (mem b))"
    "leaf < length (nodes (mem b))" "tn_hash (nodes (mem b) ! leaf) = hsh" "tn_level (nodes (mem b) ! leaf) = nat l" "0 \<le> l"
    "tb_algo b = tb_algo (builder s)" unfolding with_state_simps by metis+
  have "signer.ready D D (builder s')"
    unfolding b(2) using k(1) by (simp add: ready_with_state signer_ok_def leaf_ok_def)
  moreover have "iv (cbState b) = iv (cbState (builder s))"
    using addLeaf_state [OF b(1)] processors_iv rd by (auto simp: signer.ready_def)
  moreover have "list_all (signer.leaf_stored (builder s')) ls"
    using added.IH k(2) signer.leaf_stored_kept [of "builder s" _ "builder s'"] by (auto simp: list_all_iff b(2))
  moreover have "signer.leaf_stored (builder s') (leaf, hsh, l)" using k by (simp add: signer.leaf_stored_def b(2))
  ultimately show ?case using added.IH k(7) by (simp add: b(2))
next
  case (refused s ls md hsh l s' e)
  let ?c = "(cbState (builder s))\<lparr>sg_metaData := md\<rparr>"
  have rd: "signer.ready D D (with_state ?c (builder s))"
    by (rule ready_with_state) (use refused.IH in blast, use refused.hyps(2) in \<open>simp add: signer_ok_def\<close>)
  have none: "leaf_ok None" by (simp add: leaf_ok_def)
  have st: "signer_ok (c\<lparr>sg_metaData := None\<rparr>)" for c by (simp add: signer_ok_def leaf_ok_def)
  consider "s' = s\<lparr>builder := with_state ((cbState (builder s))\<lparr>sg_metaData := None\<rparr>) (builder s)\<rparr>"
    | b where "addLeaf D (with_state ?c (builder s)) hsh None l = (b, Err e)"
       "s' = s\<lparr>builder := with_state ((cbState b)\<lparr>sg_metaData := None\<rparr>) b\<rparr>"
    using addLeaf_builder [OF refused.hyps(3)] by auto
  then show ?case
  proof cases
    case 1
    then show ?thesis using refused.IH st by (auto simp: ready_with_state signer.leaf_stored_def list_all_iff)
  next
    case (2 b)
    from signer.addLeaf_Err(2) [OF assms(1) rd none 2(1)] obtain c where c: "b = with_state c (builder s)" by (auto simp: with_state_def)
    have "iv (cbState b) = iv (cbState (builder s))"
      using addLeaf_state [OF 2(1)] processors_iv rd by (auto simp: signer.ready_def)
    then show ?thesis using refused.IH st by (auto simp: 2(2) c ready_with_state signer.leaf_stored_def list_all_iff)
  qed
qed

lemma signer_new:
  assumes "KSI_BlockSigner_new D a p v = Inr s0"
  shows "signer.ready D D (builder s0)" and "signature s0 = None" and "origPrevLeaf s0 = p" and "tb_algo (builder s0) = a"
    and "iv (cbState (builder s0)) = v" and "prevLeaf (cbState (builder s0)) = p"
    and "KSI_TreeBuilder_new a \<lparr>prevLeaf = p, iv = v, sg_metaData = None\<rparr> = Inr ((builder s0)\<lparr>cbList := []\<rparr>)"
    and "cbState (builder s0) = \<lparr>prevLeaf = p, iv = v, sg_metaData = None\<rparr>"
proof -
  obtain b where b: "KSI_TreeBuilder_new a \<lparr>prevLeaf = p, iv = v, sg_metaData = None\<rparr> = Inr b"
      "s0 = \<lparr>builder = b\<lparr>cbList := signer_processors D\<rparr>, signature = None, origPrevLeaf = p\<rparr>"
    using assms by (auto simp: KSI_BlockSigner_new_def rbind_eq_Inr split: if_splits)
  have st: "cbState b = \<lparr>prevLeaf = p, iv = v, sg_metaData = None\<rparr>" "b\<lparr>cbList := []\<rparr> = b"
    using b(1) by (auto simp: KSI_TreeBuilder_new_def rbind_eq_Inr split: if_splits)
  have "tb_inv D (b\<lparr>cbList := signer_processors D\<rparr>) {}"
    using builder_new(1) [OF b(1), where D = D and mx = 0 and cbs = "signer_processors D" and c' = "cbState b"] by (simp add: tb_inv_def)
  then show "signer.ready D D (builder s0)"
    using builder_new(2) [OF b(1)] st by (simp add: b(2) signer.ready_def signer_ok_def leaf_ok_def)
  show "signature s0 = None" "origPrevLeaf s0 = p" "tb_algo (builder s0) = a" "iv (cbState (builder s0)) = v"
    "prevLeaf (cbState (builder s0)) = p"
    "KSI_TreeBuilder_new a \<lparr>prevLeaf = p, iv = v, sg_metaData = None\<rparr> = Inr ((builder s0)\<lparr>cbList := []\<rparr>)"
    "cbState (builder s0) = \<lparr>prevLeaf = p, iv = v, sg_metaData = None\<rparr>"
    using b st builder_new(5) [OF b(1)] by simp_all
qed

text \<open>C15. The block signer proves every leaf: when a session is closed and signed, the aggregation service has
  been asked to sign the hash and the level of the root, and the hash chain of every leaf, through its
  mask and its metadata, aggregates from the leaf's hash and level to exactly these.\<close>

theorem signer_proves_leaves:
  assumes "digest_ok D" and "KSI_BlockSigner_new D a p v = Inr s0" and "signing D s0 s ls"
    and "KSI_BlockSigner_closeAndSign D sign s = (s', Ok ())"
  shows "\<exists>root rh lv sig. rootNode (builder s') = Some root \<and> tn_hash (nodes (mem (builder s')) ! root) = rh
     \<and> tn_level (nodes (mem (builder s')) ! root) = lv \<and> sign rh lv = Inr sig \<and> signature s' = Some sig
     \<and> (\<forall>leaf h l. (leaf, Some h, l) \<in> set ls \<longrightarrow>
          (\<exists>c. KSI_TreeLeafHandle_getAggregationChain (builder s') leaf = Ok c \<and> inputHash c = Some h
             \<and> fst (KSI_AggregationHashChain_aggregate D c l) = Ok (int lv, if chain c = Some [] then None else rh)
             \<and> (chain c = Some [] \<longrightarrow> rh = Some h)))"
proof -
  note inv = signing_invariant [OF assms(1) signer_new(1) [OF assms(2)] assms(3)]
  obtain b where b: "KSI_TreeBuilder_close D (builder s) = (b, Ok ())" "builder s' = b"
      "\<exists>sig. sign (tn_hash (nodes (mem b) ! the (rootNode b))) (tn_level (nodes (mem b) ! the (rootNode b))) = Inr sig \<and> signature s' = Some sig"
    using assms(4) by (auto simp: KSI_BlockSigner_closeAndSign_def Let_def split: prod.splits run.splits sum.splits)
  from inv have "signer.ready D D (builder s)" "list_all (signer.leaf_stored (builder s)) ls" by simp_all
  from signer.ready_reaches_root [OF assms(1) this b(1)] obtain r where r: "rootNode b = Some r"
    "\<forall>leaf h l. (leaf, Some h, l) \<in> set ls \<longrightarrow>
       (\<exists>c. KSI_TreeLeafHandle_getAggregationChain b leaf = Ok c \<and> inputHash c = Some h
         \<and> fst (KSI_AggregationHashChain_aggregate D c l) =
             Ok (int (tn_level (nodes (mem b) ! r)), if chain c = Some [] then None else tn_hash (nodes (mem b) ! r))
         \<and> (chain c = Some [] \<longrightarrow> r = leaf))" by blast
  have "tn_hash (nodes (mem b) ! r) = Some h" if "KSI_TreeLeafHandle_getAggregationChain b r = Ok c" "inputHash c = Some h" for c h
    using that by (auto simp: KSI_TreeLeafHandle_getAggregationChain_def run_bind_eq_Ok KSI_AggregationHashChain_new_def)
  note top = this
  have "\<exists>c. KSI_TreeLeafHandle_getAggregationChain b leaf = Ok c \<and> inputHash c = Some h
      \<and> fst (KSI_AggregationHashChain_aggregate D c l) =
          Ok (int (tn_level (nodes (mem b) ! r)), if chain c = Some [] then None else tn_hash (nodes (mem b) ! r))
      \<and> (chain c = Some [] \<longrightarrow> tn_hash (nodes (mem b) ! r) = Some h)" if "(leaf, Some h, l) \<in> set ls" for leaf h l
    using r(2) that top by blast
  with r(1) b(2,3) show ?thesis by auto
qed


lemma signing_metaData:
  assumes "signing D s0 s ls" and "sg_metaData (cbState (builder s0)) = None"
  shows "sg_metaData (cbState (builder s)) = None"
  using assms by (induction rule: signing.induct) (auto dest!: addLeaf_builder)

lemma signing_signature: "signing D s0 s ls \<Longrightarrow> signature s = signature s0"
  by (induction rule: signing.induct) (auto dest!: addLeaf_builder)

lemma close_keeps: "cbState (fst (KSI_TreeBuilder_close D b)) = cbState b" "tb_algo (fst (KSI_TreeBuilder_close D b)) = tb_algo b"
  by (auto simp: KSI_TreeBuilder_close_def Let_def split: prod.splits run.splits option.splits)

lemma closeAndSign_keeps:
  "cbState (builder (fst (KSI_BlockSigner_closeAndSign D sign s))) = cbState (builder s)"
  "tb_algo (builder (fst (KSI_BlockSigner_closeAndSign D sign s))) = tb_algo (builder s)"
  "origPrevLeaf (fst (KSI_BlockSigner_closeAndSign D sign s)) = origPrevLeaf s"
  using close_keeps [of D "builder s"]
  by (auto simp: KSI_BlockSigner_closeAndSign_def Let_def split: prod.splits run.splits sum.splits)

text \<open>Resetting a signer, open or closed, successfully signed or not, gives back the signer as it was
  created, with the first link of the masks restored.\<close>

theorem signer_reset:
  assumes "digest_ok D" and "KSI_BlockSigner_new D a p v = Inr s0" and "signing D s0 s ls"
    and "s' = s \<or> s' = fst (KSI_BlockSigner_closeAndSign D sign s)"
  shows "KSI_BlockSigner_reset D s' = Inr s0"
proof -
  note n = signer_new [OF assms(2)] and inv = signing_invariant [OF assms(1) signer_new(1) [OF assms(2)] assms(3)]
  have c0: "cbState (builder s0) = \<lparr>prevLeaf = p, iv = v, sg_metaData = None\<rparr>"
    by (rule n(8))
  have "cbState (builder s') = cbState (builder s)" "tb_algo (builder s') = tb_algo (builder s)" "origPrevLeaf s' = origPrevLeaf s"
    using assms(4) closeAndSign_keeps by metis+
  moreover have "sg_metaData (cbState (builder s)) = None" using signing_metaData [OF assms(3)] c0 by simp
  ultimately have c: "(cbState (builder s'))\<lparr>prevLeaf := origPrevLeaf s'\<rparr> = \<lparr>prevLeaf = p, iv = v, sg_metaData = None\<rparr>"
      "tb_algo (builder s') = a" "origPrevLeaf s' = p"
    using inv n by auto
  have "KSI_TreeBuilder_new a x = Inr (((builder s0)\<lparr>cbList := [], cbState := x\<rparr>))" for x
    using n(7) by (cases "builder s0") (auto simp: KSI_TreeBuilder_new_def rbind_eq_Inr split: if_splits)
  moreover have "cbList (builder s0) = signer_processors D" using n(1) by (simp add: signer.ready_def)
  ultimately show ?thesis
    using c c0 n(2,3) by (cases s0; cases s'; cases "builder s0") (auto simp: KSI_BlockSigner_reset_def)
qed

lemma masking_eq:
  assumes "digest_ok D" and "mem_algo a m" and "iv c = Some w" and "prevLeaf c = Some q" and "tn_hash (nodes m ! i) = Some h"
    and "snd (maskingProcessor D m i c) = Inr (out, m')"
  defines "msk \<equiv> imprint_of D a (q @ w)" and "k \<equiv> tn_level (nodes m ! i)"
  shows "out = Some (length (nodes m)) \<and> mem_algo a m'
    \<and> nodes m' = nodes m @ [\<lparr>tn_hash = Some msk, tn_metaData = None, tn_level = k, parent = None, leftChild = None, rightChild = None\<rparr>]
    \<and> fst (maskingProcessor D m i c) = c\<lparr>prevLeaf := Some (imprint_of D a (msk @ h @ [of_nat (Suc k)]))\<rparr>"
proof -
  have sup: "KSI_isHashAlgorithmSupported a" and alg: "algorithm (hsr m) = a" using assms(2) by (auto simp: mem_algo_def)
  have mv: "maskValue D (hsr m) q w = Inr x \<Longrightarrow> x = (msk, \<lparr>algorithm = a, isOpen = False, fed = q @ w\<rparr>)" for x
    using sup alg assms(1) unfolding msk_def
    by (cases "hsr m") (auto simp: maskValue_def KSI_DataHasher_reset_def KSI_DataHasher_addImprint_def KSI_DataHash_getImprint_def
        KSI_DataHasher_add_def KSI_DataHasher_addOctetString_def KSI_OctetString_extract_def octet_ptr_def KSI_DataHasher_close_def
        closeExisting_ok imprint_of_def rbind_eq_Inr split: if_splits)
  have ml: "maskedLeaf D \<lparr>algorithm = a, isOpen = False, fed = y\<rparr> msk h (int k) = Inr x \<Longrightarrow>
      x = (imprint_of D a (msk @ h @ [of_nat (Suc k)]), \<lparr>algorithm = a, isOpen = False, fed = msk @ h @ [of_nat (Suc k)]\<rparr>)" for x y
    using sup assms(1)
    by (auto simp: maskedLeaf_def KSI_DataHasher_reset_def KSI_DataHasher_addImprint_def KSI_DataHash_getImprint_def
        KSI_DataHasher_add_def KSI_DataHasher_close_def closeExisting_ok imprint_of_def rbind_eq_Inr add.commute)
  define X where "X = rbind (maskValue D (hsr m) q w) (\<lambda>(msk, y).
      rbind (KSI_TreeNode_new (Some msk) None (int k)) (\<lambda>tmp.
      rbind (maskedLeaf D y msk h (int k)) (\<lambda>(leafHash, y). Inr (tmp, leafHash, y))))"
  have f: "maskingProcessor D m i c = (case X of Inl e \<Rightarrow> (c, Inl e)
      | Inr (tmp, leafHash, y) \<Rightarrow> let (t, m) = alloc tmp (m\<lparr>hsr := y\<rparr>) in (c\<lparr>prevLeaf := Some leafHash\<rparr>, Inr (Some t, m)))"
    using assms(3-5) by (simp add: maskingProcessor_def X_def k_def Let_def)
  obtain tmp leafHash y where X: "X = Inr (tmp, leafHash, y)" using assms(6) f by (cases X) auto
  then have "tmp = \<lparr>tn_hash = Some msk, tn_metaData = None, tn_level = k, parent = None, leftChild = None, rightChild = None\<rparr>"
    "leafHash = imprint_of D a (msk @ h @ [of_nat (Suc k)])" "algorithm y = a"
    unfolding X_def by (auto simp: rbind_eq_Inr KSI_TreeNode_new_def dest!: mv ml split: if_splits)
  with f X assms(6) sup show ?thesis by (auto simp: alloc_def mem_algo_def)
qed


text \<open>The value that links the masks is not a value of the tree.  The masked leaf in the tree has the leaf on
  the left and the mask on the right; the value kept as the previous leaf, which the next mask is derived
  from and \<^verbatim>\<open>KSI_BlockSigner_getPrevLeaf\<close> returns, is the hash of both in the opposite order.\<close>

theorem masking_sides:
  assumes "digest_ok D" and "KSI_BlockSigner_new D a p (Some w) = Inr s0" and "signing D s0 s ls"
    and "KSI_BlockSigner_getPrevLeaf s = Some q" and "KSI_BlockSigner_addLeaf D s (Some h) l None = (s', Ok leaf)"
  shows "let ns = nodes (mem (builder s')); msk = imprint_of D a (q @ w) in
     tn_hash (ns ! Suc leaf) = Some msk \<and> leftChild (ns ! Suc (Suc leaf)) = Some leaf \<and> rightChild (ns ! Suc (Suc leaf)) = Some (Suc leaf)
     \<and> tn_hash (ns ! Suc (Suc leaf)) = Some (imprint_of D a (h @ msk @ [of_int (l + 1)]))
     \<and> KSI_BlockSigner_getPrevLeaf s' = Some (imprint_of D a (msk @ h @ [of_int (l + 1)]))"
proof -
  note n = signer_new [OF assms(2)] and inv = signing_invariant [OF assms(1) signer_new(1) [OF assms(2)] assms(3)]
  define c where "c = (cbState (builder s))\<lparr>sg_metaData := None\<rparr>"
  define b where "b = with_state c (builder s)"
  define msk where "msk = imprint_of D a (q @ w)"
  have c: "iv c = Some w" "prevLeaf c = Some q" "sg_metaData c = None"
    using inv n(5) assms(4) by (simp_all add: c_def KSI_BlockSigner_getPrevLeaf_def)
  obtain b' where b': "addLeaf D b (Some h) None l = (b', Ok leaf)" "s' = s\<lparr>builder := with_state ((cbState b')\<lparr>sg_metaData := None\<rparr>) b'\<rparr>"
    using addLeaf_builder [OF assms(5)] by (auto simp: b_def c_def)
  have rd: "signer.ready D D b" unfolding b_def by (rule ready_with_state) (use inv in blast, simp add: signer_ok_def leaf_ok_def c_def)
  have alg: "tb_algo b = a" using inv n(4) by (simp add: b_def)
  have none: "leaf_ok None" by (simp add: leaf_ok_def)
  obtain nd where nd: "KSI_TreeNode_new (Some h) None l = Inr nd" using b'(1) by (auto simp: addLeaf_def split: if_splits sum.splits)
  note nl = signer.new_leaf_forest [OF rd none nd]
  define m where "m = snd (alloc nd (mem b))"
  define node where "node = length (nodes (mem b))"
  have m: "alloc nd (mem b) = (node, m)" "nodes m = nodes (mem b) @ [nd]" by (simp_all add: m_def node_def alloc_def)
  have fo: "signer.forest D a m node (stacked (stack b))" using nl(1) by (simp add: alg m_def node_def)
  obtain c' r where pr: "processNode D (signer_processors D) m node c = (c', r)" by (cases "processNode D (signer_processors D) m node c")
  have "cbList b = signer_processors D" "cbState b = c" using rd by (simp_all add: signer.ready_def b_def)
  with b'(1) nd m(1) pr obtain root m2 where i: "r = Ok (root, m2)" "insertNode D (b\<lparr>mem := m2, cbState := c'\<rparr>) root = Ok b'" "leaf = node"
    by (auto simp: addLeaf_def processAndInsertNode_def run_bind_eq_Ok split: if_splits sum.splits run.splits)
  have nh: "tn_hash (nodes m ! node) = Some h" "tn_level (nodes m ! node) = nat l" using nl(2,3) by (simp_all add: m(2) node_def)
  have ma: "mem_algo a m" using fo by (simp add: signer.forest_def)
  obtain out m1 where m1: "snd (maskingProcessor D m node c) = Inr (out, m1)"
    using pr i(1) by (auto simp: signer_processors_def split: prod.splits sum.splits)
  note mk = masking_eq [OF assms(1) ma c(1,2) nh(1) m1, folded msk_def]
  have md: "metaDataProcessor x y z = (z, Inr (None, x))" if "sg_metaData z = None" for x y z using that by (simp add: metaDataProcessor_def)
  have nodes1: "nodes m1 = nodes m @ [\<lparr>tn_hash = Some msk, tn_metaData = None, tn_level = nat l, parent = None, leftChild = None, rightChild = None\<rparr>]"
    and len: "length (nodes m) = Suc node" using mk nh(2) by (simp_all add: m(2) node_def)
  have j: "KSI_TreeNode_join D m1 node (Suc node) = Ok (root, m2)" and c': "c' = c\<lparr>prevLeaf := Some (imprint_of D a (msk @ h @ [of_nat (Suc (nat l))]))\<rparr>"
    using pr i(1) m1 mk len nh(2) c(3)
    by (cases "maskingProcessor D m node c"; auto simp: signer_processors_def md split: run.splits prod.splits)+
  let ?ns = "nodes (mem b')"
  have mok: "mem_algo a m1" "node_ok (nodes m1 ! node)" "node_ok (nodes m1 ! Suc node)" "node_bytes (nodes m1 ! node) = h"
      "node_bytes (nodes m1 ! Suc node) = msk" "tn_level (nodes m1 ! node) = nat l" "tn_level (nodes m1 ! Suc node) = nat l"
    using mk nl(4-6) nh len by (auto simp: nodes1 nth_append m(2) node_def node_ok_def node_bytes_def)
  have jl: "join_level (nodes m1) node (Suc node) = Suc (nat l)" by (simp add: join_level_def mok(6,7))
  have le: "join_level (nodes m1) node (Suc node) \<le> 255"
    using join_eq(2) [OF assms(1) mok(1-3)] j by (cases "join_level (nodes m1) node (Suc node) \<le> 255") auto
  from join_eq(1) [OF assms(1) mok(1-3) this] j have m2: "nodes m2 = joined D a (nodes m1) node (Suc node)" by auto
  have k: "kept (nodes m2) ?ns" and cb: "cbState b' = c'" using insertNode_keeps [OF i(2)] by simp_all
  have "length (nodes m1) = Suc (Suc node)" using len by (simp add: nodes1)
  then have top: "leftChild (nodes m2 ! Suc (Suc node)) = Some node" "rightChild (nodes m2 ! Suc (Suc node)) = Some (Suc node)"
      "tn_hash (nodes m2 ! Suc (Suc node)) = Some (imprint_of D a (h @ msk @ [of_nat (Suc (nat l))]))" "length (nodes m2) = Suc (Suc (Suc node))"
      "tn_hash (nodes m2 ! Suc node) = Some msk"
    using len mok(4,5) jl by (auto simp: m2 joined_def Let_def nth_append join_msg_def nodes1)
  have lint: "(of_nat (Suc (nat l)) :: byte) = of_int (l + 1)" using nl(5) by (simp add: of_nat_nat)
  have "builder s' = with_state ((cbState b')\<lparr>sg_metaData := None\<rparr>) b'" by (simp add: b'(2))
  then show ?thesis
    using k top cb c' i(3) by (simp add: kept_def Let_def msk_def [symmetric] lint [symmetric] KSI_BlockSigner_getPrevLeaf_def del: of_nat_Suc of_int_add)
qed


text \<open>A session with one masked leaf.\<close>

definition sample_imprint :: KSI_DataHash where
  "sample_imprint = 1 # replicate 32 5"

definition sample_signer :: "(KSI_DataHash option \<times> nat) KSI_BlockSigner" where
  "sample_signer = projr (KSI_BlockSigner_new zero_digest 1 (Some sample_imprint) (Some [7]))"

definition sample_session :: "(KSI_DataHash option \<times> nat) KSI_BlockSigner" where
  "sample_session = fst (KSI_BlockSigner_addLeaf zero_digest sample_signer (Some sample_imprint) 0 None)"

lemma sample_signer_new: "KSI_BlockSigner_new zero_digest 1 (Some sample_imprint) (Some [7]) = Inr sample_signer"
  by (simp add: sample_signer_def KSI_BlockSigner_new_def KSI_isHashAlgorithmTrusted_def valid_ids KSI_TreeBuilder_new_def
      KSI_isHashAlgorithmSupported_def KSI_DataHasher_open_def KSI_DataHasher_reset_def algoInfo_def KSI_hashAlgorithmInfo_def HASH_ALGO_def)

lemma sample_leaf: "KSI_BlockSigner_addLeaf zero_digest sample_signer (Some sample_imprint) 0 None = (sample_session, Ok 0)"
proof -
  have "snd (KSI_BlockSigner_addLeaf zero_digest sample_signer (Some sample_imprint) 0 None) = Ok 0" by code_simp
  then show ?thesis by (simp add: sample_session_def prod_eq_iff)
qed

lemma sample_signing: "signing zero_digest sample_signer sample_session [(0, Some sample_imprint, 0)]"
  using signing.added [OF signing.start _ sample_leaf] by (simp add: leaf_ok_def)

theorem signer_proves_leaves_witness:
  "\<exists>c. KSI_TreeLeafHandle_getAggregationChain (builder (fst (KSI_BlockSigner_closeAndSign zero_digest (\<lambda>h l. Inr (h, l)) sample_session))) 0 = Ok c
     \<and> inputHash c = Some sample_imprint"
proof -
  have "snd (KSI_BlockSigner_closeAndSign zero_digest (\<lambda>h l. Inr (h, l)) sample_session) = Ok ()" by code_simp
  then have "KSI_BlockSigner_closeAndSign zero_digest (\<lambda>h l. Inr (h, l)) sample_session =
      (fst (KSI_BlockSigner_closeAndSign zero_digest (\<lambda>h l. Inr (h, l)) sample_session), Ok ())" by (simp add: prod_eq_iff)
  from signer_proves_leaves [OF zero_digest_ok sample_signer_new sample_signing this] show ?thesis by auto
qed

theorem signer_reset_witness: "KSI_BlockSigner_reset zero_digest sample_session = Inr sample_signer"
  using signer_reset [OF zero_digest_ok sample_signer_new sample_signing, of sample_session "\<lambda>h l. Inr (h, l)"] by simp

theorem masking_sides_witness:
  "KSI_BlockSigner_getPrevLeaf sample_session = Some (imprint_of zero_digest 1 (imprint_of zero_digest 1 (sample_imprint @ [7]) @ sample_imprint @ [1]))"
proof -
  have "KSI_BlockSigner_getPrevLeaf sample_signer = Some sample_imprint" by code_simp
  from masking_sides [OF zero_digest_ok sample_signer_new signing.start this sample_leaf] show ?thesis by (simp add: Let_def)
qed

end
