(* ===== verification/PublicationsFile.thy ===== *)
theory PublicationsFile
  imports HashChain
begin

text \<open>
  Publications and the publications file of \<^verbatim>\<open>src/src/ksi/publicationsfile.c\<close>: the records, the searches for a
  publication by time and imprint, for the publication nearest to a time and for the latest one, the
  search for a certificate, the certificate constraints, and the copy of a publication record.

  Lists are lists of objects; a certificate is its encoding, which only the PKI back end reads.  The raw
  file, its header and its signature belong to the parser and the back end and are left out.
\<close>

section \<open>Data\<close>

record KSI_PublicationData =
  pd_time :: "KSI_Integer option"
  pd_imprint :: "KSI_DataHash option"
  pd_baseTlv :: "KSI_TLV option"

record KSI_PublicationRecord =
  publishedData :: "KSI_PublicationData option"
  publicationRef :: "KSI_Utf8String list option"
  repositoryUriList :: "KSI_Utf8String list option"

type_synonym KSI_PKICertificate = bytes

record KSI_CertificateRecord =
  cr_certId :: "KSI_OctetString option"
  cr_cert :: "KSI_PKICertificate option"

record KSI_PublicationsFile =
  certificates :: "KSI_CertificateRecord list option"
  publications :: "KSI_PublicationRecord list option"
  certConstraints :: "(string \<times> string) list option"

section \<open>Getters and lists\<close>

text \<open>\<^verbatim>\<open>KSI_IMPLEMENT_GETTER\<close>: the field of an object, or an error for a null object.\<close>

definition getter :: "('o \<Rightarrow> 'v) \<Rightarrow> 'o option \<Rightarrow> 'v ksi_result" where
  "getter field ob = the_ptr ob KSI_INVALID_ARGUMENT (\<lambda>ob. Inr (field ob))"

text \<open>The elements of a list for a loop over its positions, and the element at a position, as
  \<open>KSI_List_length\<close> and \<open>KSI_List_elementAt\<close> have them.\<close>

definition elements :: "'a list option \<Rightarrow> 'a list" where
  "elements l = (case l of None \<Rightarrow> [] | Some xs \<Rightarrow> xs)"

definition element_at :: "'a list option \<Rightarrow> nat \<Rightarrow> 'a ksi_result" where
  "element_at l pos =
     the_ptr l KSI_INVALID_ARGUMENT (\<lambda>xs. check (pos \<ge> length xs) KSI_BUFFER_OVERFLOW (Inr (xs ! pos)))"

abbreviation KSI_PublicationData_getTime :: "KSI_PublicationData option \<Rightarrow> KSI_Integer option ksi_result" where
  "KSI_PublicationData_getTime \<equiv> getter pd_time"

abbreviation KSI_PublicationData_getImprint :: "KSI_PublicationData option \<Rightarrow> KSI_DataHash option ksi_result" where
  "KSI_PublicationData_getImprint \<equiv> getter pd_imprint"

abbreviation KSI_PublicationRecord_getPublishedData :: "KSI_PublicationRecord option \<Rightarrow> KSI_PublicationData option ksi_result" where
  "KSI_PublicationRecord_getPublishedData \<equiv> getter publishedData"

section \<open>Searches\<close>

text \<open>The searches write their result through a pointer the callers have set to null.\<close>

fun certificateLoop :: "KSI_CertificateRecord list \<Rightarrow> KSI_OctetString \<Rightarrow> KSI_PKICertificate option ksi_result" where
  "certificateLoop [] cid = Inr None"
| "certificateLoop (certRec # certRecs) cid =
     (if KSI_OctetString_equals (cr_certId certRec) (Some cid) then Inr (cr_cert certRec)
      else certificateLoop certRecs cid)"

definition KSI_PublicationsFile_getPKICertificateById ::
    "KSI_PublicationsFile option \<Rightarrow> KSI_OctetString option \<Rightarrow> KSI_PKICertificate option ksi_result" where
  "KSI_PublicationsFile_getPKICertificateById pubFile cid =
     the_ptr pubFile KSI_INVALID_ARGUMENT (\<lambda>pubFile.
     the_ptr cid KSI_INVALID_ARGUMENT (\<lambda>cid. certificateLoop (elements (certificates pubFile)) cid))"

fun publicationByTimeLoop :: "KSI_PublicationRecord list \<Rightarrow> KSI_Integer \<Rightarrow> KSI_PublicationRecord option ksi_result" where
  "publicationByTimeLoop [] pubTime = Inr None"
| "publicationByTimeLoop (pr # prs) pubTime =
     rbind (KSI_PublicationRecord_getPublishedData (Some pr)) (\<lambda>pd.
     rbind (KSI_PublicationData_getTime pd) (\<lambda>tm.
       if KSI_Integer_equals (Some pubTime) tm then Inr (Some pr) else publicationByTimeLoop prs pubTime))"

definition KSI_PublicationsFile_getPublicationDataByTime ::
    "KSI_PublicationsFile option \<Rightarrow> KSI_Integer option \<Rightarrow> KSI_PublicationRecord option ksi_result" where
  "KSI_PublicationsFile_getPublicationDataByTime trust pubTime =
     the_ptr trust KSI_INVALID_ARGUMENT (\<lambda>trust.
     the_ptr pubTime KSI_INVALID_ARGUMENT (\<lambda>pubTime. publicationByTimeLoop (elements (publications trust)) pubTime))"

fun nearestLoop ::
    "KSI_PublicationRecord list \<Rightarrow> KSI_Integer option \<Rightarrow> KSI_PublicationRecord option \<Rightarrow> KSI_Integer option
       \<Rightarrow> KSI_PublicationRecord option ksi_result" where
  "nearestLoop [] pubTime result result_tm = Inr result"
| "nearestLoop (pr # prs) pubTime result result_tm =
     rbind (KSI_PublicationRecord_getPublishedData (Some pr)) (\<lambda>pd.
     rbind (KSI_PublicationData_getTime pd) (\<lambda>tm.
       if KSI_Integer_compare pubTime tm \<le> 0 \<and> (result_tm = None \<or> KSI_Integer_compare result_tm tm \<ge> 0)
       then nearestLoop prs pubTime (Some pr) tm
       else nearestLoop prs pubTime result result_tm))"

definition KSI_PublicationsFile_getNearestPublication ::
    "KSI_PublicationsFile option \<Rightarrow> KSI_Integer option \<Rightarrow> KSI_PublicationRecord option ksi_result" where
  "KSI_PublicationsFile_getNearestPublication trust pubTime =
     the_ptr trust KSI_INVALID_ARGUMENT (\<lambda>trust.
     check (pubTime = None) KSI_INVALID_ARGUMENT
       (nearestLoop (elements (publications trust)) pubTime None None))"

fun latestLoop ::
    "KSI_PublicationRecord list \<Rightarrow> KSI_Integer option \<Rightarrow> KSI_PublicationRecord option \<Rightarrow> KSI_Integer option
       \<Rightarrow> KSI_PublicationRecord option ksi_result" where
  "latestLoop [] pubTime result result_tm = Inr result"
| "latestLoop (pr # prs) pubTime result result_tm =
     rbind (KSI_PublicationRecord_getPublishedData (Some pr)) (\<lambda>pd.
     rbind (KSI_PublicationData_getTime pd) (\<lambda>tm.
       if (pubTime = None \<or> KSI_Integer_compare pubTime tm \<le> 0)
          \<and> (result_tm = None \<or> KSI_Integer_compare result_tm tm \<le> 0)
       then latestLoop prs pubTime (Some pr) tm
       else latestLoop prs pubTime result result_tm))"

definition KSI_PublicationsFile_getLatestPublication ::
    "KSI_PublicationsFile option \<Rightarrow> KSI_Integer option \<Rightarrow> KSI_PublicationRecord option ksi_result" where
  "KSI_PublicationsFile_getLatestPublication trust pubTime =
     the_ptr trust KSI_INVALID_ARGUMENT (\<lambda>trust. latestLoop (elements (publications trust)) pubTime None None)"

fun findPublicationLoop ::
    "KSI_PublicationRecord list \<Rightarrow> KSI_Integer option \<Rightarrow> KSI_DataHash option \<Rightarrow> KSI_PublicationRecord option ksi_result" where
  "findPublicationLoop [] tm im = Inr None"
| "findPublicationLoop (pr # prs) tm im =
     the_ptr (publishedData pr) KSI_INVALID_STATE (\<lambda>pd.
       if KSI_Integer_equals (pd_time pd) tm then
         if im \<noteq> None \<and> \<not> KSI_DataHash_equals (pd_imprint pd) im then findPublicationLoop prs tm im
         else Inr (Some pr)
       else findPublicationLoop prs tm im)"

definition findPublication ::
    "KSI_PublicationsFile option \<Rightarrow> KSI_Integer option \<Rightarrow> KSI_DataHash option \<Rightarrow> KSI_PublicationRecord option ksi_result" where
  "findPublication trust tm im =
     the_ptr trust KSI_INVALID_ARGUMENT (\<lambda>trust.
     check (tm = None) KSI_INVALID_ARGUMENT (findPublicationLoop (elements (publications trust)) tm im))"

definition KSI_PublicationsFile_findPublicationByTime ::
    "KSI_PublicationsFile option \<Rightarrow> KSI_Integer option \<Rightarrow> KSI_PublicationRecord option ksi_result" where
  "KSI_PublicationsFile_findPublicationByTime trust tm = findPublication trust tm None"

definition KSI_PublicationsFile_findPublication ::
    "KSI_PublicationsFile option \<Rightarrow> KSI_PublicationRecord option \<Rightarrow> KSI_PublicationRecord option ksi_result" where
  "KSI_PublicationsFile_findPublication trust inRec =
     the_ptr inRec KSI_INVALID_ARGUMENT (\<lambda>inRec.
     the_ptr (publishedData inRec) KSI_INVALID_STATE (\<lambda>pd.
     check (pd_time pd = None \<or> pd_imprint pd = None) KSI_INVALID_STATE
       (findPublication trust (pd_time pd) (pd_imprint pd))))"

section \<open>Updates and copies\<close>

text \<open>The argument array without its terminator; the value of a constraint may be null.\<close>

definition KSI_PublicationsFile_setCertConstraints ::
    "KSI_PublicationsFile option \<Rightarrow> (string \<times> string option) list option \<Rightarrow> KSI_PublicationsFile ksi_result" where
  "KSI_PublicationsFile_setCertConstraints pubFile arr =
     the_ptr pubFile KSI_INVALID_ARGUMENT (\<lambda>pubFile.
       (case arr of
          None \<Rightarrow> Inr (pubFile\<lparr>certConstraints := None\<rparr>)
        | Some cs \<Rightarrow>
            check (list_ex (\<lambda>c. snd c = None) cs) KSI_INVALID_ARGUMENT
              (Inr (pubFile\<lparr>certConstraints := Some (map (\<lambda>(oid, v). (oid, the v)) cs)\<rparr>))))"

text \<open>A record without published data is dereferenced.\<close>

definition KSI_PublicationRecord_clone :: "KSI_PublicationRecord option \<Rightarrow> KSI_PublicationRecord run" where
  "KSI_PublicationRecord_clone rec =
     (case rec of
        None \<Rightarrow> Err KSI_INVALID_ARGUMENT
      | Some rec \<Rightarrow>
          (case publishedData rec of
             None \<Rightarrow> Fault
           | Some pd \<Rightarrow>
               Ok \<lparr>publishedData = Some \<lparr>pd_time = pd_time pd, pd_imprint = pd_imprint pd, pd_baseTlv = None\<rparr>,
                   publicationRef = Some (elements (publicationRef rec)), repositoryUriList = None\<rparr>))"

section \<open>What the searches find\<close>

lemma getter_simps [simp]: "getter f (Some x) = Inr (f x)" "getter f None = Inl KSI_INVALID_ARGUMENT"
  by (simp_all add: getter_def)

lemma getter_eq_Inr: "getter f p = Inr v \<longleftrightarrow> (\<exists>x. p = Some x \<and> v = f x)"
  by (cases p) auto

lemma elements_simps [simp]: "elements None = []" "elements (Some xs) = xs"
  by (simp_all add: elements_def)

lemma element_at_eq_Inr: "element_at l i = Inr x \<longleftrightarrow> i < length (elements l) \<and> x = elements l ! i"
  by (cases l) (auto simp: element_at_def not_le)

text \<open>A record as the parser makes it: time and imprint are mandatory.\<close>

definition record_ok :: "KSI_PublicationRecord \<Rightarrow> bool" where
  "record_ok pr \<longleftrightarrow> (\<exists>pd t h. publishedData pr = Some pd \<and> pd_time pd = Some t \<and> pd_imprint pd = Some h)"

definition record_time :: "KSI_PublicationRecord \<Rightarrow> KSI_Integer" where
  "record_time pr = the (pd_time (the (publishedData pr)))"

definition record_imprint :: "KSI_PublicationRecord \<Rightarrow> KSI_DataHash" where
  "record_imprint pr = the (pd_imprint (the (publishedData pr)))"

lemma record_okE:
  assumes "record_ok pr"
  obtains pd where "publishedData pr = Some pd" "pd_time pd = Some (record_time pr)" "pd_imprint pd = Some (record_imprint pr)"
  using assms by (auto simp: record_ok_def record_time_def record_imprint_def)

lemma compare_Some [simp]:
  "KSI_Integer_compare (Some a) (Some b) \<le> 0 \<longleftrightarrow> a \<le> b"
  "KSI_Integer_compare (Some a) (Some b) \<ge> 0 \<longleftrightarrow> b \<le> a"
  "KSI_Integer_compare (Some a) (Some b) = 0 \<longleftrightarrow> a = b"
  "KSI_Integer_compare (Some a) (Some b) = - 1 \<longleftrightarrow> a < b"
  by (auto simp: KSI_Integer_compare_def)

lemma integer_equals_iff: "KSI_Integer_equals a b \<longleftrightarrow> a \<noteq> None \<and> a = b"
  by (auto simp: KSI_Integer_equals_def)

lemma dataHash_equals_iff: "KSI_DataHash_equals a b \<longleftrightarrow> a \<noteq> None \<and> a = b"
  by (auto simp: KSI_DataHash_equals_def)

definition nearer :: "KSI_PublicationRecord \<Rightarrow> KSI_PublicationRecord option \<Rightarrow> bool" where
  "nearer pr result \<longleftrightarrow> (case result of None \<Rightarrow> True | Some r \<Rightarrow> record_time pr \<le> record_time r)"

lemma nearestLoop_Cons:
  assumes "record_ok pr" "\<And>r. result = Some r \<Longrightarrow> record_ok r"
  shows "nearestLoop (pr # prs) (Some t) result (map_option record_time result)
       = (if t \<le> record_time pr \<and> nearer pr result
          then nearestLoop prs (Some t) (Some pr) (map_option record_time (Some pr))
          else nearestLoop prs (Some t) result (map_option record_time result))"
  using assms by (auto elim!: record_okE simp: nearer_def split: option.splits)

definition nearest_of :: "KSI_Integer \<Rightarrow> KSI_PublicationRecord set \<Rightarrow> KSI_PublicationRecord option \<Rightarrow> bool" where
  "nearest_of t prs res \<longleftrightarrow>
     (case res of
        None \<Rightarrow> (\<forall>p\<in>prs. record_time p < t)
      | Some r \<Rightarrow> r \<in> prs \<and> t \<le> record_time r \<and> (\<forall>p\<in>prs. t \<le> record_time p \<longrightarrow> record_time r \<le> record_time p))"

lemma nearestLoop_spec:
  assumes "\<forall>pr\<in>set prs. record_ok pr" "\<forall>r. result = Some r \<longrightarrow> record_ok r"
    and "nearest_of t old result"
  shows "\<exists>res. nearestLoop prs (Some t) result (map_option record_time result) = Inr res
           \<and> nearest_of t (old \<union> set prs) res"
  using assms
proof (induction prs arbitrary: result old)
  case (Cons pr prs)
  let ?take = "t \<le> record_time pr \<and> nearer pr result"
  have "nearest_of t (insert pr old) (if ?take then Some pr else result)"
    using Cons.prems(3) by (auto simp: nearest_of_def nearer_def split: option.splits)
  moreover have "\<forall>r. (if ?take then Some pr else result) = Some r \<longrightarrow> record_ok r"
    using Cons.prems(1,2) by auto
  ultimately have "\<exists>res. nearestLoop prs (Some t) (if ?take then Some pr else result)
        (map_option record_time (if ?take then Some pr else result)) = Inr res \<and> nearest_of t (insert pr old \<union> set prs) res"
    using Cons.prems(1) by (intro Cons.IH) auto
  moreover have "nearestLoop (pr # prs) (Some t) result (map_option record_time result)
      = nearestLoop prs (Some t) (if ?take then Some pr else result) (map_option record_time (if ?take then Some pr else result))"
    using Cons.prems(1,2) by (subst nearestLoop_Cons) auto
  ultimately show ?case by simp
qed simp

definition latest_of :: "KSI_Integer option \<Rightarrow> KSI_PublicationRecord set \<Rightarrow> KSI_PublicationRecord option \<Rightarrow> bool" where
  "latest_of t prs res \<longleftrightarrow>
     (let old_enough = (\<lambda>p. \<forall>s. t = Some s \<longrightarrow> s \<le> record_time p) in
      case res of
        None \<Rightarrow> (\<forall>p\<in>prs. \<not> old_enough p)
      | Some r \<Rightarrow> r \<in> prs \<and> old_enough r \<and> (\<forall>p\<in>prs. record_time p \<le> record_time r))"

lemma latestLoop_Cons:
  assumes "record_ok pr" "\<And>r. result = Some r \<Longrightarrow> record_ok r"
  shows "latestLoop (pr # prs) t result (map_option record_time result)
       = (if (\<forall>s. t = Some s \<longrightarrow> s \<le> record_time pr) \<and> (\<forall>r. result = Some r \<longrightarrow> record_time r \<le> record_time pr)
          then latestLoop prs t (Some pr) (map_option record_time (Some pr))
          else latestLoop prs t result (map_option record_time result))"
  using assms by (cases t; cases result) (auto elim!: record_okE)

lemma latestLoop_spec:
  assumes "\<forall>pr\<in>set prs. record_ok pr" "\<forall>r. result = Some r \<longrightarrow> record_ok r" "latest_of t old result"
  shows "\<exists>res. latestLoop prs t result (map_option record_time result) = Inr res \<and> latest_of t (old \<union> set prs) res"
  using assms
proof (induction prs arbitrary: result old)
  case (Cons pr prs)
  let ?take = "(\<forall>s. t = Some s \<longrightarrow> s \<le> record_time pr) \<and> (\<forall>r. result = Some r \<longrightarrow> record_time r \<le> record_time pr)"
  have "latest_of t (insert pr old) (if ?take then Some pr else result)"
    using Cons.prems(3) by (cases t; cases result) (auto simp: latest_of_def Let_def)
  moreover have "\<forall>r. (if ?take then Some pr else result) = Some r \<longrightarrow> record_ok r"
    using Cons.prems(1,2) by auto
  ultimately have "\<exists>res. latestLoop prs t (if ?take then Some pr else result)
        (map_option record_time (if ?take then Some pr else result)) = Inr res \<and> latest_of t (insert pr old \<union> set prs) res"
    using Cons.prems(1) by (intro Cons.IH) auto
  moreover have "latestLoop (pr # prs) t result (map_option record_time result)
      = latestLoop prs t (if ?take then Some pr else result) (map_option record_time (if ?take then Some pr else result))"
    using Cons.prems(1,2) by (subst latestLoop_Cons) auto
  ultimately show ?case by simp
qed simp

lemma findPublicationLoop_eq:
  assumes "\<forall>pr\<in>set prs. record_ok pr"
  shows "findPublicationLoop prs (Some t) im
       = Inr (find (\<lambda>pr. record_time pr = t \<and> (\<forall>h. im = Some h \<longrightarrow> record_imprint pr = h)) prs)"
  using assms
  by (induction prs) (auto elim!: record_okE simp: integer_equals_iff dataHash_equals_iff)

text \<open>The value of the search that a policy uses, when the file is well formed.\<close>

definition file_ok :: "KSI_PublicationsFile \<Rightarrow> bool" where
  "file_ok pf \<longleftrightarrow> (\<forall>pr\<in>set (elements (publications pf)). record_ok pr)"

lemma nearest_result:
  assumes "file_ok pf"
  shows "\<exists>res. KSI_PublicationsFile_getNearestPublication (Some pf) (Some t) = Inr res
           \<and> nearest_of t (set (elements (publications pf))) res"
  using nearestLoop_spec [of "elements (publications pf)" None t "{}"] assms
  by (simp add: KSI_PublicationsFile_getNearestPublication_def file_ok_def nearest_of_def)

lemma latest_result:
  assumes "file_ok pf"
  shows "\<exists>res. KSI_PublicationsFile_getLatestPublication (Some pf) t = Inr res
           \<and> latest_of t (set (elements (publications pf))) res"
  using latestLoop_spec [of "elements (publications pf)" None t "{}"] assms
  by (simp add: KSI_PublicationsFile_getLatestPublication_def file_ok_def latest_of_def)

text \<open>C24. In a publications file whose records carry a time and an imprint, the search for the nearest publication
  always succeeds and returns a record of the file that is the earliest one not before the given time, or
  nothing when all publications are before it; the search for the latest publication returns the latest
  record of all, provided that it is not before the given time; and the search for a publication record
  returns the first record with its time and imprint.\<close>

theorem publication_searches:
  assumes "file_ok pf"
  shows "(\<exists>res. KSI_PublicationsFile_getNearestPublication (Some pf) (Some t) = Inr res
            \<and> nearest_of t (set (elements (publications pf))) res)
       \<and> (\<exists>res. KSI_PublicationsFile_getLatestPublication (Some pf) tm = Inr res
            \<and> latest_of tm (set (elements (publications pf))) res)
       \<and> (record_ok pr \<longrightarrow> KSI_PublicationsFile_findPublication (Some pf) (Some pr)
            = Inr (find (\<lambda>p. record_time p = record_time pr \<and> record_imprint p = record_imprint pr)
                     (elements (publications pf))))"
proof (intro conjI impI)
  assume "record_ok pr"
  then show "KSI_PublicationsFile_findPublication (Some pf) (Some pr)
      = Inr (find (\<lambda>p. record_time p = record_time pr \<and> record_imprint p = record_imprint pr) (elements (publications pf)))"
    using assms
    by (auto elim!: record_okE simp: KSI_PublicationsFile_findPublication_def findPublication_def findPublicationLoop_eq file_ok_def)
qed (use assms nearest_result latest_result in blast)+

definition sample_record :: "KSI_Integer \<Rightarrow> KSI_DataHash \<Rightarrow> KSI_PublicationRecord" where
  "sample_record t h =
     \<lparr>publishedData = Some \<lparr>pd_time = Some t, pd_imprint = Some h, pd_baseTlv = None\<rparr>, publicationRef = None, repositoryUriList = None\<rparr>"

definition sample_file :: KSI_PublicationsFile where
  "sample_file = \<lparr>certificates = None, publications = Some [sample_record 30 [1], sample_record 10 [2], sample_record 20 [3]],
     certConstraints = None\<rparr>"

lemma sample_file_ok: "file_ok sample_file"
  by (simp add: file_ok_def sample_file_def sample_record_def record_ok_def)

theorem publication_searches_witness:
  "KSI_PublicationsFile_getNearestPublication (Some sample_file) (Some 15) = Inr (Some (sample_record 20 [3]))
 \<and> nearest_of 15 {sample_record 30 [1], sample_record 10 [2], sample_record 20 [3]} (Some (sample_record 20 [3]))
 \<and> KSI_PublicationsFile_findPublication (Some sample_file) (Some (sample_record 10 [2])) = Inr (Some (sample_record 10 [2]))"
proof -
  have n: "KSI_PublicationsFile_getNearestPublication (Some sample_file) (Some 15) = Inr (Some (sample_record 20 [3]))"
    by code_simp
  have ok: "record_ok (sample_record 10 [2])" by (simp add: sample_record_def record_ok_def)
  have f: "find (\<lambda>p. record_time p = record_time (sample_record 10 [2]) \<and> record_imprint p = record_imprint (sample_record 10 [2]))
       (elements (publications sample_file)) = Some (sample_record 10 [2])"
    by code_simp
  have "set (elements (publications sample_file)) = {sample_record 30 [1], sample_record 10 [2], sample_record 20 [3]}"
    by (simp add: sample_file_def)
  then show ?thesis
    using publication_searches [OF sample_file_ok, of 15 None "sample_record 10 [2]"] n ok f by simp
qed

end
