(* ===== verification/SignatureData.thy ===== *)
theory SignatureData
  imports PublicationsFile
begin

text \<open>
  The signature object of \<^verbatim>\<open>src/src/ksi/signature.c\<close> and the records it consists of, the functions that read
  it, and the request for an extension.  The serialized form of a signature, which the template engine
  keeps beside the object, and the aggregation authentication record, which no function here reads, are
  left out.
\<close>

section \<open>Data\<close>

record KSI_RFC3161 =
  rfc_aggregationTime :: "KSI_Integer option"
  rfc_chainIndex :: "KSI_Integer list option"
  rfc_inputHash :: "KSI_DataHash option"
  tstInfoPrefix :: "KSI_OctetString option"
  tstInfoSuffix :: "KSI_OctetString option"
  tstInfoAlgo :: "KSI_Integer option"
  sigAttrPrefix :: "KSI_OctetString option"
  sigAttrSuffix :: "KSI_OctetString option"
  sigAttrAlgo :: "KSI_Integer option"

record KSI_PKISignedData =
  sig_type :: "KSI_Utf8String option"
  signatureValue :: "KSI_OctetString option"
  sd_certId :: "KSI_OctetString option"
  certRepositoryUri :: "KSI_Utf8String option"

record KSI_CalendarAuthRec =
  pubData :: "KSI_PublicationData option"
  signatureData :: "KSI_PKISignedData option"

record KSI_Signature =
  calendarChain :: "KSI_CalendarHashChain option"
  aggregationChainList :: "KSI_AggregationHashChain list option"
  rfc3161 :: "KSI_RFC3161 option"
  calendarAuthRec :: "KSI_CalendarAuthRec option"
  publication :: "KSI_PublicationRecord option"

abbreviation KSI_CalendarHashChain_getAggregationTime :: "KSI_CalendarHashChain option \<Rightarrow> KSI_Integer option ksi_result" where
  "KSI_CalendarHashChain_getAggregationTime \<equiv> getter cal_aggregationTime"

abbreviation KSI_CalendarHashChain_getPublicationTime :: "KSI_CalendarHashChain option \<Rightarrow> KSI_Integer option ksi_result" where
  "KSI_CalendarHashChain_getPublicationTime \<equiv> getter publicationTime"

abbreviation KSI_CalendarHashChain_getInputHash :: "KSI_CalendarHashChain option \<Rightarrow> KSI_DataHash option ksi_result" where
  "KSI_CalendarHashChain_getInputHash \<equiv> getter cal_inputHash"

abbreviation KSI_CalendarHashChain_getHashChain :: "KSI_CalendarHashChain option \<Rightarrow> KSI_HashChainLink list option ksi_result" where
  "KSI_CalendarHashChain_getHashChain \<equiv> getter hashChain"

abbreviation KSI_RFC3161_getInputHash :: "KSI_RFC3161 option \<Rightarrow> KSI_DataHash option ksi_result" where
  "KSI_RFC3161_getInputHash \<equiv> getter rfc_inputHash"

section \<open>Reading a signature\<close>

definition KSI_Signature_getDocumentHash :: "KSI_Signature \<Rightarrow> KSI_DataHash option ksi_result" where
  "KSI_Signature_getDocumentHash sig =
     (case rfc3161 sig of
        None \<Rightarrow> rbind (element_at (aggregationChainList sig) 0) (\<lambda>aggr. getter inputHash (Some aggr))
      | Some rfc \<Rightarrow> KSI_RFC3161_getInputHash (Some rfc))"

definition KSI_Signature_getSigningTime :: "KSI_Signature \<Rightarrow> KSI_Integer option ksi_result" where
  "KSI_Signature_getSigningTime sig =
     (case calendarChain sig of
        Some c \<Rightarrow>
          rbind (KSI_CalendarHashChain_getAggregationTime (Some c)) (\<lambda>tmp.
            (case tmp of
               None \<Rightarrow> KSI_CalendarHashChain_getPublicationTime (Some c)
             | Some t \<Rightarrow> Inr (Some t)))
      | None \<Rightarrow>
          rbind (element_at (aggregationChainList sig) 0) (\<lambda>ptr. getter aggregationTime (Some ptr)))"

text \<open>The identities of all aggregation chains, from the last chain to the first.\<close>

fun chainIdentities :: "KSI_AggregationHashChain list \<Rightarrow> (KSI_HashChainLinkIdentity list \<times> KSI_AggregationHashChain list) run" where
  "chainIdentities [] = Ok ([], [])"
| "chainIdentities (aggr # aggrs) =
     run_bind (KSI_AggregationHashChain_getIdentity (Some aggr)) (\<lambda>(aggrId, aggr).
     run_bind (chainIdentities aggrs) (\<lambda>(ids, aggrs). Ok (aggrId @ ids, aggr # aggrs)))"

definition KSI_Signature_getAggregationHashChainIdentity ::
    "KSI_Signature \<Rightarrow> (KSI_HashChainLinkIdentity list \<times> KSI_Signature) run" where
  "KSI_Signature_getAggregationHashChainIdentity sig =
     (case aggregationChainList sig of
        None \<Rightarrow> Ok ([], sig)
      | Some cs \<Rightarrow> run_bind (chainIdentities (rev cs)) (\<lambda>(ids, cs). Ok (ids, sig\<lparr>aggregationChainList := Some (rev cs)\<rparr>)))"

section \<open>Requests for an extension\<close>

record KSI_ExtendReq =
  req_aggregationTime :: KSI_Integer
  req_publicationTime :: "KSI_Integer option"

record KSI_ExtendResp =
  resp_requestId :: "KSI_Integer option"
  resp_status :: "KSI_Integer option"
  resp_calendarHashChain :: "KSI_CalendarHashChain option"

definition KSI_createExtendRequest :: "KSI_Integer option \<Rightarrow> KSI_Integer option \<Rightarrow> KSI_ExtendReq ksi_result" where
  "KSI_createExtendRequest start end =
     the_ptr start KSI_INVALID_ARGUMENT (\<lambda>start.
     check (end \<noteq> None \<and> KSI_Integer_compare (Some start) end > 0) KSI_INVALID_ARGUMENT
       (Inr \<lparr>req_aggregationTime = start, req_publicationTime = end\<rparr>))"

text \<open>\<open>None\<close> is \<open>KSI_OK\<close>.\<close>

definition KSI_convertExtenderStatusCode :: "KSI_Integer option \<Rightarrow> ksi_status" where
  "KSI_convertExtenderStatusCode statusCode =
     (if statusCode = None then None
      else
        let c = KSI_Integer_getUInt64 statusCode in
        if c = 0x00 then None
        else if c = 0x0101 then Some KSI_SERVICE_INVALID_REQUEST
        else if c = 0x0102 then Some KSI_SERVICE_AUTHENTICATION_FAILURE
        else if c = 0x0103 then Some KSI_SERVICE_INVALID_PAYLOAD
        else if c = 0x0104 then Some KSI_SERVICE_EXTENDER_INVALID_TIME_RANGE
        else if c = 0x0105 then Some KSI_SERVICE_EXTENDER_REQUEST_TIME_TOO_OLD
        else if c = 0x0106 then Some KSI_SERVICE_EXTENDER_REQUEST_TIME_TOO_NEW
        else if c = 0x0107 then Some KSI_SERVICE_EXTENDER_REQUEST_TIME_IN_FUTURE
        else if c = 0x0200 then Some KSI_SERVICE_INTERNAL_ERROR
        else if c = 0x0201 then Some KSI_SERVICE_EXTENDER_DATABASE_MISSING
        else if c = 0x0202 then Some KSI_SERVICE_EXTENDER_DATABASE_CORRUPT
        else if c = 0x0300 then Some KSI_SERVICE_UPSTREAM_ERROR
        else if c = 0x0301 then Some KSI_SERVICE_UPSTREAM_TIMEOUT
        else Some KSI_SERVICE_UNKNOWN_ERROR)"

lemma convertExtenderStatusCode_Ok:
  "KSI_convertExtenderStatusCode s = None \<longleftrightarrow> s = None \<or> s = Some 0"
  by (auto simp: KSI_convertExtenderStatusCode_def KSI_Integer_getUInt64_def Let_def)

end
