(* ===== verification/Policy.thy ===== *)
theory Policy
  imports SignatureData
begin

text \<open>
  The verification engine of \<^verbatim>\<open>src/src/ksi/policy.c\<close>: the results of rules and policies, the evaluation of
  an array of basic and composite rules, policies with fallback policies, the loop of the signature
  verifier, and the names of the error codes.

  The engine is parametrised by the type \<open>'c\<close> of the verification context; a basic rule is a function that
  takes the context and the result object and returns its status with both of them.  A status is
  \<open>Ok ()\<close> for \<open>KSI_OK\<close>, an error, or \<open>Fault\<close> when the call has undefined behaviour.
\<close>

section \<open>Results\<close>

datatype KSI_VerificationResultCode = KSI_VER_RES_OK | KSI_VER_RES_NA | KSI_VER_RES_FAIL

datatype (plugins only: code) KSI_VerificationErrorCode =
    KSI_VER_ERR_NONE
  | KSI_VER_ERR_GEN_1
  | KSI_VER_ERR_GEN_2
  | KSI_VER_ERR_GEN_3
  | KSI_VER_ERR_GEN_4
  | KSI_VER_ERR_INT_1
  | KSI_VER_ERR_INT_2
  | KSI_VER_ERR_INT_3
  | KSI_VER_ERR_INT_4
  | KSI_VER_ERR_INT_5
  | KSI_VER_ERR_INT_6
  | KSI_VER_ERR_INT_7
  | KSI_VER_ERR_INT_8
  | KSI_VER_ERR_INT_9
  | KSI_VER_ERR_INT_10
  | KSI_VER_ERR_INT_11
  | KSI_VER_ERR_INT_12
  | KSI_VER_ERR_INT_13
  | KSI_VER_ERR_INT_14
  | KSI_VER_ERR_INT_15
  | KSI_VER_ERR_INT_16
  | KSI_VER_ERR_INT_17
  | KSI_VER_ERR_PUB_1
  | KSI_VER_ERR_PUB_2
  | KSI_VER_ERR_PUB_3
  | KSI_VER_ERR_PUB_4
  | KSI_VER_ERR_PUB_5
  | KSI_VER_ERR_KEY_1
  | KSI_VER_ERR_KEY_2
  | KSI_VER_ERR_KEY_3
  | KSI_VER_ERR_CAL_1
  | KSI_VER_ERR_CAL_2
  | KSI_VER_ERR_CAL_3
  | KSI_VER_ERR_CAL_4

text \<open>\<^verbatim>\<open>KSI_VERIFICATION_ERROR_CODE_LIST\<close>: the constant, its number and offset, its name and its meaning.\<close>

definition KSI_VERIFICATION_ERROR_CODE_LIST :: "(KSI_VerificationErrorCode \<times> int \<times> int \<times> string \<times> string) list" where
  "KSI_VERIFICATION_ERROR_CODE_LIST =
    [(KSI_VER_ERR_GEN_1, 1, 0x100, ''GEN-01'', ''Wrong document''),
     (KSI_VER_ERR_GEN_2, 2, 0x100, ''GEN-02'', ''Verification inconclusive''),
     (KSI_VER_ERR_GEN_3, 3, 0x100, ''GEN-03'', ''Input hash level too large''),
     (KSI_VER_ERR_GEN_4, 4, 0x100, ''GEN-04'', ''Wrong input hash algorithm''),
     (KSI_VER_ERR_INT_1, 1, 0x200, ''INT-01'', ''Inconsistent aggregation hash chains''),
     (KSI_VER_ERR_INT_2, 2, 0x200, ''INT-02'', ''Inconsistent aggregation hash chain aggregation times''),
     (KSI_VER_ERR_INT_3, 3, 0x200, ''INT-03'', ''Calendar hash chain input hash mismatch''),
     (KSI_VER_ERR_INT_4, 4, 0x200, ''INT-04'', ''Calendar hash chain aggregation time mismatch''),
     (KSI_VER_ERR_INT_5, 5, 0x200, ''INT-05'', ''Calendar hash chain shape inconsistent with aggregation time''),
     (KSI_VER_ERR_INT_6, 6, 0x200, ''INT-06'', ''Calendar hash chain time inconsistent with calendar authentication record time''),
     (KSI_VER_ERR_INT_7, 7, 0x200, ''INT-07'', ''Calendar hash chain time inconsistent with publication time''),
     (KSI_VER_ERR_INT_8, 8, 0x200, ''INT-08'', ''Calendar hash chain root hash is inconsistent with calendar authentication record input hash''),
     (KSI_VER_ERR_INT_9, 9, 0x200, ''INT-09'', ''Calendar hash chain root hash is inconsistent with published hash value''),
     (KSI_VER_ERR_INT_10, 10, 0x200, ''INT-10'', ''Aggregation hash chain chain index mismatch''),
     (KSI_VER_ERR_INT_11, 11, 0x200, ''INT-11'', ''The metadata record in the aggregation hash chain may not be trusted''),
     (KSI_VER_ERR_INT_12, 12, 0x200, ''INT-12'', ''Inconsistent chain indexes''),
     (KSI_VER_ERR_INT_13, 13, 0x200, ''INT-13'', ''Document hash algorithm deprecated at the time of signing''),
     (KSI_VER_ERR_INT_14, 14, 0x200, ''INT-14'', ''RFC3161 compatibility record composed of hash algorithms that where deprecated at the time of signing''),
     (KSI_VER_ERR_INT_15, 15, 0x200, ''INT-15'', ''Aggregation hash chain uses hash algorithm that was deprecated at the time of signing''),
     (KSI_VER_ERR_INT_16, 16, 0x200, ''INT-16'', ''Calendar hash chain hash algorithm was obsolete at publication time''),
     (KSI_VER_ERR_INT_17, 17, 0x200, ''INT-17'', ''The RFC3161 compatibility record output hash algorithm was deprecated at the time of signing''),
     (KSI_VER_ERR_PUB_1, 1, 0x300, ''PUB-01'', ''Extender response calendar root hash mismatch''),
     (KSI_VER_ERR_PUB_2, 2, 0x300, ''PUB-02'', ''Extender response inconsistent''),
     (KSI_VER_ERR_PUB_3, 3, 0x300, ''PUB-03'', ''Extender response input hash mismatch''),
     (KSI_VER_ERR_PUB_4, 4, 0x300, ''PUB-04'', ''Publication record hash and user provided publication hash mismatch''),
     (KSI_VER_ERR_PUB_5, 5, 0x300, ''PUB-05'', ''Publication record hash and publications file publication hash mismatch''),
     (KSI_VER_ERR_KEY_1, 1, 0x400, ''KEY-01'', ''Certificate not found''),
     (KSI_VER_ERR_KEY_2, 2, 0x400, ''KEY-02'', ''PKI signature not verified with certificate''),
     (KSI_VER_ERR_KEY_3, 3, 0x400, ''KEY-03'', ''Signing certificate not valid at aggregation time''),
     (KSI_VER_ERR_CAL_1, 1, 0x500, ''CAL-01'', ''Calendar root hash mismatch between signature and calendar database chain''),
     (KSI_VER_ERR_CAL_2, 2, 0x500, ''CAL-02'', ''Aggregation hash chain root hash and calendar database hash chain input hash mismatch''),
     (KSI_VER_ERR_CAL_3, 3, 0x500, ''CAL-03'', ''Aggregation time mismatch''),
     (KSI_VER_ERR_CAL_4, 4, 0x500, ''CAL-04'', ''Calendar hash chain right links are inconsistent'')]"

text \<open>The value of a constant of the enumeration.\<close>

definition error_value :: "KSI_VerificationErrorCode \<Rightarrow> int" where
  "error_value e =
     (case find (\<lambda>(e', code, offset, str, desc). e' = e) KSI_VERIFICATION_ERROR_CODE_LIST of
        Some (e, code, offset, str, desc) \<Rightarrow> offset + code
      | None \<Rightarrow> 0)"

definition KSI_VerificationErrorCode_toString :: "int \<Rightarrow> string" where
  "KSI_VerificationErrorCode_toString errorCode =
     (if errorCode = error_value KSI_VER_ERR_NONE then []
      else (case find (\<lambda>(e, code, offset, str, desc). errorCode = offset + code) KSI_VERIFICATION_ERROR_CODE_LIST of
              Some (e, code, offset, str, desc) \<Rightarrow> str
            | None \<Rightarrow> ''Unknown''))"

definition KSI_VerificationErrorCode_fromString :: "string \<Rightarrow> int" where
  "KSI_VerificationErrorCode_fromString errCodeStr =
     (case find (\<lambda>(e, code, offset, str, desc). str = errCodeStr) KSI_VERIFICATION_ERROR_CODE_LIST of
        Some (e, code, offset, str, desc) \<Rightarrow> offset + code
      | None \<Rightarrow> error_value KSI_VER_ERR_NONE)"

definition KSI_Policy_getErrorString :: "int \<Rightarrow> string" where
  "KSI_Policy_getErrorString errorCode =
     (if errorCode = error_value KSI_VER_ERR_NONE then ''No verification errors''
      else (case find (\<lambda>(e, code, offset, str, desc). errorCode = offset + code) KSI_VERIFICATION_ERROR_CODE_LIST of
              Some (e, code, offset, str, desc) \<Rightarrow> desc
            | None \<Rightarrow> ''Unknown verification error code''))"

text \<open>Rule names are compared by the address of the string; every rule has a string of its own.\<close>

record KSI_RuleVerificationResult =
  resultCode :: KSI_VerificationResultCode
  errorCode :: KSI_VerificationErrorCode
  ruleName :: "string option"
  policyName :: "string option"
  stepsPerformed :: u64
  stepsSuccessful :: u64
  stepsFailed :: u64

record KSI_PolicyVerificationResult =
  pv_resultCode :: KSI_VerificationResultCode
  finalResult :: KSI_RuleVerificationResult
  ruleResults :: "KSI_RuleVerificationResult list"
  policyResults :: "KSI_RuleVerificationResult list"

section \<open>Rules\<close>

type_synonym 'c Verifier = "'c \<Rightarrow> KSI_RuleVerificationResult \<Rightarrow> unit run \<times> 'c \<times> KSI_RuleVerificationResult"

text \<open>An array of rules is the list of the rules in front of the one with a null pointer.\<close>

datatype (plugins only: code size) 'c KSI_Rule =
    KSI_RULE_TYPE_BASIC "'c Verifier"
  | KSI_RULE_TYPE_COMPOSITE_AND "'c KSI_Rule list"
  | KSI_RULE_TYPE_COMPOSITE_OR "'c KSI_Rule list"

definition isDuplicateRuleResult :: "KSI_RuleVerificationResult list \<Rightarrow> KSI_RuleVerificationResult \<Rightarrow> bool" where
  "isDuplicateRuleResult resultList result = list_ex (\<lambda>tmp. ruleName tmp = ruleName result) resultList"

text \<open>The status of this function, which reports an error for a duplicate, is ignored by its caller.\<close>

definition PolicyVerificationResult_addLatestRuleResult :: "KSI_PolicyVerificationResult \<Rightarrow> KSI_PolicyVerificationResult" where
  "PolicyVerificationResult_addLatestRuleResult result =
     (if isDuplicateRuleResult (ruleResults result) (finalResult result) then result
      else result\<lparr>ruleResults := ruleResults result @ [finalResult result]\<rparr>)"

definition begin_rule :: "KSI_PolicyVerificationResult \<Rightarrow> KSI_PolicyVerificationResult" where
  "begin_rule p = p\<lparr>finalResult := (finalResult p)\<lparr>resultCode := KSI_VER_RES_NA, errorCode := KSI_VER_ERR_GEN_2\<rparr>\<rparr>"

text \<open>After the rule: the code is copied and the result of a basic rule is kept, unless the rule has only
  told that a component is missing or present.\<close>

definition end_rule :: "bool \<Rightarrow> unit run \<Rightarrow> KSI_PolicyVerificationResult \<Rightarrow> KSI_PolicyVerificationResult" where
  "end_rule basic res p =
     (let p = p\<lparr>pv_resultCode := resultCode (finalResult p)\<rparr> in
      if basic \<and> \<not> (res = Ok () \<and> resultCode (finalResult p) = KSI_VER_RES_NA \<and> errorCode (finalResult p) = KSI_VER_ERR_NONE)
      then PolicyVerificationResult_addLatestRuleResult p else p)"

text \<open>Whether the array is left behind a rule, given its status and result code.\<close>

definition leaves_array :: "bool \<Rightarrow> unit run \<Rightarrow> KSI_VerificationResultCode \<Rightarrow> bool" where
  "leaves_array is_or res code =
     (if res \<noteq> Ok () then True
      else if code = KSI_VER_RES_FAIL then True
      else if code = KSI_VER_RES_OK then is_or
      else \<not> is_or)"

fun ruleLoop ::
    "'c KSI_Rule list \<Rightarrow> unit run \<Rightarrow> 'c \<Rightarrow> KSI_PolicyVerificationResult \<Rightarrow> unit run \<times> 'c \<times> KSI_PolicyVerificationResult" where
  "ruleLoop [] res context p = (res, context, p)"
| "ruleLoop (KSI_RULE_TYPE_BASIC rule # rs) res context p =
     (let p = begin_rule p;
          (res, context, fr) = rule context (finalResult p);
          p = end_rule True res (p\<lparr>finalResult := fr\<rparr>)
      in if leaves_array False res (pv_resultCode p) then (res, context, p) else ruleLoop rs res context p)"
| "ruleLoop (KSI_RULE_TYPE_COMPOSITE_AND rule # rs) res context p =
     (let (res, context, p) = ruleLoop rule (Err KSI_UNKNOWN_ERROR) context (begin_rule p);
          p = end_rule False res p
      in if leaves_array False res (pv_resultCode p) then (res, context, p) else ruleLoop rs res context p)"
| "ruleLoop (KSI_RULE_TYPE_COMPOSITE_OR rule # rs) res context p =
     (let (res, context, p) = ruleLoop rule (Err KSI_UNKNOWN_ERROR) context (begin_rule p);
          p = end_rule False res p
      in if leaves_array True res (pv_resultCode p) then (res, context, p) else ruleLoop rs res context p)"

definition Rule_verify ::
    "'c KSI_Rule list \<Rightarrow> 'c \<Rightarrow> KSI_PolicyVerificationResult \<Rightarrow> unit run \<times> 'c \<times> KSI_PolicyVerificationResult" where
  "Rule_verify rule context policyResult = ruleLoop rule (Err KSI_UNKNOWN_ERROR) context policyResult"

section \<open>Contexts\<close>

record VerificationTempData =
  tmp_calendarChain :: "KSI_CalendarHashChain option"
  tmp_publicationsFile :: "KSI_PublicationsFile option"
  aggregationOutputHash :: "KSI_DataHash option"

text \<open>The last two fields belong to the KSI context behind \<^verbatim>\<open>ctx\<close>: the pointer to the signature that has failed
  last, which is the signature of this context when it is not null, together with the result attached to
  it; and the number of calls to remote services so far, by which the answers of the services are told
  apart.\<close>

record KSI_VerificationContext =
  signature :: "KSI_Signature option"
  extendingAllowed :: int
  docAggrLevel :: u64
  documentHash :: "KSI_DataHash option"
  userPublication :: "KSI_PublicationData option"
  userPublicationsFile :: "KSI_PublicationsFile option"
  tempData :: "VerificationTempData option"
  lastFailedSignature :: "KSI_PolicyVerificationResult option option"
  netCalls :: nat

definition VerificationTempData_empty :: VerificationTempData where
  "VerificationTempData_empty = \<lparr>tmp_calendarChain = None, tmp_publicationsFile = None, aggregationOutputHash = None\<rparr>"

definition VerificationTempData_clear :: "VerificationTempData option \<Rightarrow> VerificationTempData option" where
  "VerificationTempData_clear tmp =
     map_option (\<lambda>t. t\<lparr>aggregationOutputHash := None, tmp_calendarChain := None, tmp_publicationsFile := None\<rparr>) tmp"

definition KSI_VerificationContext_init :: "KSI_VerificationContext \<Rightarrow> KSI_VerificationContext" where
  "KSI_VerificationContext_init context =
     context\<lparr>signature := None, extendingAllowed := 0, docAggrLevel := 0, documentHash := None, userPublication := None,
             userPublicationsFile := None, tempData := None\<rparr>"

definition KSI_VerificationContext_clean :: "KSI_VerificationContext \<Rightarrow> KSI_VerificationContext" where
  "KSI_VerificationContext_clean context = context\<lparr>tempData := None\<rparr>"

section \<open>Policies\<close>

text \<open>Policies live in a memory in which they are addressed by their position, because the fallback of a policy
  is a pointer that can be changed later.\<close>

record 'c KSI_Policy =
  pol_rules :: "'c KSI_Rule list option"
  fallbackPolicy :: "nat option"
  pol_policyName :: string

definition KSI_Policy_create ::
    "'c KSI_Policy list \<Rightarrow> 'c KSI_Rule list option \<Rightarrow> string option \<Rightarrow> (nat \<times> 'c KSI_Policy list) ksi_result" where
  "KSI_Policy_create m rls name =
     the_ptr rls KSI_INVALID_ARGUMENT (\<lambda>rls.
     the_ptr name KSI_INVALID_ARGUMENT (\<lambda>name.
       Inr (length m, m @ [\<lparr>pol_rules = Some rls, fallbackPolicy = None, pol_policyName = name\<rparr>])))"

definition KSI_Policy_clone :: "'c KSI_Policy list \<Rightarrow> nat option \<Rightarrow> (nat \<times> 'c KSI_Policy list) ksi_result" where
  "KSI_Policy_clone m policy =
     the_ptr policy KSI_INVALID_ARGUMENT (\<lambda>policy.
       Inr (length m, m @ [\<lparr>pol_rules = pol_rules (m ! policy), fallbackPolicy = fallbackPolicy (m ! policy),
                            pol_policyName = pol_policyName (m ! policy)\<rparr>]))"

definition KSI_Policy_setFallback :: "'c KSI_Policy list \<Rightarrow> nat option \<Rightarrow> nat option \<Rightarrow> 'c KSI_Policy list ksi_result" where
  "KSI_Policy_setFallback m policy fallback =
     the_ptr policy KSI_INVALID_ARGUMENT (\<lambda>policy.
     the_ptr fallback KSI_INVALID_ARGUMENT (\<lambda>fallback.
       Inr (m[policy := (m ! policy)\<lparr>fallbackPolicy := Some fallback\<rparr>])))"

definition Policy_verifySignature ::
    "'c KSI_Policy \<Rightarrow> 'c \<Rightarrow> KSI_PolicyVerificationResult \<Rightarrow> unit run \<times> 'c \<times> KSI_PolicyVerificationResult" where
  "Policy_verifySignature policy context policyResult =
     (case pol_rules policy of
        None \<Rightarrow> (Err KSI_INVALID_ARGUMENT, context, policyResult)
      | Some rls \<Rightarrow> Rule_verify rls context policyResult)"

definition PolicyVerificationResult_addLatestPolicyResult :: "KSI_PolicyVerificationResult \<Rightarrow> KSI_PolicyVerificationResult" where
  "PolicyVerificationResult_addLatestPolicyResult result = result\<lparr>policyResults := policyResults result @ [finalResult result]\<rparr>"

definition PolicyVerificationResult_create :: KSI_PolicyVerificationResult where
  "PolicyVerificationResult_create =
     \<lparr>pv_resultCode = KSI_VER_RES_NA,
      finalResult = \<lparr>resultCode = KSI_VER_RES_NA, errorCode = KSI_VER_ERR_GEN_2, ruleName = None, policyName = None,
                     stepsPerformed = 0, stepsSuccessful = 0, stepsFailed = 0\<rparr>,
      ruleResults = [], policyResults = []\<rparr>"

section \<open>The signature verifier\<close>

text \<open>The loop over a policy and its fallbacks.  It may run forever, when the fallback pointers form a cycle: the
  value is then \<open>None\<close>.\<close>

partial_function (option) policyLoop ::
    "KSI_VerificationContext KSI_Policy list \<Rightarrow> nat option \<Rightarrow> KSI_VerificationContext \<Rightarrow> KSI_PolicyVerificationResult
       \<Rightarrow> (unit run \<times> KSI_VerificationContext \<times> KSI_PolicyVerificationResult) option" where
  "policyLoop m currentPolicy context tmp =
     (case currentPolicy of
        None \<Rightarrow> Some (Ok (), context, tmp)
      | Some policy \<Rightarrow>
          (case Policy_verifySignature (m ! policy) context
                  (tmp\<lparr>finalResult := (finalResult tmp)\<lparr>policyName := Some (pol_policyName (m ! policy))\<rparr>\<rparr>) of
             (res, context, tmp) \<Rightarrow>
               if res \<noteq> Ok () then Some (res, context, tmp)
               else if resultCode (finalResult (PolicyVerificationResult_addLatestPolicyResult tmp)) \<noteq> KSI_VER_RES_OK then
                 policyLoop m (fallbackPolicy (m ! policy))
                   (if fallbackPolicy (m ! policy) \<noteq> None then context\<lparr>tempData := VerificationTempData_clear (tempData context)\<rparr> else context)
                   (PolicyVerificationResult_addLatestPolicyResult tmp)
               else policyLoop m None context (PolicyVerificationResult_addLatestPolicyResult tmp)))"

definition begin_verification :: "KSI_VerificationContext \<Rightarrow> KSI_VerificationContext" where
  "begin_verification context =
     context\<lparr>tempData := Some VerificationTempData_empty,
             lastFailedSignature := (if signature context = None then None else Some None)\<rparr>"

text \<open>The value \<open>None\<close> is a call that does not return.\<close>

definition KSI_SignatureVerifier_verify ::
    "KSI_VerificationContext KSI_Policy list \<Rightarrow> nat option \<Rightarrow> KSI_VerificationContext
       \<Rightarrow> (KSI_PolicyVerificationResult run \<times> KSI_VerificationContext) option" where
  "KSI_SignatureVerifier_verify m policy context =
     (if policy = None then Some (Err KSI_INVALID_ARGUMENT, context\<lparr>tempData := None\<rparr>)
      else
        (case policyLoop m policy (begin_verification context) PolicyVerificationResult_create of
           None \<Rightarrow> None
         | Some (Ok _, context, tmp) \<Rightarrow>
             Some (Ok tmp,
               context\<lparr>lastFailedSignature :=
                         (if resultCode (finalResult tmp) \<noteq> KSI_VER_RES_OK then map_option (\<lambda>_. Some tmp) (lastFailedSignature context)
                          else None),
                       tempData := None\<rparr>)
         | Some (Err e, context, tmp) \<Rightarrow> Some (Err e, context\<lparr>tempData := None\<rparr>)
         | Some (Fault, context, tmp) \<Rightarrow> Some (Fault, context)))"

section \<open>Names of error codes\<close>

lemma error_values_distinct: "distinct (map (\<lambda>(e, code, offset, str, desc). offset + code) KSI_VERIFICATION_ERROR_CODE_LIST)"
  by (simp add: KSI_VERIFICATION_ERROR_CODE_LIST_def)

lemma error_names_distinct: "distinct (map (\<lambda>(e, code, offset, str, desc). str) KSI_VERIFICATION_ERROR_CODE_LIST)"
  by (simp add: KSI_VERIFICATION_ERROR_CODE_LIST_def)


section \<open>The evaluation of rules as a big-step semantics\<close>

text \<open>What a basic rule decides: its status, its result code and the context it leaves.  The contract of a
  rule is that none of them depends on the result object it is handed.\<close>

definition fresh_result :: KSI_RuleVerificationResult where
  "fresh_result = finalResult PolicyVerificationResult_create"

definition decides :: "'c Verifier \<Rightarrow> 'c \<Rightarrow> KSI_VerificationResultCode \<Rightarrow> 'c \<Rightarrow> bool" where
  "decides v c code c' \<longleftrightarrow> (\<exists>r. v c fresh_result = (Ok (), c', r) \<and> resultCode r = code)"

text \<open>\<open>concludes rs c code c'\<close>: evaluated in context \<open>c\<close>, the array \<open>rs\<close> ends regularly with the given result
  code, in context \<open>c'\<close>.\<close>

inductive concludes :: "'c KSI_Rule list \<Rightarrow> 'c \<Rightarrow> KSI_VerificationResultCode \<Rightarrow> 'c \<Rightarrow> bool" where
  basic_stop: "decides v c code c' \<Longrightarrow> code \<noteq> KSI_VER_RES_OK \<or> rs = [] \<Longrightarrow> concludes (KSI_RULE_TYPE_BASIC v # rs) c code c'"
| basic_next: "decides v c KSI_VER_RES_OK c' \<Longrightarrow> concludes rs c' code c'' \<Longrightarrow> concludes (KSI_RULE_TYPE_BASIC v # rs) c code c''"
| and_stop: "concludes sub c code c' \<Longrightarrow> code \<noteq> KSI_VER_RES_OK \<or> rs = []
    \<Longrightarrow> concludes (KSI_RULE_TYPE_COMPOSITE_AND sub # rs) c code c'"
| and_next: "concludes sub c KSI_VER_RES_OK c' \<Longrightarrow> concludes rs c' code c''
    \<Longrightarrow> concludes (KSI_RULE_TYPE_COMPOSITE_AND sub # rs) c code c''"
| or_stop: "concludes sub c code c' \<Longrightarrow> code \<noteq> KSI_VER_RES_NA \<or> rs = []
    \<Longrightarrow> concludes (KSI_RULE_TYPE_COMPOSITE_OR sub # rs) c code c'"
| or_next: "concludes sub c KSI_VER_RES_NA c' \<Longrightarrow> concludes rs c' code c''
    \<Longrightarrow> concludes (KSI_RULE_TYPE_COMPOSITE_OR sub # rs) c code c''"

inductive_simps concludes_Nil: "concludes [] c code c'"
inductive_simps concludes_basic: "concludes (KSI_RULE_TYPE_BASIC v # rs) c code c'"
inductive_simps concludes_and: "concludes (KSI_RULE_TYPE_COMPOSITE_AND sub # rs) c code c'"
inductive_simps concludes_or: "concludes (KSI_RULE_TYPE_COMPOSITE_OR sub # rs) c code c'"

lemmas concludes_simps = concludes_Nil concludes_basic concludes_and concludes_or

text \<open>The basic rules in an array.\<close>

fun basics :: "'c KSI_Rule list \<Rightarrow> 'c Verifier list" where
  "basics [] = []"
| "basics (KSI_RULE_TYPE_BASIC v # rs) = v # basics rs"
| "basics (KSI_RULE_TYPE_COMPOSITE_AND sub # rs) = basics sub @ basics rs"
| "basics (KSI_RULE_TYPE_COMPOSITE_OR sub # rs) = basics sub @ basics rs"

lemma pv_resultCode_end_rule [simp]: "pv_resultCode (end_rule b res p) = resultCode (finalResult p)"
  by (simp add: end_rule_def PolicyVerificationResult_addLatestRuleResult_def Let_def)

lemma finalResult_end_rule [simp]: "finalResult (end_rule b res p) = finalResult p"
  by (simp add: end_rule_def PolicyVerificationResult_addLatestRuleResult_def Let_def)

lemma policyResults_end_rule [simp]: "policyResults (end_rule b res p) = policyResults p"
  by (simp add: end_rule_def PolicyVerificationResult_addLatestRuleResult_def Let_def)

lemma leaves_array_Ok [simp]:
  "leaves_array False (Ok ()) code \<longleftrightarrow> code \<noteq> KSI_VER_RES_OK"
  "leaves_array True (Ok ()) code \<longleftrightarrow> code \<noteq> KSI_VER_RES_NA"
  by (cases code; simp add: leaves_array_def)+

lemma leaves_array_not_Ok: "res \<noteq> Ok () \<Longrightarrow> leaves_array b res code"
  by (simp add: leaves_array_def)

locale rule_contract =
  fixes basic :: "'c Verifier \<Rightarrow> bool"
  assumes blind: "basic v \<Longrightarrow> fst (v c r) = fst (v c r') \<and> fst (snd (v c r)) = fst (snd (v c r'))"
    and keeps_policy: "basic v \<Longrightarrow> policyName (snd (snd (v c r))) = policyName r"
    and blind_code: "basic v \<Longrightarrow> fst (v c r) = Ok () \<Longrightarrow> resultCode (snd (snd (v c r))) = resultCode (snd (snd (v c r')))"
begin

lemma decides_iff:
  assumes "basic v" "v c r = (res, c1, r1)"
  shows "decides v c code c' \<longleftrightarrow> res = Ok () \<and> c1 = c' \<and> resultCode r1 = code"
  using blind [OF assms(1), of c r fresh_result] blind_code [OF assms(1), of c r fresh_result] assms(2)
  by (cases "v c fresh_result") (auto simp: decides_def)

text \<open>One step of the loop, for a rule that has ended with status \<open>s\<close>, context \<open>c1\<close> and result \<open>q\<close>.\<close>

lemma ruleLoop_step:
  assumes tail: "rs \<noteq> [] \<Longrightarrow> \<not> leaves_array is_or s (resultCode (finalResult q))
      \<Longrightarrow> concludes rs c1 code d \<longleftrightarrow> res' = Ok () \<and> d = c' \<and> resultCode (finalResult p') = code"
    and loop: "(if leaves_array is_or s (resultCode (finalResult q)) then (s, c1, q) else ruleLoop rs s c1 q) = (res', c', p')"
  shows "(s = Ok () \<and> (resultCode (finalResult q) \<noteq> (if is_or then KSI_VER_RES_NA else KSI_VER_RES_OK) \<or> rs = [])
              \<and> resultCode (finalResult q) = code \<and> c1 = d
          \<or> s = Ok () \<and> resultCode (finalResult q) = (if is_or then KSI_VER_RES_NA else KSI_VER_RES_OK) \<and> concludes rs c1 code d)
       \<longleftrightarrow> res' = Ok () \<and> d = c' \<and> resultCode (finalResult p') = code"
proof (cases "leaves_array is_or s (resultCode (finalResult q))")
  case True
  then show ?thesis using loop by (cases is_or) auto
next
  case False
  then have s: "s = Ok ()" "resultCode (finalResult q) = (if is_or then KSI_VER_RES_NA else KSI_VER_RES_OK)"
    by (auto simp: leaves_array_def split: if_splits intro: KSI_VerificationResultCode.exhaust)
  show ?thesis using s False loop tail by (cases "rs = []") (auto simp: concludes_Nil)
qed

lemma ruleLoop_concludes:
  assumes "list_all basic (basics rs)" "ruleLoop rs res c p = (res', c', p')" "rs = [] \<Longrightarrow> res \<noteq> Ok ()"
  shows "concludes rs c code d \<longleftrightarrow> res' = Ok () \<and> d = c' \<and> resultCode (finalResult p') = code"
  using assms
proof (induction rs res c p arbitrary: res' c' p' code d rule: ruleLoop.induct)
  case (1 res c p)
  then show ?case by (auto simp: concludes_Nil)
next
  case (2 v rs res c p)
  obtain s c1 fr where v: "v c (finalResult (begin_rule p)) = (s, c1, fr)" by (cases "v c (finalResult (begin_rule p))")
  define q where "q = end_rule True s ((begin_rule p)\<lparr>finalResult := fr\<rparr>)"
  have q: "finalResult q = fr" "pv_resultCode q = resultCode fr" by (simp_all add: q_def)
  have d: "decides v c k e \<longleftrightarrow> s = Ok () \<and> c1 = e \<and> resultCode fr = k" for k e
    using 2(2) v by (simp add: decides_iff)
  have "concludes (KSI_RULE_TYPE_BASIC v # rs) c code d
      \<longleftrightarrow> (s = Ok () \<and> (resultCode fr \<noteq> KSI_VER_RES_OK \<or> rs = []) \<and> resultCode fr = code \<and> c1 = d
          \<or> s = Ok () \<and> resultCode fr = KSI_VER_RES_OK \<and> concludes rs c1 code d)"
    by (auto simp: concludes_basic d)
  also have "\<dots> \<longleftrightarrow> res' = Ok () \<and> d = c' \<and> resultCode (finalResult p') = code"
  proof -
    have loop: "(if leaves_array False s (resultCode (finalResult q)) then (s, c1, q) else ruleLoop rs s c1 q) = (res', c', p')"
      using 2(3) v q by (auto simp: q_def Let_def split: if_splits)
    then have "concludes rs c1 code d \<longleftrightarrow> res' = Ok () \<and> d = c' \<and> resultCode (finalResult p') = code"
      if "rs \<noteq> []" "\<not> leaves_array False s (resultCode (finalResult q))"
      using that 2(1) [OF refl v [symmetric] refl refl] 2(2) q by (simp add: q_def)
    from ruleLoop_step [OF this loop] q show ?thesis by simp
  qed
  finally show ?case .
next
  case (3 sub rs res c p)
  obtain s c1 p1 where v: "ruleLoop sub (Err KSI_UNKNOWN_ERROR) c (begin_rule p) = (s, c1, p1)"
    by (cases "ruleLoop sub (Err KSI_UNKNOWN_ERROR) c (begin_rule p)")
  define q where "q = end_rule False s p1"
  have q: "finalResult q = finalResult p1" "pv_resultCode q = resultCode (finalResult p1)" by (simp_all add: q_def)
  have d: "concludes sub c k e \<longleftrightarrow> s = Ok () \<and> e = c1 \<and> resultCode (finalResult p1) = k" for k e
    using 3(1) 3(3) v by simp
  have "concludes (KSI_RULE_TYPE_COMPOSITE_AND sub # rs) c code d
      \<longleftrightarrow> (s = Ok () \<and> (resultCode (finalResult p1) \<noteq> KSI_VER_RES_OK \<or> rs = []) \<and> resultCode (finalResult p1) = code \<and> c1 = d
          \<or> s = Ok () \<and> resultCode (finalResult p1) = KSI_VER_RES_OK \<and> concludes rs c1 code d)"
    by (auto simp: concludes_and d)
  also have "\<dots> \<longleftrightarrow> res' = Ok () \<and> d = c' \<and> resultCode (finalResult p') = code"
  proof -
    have loop: "(if leaves_array False s (resultCode (finalResult q)) then (s, c1, q) else ruleLoop rs s c1 q) = (res', c', p')"
      using 3(4) v q by (auto simp: q_def Let_def split: if_splits)
    then have "concludes rs c1 code d \<longleftrightarrow> res' = Ok () \<and> d = c' \<and> resultCode (finalResult p') = code"
      if "rs \<noteq> []" "\<not> leaves_array False s (resultCode (finalResult q))"
      using that 3(2) [OF v [symmetric] refl refl] 3(3) q by (simp add: q_def)
    from ruleLoop_step [OF this loop] q show ?thesis by simp
  qed
  finally show ?case .
next
  case (4 sub rs res c p)
  obtain s c1 p1 where v: "ruleLoop sub (Err KSI_UNKNOWN_ERROR) c (begin_rule p) = (s, c1, p1)"
    by (cases "ruleLoop sub (Err KSI_UNKNOWN_ERROR) c (begin_rule p)")
  define q where "q = end_rule False s p1"
  have q: "finalResult q = finalResult p1" "pv_resultCode q = resultCode (finalResult p1)" by (simp_all add: q_def)
  have d: "concludes sub c k e \<longleftrightarrow> s = Ok () \<and> e = c1 \<and> resultCode (finalResult p1) = k" for k e
    using 4(1) 4(3) v by simp
  have "concludes (KSI_RULE_TYPE_COMPOSITE_OR sub # rs) c code d
      \<longleftrightarrow> (s = Ok () \<and> (resultCode (finalResult p1) \<noteq> KSI_VER_RES_NA \<or> rs = []) \<and> resultCode (finalResult p1) = code \<and> c1 = d
          \<or> s = Ok () \<and> resultCode (finalResult p1) = KSI_VER_RES_NA \<and> concludes rs c1 code d)"
    by (auto simp: concludes_or d)
  also have "\<dots> \<longleftrightarrow> res' = Ok () \<and> d = c' \<and> resultCode (finalResult p') = code"
  proof -
    have loop: "(if leaves_array True s (resultCode (finalResult q)) then (s, c1, q) else ruleLoop rs s c1 q) = (res', c', p')"
      using 4(4) v q by (auto simp: q_def Let_def split: if_splits)
    then have "concludes rs c1 code d \<longleftrightarrow> res' = Ok () \<and> d = c' \<and> resultCode (finalResult p') = code"
      if "rs \<noteq> []" "\<not> leaves_array True s (resultCode (finalResult q))"
      using that 4(2) [OF v [symmetric] refl refl] 4(3) q by (simp add: q_def)
    from ruleLoop_step [OF this loop] q show ?thesis by simp
  qed
  finally show ?case .
qed


lemma ruleLoop_keeps:
  assumes "list_all basic (basics rs)" "ruleLoop rs res c p = (res', c', p')"
  shows "policyName (finalResult p') = policyName (finalResult p) \<and> policyResults p' = policyResults p"
  using assms
proof (induction rs res c p arbitrary: res' c' p' rule: ruleLoop.induct)
  case (2 v rs res c p)
  have start: "policyName (finalResult (begin_rule p)) = policyName (finalResult p)" "policyResults (begin_rule p) = policyResults p"
    by (simp_all add: begin_rule_def)
  obtain s c1 fr where v: "v c (finalResult (begin_rule p)) = (s, c1, fr)" by (cases "v c (finalResult (begin_rule p))")
  then have "policyName fr = policyName (finalResult p)"
    using keeps_policy [of v c "finalResult (begin_rule p)"] 2(2) start by simp
  then show ?case using 2(1) [OF refl v [symmetric] refl refl] 2(2,3) v start by (auto simp: Let_def split: if_splits)
next
  case (3 sub rs res c p)
  obtain s c1 p1 where v: "ruleLoop sub (Err KSI_UNKNOWN_ERROR) c (begin_rule p) = (s, c1, p1)"
    by (cases "ruleLoop sub (Err KSI_UNKNOWN_ERROR) c (begin_rule p)")
  then show ?case using 3(1) 3(2) [OF v [symmetric] refl refl] 3(3,4) by (auto simp: Let_def begin_rule_def split: if_splits)
next
  case (4 sub rs res c p)
  obtain s c1 p1 where v: "ruleLoop sub (Err KSI_UNKNOWN_ERROR) c (begin_rule p) = (s, c1, p1)"
    by (cases "ruleLoop sub (Err KSI_UNKNOWN_ERROR) c (begin_rule p)")
  then show ?case using 4(1) 4(2) [OF v [symmetric] refl refl] 4(3,4) by (auto simp: Let_def begin_rule_def split: if_splits)
qed simp

lemma Rule_verify_iff:
  assumes "list_all basic (basics rs)" "Rule_verify rs c p = (res, c', p')"
  shows "concludes rs c code d \<longleftrightarrow> res = Ok () \<and> d = c' \<and> resultCode (finalResult p') = code"
  using ruleLoop_concludes [of rs "Err KSI_UNKNOWN_ERROR" c p] assms by (simp add: Rule_verify_def)

lemma Rule_verify_concludes:
  assumes "list_all basic (basics rs)" "concludes rs c code c'"
  shows "\<exists>p'. Rule_verify rs c p = (Ok (), c', p') \<and> resultCode (finalResult p') = code
           \<and> policyName (finalResult p') = policyName (finalResult p) \<and> policyResults p' = policyResults p"
proof -
  obtain res d p' where v: "Rule_verify rs c p = (res, d, p')" by (cases "Rule_verify rs c p")
  then show ?thesis
    using Rule_verify_iff [OF assms(1) v] ruleLoop_keeps [OF assms(1)] assms(2) by (simp add: Rule_verify_def)
qed

end

section \<open>Chains of fallback policies\<close>

text \<open>The policies reached from a pointer, when the chain of fallbacks ends.\<close>

inductive fallback_path :: "'c KSI_Policy list \<Rightarrow> nat option \<Rightarrow> nat list \<Rightarrow> bool" for m where
  path_end: "fallback_path m None []"
| path_step: "fallback_path m (fallbackPolicy (m ! p)) ps \<Longrightarrow> fallback_path m (Some p) (p # ps)"

locale policy_contract = rule_contract basic for basic :: "KSI_VerificationContext Verifier \<Rightarrow> bool" +
  fixes m :: "KSI_VerificationContext KSI_Policy list"
  assumes policies: "p < length m \<Longrightarrow> pol_rules (m ! p) = Some rs \<Longrightarrow> list_all basic (basics rs)"
begin

text \<open>What the loop returns on the chain \<open>ps\<close>: an error, or the results of the first policies of the chain, of which
  only the last can be positive.\<close>

definition tried :: "nat list \<Rightarrow> KSI_RuleVerificationResult list \<Rightarrow> bool" where
  "tried ps rs \<longleftrightarrow>
     rs \<noteq> [] \<and> map policyName rs = map (\<lambda>p. Some (pol_policyName (m ! p))) (take (length rs) ps)
   \<and> (\<forall>r\<in>set (butlast rs). resultCode r \<noteq> KSI_VER_RES_OK)
   \<and> (resultCode (last rs) = KSI_VER_RES_OK \<or> length rs = length ps)"

lemma tried_Cons:
  assumes "tried ps rs" "resultCode r \<noteq> KSI_VER_RES_OK" "policyName r = Some (pol_policyName (m ! p))"
  shows "tried (p # ps) (r # rs)"
  using assms by (auto simp: tried_def)

lemma policyLoop_step:
  assumes "p < length m" "Policy_verifySignature (m ! p) c
      (tmp\<lparr>finalResult := (finalResult tmp)\<lparr>policyName := Some (pol_policyName (m ! p))\<rparr>\<rparr>) = (Ok (), c1, t1)"
  shows "policyName (finalResult t1) = Some (pol_policyName (m ! p)) \<and> policyResults t1 = policyResults tmp"
proof (cases "pol_rules (m ! p)")
  case (Some rs)
  then show ?thesis
    using ruleLoop_keeps [OF policies [OF assms(1) Some]] assms(2)
    by (fastforce simp: Policy_verifySignature_def Rule_verify_def)
qed (use assms in \<open>simp add: Policy_verifySignature_def\<close>)

lemma policyLoop_path:
  assumes "fallback_path m cur ps" "set ps \<subseteq> {..<length m}"
  shows "\<exists>res c' tmp'. policyLoop m cur c tmp = Some (res, c', tmp')
     \<and> (res = Ok () \<longrightarrow> (if ps = [] then c' = c \<and> tmp' = tmp
          else (\<exists>rs. policyResults tmp' = policyResults tmp @ rs \<and> tried ps rs \<and> finalResult tmp' = last rs)))"
  using assms
proof (induction arbitrary: c tmp rule: fallback_path.induct)
  case path_end
  then show ?case by (simp add: policyLoop.simps)
next
  case (path_step p ps)
  obtain res c1 t1 where v: "Policy_verifySignature (m ! p) c
      (tmp\<lparr>finalResult := (finalResult tmp)\<lparr>policyName := Some (pol_policyName (m ! p))\<rparr>\<rparr>) = (res, c1, t1)"
    by (metis prod_cases3)
  let ?r = "finalResult t1" and ?t2 = "PolicyVerificationResult_addLatestPolicyResult t1"
  have t2: "finalResult ?t2 = ?r" "policyResults ?t2 = policyResults t1 @ [?r]"
    by (simp_all add: PolicyVerificationResult_addLatestPolicyResult_def)
  show ?case
  proof (cases "res = Ok ()")
    case False
    then show ?thesis using v by (subst policyLoop.simps) simp
  next
    case True
    have n: "policyName ?r = Some (pol_policyName (m ! p))" "policyResults t1 = policyResults tmp"
      using policyLoop_step [of p c tmp c1 t1] v True path_step.prems by auto
    show ?thesis
    proof (cases "resultCode ?r = KSI_VER_RES_OK")
      case True
      have "tried (p # ps) [?r]" using True n by (simp add: tried_def)
      then show ?thesis using v \<open>res = Ok ()\<close> True t2 n
        by (subst policyLoop.simps) (simp add: policyLoop.simps [of m None])
    next
      case False
      let ?c = "if fallbackPolicy (m ! p) \<noteq> None then c1\<lparr>tempData := VerificationTempData_clear (tempData c1)\<rparr> else c1"
      have step: "policyLoop m (Some p) c tmp = policyLoop m (fallbackPolicy (m ! p)) ?c ?t2"
        using v \<open>res = Ok ()\<close> False t2 by (subst policyLoop.simps) simp
      obtain res' c' tmp' where l: "policyLoop m (fallbackPolicy (m ! p)) ?c ?t2 = Some (res', c', tmp')"
        and r: "res' = Ok () \<longrightarrow> (if ps = [] then c' = ?c \<and> tmp' = ?t2
          else (\<exists>rs. policyResults tmp' = policyResults ?t2 @ rs \<and> tried ps rs \<and> finalResult tmp' = last rs))"
        using path_step.IH [of ?c ?t2] path_step.prems by auto
      show ?thesis
      proof (cases "ps = []")
        case True
        have "tried [p] [?r]" using n by (simp add: tried_def)
        then show ?thesis using True l r step t2 n by auto
      next
        case rest: False
        have "\<exists>rs. policyResults tmp' = policyResults tmp @ rs \<and> tried (p # ps) rs \<and> finalResult tmp' = last rs" if ok: "res' = Ok ()"
        proof -
          obtain rs where rs: "policyResults tmp' = policyResults ?t2 @ rs" "tried ps rs" "finalResult tmp' = last rs"
            using r rest ok by auto
          then have "tried (p # ps) (?r # rs)" "rs \<noteq> []" using tried_Cons False n by (auto simp: tried_def)
          then show ?thesis using rs t2 n by (intro exI [of _ "?r # rs"]) simp
        qed
        then show ?thesis using l step by simp
      qed
    qed
  qed
qed

end


text \<open>A policy that is its own fallback, in a context where it never comes to a positive result.\<close>

lemma policyLoop_diverges:
  assumes again: "\<And>c t. S c \<Longrightarrow> \<exists>c1 t1. Policy_verifySignature (m ! p) c t = (Ok (), c1, t1)
      \<and> resultCode (finalResult t1) \<noteq> KSI_VER_RES_OK \<and> S (c1\<lparr>tempData := VerificationTempData_clear (tempData c1)\<rparr>)"
    and self: "fallbackPolicy (m ! p) = Some p"
    and "S c"
  shows "policyLoop m (Some p) c tmp = None"
proof -
  have "\<not> (m' = m \<and> cur = Some p \<and> S c)" if "policyLoop m' cur c tmp = Some y" for m' cur c tmp y
  proof (rule policyLoop.raw_induct [where P = "\<lambda>m' cur c tmp y. \<not> (m' = m \<and> cur = Some p \<and> S c)", OF _ that], rule notI)
    fix loop m' cur c tmp y
    assume IH: "\<And>m' cur c tmp y. loop m' cur c tmp = Some y \<Longrightarrow> \<not> (m' = m \<and> cur = Some p \<and> S c)"
      and body: "(case cur of None \<Rightarrow> Some (Ok (), c, tmp)
        | Some policy \<Rightarrow>
          (case Policy_verifySignature (m' ! policy) c
                  (tmp\<lparr>finalResult := (finalResult tmp)\<lparr>policyName := Some (pol_policyName (m' ! policy))\<rparr>\<rparr>) of
             (res, context, tmp) \<Rightarrow>
               if res \<noteq> Ok () then Some (res, context, tmp)
               else if resultCode (finalResult (PolicyVerificationResult_addLatestPolicyResult tmp)) \<noteq> KSI_VER_RES_OK then
                 loop m' (fallbackPolicy (m' ! policy))
                   (if fallbackPolicy (m' ! policy) \<noteq> None then context\<lparr>tempData := VerificationTempData_clear (tempData context)\<rparr> else context)
                   (PolicyVerificationResult_addLatestPolicyResult tmp)
               else loop m' None context (PolicyVerificationResult_addLatestPolicyResult tmp))) = Some y"
      and start: "m' = m \<and> cur = Some p \<and> S c"
    obtain c1 t1 where v: "Policy_verifySignature (m ! p) c
        (tmp\<lparr>finalResult := (finalResult tmp)\<lparr>policyName := Some (pol_policyName (m ! p))\<rparr>\<rparr>) = (Ok (), c1, t1)"
      and r: "resultCode (finalResult t1) \<noteq> KSI_VER_RES_OK" "S (c1\<lparr>tempData := VerificationTempData_clear (tempData c1)\<rparr>)"
      using again start by metis
    have "finalResult (PolicyVerificationResult_addLatestPolicyResult t1) = finalResult t1"
      by (simp add: PolicyVerificationResult_addLatestPolicyResult_def)
    then have "loop m (Some p) (c1\<lparr>tempData := VerificationTempData_clear (tempData c1)\<rparr>)
        (PolicyVerificationResult_addLatestPolicyResult t1) = Some y"
      using body start v r self by simp
    then show False using IH r(2) by blast
  qed
  then show ?thesis using assms(3) by (cases "policyLoop m (Some p) c tmp") auto
qed

section \<open>Names of error codes\<close>

lemma find_distinct: "distinct (map f xs) \<Longrightarrow> a \<in> set xs \<Longrightarrow> find (\<lambda>x. f x = f a) xs = Some a"
  by (induction xs) (auto simp: image_iff)

lemma error_constants: "map fst KSI_VERIFICATION_ERROR_CODE_LIST = [KSI_VER_ERR_GEN_1, KSI_VER_ERR_GEN_2, KSI_VER_ERR_GEN_3, KSI_VER_ERR_GEN_4, KSI_VER_ERR_INT_1, KSI_VER_ERR_INT_2, KSI_VER_ERR_INT_3, KSI_VER_ERR_INT_4, KSI_VER_ERR_INT_5, KSI_VER_ERR_INT_6, KSI_VER_ERR_INT_7, KSI_VER_ERR_INT_8, KSI_VER_ERR_INT_9, KSI_VER_ERR_INT_10, KSI_VER_ERR_INT_11, KSI_VER_ERR_INT_12, KSI_VER_ERR_INT_13, KSI_VER_ERR_INT_14, KSI_VER_ERR_INT_15, KSI_VER_ERR_INT_16, KSI_VER_ERR_INT_17, KSI_VER_ERR_PUB_1, KSI_VER_ERR_PUB_2, KSI_VER_ERR_PUB_3, KSI_VER_ERR_PUB_4, KSI_VER_ERR_PUB_5, KSI_VER_ERR_KEY_1, KSI_VER_ERR_KEY_2, KSI_VER_ERR_KEY_3, KSI_VER_ERR_CAL_1, KSI_VER_ERR_CAL_2, KSI_VER_ERR_CAL_3, KSI_VER_ERR_CAL_4]"
  by (simp add: KSI_VERIFICATION_ERROR_CODE_LIST_def)

lemma error_rows: "list_all (\<lambda>(e, code, offset, str, desc). offset + code \<noteq> 0) KSI_VERIFICATION_ERROR_CODE_LIST"
  by (simp add: KSI_VERIFICATION_ERROR_CODE_LIST_def)

lemma error_constants_all: "e = KSI_VER_ERR_NONE \<or> e \<in> set (map fst KSI_VERIFICATION_ERROR_CODE_LIST)"
  by (cases e) (simp_all add: error_constants)

lemma error_value_row:
  "e = KSI_VER_ERR_NONE \<or> (\<exists>code offset str desc. (e, code, offset, str, desc) \<in> set KSI_VERIFICATION_ERROR_CODE_LIST
     \<and> error_value e = offset + code \<and> error_value e \<noteq> 0)"
proof (cases "e = KSI_VER_ERR_NONE")
  case False
  then obtain code offset str desc where r: "(e, code, offset, str, desc) \<in> set KSI_VERIFICATION_ERROR_CODE_LIST"
    using error_constants_all [of e] by auto
  have "distinct (map fst KSI_VERIFICATION_ERROR_CODE_LIST)" by (simp add: error_constants)
  from find_distinct [OF this r] have "error_value e = offset + code" by (simp add: error_value_def split_def)
  moreover have "offset + code \<noteq> 0" using r error_rows by (fastforce simp: list_all_iff)
  ultimately show ?thesis using r by auto
qed simp

lemma error_code_roundtrip:
  "KSI_VerificationErrorCode_fromString (KSI_VerificationErrorCode_toString (error_value e)) = error_value e"
proof (cases "e = KSI_VER_ERR_NONE")
  case True
  have "KSI_VerificationErrorCode_fromString (KSI_VerificationErrorCode_toString (error_value KSI_VER_ERR_NONE))
      = error_value KSI_VER_ERR_NONE"
    by code_simp
  then show ?thesis using True by simp
next
  case False
  then obtain code offset str desc where r: "(e, code, offset, str, desc) \<in> set KSI_VERIFICATION_ERROR_CODE_LIST"
    "error_value e = offset + code" "error_value e \<noteq> 0"
    using error_value_row [of e] by blast
  have z: "error_value KSI_VER_ERR_NONE = 0" by (simp add: error_value_def KSI_VERIFICATION_ERROR_CODE_LIST_def)
  have "find (\<lambda>(e, code', offset', str, desc). offset + code = offset' + code') KSI_VERIFICATION_ERROR_CODE_LIST = Some (e, code, offset, str, desc)"
    using find_distinct [OF error_values_distinct r(1)] by (simp add: split_def eq_commute)
  moreover have "find (\<lambda>(e, code, offset, str', desc). str' = str) KSI_VERIFICATION_ERROR_CODE_LIST = Some (e, code, offset, str, desc)"
    using find_distinct [OF error_names_distinct r(1)] by (simp add: split_def)
  ultimately show ?thesis using r z
    by (simp add: KSI_VerificationErrorCode_toString_def KSI_VerificationErrorCode_fromString_def)
qed

end
