(* ===== verification/VerificationRule.thy ===== *)
theory VerificationRule
  imports Policy
begin

text \<open>
  The rules of \<^verbatim>\<open>src/src/ksi/verification_rule.c\<close> that look at the signature and the document alone: the
  rules of the internal policy.  The rules that need a remote service, a publications file or a
  certificate are in \<^verbatim>\<open>OnlineRules\<close>.

  A rule gets the context and the result object; neither is null when the engine calls it, and the KSI
  context behind the verification context is not null either.  The error trace and the log are left out.
\<close>

section \<open>How a rule ends\<close>

text \<open>A rule ends with one of the macros \<^verbatim>\<open>VERIFICATION_RESULT_OK\<close> and \<^verbatim>\<open>VERIFICATION_RESULT_ERR\<close>, or by leaving the
  result alone, or with undefined behaviour.\<close>

datatype rule_end =
    Ended KSI_VerificationResultCode KSI_VerificationErrorCode u64 ksi_status
  | Unset ksi_err
  | Crash

definition VERIFICATION_START :: "u64 \<Rightarrow> KSI_RuleVerificationResult \<Rightarrow> KSI_RuleVerificationResult" where
  "VERIFICATION_START st result =
     result\<lparr>stepsPerformed := stepsPerformed result OR st, stepsSuccessful := stepsSuccessful result AND NOT st\<rparr>"

definition VERIFICATION_RESULT_OK :: "string \<Rightarrow> u64 \<Rightarrow> KSI_RuleVerificationResult \<Rightarrow> KSI_RuleVerificationResult" where
  "VERIFICATION_RESULT_OK name st result =
     result\<lparr>resultCode := KSI_VER_RES_OK, errorCode := KSI_VER_ERR_NONE, stepsSuccessful := stepsSuccessful result OR st,
            ruleName := Some name\<rparr>"

definition VERIFICATION_RESULT_ERR ::
    "string \<Rightarrow> KSI_VerificationResultCode \<Rightarrow> KSI_VerificationErrorCode \<Rightarrow> u64 \<Rightarrow> KSI_RuleVerificationResult \<Rightarrow> KSI_RuleVerificationResult" where
  "VERIFICATION_RESULT_ERR name vrc vec st result =
     result\<lparr>resultCode := vrc, errorCode := vec, stepsFailed := stepsFailed result OR st, ruleName := Some name\<rparr>"

definition KSI_VERIFY_NONE :: u64 where "KSI_VERIFY_NONE = 0"
definition KSI_VERIFY_DOCUMENT :: u64 where "KSI_VERIFY_DOCUMENT = 0x01"
definition KSI_VERIFY_AGGRCHAIN_INTERNALLY :: u64 where "KSI_VERIFY_AGGRCHAIN_INTERNALLY = 0x02"
definition KSI_VERIFY_AGGRCHAIN_WITH_CALENDAR_CHAIN :: u64 where "KSI_VERIFY_AGGRCHAIN_WITH_CALENDAR_CHAIN = 0x04"
definition KSI_VERIFY_CALCHAIN_INTERNALLY :: u64 where "KSI_VERIFY_CALCHAIN_INTERNALLY = 0x08"
definition KSI_VERIFY_CALCHAIN_WITH_CALAUTHREC :: u64 where "KSI_VERIFY_CALCHAIN_WITH_CALAUTHREC = 0x10"
definition KSI_VERIFY_CALCHAIN_WITH_PUBLICATION :: u64 where "KSI_VERIFY_CALCHAIN_WITH_PUBLICATION = 0x20"
definition KSI_VERIFY_CALCHAIN_ONLINE :: u64 where "KSI_VERIFY_CALCHAIN_ONLINE = 0x40"
definition KSI_VERIFY_CALAUTHREC_WITH_SIGNATURE :: u64 where "KSI_VERIFY_CALAUTHREC_WITH_SIGNATURE = 0x80"
definition KSI_VERIFY_PUBLICATION_WITH_PUBFILE :: u64 where "KSI_VERIFY_PUBLICATION_WITH_PUBFILE = 0x200"
definition KSI_VERIFY_PUBLICATION_WITH_PUBSTRING :: u64 where "KSI_VERIFY_PUBLICATION_WITH_PUBSTRING = 0x400"

abbreviation internal :: "ksi_err \<Rightarrow> rule_end" where
  "internal e \<equiv> Ended KSI_VER_RES_NA KSI_VER_ERR_GEN_2 KSI_VERIFY_NONE (Some e)"

abbreviation inconclusive :: rule_end where
  "inconclusive \<equiv> Ended KSI_VER_RES_NA KSI_VER_ERR_GEN_2 KSI_VERIFY_NONE None"

abbreviation not_applicable :: rule_end where
  "not_applicable \<equiv> Ended KSI_VER_RES_NA KSI_VER_ERR_NONE KSI_VERIFY_NONE None"

abbreviation failed :: "KSI_VerificationErrorCode \<Rightarrow> u64 \<Rightarrow> rule_end" where
  "failed vec st \<equiv> Ended KSI_VER_RES_FAIL vec st None"

section \<open>Steps of a rule\<close>

text \<open>A step leaves the context and either ends the rule or yields a value.  \<open>vbind\<close> is sequencing with
  \<^verbatim>\<open>goto cleanup\<close>.\<close>

type_synonym 'a stepping = "KSI_VerificationContext \<times> (rule_end + 'a)"

definition vbind :: "'a stepping \<Rightarrow> (KSI_VerificationContext \<Rightarrow> 'a \<Rightarrow> 'b stepping) \<Rightarrow> 'b stepping" where
  "vbind m k = (case m of (info, Inl e) \<Rightarrow> (info, Inl e) | (info, Inr x) \<Rightarrow> k info x)"

text \<open>A call whose error ends the rule as inconclusive, with the error as status.\<close>

definition attempt :: "KSI_VerificationContext \<Rightarrow> 'a ksi_result \<Rightarrow> 'a stepping" where
  "attempt info r = (info, case r of Inl e \<Rightarrow> Inl (internal e) | Inr x \<Rightarrow> Inr x)"

definition attempt_run :: "KSI_VerificationContext \<times> 'a run \<Rightarrow> 'a stepping" where
  "attempt_run r =
     (case r of (info, Ok x) \<Rightarrow> (info, Inr x) | (info, Err e) \<Rightarrow> (info, Inl (internal e)) | (info, Fault) \<Rightarrow> (info, Inl Crash))"

definition stop_if :: "KSI_VerificationContext \<Rightarrow> bool \<Rightarrow> rule_end \<Rightarrow> unit stepping" where
  "stop_if info bad e = (info, if bad then Inl e else Inr ())"

definition non_null :: "KSI_VerificationContext \<Rightarrow> 'a option \<Rightarrow> rule_end \<Rightarrow> 'a stepping" where
  "non_null info p e = (info, case p of None \<Rightarrow> Inl e | Some x \<Rightarrow> Inr x)"

abbreviation pass :: "KSI_VerificationContext \<Rightarrow> unit stepping" where
  "pass info \<equiv> (info, Inr ())"

definition sig_of :: "KSI_VerificationContext \<Rightarrow> KSI_Signature stepping" where
  "sig_of info = non_null info (signature info) (internal KSI_INVALID_ARGUMENT)"

definition temp_of :: "KSI_VerificationContext \<Rightarrow> VerificationTempData stepping" where
  "temp_of info = non_null info (tempData info) (Unset KSI_INVALID_STATE)"

definition verification_rule ::
    "string \<Rightarrow> u64 \<Rightarrow> (KSI_VerificationContext \<Rightarrow> unit stepping) \<Rightarrow> KSI_VerificationContext Verifier" where
  "verification_rule name st body info result =
     (let result = VERIFICATION_START st result in
      (case body info of
         (info, Inr _) \<Rightarrow> (Ok (), info, VERIFICATION_RESULT_OK name st result)
       | (info, Inl (Ended vrc vec s status)) \<Rightarrow>
           (case status of None \<Rightarrow> Ok () | Some e \<Rightarrow> Err e, info, VERIFICATION_RESULT_ERR name vrc vec s result)
       | (info, Inl (Unset e)) \<Rightarrow> (Err e, info, result)
       | (info, Inl Crash) \<Rightarrow> (Fault, info, result)))"

definition set_sig :: "KSI_VerificationContext \<Rightarrow> KSI_Signature \<Rightarrow> KSI_VerificationContext" where
  "set_sig info sig = info\<lparr>signature := Some sig\<rparr>"

section \<open>Components that are there or not\<close>

text \<open>The rules that only look whether a component of the signature or of the context is present.\<close>

definition presence_rule :: "string \<Rightarrow> (KSI_Signature \<Rightarrow> bool) \<Rightarrow> rule_end \<Rightarrow> KSI_VerificationContext Verifier" where
  "presence_rule name bad e = verification_rule name KSI_VERIFY_NONE (\<lambda>info.
     vbind (sig_of info) (\<lambda>info sig.
     vbind (stop_if info (bad sig) e) (\<lambda>info _. pass info)))"

definition KSI_VerificationRule_Rfc3161DoesNotExist :: "KSI_VerificationContext Verifier" where
  "KSI_VerificationRule_Rfc3161DoesNotExist =
     presence_rule ''KSI_VerificationRule_Rfc3161DoesNotExist'' (\<lambda>sig. rfc3161 sig \<noteq> None) not_applicable"

definition KSI_VerificationRule_Rfc3161Existence :: "KSI_VerificationContext Verifier" where
  "KSI_VerificationRule_Rfc3161Existence =
     presence_rule ''KSI_VerificationRule_Rfc3161Existence'' (\<lambda>sig. rfc3161 sig = None) not_applicable"

definition KSI_VerificationRule_SignatureDoesNotContainPublication :: "KSI_VerificationContext Verifier" where
  "KSI_VerificationRule_SignatureDoesNotContainPublication =
     presence_rule ''KSI_VerificationRule_SignatureDoesNotContainPublication'' (\<lambda>sig. publication sig \<noteq> None) not_applicable"

definition KSI_VerificationRule_SignaturePublicationRecordExistence :: "KSI_VerificationContext Verifier" where
  "KSI_VerificationRule_SignaturePublicationRecordExistence =
     presence_rule ''KSI_VerificationRule_SignaturePublicationRecordExistence'' (\<lambda>sig. publication sig = None) not_applicable"

definition KSI_VerificationRule_SignaturePublicationRecordMissing :: "KSI_VerificationContext Verifier" where
  "KSI_VerificationRule_SignaturePublicationRecordMissing =
     presence_rule ''KSI_VerificationRule_SignaturePublicationRecordMissing'' (\<lambda>sig. publication sig \<noteq> None) not_applicable"

definition KSI_VerificationRule_CalendarHashChainDoesNotExist :: "KSI_VerificationContext Verifier" where
  "KSI_VerificationRule_CalendarHashChainDoesNotExist =
     presence_rule ''KSI_VerificationRule_CalendarHashChainDoesNotExist'' (\<lambda>sig. calendarChain sig \<noteq> None) not_applicable"

definition KSI_VerificationRule_CalendarHashChainExistence :: "KSI_VerificationContext Verifier" where
  "KSI_VerificationRule_CalendarHashChainExistence =
     presence_rule ''KSI_VerificationRule_CalendarHashChainExistence'' (\<lambda>sig. calendarChain sig = None) not_applicable"

definition KSI_VerificationRule_CalendarHashChainPresenceVerification :: "KSI_VerificationContext Verifier" where
  "KSI_VerificationRule_CalendarHashChainPresenceVerification =
     presence_rule ''KSI_VerificationRule_CalendarHashChainPresenceVerification'' (\<lambda>sig. calendarChain sig = None) inconclusive"

definition KSI_VerificationRule_CalendarAuthenticationRecordExistence :: "KSI_VerificationContext Verifier" where
  "KSI_VerificationRule_CalendarAuthenticationRecordExistence =
     presence_rule ''KSI_VerificationRule_CalendarAuthenticationRecordExistence'' (\<lambda>sig. calendarAuthRec sig = None) not_applicable"

definition KSI_VerificationRule_CalendarAuthenticationRecordPresenceVerification :: "KSI_VerificationContext Verifier" where
  "KSI_VerificationRule_CalendarAuthenticationRecordPresenceVerification =
     presence_rule ''KSI_VerificationRule_CalendarAuthenticationRecordPresenceVerification'' (\<lambda>sig. calendarAuthRec sig = None) inconclusive"

definition KSI_VerificationRule_CalendarAuthenticationRecordDoesNotExist :: "KSI_VerificationContext Verifier" where
  "KSI_VerificationRule_CalendarAuthenticationRecordDoesNotExist =
     presence_rule ''KSI_VerificationRule_CalendarAuthenticationRecordDoesNotExist'' (\<lambda>sig. calendarAuthRec sig \<noteq> None) not_applicable"

text \<open>The rules on the document hash do not look at the signature.\<close>

definition KSI_VerificationRule_DocumentHashDoesNotExist :: "KSI_VerificationContext Verifier" where
  "KSI_VerificationRule_DocumentHashDoesNotExist =
     verification_rule ''KSI_VerificationRule_DocumentHashDoesNotExist'' KSI_VERIFY_NONE (\<lambda>info.
       vbind (stop_if info (documentHash info \<noteq> None) not_applicable) (\<lambda>info _. pass info))"

definition KSI_VerificationRule_DocumentHashExistence :: "KSI_VerificationContext Verifier" where
  "KSI_VerificationRule_DocumentHashExistence =
     verification_rule ''KSI_VerificationRule_DocumentHashExistence'' KSI_VERIFY_NONE (\<lambda>info.
       vbind (stop_if info (documentHash info = None) not_applicable) (\<lambda>info _. pass info))"

section \<open>The document\<close>

definition signed_hash :: "KSI_VerificationContext \<Rightarrow> KSI_Signature \<Rightarrow> KSI_DataHash option stepping" where
  "signed_hash info sig =
     (case rfc3161 sig of
        Some rfc \<Rightarrow> attempt info (KSI_RFC3161_getInputHash (Some rfc))
      | None \<Rightarrow> attempt info (KSI_Signature_getDocumentHash sig))"

definition KSI_VerificationRule_InputHashAlgorithmVerification :: "KSI_VerificationContext Verifier" where
  "KSI_VerificationRule_InputHashAlgorithmVerification =
     verification_rule ''KSI_VerificationRule_InputHashAlgorithmVerification'' KSI_VERIFY_DOCUMENT (\<lambda>info.
       vbind (sig_of info) (\<lambda>info sig.
       vbind (non_null info (documentHash info) (internal KSI_INVALID_ARGUMENT)) (\<lambda>info docHash.
       vbind (signed_hash info sig) (\<lambda>info hsh.
       vbind (attempt info (KSI_DataHash_getHashAlg hsh)) (\<lambda>info docHshAlg.
       vbind (attempt info (KSI_DataHash_getHashAlg (Some docHash))) (\<lambda>info infHshAlg.
       vbind (stop_if info (docHshAlg \<noteq> infHshAlg) (failed KSI_VER_ERR_GEN_4 KSI_VERIFY_DOCUMENT)) (\<lambda>info _. pass info)))))))"

definition KSI_VerificationRule_DocumentHashVerification :: "KSI_VerificationContext Verifier" where
  "KSI_VerificationRule_DocumentHashVerification =
     verification_rule ''KSI_VerificationRule_DocumentHashVerification'' KSI_VERIFY_DOCUMENT (\<lambda>info.
       vbind (sig_of info) (\<lambda>info sig.
       vbind (non_null info (documentHash info) (internal KSI_INVALID_ARGUMENT)) (\<lambda>info docHash.
       vbind (signed_hash info sig) (\<lambda>info hsh.
       vbind (stop_if info (\<not> KSI_DataHash_equals hsh (Some docHash)) (failed KSI_VER_ERR_GEN_1 KSI_VERIFY_DOCUMENT))
         (\<lambda>info _. pass info)))))"

definition KSI_VerificationRule_AggregationChainInputLevelVerification :: "KSI_VerificationContext Verifier" where
  "KSI_VerificationRule_AggregationChainInputLevelVerification =
     verification_rule ''KSI_VerificationRule_AggregationChainInputLevelVerification'' KSI_VERIFY_AGGRCHAIN_INTERNALLY (\<lambda>info.
       vbind (sig_of info) (\<lambda>info sig.
       if docAggrLevel info = 0 then pass info
       else
         vbind (stop_if info (\<not> docAggrLevel info \<le> 0xff) (internal KSI_INVALID_VERIFICATION_INPUT)) (\<lambda>info _.
         vbind (stop_if info (docAggrLevel info > 0 \<and> rfc3161 sig \<noteq> None)
                  (failed KSI_VER_ERR_GEN_3 KSI_VERIFY_AGGRCHAIN_INTERNALLY)) (\<lambda>info _.
         vbind (attempt info (element_at (aggregationChainList sig) 0)) (\<lambda>info firstChain.
         vbind (attempt info (getter chain (Some firstChain))) (\<lambda>info links.
         vbind (attempt info (element_at links 0)) (\<lambda>info link.
         vbind (attempt info (getter levelCorrection (Some link))) (\<lambda>info lvlCorr.
         vbind (stop_if info (KSI_Integer_getUInt64 lvlCorr < docAggrLevel info)
                  (failed KSI_VER_ERR_GEN_3 KSI_VERIFY_AGGRCHAIN_INTERNALLY)) (\<lambda>info _. pass info)))))))))"

section \<open>Hash algorithms\<close>

text \<open>The \<^verbatim>\<open>switch\<close> over the state of an algorithm: an unknown algorithm is let through.\<close>

definition check_algorithm ::
    "KSI_VerificationContext \<Rightarrow> KSI_HashAlgorithm \<Rightarrow> int \<Rightarrow> KSI_VerificationErrorCode \<Rightarrow> u64 \<Rightarrow> unit stepping" where
  "check_algorithm info a at vec st =
     (case KSI_checkHashAlgorithmAt a at of
        None \<Rightarrow> pass info
      | Some e \<Rightarrow>
          if e = KSI_UNKNOWN_HASH_ALGORITHM_ID then pass info
          else if e = KSI_HASH_ALGORITHM_DEPRECATED \<or> e = KSI_HASH_ALGORITHM_OBSOLETE then (info, Inl (failed vec st))
          else (info, Inl (internal e)))"

text \<open>The conversion of an integer object to \<^verbatim>\<open>time_t\<close>.\<close>

definition to_time :: "KSI_Integer option \<Rightarrow> int" where
  "to_time t = sint (KSI_Integer_getUInt64 t)"

definition KSI_VerificationRule_AggregationChainInputHashAlgorithmVerification :: "KSI_VerificationContext Verifier" where
  "KSI_VerificationRule_AggregationChainInputHashAlgorithmVerification =
     verification_rule ''KSI_VerificationRule_AggregationChainInputHashAlgorithmVerification'' KSI_VERIFY_AGGRCHAIN_INTERNALLY (\<lambda>info.
       vbind (sig_of info) (\<lambda>info sig.
       vbind (attempt info (KSI_Signature_getDocumentHash sig)) (\<lambda>info inHash.
       vbind (attempt info (KSI_DataHash_getHashAlg inHash)) (\<lambda>info algId.
       vbind (attempt info (KSI_Signature_getSigningTime sig)) (\<lambda>info signTime.
       vbind (check_algorithm info algId (to_time signTime) KSI_VER_ERR_INT_13 KSI_VERIFY_AGGRCHAIN_INTERNALLY)
         (\<lambda>info _. pass info))))))"

fun chainAlgorithmLoop :: "KSI_VerificationContext \<Rightarrow> KSI_AggregationHashChain list \<Rightarrow> unit stepping" where
  "chainAlgorithmLoop info [] = pass info"
| "chainAlgorithmLoop info (c # cs) =
     vbind (check_algorithm info (to_int (KSI_Integer_getUInt64 (aggrHashId c))) (to_time (aggregationTime c))
              KSI_VER_ERR_INT_15 KSI_VERIFY_AGGRCHAIN_INTERNALLY) (\<lambda>info _. chainAlgorithmLoop info cs)"

definition KSI_VerificationRule_AggregationChainHashAlgorithmVerification :: "KSI_VerificationContext Verifier" where
  "KSI_VerificationRule_AggregationChainHashAlgorithmVerification =
     verification_rule ''KSI_VerificationRule_AggregationChainHashAlgorithmVerification'' KSI_VERIFY_AGGRCHAIN_INTERNALLY (\<lambda>info.
       vbind (sig_of info) (\<lambda>info sig.
       vbind (chainAlgorithmLoop info (elements (aggregationChainList sig))) (\<lambda>info _. pass info)))"

section \<open>The RFC 3161 record\<close>

definition rfc3161_preSufHasher ::
    "(int \<Rightarrow> bytes \<Rightarrow> bytes) \<Rightarrow> KSI_OctetString option \<Rightarrow> KSI_DataHash option \<Rightarrow> KSI_OctetString option \<Rightarrow> int \<Rightarrow> KSI_DataHash ksi_result" where
  "rfc3161_preSufHasher D prefix hsh suffix hsh_id =
     (if prefix = None \<or> hsh = None \<or> suffix = None then Inl KSI_INVALID_ARGUMENT
      else
        rbind (KSI_DataHasher_open hsh_id) (\<lambda>hsr.
        rbind (KSI_OctetString_extract prefix) (\<lambda>data.
        rbind (if octet_ptr data \<noteq> None then KSI_DataHasher_add (Some hsr) (octet_ptr data) else Inr hsr) (\<lambda>hsr.
        rbind (KSI_DataHash_getImprint hsh) (\<lambda>imprint.
        rbind (KSI_DataHasher_add (Some hsr) (Some (drop 1 imprint))) (\<lambda>hsr.
        rbind (KSI_OctetString_extract suffix) (\<lambda>data.
        rbind (if octet_ptr data \<noteq> None then KSI_DataHasher_add (Some hsr) (octet_ptr data) else Inr hsr) (\<lambda>hsr.
        rbind (KSI_DataHasher_close D (Some hsr)) (\<lambda>(tmp, hsr). Inr tmp)))))))))"

definition rfc3161_verifyAggrTime :: "KSI_Signature \<Rightarrow> ksi_status" where
  "rfc3161_verifyAggrTime sig =
     (case rfc3161 sig of
        None \<Rightarrow> None
      | Some rfc \<Rightarrow>
          if aggregationChainList sig = None then Some KSI_INVALID_SIGNATURE
          else
            (case element_at (aggregationChainList sig) 0 of
               Inl e \<Rightarrow> Some e
             | Inr firstChain \<Rightarrow>
                 if KSI_Integer_compare (aggregationTime firstChain) (rfc_aggregationTime rfc) \<noteq> 0 then Some KSI_VERIFICATION_FAILURE
                 else None))"

fun chainIndexLoop :: "KSI_Integer list \<Rightarrow> KSI_Integer list \<Rightarrow> ksi_status" where
  "chainIndexLoop (ch1 # as) (ch2 # bs) =
     (if KSI_Integer_compare (Some ch1) (Some ch2) \<noteq> 0 then Some KSI_VERIFICATION_FAILURE else chainIndexLoop as bs)"
| "chainIndexLoop as bs = None"

text \<open>The lists have the same length when the loop starts.\<close>

definition rfc3161_verifyChainIndex :: "KSI_Signature \<Rightarrow> ksi_status" where
  "rfc3161_verifyChainIndex sig =
     (case rfc3161 sig of
        None \<Rightarrow> None
      | Some rfc \<Rightarrow>
          if aggregationChainList sig = None then Some KSI_INVALID_SIGNATURE
          else
            (case element_at (aggregationChainList sig) 0 of
               Inl e \<Rightarrow> Some e
             | Inr firstChain \<Rightarrow>
                 if length (elements (chainIndex firstChain)) \<noteq> length (elements (rfc_chainIndex rfc)) then Some KSI_VERIFICATION_FAILURE
                 else chainIndexLoop (elements (chainIndex firstChain)) (elements (rfc_chainIndex rfc))))"

definition rfc3161_extractOutputHashAlgorithm :: "KSI_Signature \<Rightarrow> KSI_HashAlgorithm ksi_result" where
  "rfc3161_extractOutputHashAlgorithm sig =
     rbind (element_at (aggregationChainList sig) 0) (\<lambda>firstChain.
     rbind (getter inputHash (Some firstChain)) (\<lambda>inHash. KSI_DataHash_getHashAlg inHash))"

definition rfc3161_getOutputHash :: "(int \<Rightarrow> bytes \<Rightarrow> bytes) \<Rightarrow> KSI_Signature \<Rightarrow> KSI_DataHash ksi_result" where
  "rfc3161_getOutputHash D sig =
     the_ptr (rfc3161 sig) KSI_INVALID_ARGUMENT (\<lambda>rfc.
     check (KSI_Integer_getUInt64 (tstInfoAlgo rfc) > 0xff \<or> KSI_Integer_getUInt64 (sigAttrAlgo rfc) > 0xff)
       KSI_UNAVAILABLE_HASH_ALGORITHM
     (let tstInfoAlgoId = to_int (KSI_Integer_getUInt64 (tstInfoAlgo rfc));
          sigAttrAlgoId = to_int (KSI_Integer_getUInt64 (sigAttrAlgo rfc)) in
      rbind (rfc3161_preSufHasher D (tstInfoPrefix rfc) (rfc_inputHash rfc) (tstInfoSuffix rfc) tstInfoAlgoId) (\<lambda>hsh_tstInfo.
      rbind (rfc3161_preSufHasher D (sigAttrPrefix rfc) (Some hsh_tstInfo) (sigAttrSuffix rfc) sigAttrAlgoId) (\<lambda>hsh_sigAttr.
      rbind (KSI_DataHash_getImprint (Some hsh_sigAttr)) (\<lambda>imprint.
      rbind (rfc3161_extractOutputHashAlgorithm sig) (\<lambda>a. KSI_DataHash_create D (Some imprint) a))))))"

definition KSI_VerificationRule_Rfc3161RecordHashAlgorithmVerification :: "KSI_VerificationContext Verifier" where
  "KSI_VerificationRule_Rfc3161RecordHashAlgorithmVerification =
     verification_rule ''KSI_VerificationRule_Rfc3161RecordHashAlgorithmVerification'' KSI_VERIFY_AGGRCHAIN_INTERNALLY (\<lambda>info.
       vbind (sig_of info) (\<lambda>info sig.
       vbind (non_null info (rfc3161 sig) (internal KSI_INVALID_ARGUMENT)) (\<lambda>info rfc.
       vbind (check_algorithm info (to_int (KSI_Integer_getUInt64 (sigAttrAlgo rfc))) (to_time (rfc_aggregationTime rfc))
                KSI_VER_ERR_INT_14 KSI_VERIFY_AGGRCHAIN_INTERNALLY) (\<lambda>info _.
       vbind (check_algorithm info (to_int (KSI_Integer_getUInt64 (tstInfoAlgo rfc))) (to_time (rfc_aggregationTime rfc))
                KSI_VER_ERR_INT_14 KSI_VERIFY_AGGRCHAIN_INTERNALLY) (\<lambda>info _. pass info)))))"

definition KSI_VerificationRule_Rfc3161RecordOutputHashAlgorithmVerification :: "KSI_VerificationContext Verifier" where
  "KSI_VerificationRule_Rfc3161RecordOutputHashAlgorithmVerification =
     verification_rule ''KSI_VerificationRule_Rfc3161RecordOutputHashAlgorithmVerification'' KSI_VERIFY_AGGRCHAIN_INTERNALLY (\<lambda>info.
       vbind (sig_of info) (\<lambda>info sig.
       vbind (non_null info (rfc3161 sig) (internal KSI_INVALID_ARGUMENT)) (\<lambda>info rfc.
       vbind (attempt info (rfc3161_extractOutputHashAlgorithm sig)) (\<lambda>info a.
       vbind (check_algorithm info a (to_time (rfc_aggregationTime rfc)) KSI_VER_ERR_INT_17 KSI_VERIFY_AGGRCHAIN_INTERNALLY)
         (\<lambda>info _. pass info)))))"

definition KSI_VerificationRule_AggregationChainInputHashVerification :: "(int \<Rightarrow> bytes \<Rightarrow> bytes) \<Rightarrow> KSI_VerificationContext Verifier" where
  "KSI_VerificationRule_AggregationChainInputHashVerification D =
     verification_rule ''KSI_VerificationRule_AggregationChainInputHashVerification'' KSI_VERIFY_AGGRCHAIN_INTERNALLY (\<lambda>info.
       vbind (sig_of info) (\<lambda>info sig.
       if rfc3161 sig \<noteq> None then
         vbind (attempt info (rfc3161_getOutputHash D sig)) (\<lambda>info rfc3161_outputHash.
         vbind (stop_if info (aggregationChainList sig = None)
                  (Ended KSI_VER_RES_FAIL KSI_VER_ERR_GEN_2 KSI_VERIFY_NONE (Some KSI_INVALID_SIGNATURE))) (\<lambda>info _.
         vbind (attempt info (element_at (aggregationChainList sig) 0)) (\<lambda>info firstChain.
         vbind (stop_if info (\<not> KSI_DataHash_equals (Some rfc3161_outputHash) (inputHash firstChain))
                  (failed KSI_VER_ERR_INT_1 KSI_VERIFY_AGGRCHAIN_INTERNALLY)) (\<lambda>info _. pass info))))
       else pass info))"

section \<open>Metadata\<close>

text \<open>The first byte of an element tells TLV8 from TLV16 as its header length does: elements are read from
  memory with their headers.\<close>

definition metaDataPadding_verify :: "KSI_TlvElement \<Rightarrow> ksi_status" where
  "metaDataPadding_verify el =
     (if tag (ftlv el) \<noteq> 0x1E then Some KSI_INVALID_FORMAT
      else if hdr_len (ftlv el) = 4 then Some KSI_INVALID_FORMAT
      else if \<not> is_nc (ftlv el) \<or> \<not> is_fwd (ftlv el) then Some KSI_INVALID_FORMAT
      else if dat_len (ftlv el) = 2 \<and> payload el ! 1 \<noteq> 0x01 then Some KSI_INVALID_FORMAT
      else if dat_len (ftlv el) = 2 \<or> dat_len (ftlv el) = 1 then
        if payload el ! 0 \<noteq> 0x01 then Some KSI_INVALID_FORMAT else None
      else Some KSI_INVALID_FORMAT)"

text \<open>Looking for the padding turns the element into a list of sub-elements, also when more than one padding
  is found.\<close>

definition nested_form :: "KSI_TlvElement \<Rightarrow> KSI_TlvElement" where
  "nested_form md = (case convertToNested md of Inl e \<Rightarrow> md | Inr md' \<Rightarrow> md')"

definition metaData_verify :: "KSI_TlvElement \<Rightarrow> rule_end + unit" where
  "metaData_verify md =
     (case KSI_TlvElement_getElement md 0x1E of
        Inl e \<Rightarrow>
          if e = KSI_INVALID_STATE then Inl (failed KSI_VER_ERR_INT_11 KSI_VERIFY_AGGRCHAIN_INTERNALLY) else Inl (internal e)
      | Inr (Some el, md) \<Rightarrow>
          (case element_at (subList md) 0 of
             Inl e \<Rightarrow> Inl (internal e)
           | Inr tmp \<Rightarrow>
               (case metaDataPadding_verify tmp of
                  Some e \<Rightarrow>
                    if e = KSI_INVALID_FORMAT then Inl (failed KSI_VER_ERR_INT_11 KSI_VERIFY_AGGRCHAIN_INTERNALLY) else Inl (internal e)
                | None \<Rightarrow>
                    if dat_len (ftlv md) mod 2 \<noteq> 0 then Inl (failed KSI_VER_ERR_INT_11 KSI_VERIFY_AGGRCHAIN_INTERNALLY)
                    else Inr ()))
      | Inr (None, md) \<Rightarrow>
          if payload md = [] then Inl Crash
          else
            let len = KSI_getHashLength (int (unat (payload md ! 0))) in
            if len \<noteq> 0 \<and> len + 1 = dat_len (ftlv md) then Inl (failed KSI_VER_ERR_INT_11 KSI_VERIFY_AGGRCHAIN_INTERNALLY)
            else Inr ())"

text \<open>The loops over links and chains; on the way the elements take their nested form.\<close>

fun metaDataLinkLoop :: "KSI_HashChainLink list \<Rightarrow> KSI_HashChainLink list \<times> (rule_end + unit)" where
  "metaDataLinkLoop [] = ([], Inr ())"
| "metaDataLinkLoop (link # links) =
     (case metaData link of
        None \<Rightarrow> (case metaDataLinkLoop links of (links, r) \<Rightarrow> (link # links, r))
      | Some md \<Rightarrow>
          let link = link\<lparr>metaData := Some (nested_form md)\<rparr> in
          (case metaData_verify md of
             Inl e \<Rightarrow> (link # links, Inl e)
           | Inr _ \<Rightarrow> (case metaDataLinkLoop links of (links, r) \<Rightarrow> (link # links, r))))"

fun metaDataChainLoop :: "KSI_AggregationHashChain list \<Rightarrow> KSI_AggregationHashChain list \<times> (rule_end + unit)" where
  "metaDataChainLoop [] = ([], Inr ())"
| "metaDataChainLoop (c # cs) =
     (case metaDataLinkLoop (elements (chain c)) of
        (links, r) \<Rightarrow>
          let c = c\<lparr>chain := map_option (\<lambda>_. links) (chain c)\<rparr> in
          (case r of
             Inl e \<Rightarrow> (c # cs, Inl e)
           | Inr _ \<Rightarrow> (case metaDataChainLoop cs of (cs, r) \<Rightarrow> (c # cs, r))))"

definition set_chains :: "KSI_VerificationContext \<Rightarrow> KSI_AggregationHashChain list \<Rightarrow> KSI_VerificationContext" where
  "set_chains info cs =
     info\<lparr>signature := map_option (\<lambda>sig. sig\<lparr>aggregationChainList := map_option (\<lambda>_. cs) (aggregationChainList sig)\<rparr>) (signature info)\<rparr>"

definition KSI_VerificationRule_AggregationChainMetaDataVerification :: "KSI_VerificationContext Verifier" where
  "KSI_VerificationRule_AggregationChainMetaDataVerification =
     verification_rule ''KSI_VerificationRule_AggregationChainMetaDataVerification'' KSI_VERIFY_AGGRCHAIN_INTERNALLY (\<lambda>info.
       vbind (sig_of info) (\<lambda>info sig.
         (case metaDataChainLoop (elements (aggregationChainList sig)) of
            (cs, r) \<Rightarrow> vbind (set_chains info cs, r) (\<lambda>info _. pass info))))"

section \<open>Consistency of the aggregation chains\<close>

text \<open>The loop counts the chains it has aggregated and compares the count with the length of the list behind it;
  the two agree whenever the loop is left regularly.\<close>

fun consistencyLoop ::
    "(int \<Rightarrow> bytes \<Rightarrow> bytes) \<Rightarrow> KSI_AggregationHashChain list \<Rightarrow> int \<Rightarrow> KSI_DataHash option
       \<Rightarrow> KSI_AggregationHashChain list \<times> (rule_end + KSI_DataHash option)" where
  "consistencyLoop D [] lvl hsh = ([], Inr hsh)"
| "consistencyLoop D (c # cs) lvl hsh =
     (if hsh \<noteq> None \<and> \<not> KSI_DataHash_equals hsh (inputHash c)
      then (c # cs, Inl (failed KSI_VER_ERR_INT_1 KSI_VERIFY_AGGRCHAIN_INTERNALLY))
      else
        (case KSI_AggregationHashChain_aggregate D c lvl of
           (Ok (lvl, tmpHash), c) \<Rightarrow> (case consistencyLoop D cs lvl tmpHash of (cs, r) \<Rightarrow> (c # cs, r))
         | (Err e, c) \<Rightarrow> (c # cs, Inl (internal e))
         | (Fault, c) \<Rightarrow> (c # cs, Inl Crash)))"

definition set_output_hash :: "KSI_VerificationContext \<Rightarrow> KSI_DataHash option \<Rightarrow> KSI_VerificationContext" where
  "set_output_hash info hsh = info\<lparr>tempData := map_option (\<lambda>t. t\<lparr>aggregationOutputHash := hsh\<rparr>) (tempData info)\<rparr>"

definition KSI_VerificationRule_AggregationHashChainConsistency :: "(int \<Rightarrow> bytes \<Rightarrow> bytes) \<Rightarrow> KSI_VerificationContext Verifier" where
  "KSI_VerificationRule_AggregationHashChainConsistency D =
     verification_rule ''KSI_VerificationRule_AggregationHashChainConsistency'' KSI_VERIFY_AGGRCHAIN_INTERNALLY (\<lambda>info.
       vbind (sig_of info) (\<lambda>info sig.
       vbind (temp_of info) (\<lambda>info tmp.
         (case consistencyLoop D (elements (aggregationChainList sig)) 0 None of
            (cs, r) \<Rightarrow> vbind (set_chains info cs, r) (\<lambda>info hsh. pass (set_output_hash info hsh))))))"

fun timeLoop :: "KSI_AggregationHashChain option \<Rightarrow> KSI_AggregationHashChain list \<Rightarrow> bool" where
  "timeLoop prevChain [] = True"
| "timeLoop prevChain (c # cs) =
     (if prevChain \<noteq> None \<and> \<not> KSI_Integer_equals (aggregationTime c) (aggregationTime (the prevChain)) then False
      else timeLoop (Some c) cs)"

text \<open>The outcome of the check of the RFC 3161 record in the two rules below.\<close>

definition rfc3161_outcome :: "KSI_VerificationContext \<Rightarrow> ksi_status \<Rightarrow> KSI_VerificationErrorCode \<Rightarrow> unit stepping" where
  "rfc3161_outcome info res vec =
     (case res of
        None \<Rightarrow> pass info
      | Some e \<Rightarrow>
          if e = KSI_VERIFICATION_FAILURE then (info, Inl (failed vec KSI_VERIFY_AGGRCHAIN_INTERNALLY)) else (info, Inl (internal e)))"

definition KSI_VerificationRule_AggregationHashChainTimeConsistency :: "KSI_VerificationContext Verifier" where
  "KSI_VerificationRule_AggregationHashChainTimeConsistency =
     verification_rule ''KSI_VerificationRule_AggregationHashChainTimeConsistency'' KSI_VERIFY_AGGRCHAIN_INTERNALLY (\<lambda>info.
       vbind (sig_of info) (\<lambda>info sig.
       vbind (rfc3161_outcome info (rfc3161_verifyAggrTime sig) KSI_VER_ERR_INT_2) (\<lambda>info _.
       vbind (stop_if info (\<not> timeLoop None (elements (aggregationChainList sig)))
                (failed KSI_VER_ERR_INT_2 KSI_VERIFY_AGGRCHAIN_INTERNALLY)) (\<lambda>info _. pass info))))"

text \<open>The index of a chain is the index of the chain below it without its last number.\<close>

fun indexLoop :: "KSI_Integer list option \<Rightarrow> KSI_AggregationHashChain list \<Rightarrow> bool" where
  "indexLoop prevIndex [] = True"
| "indexLoop prevIndex (c # cs) =
     (case prevIndex of
        None \<Rightarrow> indexLoop (Some (elements (chainIndex c))) cs
      | Some prev \<Rightarrow>
          if length prev \<noteq> length (elements (chainIndex c)) + 1 then False
          else if list_ex (\<lambda>j. \<not> KSI_Integer_equals (Some (prev ! j)) (Some (elements (chainIndex c) ! j)))
                    [0..<length (elements (chainIndex c))] then False
          else indexLoop (Some (elements (chainIndex c))) cs)"

definition KSI_VerificationRule_AggregationHashChainIndexContinuation :: "KSI_VerificationContext Verifier" where
  "KSI_VerificationRule_AggregationHashChainIndexContinuation =
     verification_rule ''KSI_VerificationRule_AggregationHashChainIndexContinuation'' KSI_VERIFY_AGGRCHAIN_INTERNALLY (\<lambda>info.
       vbind (sig_of info) (\<lambda>info sig.
       vbind (rfc3161_outcome info (rfc3161_verifyChainIndex sig) KSI_VER_ERR_INT_12) (\<lambda>info _.
       vbind (stop_if info (\<not> indexLoop None (elements (aggregationChainList sig)))
                (failed KSI_VER_ERR_INT_12 KSI_VERIFY_AGGRCHAIN_INTERNALLY)) (\<lambda>info _. pass info))))"

fun shapeLoop :: "KSI_VerificationContext \<Rightarrow> KSI_AggregationHashChain list \<Rightarrow> unit stepping" where
  "shapeLoop info [] = pass info"
| "shapeLoop info (c # cs) =
     (if elements (chainIndex c) = [] then shapeLoop info cs
      else
        vbind (attempt info (KSI_AggregationHashChain_calculateShape (Some c))) (\<lambda>info chainIndexCalc.
        vbind (stop_if info (last (elements (chainIndex c)) \<noteq> chainIndexCalc)
                 (failed KSI_VER_ERR_INT_10 KSI_VERIFY_AGGRCHAIN_INTERNALLY)) (\<lambda>info _. shapeLoop info cs)))"

definition KSI_VerificationRule_AggregationHashChainIndexConsistency :: "KSI_VerificationContext Verifier" where
  "KSI_VerificationRule_AggregationHashChainIndexConsistency =
     verification_rule ''KSI_VerificationRule_AggregationHashChainIndexConsistency'' KSI_VERIFY_AGGRCHAIN_INTERNALLY (\<lambda>info.
       vbind (sig_of info) (\<lambda>info sig.
       vbind (shapeLoop info (elements (aggregationChainList sig))) (\<lambda>info _. pass info)))"

section \<open>The calendar chain\<close>

text \<open>The status of the aggregation is ignored: on an error the output hash stays null.\<close>

definition initAggregationOutputHash :: "(int \<Rightarrow> bytes \<Rightarrow> bytes) \<Rightarrow> KSI_VerificationContext \<Rightarrow> KSI_VerificationContext \<times> unit run" where
  "initAggregationOutputHash D info =
     (case signature info of
        None \<Rightarrow> (info, Err KSI_INVALID_ARGUMENT)
      | Some sig \<Rightarrow>
          (case tempData info of
             None \<Rightarrow> (info, Err KSI_INVALID_STATE)
           | Some tmp \<Rightarrow>
               if aggregationOutputHash tmp = None then
                 (case KSI_AggregationHashChainList_aggregate D (aggregationChainList sig) (to_int (docAggrLevel info)) of
                    (Ok h, cs) \<Rightarrow> (set_output_hash (set_chains info cs) h, Ok ())
                  | (Err e, cs) \<Rightarrow> (set_chains info cs, Ok ())
                  | (Fault, cs) \<Rightarrow> (set_chains info cs, Fault))
               else (info, Ok ())))"

definition output_hash :: "KSI_VerificationContext \<Rightarrow> KSI_DataHash option" where
  "output_hash info = (case tempData info of None \<Rightarrow> None | Some tmp \<Rightarrow> aggregationOutputHash tmp)"

definition KSI_VerificationRule_CalendarHashChainInputHashVerification :: "(int \<Rightarrow> bytes \<Rightarrow> bytes) \<Rightarrow> KSI_VerificationContext Verifier" where
  "KSI_VerificationRule_CalendarHashChainInputHashVerification D =
     verification_rule ''KSI_VerificationRule_CalendarHashChainInputHashVerification'' KSI_VERIFY_AGGRCHAIN_WITH_CALENDAR_CHAIN (\<lambda>info.
       vbind (sig_of info) (\<lambda>info sig.
       vbind (temp_of info) (\<lambda>info tmp.
       vbind (attempt info (KSI_CalendarHashChain_getInputHash (calendarChain sig))) (\<lambda>info calInputHash.
       vbind (attempt_run (initAggregationOutputHash D info)) (\<lambda>info _.
       vbind (stop_if info (output_hash info = None \<or> calInputHash = None) (internal KSI_INVALID_ARGUMENT)) (\<lambda>info _.
       vbind (stop_if info (\<not> KSI_DataHash_equals (output_hash info) calInputHash)
                (failed KSI_VER_ERR_INT_3 KSI_VERIFY_AGGRCHAIN_WITH_CALENDAR_CHAIN)) (\<lambda>info _. pass info)))))))"

text \<open>The aggregation time of a calendar chain, which defaults to its publication time.\<close>

definition calendar_time :: "KSI_VerificationContext \<Rightarrow> KSI_CalendarHashChain option \<Rightarrow> KSI_Integer option stepping" where
  "calendar_time info c =
     vbind (attempt info (KSI_CalendarHashChain_getAggregationTime c)) (\<lambda>info calTime.
       (case calTime of None \<Rightarrow> attempt info (KSI_CalendarHashChain_getPublicationTime c) | Some t \<Rightarrow> (info, Inr (Some t))))"

definition KSI_VerificationRule_CalendarHashChainAggregationTime :: "KSI_VerificationContext Verifier" where
  "KSI_VerificationRule_CalendarHashChainAggregationTime =
     verification_rule ''KSI_VerificationRule_CalendarHashChainAggregationTime'' KSI_VERIFY_AGGRCHAIN_WITH_CALENDAR_CHAIN (\<lambda>info.
       vbind (sig_of info) (\<lambda>info sig.
       vbind (attempt info (element_at (aggregationChainList sig) 0)) (\<lambda>info aggregationChain.
       vbind (calendar_time info (calendarChain sig)) (\<lambda>info calTime.
       vbind (stop_if info (\<not> KSI_Integer_equals calTime (aggregationTime aggregationChain))
                (failed KSI_VER_ERR_INT_4 KSI_VERIFY_AGGRCHAIN_WITH_CALENDAR_CHAIN)) (\<lambda>info _. pass info)))))"

definition KSI_VerificationRule_CalendarHashChainRegistrationTime :: "KSI_VerificationContext Verifier" where
  "KSI_VerificationRule_CalendarHashChainRegistrationTime =
     verification_rule ''KSI_VerificationRule_CalendarHashChainRegistrationTime'' KSI_VERIFY_CALCHAIN_INTERNALLY (\<lambda>info.
       vbind (sig_of info) (\<lambda>info sig.
         (case KSI_CalendarHashChain_calculateAggregationTime (calendarChain sig) of
            Inl e \<Rightarrow> (info, Inl (Ended KSI_VER_RES_NA KSI_VER_ERR_INT_5 KSI_VERIFY_NONE None))
          | Inr calculatedAggrTime \<Rightarrow>
              vbind (calendar_time info (calendarChain sig)) (\<lambda>info calTime.
              vbind (stop_if info (\<not> KSI_Integer_equalsUInt calTime (of_int calculatedAggrTime))
                       (failed KSI_VER_ERR_INT_5 KSI_VERIFY_CALCHAIN_INTERNALLY)) (\<lambda>info _. pass info)))))"

definition wasDeprecatedAt :: "KSI_HashAlgorithm \<Rightarrow> int \<Rightarrow> bool" where
  "wasDeprecatedAt a at =
     (KSI_checkHashAlgorithmAt a at = Some KSI_HASH_ALGORITHM_DEPRECATED \<or> KSI_checkHashAlgorithmAt a at = Some KSI_HASH_ALGORITHM_OBSOLETE)"

definition wasObsoleteAt :: "KSI_HashAlgorithm \<Rightarrow> int \<Rightarrow> bool" where
  "wasObsoleteAt a at = (KSI_checkHashAlgorithmAt a at = Some KSI_HASH_ALGORITHM_OBSOLETE)"

text \<open>The next link of the wanted direction and the links behind it.\<close>

fun getNextLink :: "KSI_HashChainLink list \<Rightarrow> bool \<Rightarrow> (KSI_HashChainLink \<times> KSI_HashChainLink list) option" where
  "getNextLink [] getRight = None"
| "getNextLink (link # links) getRight =
     (if (isLeft link \<and> \<not> getRight) \<or> (\<not> isLeft link \<and> getRight) then Some (link, links) else getNextLink links getRight)"

lemma getNextLink_shorter: "getNextLink links r = Some (l, rest) \<Longrightarrow> length rest < length links"
  by (induction links) (auto split: if_splits)

function algorithmStateLoop :: "(KSI_HashAlgorithm \<Rightarrow> int \<Rightarrow> bool) \<Rightarrow> int \<Rightarrow> KSI_HashChainLink list \<Rightarrow> bool ksi_result" where
  "algorithmStateLoop inspector pubTime links =
     (case getNextLink links False of
        None \<Rightarrow> Inr False
      | Some (link, rest) \<Rightarrow>
          rbind (KSI_DataHash_getHashAlg (imprint link)) (\<lambda>algId.
            if inspector algId pubTime then Inr True else algorithmStateLoop inspector pubTime rest))"
  by pat_completeness auto
termination
  by (relation "measure (\<lambda>(inspector, t, links). length links)") (auto dest: getNextLink_shorter)

declare algorithmStateLoop.simps [simp del]

definition calendarChainAggrAlgorithmState ::
    "KSI_CalendarHashChain option \<Rightarrow> (KSI_HashAlgorithm \<Rightarrow> int \<Rightarrow> bool) \<Rightarrow> bool ksi_result" where
  "calendarChainAggrAlgorithmState calHshChain inspector =
     the_ptr calHshChain KSI_INVALID_ARGUMENT (\<lambda>c.
     rbind (KSI_CalendarHashChain_getPublicationTime (Some c)) (\<lambda>pubTime.
     rbind (KSI_CalendarHashChain_getHashChain (Some c)) (\<lambda>chainList.
     the_ptr chainList KSI_INVALID_ARGUMENT (\<lambda>links. algorithmStateLoop inspector (to_time pubTime) links))))"

definition KSI_VerificationRule_CalendarChainHashAlgorithmObsoleteAtPubTime :: "KSI_VerificationContext Verifier" where
  "KSI_VerificationRule_CalendarChainHashAlgorithmObsoleteAtPubTime =
     verification_rule ''KSI_VerificationRule_CalendarChainHashAlgorithmObsoleteAtPubTime'' KSI_VERIFY_CALCHAIN_INTERNALLY (\<lambda>info.
       vbind (sig_of info) (\<lambda>info sig.
       vbind (attempt info (calendarChainAggrAlgorithmState (calendarChain sig) wasObsoleteAt)) (\<lambda>info isTrue.
       vbind (stop_if info isTrue (failed KSI_VER_ERR_INT_16 KSI_VERIFY_CALCHAIN_INTERNALLY)) (\<lambda>info _. pass info))))"

text \<open>The root of the calendar chain of the signature; the chain keeps it.\<close>

definition calendar_root_of ::
    "(int \<Rightarrow> bytes \<Rightarrow> bytes) \<Rightarrow> KSI_VerificationContext \<Rightarrow> KSI_Signature \<Rightarrow> KSI_VerificationContext \<times> KSI_DataHash option run" where
  "calendar_root_of D info sig =
     (case calendarChain sig of
        None \<Rightarrow> (info, Err KSI_INVALID_ARGUMENT)
      | Some c \<Rightarrow>
          (case KSI_CalendarHashChain_aggregate D c of
             Ok (h, c) \<Rightarrow> (set_sig info (sig\<lparr>calendarChain := Some c\<rparr>), Ok h)
           | Err e \<Rightarrow> (info, Err e)
           | Fault \<Rightarrow> (info, Fault)))"

definition KSI_VerificationRule_CalendarAuthenticationRecordAggregationHash :: "(int \<Rightarrow> bytes \<Rightarrow> bytes) \<Rightarrow> KSI_VerificationContext Verifier" where
  "KSI_VerificationRule_CalendarAuthenticationRecordAggregationHash D =
     verification_rule ''KSI_VerificationRule_CalendarAuthenticationRecordAggregationHash'' KSI_VERIFY_CALCHAIN_WITH_CALAUTHREC (\<lambda>info.
       vbind (sig_of info) (\<lambda>info sig.
       vbind (attempt_run (calendar_root_of D info sig)) (\<lambda>info rootHash.
       vbind (attempt info (getter pubData (calendarAuthRec sig))) (\<lambda>info pd.
       vbind (attempt info (KSI_PublicationData_getImprint pd)) (\<lambda>info pubHash.
       vbind (stop_if info (\<not> KSI_DataHash_equals rootHash pubHash)
                (failed KSI_VER_ERR_INT_8 KSI_VERIFY_CALCHAIN_WITH_CALAUTHREC)) (\<lambda>info _. pass info))))))"

definition KSI_VerificationRule_CalendarAuthenticationRecordAggregationTime :: "KSI_VerificationContext Verifier" where
  "KSI_VerificationRule_CalendarAuthenticationRecordAggregationTime =
     verification_rule ''KSI_VerificationRule_CalendarAuthenticationRecordAggregationTime'' KSI_VERIFY_CALCHAIN_WITH_CALAUTHREC (\<lambda>info.
       vbind (sig_of info) (\<lambda>info sig.
       vbind (attempt info (KSI_CalendarHashChain_getPublicationTime (calendarChain sig))) (\<lambda>info calPubTime.
       vbind (attempt info (getter pubData (calendarAuthRec sig))) (\<lambda>info pd.
       vbind (attempt info (KSI_PublicationData_getTime pd)) (\<lambda>info pubTime.
       vbind (stop_if info (\<not> KSI_Integer_equals calPubTime pubTime)
                (failed KSI_VER_ERR_INT_6 KSI_VERIFY_CALCHAIN_WITH_CALAUTHREC)) (\<lambda>info _. pass info))))))"

definition KSI_VerificationRule_SignaturePublicationRecordPublicationHash :: "(int \<Rightarrow> bytes \<Rightarrow> bytes) \<Rightarrow> KSI_VerificationContext Verifier" where
  "KSI_VerificationRule_SignaturePublicationRecordPublicationHash D =
     verification_rule ''KSI_VerificationRule_SignaturePublicationRecordPublicationHash'' KSI_VERIFY_CALCHAIN_WITH_PUBLICATION (\<lambda>info.
       vbind (sig_of info) (\<lambda>info sig.
       vbind (attempt_run (calendar_root_of D info sig)) (\<lambda>info rootHash.
       vbind (attempt info (KSI_PublicationRecord_getPublishedData (publication sig))) (\<lambda>info pd.
       vbind (attempt info (KSI_PublicationData_getImprint pd)) (\<lambda>info publishedHash.
       vbind (stop_if info (\<not> KSI_DataHash_equals rootHash publishedHash)
                (failed KSI_VER_ERR_INT_9 KSI_VERIFY_CALCHAIN_WITH_PUBLICATION)) (\<lambda>info _. pass info))))))"

definition KSI_VerificationRule_SignaturePublicationRecordPublicationTime :: "KSI_VerificationContext Verifier" where
  "KSI_VerificationRule_SignaturePublicationRecordPublicationTime =
     verification_rule ''KSI_VerificationRule_SignaturePublicationRecordPublicationTime'' KSI_VERIFY_CALCHAIN_WITH_PUBLICATION (\<lambda>info.
       vbind (sig_of info) (\<lambda>info sig.
       vbind (attempt info (KSI_CalendarHashChain_getPublicationTime (calendarChain sig))) (\<lambda>info calPubTime.
       vbind (attempt info (KSI_PublicationRecord_getPublishedData (publication sig))) (\<lambda>info pd.
       vbind (attempt info (KSI_PublicationData_getTime pd)) (\<lambda>info sigPubTime.
       vbind (stop_if info (\<not> KSI_Integer_equals calPubTime sigPubTime)
                (failed KSI_VER_ERR_INT_7 KSI_VERIFY_CALCHAIN_WITH_PUBLICATION)) (\<lambda>info _. pass info))))))"

section \<open>Facts on rules\<close>

lemma vbind_simps [simp]: "vbind (i, Inl e) k = (i, Inl e)" "vbind (i, Inr x) k = k i x"
  by (simp_all add: vbind_def)

lemma vbind_eq_Inr: "vbind m k = (j, Inr y) \<longleftrightarrow> (\<exists>i x. m = (i, Inr x) \<and> k i x = (j, Inr y))"
  by (auto simp: vbind_def split: prod.splits sum.splits)

lemma vbind_eq_Inl: "vbind m k = (j, Inl e) \<longleftrightarrow> m = (j, Inl e) \<or> (\<exists>i x. m = (i, Inr x) \<and> k i x = (j, Inl e))"
  by (auto simp: vbind_def split: prod.splits sum.splits)

lemma attempt_eq_Inr: "attempt i r = (j, Inr x) \<longleftrightarrow> j = i \<and> r = Inr x"
  by (auto simp: attempt_def split: sum.splits)

lemma attempt_eq_Inl: "attempt i r = (j, Inl e) \<longleftrightarrow> j = i \<and> (\<exists>s. r = Inl s \<and> e = internal s)"
  by (auto simp: attempt_def split: sum.splits)

lemma attempt_run_eq_Inr: "attempt_run r = (j, Inr x) \<longleftrightarrow> r = (j, Ok x)"
  by (auto simp: attempt_run_def split: prod.splits run.splits)

lemma attempt_run_eq_Inl:
  "attempt_run r = (j, Inl e) \<longleftrightarrow> (\<exists>s. r = (j, Err s) \<and> e = internal s) \<or> r = (j, Fault) \<and> e = Crash"
  by (auto simp: attempt_run_def split: prod.splits run.splits)

lemma stop_if_eq_Inr: "stop_if i bad e = (j, Inr u) \<longleftrightarrow> j = i \<and> \<not> bad"
  by (auto simp: stop_if_def)

lemma stop_if_eq_Inl: "stop_if i bad e = (j, Inl e') \<longleftrightarrow> j = i \<and> bad \<and> e' = e"
  by (auto simp: stop_if_def)

lemma non_null_eq_Inr: "non_null i p e = (j, Inr x) \<longleftrightarrow> j = i \<and> p = Some x"
  by (auto simp: non_null_def split: option.splits)

lemma non_null_eq_Inl: "non_null i p e = (j, Inl e') \<longleftrightarrow> j = i \<and> p = None \<and> e' = e"
  by (auto simp: non_null_def split: option.splits)

lemma sig_of_eq_Inr: "sig_of i = (j, Inr s) \<longleftrightarrow> j = i \<and> signature i = Some s"
  by (simp add: sig_of_def non_null_eq_Inr)

lemma sig_of_eq_Inl: "sig_of i = (j, Inl e) \<longleftrightarrow> j = i \<and> signature i = None \<and> e = internal KSI_INVALID_ARGUMENT"
  by (simp add: sig_of_def non_null_eq_Inl)

lemma temp_of_eq_Inr: "temp_of i = (j, Inr t) \<longleftrightarrow> j = i \<and> tempData i = Some t"
  by (simp add: temp_of_def non_null_eq_Inr)

lemma temp_of_eq_Inl: "temp_of i = (j, Inl e) \<longleftrightarrow> j = i \<and> tempData i = None \<and> e = Unset KSI_INVALID_STATE"
  by (simp add: temp_of_def non_null_eq_Inl)

lemmas step_Inr = vbind_eq_Inr attempt_eq_Inr attempt_run_eq_Inr stop_if_eq_Inr non_null_eq_Inr sig_of_eq_Inr temp_of_eq_Inr
lemmas step_Inl = vbind_eq_Inl attempt_eq_Inl attempt_run_eq_Inl stop_if_eq_Inl non_null_eq_Inl sig_of_eq_Inl temp_of_eq_Inl

text \<open>What a rule decides, read off its body.\<close>

lemma decides_rule:
  "decides (verification_rule name st body) c code c' \<longleftrightarrow>
     body c = (c', Inr ()) \<and> code = KSI_VER_RES_OK \<or> (\<exists>vec s. body c = (c', Inl (Ended code vec s None)))"
proof (cases "body c")
  case (Pair i r)
  show ?thesis
  proof (cases r)
    case (Inl e)
    then show ?thesis using Pair
      by (cases e) (auto simp: decides_def verification_rule_def Let_def VERIFICATION_RESULT_ERR_def split: option.splits)
  next
    case (Inr u)
    then show ?thesis using Pair by (auto simp: decides_def verification_rule_def Let_def VERIFICATION_RESULT_OK_def)
  qed
qed

lemma rule_Ok:
  assumes "\<And>i vec s. body c \<noteq> (i, Inl (Ended KSI_VER_RES_OK vec s None))"
  shows "decides (verification_rule name st body) c KSI_VER_RES_OK c' \<longleftrightarrow> body c = (c', Inr ())"
  using assms by (auto simp: decides_rule)

text \<open>Every rule of the library honours the contract of the engine.\<close>

definition is_rule :: "KSI_VerificationContext Verifier \<Rightarrow> bool" where
  "is_rule v \<longleftrightarrow> (\<exists>name st body. v = verification_rule name st body)"

lemma is_rule_rule [simp, intro]: "is_rule (verification_rule name st body)"
  by (auto simp: is_rule_def)

interpretation rules: rule_contract is_rule
proof
  fix v c r r' assume "is_rule v"
  then obtain name st body where v: "v = verification_rule name st body" by (auto simp: is_rule_def)
  obtain i x where b: "body c = (i, x)" by (cases "body c")
  show "fst (v c r) = fst (v c r') \<and> fst (snd (v c r)) = fst (snd (v c r'))"
    by (auto simp: v b verification_rule_def Let_def split: sum.splits rule_end.splits option.splits)
  show "policyName (snd (snd (v c r))) = policyName r"
    by (auto simp: v b verification_rule_def Let_def VERIFICATION_START_def VERIFICATION_RESULT_OK_def VERIFICATION_RESULT_ERR_def
        split: sum.splits rule_end.splits option.splits)
  show "resultCode (snd (snd (v c r))) = resultCode (snd (snd (v c r')))" if "fst (v c r) = Ok ()"
    using that by (auto simp: v b verification_rule_def Let_def VERIFICATION_RESULT_OK_def VERIFICATION_RESULT_ERR_def
        split: sum.splits rule_end.splits option.splits)
qed

text \<open>The bookkeeping of a rule: only its own steps are touched, a passed rule reports no error, and a failed one
  carries an error.\<close>

lemma presence_decides:
  "decides (presence_rule name bad (Ended KSI_VER_RES_NA vec s None)) c code c' \<longleftrightarrow>
     (\<exists>sig. signature c = Some sig \<and> c' = c \<and> code = (if bad sig then KSI_VER_RES_NA else KSI_VER_RES_OK))"
  by (auto simp: presence_rule_def decides_rule step_Inr step_Inl)

section \<open>When the rules of the internal policy pass\<close>

abbreviation passes :: "KSI_VerificationContext Verifier \<Rightarrow> KSI_VerificationContext \<Rightarrow> KSI_VerificationContext \<Rightarrow> bool" where
  "passes v c c' \<equiv> decides v c KSI_VER_RES_OK c'"

lemma signed_hash_eq: "signed_hash i sig = attempt i (KSI_Signature_getDocumentHash sig)"
  by (cases "rfc3161 sig") (simp_all add: signed_hash_def KSI_Signature_getDocumentHash_def)

lemma DocumentHashDoesNotExist_decides:
  "decides KSI_VerificationRule_DocumentHashDoesNotExist c code c' \<longleftrightarrow>
     c' = c \<and> code = (if documentHash c = None then KSI_VER_RES_OK else KSI_VER_RES_NA)"
  by (auto simp: KSI_VerificationRule_DocumentHashDoesNotExist_def decides_rule step_Inr step_Inl)

lemma DocumentHashExistence_decides:
  "decides KSI_VerificationRule_DocumentHashExistence c code c' \<longleftrightarrow>
     c' = c \<and> code = (if documentHash c = None then KSI_VER_RES_NA else KSI_VER_RES_OK)"
  by (auto simp: KSI_VerificationRule_DocumentHashExistence_def decides_rule step_Inr step_Inl)

lemma InputHashAlgorithm_passes:
  "passes KSI_VerificationRule_InputHashAlgorithmVerification c c' \<longleftrightarrow>
     c' = c \<and> (\<exists>sig d h. signature c = Some sig \<and> documentHash c = Some d
       \<and> KSI_Signature_getDocumentHash sig = Inr (Some h) \<and> h ! 0 = d ! 0)"
  by (auto simp: KSI_VerificationRule_InputHashAlgorithmVerification_def decides_rule step_Inr step_Inl signed_hash_eq
      KSI_DataHash_getHashAlg_def the_ptr_eq_Inr intro: unsigned_word_eqI)

lemma DocumentHash_passes:
  "passes KSI_VerificationRule_DocumentHashVerification c c' \<longleftrightarrow>
     c' = c \<and> (\<exists>sig d. signature c = Some sig \<and> documentHash c = Some d \<and> KSI_Signature_getDocumentHash sig = Inr (Some d))"
  by (auto simp: KSI_VerificationRule_DocumentHashVerification_def decides_rule step_Inr step_Inl signed_hash_eq dataHash_equals_iff)

definition level_fits :: "KSI_VerificationContext \<Rightarrow> KSI_Signature \<Rightarrow> bool" where
  "level_fits c sig \<longleftrightarrow>
     docAggrLevel c = 0 \<or>
     docAggrLevel c \<le> 0xff \<and> rfc3161 sig = None \<and>
       (\<exists>first link. element_at (aggregationChainList sig) 0 = Inr first \<and> element_at (chain first) 0 = Inr link
          \<and> docAggrLevel c \<le> KSI_Integer_getUInt64 (levelCorrection link))"

lemma InputLevel_passes:
  "passes KSI_VerificationRule_AggregationChainInputLevelVerification c c' \<longleftrightarrow>
     c' = c \<and> (\<exists>sig. signature c = Some sig \<and> level_fits c sig)"
  by (auto simp: KSI_VerificationRule_AggregationChainInputLevelVerification_def decides_rule step_Inr step_Inl level_fits_def
      word_gt_0 not_less split: if_splits)

text \<open>An algorithm that is known and had already been deprecated is refused; an unknown one is not.\<close>

lemma checkHashAlgorithmAt_cases:
  "KSI_checkHashAlgorithmAt a t \<in> {None, Some KSI_UNKNOWN_HASH_ALGORITHM_ID, Some KSI_HASH_ALGORITHM_DEPRECATED, Some KSI_HASH_ALGORITHM_OBSOLETE}"
  by (simp add: KSI_checkHashAlgorithmAt_def)

lemma check_algorithm_eq:
  "check_algorithm i a t vec st = (i, if wasDeprecatedAt a t then Inl (failed vec st) else Inr ())"
  using checkHashAlgorithmAt_cases [of a t] by (auto simp: check_algorithm_def wasDeprecatedAt_def)

lemma InputHashAlgorithmAt_passes:
  "passes KSI_VerificationRule_AggregationChainInputHashAlgorithmVerification c c' \<longleftrightarrow>
     c' = c \<and> (\<exists>sig h t. signature c = Some sig \<and> KSI_Signature_getDocumentHash sig = Inr (Some h)
       \<and> KSI_Signature_getSigningTime sig = Inr t \<and> \<not> wasDeprecatedAt (int (unat (h ! 0))) (to_time t))"
  by (auto simp: KSI_VerificationRule_AggregationChainInputHashAlgorithmVerification_def decides_rule step_Inr step_Inl
      check_algorithm_eq KSI_DataHash_getHashAlg_def the_ptr_eq_Inr split: if_splits)

lemma chainAlgorithmLoop_eq:
  "chainAlgorithmLoop i cs =
     (i, if \<exists>c\<in>set cs. wasDeprecatedAt (to_int (KSI_Integer_getUInt64 (aggrHashId c))) (to_time (aggregationTime c))
         then Inl (failed KSI_VER_ERR_INT_15 KSI_VERIFY_AGGRCHAIN_INTERNALLY) else Inr ())"
  by (induction cs) (auto simp: check_algorithm_eq)

lemma ChainAlgorithm_passes:
  "passes KSI_VerificationRule_AggregationChainHashAlgorithmVerification c c' \<longleftrightarrow>
     c' = c \<and> (\<exists>sig. signature c = Some sig
       \<and> (\<forall>a\<in>set (elements (aggregationChainList sig)).
             \<not> wasDeprecatedAt (to_int (KSI_Integer_getUInt64 (aggrHashId a))) (to_time (aggregationTime a))))"
  by (auto simp: KSI_VerificationRule_AggregationChainHashAlgorithmVerification_def decides_rule step_Inr step_Inl
      chainAlgorithmLoop_eq split: if_splits)

lemma RfcAlgorithms_passes:
  "passes KSI_VerificationRule_Rfc3161RecordHashAlgorithmVerification c c' \<longleftrightarrow>
     c' = c \<and> (\<exists>sig rfc. signature c = Some sig \<and> rfc3161 sig = Some rfc
       \<and> \<not> wasDeprecatedAt (to_int (KSI_Integer_getUInt64 (sigAttrAlgo rfc))) (to_time (rfc_aggregationTime rfc))
       \<and> \<not> wasDeprecatedAt (to_int (KSI_Integer_getUInt64 (tstInfoAlgo rfc))) (to_time (rfc_aggregationTime rfc)))"
  by (auto simp: KSI_VerificationRule_Rfc3161RecordHashAlgorithmVerification_def decides_rule step_Inr step_Inl
      check_algorithm_eq split: if_splits)

lemma RfcOutputAlgorithm_passes:
  "passes KSI_VerificationRule_Rfc3161RecordOutputHashAlgorithmVerification c c' \<longleftrightarrow>
     c' = c \<and> (\<exists>sig rfc a. signature c = Some sig \<and> rfc3161 sig = Some rfc
       \<and> rfc3161_extractOutputHashAlgorithm sig = Inr a \<and> \<not> wasDeprecatedAt a (to_time (rfc_aggregationTime rfc)))"
  by (auto simp: KSI_VerificationRule_Rfc3161RecordOutputHashAlgorithmVerification_def decides_rule step_Inr step_Inl
      check_algorithm_eq split: if_splits)

lemma RfcInputHash_passes:
  "passes (KSI_VerificationRule_AggregationChainInputHashVerification D) c c' \<longleftrightarrow>
     c' = c \<and> (\<exists>sig. signature c = Some sig \<and> (rfc3161 sig \<noteq> None \<longrightarrow>
       (\<exists>h first. rfc3161_getOutputHash D sig = Inr h \<and> element_at (aggregationChainList sig) 0 = Inr first \<and> inputHash first = Some h)))"
proof (cases "signature c")
  case (Some sig)
  then show ?thesis
    by (cases "rfc3161 sig"; cases "aggregationChainList sig")
       (auto simp: KSI_VerificationRule_AggregationChainInputHashVerification_def decides_rule step_Inr step_Inl dataHash_equals_iff
         element_at_def)
qed (auto simp: KSI_VerificationRule_AggregationChainInputHashVerification_def decides_rule step_Inr step_Inl)

end
