(* ===== verification/OnlineRules.thy ===== *)
theory OnlineRules
  imports VerificationRule
begin

text \<open>
  The rules of \<^verbatim>\<open>src/src/ksi/verification_rule.c\<close> that ask the extender for a calendar chain, look into a
  publications file, compare the signature with a publication the user provides, or verify the PKI
  signature of the calendar authentication record.

  The extender, the download and the verification of the publications file and the PKI back end are
  parameters, collected in a record.  The answers of the remote services are indexed by the number of
  calls made before, so that nothing is assumed about repeated calls.
\<close>

section \<open>Services\<close>

text \<open>\<open>extendService\<close> stands for \<^verbatim>\<open>KSI_sendExtendRequest\<close>, \<^verbatim>\<open>KSI_RequestHandle_perform\<close> and
  \<^verbatim>\<open>KSI_RequestHandle_getExtendResponse\<close>: it yields the request identifier that was given to the request and
  the response.\<close>

record verify_env =
  digest :: "int \<Rightarrow> bytes \<Rightarrow> bytes"
  extendService :: "nat \<Rightarrow> KSI_ExtendReq \<Rightarrow> (KSI_Integer option \<times> KSI_ExtendResp) ksi_result"
  receivePublicationsFile :: "nat \<Rightarrow> KSI_PublicationsFile ksi_result"
  verifyPublicationsFile :: "KSI_PublicationsFile \<Rightarrow> ksi_status"
  verifyRawSignature :: "bytes \<Rightarrow> KSI_Utf8String option \<Rightarrow> bytes \<Rightarrow> KSI_PKICertificate \<Rightarrow> ksi_status"
  validityNotBefore :: "KSI_PKICertificate \<Rightarrow> u64 ksi_result"
  validityNotAfter :: "KSI_PKICertificate \<Rightarrow> u64 ksi_result"

definition next_call :: "KSI_VerificationContext \<Rightarrow> KSI_VerificationContext" where
  "next_call info = info\<lparr>netCalls := Suc (netCalls info)\<rparr>"

section \<open>The extended calendar chain\<close>

text \<open>The time the extension starts from.\<close>

definition extension_start :: "KSI_Signature \<Rightarrow> KSI_Integer option ksi_result" where
  "extension_start sig =
     (case calendarChain sig of
        Some c \<Rightarrow> KSI_CalendarHashChain_getAggregationTime (Some c)
      | None \<Rightarrow> rbind (element_at (aggregationChainList sig) 0) (\<lambda>aggr. getter aggregationTime (Some aggr)))"

text \<open>The checks of a response.\<close>

definition extender_chain :: "KSI_Integer option \<times> KSI_ExtendResp \<Rightarrow> KSI_CalendarHashChain option ksi_result" where
  "extender_chain r =
     (case r of (reqReqId, resp) \<Rightarrow>
        check (resp_status resp \<noteq> None \<and> \<not> KSI_Integer_equalsUInt (resp_status resp) 0)
          (the (KSI_convertExtenderStatusCode (resp_status resp)))
        (check (\<not> KSI_Integer_equals (resp_requestId resp) reqReqId) KSI_INVALID_ARGUMENT
          (Inr (resp_calendarHashChain resp))))"

definition set_extended :: "KSI_VerificationContext \<Rightarrow> KSI_CalendarHashChain option \<Rightarrow> KSI_VerificationContext" where
  "set_extended info c = info\<lparr>tempData := map_option (\<lambda>t. t\<lparr>tmp_calendarChain := c\<rparr>) (tempData info)\<rparr>"

definition initExtendedCalendarHashChain ::
    "verify_env \<Rightarrow> KSI_VerificationContext \<Rightarrow> KSI_Integer option \<Rightarrow> KSI_VerificationContext \<times> unit ksi_result" where
  "initExtendedCalendarHashChain E info endTime =
     (case (signature info, tempData info) of
        (Some sig, Some tmp) \<Rightarrow>
          (case rbind (extension_start sig) (\<lambda>startTime. KSI_createExtendRequest startTime endTime) of
             Inl e \<Rightarrow> (info, Inl e)
           | Inr req \<Rightarrow>
               (case rbind (extendService E (netCalls info) req) extender_chain of
                  Inl e \<Rightarrow> (next_call info, Inl e)
                | Inr c \<Rightarrow> (set_extended (next_call info) c, Inr ())))
      | (Some sig, None) \<Rightarrow> (info, Inl KSI_INVALID_STATE)
      | (None, _) \<Rightarrow> (info, Inl KSI_INVALID_ARGUMENT))"

text \<open>A chain that is kept is used again, whatever time it was requested for.\<close>

definition getExtendedCalendarHashChain ::
    "verify_env \<Rightarrow> KSI_VerificationContext \<Rightarrow> KSI_Integer option \<Rightarrow> KSI_VerificationContext \<times> KSI_CalendarHashChain option ksi_result" where
  "getExtendedCalendarHashChain E info pubTime =
     (case (signature info, tempData info) of
        (Some sig, Some tmp) \<Rightarrow>
          (case tmp_calendarChain tmp of
             Some c \<Rightarrow> (info, Inr (Some c))
           | None \<Rightarrow>
               (case initExtendedCalendarHashChain E info pubTime of
                  (info, Inl e) \<Rightarrow> (info, Inl e)
                | (info, Inr _) \<Rightarrow> (info, Inr (case tempData info of None \<Rightarrow> None | Some tmp \<Rightarrow> tmp_calendarChain tmp))))
      | (Some sig, None) \<Rightarrow> (info, Inl KSI_INVALID_STATE)
      | (None, _) \<Rightarrow> (info, Inl KSI_INVALID_ARGUMENT))"

definition attempt_on :: "KSI_VerificationContext \<times> 'a ksi_result \<Rightarrow> 'a stepping" where
  "attempt_on r = (case r of (info, r) \<Rightarrow> attempt info r)"

text \<open>The root of the extended chain; the chain keeps it.\<close>

definition extended_root ::
    "verify_env \<Rightarrow> KSI_VerificationContext \<Rightarrow> KSI_CalendarHashChain option \<Rightarrow> KSI_VerificationContext \<times> KSI_DataHash option run" where
  "extended_root E info c =
     (case c of
        None \<Rightarrow> (info, Err KSI_INVALID_ARGUMENT)
      | Some c \<Rightarrow>
          (case KSI_CalendarHashChain_aggregate (digest E) c of
             Ok (h, c) \<Rightarrow> (set_extended info (Some c), Ok h)
           | Err e \<Rightarrow> (info, Err e)
           | Fault \<Rightarrow> (info, Fault)))"

section \<open>Calendar-based verification\<close>

text \<open>The comparison of the right links of two chains.\<close>

function rightLinksLoop :: "KSI_HashChainLink list \<Rightarrow> KSI_HashChainLink list \<Rightarrow> bool" where
  "rightLinksLoop sigLinks extLinks =
     (case (getNextLink sigLinks True, getNextLink extLinks True) of
        (None, None) \<Rightarrow> True
      | (Some (sigRightLink, sigRest), Some (extRightLink, extRest)) \<Rightarrow>
          if \<not> KSI_DataHash_equals (imprint sigRightLink) (imprint extRightLink) then False
          else rightLinksLoop sigRest extRest
      | _ \<Rightarrow> False)"
  by pat_completeness auto
termination
  by (relation "measure (\<lambda>(a, b). length a)") (auto dest: sym [THEN getNextLink_shorter])

declare rightLinksLoop.simps [simp del]

definition KSI_VerificationRule_ExtendedSignatureCalendarChainRightLinksMatch :: "verify_env \<Rightarrow> KSI_VerificationContext Verifier" where
  "KSI_VerificationRule_ExtendedSignatureCalendarChainRightLinksMatch E =
     verification_rule ''KSI_VerificationRule_ExtendedSignatureCalendarChainRightLinksMatch'' KSI_VERIFY_CALCHAIN_ONLINE (\<lambda>info.
       vbind (sig_of info) (\<lambda>info sig.
       vbind (attempt info (KSI_CalendarHashChain_getHashChain (calendarChain sig))) (\<lambda>info sigList.
       vbind (attempt info (KSI_CalendarHashChain_getPublicationTime (calendarChain sig))) (\<lambda>info pubTime.
       vbind (attempt_on (getExtendedCalendarHashChain E info pubTime)) (\<lambda>info extCalHashChain.
       vbind (attempt info (KSI_CalendarHashChain_getHashChain extCalHashChain)) (\<lambda>info extSigList.
       vbind (non_null info sigList (internal KSI_INVALID_ARGUMENT)) (\<lambda>info sigLinks.
       vbind (non_null info extSigList (internal KSI_INVALID_ARGUMENT)) (\<lambda>info extLinks.
       vbind (stop_if info (\<not> rightLinksLoop sigLinks extLinks) (failed KSI_VER_ERR_CAL_4 KSI_VERIFY_CALCHAIN_ONLINE))
         (\<lambda>info _. pass info)))))))))"

definition KSI_VerificationRule_ExtendedSignatureCalendarChainRootHash :: "verify_env \<Rightarrow> KSI_VerificationContext Verifier" where
  "KSI_VerificationRule_ExtendedSignatureCalendarChainRootHash E =
     verification_rule ''KSI_VerificationRule_ExtendedSignatureCalendarChainRootHash'' KSI_VERIFY_CALCHAIN_ONLINE (\<lambda>info.
       vbind (sig_of info) (\<lambda>info sig.
       vbind (attempt info (KSI_CalendarHashChain_getPublicationTime (calendarChain sig))) (\<lambda>info pubTime.
       vbind (attempt_on (getExtendedCalendarHashChain E info pubTime)) (\<lambda>info extCalHashChain.
       vbind (attempt_run (calendar_root_of (digest E) info sig)) (\<lambda>info rootHash.
       vbind (attempt_run (extended_root E info extCalHashChain)) (\<lambda>info extRootHash.
       vbind (stop_if info (\<not> KSI_DataHash_equals rootHash extRootHash) (failed KSI_VER_ERR_CAL_1 KSI_VERIFY_CALCHAIN_ONLINE))
         (\<lambda>info _. pass info)))))))"

text \<open>The publication time of the calendar chain of the signature, or none when there is no such chain: the
  extender then extends to the head of the calendar.\<close>

definition own_publication_time :: "KSI_VerificationContext \<Rightarrow> KSI_Signature \<Rightarrow> KSI_Integer option stepping" where
  "own_publication_time info sig =
     (if calendarChain sig \<noteq> None then attempt info (KSI_CalendarHashChain_getPublicationTime (calendarChain sig))
      else (info, Inr None))"

definition KSI_VerificationRule_ExtendedSignatureCalendarChainInputHash :: "verify_env \<Rightarrow> KSI_VerificationContext Verifier" where
  "KSI_VerificationRule_ExtendedSignatureCalendarChainInputHash E =
     verification_rule ''KSI_VerificationRule_ExtendedSignatureCalendarChainInputHash'' KSI_VERIFY_CALCHAIN_ONLINE (\<lambda>info.
       vbind (sig_of info) (\<lambda>info sig.
       vbind (temp_of info) (\<lambda>info tmp.
       vbind (own_publication_time info sig) (\<lambda>info pubTime.
       vbind (attempt_on (getExtendedCalendarHashChain E info pubTime)) (\<lambda>info extCalHashChain.
       vbind (attempt info (KSI_CalendarHashChain_getInputHash extCalHashChain)) (\<lambda>info calInputHash.
       vbind (attempt_run (initAggregationOutputHash (digest E) info)) (\<lambda>info _.
       vbind (stop_if info (\<not> KSI_DataHash_equals (output_hash info) calInputHash)
                (failed KSI_VER_ERR_CAL_2 KSI_VERIFY_CALCHAIN_ONLINE)) (\<lambda>info _. pass info))))))))"

definition KSI_VerificationRule_ExtendedSignatureCalendarChainAggregationTime :: "verify_env \<Rightarrow> KSI_VerificationContext Verifier" where
  "KSI_VerificationRule_ExtendedSignatureCalendarChainAggregationTime E =
     verification_rule ''KSI_VerificationRule_ExtendedSignatureCalendarChainAggregationTime'' KSI_VERIFY_CALCHAIN_ONLINE (\<lambda>info.
       vbind (sig_of info) (\<lambda>info sig.
       vbind (own_publication_time info sig) (\<lambda>info pubTime.
       vbind (attempt_on (getExtendedCalendarHashChain E info pubTime)) (\<lambda>info extCalHashChain.
       vbind (attempt info (element_at (aggregationChainList sig) 0)) (\<lambda>info aggregationChain.
       vbind (calendar_time info extCalHashChain) (\<lambda>info extCalTime.
       vbind (stop_if info (KSI_Integer_compare (aggregationTime aggregationChain) extCalTime \<noteq> 0)
                (failed KSI_VER_ERR_CAL_3 KSI_VERIFY_CALCHAIN_ONLINE)) (\<lambda>info _. pass info)))))))"

section \<open>Algorithms of the calendar chain\<close>

definition signatureCalendarChainHashAlgorithmDeprecatedAtPubTime :: "u64 \<Rightarrow> string \<Rightarrow> KSI_VerificationContext Verifier" where
  "signatureCalendarChainHashAlgorithmDeprecatedAtPubTime st name =
     verification_rule name st (\<lambda>info.
       vbind (sig_of info) (\<lambda>info sig.
       vbind (attempt info (calendarChainAggrAlgorithmState (calendarChain sig) wasDeprecatedAt)) (\<lambda>info isDeprecated.
       vbind (stop_if info isDeprecated inconclusive) (\<lambda>info _. pass info))))"

definition KSI_VerificationRule_CalendarHashChainHashAlgorithmDeprecatedAtPubTime :: "KSI_VerificationContext Verifier" where
  "KSI_VerificationRule_CalendarHashChainHashAlgorithmDeprecatedAtPubTime =
     signatureCalendarChainHashAlgorithmDeprecatedAtPubTime KSI_VERIFY_NONE
       ''KSI_VerificationRule_CalendarHashChainHashAlgorithmDeprecatedAtPubTime''"

definition KSI_VerificationRule_PublicationsFileSignatureCalendarChainHashAlgorithmDeprecatedAtPubTime :: "KSI_VerificationContext Verifier" where
  "KSI_VerificationRule_PublicationsFileSignatureCalendarChainHashAlgorithmDeprecatedAtPubTime =
     signatureCalendarChainHashAlgorithmDeprecatedAtPubTime KSI_VERIFY_PUBLICATION_WITH_PUBFILE
       ''KSI_VerificationRule_PublicationsFileSignatureCalendarChainHashAlgorithmDeprecatedAtPubTime''"

definition KSI_VerificationRule_UserProvidedPublicationSignatureCalendarChainHashAlgorithmDeprecatedAtPubTime :: "KSI_VerificationContext Verifier" where
  "KSI_VerificationRule_UserProvidedPublicationSignatureCalendarChainHashAlgorithmDeprecatedAtPubTime =
     signatureCalendarChainHashAlgorithmDeprecatedAtPubTime KSI_VERIFY_PUBLICATION_WITH_PUBSTRING
       ''KSI_VerificationRule_UserProvidedPublicationSignatureCalendarChainHashAlgorithmDeprecatedAtPubTime''"

definition extendingPermittedVerification :: "u64 \<Rightarrow> string \<Rightarrow> KSI_VerificationContext Verifier" where
  "extendingPermittedVerification st name =
     verification_rule name st (\<lambda>info.
       vbind (sig_of info) (\<lambda>info sig.
       vbind (stop_if info (extendingAllowed info = 0) inconclusive) (\<lambda>info _. pass info)))"

definition KSI_VerificationRule_PublicationsFileExtendingPermittedVerification :: "KSI_VerificationContext Verifier" where
  "KSI_VerificationRule_PublicationsFileExtendingPermittedVerification =
     extendingPermittedVerification KSI_VERIFY_PUBLICATION_WITH_PUBFILE ''KSI_VerificationRule_PublicationsFileExtendingPermittedVerification''"

definition KSI_VerificationRule_UserProvidedPublicationExtendingPermittedVerification :: "KSI_VerificationContext Verifier" where
  "KSI_VerificationRule_UserProvidedPublicationExtendingPermittedVerification =
     extendingPermittedVerification KSI_VERIFY_PUBLICATION_WITH_PUBSTRING ''KSI_VerificationRule_UserProvidedPublicationExtendingPermittedVerification''"

section \<open>The publications file\<close>

definition initPublicationsFile :: "verify_env \<Rightarrow> KSI_VerificationContext \<Rightarrow> KSI_VerificationContext \<times> unit ksi_result" where
  "initPublicationsFile E info =
     (case tempData info of
        None \<Rightarrow> (info, Inl KSI_INVALID_STATE)
      | Some tmp \<Rightarrow>
          (case userPublicationsFile info of
             Some pf \<Rightarrow> (info\<lparr>tempData := Some (tmp\<lparr>tmp_publicationsFile := Some pf\<rparr>)\<rparr>, Inr ())
           | None \<Rightarrow>
               (case receivePublicationsFile E (netCalls info) of
                  Inl e \<Rightarrow> (next_call info, Inl e)
                | Inr pf \<Rightarrow>
                    (case verifyPublicationsFile E pf of
                       Some e \<Rightarrow> (next_call info, Inl e)
                     | None \<Rightarrow> ((next_call info)\<lparr>tempData := Some (tmp\<lparr>tmp_publicationsFile := Some pf\<rparr>)\<rparr>, Inr ())))))"

definition publicationsFile_of :: "KSI_VerificationContext \<Rightarrow> KSI_PublicationsFile option" where
  "publicationsFile_of info = (case tempData info of None \<Rightarrow> None | Some tmp \<Rightarrow> tmp_publicationsFile tmp)"

section \<open>Key-based verification\<close>

text \<open>The part the three rules on the certificate have in common: the authentication record, the identifier of its
  certificate and the certificate with that identifier.\<close>

definition auth_certificate :: "verify_env \<Rightarrow> KSI_VerificationContext \<Rightarrow> (KSI_Signature \<times> KSI_CalendarAuthRec \<times> KSI_PKICertificate option) stepping" where
  "auth_certificate E info =
     vbind (sig_of info) (\<lambda>info sig.
     vbind (temp_of info) (\<lambda>info tmp.
     vbind (non_null info (calendarAuthRec sig) (internal KSI_INVALID_ARGUMENT)) (\<lambda>info rec.
     vbind (attempt info (getter sd_certId (signatureData rec))) (\<lambda>info certId.
     vbind (non_null info certId (internal KSI_INVALID_FORMAT)) (\<lambda>info certId.
     vbind (attempt_on (initPublicationsFile E info)) (\<lambda>info _.
     vbind (attempt info (KSI_PublicationsFile_getPKICertificateById (publicationsFile_of info) (Some certId))) (\<lambda>info cert.
       (info, Inr (sig, rec, cert)))))))))"

definition KSI_VerificationRule_CertificateExistence :: "verify_env \<Rightarrow> KSI_VerificationContext Verifier" where
  "KSI_VerificationRule_CertificateExistence E =
     verification_rule ''KSI_VerificationRule_CertificateExistence'' KSI_VERIFY_CALAUTHREC_WITH_SIGNATURE (\<lambda>info.
       vbind (auth_certificate E info) (\<lambda>info (sig, rec, cert).
       vbind (stop_if info (cert = None) (failed KSI_VER_ERR_KEY_1 KSI_VERIFY_CALAUTHREC_WITH_SIGNATURE)) (\<lambda>info _. pass info)))"

definition KSI_VerificationRule_CertificateValidity :: "verify_env \<Rightarrow> KSI_VerificationContext Verifier" where
  "KSI_VerificationRule_CertificateValidity E =
     verification_rule ''KSI_VerificationRule_CertificateValidity'' KSI_VERIFY_CALAUTHREC_WITH_SIGNATURE (\<lambda>info.
       vbind (auth_certificate E info) (\<lambda>info (sig, rec, cert).
       vbind (non_null info cert (internal KSI_INVALID_FORMAT)) (\<lambda>info cert.
       vbind (attempt info (validityNotBefore E cert)) (\<lambda>info notBefore.
       vbind (attempt info (validityNotAfter E cert)) (\<lambda>info notAfter.
       vbind (calendar_time info (calendarChain sig)) (\<lambda>info calTime.
       vbind (stop_if info (KSI_Integer_getUInt64 calTime < notBefore \<or> notAfter < KSI_Integer_getUInt64 calTime)
                (failed KSI_VER_ERR_KEY_3 KSI_VERIFY_CALAUTHREC_WITH_SIGNATURE)) (\<lambda>info _. pass info)))))))"

text \<open>What is signed is the serialized publication data of the record.\<close>

definition KSI_VerificationRule_CalendarAuthenticationRecordSignatureVerification :: "verify_env \<Rightarrow> KSI_VerificationContext Verifier" where
  "KSI_VerificationRule_CalendarAuthenticationRecordSignatureVerification E =
     verification_rule ''KSI_VerificationRule_CalendarAuthenticationRecordSignatureVerification'' KSI_VERIFY_CALAUTHREC_WITH_SIGNATURE (\<lambda>info.
       vbind (auth_certificate E info) (\<lambda>info (sig, rec, cert).
       vbind (non_null info cert (internal KSI_INVALID_FORMAT)) (\<lambda>info cert.
       vbind (attempt info (getter signatureValue (signatureData rec))) (\<lambda>info sigValue.
       vbind (attempt info (KSI_OctetString_extract sigValue)) (\<lambda>info rawSignature.
       vbind (attempt info (getter pd_baseTlv (pubData rec))) (\<lambda>info baseTlv.
       vbind (non_null info baseTlv (internal KSI_INVALID_ARGUMENT)) (\<lambda>info baseTlv.
       vbind (attempt info (KSI_TLV_serialize baseTlv)) (\<lambda>info rawData.
       vbind (attempt info (getter sig_type (signatureData rec))) (\<lambda>info sigtype.
       vbind (stop_if info (verifyRawSignature E rawData sigtype rawSignature cert \<noteq> None)
                (failed KSI_VER_ERR_KEY_2 KSI_VERIFY_CALAUTHREC_WITH_SIGNATURE)) (\<lambda>info _. pass info))))))))))"

section \<open>Verification with a publications file\<close>

definition signature_publication :: "KSI_VerificationContext \<Rightarrow> (KSI_Signature \<times> KSI_PublicationRecord) stepping" where
  "signature_publication info =
     vbind (sig_of info) (\<lambda>info sig.
     vbind (temp_of info) (\<lambda>info tmp.
     vbind (non_null info (publication sig) (internal KSI_INVALID_FORMAT)) (\<lambda>info pub. (info, Inr (sig, pub)))))"

text \<open>The record of the publications file with the publication time of the signature.\<close>

definition same_time_publication :: "verify_env \<Rightarrow> KSI_VerificationContext \<Rightarrow> KSI_PublicationRecord option stepping" where
  "same_time_publication E info =
     vbind (signature_publication info) (\<lambda>info (sig, pub).
     vbind (attempt_on (initPublicationsFile E info)) (\<lambda>info _.
     vbind (attempt info (KSI_PublicationData_getTime (publishedData pub))) (\<lambda>info sigPubTime.
     vbind (non_null info sigPubTime (internal KSI_INVALID_FORMAT)) (\<lambda>info sigPubTime.
       attempt info (KSI_PublicationsFile_findPublicationByTime (publicationsFile_of info) (Some sigPubTime))))))"

definition KSI_VerificationRule_PublicationsFileContainsSignaturePublication :: "verify_env \<Rightarrow> KSI_VerificationContext Verifier" where
  "KSI_VerificationRule_PublicationsFileContainsSignaturePublication E =
     verification_rule ''KSI_VerificationRule_PublicationsFileContainsSignaturePublication'' KSI_VERIFY_PUBLICATION_WITH_PUBFILE (\<lambda>info.
       vbind (same_time_publication E info) (\<lambda>info pubRec.
       vbind (stop_if info (pubRec = None) not_applicable) (\<lambda>info _. pass info)))"

definition KSI_VerificationRule_PublicationsFileDoesNotContainSignaturePublication :: "verify_env \<Rightarrow> KSI_VerificationContext Verifier" where
  "KSI_VerificationRule_PublicationsFileDoesNotContainSignaturePublication E =
     verification_rule ''KSI_VerificationRule_PublicationsFileDoesNotContainSignaturePublication'' KSI_VERIFY_PUBLICATION_WITH_PUBFILE (\<lambda>info.
       vbind (same_time_publication E info) (\<lambda>info pubRec.
       vbind (stop_if info (pubRec \<noteq> None) not_applicable) (\<lambda>info _. pass info)))"

definition KSI_VerificationRule_PublicationsFileSignaturePublicationVerification :: "verify_env \<Rightarrow> KSI_VerificationContext Verifier" where
  "KSI_VerificationRule_PublicationsFileSignaturePublicationVerification E =
     verification_rule ''KSI_VerificationRule_PublicationsFileSignaturePublicationVerification'' KSI_VERIFY_PUBLICATION_WITH_PUBFILE (\<lambda>info.
       vbind (signature_publication info) (\<lambda>info (sig, pub).
       vbind (attempt_on (initPublicationsFile E info)) (\<lambda>info _.
       vbind (attempt info (KSI_PublicationsFile_findPublication (publicationsFile_of info) (Some pub))) (\<lambda>info pubRec.
       vbind (stop_if info (pubRec = None) (failed KSI_VER_ERR_PUB_5 KSI_VERIFY_PUBLICATION_WITH_PUBFILE)) (\<lambda>info _. pass info)))))"

text \<open>The nearest publication not before the signing time.\<close>

definition nearest_publication_of :: "verify_env \<Rightarrow> KSI_VerificationContext \<Rightarrow> KSI_PublicationRecord option stepping" where
  "nearest_publication_of E info =
     vbind (sig_of info) (\<lambda>info sig.
     vbind (temp_of info) (\<lambda>info tmp.
     vbind (attempt info (KSI_Signature_getSigningTime sig)) (\<lambda>info aggrTime.
     vbind (attempt_on (initPublicationsFile E info)) (\<lambda>info _.
       attempt info (KSI_PublicationsFile_getNearestPublication (publicationsFile_of info) aggrTime)))))"

definition KSI_VerificationRule_PublicationsFileContainsSuitablePublication :: "verify_env \<Rightarrow> KSI_VerificationContext Verifier" where
  "KSI_VerificationRule_PublicationsFileContainsSuitablePublication E =
     verification_rule ''KSI_VerificationRule_PublicationsFileContainsSuitablePublication'' KSI_VERIFY_PUBLICATION_WITH_PUBFILE (\<lambda>info.
       vbind (nearest_publication_of E info) (\<lambda>info pubRec.
       vbind (stop_if info (pubRec = None) inconclusive) (\<lambda>info _. pass info)))"

text \<open>The extension to the nearest publication: its published data and the chain of the extender.\<close>

definition extend_to_nearest ::
    "verify_env \<Rightarrow> KSI_VerificationContext \<Rightarrow> (KSI_PublicationData option \<times> KSI_Integer option \<times> KSI_CalendarHashChain option) stepping" where
  "extend_to_nearest E info =
     vbind (nearest_publication_of E info) (\<lambda>info pubRec.
     vbind (non_null info pubRec (internal KSI_INVALID_FORMAT)) (\<lambda>info pubRec.
     vbind (attempt info (KSI_PublicationData_getTime (publishedData pubRec))) (\<lambda>info pubDataPubTime.
     vbind (attempt_on (getExtendedCalendarHashChain E info pubDataPubTime)) (\<lambda>info extCalHashChain.
       (info, Inr (publishedData pubRec, pubDataPubTime, extCalHashChain))))))"

text \<open>The getters of the imprint and the time fail for the same records, with the same error.\<close>

definition KSI_VerificationRule_PublicationsFileExtendedCalendarChainHashAlgorithmDeprecatedAtPubTime :: "verify_env \<Rightarrow> KSI_VerificationContext Verifier" where
  "KSI_VerificationRule_PublicationsFileExtendedCalendarChainHashAlgorithmDeprecatedAtPubTime E =
     verification_rule ''KSI_VerificationRule_PublicationsFileExtendedCalendarChainHashAlgorithmDeprecatedAtPubTime''
       KSI_VERIFY_PUBLICATION_WITH_PUBFILE (\<lambda>info.
       vbind (extend_to_nearest E info) (\<lambda>info (pd, pubDataPubTime, extCalHashChain).
       vbind (attempt info (calendarChainAggrAlgorithmState extCalHashChain wasDeprecatedAt)) (\<lambda>info isTrue.
       vbind (stop_if info isTrue (Ended KSI_VER_RES_NA KSI_VER_ERR_GEN_2 KSI_VERIFY_PUBLICATION_WITH_PUBFILE None)) (\<lambda>info _. pass info))))"

definition KSI_VerificationRule_PublicationsFilePublicationHashMatchesExtenderResponse :: "verify_env \<Rightarrow> KSI_VerificationContext Verifier" where
  "KSI_VerificationRule_PublicationsFilePublicationHashMatchesExtenderResponse E =
     verification_rule ''KSI_VerificationRule_PublicationsFilePublicationHashMatchesExtenderResponse'' KSI_VERIFY_PUBLICATION_WITH_PUBFILE (\<lambda>info.
       vbind (extend_to_nearest E info) (\<lambda>info (pd, pubDataPubTime, extCalHashChain).
       vbind (attempt info (KSI_PublicationData_getImprint pd)) (\<lambda>info pubDataHash.
       vbind (attempt_run (extended_root E info extCalHashChain)) (\<lambda>info extCalRootHash.
       vbind (stop_if info (\<not> KSI_DataHash_equals extCalRootHash pubDataHash)
                (failed KSI_VER_ERR_PUB_1 KSI_VERIFY_PUBLICATION_WITH_PUBFILE)) (\<lambda>info _. pass info)))))"

definition KSI_VerificationRule_PublicationsFilePublicationTimeMatchesExtenderResponse :: "verify_env \<Rightarrow> KSI_VerificationContext Verifier" where
  "KSI_VerificationRule_PublicationsFilePublicationTimeMatchesExtenderResponse E =
     verification_rule ''KSI_VerificationRule_PublicationsFilePublicationTimeMatchesExtenderResponse'' KSI_VERIFY_PUBLICATION_WITH_PUBFILE (\<lambda>info.
       vbind (extend_to_nearest E info) (\<lambda>info (pd, pubDataPubTime, extCalHashChain).
       vbind (attempt info (KSI_CalendarHashChain_getPublicationTime extCalHashChain)) (\<lambda>info extPubTime.
       vbind (stop_if info (\<not> KSI_Integer_equals pubDataPubTime extPubTime)
                (failed KSI_VER_ERR_PUB_2 KSI_VERIFY_PUBLICATION_WITH_PUBFILE)) (\<lambda>info _. pass info))))"

definition KSI_VerificationRule_PublicationsFileExtendedSignatureInputHash :: "verify_env \<Rightarrow> KSI_VerificationContext Verifier" where
  "KSI_VerificationRule_PublicationsFileExtendedSignatureInputHash E =
     verification_rule ''KSI_VerificationRule_PublicationsFileExtendedSignatureInputHash'' KSI_VERIFY_PUBLICATION_WITH_PUBFILE (\<lambda>info.
       vbind (extend_to_nearest E info) (\<lambda>info (pd, pubDataPubTime, extCalHashChain).
       vbind (attempt info (KSI_CalendarHashChain_getInputHash extCalHashChain)) (\<lambda>info calInputHash.
       vbind (attempt_run (initAggregationOutputHash (digest E) info)) (\<lambda>info _.
       vbind (stop_if info (\<not> KSI_DataHash_equals (output_hash info) calInputHash)
                (failed KSI_VER_ERR_PUB_3 KSI_VERIFY_PUBLICATION_WITH_PUBFILE)) (\<lambda>info _. pass info)))))"

section \<open>Verification with a publication of the user\<close>

definition KSI_VerificationRule_UserProvidedPublicationExistence :: "KSI_VerificationContext Verifier" where
  "KSI_VerificationRule_UserProvidedPublicationExistence =
     verification_rule ''KSI_VerificationRule_UserProvidedPublicationExistence'' KSI_VERIFY_NONE (\<lambda>info.
       vbind (sig_of info) (\<lambda>info sig.
       vbind (stop_if info (case userPublication info of None \<Rightarrow> True | Some pd \<Rightarrow> pd_time pd = None \<or> pd_imprint pd = None) not_applicable)
         (\<lambda>info _. pass info)))"

definition KSI_VerificationRule_RequireNoUserProvidedPublication :: "KSI_VerificationContext Verifier" where
  "KSI_VerificationRule_RequireNoUserProvidedPublication =
     verification_rule ''KSI_VerificationRule_RequireNoUserProvidedPublication'' KSI_VERIFY_NONE (\<lambda>info.
       vbind (sig_of info) (\<lambda>info sig.
       vbind (stop_if info (userPublication info \<noteq> None) inconclusive) (\<lambda>info _. pass info)))"

definition KSI_VerificationRule_UserProvidedPublicationTimeVerification :: "KSI_VerificationContext Verifier" where
  "KSI_VerificationRule_UserProvidedPublicationTimeVerification =
     verification_rule ''KSI_VerificationRule_UserProvidedPublicationTimeVerification'' KSI_VERIFY_PUBLICATION_WITH_PUBSTRING (\<lambda>info.
       vbind (sig_of info) (\<lambda>info sig.
       vbind (non_null info (userPublication info) (internal KSI_INVALID_ARGUMENT)) (\<lambda>info usr.
       vbind (non_null info (publication sig) (internal KSI_INVALID_FORMAT)) (\<lambda>info pub.
       vbind (attempt info (KSI_PublicationData_getTime (publishedData pub))) (\<lambda>info sigPubTime.
       vbind (non_null info sigPubTime (internal KSI_INVALID_FORMAT)) (\<lambda>info sigPubTime.
       vbind (non_null info (pd_time usr) (internal KSI_INVALID_VERIFICATION_INPUT)) (\<lambda>info usrPubTime.
       vbind (stop_if info (KSI_Integer_compare (Some sigPubTime) (Some usrPubTime) \<noteq> 0) inconclusive) (\<lambda>info _. pass info))))))))"

definition KSI_VerificationRule_UserProvidedPublicationTimeDoesNotSuit :: "KSI_VerificationContext Verifier" where
  "KSI_VerificationRule_UserProvidedPublicationTimeDoesNotSuit =
     verification_rule ''KSI_VerificationRule_UserProvidedPublicationTimeDoesNotSuit'' KSI_VERIFY_PUBLICATION_WITH_PUBSTRING (\<lambda>info.
       vbind (sig_of info) (\<lambda>info sig.
       vbind (non_null info (userPublication info) (internal KSI_INVALID_ARGUMENT)) (\<lambda>info usr.
         (case publication sig of
            None \<Rightarrow> pass info
          | Some pub \<Rightarrow>
              vbind (attempt info (KSI_PublicationData_getTime (publishedData pub))) (\<lambda>info sigPubTime.
                if sigPubTime = None then pass info
                else if pd_time usr = None then pass info
                else if KSI_Integer_compare sigPubTime (pd_time usr) \<noteq> 0 then pass info
                else (info, Inl not_applicable))))))"

definition KSI_VerificationRule_UserProvidedPublicationHashVerification :: "KSI_VerificationContext Verifier" where
  "KSI_VerificationRule_UserProvidedPublicationHashVerification =
     verification_rule ''KSI_VerificationRule_UserProvidedPublicationHashVerification'' KSI_VERIFY_PUBLICATION_WITH_PUBSTRING (\<lambda>info.
       vbind (sig_of info) (\<lambda>info sig.
       vbind (non_null info (userPublication info) (internal KSI_INVALID_ARGUMENT)) (\<lambda>info usr.
       vbind (non_null info (publication sig) (internal KSI_INVALID_FORMAT)) (\<lambda>info pub.
       vbind (attempt info (KSI_PublicationData_getImprint (publishedData pub))) (\<lambda>info sigPubHash.
       vbind (non_null info sigPubHash (internal KSI_INVALID_FORMAT)) (\<lambda>info sigPubHash.
       vbind (non_null info (pd_imprint usr) (internal KSI_INVALID_VERIFICATION_INPUT)) (\<lambda>info usrPubHash.
       vbind (stop_if info (\<not> KSI_DataHash_equals (Some sigPubHash) (Some usrPubHash))
                (failed KSI_VER_ERR_PUB_4 KSI_VERIFY_PUBLICATION_WITH_PUBSTRING)) (\<lambda>info _. pass info))))))))"

definition KSI_VerificationRule_UserProvidedPublicationCreationTimeVerification :: "KSI_VerificationContext Verifier" where
  "KSI_VerificationRule_UserProvidedPublicationCreationTimeVerification =
     verification_rule ''KSI_VerificationRule_UserProvidedPublicationCreationTimeVerification'' KSI_VERIFY_PUBLICATION_WITH_PUBSTRING (\<lambda>info.
       vbind (sig_of info) (\<lambda>info sig.
       vbind (non_null info (userPublication info) (internal KSI_INVALID_ARGUMENT)) (\<lambda>info usr.
       vbind (attempt info (extension_start sig)) (\<lambda>info aggrTime.
       vbind (non_null info (pd_time usr) (internal KSI_INVALID_VERIFICATION_INPUT)) (\<lambda>info usrPubDataTime.
       vbind (stop_if info (KSI_Integer_compare aggrTime (Some usrPubDataTime) \<noteq> -1) inconclusive) (\<lambda>info _. pass info))))))"

text \<open>The extension to the publication of the user.\<close>

definition extend_to_user ::
    "verify_env \<Rightarrow> KSI_VerificationContext \<Rightarrow> (KSI_Integer \<times> KSI_CalendarHashChain option) stepping" where
  "extend_to_user E info =
     vbind (attempt info (KSI_PublicationData_getTime (userPublication info))) (\<lambda>info usrPubTime.
     vbind (non_null info usrPubTime (internal KSI_INVALID_VERIFICATION_INPUT)) (\<lambda>info usrPubTime.
     vbind (attempt_on (getExtendedCalendarHashChain E info (Some usrPubTime))) (\<lambda>info extCalHashChain.
       (info, Inr (usrPubTime, extCalHashChain)))))"

definition KSI_VerificationRule_UserProvidedPublicationExtendedCalendarChainHashAlgorithmDeprecatedAtPubTime :: "verify_env \<Rightarrow> KSI_VerificationContext Verifier" where
  "KSI_VerificationRule_UserProvidedPublicationExtendedCalendarChainHashAlgorithmDeprecatedAtPubTime E =
     verification_rule ''KSI_VerificationRule_UserProvidedPublicationExtendedCalendarChainHashAlgorithmDeprecatedAtPubTime''
       KSI_VERIFY_PUBLICATION_WITH_PUBSTRING (\<lambda>info.
       vbind (sig_of info) (\<lambda>info sig.
       vbind (extend_to_user E info) (\<lambda>info (usrPubTime, extCalHashChain).
       vbind (attempt info (calendarChainAggrAlgorithmState extCalHashChain wasDeprecatedAt)) (\<lambda>info isTrue.
       vbind (stop_if info isTrue (Ended KSI_VER_RES_NA KSI_VER_ERR_GEN_2 KSI_VERIFY_PUBLICATION_WITH_PUBSTRING None)) (\<lambda>info _. pass info)))))"

definition KSI_VerificationRule_UserProvidedPublicationHashMatchesExtendedResponse :: "verify_env \<Rightarrow> KSI_VerificationContext Verifier" where
  "KSI_VerificationRule_UserProvidedPublicationHashMatchesExtendedResponse E =
     verification_rule ''KSI_VerificationRule_UserProvidedPublicationHashMatchesExtendedResponse'' KSI_VERIFY_PUBLICATION_WITH_PUBSTRING (\<lambda>info.
       vbind (sig_of info) (\<lambda>info sig.
       vbind (extend_to_user E info) (\<lambda>info (usrPubTime, extCalHashChain).
       vbind (attempt_run (extended_root E info extCalHashChain)) (\<lambda>info extRootHash.
       vbind (attempt info (KSI_PublicationData_getImprint (userPublication info))) (\<lambda>info usrPubDataHash.
       vbind (stop_if info (\<not> KSI_DataHash_equals extRootHash usrPubDataHash)
                (failed KSI_VER_ERR_PUB_1 KSI_VERIFY_PUBLICATION_WITH_PUBSTRING)) (\<lambda>info _. pass info))))))"

definition KSI_VerificationRule_UserProvidedPublicationTimeMatchesExtendedResponse :: "verify_env \<Rightarrow> KSI_VerificationContext Verifier" where
  "KSI_VerificationRule_UserProvidedPublicationTimeMatchesExtendedResponse E =
     verification_rule ''KSI_VerificationRule_UserProvidedPublicationTimeMatchesExtendedResponse'' KSI_VERIFY_PUBLICATION_WITH_PUBSTRING (\<lambda>info.
       vbind (sig_of info) (\<lambda>info sig.
       vbind (extend_to_user E info) (\<lambda>info (usrPubTime, extCalHashChain).
       vbind (attempt info (KSI_CalendarHashChain_getPublicationTime extCalHashChain)) (\<lambda>info extPubTime.
       vbind (stop_if info (\<not> KSI_Integer_equals (Some usrPubTime) extPubTime)
                (failed KSI_VER_ERR_PUB_2 KSI_VERIFY_PUBLICATION_WITH_PUBSTRING)) (\<lambda>info _.
       vbind (attempt info (KSI_Signature_getSigningTime sig)) (\<lambda>info signingTime.
       vbind (attempt info (KSI_CalendarHashChain_getAggregationTime extCalHashChain)) (\<lambda>info extAggrTime.
       vbind (stop_if info (\<not> KSI_Integer_equals signingTime extAggrTime)
                (failed KSI_VER_ERR_PUB_2 KSI_VERIFY_PUBLICATION_WITH_PUBSTRING)) (\<lambda>info _. pass info))))))))"

definition KSI_VerificationRule_UserProvidedPublicationExtendedSignatureInputHash :: "verify_env \<Rightarrow> KSI_VerificationContext Verifier" where
  "KSI_VerificationRule_UserProvidedPublicationExtendedSignatureInputHash E =
     verification_rule ''KSI_VerificationRule_UserProvidedPublicationExtendedSignatureInputHash'' KSI_VERIFY_PUBLICATION_WITH_PUBSTRING (\<lambda>info.
       vbind (sig_of info) (\<lambda>info sig.
       vbind (temp_of info) (\<lambda>info tmp.
       vbind (extend_to_user E info) (\<lambda>info (usrPubTime, extCalHashChain).
       vbind (attempt info (KSI_CalendarHashChain_getInputHash extCalHashChain)) (\<lambda>info calInputHash.
       vbind (attempt_run (initAggregationOutputHash (digest E) info)) (\<lambda>info _.
       vbind (stop_if info (\<not> KSI_DataHash_equals (output_hash info) calInputHash)
                (failed KSI_VER_ERR_PUB_3 KSI_VERIFY_PUBLICATION_WITH_PUBSTRING)) (\<lambda>info _. pass info)))))))"

end
