(* ===== verification/RuleFacts.thy ===== *)
theory RuleFacts
  imports OnlineRules
begin

text \<open>
  What the rules of the internal policy decide: for each rule, the condition on the signature under which it
  passes, with the context it leaves behind.  The conditions are stated over the contents of the signature, not
  over the loops of \<^verbatim>\<open>src/src/ksi/verification_rule.c\<close>.
\<close>

section \<open>Metadata\<close>

definition nested_link :: "KSI_HashChainLink \<Rightarrow> KSI_HashChainLink" where
  "nested_link link = link\<lparr>metaData := map_option nested_form (metaData link)\<rparr>"

definition nested_chain :: "KSI_AggregationHashChain \<Rightarrow> KSI_AggregationHashChain" where
  "nested_chain c = c\<lparr>chain := map_option (map nested_link) (chain c)\<rparr>"

definition metadata_ok :: "KSI_AggregationHashChain \<Rightarrow> bool" where
  "metadata_ok c \<longleftrightarrow> (\<forall>link\<in>set (elements (chain c)). \<forall>md. metaData link = Some md \<longrightarrow> metaData_verify md = Inr ())"

lemma nested_link_None: "metaData link = None \<Longrightarrow> nested_link link = link"
  by (cases link) (simp add: nested_link_def)

lemma nested_link_simps [simp]: "isLeft (nested_link link) = isLeft link"
  by (simp add: nested_link_def)

lemma nested_chain_simps [simp]:
  "aggregationTime (nested_chain c) = aggregationTime c" "chainIndex (nested_chain c) = chainIndex c"
  "inputHash (nested_chain c) = inputHash c" "aggrHashId (nested_chain c) = aggrHashId c"
  "outputHash (nested_chain c) = outputHash c" "released (nested_chain c) = released c"
  by (simp_all add: nested_chain_def)

lemma metaData_verify_bad: "metaData_verify md \<noteq> Inl (Ended KSI_VER_RES_OK vec s None)"
  by (auto simp: metaData_verify_def Let_def split: sum.splits option.splits if_splits prod.splits)

lemma metaDataLinkLoop_eq:
  "if \<forall>link\<in>set ls. \<forall>md. metaData link = Some md \<longrightarrow> metaData_verify md = Inr ()
   then metaDataLinkLoop ls = (map nested_link ls, Inr ())
   else \<exists>ls' md e. metaDataLinkLoop ls = (ls', Inl e) \<and> metaData_verify md = Inl e"
proof (induction ls)
  case (Cons l ls)
  show ?case
  proof (cases "metaData l")
    case None
    then show ?thesis using Cons by (auto simp: nested_link_None split: if_splits)
  next
    case (Some md)
    then show ?thesis using Cons
      by (cases "metaData_verify md") (auto simp: nested_link_def Let_def split: if_splits)
  qed
qed simp

lemma metaDataChainLoop_eq:
  "if list_all metadata_ok cs then metaDataChainLoop cs = (map nested_chain cs, Inr ())
   else \<exists>cs' md e. metaDataChainLoop cs = (cs', Inl e) \<and> metaData_verify md = Inl e"
proof (induction cs)
  case (Cons c cs)
  show ?case
  proof (cases "metadata_ok c")
    case False
    then obtain ls md e where "metaDataLinkLoop (elements (chain c)) = (ls, Inl e)" "metaData_verify md = Inl e"
      using metaDataLinkLoop_eq [of "elements (chain c)"] by (auto simp: metadata_ok_def split: if_splits)
    then show ?thesis using False by (auto simp: Let_def)
  next
    case True
    then have "metaDataLinkLoop (elements (chain c)) = (map nested_link (elements (chain c)), Inr ())"
      using metaDataLinkLoop_eq [of "elements (chain c)"] by (simp add: metadata_ok_def)
    moreover have "c\<lparr>chain := map_option (\<lambda>_. map nested_link (elements (chain c))) (chain c)\<rparr> = nested_chain c"
      by (cases "chain c") (simp_all add: nested_chain_def)
    ultimately show ?thesis using Cons True by (auto simp: Let_def split: if_splits)
  qed
qed simp

lemma MetaData_passes:
  "passes KSI_VerificationRule_AggregationChainMetaDataVerification c c' \<longleftrightarrow>
     (\<exists>sig. signature c = Some sig \<and> list_all metadata_ok (elements (aggregationChainList sig))
        \<and> c' = set_chains c (map nested_chain (elements (aggregationChainList sig))))"
proof (cases "signature c")
  case (Some sig)
  then show ?thesis using metaDataChainLoop_eq [of "elements (aggregationChainList sig)"] metaData_verify_bad
    by (auto simp: KSI_VerificationRule_AggregationChainMetaDataVerification_def decides_rule sig_of_def non_null_def split: if_splits)
qed (auto simp: KSI_VerificationRule_AggregationChainMetaDataVerification_def decides_rule step_Inr step_Inl)

section \<open>Aggregation\<close>

text \<open>Two chain objects with the same contents, up to the result the object keeps.\<close>

definition same_chain :: "KSI_AggregationHashChain \<Rightarrow> KSI_AggregationHashChain \<Rightarrow> bool" where
  "same_chain a b \<longleftrightarrow> aggregationTime b = aggregationTime a \<and> chainIndex b = chainIndex a \<and> inputHash b = inputHash a
     \<and> aggrHashId b = aggrHashId a \<and> chain b = chain a"

text \<open>A chain object that keeps no result yet, and the chains joined: each starts with the hash value and the level
  the previous one has ended with.\<close>

definition fresh_chain :: "KSI_AggregationHashChain \<Rightarrow> bool" where
  "fresh_chain c \<longleftrightarrow> outputHash c = None \<and> \<not> released c"

inductive joined ::
    "(int \<Rightarrow> bytes \<Rightarrow> bytes) \<Rightarrow> KSI_AggregationHashChain list \<Rightarrow> int \<Rightarrow> KSI_DataHash option \<Rightarrow> KSI_DataHash option \<Rightarrow> bool" for D where
  joined_Nil: "joined D [] lvl h h"
| joined_Cons: "h = None \<or> h = inputHash c \<Longrightarrow> 0 \<le> lvl \<Longrightarrow> lvl \<le> 0xff \<Longrightarrow> aggrHashId c = Some a \<Longrightarrow>
     KSI_HashChain_aggregate D (chain c) (inputHash c) lvl (to_int a) = Ok (lvl', h') \<Longrightarrow>
     joined D cs lvl' h' r \<Longrightarrow> joined D (c # cs) lvl h r"

inductive_simps joined_Nil_iff [simp]: "joined D [] lvl h r"
inductive_simps joined_Cons_iff: "joined D (c # cs) lvl h r"

lemma aggregate_fresh:
  assumes "fresh_chain c"
  shows "(\<exists>c'. KSI_AggregationHashChain_aggregate D c lvl = (Ok (lvl', h), c')) \<longleftrightarrow>
     0 \<le> lvl \<and> lvl \<le> 0xff \<and> (\<exists>a. aggrHashId c = Some a \<and> KSI_HashChain_aggregate D (chain c) (inputHash c) lvl (to_int a) = Ok (lvl', h))"
proof (cases "lvl < 0 \<or> lvl > 0xff")
  case False
  have agg: "chain c \<noteq> None \<and> inputHash c \<noteq> None" if "KSI_HashChain_aggregate D (chain c) (inputHash c) lvl a = Ok x" for a x
    using that by (auto simp: KSI_HashChain_aggregate_def aggregateChain_def split: option.splits)
  have "\<not> (outputHash c \<noteq> None \<and> lvl = inputLevel c)" "\<not> released c" using assms by (simp_all add: fresh_chain_def)
  from aggregate_computes [OF this(1) False this(2), of D] show ?thesis using False agg
    by (cases "aggrHashId c") (auto simp: KSI_Integer_getUInt64_def split: run.splits)
qed (auto simp: KSI_AggregationHashChain_aggregate_def)

lemma aggregate_same_chain: "KSI_AggregationHashChain_aggregate D c lvl = (r, c') \<Longrightarrow> same_chain c c'"
  by (auto simp: KSI_AggregationHashChain_aggregate_def same_chain_def Let_def split: if_splits run.splits prod.splits)

lemma consistencyLoop_joined:
  assumes "list_all fresh_chain cs"
  shows "(\<exists>cs'. consistencyLoop D cs lvl h = (cs', Inr r)) \<longleftrightarrow> joined D cs lvl h r"
  using assms
proof (induction cs arbitrary: lvl h)
  case (Cons c cs)
  then have f: "fresh_chain c" by simp
  show ?case
  proof (cases "h \<noteq> None \<and> \<not> KSI_DataHash_equals h (inputHash c)")
    case True
    then show ?thesis by (auto simp: joined_Cons_iff dataHash_equals_iff)
  next
    case False
    then have h: "h = None \<or> h = inputHash c" by (auto simp: dataHash_equals_iff)
    obtain x c' where a: "KSI_AggregationHashChain_aggregate D c lvl = (x, c')" by (cases "KSI_AggregationHashChain_aggregate D c lvl")
    show ?thesis
    proof (cases x)
      case (Ok y)
      obtain lvl' h' where y: "y = (lvl', h')" by (cases y)
      have "0 \<le> lvl \<and> lvl \<le> 0xff \<and> (\<exists>a. aggrHashId c = Some a \<and> KSI_HashChain_aggregate D (chain c) (inputHash c) lvl (to_int a) = Ok (lvl', h'))"
        using aggregate_fresh [OF f, of D lvl lvl' h'] a Ok y by auto
      then show ?thesis using Cons.IH [of lvl' h'] Cons.prems a Ok y False h
        by (auto simp: joined_Cons_iff split: prod.splits)
    qed (use False a aggregate_fresh [OF f, of D lvl] in \<open>auto simp: joined_Cons_iff\<close>)
  qed
qed auto

lemma consistencyLoop_same: "consistencyLoop D cs lvl h = (cs', r) \<Longrightarrow> list_all2 same_chain cs cs'"
proof (induction cs arbitrary: lvl h cs' r)
  case (Cons c cs)
  have refl: "list_all2 same_chain xs xs" for xs by (rule list_all2_refl) (simp add: same_chain_def)
  show ?case using Cons.prems Cons.IH refl
    by (auto split: if_splits prod.splits run.splits dest: aggregate_same_chain simp: same_chain_def [of c c])
qed simp

lemma compare_0: "KSI_Integer_compare a b = 0 \<longleftrightarrow> a = b"
  by (auto simp: KSI_Integer_compare_def split: option.splits)

lemma consistencyLoop_bad: "consistencyLoop D cs lvl h \<noteq> (cs', Inl (Ended KSI_VER_RES_OK vec s None))"
  by (induction cs arbitrary: lvl h cs') (auto split: prod.splits run.splits)

lemma Consistency_passes:
  "passes (KSI_VerificationRule_AggregationHashChainConsistency D) c c' \<longleftrightarrow>
     (\<exists>sig t cs r. signature c = Some sig \<and> tempData c = Some t
        \<and> consistencyLoop D (elements (aggregationChainList sig)) 0 None = (cs, Inr r) \<and> c' = set_output_hash (set_chains c cs) r)"
proof (cases "signature c")
  case (Some sig)
  obtain cs x where l: "consistencyLoop D (elements (aggregationChainList sig)) 0 None = (cs, x)"
    by (cases "consistencyLoop D (elements (aggregationChainList sig)) 0 None")
  then show ?thesis using Some consistencyLoop_bad [of D "elements (aggregationChainList sig)" 0 None cs]
    by (cases x) (auto simp: KSI_VerificationRule_AggregationHashChainConsistency_def decides_rule step_Inr step_Inl)
qed (auto simp: KSI_VerificationRule_AggregationHashChainConsistency_def decides_rule step_Inr step_Inl)

lemma rfc3161_outcome_eq:
  "rfc3161_outcome i s vec = (j, Inr u) \<longleftrightarrow> j = i \<and> s = None"
  "rfc3161_outcome i s vec \<noteq> (j, Inl (Ended KSI_VER_RES_OK vec' st None))"
  by (auto simp: rfc3161_outcome_def split: option.splits if_splits)

definition time_follows :: "KSI_AggregationHashChain \<Rightarrow> KSI_AggregationHashChain \<Rightarrow> bool" where
  "time_follows a b \<longleftrightarrow> KSI_Integer_equals (aggregationTime b) (aggregationTime a)"

lemma timeLoop_iff:
  "timeLoop p cs \<longleftrightarrow> (case p of None \<Rightarrow> True | Some c \<Rightarrow> cs = [] \<or> time_follows c (hd cs)) \<and> successively time_follows cs"
proof (induction p cs rule: timeLoop.induct)
  case (2 p c cs)
  then show ?case by (cases p; cases cs) (simp_all add: time_follows_def)
qed (simp split: option.splits)

text \<open>The RFC 3161 record and the first chain agree on the time and the index.\<close>

definition rfc_agrees :: "(KSI_RFC3161 \<Rightarrow> KSI_AggregationHashChain \<Rightarrow> bool) \<Rightarrow> KSI_Signature \<Rightarrow> bool" where
  "rfc_agrees P sig \<longleftrightarrow> (\<forall>rfc. rfc3161 sig = Some rfc \<longrightarrow> (\<exists>first. element_at (aggregationChainList sig) 0 = Inr first \<and> P rfc first))"

lemma verifyAggrTime_iff: "rfc3161_verifyAggrTime sig = None \<longleftrightarrow> rfc_agrees (\<lambda>rfc first. aggregationTime first = rfc_aggregationTime rfc) sig"
  by (cases "rfc3161 sig"; cases "aggregationChainList sig")
     (auto simp: rfc3161_verifyAggrTime_def rfc_agrees_def compare_0 element_at_def check_def)

lemma chainIndexLoop_iff: "length as = length bs \<Longrightarrow> chainIndexLoop as bs = None \<longleftrightarrow> as = bs"
  by (induction as bs rule: chainIndexLoop.induct) (auto simp: compare_0)

lemma verifyChainIndex_iff:
  "rfc3161_verifyChainIndex sig = None \<longleftrightarrow> rfc_agrees (\<lambda>rfc first. elements (chainIndex first) = elements (rfc_chainIndex rfc)) sig"
  by (cases "rfc3161 sig"; cases "aggregationChainList sig")
     (auto simp: rfc3161_verifyChainIndex_def rfc_agrees_def chainIndexLoop_iff element_at_def check_def)

lemma Time_passes:
  "passes KSI_VerificationRule_AggregationHashChainTimeConsistency c c' \<longleftrightarrow>
     c' = c \<and> (\<exists>sig. signature c = Some sig \<and> rfc_agrees (\<lambda>rfc first. aggregationTime first = rfc_aggregationTime rfc) sig
       \<and> successively time_follows (elements (aggregationChainList sig)))"
  by (auto simp: KSI_VerificationRule_AggregationHashChainTimeConsistency_def decides_rule step_Inr step_Inl rfc3161_outcome_eq
      timeLoop_iff verifyAggrTime_iff)

definition index_follows :: "KSI_AggregationHashChain \<Rightarrow> KSI_AggregationHashChain \<Rightarrow> bool" where
  "index_follows a b \<longleftrightarrow> elements (chainIndex a) \<noteq> [] \<and> elements (chainIndex b) = butlast (elements (chainIndex a))"

lemma prefix_butlast:
  "length prev = length cur + 1 \<and> (\<forall>j<length cur. prev ! j = cur ! j) \<longleftrightarrow> prev \<noteq> [] \<and> cur = butlast prev"
proof
  assume p: "length prev = length cur + 1 \<and> (\<forall>j<length cur. prev ! j = cur ! j)"
  then have "cur = butlast prev" by (intro nth_equalityI) (simp_all add: nth_butlast)
  with p show "prev \<noteq> [] \<and> cur = butlast prev" by auto
next
  assume "prev \<noteq> [] \<and> cur = butlast prev"
  then show "length prev = length cur + 1 \<and> (\<forall>j<length cur. prev ! j = cur ! j)" by (simp add: nth_butlast Suc_leI)
qed

lemma indexLoop_iff:
  "indexLoop p cs \<longleftrightarrow>
     (case p of None \<Rightarrow> True | Some prev \<Rightarrow> cs = [] \<or> prev \<noteq> [] \<and> elements (chainIndex (hd cs)) = butlast prev)
     \<and> successively index_follows cs"
proof (induction p cs rule: indexLoop.induct)
  case (2 p c cs)
  let ?c = "elements (chainIndex c)"
  have step: "indexLoop (Some ?c) cs \<longleftrightarrow> successively index_follows (c # cs)"
    if "indexLoop (Some ?c) cs \<longleftrightarrow> (cs = [] \<or> ?c \<noteq> [] \<and> elements (chainIndex (hd cs)) = butlast ?c) \<and> successively index_follows cs"
    using that by (auto simp: successively_Cons index_follows_def)
  show ?case
  proof (cases p)
    case None
    then show ?thesis using 2(1) step by simp
  next
    case (Some prev)
    have "\<not> (length prev \<noteq> length ?c + 1 \<or> list_ex (\<lambda>j. \<not> KSI_Integer_equals (Some (prev ! j)) (Some (?c ! j))) [0..<length ?c])
        \<longleftrightarrow> prev \<noteq> [] \<and> ?c = butlast prev"
      unfolding prefix_butlast [symmetric] by (auto simp: list_ex_iff integer_equals_iff)
    then show ?thesis using Some 2(2) step by auto
  qed
qed (auto split: option.splits)

lemma IndexContinuation_passes:
  "passes KSI_VerificationRule_AggregationHashChainIndexContinuation c c' \<longleftrightarrow>
     c' = c \<and> (\<exists>sig. signature c = Some sig \<and> rfc_agrees (\<lambda>rfc first. elements (chainIndex first) = elements (rfc_chainIndex rfc)) sig
       \<and> successively index_follows (elements (aggregationChainList sig)))"
  by (auto simp: KSI_VerificationRule_AggregationHashChainIndexContinuation_def decides_rule step_Inr step_Inl rfc3161_outcome_eq
      indexLoop_iff verifyChainIndex_iff)

text \<open>The last number of the index of a chain describes the directions of its links.\<close>

definition shape_ok :: "KSI_AggregationHashChain \<Rightarrow> bool" where
  "shape_ok c \<longleftrightarrow> elements (chainIndex c) = [] \<or>
     length (elements (chain c)) \<le> 65 \<and> last (elements (chainIndex c)) = shape_bits (elements (chain c))"

lemma calculateShape_eq:
  "KSI_AggregationHashChain_calculateShape (Some c) =
     (if length (elements (chain c)) \<le> 65 then Inr (shape_bits (elements (chain c))) else Inl KSI_INVALID_STATE)"
proof -
  have "push_bit 3 8 + 1 = (65 :: nat)" by code_simp
  then show ?thesis by (auto simp: KSI_AggregationHashChain_calculateShape_def elements_def Let_def)
qed

lemma shapeLoop_eq:
  "fst (shapeLoop i cs) = i" "snd (shapeLoop i cs) = Inr u \<longleftrightarrow> list_all shape_ok cs"
  "snd (shapeLoop i cs) \<noteq> Inl (Ended KSI_VER_RES_OK vec s None)"
  by (induction cs) (auto simp: shape_ok_def calculateShape_eq attempt_def stop_if_def)

lemma Shape_passes:
  "passes KSI_VerificationRule_AggregationHashChainIndexConsistency c c' \<longleftrightarrow>
     c' = c \<and> (\<exists>sig. signature c = Some sig \<and> list_all shape_ok (elements (aggregationChainList sig)))"
proof (cases "signature c")
  case (Some sig)
  then show ?thesis using shapeLoop_eq [of c "elements (aggregationChainList sig)"]
    by (cases "shapeLoop c (elements (aggregationChainList sig))")
       (auto simp: KSI_VerificationRule_AggregationHashChainIndexConsistency_def decides_rule step_Inr step_Inl)
qed (auto simp: KSI_VerificationRule_AggregationHashChainIndexConsistency_def decides_rule step_Inr step_Inl)

lemma shape_bits_nested: "shape_bits (map nested_link ls) = shape_bits ls"
  by (induction ls) (simp_all add: shape_bits_Cons shape_bits_def [of "[]"])

lemma shape_ok_nested [simp]: "shape_ok (nested_chain c) = shape_ok c"
  by (cases "chain c") (simp_all add: shape_ok_def nested_chain_def shape_bits_nested)

lemma shape_ok_same: "list_all2 same_chain cs cs' \<Longrightarrow> list_all shape_ok cs' = list_all shape_ok cs"
  by (induction rule: list_all2_induct) (auto simp: same_chain_def shape_ok_def)

section \<open>The calendar chain\<close>

definition calendar_time_of :: "KSI_CalendarHashChain \<Rightarrow> KSI_Integer option" where
  "calendar_time_of cal = (case cal_aggregationTime cal of None \<Rightarrow> publicationTime cal | Some t \<Rightarrow> Some t)"

lemma calendar_time_eq:
  "calendar_time i (Some cal) = (i, Inr (calendar_time_of cal))" "calendar_time i None = (i, Inl (internal KSI_INVALID_ARGUMENT))"
  by (simp_all add: calendar_time_def calendar_time_of_def attempt_def split: option.splits)

lemma CalendarInputHash_passes:
  assumes "signature c = Some sig" "tempData c = Some t" "aggregationOutputHash t = Some h"
  shows "passes (KSI_VerificationRule_CalendarHashChainInputHashVerification D) c c' \<longleftrightarrow>
     c' = c \<and> (\<exists>cal. calendarChain sig = Some cal \<and> cal_inputHash cal = Some h)"
  using assms by (auto simp: KSI_VerificationRule_CalendarHashChainInputHashVerification_def decides_rule step_Inr step_Inl
      initAggregationOutputHash_def output_hash_def dataHash_equals_iff getter_eq_Inr)

lemma CalendarTime_passes:
  "passes KSI_VerificationRule_CalendarHashChainAggregationTime c c' \<longleftrightarrow>
     c' = c \<and> (\<exists>sig first cal t. signature c = Some sig \<and> element_at (aggregationChainList sig) 0 = Inr first
       \<and> calendarChain sig = Some cal \<and> calendar_time_of cal = Some t \<and> aggregationTime first = Some t)"
proof (cases "signature c")
  case (Some sig)
  then show ?thesis
    by (cases "calendarChain sig") (auto simp: KSI_VerificationRule_CalendarHashChainAggregationTime_def decides_rule step_Inr step_Inl
        calendar_time_eq integer_equals_iff)
qed (auto simp: KSI_VerificationRule_CalendarHashChainAggregationTime_def decides_rule step_Inr step_Inl)

lemma RegistrationTime_passes:
  "passes KSI_VerificationRule_CalendarHashChainRegistrationTime c c' \<longleftrightarrow>
     c' = c \<and> (\<exists>sig cal t. signature c = Some sig \<and> calendarChain sig = Some cal
       \<and> KSI_CalendarHashChain_calculateAggregationTime (Some cal) = Inr t \<and> calendar_time_of cal = Some (of_int t))"
proof (cases "signature c")
  case (Some sig)
  then show ?thesis
    by (cases "calendarChain sig"; cases "KSI_CalendarHashChain_calculateAggregationTime (calendarChain sig)")
       (auto simp: KSI_VerificationRule_CalendarHashChainRegistrationTime_def decides_rule step_Inr step_Inl
        calendar_time_eq KSI_Integer_equalsUInt_def)
qed (auto simp: KSI_VerificationRule_CalendarHashChainRegistrationTime_def decides_rule step_Inr step_Inl)

text \<open>The algorithms of the left links of a calendar chain.\<close>

definition left_algorithms :: "(KSI_HashAlgorithm \<Rightarrow> bool) \<Rightarrow> KSI_HashChainLink list \<Rightarrow> bool" where
  "left_algorithms P links \<longleftrightarrow> (\<forall>l\<in>set links. isLeft l \<longrightarrow> (\<exists>h. imprint l = Some h \<and> P (int (unat (h ! 0)))))"

lemma getNextLink_left:
  "case getNextLink links False of None \<Rightarrow> left_algorithms P links
     | Some (l, rest) \<Rightarrow> isLeft l \<and> (left_algorithms P links \<longleftrightarrow> left_algorithms P (l # rest))"
  by (induction links) (auto simp: left_algorithms_def split: option.splits)

lemma algorithmStateLoop_iff:
  "algorithmStateLoop bad t links = Inr False \<longleftrightarrow> left_algorithms (\<lambda>a. \<not> bad a t) links"
proof (induction bad t links rule: algorithmStateLoop.induct)
  case (1 bad t links)
  show ?case
  proof (cases "getNextLink links False")
    case None
    then show ?thesis using getNextLink_left [where links = links and P = "\<lambda>a. \<not> bad a t"]
      by (subst algorithmStateLoop.simps) simp
  next
    case (Some x)
    obtain l rest where x: "x = (l, rest)" by (cases x)
    have l: "isLeft l \<and> (left_algorithms (\<lambda>a. \<not> bad a t) links \<longleftrightarrow> left_algorithms (\<lambda>a. \<not> bad a t) (l # rest))"
      using getNextLink_left [where links = links and P = "\<lambda>a. \<not> bad a t"] Some x by simp
    show ?thesis
    proof (cases "imprint l")
      case None
      then show ?thesis using Some x l
        by (subst algorithmStateLoop.simps) (auto simp: KSI_DataHash_getHashAlg_def left_algorithms_def)
    next
      case h: (Some h)
      then show ?thesis using Some x l "1.IH" [OF Some x [symmetric], of "int (unat (h ! 0))"]
        by (subst algorithmStateLoop.simps) (auto simp: KSI_DataHash_getHashAlg_def left_algorithms_def)
    qed
  qed
qed

definition calendar_algorithms :: "(KSI_HashAlgorithm \<Rightarrow> int \<Rightarrow> bool) \<Rightarrow> KSI_CalendarHashChain \<Rightarrow> bool" where
  "calendar_algorithms bad cal \<longleftrightarrow>
     (\<exists>links. hashChain cal = Some links \<and> left_algorithms (\<lambda>a. \<not> bad a (to_time (publicationTime cal))) links)"

lemma algorithmState_iff:
  "calendarChainAggrAlgorithmState cal bad = Inr False \<longleftrightarrow> (\<exists>k. cal = Some k \<and> calendar_algorithms bad k)"
  by (auto simp: calendarChainAggrAlgorithmState_def the_ptr_eq_Inr algorithmStateLoop_iff calendar_algorithms_def)

lemma Obsolete_passes:
  "passes KSI_VerificationRule_CalendarChainHashAlgorithmObsoleteAtPubTime c c' \<longleftrightarrow>
     c' = c \<and> (\<exists>sig cal. signature c = Some sig \<and> calendarChain sig = Some cal \<and> calendar_algorithms wasObsoleteAt cal)"
proof (cases "signature c")
  case (Some sig)
  then show ?thesis using algorithmState_iff [of "calendarChain sig" wasObsoleteAt]
    by (cases "calendarChainAggrAlgorithmState (calendarChain sig) wasObsoleteAt")
       (auto simp: KSI_VerificationRule_CalendarChainHashAlgorithmObsoleteAtPubTime_def decides_rule step_Inr step_Inl)
qed (auto simp: KSI_VerificationRule_CalendarChainHashAlgorithmObsoleteAtPubTime_def decides_rule step_Inr step_Inl)

section \<open>Publications of the root\<close>

definition calendar_root_hash :: "(int \<Rightarrow> bytes \<Rightarrow> bytes) \<Rightarrow> KSI_CalendarHashChain \<Rightarrow> KSI_DataHash option run" where
  "calendar_root_hash D cal = map_run fst (KSI_CalendarHashChain_aggregate D cal)"

text \<open>The publication data \<open>pd\<close> are those of the calendar chain: the root hash and the publication time.\<close>

definition publishes :: "(int \<Rightarrow> bytes \<Rightarrow> bytes) \<Rightarrow> KSI_CalendarHashChain \<Rightarrow> KSI_PublicationData option \<Rightarrow> bool" where
  "publishes D cal pd \<longleftrightarrow>
     (\<exists>p h t cal'. pd = Some p \<and> KSI_CalendarHashChain_aggregate D cal = Ok (Some h, cal') \<and> pd_imprint p = Some h
        \<and> publicationTime cal = Some t \<and> pd_time p = Some t)"

definition rooted :: "(int \<Rightarrow> bytes \<Rightarrow> bytes) \<Rightarrow> KSI_VerificationContext \<Rightarrow> KSI_VerificationContext" where
  "rooted D c =
     (case signature c of None \<Rightarrow> c | Some sig \<Rightarrow>
       (case calendarChain sig of None \<Rightarrow> c | Some cal \<Rightarrow>
         (case KSI_CalendarHashChain_aggregate D cal of
            Ok (h, cal') \<Rightarrow> set_sig c (sig\<lparr>calendarChain := Some cal'\<rparr>) | _ \<Rightarrow> c)))"

lemma calendar_root_of_eq:
  assumes "signature c = Some sig"
  shows "calendar_root_of D c sig = (rooted D c, case calendarChain sig of None \<Rightarrow> Err KSI_INVALID_ARGUMENT
     | Some cal \<Rightarrow> (case KSI_CalendarHashChain_aggregate D cal of Ok (h, _) \<Rightarrow> Ok h | Err e \<Rightarrow> Err e | Fault \<Rightarrow> Fault))"
  using assms by (simp add: calendar_root_of_def rooted_def split: option.splits run.splits prod.splits)

lemma AuthHash_decides:
  "decides (KSI_VerificationRule_CalendarAuthenticationRecordAggregationHash D) c code c' \<longleftrightarrow>
     c' = rooted D c \<and> (\<exists>sig cal rec pd h cal'. signature c = Some sig \<and> calendarChain sig = Some cal
       \<and> calendarAuthRec sig = Some rec \<and> pubData rec = Some pd \<and> KSI_CalendarHashChain_aggregate D cal = Ok (h, cal')
       \<and> code = (if KSI_DataHash_equals h (pd_imprint pd) then KSI_VER_RES_OK else KSI_VER_RES_FAIL))"
proof (cases "signature c")
  case (Some sig)
  note root = calendar_root_of_eq [OF Some, of D]
  show ?thesis
    by (cases "calendarChain sig"; cases "KSI_CalendarHashChain_aggregate D (the (calendarChain sig))")
       (auto simp: KSI_VerificationRule_CalendarAuthenticationRecordAggregationHash_def decides_rule step_Inr step_Inl Some root
        getter_eq_Inr)
qed (auto simp: KSI_VerificationRule_CalendarAuthenticationRecordAggregationHash_def decides_rule step_Inr step_Inl)

lemma AuthTime_decides:
  "decides KSI_VerificationRule_CalendarAuthenticationRecordAggregationTime c code c' \<longleftrightarrow>
     c' = c \<and> (\<exists>sig cal rec pd. signature c = Some sig \<and> calendarChain sig = Some cal
       \<and> calendarAuthRec sig = Some rec \<and> pubData rec = Some pd
       \<and> code = (if KSI_Integer_equals (publicationTime cal) (pd_time pd) then KSI_VER_RES_OK else KSI_VER_RES_FAIL))"
  by (auto simp: KSI_VerificationRule_CalendarAuthenticationRecordAggregationTime_def decides_rule step_Inr step_Inl
      getter_eq_Inr)

lemma PubHash_decides:
  "decides (KSI_VerificationRule_SignaturePublicationRecordPublicationHash D) c code c' \<longleftrightarrow>
     c' = rooted D c \<and> (\<exists>sig cal pub pd h cal'. signature c = Some sig \<and> calendarChain sig = Some cal
       \<and> publication sig = Some pub \<and> publishedData pub = Some pd \<and> KSI_CalendarHashChain_aggregate D cal = Ok (h, cal')
       \<and> code = (if KSI_DataHash_equals h (pd_imprint pd) then KSI_VER_RES_OK else KSI_VER_RES_FAIL))"
proof (cases "signature c")
  case (Some sig)
  note root = calendar_root_of_eq [OF Some, of D]
  show ?thesis
    by (cases "calendarChain sig"; cases "KSI_CalendarHashChain_aggregate D (the (calendarChain sig))")
       (auto simp: KSI_VerificationRule_SignaturePublicationRecordPublicationHash_def decides_rule step_Inr step_Inl Some root
        getter_eq_Inr)
qed (auto simp: KSI_VerificationRule_SignaturePublicationRecordPublicationHash_def decides_rule step_Inr step_Inl)

lemma PubTime_decides:
  "decides KSI_VerificationRule_SignaturePublicationRecordPublicationTime c code c' \<longleftrightarrow>
     c' = c \<and> (\<exists>sig cal pub pd. signature c = Some sig \<and> calendarChain sig = Some cal
       \<and> publication sig = Some pub \<and> publishedData pub = Some pd
       \<and> code = (if KSI_Integer_equals (publicationTime cal) (pd_time pd) then KSI_VER_RES_OK else KSI_VER_RES_FAIL))"
  by (auto simp: KSI_VerificationRule_SignaturePublicationRecordPublicationTime_def decides_rule step_Inr step_Inl
      getter_eq_Inr)

end
