(* ===== verification/VerificationPolicy.thy ===== *)
theory VerificationPolicy
  imports RuleFacts
begin

text \<open>
  The policies of \<^verbatim>\<open>src/src/ksi/policy.c\<close>: the arrays of rules and the predefined policies built from them.  The
  theorems below say what a signature must satisfy for a policy to accept it, and when the verifier returns.
\<close>

section \<open>Rule arrays\<close>

definition KSI_VerificationRule_AlwaysOk :: "KSI_VerificationContext Verifier" where
  "KSI_VerificationRule_AlwaysOk info result =
     (Ok (), info, result\<lparr>resultCode := KSI_VER_RES_OK, errorCode := KSI_VER_ERR_NONE,
                          ruleName := Some ''KSI_VerificationRule_AlwaysOk''\<rparr>)"

definition emptyRules :: "verify_env \<Rightarrow> KSI_VerificationContext KSI_Rule list" where
  "emptyRules E =
    [KSI_RULE_TYPE_BASIC KSI_VerificationRule_AlwaysOk]"

definition noCalendarAuthenticationRecordRule :: "verify_env \<Rightarrow> KSI_VerificationContext KSI_Rule list" where
  "noCalendarAuthenticationRecordRule E =
    [KSI_RULE_TYPE_BASIC KSI_VerificationRule_CalendarAuthenticationRecordDoesNotExist]"

definition calendarAuthenticationRecordVerificationRule :: "verify_env \<Rightarrow> KSI_VerificationContext KSI_Rule list" where
  "calendarAuthenticationRecordVerificationRule E =
    [KSI_RULE_TYPE_BASIC KSI_VerificationRule_CalendarAuthenticationRecordExistence,
     KSI_RULE_TYPE_BASIC (KSI_VerificationRule_CalendarAuthenticationRecordAggregationHash (digest E)),
     KSI_RULE_TYPE_BASIC KSI_VerificationRule_CalendarAuthenticationRecordAggregationTime]"

definition publicationRecordVerificationRule :: "verify_env \<Rightarrow> KSI_VerificationContext KSI_Rule list" where
  "publicationRecordVerificationRule E =
    [KSI_RULE_TYPE_BASIC KSI_VerificationRule_SignaturePublicationRecordExistence,
     KSI_RULE_TYPE_BASIC (KSI_VerificationRule_SignaturePublicationRecordPublicationHash (digest E)),
     KSI_RULE_TYPE_BASIC KSI_VerificationRule_SignaturePublicationRecordPublicationTime]"

definition calendarAuthenticationRecordRule :: "verify_env \<Rightarrow> KSI_VerificationContext KSI_Rule list" where
  "calendarAuthenticationRecordRule E =
    [KSI_RULE_TYPE_COMPOSITE_OR (noCalendarAuthenticationRecordRule E),
     KSI_RULE_TYPE_COMPOSITE_OR (calendarAuthenticationRecordVerificationRule E)]"

definition noPublicationRecordRule :: "verify_env \<Rightarrow> KSI_VerificationContext KSI_Rule list" where
  "noPublicationRecordRule E =
    [KSI_RULE_TYPE_BASIC KSI_VerificationRule_SignatureDoesNotContainPublication,
     KSI_RULE_TYPE_COMPOSITE_AND (calendarAuthenticationRecordRule E)]"

definition publicationOrCalendarAuthenticationRecordRule :: "verify_env \<Rightarrow> KSI_VerificationContext KSI_Rule list" where
  "publicationOrCalendarAuthenticationRecordRule E =
    [KSI_RULE_TYPE_COMPOSITE_OR (noPublicationRecordRule E),
     KSI_RULE_TYPE_COMPOSITE_OR (publicationRecordVerificationRule E)]"

definition noCalendarHashChainRule :: "verify_env \<Rightarrow> KSI_VerificationContext KSI_Rule list" where
  "noCalendarHashChainRule E =
    [KSI_RULE_TYPE_BASIC KSI_VerificationRule_CalendarHashChainDoesNotExist]"

definition calendarHashChainVerificationRule :: "verify_env \<Rightarrow> KSI_VerificationContext KSI_Rule list" where
  "calendarHashChainVerificationRule E =
    [KSI_RULE_TYPE_BASIC KSI_VerificationRule_CalendarHashChainExistence,
     KSI_RULE_TYPE_BASIC (KSI_VerificationRule_CalendarHashChainInputHashVerification (digest E)),
     KSI_RULE_TYPE_BASIC KSI_VerificationRule_CalendarHashChainAggregationTime,
     KSI_RULE_TYPE_BASIC KSI_VerificationRule_CalendarHashChainRegistrationTime,
     KSI_RULE_TYPE_BASIC KSI_VerificationRule_CalendarChainHashAlgorithmObsoleteAtPubTime,
     KSI_RULE_TYPE_COMPOSITE_AND (publicationOrCalendarAuthenticationRecordRule E)]"

definition calendarHashChainRule_int :: "verify_env \<Rightarrow> KSI_VerificationContext KSI_Rule list" where
  "calendarHashChainRule_int E =
    [KSI_RULE_TYPE_COMPOSITE_OR (noCalendarHashChainRule E),
     KSI_RULE_TYPE_COMPOSITE_OR (calendarHashChainVerificationRule E)]"

definition noDocumentHashRule :: "verify_env \<Rightarrow> KSI_VerificationContext KSI_Rule list" where
  "noDocumentHashRule E =
    [KSI_RULE_TYPE_BASIC KSI_VerificationRule_DocumentHashDoesNotExist]"

definition documentHashVerificationRule :: "verify_env \<Rightarrow> KSI_VerificationContext KSI_Rule list" where
  "documentHashVerificationRule E =
    [KSI_RULE_TYPE_BASIC KSI_VerificationRule_DocumentHashExistence,
     KSI_RULE_TYPE_BASIC KSI_VerificationRule_InputHashAlgorithmVerification,
     KSI_RULE_TYPE_BASIC KSI_VerificationRule_DocumentHashVerification]"

definition documentHashRule :: "verify_env \<Rightarrow> KSI_VerificationContext KSI_Rule list" where
  "documentHashRule E =
    [KSI_RULE_TYPE_COMPOSITE_OR (noDocumentHashRule E),
     KSI_RULE_TYPE_COMPOSITE_OR (documentHashVerificationRule E)]"

definition noRfc3161Rule :: "verify_env \<Rightarrow> KSI_VerificationContext KSI_Rule list" where
  "noRfc3161Rule E =
    [KSI_RULE_TYPE_BASIC KSI_VerificationRule_Rfc3161DoesNotExist]"

definition rfc3161VerificationRule :: "verify_env \<Rightarrow> KSI_VerificationContext KSI_Rule list" where
  "rfc3161VerificationRule E =
    [KSI_RULE_TYPE_BASIC KSI_VerificationRule_Rfc3161Existence,
     KSI_RULE_TYPE_BASIC KSI_VerificationRule_Rfc3161RecordHashAlgorithmVerification,
     KSI_RULE_TYPE_BASIC KSI_VerificationRule_Rfc3161RecordOutputHashAlgorithmVerification]"

definition rfc3161Rule :: "verify_env \<Rightarrow> KSI_VerificationContext KSI_Rule list" where
  "rfc3161Rule E =
    [KSI_RULE_TYPE_COMPOSITE_OR (noRfc3161Rule E),
     KSI_RULE_TYPE_COMPOSITE_OR (rfc3161VerificationRule E)]"

definition internalRules :: "verify_env \<Rightarrow> KSI_VerificationContext KSI_Rule list" where
  "internalRules E =
    [KSI_RULE_TYPE_COMPOSITE_AND (documentHashRule E),
     KSI_RULE_TYPE_BASIC KSI_VerificationRule_AggregationChainInputLevelVerification,
     KSI_RULE_TYPE_BASIC KSI_VerificationRule_AggregationChainInputHashAlgorithmVerification,
     KSI_RULE_TYPE_COMPOSITE_AND (rfc3161Rule E),
     KSI_RULE_TYPE_BASIC (KSI_VerificationRule_AggregationChainInputHashVerification (digest E)),
     KSI_RULE_TYPE_BASIC KSI_VerificationRule_AggregationChainMetaDataVerification,
     KSI_RULE_TYPE_BASIC KSI_VerificationRule_AggregationChainHashAlgorithmVerification,
     KSI_RULE_TYPE_BASIC KSI_VerificationRule_AggregationHashChainIndexContinuation,
     KSI_RULE_TYPE_BASIC KSI_VerificationRule_AggregationHashChainTimeConsistency,
     KSI_RULE_TYPE_BASIC (KSI_VerificationRule_AggregationHashChainConsistency (digest E)),
     KSI_RULE_TYPE_BASIC KSI_VerificationRule_AggregationHashChainIndexConsistency,
     KSI_RULE_TYPE_COMPOSITE_AND (calendarHashChainRule_int E)]"

definition CalendarChainRightLinksVerificationRule :: "verify_env \<Rightarrow> KSI_VerificationContext KSI_Rule list" where
  "CalendarChainRightLinksVerificationRule E =
    [KSI_RULE_TYPE_BASIC KSI_VerificationRule_SignatureDoesNotContainPublication,
     KSI_RULE_TYPE_BASIC (KSI_VerificationRule_ExtendedSignatureCalendarChainRightLinksMatch E)]"

definition CalendarChainRootHashVerificationRule :: "verify_env \<Rightarrow> KSI_VerificationContext KSI_Rule list" where
  "CalendarChainRootHashVerificationRule E =
    [KSI_RULE_TYPE_BASIC KSI_VerificationRule_SignaturePublicationRecordExistence,
     KSI_RULE_TYPE_BASIC (KSI_VerificationRule_ExtendedSignatureCalendarChainRootHash E)]"

definition publicationRecordRule_cal :: "verify_env \<Rightarrow> KSI_VerificationContext KSI_Rule list" where
  "publicationRecordRule_cal E =
    [KSI_RULE_TYPE_COMPOSITE_OR (CalendarChainRightLinksVerificationRule E),
     KSI_RULE_TYPE_COMPOSITE_OR (CalendarChainRootHashVerificationRule E)]"

definition extendToHeadRule :: "verify_env \<Rightarrow> KSI_VerificationContext KSI_Rule list" where
  "extendToHeadRule E =
    [KSI_RULE_TYPE_BASIC KSI_VerificationRule_CalendarHashChainDoesNotExist,
     KSI_RULE_TYPE_BASIC (KSI_VerificationRule_ExtendedSignatureCalendarChainInputHash E),
     KSI_RULE_TYPE_BASIC (KSI_VerificationRule_ExtendedSignatureCalendarChainAggregationTime E)]"

definition extendToCalendarChainRule :: "verify_env \<Rightarrow> KSI_VerificationContext KSI_Rule list" where
  "extendToCalendarChainRule E =
    [KSI_RULE_TYPE_BASIC KSI_VerificationRule_CalendarHashChainExistence,
     KSI_RULE_TYPE_COMPOSITE_AND (publicationRecordRule_cal E),
     KSI_RULE_TYPE_BASIC (KSI_VerificationRule_ExtendedSignatureCalendarChainInputHash E),
     KSI_RULE_TYPE_BASIC (KSI_VerificationRule_ExtendedSignatureCalendarChainAggregationTime E)]"

definition calendarHashChainRule_cal :: "verify_env \<Rightarrow> KSI_VerificationContext KSI_Rule list" where
  "calendarHashChainRule_cal E =
    [KSI_RULE_TYPE_COMPOSITE_OR (extendToHeadRule E),
     KSI_RULE_TYPE_COMPOSITE_OR (extendToCalendarChainRule E)]"

definition calendarBasedRules :: "verify_env \<Rightarrow> KSI_VerificationContext KSI_Rule list" where
  "calendarBasedRules E =
    [KSI_RULE_TYPE_COMPOSITE_AND (internalRules E),
     KSI_RULE_TYPE_COMPOSITE_AND (calendarHashChainRule_cal E)]"

definition keyBasedRules :: "verify_env \<Rightarrow> KSI_VerificationContext KSI_Rule list" where
  "keyBasedRules E =
    [KSI_RULE_TYPE_COMPOSITE_AND (internalRules E),
     KSI_RULE_TYPE_BASIC KSI_VerificationRule_CalendarHashChainPresenceVerification,
     KSI_RULE_TYPE_BASIC KSI_VerificationRule_CalendarHashChainHashAlgorithmDeprecatedAtPubTime,
     KSI_RULE_TYPE_BASIC KSI_VerificationRule_CalendarAuthenticationRecordPresenceVerification,
     KSI_RULE_TYPE_BASIC (KSI_VerificationRule_CertificateExistence E),
     KSI_RULE_TYPE_BASIC (KSI_VerificationRule_CertificateValidity E),
     KSI_RULE_TYPE_BASIC (KSI_VerificationRule_CalendarAuthenticationRecordSignatureVerification E)]"

definition extendToPublication :: "verify_env \<Rightarrow> KSI_VerificationContext KSI_Rule list" where
  "extendToPublication E =
    [KSI_RULE_TYPE_BASIC (KSI_VerificationRule_PublicationsFileContainsSuitablePublication E),
     KSI_RULE_TYPE_BASIC KSI_VerificationRule_PublicationsFileExtendingPermittedVerification,
     KSI_RULE_TYPE_BASIC (KSI_VerificationRule_PublicationsFileExtendedCalendarChainHashAlgorithmDeprecatedAtPubTime E),
     KSI_RULE_TYPE_BASIC (KSI_VerificationRule_PublicationsFilePublicationHashMatchesExtenderResponse E),
     KSI_RULE_TYPE_BASIC (KSI_VerificationRule_PublicationsFilePublicationTimeMatchesExtenderResponse E),
     KSI_RULE_TYPE_BASIC (KSI_VerificationRule_PublicationsFileExtendedSignatureInputHash E)]"

definition suitablePubExist_pubFile :: "verify_env \<Rightarrow> KSI_VerificationContext KSI_Rule list" where
  "suitablePubExist_pubFile E =
    [KSI_RULE_TYPE_BASIC (KSI_VerificationRule_PublicationsFileContainsSignaturePublication E),
     KSI_RULE_TYPE_BASIC (KSI_VerificationRule_PublicationsFileSignaturePublicationVerification E),
     KSI_RULE_TYPE_BASIC KSI_VerificationRule_PublicationsFileSignatureCalendarChainHashAlgorithmDeprecatedAtPubTime]"

definition suitablePubMissing_pubFile :: "verify_env \<Rightarrow> KSI_VerificationContext KSI_Rule list" where
  "suitablePubMissing_pubFile E =
    [KSI_RULE_TYPE_BASIC (KSI_VerificationRule_PublicationsFileDoesNotContainSignaturePublication E),
     KSI_RULE_TYPE_COMPOSITE_AND (extendToPublication E)]"

definition sigPubRecExist_pubFile :: "verify_env \<Rightarrow> KSI_VerificationContext KSI_Rule list" where
  "sigPubRecExist_pubFile E =
    [KSI_RULE_TYPE_BASIC KSI_VerificationRule_SignaturePublicationRecordExistence,
     KSI_RULE_TYPE_COMPOSITE_OR (suitablePubExist_pubFile E),
     KSI_RULE_TYPE_COMPOSITE_OR (suitablePubMissing_pubFile E)]"

definition sigPubRecMissing_pubFile :: "verify_env \<Rightarrow> KSI_VerificationContext KSI_Rule list" where
  "sigPubRecMissing_pubFile E =
    [KSI_RULE_TYPE_BASIC KSI_VerificationRule_SignaturePublicationRecordMissing,
     KSI_RULE_TYPE_COMPOSITE_AND (extendToPublication E)]"

definition publicationRecordRule_pubFile :: "verify_env \<Rightarrow> KSI_VerificationContext KSI_Rule list" where
  "publicationRecordRule_pubFile E =
    [KSI_RULE_TYPE_COMPOSITE_OR (sigPubRecExist_pubFile E),
     KSI_RULE_TYPE_COMPOSITE_OR (sigPubRecMissing_pubFile E)]"

definition publicationsFileBasedRules :: "verify_env \<Rightarrow> KSI_VerificationContext KSI_Rule list" where
  "publicationsFileBasedRules E =
    [KSI_RULE_TYPE_COMPOSITE_AND (internalRules E),
     KSI_RULE_TYPE_COMPOSITE_AND (publicationRecordRule_pubFile E)]"

definition extendToUserPublication :: "verify_env \<Rightarrow> KSI_VerificationContext KSI_Rule list" where
  "extendToUserPublication E =
    [KSI_RULE_TYPE_BASIC KSI_VerificationRule_UserProvidedPublicationCreationTimeVerification,
     KSI_RULE_TYPE_BASIC KSI_VerificationRule_UserProvidedPublicationExtendingPermittedVerification,
     KSI_RULE_TYPE_BASIC (KSI_VerificationRule_UserProvidedPublicationExtendedCalendarChainHashAlgorithmDeprecatedAtPubTime E),
     KSI_RULE_TYPE_BASIC (KSI_VerificationRule_UserProvidedPublicationHashMatchesExtendedResponse E),
     KSI_RULE_TYPE_BASIC (KSI_VerificationRule_UserProvidedPublicationTimeMatchesExtendedResponse E),
     KSI_RULE_TYPE_BASIC (KSI_VerificationRule_UserProvidedPublicationExtendedSignatureInputHash E)]"

definition suitablePubExist :: "verify_env \<Rightarrow> KSI_VerificationContext KSI_Rule list" where
  "suitablePubExist E =
    [KSI_RULE_TYPE_BASIC KSI_VerificationRule_UserProvidedPublicationTimeVerification,
     KSI_RULE_TYPE_BASIC KSI_VerificationRule_UserProvidedPublicationHashVerification,
     KSI_RULE_TYPE_BASIC KSI_VerificationRule_UserProvidedPublicationSignatureCalendarChainHashAlgorithmDeprecatedAtPubTime]"

definition suitablePubMissing :: "verify_env \<Rightarrow> KSI_VerificationContext KSI_Rule list" where
  "suitablePubMissing E =
    [KSI_RULE_TYPE_BASIC KSI_VerificationRule_UserProvidedPublicationTimeDoesNotSuit,
     KSI_RULE_TYPE_COMPOSITE_AND (extendToUserPublication E)]"

definition sigPubRecExist :: "verify_env \<Rightarrow> KSI_VerificationContext KSI_Rule list" where
  "sigPubRecExist E =
    [KSI_RULE_TYPE_BASIC KSI_VerificationRule_SignaturePublicationRecordExistence,
     KSI_RULE_TYPE_COMPOSITE_OR (suitablePubExist E),
     KSI_RULE_TYPE_COMPOSITE_OR (suitablePubMissing E)]"

definition sigPubRecMissing :: "verify_env \<Rightarrow> KSI_VerificationContext KSI_Rule list" where
  "sigPubRecMissing E =
    [KSI_RULE_TYPE_BASIC KSI_VerificationRule_SignaturePublicationRecordMissing,
     KSI_RULE_TYPE_COMPOSITE_AND (extendToUserPublication E)]"

definition publicationRecordRule_pubString :: "verify_env \<Rightarrow> KSI_VerificationContext KSI_Rule list" where
  "publicationRecordRule_pubString E =
    [KSI_RULE_TYPE_COMPOSITE_OR (sigPubRecExist E),
     KSI_RULE_TYPE_COMPOSITE_OR (sigPubRecMissing E)]"

definition userProvidedPublicationBasedRules :: "verify_env \<Rightarrow> KSI_VerificationContext KSI_Rule list" where
  "userProvidedPublicationBasedRules E =
    [KSI_RULE_TYPE_COMPOSITE_AND (internalRules E),
     KSI_RULE_TYPE_BASIC KSI_VerificationRule_UserProvidedPublicationExistence,
     KSI_RULE_TYPE_COMPOSITE_AND (publicationRecordRule_pubString E)]"

definition generalRules :: "verify_env \<Rightarrow> KSI_VerificationContext KSI_Rule list" where
  "generalRules E =
    [KSI_RULE_TYPE_COMPOSITE_AND (internalRules E),
     KSI_RULE_TYPE_COMPOSITE_OR (userProvidedPublicationBasedRules E),
     KSI_RULE_TYPE_BASIC KSI_VerificationRule_RequireNoUserProvidedPublication,
     KSI_RULE_TYPE_COMPOSITE_OR (publicationsFileBasedRules E),
     KSI_RULE_TYPE_COMPOSITE_OR (keyBasedRules E)]"

section \<open>Predefined policies\<close>

text \<open>The policies \<^verbatim>\<open>KSI_VERIFICATION_POLICY_EMPTY\<close>, \<^verbatim>\<open>_INTERNAL\<close>, \<^verbatim>\<open>_CALENDAR_BASED\<close>, \<^verbatim>\<open>_KEY_BASED\<close>,
  \<^verbatim>\<open>_PUBLICATIONS_FILE_BASED\<close>, \<^verbatim>\<open>_USER_PUBLICATION_BASED\<close> and \<^verbatim>\<open>_GENERAL\<close>, in this order.\<close>

definition predefined_policies :: "verify_env \<Rightarrow> KSI_VerificationContext KSI_Policy list" where
  "predefined_policies E =
    [\<lparr>pol_rules = Some (emptyRules E), fallbackPolicy = None, pol_policyName = ''EmptyPolicy''\<rparr>,
     \<lparr>pol_rules = Some (internalRules E), fallbackPolicy = None, pol_policyName = ''InternalPolicy''\<rparr>,
     \<lparr>pol_rules = Some (calendarBasedRules E), fallbackPolicy = None, pol_policyName = ''CalendarBasedPolicy''\<rparr>,
     \<lparr>pol_rules = Some (keyBasedRules E), fallbackPolicy = None, pol_policyName = ''KeyBasedPolicy''\<rparr>,
     \<lparr>pol_rules = Some (publicationsFileBasedRules E), fallbackPolicy = None, pol_policyName = ''PublicationsFileBasedPolicy''\<rparr>,
     \<lparr>pol_rules = Some (userProvidedPublicationBasedRules E), fallbackPolicy = None, pol_policyName = ''UserProvidedPublicationBasedPolicy''\<rparr>,
     \<lparr>pol_rules = Some (generalRules E), fallbackPolicy = None, pol_policyName = ''GeneralPolicy''\<rparr>]"

section \<open>Arrays that conclude positively\<close>

lemma concludes_pass:
  "concludes (KSI_RULE_TYPE_BASIC v # rs) c KSI_VER_RES_OK d \<longleftrightarrow>
     (\<exists>c'. passes v c c' \<and> (if rs = [] then d = c' else concludes rs c' KSI_VER_RES_OK d))"
  by (cases rs) (auto simp: concludes_basic concludes_Nil)

lemma concludes_both:
  "concludes (KSI_RULE_TYPE_COMPOSITE_AND sub # rs) c KSI_VER_RES_OK d \<longleftrightarrow>
     (\<exists>c'. concludes sub c KSI_VER_RES_OK c' \<and> (if rs = [] then d = c' else concludes rs c' KSI_VER_RES_OK d))"
  by (cases rs) (auto simp: concludes_and concludes_Nil)

lemma concludes_alternative:
  "concludes (KSI_RULE_TYPE_COMPOSITE_OR sub # rs) c KSI_VER_RES_OK d \<longleftrightarrow>
     concludes sub c KSI_VER_RES_OK d \<or> (\<exists>c'. concludes sub c KSI_VER_RES_NA c' \<and> concludes rs c' KSI_VER_RES_OK d)"
  by (auto simp: concludes_or)

lemma concludes_one: "concludes [KSI_RULE_TYPE_BASIC v] c code d \<longleftrightarrow> decides v c code d"
  by (auto simp: concludes_basic concludes_Nil)

lemmas concludes_OK = concludes_pass concludes_both concludes_alternative concludes_Nil

lemma concludes_guard_NA:
  "concludes (KSI_RULE_TYPE_BASIC v # rs) c KSI_VER_RES_NA d \<longleftrightarrow>
     decides v c KSI_VER_RES_NA d \<or> (\<exists>c'. passes v c c' \<and> concludes rs c' KSI_VER_RES_NA d)"
  by (auto simp: concludes_basic concludes_Nil)

lemmas presence_defs =
  KSI_VerificationRule_Rfc3161DoesNotExist_def KSI_VerificationRule_Rfc3161Existence_def
  KSI_VerificationRule_SignatureDoesNotContainPublication_def KSI_VerificationRule_SignaturePublicationRecordExistence_def
  KSI_VerificationRule_SignaturePublicationRecordMissing_def KSI_VerificationRule_CalendarHashChainDoesNotExist_def
  KSI_VerificationRule_CalendarHashChainExistence_def KSI_VerificationRule_CalendarHashChainPresenceVerification_def
  KSI_VerificationRule_CalendarAuthenticationRecordExistence_def
  KSI_VerificationRule_CalendarAuthenticationRecordPresenceVerification_def
  KSI_VerificationRule_CalendarAuthenticationRecordDoesNotExist_def

section \<open>The internal policy\<close>

definition document_ok :: "KSI_DataHash option \<Rightarrow> KSI_Signature \<Rightarrow> bool" where
  "document_ok doc sig \<longleftrightarrow> (\<forall>d. doc = Some d \<longrightarrow> KSI_Signature_getDocumentHash sig = Inr (Some d))"

lemma documentHashRule_OK:
  assumes "signature c = Some sig"
  shows "concludes (documentHashRule E) c KSI_VER_RES_OK d \<longleftrightarrow> d = c \<and> document_ok (documentHash c) sig"
  using assms
  by (cases "documentHash c")
     (auto simp: documentHashRule_def noDocumentHashRule_def documentHashVerificationRule_def concludes_OK concludes_one
       DocumentHashDoesNotExist_decides DocumentHashExistence_decides InputHashAlgorithm_passes DocumentHash_passes document_ok_def)

definition rfc_algorithms_ok :: "KSI_Signature \<Rightarrow> bool" where
  "rfc_algorithms_ok sig \<longleftrightarrow> (\<forall>rfc. rfc3161 sig = Some rfc \<longrightarrow>
     (let t = to_time (rfc_aggregationTime rfc) in
        \<not> wasDeprecatedAt (to_int (KSI_Integer_getUInt64 (sigAttrAlgo rfc))) t
      \<and> \<not> wasDeprecatedAt (to_int (KSI_Integer_getUInt64 (tstInfoAlgo rfc))) t
      \<and> (\<exists>a. rfc3161_extractOutputHashAlgorithm sig = Inr a \<and> \<not> wasDeprecatedAt a t)))"

lemma rfc3161Rule_OK:
  assumes "signature c = Some sig"
  shows "concludes (rfc3161Rule E) c KSI_VER_RES_OK d \<longleftrightarrow> d = c \<and> rfc_algorithms_ok sig"
  using assms
  by (cases "rfc3161 sig")
     (auto simp: rfc3161Rule_def noRfc3161Rule_def rfc3161VerificationRule_def concludes_OK concludes_one presence_defs
       presence_decides RfcAlgorithms_passes RfcOutputAlgorithm_passes rfc_algorithms_ok_def Let_def)

lemma aggregate_keeps: "KSI_CalendarHashChain_aggregate D cal = Ok (h, cal') \<Longrightarrow> cal' = cal\<lparr>cal_outputHash := h\<rparr>"
  by (cases cal) (auto simp: KSI_CalendarHashChain_aggregate_def run_bind_eq_Ok split: if_splits)

lemma rooted_Some:
  assumes "signature c = Some sig" "calendarChain sig = Some cal" "KSI_CalendarHashChain_aggregate D cal = Ok (h, cal')"
  shows "rooted D c = set_sig c (sig\<lparr>calendarChain := Some (cal\<lparr>cal_outputHash := h\<rparr>)\<rparr>)"
  using assms aggregate_keeps by (simp add: rooted_def)

text \<open>The calendar chain is published by the record of the signature that is there.\<close>

definition authenticated :: "(int \<Rightarrow> bytes \<Rightarrow> bytes) \<Rightarrow> KSI_Signature \<Rightarrow> KSI_CalendarHashChain \<Rightarrow> bool" where
  "authenticated D sig cal \<longleftrightarrow>
     (case publication sig of
        Some pub \<Rightarrow> publishes D cal (publishedData pub)
      | None \<Rightarrow> (case calendarAuthRec sig of Some rec \<Rightarrow> publishes D cal (pubData rec) | None \<Rightarrow> True))"

lemma equals_Some:
  "KSI_Integer_equals a b \<longleftrightarrow> (\<exists>t. a = Some t \<and> b = Some t)" "KSI_DataHash_equals x y \<longleftrightarrow> (\<exists>h. x = Some h \<and> y = Some h)"
  by (auto simp: dataHash_equals_iff integer_equals_iff)

lemma publishes_iff:
  "publishes D cal pd \<longleftrightarrow>
     (\<exists>p h cal'. pd = Some p \<and> KSI_CalendarHashChain_aggregate D cal = Ok (h, cal') \<and> KSI_DataHash_equals h (pd_imprint p)
        \<and> KSI_Integer_equals (publicationTime cal) (pd_time p))"
  by (auto simp: publishes_def equals_Some)

lemma calendarAuthenticationRecordRule_decides:
  assumes "signature c = Some sig" "calendarChain sig = Some cal"
  shows "concludes (calendarAuthenticationRecordRule E) c KSI_VER_RES_OK d \<longleftrightarrow>
      (case calendarAuthRec sig of None \<Rightarrow> d = c | Some rec \<Rightarrow> d = rooted (digest E) c \<and> publishes (digest E) cal (pubData rec))"
    and "\<not> concludes (calendarAuthenticationRecordRule E) c KSI_VER_RES_NA d"
proof -
  note defs = calendarAuthenticationRecordRule_def noCalendarAuthenticationRecordRule_def
    calendarAuthenticationRecordVerificationRule_def presence_defs presence_decides AuthHash_decides AuthTime_decides
  show "concludes (calendarAuthenticationRecordRule E) c KSI_VER_RES_OK d \<longleftrightarrow>
      (case calendarAuthRec sig of None \<Rightarrow> d = c | Some rec \<Rightarrow> d = rooted (digest E) c \<and> publishes (digest E) cal (pubData rec))"
    using assms rooted_Some [OF assms, of "digest E"]
    by (cases "calendarAuthRec sig") (auto simp: defs concludes_OK concludes_one publishes_iff set_sig_def)
  show "\<not> concludes (calendarAuthenticationRecordRule E) c KSI_VER_RES_NA d"
    using assms rooted_Some [OF assms, of "digest E"]
    by (cases "calendarAuthRec sig") (auto simp: defs concludes_simps)
qed

lemma authentication_OK:
  assumes "signature c = Some sig" "calendarChain sig = Some cal"
  shows "(\<exists>d. concludes (publicationOrCalendarAuthenticationRecordRule E) c KSI_VER_RES_OK d) \<longleftrightarrow> authenticated (digest E) sig cal"
proof -
  note auth = calendarAuthenticationRecordRule_decides [OF assms, of E]
  note defs = publicationOrCalendarAuthenticationRecordRule_def noPublicationRecordRule_def publicationRecordVerificationRule_def
    presence_defs presence_decides PubHash_decides PubTime_decides
  show ?thesis
  proof (cases "publication sig")
    case None
    have "\<not> concludes (noPublicationRecordRule E) c KSI_VER_RES_NA d" for d
      using None assms auth by (auto simp: noPublicationRecordRule_def presence_defs presence_decides concludes_simps)
    then show ?thesis using None assms auth
      by (cases "calendarAuthRec sig") (auto simp: defs concludes_OK authenticated_def)
  next
    case (Some pub)
    then show ?thesis using assms rooted_Some [OF assms, of "digest E"]
      by (auto simp: defs concludes_OK concludes_guard_NA authenticated_def publishes_iff set_sig_def)
  qed
qed

text \<open>What is required of the calendar chain: it starts at the root \<open>root\<close> of the aggregation chains, at their time, its
  shape is that of its times, no algorithm was obsolete, and its root is published.\<close>

definition calendar_ok :: "(int \<Rightarrow> bytes \<Rightarrow> bytes) \<Rightarrow> KSI_Signature \<Rightarrow> KSI_DataHash option \<Rightarrow> KSI_CalendarHashChain \<Rightarrow> bool" where
  "calendar_ok D sig root cal \<longleftrightarrow>
     root \<noteq> None \<and> cal_inputHash cal = root
   \<and> (\<exists>first t x. element_at (aggregationChainList sig) 0 = Inr first \<and> aggregationTime first = Some t
        \<and> calendar_time_of cal = Some t \<and> KSI_CalendarHashChain_calculateAggregationTime (Some cal) = Inr x \<and> t = of_int x)
   \<and> calendar_algorithms wasObsoleteAt cal
   \<and> authenticated D sig cal"

lemma calendarRule_OK:
  assumes c: "signature c = Some sig" "tempData c = Some t" "aggregationOutputHash t = root"
    and none: "\<And>d. root = None \<Longrightarrow> \<not> passes (KSI_VerificationRule_CalendarHashChainInputHashVerification (digest E)) c d"
  shows "(\<exists>d. concludes (calendarHashChainRule_int E) c KSI_VER_RES_OK d) \<longleftrightarrow>
     (\<forall>cal. calendarChain sig = Some cal \<longrightarrow> calendar_ok (digest E) sig root cal)"
proof -
  note defs = calendarHashChainRule_int_def noCalendarHashChainRule_def calendarHashChainVerificationRule_def
    presence_defs presence_decides
  show ?thesis
  proof (cases "calendarChain sig")
    case None
    then show ?thesis using c(1) by (auto simp: defs concludes_OK)
  next
    case (Some cal)
    have "passes (KSI_VerificationRule_CalendarHashChainInputHashVerification (digest E)) c d \<longleftrightarrow> d = c \<and> root \<noteq> None \<and> cal_inputHash cal = root" for d
      using none CalendarInputHash_passes [OF c(1,2)] c(3) Some by (cases root) auto
    then show ?thesis using c(1) Some authentication_OK [OF c(1) Some, of E]
      by (auto simp: defs concludes_OK concludes_one CalendarTime_passes RegistrationTime_passes Obsolete_passes calendar_ok_def)
  qed
qed

section \<open>Chains without a result\<close>

lemma aggregateLoop_hash: "aggregateLoop D i b ks st = Ok st' \<Longrightarrow> ag_hsh st' = None \<Longrightarrow> ks = []"
proof (induction ks arbitrary: st)
  case (Cons k ks)
  have step: "ag_hsh st1 \<noteq> None" if "aggregate_step D i b k st = Ok st1" for st1
    using that by (auto simp: aggregate_step_def run_bind_eq_Ok Let_def split: if_splits)
  from Cons.prems obtain st1 where s: "aggregate_step D i b k st = Ok st1" "aggregateLoop D i b ks st1 = Ok st'"
    by (auto simp: run_bind_eq_Ok)
  then have "ks = []" using Cons by blast
  then show ?case using s step Cons.prems by simp
qed simp

text \<open>A chain object with an empty chain and no result never yields a hash value.\<close>

definition barren :: "KSI_AggregationHashChain \<Rightarrow> bool" where
  "barren c \<longleftrightarrow> outputHash c = None \<and> (chain c = None \<or> chain c = Some [])"

lemma aggregate_barren:
  "barren c \<Longrightarrow> KSI_AggregationHashChain_aggregate D c lvl = (Ok (l, h), c') \<Longrightarrow> h = None"
  by (auto simp: barren_def KSI_AggregationHashChain_aggregate_def Let_def KSI_HashChain_aggregate_def aggregateChain_def
      run_bind_eq_Ok split: if_splits run.splits option.splits)

lemma aggregate_no_hash:
  "KSI_AggregationHashChain_aggregate D c lvl = (Ok (l, None), c') \<Longrightarrow> barren c'"
  by (auto simp: barren_def KSI_AggregationHashChain_aggregate_def Let_def KSI_HashChain_aggregate_def aggregateChain_def
      run_bind_eq_Ok split: if_splits run.splits option.splits dest: aggregateLoop_hash)

lemma consistencyLoop_no_hash:
  "consistencyLoop D cs lvl h = (cs', Inr None) \<Longrightarrow> cs \<noteq> [] \<Longrightarrow> cs' \<noteq> [] \<and> barren (last cs')"
proof (induction cs arbitrary: lvl h cs')
  case (Cons c cs)
  then obtain l h' c1 cs1 where s: "KSI_AggregationHashChain_aggregate D c lvl = (Ok (l, h'), c1)"
    "consistencyLoop D cs l h' = (cs1, Inr None)" "cs' = c1 # cs1"
    by (auto split: if_splits prod.splits run.splits)
  then show ?case using Cons.IH aggregate_no_hash by (cases "cs = []") auto
qed simp

lemma aggregateList_barren:
  "aggregateList D cs lvl h = (Ok r, cs') \<Longrightarrow> cs \<noteq> [] \<Longrightarrow> barren (last cs) \<Longrightarrow> r = None"
proof (induction cs arbitrary: lvl h cs')
  case (Cons c cs)
  then obtain l h' c1 cs1 where s: "KSI_AggregationHashChain_aggregate D c lvl = (Ok (l, h'), c1)"
    "aggregateList D cs l h' = (Ok r, cs1)"
    by (auto split: if_splits prod.splits run.splits)
  then show ?case using Cons aggregate_barren by (cases "cs = []") auto
qed simp

lemma barren_no_calendar:
  assumes "signature c = Some sig" "aggregationChainList sig = Some cs" "cs = [] \<or> barren (last cs)"
    and "tempData c = Some t" "aggregationOutputHash t = None"
  shows "\<not> passes (KSI_VerificationRule_CalendarHashChainInputHashVerification D) c d"
proof -
  have "r = None" if "KSI_AggregationHashChainList_aggregate D (Some cs) lvl = (Ok r, cs')" for r lvl cs'
    using that assms(3) aggregateList_barren [of D cs lvl None r]
    by (cases "cs = []") (auto simp: KSI_AggregationHashChainList_aggregate_def split: if_splits)
  then have "output_hash (fst (initAggregationOutputHash D c)) = None"
    using assms
    by (auto simp: initAggregationOutputHash_def output_hash_def set_output_hash_def set_chains_def split: run.splits prod.splits)
  then show ?thesis using assms(1)
    by (auto simp: KSI_VerificationRule_CalendarHashChainInputHashVerification_def decides_rule step_Inr step_Inl)
qed

section \<open>Internal validity\<close>

definition chain_algorithm_ok :: "KSI_AggregationHashChain \<Rightarrow> bool" where
  "chain_algorithm_ok a \<longleftrightarrow> \<not> wasDeprecatedAt (to_int (KSI_Integer_getUInt64 (aggrHashId a))) (to_time (aggregationTime a))"

text \<open>The conditions on the input of the signature.\<close>

definition input_ok :: "(int \<Rightarrow> bytes \<Rightarrow> bytes) \<Rightarrow> KSI_VerificationContext \<Rightarrow> KSI_Signature \<Rightarrow> bool" where
  "input_ok D c sig \<longleftrightarrow>
     document_ok (documentHash c) sig
   \<and> level_fits c sig
   \<and> (\<exists>h t. KSI_Signature_getDocumentHash sig = Inr (Some h) \<and> KSI_Signature_getSigningTime sig = Inr t
        \<and> \<not> wasDeprecatedAt (int (unat (h ! 0))) (to_time t))
   \<and> rfc_algorithms_ok sig
   \<and> (rfc3161 sig \<noteq> None \<longrightarrow> (\<exists>h first. rfc3161_getOutputHash D sig = Inr h
        \<and> element_at (aggregationChainList sig) 0 = Inr first \<and> inputHash first = Some h))"

text \<open>The conditions on the aggregation chains.\<close>

definition chains_ok :: "KSI_Signature \<Rightarrow> KSI_AggregationHashChain list \<Rightarrow> bool" where
  "chains_ok sig cs \<longleftrightarrow>
     list_all metadata_ok cs \<and> list_all chain_algorithm_ok cs \<and> list_all shape_ok cs
   \<and> successively index_follows cs \<and> rfc_agrees (\<lambda>rfc first. elements (chainIndex first) = elements (rfc_chainIndex rfc)) sig
   \<and> successively time_follows cs \<and> rfc_agrees (\<lambda>rfc first. aggregationTime first = rfc_aggregationTime rfc) sig"

definition internally_valid :: "(int \<Rightarrow> bytes \<Rightarrow> bytes) \<Rightarrow> KSI_VerificationContext \<Rightarrow> KSI_Signature \<Rightarrow> bool" where
  "internally_valid D c sig \<longleftrightarrow>
     (\<exists>cs root. aggregationChainList sig = Some cs \<and> input_ok D c sig \<and> chains_ok sig cs
        \<and> joined D (map nested_chain cs) 0 None root
        \<and> (\<forall>cal. calendarChain sig = Some cal \<longrightarrow> calendar_ok D sig root cal))"

definition tail_rules :: "verify_env \<Rightarrow> KSI_VerificationContext KSI_Rule list" where
  "tail_rules E = drop 6 (internalRules E)"

lemma getDocumentHash_chains:
  "KSI_Signature_getDocumentHash sig = Inr h \<Longrightarrow> rfc3161 sig = None \<Longrightarrow> \<exists>cs. aggregationChainList sig = Some cs"
  by (cases "aggregationChainList sig") (auto simp: KSI_Signature_getDocumentHash_def element_at_def)

lemma input_ok_chains: "input_ok D c sig \<Longrightarrow> \<exists>cs. aggregationChainList sig = Some cs \<and> cs \<noteq> []"
  by (cases "rfc3161 sig"; cases "aggregationChainList sig")
     (auto simp: input_ok_def KSI_Signature_getDocumentHash_def element_at_def)

lemma front_rules_OK:
  assumes "signature c = Some sig"
  shows "concludes (internalRules E) c KSI_VER_RES_OK d \<longleftrightarrow>
     input_ok (digest E) c sig \<and> list_all metadata_ok (elements (aggregationChainList sig))
   \<and> concludes (tail_rules E) (set_chains c (map nested_chain (elements (aggregationChainList sig)))) KSI_VER_RES_OK d"
proof -
  have tail: "tail_rules E = KSI_RULE_TYPE_BASIC KSI_VerificationRule_AggregationChainHashAlgorithmVerification # drop 7 (internalRules E)"
    by (simp add: tail_rules_def internalRules_def)
  have "internalRules E = [KSI_RULE_TYPE_COMPOSITE_AND (documentHashRule E),
     KSI_RULE_TYPE_BASIC KSI_VerificationRule_AggregationChainInputLevelVerification,
     KSI_RULE_TYPE_BASIC KSI_VerificationRule_AggregationChainInputHashAlgorithmVerification,
     KSI_RULE_TYPE_COMPOSITE_AND (rfc3161Rule E),
     KSI_RULE_TYPE_BASIC (KSI_VerificationRule_AggregationChainInputHashVerification (digest E)),
     KSI_RULE_TYPE_BASIC KSI_VerificationRule_AggregationChainMetaDataVerification] @ tail_rules E"
    by (simp add: tail_rules_def internalRules_def)
  moreover have "tail_rules E \<noteq> []" by (simp add: tail)
  ultimately show ?thesis using assms
    by (auto simp: concludes_OK documentHashRule_OK rfc3161Rule_OK InputLevel_passes InputHashAlgorithmAt_passes
        RfcInputHash_passes MetaData_passes input_ok_def)
qed


lemma consistency_context:
  assumes "signature c = Some sig" "aggregationChainList sig = Some cs" "tempData c = Some t"
  shows "signature (set_output_hash (set_chains c cs') r) = Some (sig\<lparr>aggregationChainList := Some cs'\<rparr>)"
    and "tempData (set_output_hash (set_chains c cs') r) = Some (t\<lparr>aggregationOutputHash := r\<rparr>)"
  using assms by (simp_all add: set_output_hash_def set_chains_def)

lemma calendar_ok_same:
  assumes "aggregationChainList sig = Some (c # cs)" "aggregationTime c' = aggregationTime c"
  shows "calendar_ok D (sig\<lparr>aggregationChainList := Some (c' # cs')\<rparr>) root cal = calendar_ok D sig root cal"
  using assms by (simp add: calendar_ok_def element_at_def authenticated_def split: option.split)

lemma last_rules_OK:
  assumes c: "signature c = Some sig" "aggregationChainList sig = Some cs" "tempData c = Some t" and "cs \<noteq> []"
    and l: "consistencyLoop (digest E) cs 0 None = (cs', Inr root)"
  shows "(\<exists>d. concludes (drop 10 (internalRules E)) (set_output_hash (set_chains c cs') root) KSI_VER_RES_OK d) \<longleftrightarrow>
     list_all shape_ok cs \<and> (\<forall>cal. calendarChain sig = Some cal \<longrightarrow> calendar_ok (digest E) sig root cal)"
proof -
  let ?c = "set_output_hash (set_chains c cs') root"
  note sig' = consistency_context [OF c, of cs' root]
  have same: "list_all2 same_chain cs cs'" by (rule consistencyLoop_same [OF l])
  then obtain a as b bs where ab: "cs = a # as" "cs' = b # bs" "same_chain a b"
    using \<open>cs \<noteq> []\<close> by (auto simp: neq_Nil_conv list_all2_Cons1)
  have none: "\<not> passes (KSI_VerificationRule_CalendarHashChainInputHashVerification (digest E)) ?c d" if r: "root = None" for d
    using consistencyLoop_no_hash [OF l [unfolded r] \<open>cs \<noteq> []\<close>]
    by (intro barren_no_calendar [OF sig'(1) _ _ sig'(2)]) (auto simp: r)
  have "drop 10 (internalRules E) = [KSI_RULE_TYPE_BASIC KSI_VerificationRule_AggregationHashChainIndexConsistency,
     KSI_RULE_TYPE_COMPOSITE_AND (calendarHashChainRule_int E)]"
    by (simp add: internalRules_def)
  moreover have "(\<exists>d. concludes (calendarHashChainRule_int E) ?c KSI_VER_RES_OK d) \<longleftrightarrow>
     (\<forall>cal. calendarChain sig = Some cal \<longrightarrow> calendar_ok (digest E) sig root cal)"
    using calendarRule_OK [OF sig' refl, of E] none calendar_ok_same [of sig a as b "digest E" bs] ab c(2) by (simp add: same_chain_def)
  ultimately show ?thesis using sig'(1) shape_ok_same [OF same] by (auto simp: concludes_OK Shape_passes)
qed

lemma tail_rules_run:
  assumes c: "signature c = Some sig" "aggregationChainList sig = Some cs" "tempData c = Some t" and "cs \<noteq> []"
  shows "(\<exists>d. concludes (tail_rules E) c KSI_VER_RES_OK d) \<longleftrightarrow>
     list_all chain_algorithm_ok cs \<and> list_all shape_ok cs
   \<and> successively index_follows cs \<and> rfc_agrees (\<lambda>rfc first. elements (chainIndex first) = elements (rfc_chainIndex rfc)) sig
   \<and> successively time_follows cs \<and> rfc_agrees (\<lambda>rfc first. aggregationTime first = rfc_aggregationTime rfc) sig
   \<and> (\<exists>cs' root. consistencyLoop (digest E) cs 0 None = (cs', Inr root) \<and> (\<forall>cal. calendarChain sig = Some cal \<longrightarrow> calendar_ok (digest E) sig root cal))"
proof -
  have tail: "tail_rules E = [KSI_RULE_TYPE_BASIC KSI_VerificationRule_AggregationChainHashAlgorithmVerification,
     KSI_RULE_TYPE_BASIC KSI_VerificationRule_AggregationHashChainIndexContinuation,
     KSI_RULE_TYPE_BASIC KSI_VerificationRule_AggregationHashChainTimeConsistency,
     KSI_RULE_TYPE_BASIC (KSI_VerificationRule_AggregationHashChainConsistency (digest E))] @ drop 10 (internalRules E)"
    "drop 10 (internalRules E) \<noteq> []"
    by (simp_all add: tail_rules_def internalRules_def)
  have "(\<exists>d. concludes (tail_rules E) c KSI_VER_RES_OK d) \<longleftrightarrow>
      list_all chain_algorithm_ok cs \<and> successively index_follows cs
     \<and> rfc_agrees (\<lambda>rfc first. elements (chainIndex first) = elements (rfc_chainIndex rfc)) sig
     \<and> successively time_follows cs \<and> rfc_agrees (\<lambda>rfc first. aggregationTime first = rfc_aggregationTime rfc) sig
     \<and> (\<exists>cs' root. consistencyLoop (digest E) cs 0 None = (cs', Inr root)
        \<and> (\<exists>d. concludes (drop 10 (internalRules E)) (set_output_hash (set_chains c cs') root) KSI_VER_RES_OK d))"
    unfolding tail(1) using c tail(2)
    by (auto simp: concludes_OK ChainAlgorithm_passes IndexContinuation_passes Time_passes Consistency_passes
        chain_algorithm_ok_def list_all_iff)
  then show ?thesis using last_rules_OK [OF c \<open>cs \<noteq> []\<close>, of E] by blast
qed

lemma tail_rules_OK:
  assumes c: "signature c = Some sig" "aggregationChainList sig = Some cs" "tempData c = Some t"
    and "cs \<noteq> []" and fresh: "list_all fresh_chain cs"
  shows "(\<exists>d. concludes (tail_rules E) c KSI_VER_RES_OK d) \<longleftrightarrow>
     list_all chain_algorithm_ok cs \<and> list_all shape_ok cs
   \<and> successively index_follows cs \<and> rfc_agrees (\<lambda>rfc first. elements (chainIndex first) = elements (rfc_chainIndex rfc)) sig
   \<and> successively time_follows cs \<and> rfc_agrees (\<lambda>rfc first. aggregationTime first = rfc_aggregationTime rfc) sig
   \<and> (\<exists>root. joined (digest E) cs 0 None root \<and> (\<forall>cal. calendarChain sig = Some cal \<longrightarrow> calendar_ok (digest E) sig root cal))"
  using tail_rules_run [OF c \<open>cs \<noteq> []\<close>, of E] consistencyLoop_joined [OF fresh, of "digest E" 0 None] by metis

lemma nested_successively:
  "(\<And>a b. P (nested_chain a) (nested_chain b) = P a b) \<Longrightarrow> successively P (map nested_chain cs) = successively P cs"
  by (simp add: successively_map)

lemma rfc_agrees_nested:
  assumes "aggregationChainList sig = Some cs" "\<And>rfc a. P rfc (nested_chain a) = P rfc a"
  shows "rfc_agrees P (sig\<lparr>aggregationChainList := Some (map nested_chain cs)\<rparr>) = rfc_agrees P sig"
  using assms by (cases cs) (auto simp: rfc_agrees_def element_at_def)

lemma internalRules_OK:
  assumes c: "signature c = Some sig" "tempData c = Some t" and fresh: "list_all fresh_chain (elements (aggregationChainList sig))"
  shows "(\<exists>d. concludes (internalRules E) c KSI_VER_RES_OK d) \<longleftrightarrow> internally_valid (digest E) c sig"
proof (cases "input_ok (digest E) c sig")
  case True
  then obtain cs where cs: "aggregationChainList sig = Some cs" "cs \<noteq> []" using input_ok_chains by blast
  let ?cs = "map nested_chain cs"
  let ?sig = "sig\<lparr>aggregationChainList := Some ?cs\<rparr>"
  have c': "signature (set_chains c ?cs) = Some ?sig" "aggregationChainList ?sig = Some ?cs" "tempData (set_chains c ?cs) = Some t"
    "?cs \<noteq> []" "list_all fresh_chain ?cs"
    using c cs fresh by (simp_all add: set_chains_def list_all_iff fresh_chain_def)
  have cal: "calendar_ok D ?sig root k = calendar_ok D sig root k" for D root k
    using cs by (cases cs) (simp_all add: calendar_ok_same)
  have same: "list_all chain_algorithm_ok ?cs = list_all chain_algorithm_ok cs" "list_all shape_ok ?cs = list_all shape_ok cs"
    "successively index_follows ?cs = successively index_follows cs" "successively time_follows ?cs = successively time_follows cs"
    by (auto simp: list_all_iff chain_algorithm_ok_def index_follows_def time_follows_def intro!: nested_successively)
  have "(\<exists>d. concludes (internalRules E) c KSI_VER_RES_OK d) \<longleftrightarrow>
      list_all metadata_ok cs \<and> (\<exists>d. concludes (tail_rules E) (set_chains c ?cs) KSI_VER_RES_OK d)"
    using front_rules_OK [OF c(1)] True cs by simp
  then show ?thesis
    unfolding tail_rules_OK [OF c'] internally_valid_def chains_ok_def
    by (simp add: True cs same cal rfc_agrees_nested [OF cs(1)])
next
  case False
  then show ?thesis using front_rules_OK [OF c(1)] by (auto simp: internally_valid_def)
qed

section \<open>The verifier on the rules of the library\<close>

lemmas rule_defs =
  KSI_VerificationRule_Rfc3161DoesNotExist_def KSI_VerificationRule_Rfc3161Existence_def
  KSI_VerificationRule_SignatureDoesNotContainPublication_def
  KSI_VerificationRule_SignaturePublicationRecordExistence_def
  KSI_VerificationRule_SignaturePublicationRecordMissing_def KSI_VerificationRule_CalendarHashChainDoesNotExist_def
  KSI_VerificationRule_CalendarHashChainExistence_def KSI_VerificationRule_CalendarHashChainPresenceVerification_def
  KSI_VerificationRule_CalendarAuthenticationRecordExistence_def
  KSI_VerificationRule_CalendarAuthenticationRecordPresenceVerification_def
  KSI_VerificationRule_CalendarAuthenticationRecordDoesNotExist_def KSI_VerificationRule_DocumentHashDoesNotExist_def
  KSI_VerificationRule_DocumentHashExistence_def KSI_VerificationRule_InputHashAlgorithmVerification_def
  KSI_VerificationRule_DocumentHashVerification_def KSI_VerificationRule_AggregationChainInputLevelVerification_def
  KSI_VerificationRule_AggregationChainInputHashAlgorithmVerification_def
  KSI_VerificationRule_AggregationChainHashAlgorithmVerification_def
  KSI_VerificationRule_Rfc3161RecordHashAlgorithmVerification_def
  KSI_VerificationRule_Rfc3161RecordOutputHashAlgorithmVerification_def
  KSI_VerificationRule_AggregationChainInputHashVerification_def
  KSI_VerificationRule_AggregationChainMetaDataVerification_def
  KSI_VerificationRule_AggregationHashChainConsistency_def
  KSI_VerificationRule_AggregationHashChainTimeConsistency_def
  KSI_VerificationRule_AggregationHashChainIndexContinuation_def
  KSI_VerificationRule_AggregationHashChainIndexConsistency_def
  KSI_VerificationRule_CalendarHashChainInputHashVerification_def
  KSI_VerificationRule_CalendarHashChainAggregationTime_def KSI_VerificationRule_CalendarHashChainRegistrationTime_def
  KSI_VerificationRule_CalendarChainHashAlgorithmObsoleteAtPubTime_def
  KSI_VerificationRule_CalendarAuthenticationRecordAggregationHash_def
  KSI_VerificationRule_CalendarAuthenticationRecordAggregationTime_def
  KSI_VerificationRule_SignaturePublicationRecordPublicationHash_def
  KSI_VerificationRule_SignaturePublicationRecordPublicationTime_def
  KSI_VerificationRule_ExtendedSignatureCalendarChainRightLinksMatch_def
  KSI_VerificationRule_ExtendedSignatureCalendarChainRootHash_def
  KSI_VerificationRule_ExtendedSignatureCalendarChainInputHash_def
  KSI_VerificationRule_ExtendedSignatureCalendarChainAggregationTime_def
  KSI_VerificationRule_CalendarHashChainHashAlgorithmDeprecatedAtPubTime_def
  KSI_VerificationRule_PublicationsFileSignatureCalendarChainHashAlgorithmDeprecatedAtPubTime_def
  KSI_VerificationRule_UserProvidedPublicationSignatureCalendarChainHashAlgorithmDeprecatedAtPubTime_def
  KSI_VerificationRule_PublicationsFileExtendingPermittedVerification_def
  KSI_VerificationRule_UserProvidedPublicationExtendingPermittedVerification_def
  KSI_VerificationRule_CertificateExistence_def KSI_VerificationRule_CertificateValidity_def
  KSI_VerificationRule_CalendarAuthenticationRecordSignatureVerification_def
  KSI_VerificationRule_PublicationsFileContainsSignaturePublication_def
  KSI_VerificationRule_PublicationsFileDoesNotContainSignaturePublication_def
  KSI_VerificationRule_PublicationsFileSignaturePublicationVerification_def
  KSI_VerificationRule_PublicationsFileContainsSuitablePublication_def
  KSI_VerificationRule_PublicationsFileExtendedCalendarChainHashAlgorithmDeprecatedAtPubTime_def
  KSI_VerificationRule_PublicationsFilePublicationHashMatchesExtenderResponse_def
  KSI_VerificationRule_PublicationsFilePublicationTimeMatchesExtenderResponse_def
  KSI_VerificationRule_PublicationsFileExtendedSignatureInputHash_def
  KSI_VerificationRule_UserProvidedPublicationExistence_def KSI_VerificationRule_RequireNoUserProvidedPublication_def
  KSI_VerificationRule_UserProvidedPublicationTimeVerification_def
  KSI_VerificationRule_UserProvidedPublicationTimeDoesNotSuit_def
  KSI_VerificationRule_UserProvidedPublicationHashVerification_def
  KSI_VerificationRule_UserProvidedPublicationCreationTimeVerification_def
  KSI_VerificationRule_UserProvidedPublicationExtendedCalendarChainHashAlgorithmDeprecatedAtPubTime_def
  KSI_VerificationRule_UserProvidedPublicationHashMatchesExtendedResponse_def
  KSI_VerificationRule_UserProvidedPublicationTimeMatchesExtendedResponse_def
  KSI_VerificationRule_UserProvidedPublicationExtendedSignatureInputHash_def presence_rule_def
  signatureCalendarChainHashAlgorithmDeprecatedAtPubTime_def extendingPermittedVerification_def

lemmas table_defs =
  emptyRules_def noCalendarAuthenticationRecordRule_def calendarAuthenticationRecordVerificationRule_def
  publicationRecordVerificationRule_def calendarAuthenticationRecordRule_def noPublicationRecordRule_def
  publicationOrCalendarAuthenticationRecordRule_def noCalendarHashChainRule_def calendarHashChainVerificationRule_def
  calendarHashChainRule_int_def noDocumentHashRule_def documentHashVerificationRule_def documentHashRule_def
  noRfc3161Rule_def rfc3161VerificationRule_def rfc3161Rule_def internalRules_def
  CalendarChainRightLinksVerificationRule_def CalendarChainRootHashVerificationRule_def publicationRecordRule_cal_def
  extendToHeadRule_def extendToCalendarChainRule_def calendarHashChainRule_cal_def calendarBasedRules_def
  keyBasedRules_def extendToPublication_def suitablePubExist_pubFile_def suitablePubMissing_pubFile_def
  sigPubRecExist_pubFile_def sigPubRecMissing_pubFile_def publicationRecordRule_pubFile_def
  publicationsFileBasedRules_def extendToUserPublication_def suitablePubExist_def suitablePubMissing_def
  sigPubRecExist_def sigPubRecMissing_def publicationRecordRule_pubString_def userProvidedPublicationBasedRules_def
  generalRules_def

lemma AlwaysOk_rule: "KSI_VerificationRule_AlwaysOk = verification_rule ''KSI_VerificationRule_AlwaysOk'' 0 pass"
  by (intro ext) (simp add: KSI_VerificationRule_AlwaysOk_def verification_rule_def VERIFICATION_START_def VERIFICATION_RESULT_OK_def)

lemma is_rule_AlwaysOk [simp]: "is_rule KSI_VerificationRule_AlwaysOk"
  by (simp add: AlwaysOk_rule)

lemma internal_is_rule: "list_all is_rule (basics (internalRules E))"
  by (simp add: table_defs rule_defs)

lemma general_is_rule: "list_all is_rule (basics (generalRules E))"
  by (simp add: table_defs rule_defs)

lemma predefined_is_rule:
  "pol \<in> set (predefined_policies E) \<Longrightarrow> \<exists>rs. pol_rules pol = Some rs \<and> fallbackPolicy pol = None \<and> list_all is_rule (basics rs)"
  by (auto simp: predefined_policies_def) (simp_all add: table_defs rule_defs)

text \<open>The verifier accepts a signature: it returns regularly, with a positive result.\<close>

definition accepts :: "KSI_VerificationContext KSI_Policy list \<Rightarrow> nat \<Rightarrow> KSI_VerificationContext \<Rightarrow> bool" where
  "accepts m p c =
     (case KSI_SignatureVerifier_verify m (Some p) c of
        Some (Ok r, c') \<Rightarrow> resultCode (finalResult r) = KSI_VER_RES_OK
      | _ \<Rightarrow> False)"

lemma accepts_single:
  assumes "pol_rules (m ! p) = Some rs" "fallbackPolicy (m ! p) = None" "list_all is_rule (basics rs)"
  shows "accepts m p c \<longleftrightarrow> (\<exists>d. concludes rs (begin_verification c) KSI_VER_RES_OK d)"
proof -
  let ?t = "PolicyVerificationResult_create\<lparr>finalResult :=
      (finalResult PolicyVerificationResult_create)\<lparr>policyName := Some (pol_policyName (m ! p))\<rparr>\<rparr>"
  obtain res d t where v: "Rule_verify rs (begin_verification c) ?t = (res, d, t)" by (metis prod_cases3)
  have "policyLoop m (Some p) (begin_verification c) PolicyVerificationResult_create =
     Some (res, d, if res = Ok () then PolicyVerificationResult_addLatestPolicyResult t else t)"
    using v assms
    by (subst policyLoop.simps) (simp add: Policy_verifySignature_def policyLoop.simps [of m None])
  then show ?thesis using rules.Rule_verify_iff [OF assms(3) v]
    by (cases res) (auto simp: accepts_def KSI_SignatureVerifier_verify_def PolicyVerificationResult_addLatestPolicyResult_def)
qed

lemma accepts_predefined:
  assumes "p < length (predefined_policies E)"
  shows "accepts (predefined_policies E) p c \<longleftrightarrow>
     (\<exists>d. concludes (the (pol_rules (predefined_policies E ! p))) (begin_verification c) KSI_VER_RES_OK d)"
proof -
  obtain rs where "pol_rules (predefined_policies E ! p) = Some rs" "fallbackPolicy (predefined_policies E ! p) = None"
    "list_all is_rule (basics rs)"
    using predefined_is_rule [OF nth_mem [OF assms]] by blast
  then show ?thesis using accepts_single by simp
qed

lemma internally_valid_begin [simp]: "internally_valid D (begin_verification c) sig = internally_valid D c sig"
  by (simp add: internally_valid_def input_ok_def level_fits_def begin_verification_def)

text \<open>C1. Internal verification is exact.  The verifier accepts a signature that keeps no earlier results under the
  internal policy exactly when the signature is internally valid: the document and its level fit, no algorithm was
  deprecated at its time, metadata are safe, chain indices and times continue, the chains join up to a root from
  which the calendar chain goes on at the time its shape encodes, and the record in the signature publishes its
  root.\<close>

theorem internal_policy_exact:
  assumes "signature c = Some sig" and "list_all fresh_chain (elements (aggregationChainList sig))"
  shows "accepts (predefined_policies E) 1 c \<longleftrightarrow> internally_valid (digest E) c sig"
proof -
  have b: "signature (begin_verification c) = Some sig" "tempData (begin_verification c) = Some VerificationTempData_empty"
    using assms by (simp_all add: begin_verification_def)
  have "accepts (predefined_policies E) 1 c \<longleftrightarrow> (\<exists>d. concludes (internalRules E) (begin_verification c) KSI_VER_RES_OK d)"
    using accepts_predefined [of 1 E c] by (simp add: predefined_policies_def)
  then show ?thesis using internalRules_OK [OF b assms(2), of E] by simp
qed

section \<open>A sample\<close>

definition sample_digest :: "int \<Rightarrow> bytes \<Rightarrow> bytes" where
  "sample_digest a m = replicate (KSI_getHashLength a) (of_nat (length m))"

definition sample_env :: verify_env where
  "sample_env = \<lparr>digest = sample_digest, extendService = \<lambda>n r. Inl KSI_NETWORK_ERROR, receivePublicationsFile = \<lambda>n. Inl KSI_NETWORK_ERROR,
     verifyPublicationsFile = \<lambda>pf. None, verifyRawSignature = \<lambda>d t s c. None, validityNotBefore = \<lambda>c. Inr 0, validityNotAfter = \<lambda>c. Inr 10\<rparr>"

definition sample_link :: "bool \<Rightarrow> KSI_HashChainLink" where
  "sample_link left = \<lparr>isLeft = left, levelCorrection = None, legacyId = None, metaData = None, imprint = Some [1, 2]\<rparr>"

definition sample_chain :: KSI_AggregationHashChain where
  "sample_chain = KSI_AggregationHashChain_new\<lparr>aggregationTime := Some 1, chainIndex := Some [3], inputHash := Some [1, 9],
     aggrHashId := Some 1, chain := Some [sample_link True]\<rparr>"

definition sample_calendar :: KSI_CalendarHashChain where
  "sample_calendar = KSI_CalendarHashChain_new\<lparr>publicationTime := Some 1, cal_aggregationTime := Some 1,
     cal_inputHash := Some (1 # replicate 32 5), hashChain := Some [sample_link False]\<rparr>"

definition sample_publication :: KSI_PublicationData where
  "sample_publication = \<lparr>pd_time = Some 1, pd_imprint = Some (1 # replicate 32 36), pd_baseTlv = None\<rparr>"

definition sample_signed :: "KSI_PublicationRecord option \<Rightarrow> KSI_CalendarAuthRec option \<Rightarrow> KSI_Signature" where
  "sample_signed pub rec = \<lparr>calendarChain = Some sample_calendar, aggregationChainList = Some [sample_chain], rfc3161 = None,
     calendarAuthRec = rec, publication = pub\<rparr>"

definition sample_signature :: KSI_Signature where
  "sample_signature = sample_signed (Some \<lparr>publishedData = Some sample_publication, publicationRef = None, repositoryUriList = None\<rparr>) None"

definition sample_context :: KSI_VerificationContext where
  "sample_context = \<lparr>signature = Some sample_signature, extendingAllowed = 0, docAggrLevel = 0, documentHash = Some [1, 9],
     userPublication = None, userPublicationsFile = None, tempData = None, lastFailedSignature = None, netCalls = 0\<rparr>"

lemmas sample_defs = sample_digest_def sample_env_def sample_link_def sample_chain_def sample_calendar_def sample_publication_def
  sample_signed_def sample_signature_def sample_context_def

lemma sample_checks:
  "KSI_HashChain_aggregate sample_digest (chain sample_chain) (inputHash sample_chain) 0 1 = Ok (1, Some (1 # replicate 32 5))"
  "KSI_CalendarHashChain_aggregate sample_digest sample_calendar =
     Ok (Some (1 # replicate 32 36), sample_calendar\<lparr>cal_outputHash := Some (1 # replicate 32 36)\<rparr>)"
  "KSI_CalendarHashChain_calculateAggregationTime (Some sample_calendar) = Inr 1"
  "shape_bits (elements (chain sample_chain)) = 3"
  "\<not> wasDeprecatedAt 1 1"
  by code_simp+

lemma sample_valid:
  assumes "authenticated sample_digest (sample_signed pub rec) sample_calendar" "documentHash c = Some [1, 9]" "docAggrLevel c = 0"
  shows "internally_valid sample_digest c (sample_signed pub rec)"
proof -
  let ?sig = "sample_signed pub rec"
  have i: "input_ok sample_digest c ?sig"
    using sample_checks(5) assms(2,3)
    by (simp add: input_ok_def document_ok_def level_fits_def rfc_algorithms_ok_def KSI_Signature_getDocumentHash_def
        KSI_Signature_getSigningTime_def to_time_def KSI_Integer_getUInt64_def sample_defs element_at_def)
  have c: "chains_ok ?sig [sample_chain]"
    using sample_checks(4,5)
    by (simp add: chains_ok_def metadata_ok_def chain_algorithm_ok_def shape_ok_def rfc_agrees_def sample_defs
        to_int_def to_time_def KSI_Integer_getUInt64_def)
  have n: "map nested_chain [sample_chain] = [sample_chain]"
    by (simp add: nested_chain_def nested_link_def sample_defs)
  have j: "joined sample_digest [sample_chain] 0 None (Some (1 # replicate 32 5))"
    using sample_checks(1) by (intro joined_Cons [where a = 1] joined_Nil) (simp_all add: sample_chain_def to_int_def)
  have k: "calendar_ok sample_digest ?sig (Some (1 # replicate 32 5)) sample_calendar"
    using sample_checks(2,3) assms(1)
    by (simp add: calendar_ok_def calendar_time_of_def calendar_algorithms_def left_algorithms_def
        sample_defs element_at_def)
  show ?thesis unfolding internally_valid_def using i c n j k by (intro exI conjI) (auto simp: sample_signed_def)
qed

lemma sample_published: "authenticated sample_digest sample_signature sample_calendar"
  using sample_checks(2) by (simp add: authenticated_def publishes_def sample_defs)

lemma sample_fresh: "list_all fresh_chain (elements (aggregationChainList (sample_signed pub rec)))"
  by (simp add: fresh_chain_def KSI_AggregationHashChain_new_def sample_defs)

theorem internal_policy_exact_witness:
  "accepts (predefined_policies sample_env) 1 sample_context"
proof -
  have "internally_valid sample_digest sample_context sample_signature"
    using sample_valid sample_published by (simp add: sample_signature_def sample_context_def)
  then show ?thesis
    using internal_policy_exact [of sample_context sample_signature sample_env] sample_fresh
    by (simp add: sample_context_def sample_env_def sample_signature_def)
qed

end
