(* ===== verification/PolicyGuarantees.thy ===== *)
theory PolicyGuarantees
  imports VerificationPolicy
begin

text \<open>
  What the policies beyond the internal one guarantee.  The rules of the internal policy only change what objects keep
  for later, so that the rules behind them see the same signature; on this basis the outcome of the key-based policy
  is characterised, and that of the policies that rely on the extender and on publications.
\<close>

section \<open>What verification leaves alone\<close>

text \<open>Two calendar chains that differ at most in the root the object keeps; the roots they yield are the same.\<close>

definition same_calendar :: "(int \<Rightarrow> bytes \<Rightarrow> bytes) \<Rightarrow> KSI_CalendarHashChain \<Rightarrow> KSI_CalendarHashChain \<Rightarrow> bool" where
  "same_calendar D a b \<longleftrightarrow> publicationTime b = publicationTime a \<and> cal_aggregationTime b = cal_aggregationTime a
     \<and> cal_inputHash b = cal_inputHash a \<and> hashChain b = hashChain a
     \<and> map_run fst (KSI_CalendarHashChain_aggregate D b) = map_run fst (KSI_CalendarHashChain_aggregate D a)"

definition similar_chain :: "KSI_AggregationHashChain \<Rightarrow> KSI_AggregationHashChain \<Rightarrow> bool" where
  "similar_chain a b \<longleftrightarrow> aggregationTime b = aggregationTime a \<and> inputHash b = inputHash a"

definition same_signature :: "(int \<Rightarrow> bytes \<Rightarrow> bytes) \<Rightarrow> KSI_Signature \<Rightarrow> KSI_Signature \<Rightarrow> bool" where
  "same_signature D a b \<longleftrightarrow> rfc3161 b = rfc3161 a \<and> calendarAuthRec b = calendarAuthRec a \<and> publication b = publication a
     \<and> rel_option (same_calendar D) (calendarChain a) (calendarChain b)
     \<and> rel_option (list_all2 similar_chain) (aggregationChainList a) (aggregationChainList b)"

definition same_temp :: "VerificationTempData \<Rightarrow> VerificationTempData \<Rightarrow> bool" where
  "same_temp a b \<longleftrightarrow> tmp_calendarChain b = tmp_calendarChain a \<and> tmp_publicationsFile b = tmp_publicationsFile a"

definition frame :: "(int \<Rightarrow> bytes \<Rightarrow> bytes) \<Rightarrow> KSI_VerificationContext \<Rightarrow> KSI_VerificationContext \<Rightarrow> bool" where
  "frame D c d \<longleftrightarrow> extendingAllowed d = extendingAllowed c \<and> docAggrLevel d = docAggrLevel c \<and> documentHash d = documentHash c
     \<and> userPublication d = userPublication c \<and> userPublicationsFile d = userPublicationsFile c
     \<and> lastFailedSignature d = lastFailedSignature c \<and> netCalls d = netCalls c
     \<and> rel_option (same_signature D) (signature c) (signature d) \<and> rel_option same_temp (tempData c) (tempData d)"

lemma same_calendar_refl [simp]: "same_calendar D a a" by (simp add: same_calendar_def)
lemma same_calendar_trans: "same_calendar D a b \<Longrightarrow> same_calendar D b c \<Longrightarrow> same_calendar D a c" by (simp add: same_calendar_def)
lemma similar_chain_refl [simp]: "similar_chain a a" by (simp add: similar_chain_def)
lemma similar_chain_trans: "similar_chain a b \<Longrightarrow> similar_chain b c \<Longrightarrow> similar_chain a c" by (simp add: similar_chain_def)
lemma same_temp_refl [simp]: "same_temp a a" by (simp add: same_temp_def)
lemma same_temp_trans: "same_temp a b \<Longrightarrow> same_temp b c \<Longrightarrow> same_temp a c" by (auto simp: same_temp_def)

lemma rel_option_trans: "(\<And>x y z. R x y \<Longrightarrow> R y z \<Longrightarrow> R x z) \<Longrightarrow> rel_option R a b \<Longrightarrow> rel_option R b c \<Longrightarrow> rel_option R a c"
  by (cases a; cases b; cases c) auto

lemma similar_chains_refl [simp]: "list_all2 similar_chain cs cs"
  by (simp add: list_all2_refl)

lemma similar_chains_trans: "list_all2 similar_chain a b \<Longrightarrow> list_all2 similar_chain b c \<Longrightarrow> list_all2 similar_chain a c"
  by (rule list_all2_trans [of similar_chain similar_chain similar_chain]) (auto intro: similar_chain_trans)

lemma same_signature_refl [simp]: "same_signature D a a"
  by (simp add: same_signature_def option.rel_refl)

lemma same_signature_trans: "same_signature D a b \<Longrightarrow> same_signature D b c \<Longrightarrow> same_signature D a c"
  by (auto simp: same_signature_def intro: rel_option_trans [OF same_calendar_trans] rel_option_trans [OF similar_chains_trans])

lemma frame_refl [simp]: "frame D c c"
  by (simp add: frame_def option.rel_refl)

lemma frame_trans: "frame D a b \<Longrightarrow> frame D b c \<Longrightarrow> frame D a c"
  by (auto simp: frame_def intro: rel_option_trans [OF same_signature_trans] rel_option_trans [OF same_temp_trans])

text \<open>Any relation of this kind passes from basic rules to arrays.\<close>

lemma concludes_preserves:
  assumes "concludes rs c code d"
    and "\<And>v c code d. v \<in> set (basics rs) \<Longrightarrow> decides v c code d \<Longrightarrow> R c d"
    and "\<And>a b c. R a b \<Longrightarrow> R b c \<Longrightarrow> R a c"
  shows "R c d"
  using assms(1,2)
proof (induction rule: concludes.induct)
  case (basic_next v c c' rs code c'')
  then have "R c c'" "R c' c''" by auto
  then show ?case by (rule assms(3))
next
  case (and_next sub c c' rs code c'')
  then show ?case using assms(3) [of c c' c''] by auto
next
  case (or_next sub c c' rs code c'')
  then show ?case using assms(3) [of c c' c''] by auto
qed auto

lemma frame_rule:
  assumes "\<And>c. frame D c (fst (body c))" "decides (verification_rule name st body) c code d"
  shows "frame D c d"
  using assms(1) [of c] assms(2) by (auto simp: decides_rule)

lemma frame_vbind:
  assumes "frame D c (fst m)" "\<And>i x. m = (i, Inr x) \<Longrightarrow> frame D c i \<Longrightarrow> frame D c (fst (k i x))"
  shows "frame D c (fst (vbind m k))"
  using assms by (cases m; cases "snd m") auto

lemma fst_steps [simp]:
  "fst (attempt i r) = i" "fst (stop_if i b e) = i" "fst (non_null i p e) = i" "fst (sig_of i) = i" "fst (temp_of i) = i"
  by (simp_all add: attempt_def stop_if_def non_null_def sig_of_def temp_of_def)

lemma fst_attempt_run [simp]: "fst (attempt_run r) = fst r"
  by (simp add: attempt_run_def split: prod.split run.split)

lemma fst_calendar_time [simp]: "fst (calendar_time i c) = i"
  by (cases c) (simp_all add: calendar_time_eq)

lemma fst_check_algorithm [simp]: "fst (check_algorithm i a t vec st) = i"
  by (simp add: check_algorithm_eq)

lemma fst_rfc3161_outcome [simp]: "fst (rfc3161_outcome i s vec) = i"
  by (simp add: rfc3161_outcome_def split: option.split)

lemma fst_signed_hash [simp]: "fst (signed_hash i sig) = i"
  by (simp add: signed_hash_eq)

lemma frame_set_chains:
  assumes "\<And>sig cs0. signature c = Some sig \<Longrightarrow> aggregationChainList sig = Some cs0 \<Longrightarrow> list_all2 similar_chain cs0 cs"
  shows "frame D c (set_chains c cs)"
  using assms
  by (cases "signature c"; cases "aggregationChainList (the (signature c))")
     (auto simp: frame_def set_chains_def same_signature_def option.rel_refl)

lemma same_similar: "list_all2 same_chain a b \<Longrightarrow> list_all2 similar_chain a b"
  by (erule list_all2_mono) (simp add: same_chain_def similar_chain_def)

lemma aggregate_again:
  assumes "KSI_CalendarHashChain_aggregate D cal = Ok (h, cal')"
  shows "KSI_CalendarHashChain_aggregate D cal' = Ok (h, cal')"
proof (cases "cal_outputHash cal")
  case None
  then show ?thesis using assms by (cases h) (auto simp: KSI_CalendarHashChain_aggregate_def run_bind_eq_Ok)
next
  case (Some y)
  then show ?thesis using assms by (auto simp: KSI_CalendarHashChain_aggregate_def)
qed

lemma frame_rooted: "frame D c (rooted D c)"
proof (cases "signature c")
  case (Some sig)
  show ?thesis
  proof (cases "calendarChain sig")
    case cal: (Some cal)
    show ?thesis
    proof (cases "KSI_CalendarHashChain_aggregate D cal")
      case (Ok x)
      obtain h cal' where x: "x = (h, cal')" by (cases x)
      then have "cal' = cal\<lparr>cal_outputHash := h\<rparr>" using Ok aggregate_keeps by simp
      moreover have "map_run fst (KSI_CalendarHashChain_aggregate D cal') = Ok h"
        using aggregate_again [of D cal h cal'] Ok x by simp
      ultimately have "same_calendar D cal cal'" using Ok x by (simp add: same_calendar_def)
      then show ?thesis using Some cal Ok x
        by (simp add: rooted_def frame_def set_sig_def same_signature_def option.rel_refl)
    qed (use Some cal in \<open>simp_all add: rooted_def\<close>)
  qed (use Some in \<open>simp add: rooted_def\<close>)
qed (simp add: rooted_def)

lemma frame_set_output: "frame D c (set_output_hash c h)"
  by (cases "tempData c") (simp_all add: frame_def set_output_hash_def same_temp_def option.rel_refl)

lemma aggregateList_same: "aggregateList D cs lvl h = (r, cs') \<Longrightarrow> list_all2 same_chain cs cs'"
proof (induction cs arbitrary: lvl h r cs')
  case (Cons c cs)
  have refl: "list_all2 same_chain xs xs" for xs by (rule list_all2_refl) (simp add: same_chain_def)
  show ?case using Cons.prems Cons.IH refl
    by (auto split: if_splits prod.splits run.splits dest: aggregate_same_chain)
qed simp

lemma aggregateChains_same:
  "KSI_AggregationHashChainList_aggregate D (Some cs) lvl = (r, cs') \<Longrightarrow> list_all2 similar_chain cs cs'"
  by (auto simp: KSI_AggregationHashChainList_aggregate_def split: if_splits intro: same_similar dest: aggregateList_same)

lemma frame_initAggregationOutputHash: "frame D c (fst (initAggregationOutputHash D' c))"
proof (cases "signature c")
  case (Some sig)
  let ?r = "KSI_AggregationHashChainList_aggregate D' (aggregationChainList sig) (to_int (docAggrLevel c))"
  have s: "frame D c (set_chains c (snd ?r))"
    using Some by (intro frame_set_chains) (auto intro: aggregateChains_same prod.collapse [symmetric])
  then show ?thesis using Some frame_trans [OF s frame_set_output]
    by (cases ?r; cases "fst ?r") (auto simp: initAggregationOutputHash_def split: option.split)
qed (simp add: initAggregationOutputHash_def)

lemma metaDataChainLoop_similar: "metaDataChainLoop cs = (cs', r) \<Longrightarrow> list_all2 similar_chain cs cs'"
  by (induction cs arbitrary: cs' r)
     (auto simp: Let_def similar_chain_def split: prod.splits sum.splits)

lemma consistencyLoop_similar: "consistencyLoop D cs lvl h = (cs', r) \<Longrightarrow> list_all2 similar_chain cs cs'"
  by (rule same_similar [OF consistencyLoop_same])

lemma frame_chainAlgorithmLoop [simp]: "fst (chainAlgorithmLoop i cs) = i"
  by (simp add: chainAlgorithmLoop_eq)

lemma frame_shapeLoop [simp]: "fst (shapeLoop i cs) = i"
  by (rule shapeLoop_eq)

lemma frame_calendar_root:
  assumes "signature i = Some sig"
  shows "frame D i (fst (calendar_root_of D i sig))"
  using frame_rooted by (simp add: calendar_root_of_eq [OF assms])

lemma frame_chains_step:
  assumes "frame D c i" "signature i = Some sig" "list_all2 similar_chain (elements (aggregationChainList sig)) cs"
  shows "frame D c (set_chains i cs)"
  using assms(2,3) by (intro frame_trans [OF assms(1)] frame_set_chains) auto

lemma frame_metaData: "decides KSI_VerificationRule_AggregationChainMetaDataVerification c code d \<Longrightarrow> frame D c d"
  unfolding KSI_VerificationRule_AggregationChainMetaDataVerification_def
  by (erule frame_rule [rotated], intro frame_vbind)
     (auto simp: sig_of_eq_Inr split: prod.split intro!: frame_vbind frame_chains_step metaDataChainLoop_similar)

lemma frame_consistency: "decides (KSI_VerificationRule_AggregationHashChainConsistency D') c code d \<Longrightarrow> frame D c d"
  unfolding KSI_VerificationRule_AggregationHashChainConsistency_def
  by (erule frame_rule [rotated], intro frame_vbind)
     (auto simp: sig_of_eq_Inr temp_of_eq_Inr split: prod.split
       intro!: frame_vbind frame_chains_step consistencyLoop_similar intro: frame_trans [OF _ frame_set_output])

definition framed :: "(int \<Rightarrow> bytes \<Rightarrow> bytes) \<Rightarrow> KSI_VerificationContext Verifier \<Rightarrow> bool" where
  "framed D v \<longleftrightarrow> (\<forall>c code d. decides v c code d \<longrightarrow> frame D c d)"

lemma framed_rule: "(\<And>c. frame D c (fst (body c))) \<Longrightarrow> framed D (verification_rule name st body)"
  using frame_rule [of D body name st] by (auto simp: framed_def)

lemma framed_presence: "framed D (presence_rule name bad e)"
  unfolding presence_rule_def by (rule framed_rule) (auto intro!: frame_vbind)

lemma frame_step_root:
  assumes "frame D c i" "signature i = Some sig" shows "frame D c (fst (calendar_root_of D i sig))"
  by (rule frame_trans [OF assms(1) frame_calendar_root [OF assms(2)]])

lemma frame_step_init: "frame D c i \<Longrightarrow> frame D c (fst (initAggregationOutputHash D' i))"
  by (rule frame_trans [OF _ frame_initAggregationOutputHash])

lemma framed_internal: "list_all (framed (digest E)) (basics (internalRules E))"
proof -
  have [simp]: "framed D KSI_VerificationRule_AggregationChainMetaDataVerification"
    "framed D (KSI_VerificationRule_AggregationHashChainConsistency D')" for D D'
    by (simp_all add: framed_def frame_metaData frame_consistency)
  note intros = framed_rule frame_vbind frame_step_root frame_step_init
  show ?thesis
    by (simp add: table_defs presence_defs framed_presence)
       (auto simp: rule_defs sig_of_eq_Inr split: sum.split intro!: intros)
qed

lemma frame_internal: "concludes (internalRules E) c code d \<Longrightarrow> frame (digest E) c d"
  using framed_internal [of E] frame_trans
  by (elim concludes_preserves) (auto simp: list_all_iff framed_def)

section \<open>Key-based verification\<close>

text \<open>The publications file the rules work with: the one of the user, or else the one the service sends and the
  back end verifies, which is the same on every call.\<close>

definition uses_file :: "verify_env \<Rightarrow> KSI_VerificationContext \<Rightarrow> KSI_PublicationsFile \<Rightarrow> bool" where
  "uses_file E c pf \<longleftrightarrow>
     userPublicationsFile c = Some pf
   \<or> userPublicationsFile c = None \<and> (\<forall>n. receivePublicationsFile E n = Inr pf) \<and> verifyPublicationsFile E pf = None"

definition filed :: "verify_env \<Rightarrow> KSI_VerificationContext \<Rightarrow> KSI_VerificationContext" where
  "filed E c = fst (initPublicationsFile E c)"

lemma filed_simps:
  "signature (filed E c) = signature c" "userPublicationsFile (filed E c) = userPublicationsFile c"
  "userPublication (filed E c) = userPublication c" "extendingAllowed (filed E c) = extendingAllowed c"
  "docAggrLevel (filed E c) = docAggrLevel c"
  "tempData (filed E c) = None \<longleftrightarrow> tempData c = None"
  by (auto simp: filed_def initPublicationsFile_def next_call_def split: option.splits sum.splits)

lemma uses_file_filed [simp]: "uses_file E (filed E c) pf = uses_file E c pf"
  by (simp add: uses_file_def filed_simps)

lemma initPublicationsFile_uses:
  assumes "uses_file E c pf" "tempData c \<noteq> None"
  shows "initPublicationsFile E c = (filed E c, Inr ())" "publicationsFile_of (filed E c) = Some pf"
  using assms
  by (auto simp: uses_file_def filed_def initPublicationsFile_def publicationsFile_of_def next_call_def split: option.splits)

text \<open>The certificate the authentication record of the signature names.\<close>

definition signer_certificate :: "KSI_PublicationsFile \<Rightarrow> KSI_Signature \<Rightarrow> KSI_CalendarAuthRec \<Rightarrow> KSI_PKICertificate option \<Rightarrow> bool" where
  "signer_certificate pf sig rec cert \<longleftrightarrow>
     calendarAuthRec sig = Some rec \<and> (\<exists>sd cid. signatureData rec = Some sd \<and> sd_certId sd = Some cid
       \<and> KSI_PublicationsFile_getPKICertificateById (Some pf) (Some cid) = Inr cert)"

lemma auth_certificate_eq:
  assumes "uses_file E c pf" "signature c = Some sig" "tempData c \<noteq> None"
  shows "auth_certificate E c = (j, Inr (s, rec, cert)) \<longleftrightarrow> j = filed E c \<and> s = sig \<and> signer_certificate pf sig rec cert"
    and "auth_certificate E c \<noteq> (j, Inl (Ended KSI_VER_RES_OK vec st None))"
  using assms initPublicationsFile_uses [OF assms(1,3)]
  by (auto simp: auth_certificate_def step_Inr step_Inl attempt_on_def signer_certificate_def getter_eq_Inr)

lemma CertificateExistence_passes:
  assumes "uses_file E c pf" "signature c = Some sig" "tempData c \<noteq> None"
  shows "passes (KSI_VerificationRule_CertificateExistence E) c c' \<longleftrightarrow>
     c' = filed E c \<and> (\<exists>rec cert. signer_certificate pf sig rec (Some cert))"
  by (auto simp: KSI_VerificationRule_CertificateExistence_def decides_rule step_Inr step_Inl auth_certificate_eq [OF assms])

lemma signer_certificate_iff:
  "signer_certificate pf sig rec cert \<Longrightarrow> signer_certificate pf sig rec' cert' \<longleftrightarrow> rec' = rec \<and> cert' = cert"
  by (auto simp: signer_certificate_def)

definition valid_then :: "verify_env \<Rightarrow> KSI_PKICertificate \<Rightarrow> u64 \<Rightarrow> bool" where
  "valid_then E cert t \<longleftrightarrow>
     (\<exists>nb na. validityNotBefore E cert = Inr nb \<and> validityNotAfter E cert = Inr na \<and> nb \<le> t \<and> t \<le> na)"

definition record_signed :: "verify_env \<Rightarrow> KSI_CalendarAuthRec \<Rightarrow> KSI_PKICertificate \<Rightarrow> bool" where
  "record_signed E rec cert \<longleftrightarrow>
     (\<exists>sd raw pd tlv data. signatureData rec = Some sd \<and> KSI_OctetString_extract (signatureValue sd) = Inr raw
        \<and> pubData rec = Some pd \<and> pd_baseTlv pd = Some tlv \<and> KSI_TLV_serialize tlv = Inr data
        \<and> verifyRawSignature E data (sig_type sd) raw cert = None)"

lemma CertificateValidity_passes:
  assumes "uses_file E c pf" "signature c = Some sig" "tempData c \<noteq> None" "calendarChain sig = Some cal"
    and cert: "signer_certificate pf sig rec (Some cert)"
  shows "passes (KSI_VerificationRule_CertificateValidity E) c c' \<longleftrightarrow>
     c' = filed E c \<and> valid_then E cert (KSI_Integer_getUInt64 (calendar_time_of cal))"
  by (auto simp: KSI_VerificationRule_CertificateValidity_def decides_rule step_Inr step_Inl auth_certificate_eq [OF assms(1-3)]
      signer_certificate_iff [OF cert] assms(4) calendar_time_eq valid_then_def not_less)

lemma RecordSignature_passes:
  assumes "uses_file E c pf" "signature c = Some sig" "tempData c \<noteq> None"
    and cert: "signer_certificate pf sig rec (Some cert)"
  shows "passes (KSI_VerificationRule_CalendarAuthenticationRecordSignatureVerification E) c c' \<longleftrightarrow>
     c' = filed E c \<and> record_signed E rec cert"
  by (auto simp: KSI_VerificationRule_CalendarAuthenticationRecordSignatureVerification_def decides_rule step_Inr step_Inl
      auth_certificate_eq [OF assms(1-3)] signer_certificate_iff [OF cert] getter_eq_Inr record_signed_def)

lemma Deprecated_passes:
  "passes (signatureCalendarChainHashAlgorithmDeprecatedAtPubTime st name) c c' \<longleftrightarrow>
     c' = c \<and> (\<exists>sig cal. signature c = Some sig \<and> calendarChain sig = Some cal \<and> calendar_algorithms wasDeprecatedAt cal)"
proof (cases "signature c")
  case (Some sig)
  then show ?thesis using algorithmState_iff [of "calendarChain sig" wasDeprecatedAt]
    by (cases "calendarChainAggrAlgorithmState (calendarChain sig) wasDeprecatedAt")
       (auto simp: signatureCalendarChainHashAlgorithmDeprecatedAtPubTime_def decides_rule step_Inr step_Inl)
qed (auto simp: signatureCalendarChainHashAlgorithmDeprecatedAtPubTime_def decides_rule step_Inr step_Inl)

text \<open>The calendar authentication record is signed: the named certificate is in the publications file and was valid at
  the time of the calendar chain, and the back end accepts the signature of the serialized publication data.\<close>

definition key_valid :: "verify_env \<Rightarrow> KSI_PublicationsFile \<Rightarrow> KSI_Signature \<Rightarrow> bool" where
  "key_valid E pf sig \<longleftrightarrow>
     (\<exists>cal rec cert. calendarChain sig = Some cal \<and> calendar_algorithms wasDeprecatedAt cal
        \<and> signer_certificate pf sig rec (Some cert)
        \<and> valid_then E cert (KSI_Integer_getUInt64 (calendar_time_of cal)) \<and> record_signed E rec cert)"

lemma keyRules_OK:
  assumes "uses_file E c pf" "signature c = Some sig" "tempData c \<noteq> None"
  shows "(\<exists>d. concludes (drop 1 (keyBasedRules E)) c KSI_VER_RES_OK d) \<longleftrightarrow> key_valid E pf sig"
proof -
  have a: "uses_file E (filed E c) pf" "signature (filed E c) = Some sig" "tempData (filed E c) \<noteq> None"
    and b: "uses_file E (filed E (filed E c)) pf" "signature (filed E (filed E c)) = Some sig" "tempData (filed E (filed E c)) \<noteq> None"
    using assms by (simp_all add: filed_simps)
  note front = keyBasedRules_def concludes_OK presence_defs presence_decides Deprecated_passes
    KSI_VerificationRule_CalendarHashChainHashAlgorithmDeprecatedAtPubTime_def CertificateExistence_passes [OF assms]
  show ?thesis
  proof (cases "\<exists>cal rec cert. calendarChain sig = Some cal \<and> signer_certificate pf sig rec (Some cert)")
    case False
    then show ?thesis using assms by (cases "calendarChain sig") (auto simp: front key_valid_def)
  next
    case True
    then obtain cal rec cert where *: "calendarChain sig = Some cal" "signer_certificate pf sig rec (Some cert)" by blast
    then have "calendarAuthRec sig \<noteq> None" by (auto simp: signer_certificate_def)
    then show ?thesis using assms *(1)
      by (auto simp: front CertificateValidity_passes [OF a *] RecordSignature_passes [OF b *(2)] key_valid_def
          signer_certificate_iff [OF *(2)])
  qed
qed


lemma key_valid_same: "same_signature D a b \<Longrightarrow> key_valid E pf b = key_valid E pf a"
proof -
  assume s: "same_signature D a b"
  have "calendar_algorithms wasDeprecatedAt k' = calendar_algorithms wasDeprecatedAt k" "calendar_time_of k' = calendar_time_of k"
    if "same_calendar D k k'" for k k'
    using that by (auto simp: same_calendar_def calendar_algorithms_def calendar_time_of_def split: option.split)
  with s show ?thesis
    by (cases "calendarChain a"; cases "calendarChain b")
       (auto simp: key_valid_def same_signature_def signer_certificate_def)
qed

lemma frameE:
  assumes "frame D c d" "signature c = Some sig" "tempData c = Some t"
  obtains sig' t' where "signature d = Some sig'" "same_signature D sig sig'" "tempData d = Some t'" "same_temp t t'"
  using assms by (auto simp: frame_def option_rel_Some1)

text \<open>Further rules behind the internal policy, when their outcome only depends on what verification leaves alone.\<close>

lemma after_internal:
  assumes c: "signature c = Some sig" "list_all fresh_chain (elements (aggregationChainList sig))"
    and "pol_rules (predefined_policies E ! p) = Some (KSI_RULE_TYPE_COMPOSITE_AND (internalRules E) # rs)" "rs \<noteq> []"
      "p < length (predefined_policies E)"
    and rest: "\<And>d. concludes (internalRules E) (begin_verification c) KSI_VER_RES_OK d \<Longrightarrow>
      (\<exists>e. concludes rs d KSI_VER_RES_OK e) \<longleftrightarrow> P"
  shows "accepts (predefined_policies E) p c \<longleftrightarrow> internally_valid (digest E) c sig \<and> P"
proof -
  have b: "signature (begin_verification c) = Some sig" "tempData (begin_verification c) = Some VerificationTempData_empty"
    using c by (simp_all add: begin_verification_def)
  have "accepts (predefined_policies E) p c \<longleftrightarrow>
      (\<exists>d. concludes (internalRules E) (begin_verification c) KSI_VER_RES_OK d \<and> (\<exists>e. concludes rs d KSI_VER_RES_OK e))"
    using accepts_predefined [OF assms(5), of c] assms(3,4) by (auto simp: concludes_both)
  then show ?thesis using internalRules_OK [OF b c(2), of E] rest unfolding internally_valid_begin by blast
qed


definition sample_auth_record :: KSI_CalendarAuthRec where
  "sample_auth_record = \<lparr>pubData = Some (sample_publication\<lparr>pd_baseTlv := Some (KSI_TLV_new 0x10 False False)\<rparr>),
     signatureData = Some \<lparr>sig_type = None, signatureValue = Some [7], sd_certId = Some [8], certRepositoryUri = None\<rparr>\<rparr>"

definition sample_trust :: KSI_PublicationsFile where
  "sample_trust = \<lparr>certificates = Some [\<lparr>cr_certId = Some [8], cr_cert = Some [9]\<rparr>], publications = None, certConstraints = None\<rparr>"

definition sample_key_context :: KSI_VerificationContext where
  "sample_key_context = sample_context\<lparr>signature := Some (sample_signed None (Some sample_auth_record)),
     userPublicationsFile := Some sample_trust\<rparr>"

lemma sample_key_valid:
  "internally_valid sample_digest sample_key_context (sample_signed None (Some sample_auth_record))"
  using sample_checks(2)
  by (intro sample_valid)
     (simp_all add: authenticated_def publishes_def sample_auth_record_def sample_key_context_def sample_defs)


section \<open>Policies with fallbacks\<close>

text \<open>Policies made of the rules of the library.\<close>

definition library_policies :: "KSI_VerificationContext KSI_Policy list \<Rightarrow> bool" where
  "library_policies m \<longleftrightarrow> (\<forall>pol\<in>set m. \<forall>rs. pol_rules pol = Some rs \<longrightarrow> list_all is_rule (basics rs))"

lemma library_contract: "library_policies m \<Longrightarrow> policy_contract is_rule m"
  by unfold_locales (use nth_mem in \<open>fastforce simp: library_policies_def\<close>)

interpretation predefined: policy_contract is_rule "predefined_policies E" for E
  by (rule library_contract) (use predefined_is_rule in \<open>fastforce simp: library_policies_def\<close>)

text \<open>C17. The verifier returns whenever the chain of fallback policies ends, and its result tells what was tried: the
  policies of the chain in order, up to the first that accepts the signature or to the end; the final result is that
  of the last policy tried.\<close>

theorem verifier_returns:
  assumes "library_policies m" and "fallback_path m (Some p) ps" and "set ps \<subseteq> {..<length m}"
  shows "\<exists>res c'. KSI_SignatureVerifier_verify m (Some p) c = Some (res, c') \<and>
     (\<forall>r. res = Ok r \<longrightarrow>
        policyResults r \<noteq> []
      \<and> map policyName (policyResults r) = map (\<lambda>q. Some (pol_policyName (m ! q))) (take (length (policyResults r)) ps)
      \<and> (\<forall>x\<in>set (butlast (policyResults r)). resultCode x \<noteq> KSI_VER_RES_OK)
      \<and> (resultCode (last (policyResults r)) = KSI_VER_RES_OK \<or> length (policyResults r) = length ps)
      \<and> finalResult r = last (policyResults r))"
proof -
  note contract = library_contract [OF assms(1)]
  obtain res d t where l: "policyLoop m (Some p) (begin_verification c) PolicyVerificationResult_create = Some (res, d, t)"
    and r: "res = Ok () \<longrightarrow> (if ps = [] then d = begin_verification c \<and> t = PolicyVerificationResult_create
       else (\<exists>rs. policyResults t = policyResults PolicyVerificationResult_create @ rs \<and> policy_contract.tried m ps rs \<and> finalResult t = last rs))"
    using policy_contract.policyLoop_path [OF contract assms(2,3)] by metis
  have "ps \<noteq> []" using assms(2) by (auto elim: fallback_path.cases)
  then have "res = Ok () \<longrightarrow> policy_contract.tried m ps (policyResults t) \<and> finalResult t = last (policyResults t)"
    using r by (auto simp: PolicyVerificationResult_create_def)
  then show ?thesis using l
    by (cases res) (auto simp: KSI_SignatureVerifier_verify_def policy_contract.tried_def [OF contract])
qed



definition sample_policies :: "KSI_VerificationContext KSI_Policy list" where
  "sample_policies =
     [\<lparr>pol_rules = Some [KSI_RULE_TYPE_BASIC KSI_VerificationRule_DocumentHashExistence], fallbackPolicy = Some 1, pol_policyName = ''document''\<rparr>,
      \<lparr>pol_rules = Some [KSI_RULE_TYPE_BASIC KSI_VerificationRule_AlwaysOk], fallbackPolicy = None, pol_policyName = ''empty''\<rparr>]"

theorem verifier_returns_witness:
  "\<exists>res c'. KSI_SignatureVerifier_verify sample_policies (Some 0) sample_context = Some (res, c') \<and>
     (\<forall>r. res = Ok r \<longrightarrow> policyResults r \<noteq> [] \<and> finalResult r = last (policyResults r))"
proof -
  have "library_policies sample_policies"
    by (simp add: library_policies_def sample_policies_def KSI_VerificationRule_DocumentHashExistence_def)
  moreover have "fallback_path sample_policies (Some 0) [0, 1]"
    by (intro fallback_path.intros) (simp_all add: sample_policies_def fallback_path.intros)
  moreover have "set [0, 1] \<subseteq> {..<length sample_policies}" by (simp add: sample_policies_def)
  ultimately show ?thesis using verifier_returns [of sample_policies 0 "[0, 1]" sample_context] by metis
qed


end
