(* ===== verification/VerificationReport.thy ===== *)
theory VerificationReport
  imports PolicyGuarantees
begin

text \<open>
  What the verifier reports: the results of rules and policies, the steps and the error codes, for policies made of the
  rules of \<^verbatim>\<open>src/src/ksi/verification_rule.c\<close>.
\<close>

section \<open>What is reported\<close>

text \<open>The ways a rule with step \<open>st\<close> may end without passing.\<close>

fun sound_end :: "u64 \<Rightarrow> rule_end \<Rightarrow> bool" where
  "sound_end st (Ended vrc vec s status) \<longleftrightarrow>
     vrc \<noteq> KSI_VER_RES_OK \<and> (vrc = KSI_VER_RES_FAIL \<longrightarrow> vec \<noteq> KSI_VER_ERR_NONE) \<and> (s = st \<or> s = KSI_VERIFY_NONE)"
| "sound_end st (Unset e) \<longleftrightarrow> True"
| "sound_end st Crash \<longleftrightarrow> True"

definition ends :: "u64 \<Rightarrow> 'a stepping \<Rightarrow> bool" where
  "ends st m \<longleftrightarrow> (case snd m of Inl e \<Rightarrow> sound_end st e | Inr x \<Rightarrow> True)"

lemma ends_vbind: "ends st m \<Longrightarrow> (\<And>i x. ends st (k i x)) \<Longrightarrow> ends st (vbind m k)"
  by (cases m; cases "snd m") (auto simp: ends_def)

lemma ends_simps [simp]:
  "ends st (i, Inr x)" "ends st (i, Inl e) = sound_end st e"
  "ends st (attempt i r)" "ends st (attempt_run q)" "ends st (stop_if i b e) = (b \<longrightarrow> sound_end st e)"
  "ends st (non_null i p e) = (p = None \<longrightarrow> sound_end st e)" "ends st (sig_of i)" "ends st (temp_of i)"
  "ends st (attempt_on q')"
  by (auto simp: ends_def attempt_def attempt_run_def attempt_on_def stop_if_def non_null_def sig_of_def temp_of_def
      split: sum.splits run.splits prod.splits option.splits)

lemma ends_helpers [simp]:
  "ends st (calendar_time i c)" "ends st (signed_hash i sig)"
  "ends st (auth_certificate E i)" "ends st (signature_publication i)" "ends st (same_time_publication E i)"
  "ends st (nearest_publication_of E i)" "ends st (extend_to_nearest E i)" "ends st (extend_to_user E i)"
  "ends st (own_publication_time i sig)"
  by (auto simp: calendar_time_def signed_hash_eq auth_certificate_def signature_publication_def same_time_publication_def
      nearest_publication_of_def extend_to_nearest_def extend_to_user_def own_publication_time_def split: option.split intro!: ends_vbind)

lemma ends_loops [simp]:
  "ends KSI_VERIFY_AGGRCHAIN_INTERNALLY (check_algorithm i a t vec KSI_VERIFY_AGGRCHAIN_INTERNALLY) = (wasDeprecatedAt a t \<longrightarrow> vec \<noteq> KSI_VER_ERR_NONE)"
  "ends KSI_VERIFY_AGGRCHAIN_INTERNALLY (chainAlgorithmLoop i cs)"
  by (auto simp: check_algorithm_eq chainAlgorithmLoop_eq)

lemma ends_shapeLoop [simp]: "ends KSI_VERIFY_AGGRCHAIN_INTERNALLY (shapeLoop i cs)"
  by (induction cs arbitrary: i) (auto intro!: ends_vbind)

lemma ends_rfc3161 [simp]: "ends KSI_VERIFY_AGGRCHAIN_INTERNALLY (rfc3161_outcome i s vec) = (s = Some KSI_VERIFICATION_FAILURE \<longrightarrow> vec \<noteq> KSI_VER_ERR_NONE)"
  by (auto simp: rfc3161_outcome_def split: option.split)

lemma ends_metaData [simp]: "metaDataChainLoop cs = (cs', r) \<Longrightarrow> ends KSI_VERIFY_AGGRCHAIN_INTERNALLY (i, r)"
proof -
  have v: "sound_end KSI_VERIFY_AGGRCHAIN_INTERNALLY e" if "metaData_verify md = Inl e" for md e
    using that by (auto simp: metaData_verify_def Let_def split: sum.splits option.splits if_splits prod.splits)
  show "metaDataChainLoop cs = (cs', r) \<Longrightarrow> ends KSI_VERIFY_AGGRCHAIN_INTERNALLY (i, r)"
    using metaDataChainLoop_eq [of cs] v by (auto simp: ends_def split: if_splits)
qed

lemma ends_consistency [simp]: "consistencyLoop D cs lvl h = (cs', r) \<Longrightarrow> ends KSI_VERIFY_AGGRCHAIN_INTERNALLY (i, r)"
  by (induction cs arbitrary: lvl h cs' r) (auto split: if_splits prod.splits run.splits)

definition sound_rule :: "KSI_VerificationContext Verifier \<Rightarrow> bool" where
  "sound_rule v \<longleftrightarrow> (\<exists>name st body. v = verification_rule name st body \<and> (\<forall>c. ends st (body c)))"

lemma sound_rule_rule: "(\<And>c. ends st (body c)) \<Longrightarrow> sound_rule (verification_rule name st body)"
  by (auto simp: sound_rule_def)

lemma sound_AlwaysOk: "sound_rule KSI_VerificationRule_AlwaysOk"
  by (auto simp: AlwaysOk_rule intro!: sound_rule_rule)

lemma sound_internal: "list_all sound_rule (basics (internalRules E))"
  by (simp add: table_defs) (auto simp: rule_defs split: sum.split prod.split intro!: sound_rule_rule ends_vbind)

lemma sound_calendar: "list_all sound_rule (basics (calendarHashChainRule_cal E))"
  by (simp add: table_defs) (auto simp: rule_defs split: sum.split prod.split intro!: sound_rule_rule ends_vbind)

lemma sound_key: "list_all sound_rule (basics (drop 1 (keyBasedRules E)))"
  by (simp add: table_defs) (auto simp: rule_defs split: sum.split prod.split intro!: sound_rule_rule ends_vbind)

lemma sound_publication: "list_all sound_rule (basics (publicationRecordRule_pubFile E))"
  by (simp add: table_defs) (auto simp: rule_defs split: sum.split prod.split intro!: sound_rule_rule ends_vbind)

lemma sound_user: "list_all sound_rule (basics (drop 1 (userProvidedPublicationBasedRules E)))"
  by (simp add: table_defs) (auto simp: rule_defs split: sum.split prod.split option.split intro!: sound_rule_rule ends_vbind)


text \<open>A well-formed result: a positive one carries no error, a negative one does, and the steps that succeeded or failed
  were performed.\<close>

definition result_ok :: "KSI_RuleVerificationResult \<Rightarrow> bool" where
  "result_ok r \<longleftrightarrow>
     (resultCode r = KSI_VER_RES_OK \<longrightarrow> errorCode r = KSI_VER_ERR_NONE) \<and> (resultCode r = KSI_VER_RES_FAIL \<longrightarrow> errorCode r \<noteq> KSI_VER_ERR_NONE)
   \<and> stepsSuccessful r AND NOT (stepsPerformed r) = 0 \<and> stepsFailed r AND NOT (stepsPerformed r) = 0"

definition report_ok :: "KSI_PolicyVerificationResult \<Rightarrow> bool" where
  "report_ok p \<longleftrightarrow>
     result_ok (finalResult p) \<and> list_all result_ok (policyResults p)
   \<and> list_all (\<lambda>x. result_ok x \<and> ruleName x \<noteq> None \<and> (resultCode x = KSI_VER_RES_OK \<longleftrightarrow> errorCode x = KSI_VER_ERR_NONE)) (ruleResults p)
   \<and> distinct (map ruleName (ruleResults p))"

lemma subset_bits: "(a :: u64) AND NOT b = 0 \<longleftrightarrow> (\<forall>n. bit a n \<longrightarrow> bit b n)"
  using bit_imp_le_length [of a] by (auto simp: bit_eq_iff bit_simps)

lemma sound_rule_result:
  assumes "sound_rule v" "v c r = (Ok (), c', r')" "result_ok r"
  shows "result_ok r' \<and> ruleName r' \<noteq> None"
proof -
  obtain name st body where v: "v = verification_rule name st body" "\<And>c. ends st (body c)"
    using assms(1) by (auto simp: sound_rule_def)
  obtain i x where b: "body c = (i, x)" by (cases "body c")
  show ?thesis
  proof (cases x)
    case (Inl e)
    then show ?thesis using assms(2,3) v b v(2) [of c]
      by (cases e) (auto simp: verification_rule_def Let_def VERIFICATION_START_def VERIFICATION_RESULT_ERR_def result_ok_def
          ends_def subset_bits bit_simps KSI_VERIFY_NONE_def split: option.splits)
  next
    case (Inr u)
    then show ?thesis using assms(2,3) v b
      by (auto simp: verification_rule_def Let_def VERIFICATION_START_def VERIFICATION_RESULT_OK_def result_ok_def
          subset_bits bit_simps)
  qed
qed

lemma report_begin: "report_ok p \<Longrightarrow> report_ok (begin_rule p)"
  by (simp add: report_ok_def begin_rule_def result_ok_def)

lemma report_add:
  assumes "report_ok p" "ruleName (finalResult p) \<noteq> None"
    "resultCode (finalResult p) = KSI_VER_RES_OK \<longleftrightarrow> errorCode (finalResult p) = KSI_VER_ERR_NONE"
  shows "report_ok (PolicyVerificationResult_addLatestRuleResult p)"
proof (cases "isDuplicateRuleResult (ruleResults p) (finalResult p)")
  case True
  then show ?thesis using assms(1) by (simp add: PolicyVerificationResult_addLatestRuleResult_def)
next
  case False
  then have "ruleName (finalResult p) \<notin> set (map ruleName (ruleResults p))"
    by (auto simp: isDuplicateRuleResult_def list_ex_iff)
  then show ?thesis using False assms by (auto simp: PolicyVerificationResult_addLatestRuleResult_def report_ok_def)
qed

lemma report_end:
  assumes "report_ok p" "basic \<Longrightarrow> ruleName (finalResult p) \<noteq> None"
  shows "report_ok (end_rule basic (Ok ()) p)"
proof -
  have c: "report_ok (p\<lparr>pv_resultCode := x\<rparr>)" for x using assms(1) by (simp add: report_ok_def)
  have "resultCode (finalResult p) = KSI_VER_RES_OK \<longleftrightarrow> errorCode (finalResult p) = KSI_VER_ERR_NONE"
    if "\<not> (resultCode (finalResult p) = KSI_VER_RES_NA \<and> errorCode (finalResult p) = KSI_VER_ERR_NONE)"
    using that assms(1) by (cases "resultCode (finalResult p)") (auto simp: report_ok_def result_ok_def)
  then show ?thesis using c assms(2) report_add [OF c] by (simp add: end_rule_def Let_def)
qed

lemma ruleLoop_report:
  assumes "list_all sound_rule (basics rs)" "ruleLoop rs res c p = (Ok (), c', p')" "report_ok p"
  shows "report_ok p'"
  using assms
proof (induction rs res c p arbitrary: c' p' rule: ruleLoop.induct)
  case (2 v rs res c p)
  obtain s c1 fr where v: "v c (finalResult (begin_rule p)) = (s, c1, fr)" by (cases "v c (finalResult (begin_rule p))")
  have s: "s = Ok ()" using 2(3) v leaves_array_not_Ok [of s] by (auto simp: Let_def split: if_splits)
  let ?p = "end_rule True (Ok ()) ((begin_rule p)\<lparr>finalResult := fr\<rparr>)"
  have b: "report_ok (begin_rule p)" using 2(4) by (rule report_begin)
  then have "result_ok fr \<and> ruleName fr \<noteq> None"
    using sound_rule_result [of v c "finalResult (begin_rule p)" c1 fr] 2(2) v s by (simp add: report_ok_def)
  then have "report_ok ?p" using b by (intro report_end) (simp_all add: report_ok_def)
  then show ?case using 2(1) [OF refl v [symmetric] refl refl] 2(2,3) v s by (auto simp: Let_def split: if_splits)
next
  case (3 sub rs res c p)
  obtain s c1 p1 where v: "ruleLoop sub (Err KSI_UNKNOWN_ERROR) c (begin_rule p) = (s, c1, p1)"
    by (cases "ruleLoop sub (Err KSI_UNKNOWN_ERROR) c (begin_rule p)")
  have s: "s = Ok ()" using 3(4) v leaves_array_not_Ok [of s] by (auto simp: Let_def split: if_splits)
  have "report_ok (end_rule False (Ok ()) p1)" using 3(1) 3(3) v s report_begin [OF 3(5)] by (intro report_end) auto
  then show ?case using 3(2) [OF v [symmetric] refl refl] 3(3,4) v s by (auto simp: Let_def split: if_splits)
next
  case (4 sub rs res c p)
  obtain s c1 p1 where v: "ruleLoop sub (Err KSI_UNKNOWN_ERROR) c (begin_rule p) = (s, c1, p1)"
    by (cases "ruleLoop sub (Err KSI_UNKNOWN_ERROR) c (begin_rule p)")
  have s: "s = Ok ()" using 4(4) v leaves_array_not_Ok [of s] by (auto simp: Let_def split: if_splits)
  have "report_ok (end_rule False (Ok ()) p1)" using 4(1) 4(3) v s report_begin [OF 4(5)] by (intro report_end) auto
  then show ?case using 4(2) [OF v [symmetric] refl refl] 4(3,4) v s by (auto simp: Let_def split: if_splits)
qed simp


definition sound_policies :: "KSI_VerificationContext KSI_Policy list \<Rightarrow> bool" where
  "sound_policies m \<longleftrightarrow> (\<forall>pol\<in>set m. \<forall>rs. pol_rules pol = Some rs \<longrightarrow> list_all sound_rule (basics rs))"

lemma report_policy:
  assumes "sound_policies m" "p < length m" "report_ok t"
    "Policy_verifySignature (m ! p) c (t\<lparr>finalResult := (finalResult t)\<lparr>policyName := n\<rparr>\<rparr>) = (Ok (), c1, t1)"
  shows "report_ok (PolicyVerificationResult_addLatestPolicyResult t1)"
proof -
  obtain rs where rs: "pol_rules (m ! p) = Some rs" "list_all sound_rule (basics rs)"
    using assms(1,4) nth_mem [OF assms(2)] by (cases "pol_rules (m ! p)") (auto simp: Policy_verifySignature_def sound_policies_def)
  have "report_ok (t\<lparr>finalResult := (finalResult t)\<lparr>policyName := n\<rparr>\<rparr>)" using assms(3) by (simp add: report_ok_def result_ok_def)
  with rs assms(4) have "report_ok t1" using ruleLoop_report by (auto simp: Policy_verifySignature_def Rule_verify_def)
  then show ?thesis by (auto simp: report_ok_def PolicyVerificationResult_addLatestPolicyResult_def)
qed

lemma policyLoop_report:
  assumes "fallback_path m cur ps" "set ps \<subseteq> {..<length m}" "sound_policies m" "report_ok t"
    "policyLoop m cur c t = Some (Ok (), c', t')"
  shows "report_ok t'"
  using assms
proof (induction arbitrary: c t rule: fallback_path.induct)
  case path_end
  then show ?case by (simp add: policyLoop.simps)
next
  case (path_step p ps)
  obtain res c1 t1 where v: "Policy_verifySignature (m ! p) c
      (t\<lparr>finalResult := (finalResult t)\<lparr>policyName := Some (pol_policyName (m ! p))\<rparr>\<rparr>) = (res, c1, t1)"
    by (metis prod_cases3)
  let ?t = "PolicyVerificationResult_addLatestPolicyResult t1"
  let ?c = "if fallbackPolicy (m ! p) \<noteq> None then c1\<lparr>tempData := VerificationTempData_clear (tempData c1)\<rparr> else c1"
  have none: "policyLoop m None c t = Some (Ok (), c, t)" for c t by (simp add: policyLoop.simps)
  have loop: "(if res \<noteq> Ok () then Some (res, c1, t1)
     else if resultCode (finalResult ?t) \<noteq> KSI_VER_RES_OK then policyLoop m (fallbackPolicy (m ! p)) ?c ?t
     else Some (Ok (), c1, ?t)) = Some (Ok (), c', t')"
    unfolding path_step.prems(4) [symmetric] by (subst (2) policyLoop.simps) (simp add: v none)
  then have "res = Ok ()" by (auto split: if_splits)
  then have "report_ok ?t" using report_policy [of m p t c "Some (pol_policyName (m ! p))" c1 t1] path_step.prems v by simp
  then show ?case using loop \<open>res = Ok ()\<close> path_step.IH [of ?t ?c] path_step.prems by (auto split: if_splits)
qed


lemma sound_predefined: "sound_policies (predefined_policies E)"
proof -
  have user: "list_all sound_rule (basics (userProvidedPublicationBasedRules E))"
    using sound_internal [of E] sound_user [of E] by (simp add: userProvidedPublicationBasedRules_def)
  have pub: "list_all sound_rule (basics (publicationsFileBasedRules E))"
    using sound_internal [of E] sound_publication [of E] by (simp add: publicationsFileBasedRules_def)
  have key: "list_all sound_rule (basics (keyBasedRules E))"
    using sound_internal [of E] sound_key [of E] by (simp add: keyBasedRules_def)
  have cal: "list_all sound_rule (basics (calendarBasedRules E))"
    using sound_internal [of E] sound_calendar [of E] by (simp add: calendarBasedRules_def)
  have "sound_rule KSI_VerificationRule_RequireNoUserProvidedPublication"
    by (auto simp: KSI_VerificationRule_RequireNoUserProvidedPublication_def intro!: sound_rule_rule ends_vbind)
  then have "list_all sound_rule (basics (generalRules E))"
    using sound_internal [of E] user pub key by (simp add: generalRules_def)
  then show ?thesis using sound_internal [of E] user pub key cal sound_AlwaysOk
    by (simp add: sound_policies_def predefined_policies_def emptyRules_def)
qed



end
