(* ===== verification/ExtensionGuarantees.thy ===== *)
theory ExtensionGuarantees
  imports VerificationReport
begin

text \<open>
  What verification with publications guarantees.  Internal verification leaves the root of the aggregation chains in
  the context (\<^verbatim>\<open>anchored\<close>); the rules of the publications-file-based policy and of the policy of the
  user's publication (\<^verbatim>\<open>src/src/ksi/verification_rule.c\<close>) then confirm it through the publication record of the signature
  or through a calendar chain of the extender, which is fetched once and kept in the context.
\<close>

section \<open>The root that internal verification leaves\<close>

lemma init_kept: "output_hash i = Some h \<Longrightarrow> fst (initAggregationOutputHash D i) = i"
  by (auto simp: initAggregationOutputHash_def output_hash_def split: option.splits)

lemma output_hash_simps [simp]:
  "output_hash (set_chains c cs) = output_hash c" "output_hash (set_sig c s) = output_hash c"
  by (simp_all add: output_hash_def set_chains_def set_sig_def)

text \<open>The rules behind the consistency of the chains leave the chains alone.\<close>

definition chains_of :: "KSI_VerificationContext \<Rightarrow> KSI_AggregationHashChain list option option" where
  "chains_of c = map_option aggregationChainList (signature c)"

definition keeps_chains :: "KSI_VerificationContext \<Rightarrow> KSI_VerificationContext \<Rightarrow> bool" where
  "keeps_chains c d \<longleftrightarrow> (\<forall>h. output_hash c = Some h \<longrightarrow> output_hash d = Some h \<and> chains_of d = chains_of c)"

lemma keeps_chains_refl [simp]: "keeps_chains c c" by (simp add: keeps_chains_def)
lemma keeps_chains_trans: "keeps_chains a b \<Longrightarrow> keeps_chains b c \<Longrightarrow> keeps_chains a c" by (simp add: keeps_chains_def)

lemma keeps_chains_vbind:
  assumes "keeps_chains c (fst m)" "\<And>i x. m = (i, Inr x) \<Longrightarrow> keeps_chains c i \<Longrightarrow> keeps_chains c (fst (k i x))"
  shows "keeps_chains c (fst (vbind m k))"
  using assms by (cases m; cases "snd m") auto

lemma keeps_chains_init: "keeps_chains c i \<Longrightarrow> keeps_chains c (fst (initAggregationOutputHash D i))"
  unfolding keeps_chains_def using init_kept by metis

lemma keeps_chains_calendar: "keeps_chains c i \<Longrightarrow> signature i = Some sig \<Longrightarrow> keeps_chains c (fst (calendar_root_of D i sig))"
proof -
  assume i: "keeps_chains c i" "signature i = Some sig"
  have "chains_of (rooted D i) = chains_of i" "output_hash (rooted D i) = output_hash i"
    using i(2) by (simp_all add: rooted_def chains_of_def split: option.split run.split prod.split) (simp_all add: set_sig_def)
  then show ?thesis using i by (simp add: calendar_root_of_eq keeps_chains_def)
qed

lemma keeps_chains_rule:
  assumes "\<And>c. keeps_chains c (fst (body c))" "decides (verification_rule name st body) c code d"
  shows "keeps_chains c d"
  using assms(1) [of c] assms(2) by (auto simp: decides_rule)

lemma keeps_chains_last: "concludes (drop 10 (internalRules E)) c code d \<Longrightarrow> keeps_chains c d"
proof (elim concludes_preserves)
  have "list_all (\<lambda>v. \<forall>c code d. decides v c code d \<longrightarrow> keeps_chains c d) (basics (drop 10 (internalRules E)))"
    by (simp add: table_defs)
       (auto simp: rule_defs sig_of_eq_Inr split: sum.split elim!: keeps_chains_rule [rotated] intro!: keeps_chains_vbind keeps_chains_init keeps_chains_calendar)
  then show "keeps_chains c d" if "v \<in> set (basics (drop 10 (internalRules E)))" "decides v c code d" for v c code d
    using that by (auto simp: list_all_iff)
qed (rule keeps_chains_trans)

lemma joined_root: "joined D cs lvl h r \<Longrightarrow> cs \<noteq> [] \<Longrightarrow> list_all (\<lambda>c. elements (chain c) \<noteq> []) cs \<Longrightarrow> r \<noteq> None"
proof (induction rule: joined.induct)
  case (joined_Cons h c lvl a lvl' h' cs r)
  have "elements (chain c) = []" if "h' = None"
    using joined_Cons.hyps(5) that
    by (auto simp: KSI_HashChain_aggregate_def aggregateChain_def run_bind_eq_Ok split: option.splits dest: aggregateLoop_hash)
  then have "h' \<noteq> None" using joined_Cons.prems by auto
  then show ?case using joined_Cons by (cases "cs = []") auto
qed simp

text \<open>A signature as the parser delivers it: no results are kept and every aggregation chain has links.\<close>

definition parsed_signature :: "KSI_Signature \<Rightarrow> bool" where
  "parsed_signature sig \<longleftrightarrow> (\<forall>c\<in>set (elements (aggregationChainList sig)). fresh_chain c \<and> elements (chain c) \<noteq> [])"

definition signature_root :: "(int \<Rightarrow> bytes \<Rightarrow> bytes) \<Rightarrow> KSI_Signature \<Rightarrow> KSI_DataHash \<Rightarrow> bool" where
  "signature_root D sig root \<longleftrightarrow> joined D (map nested_chain (elements (aggregationChainList sig))) 0 None (Some root)"

text \<open>The rules up to the consistency of the chains leave the results in the chains and their root in the context.\<close>

lemma internal_tail:
  assumes c: "signature c = Some sig" "tempData c = Some t" and "parsed_signature sig"
    and d: "concludes (internalRules E) c KSI_VER_RES_OK d"
  obtains root cs' e where "signature_root (digest E) sig root"
    "consistencyLoop (digest E) (map nested_chain (elements (aggregationChainList sig))) 0 None = (cs', Inr (Some root))"
    "signature e = Some (sig\<lparr>aggregationChainList := Some cs'\<rparr>)" "output_hash e = Some root" "concludes (drop 10 (internalRules E)) e KSI_VER_RES_OK d"
proof -
  have i: "input_ok (digest E) c sig"
    and tail: "concludes (tail_rules E) (set_chains c (map nested_chain (elements (aggregationChainList sig)))) KSI_VER_RES_OK d"
    using d front_rules_OK [OF c(1)] by auto
  obtain cs where cs: "aggregationChainList sig = Some cs" "cs \<noteq> []" using input_ok_chains [OF i] by blast
  let ?cs = "map nested_chain cs"
  let ?c = "set_chains c ?cs"
  have c': "signature ?c = Some (sig\<lparr>aggregationChainList := Some ?cs\<rparr>)" "tempData ?c = Some t"
    using c cs by (simp_all add: set_chains_def)
  have f: "list_all fresh_chain ?cs" "list_all (\<lambda>c. elements (chain c) \<noteq> []) ?cs"
    using assms(3) cs by (auto simp: parsed_signature_def list_all_iff fresh_chain_def nested_chain_def elements_def split: option.splits)
  have "tail_rules E = [KSI_RULE_TYPE_BASIC KSI_VerificationRule_AggregationChainHashAlgorithmVerification,
     KSI_RULE_TYPE_BASIC KSI_VerificationRule_AggregationHashChainIndexContinuation,
     KSI_RULE_TYPE_BASIC KSI_VerificationRule_AggregationHashChainTimeConsistency,
     KSI_RULE_TYPE_BASIC (KSI_VerificationRule_AggregationHashChainConsistency (digest E))] @ drop 10 (internalRules E)"
    "drop 10 (internalRules E) \<noteq> []"
    by (simp_all add: tail_rules_def internalRules_def)
  then obtain cs' root where l: "consistencyLoop (digest E) ?cs 0 None = (cs', Inr root)"
    "concludes (drop 10 (internalRules E)) (set_output_hash (set_chains ?c cs') root) KSI_VER_RES_OK d"
    using tail cs c' by (auto simp: concludes_OK ChainAlgorithm_passes IndexContinuation_passes Time_passes Consistency_passes)
  have j: "joined (digest E) ?cs 0 None root" using l(1) consistencyLoop_joined [OF f(1)] by blast
  then obtain h where h: "root = Some h" using joined_root [OF j _ f(2)] cs(2) by auto
  let ?e = "set_output_hash (set_chains ?c cs') root"
  have "output_hash ?e = Some h" "signature ?e = Some (sig\<lparr>aggregationChainList := Some cs'\<rparr>)"
    using c cs(1) h by (simp_all add: output_hash_def set_output_hash_def set_chains_def)
  moreover have "signature_root (digest E) sig h" using j h cs by (simp add: signature_root_def)
  ultimately show ?thesis using that [of h cs' ?e] l h cs(1) by simp
qed

lemma internal_root:
  assumes c: "signature c = Some sig" "tempData c = Some t" and "parsed_signature sig"
    and d: "concludes (internalRules E) c KSI_VER_RES_OK d"
  obtains root where "signature_root (digest E) sig root" "output_hash d = Some root"
proof -
  obtain root e where "signature_root (digest E) sig root" "output_hash e = Some root" "concludes (drop 10 (internalRules E)) e KSI_VER_RES_OK d"
    using internal_tail [OF assms] by metis
  then show ?thesis using keeps_chains_last [of E e KSI_VER_RES_OK d] that by (simp add: keeps_chains_def)
qed

section \<open>Extended calendar chains\<close>

text \<open>A chain the extender has sent for the signature and a publication time.\<close>

definition extension_of :: "verify_env \<Rightarrow> KSI_Signature \<Rightarrow> KSI_Integer option \<Rightarrow> KSI_CalendarHashChain \<Rightarrow> bool" where
  "extension_of E sig t ext \<longleftrightarrow>
     (\<exists>n start req. extension_start sig = Inr start \<and> KSI_createExtendRequest start t = Inr req
        \<and> rbind (extendService E n req) extender_chain = Inr (Some ext))"

lemma same_first:
  assumes "same_signature D a b"
  shows "(case element_at (aggregationChainList b) 0 of Inl e \<Rightarrow> element_at (aggregationChainList a) 0 = Inl e
     | Inr y \<Rightarrow> \<exists>x. element_at (aggregationChainList a) 0 = Inr x \<and> similar_chain x y)"
proof (cases "aggregationChainList a")
  case None
  then show ?thesis using assms by (auto simp: same_signature_def element_at_def)
next
  case (Some xs)
  then obtain ys where ys: "aggregationChainList b = Some ys" "list_all2 similar_chain xs ys"
    using assms by (auto simp: same_signature_def option_rel_Some1)
  then show ?thesis using Some by (cases xs; cases ys) (auto simp: element_at_def)
qed

lemma same_calendar_times:
  "same_calendar D a b \<Longrightarrow> cal_aggregationTime b = cal_aggregationTime a \<and> publicationTime b = publicationTime a"
  by (simp add: same_calendar_def)

lemma extension_start_same: "same_signature D a b \<Longrightarrow> extension_start b = extension_start a"
  using same_first [of D a b]
  by (cases "calendarChain a"; cases "calendarChain b")
     (auto simp: extension_start_def same_signature_def same_calendar_def similar_chain_def split: sum.splits)

lemma signingTime_same: "same_signature D a b \<Longrightarrow> KSI_Signature_getSigningTime b = KSI_Signature_getSigningTime a"
  using same_first [of D a b]
  by (cases "calendarChain a"; cases "calendarChain b")
     (auto simp: KSI_Signature_getSigningTime_def same_signature_def same_calendar_def similar_chain_def split: sum.splits option.splits)

text \<open>The contexts behind internal verification: the signature up to what objects keep, the root of its aggregation
  chains and the calendar chain of the extender, once there is one.\<close>

definition ext_of :: "KSI_VerificationContext \<Rightarrow> KSI_CalendarHashChain option" where
  "ext_of c = (case tempData c of None \<Rightarrow> None | Some t \<Rightarrow> tmp_calendarChain t)"

definition anchored :: "verify_env \<Rightarrow> KSI_VerificationContext \<Rightarrow> KSI_Signature \<Rightarrow> KSI_DataHash \<Rightarrow> KSI_VerificationContext \<Rightarrow> bool" where
  "anchored E c0 sig root c \<longleftrightarrow>
     (\<exists>s. signature c = Some s \<and> same_signature (digest E) sig s) \<and> output_hash c = Some root
   \<and> userPublication c = userPublication c0 \<and> userPublicationsFile c = userPublicationsFile c0 \<and> extendingAllowed c = extendingAllowed c0"

lemma anchored_temp: "anchored E c0 sig root c \<Longrightarrow> tempData c \<noteq> None"
  by (auto simp: anchored_def output_hash_def split: option.splits)

lemma anchored_sig: "anchored E c0 sig root c \<Longrightarrow> \<exists>s. signature c = Some s \<and> same_signature (digest E) sig s"
  by (simp add: anchored_def)

lemma anchored_internal:
  assumes "signature c = Some sig" "parsed_signature sig" "concludes (internalRules E) (begin_verification c) KSI_VER_RES_OK d"
  obtains root where "signature_root (digest E) sig root" "anchored E c sig root d" "ext_of d = None"
proof -
  have b: "signature (begin_verification c) = Some sig" "tempData (begin_verification c) = Some VerificationTempData_empty"
    using assms by (simp_all add: begin_verification_def)
  obtain root where r: "signature_root (digest E) sig root" "output_hash d = Some root"
    using internal_root [OF b assms(2,3)] by blast
  obtain sig' t' where s: "signature d = Some sig'" "same_signature (digest E) sig sig'" "tempData d = Some t'"
      "same_temp VerificationTempData_empty t'"
    using frameE [OF frame_internal [OF assms(3)] b] by metis
  have "anchored E c sig root d"
    using frame_internal [OF assms(3)] s r by (simp add: anchored_def frame_def begin_verification_def)
  moreover have "ext_of d = None" using s by (simp add: ext_of_def same_temp_def VerificationTempData_empty_def)
  ultimately show ?thesis using that r by blast
qed

lemma getExtended_Some:
  assumes a: "anchored E c0 sig root c" and g: "getExtendedCalendarHashChain E c t = (j, Inr (Some ext))"
  shows "anchored E c0 sig root j \<and> ext_of j = Some ext \<and> (ext_of c = None \<longrightarrow> extension_of E sig t ext)
    \<and> (\<forall>e. ext_of c = Some e \<longrightarrow> j = c \<and> ext = e)"
proof -
  obtain s tmp where s: "signature c = Some s" "same_signature (digest E) sig s" "tempData c = Some tmp"
    using a by (auto simp: anchored_def output_hash_def split: option.splits)
  show ?thesis
  proof (cases "tmp_calendarChain tmp")
    case (Some e)
    then show ?thesis using a g s by (simp add: getExtendedCalendarHashChain_def ext_of_def)
  next
    case None
    then obtain start req k where r: "extension_start s = Inr start" "KSI_createExtendRequest start t = Inr req"
      "rbind (extendService E (netCalls c) req) extender_chain = Inr k" "j = set_extended (next_call c) k" "k = Some ext"
      using g s by (auto simp: getExtendedCalendarHashChain_def initExtendedCalendarHashChain_def set_extended_def next_call_def
          rbind_eq_Inr split: sum.splits)
    have "anchored E c0 sig root j"
      using a by (auto simp: r(4) anchored_def set_extended_def next_call_def output_hash_def split: option.splits)
    moreover have "extension_of E sig t ext"
      using r extension_start_same [OF s(2)] by (auto simp: extension_of_def)
    ultimately show ?thesis using None s r by (simp add: ext_of_def set_extended_def next_call_def)
  qed
qed

lemma attempt_on_eq: "attempt_on q = (j, Inr x) \<longleftrightarrow> q = (j, Inr x)" "attempt_on q \<noteq> (j, Inl (Ended KSI_VER_RES_OK vec s None))"
  by (auto simp: attempt_on_def attempt_eq_Inr attempt_eq_Inl split: prod.splits)

lemma filed_hash: "output_hash (filed E c) = output_hash c" "ext_of (filed E c) = ext_of c"
  by (auto simp: output_hash_def ext_of_def filed_def initPublicationsFile_def next_call_def split: option.splits sum.splits)

lemma anchored_filed: "anchored E c0 sig root c \<Longrightarrow> anchored E c0 sig root (filed E c) \<and> ext_of (filed E c) = ext_of c"
  by (simp add: anchored_def filed_simps filed_hash)

lemma anchored_file: "anchored E c0 sig root c \<Longrightarrow> uses_file E c0 pf \<Longrightarrow> uses_file E c pf"
  by (simp add: anchored_def uses_file_def)

lemma extended_root_Ok:
  assumes "extended_root E i (Some e) = (j, Ok h)"
  shows "\<exists>e'. KSI_CalendarHashChain_aggregate (digest E) e = Ok (h, e') \<and> j = set_extended i (Some e')"
  using assms by (auto simp: extended_root_def split: run.splits prod.splits)

lemma same_calendar_aggregate:
  "KSI_CalendarHashChain_aggregate D e = Ok (h, e') \<Longrightarrow> same_calendar D e e'"
  using aggregate_keeps [of D e h e'] aggregate_again [of D e h e'] by (simp add: same_calendar_def)

lemma same_calendar_root:
  "same_calendar D a b \<Longrightarrow> KSI_CalendarHashChain_aggregate D b = Ok (h, b') \<Longrightarrow> \<exists>a'. KSI_CalendarHashChain_aggregate D a = Ok (h, a')"
  by (cases "KSI_CalendarHashChain_aggregate D a") (auto simp: same_calendar_def)

lemma anchored_set_extended:
  "anchored E c0 sig root c \<Longrightarrow> anchored E c0 sig root (set_extended c k) \<and> ext_of (set_extended c k) = k"
  by (auto simp: anchored_def set_extended_def output_hash_def ext_of_def split: option.splits)

text \<open>The nearest publication and the chain that extends to it.\<close>

definition nearest_publication :: "KSI_PublicationsFile \<Rightarrow> KSI_Signature \<Rightarrow> KSI_PublicationRecord option \<Rightarrow> bool" where
  "nearest_publication pf sig pub \<longleftrightarrow>
     (\<exists>t. KSI_Signature_getSigningTime sig = Inr t \<and> KSI_PublicationsFile_getNearestPublication (Some pf) t = Inr pub)"

lemma nearest_publication_iff:
  "nearest_publication pf sig a \<Longrightarrow> nearest_publication pf sig b \<longleftrightarrow> b = a"
  by (auto simp: nearest_publication_def)

lemma nearest_publication_of_Inr:
  assumes "anchored E c0 sig root c" "uses_file E c0 pf" "nearest_publication_of E c = (j, Inr x)"
  shows "j = filed E c \<and> nearest_publication pf sig x"
proof -
  obtain s where s: "signature c = Some s" "same_signature (digest E) sig s" using anchored_sig [OF assms(1)] by blast
  show ?thesis
    using assms(3) s(1) initPublicationsFile_uses [OF anchored_file [OF assms(1,2)] anchored_temp [OF assms(1)]] signingTime_same [OF s(2)]
    by (auto simp: nearest_publication_of_def step_Inr attempt_on_eq nearest_publication_def)
qed

lemma extend_to_nearest_Inr:
  assumes "anchored E c0 sig root c" "uses_file E c0 pf" "extend_to_nearest E c = (j, Inr (pd, t, ext))"
  shows "\<exists>pub p. nearest_publication pf sig (Some pub) \<and> publishedData pub = Some p \<and> pd = Some p \<and> t = pd_time p
     \<and> getExtendedCalendarHashChain E (filed E c) t = (j, Inr ext)"
proof -
  obtain i pub p where "nearest_publication_of E c = (i, Inr (Some pub))" "publishedData pub = Some p" "pd = Some p" "t = pd_time p"
      "getExtendedCalendarHashChain E i t = (j, Inr ext)"
    using assms(3) by (auto simp: extend_to_nearest_def step_Inr attempt_on_eq getter_eq_Inr)
  then show ?thesis using nearest_publication_of_Inr [OF assms(1,2)] by blast
qed

text \<open>A chain of the extender leads from the root of the aggregation chains to the publication \<open>pd\<close>.\<close>

definition extension_proves :: "verify_env \<Rightarrow> KSI_Signature \<Rightarrow> KSI_DataHash \<Rightarrow> KSI_PublicationData option \<Rightarrow> KSI_CalendarHashChain \<Rightarrow> bool" where
  "extension_proves E sig root pd ext \<longleftrightarrow>
     (\<exists>p. pd = Some p \<and> extension_of E sig (pd_time p) ext) \<and> publishes (digest E) ext pd \<and> cal_inputHash ext = Some root
   \<and> calendar_algorithms wasDeprecatedAt ext"

lemma init_anchored: "anchored E c0 sig root c \<Longrightarrow> initAggregationOutputHash (digest E) c = (c, Ok ())"
  by (auto simp: anchored_def initAggregationOutputHash_def output_hash_def split: option.splits)

lemma algorithmState_Inr: "calendarChainAggrAlgorithmState k bad = Inr b \<Longrightarrow> \<not> b \<Longrightarrow> \<exists>e. k = Some e \<and> calendar_algorithms bad e"
  using algorithmState_iff [of k bad] by simp

lemma passes_body:
  assumes "ends st (body c)"
  shows "passes (verification_rule name st body) c c' \<longleftrightarrow> body c = (c', Inr ())"
  using assms by (auto simp: decides_rule ends_def)

lemma NearestAlgorithms_passes:
  assumes a: "anchored E c0 sig root c" "uses_file E c0 pf" and "ext_of c = None"
    and v: "passes (KSI_VerificationRule_PublicationsFileExtendedCalendarChainHashAlgorithmDeprecatedAtPubTime E) c c'"
  shows "\<exists>pub p ext. nearest_publication pf sig (Some pub) \<and> publishedData pub = Some p \<and> extension_of E sig (pd_time p) ext
     \<and> calendar_algorithms wasDeprecatedAt ext \<and> anchored E c0 sig root c' \<and> ext_of c' = Some ext"
proof -
  obtain pd t e b where n: "extend_to_nearest E c = (c', Inr (pd, t, e))" "calendarChainAggrAlgorithmState e wasDeprecatedAt = Inr b" "\<not> b"
    using v unfolding KSI_VerificationRule_PublicationsFileExtendedCalendarChainHashAlgorithmDeprecatedAtPubTime_def
    by (subst (asm) passes_body) (auto simp: step_Inr intro!: ends_vbind)
  obtain ext where e: "e = Some ext" "calendar_algorithms wasDeprecatedAt ext" using algorithmState_Inr [OF n(2,3)] by blast
  show ?thesis using extend_to_nearest_Inr [OF a n(1)] anchored_filed [OF a(1)] getExtended_Some e assms(3) by metis
qed

lemma nearest_held:
  assumes a: "anchored E c0 sig root c" "uses_file E c0 pf" and "ext_of c = Some e"
    and n: "extend_to_nearest E c = (j, Inr (pd, t, ext))"
  shows "ext = Some e \<and> anchored E c0 sig root j \<and> ext_of j = Some e
    \<and> (\<exists>pub p. nearest_publication pf sig (Some pub) \<and> publishedData pub = Some p \<and> pd = Some p \<and> t = pd_time p)"
proof -
  have f: "anchored E c0 sig root (filed E c)" "ext_of (filed E c) = Some e" using anchored_filed [OF a(1)] assms(3) by simp_all
  have "tempData (filed E c) \<noteq> None" "signature (filed E c) \<noteq> None" using anchored_temp [OF f(1)] anchored_sig [OF f(1)] by auto
  then have "getExtendedCalendarHashChain E (filed E c) t = (filed E c, Inr (Some e))"
    using f(2) by (auto simp: getExtendedCalendarHashChain_def ext_of_def)
  then show ?thesis using extend_to_nearest_Inr [OF a n] f by auto
qed

lemma NearestHash_passes:
  assumes a: "anchored E c0 sig root c" "uses_file E c0 pf" and "ext_of c = Some e"
    and v: "passes (KSI_VerificationRule_PublicationsFilePublicationHashMatchesExtenderResponse E) c c'"
  shows "\<exists>pub p h e'. nearest_publication pf sig (Some pub) \<and> publishedData pub = Some p
     \<and> KSI_CalendarHashChain_aggregate (digest E) e = Ok (Some h, e') \<and> pd_imprint p = Some h
     \<and> anchored E c0 sig root c' \<and> ext_of c' = Some e'"
proof -
  obtain j pd t x h i where n: "extend_to_nearest E c = (j, Inr (pd, t, x))" "KSI_PublicationData_getImprint pd = Inr i"
    "extended_root E j x = (c', Ok h)" "KSI_DataHash_equals h i"
    using v unfolding KSI_VerificationRule_PublicationsFilePublicationHashMatchesExtenderResponse_def
    by (subst (asm) passes_body) (auto simp: step_Inr intro!: ends_vbind)
  from nearest_held [OF a assms(3) n(1)] n anchored_set_extended [of E c0 sig root j] extended_root_Ok [of E j e c' h]
  show ?thesis by (auto simp: getter_eq_Inr equals_Some)
qed

lemma NearestTime_passes:
  assumes a: "anchored E c0 sig root c" "uses_file E c0 pf" and "ext_of c = Some e"
    and v: "passes (KSI_VerificationRule_PublicationsFilePublicationTimeMatchesExtenderResponse E) c c'"
  shows "\<exists>pub p t. nearest_publication pf sig (Some pub) \<and> publishedData pub = Some p \<and> pd_time p = Some t \<and> publicationTime e = Some t
     \<and> anchored E c0 sig root c' \<and> ext_of c' = Some e"
proof -
  obtain pd t x i where n: "extend_to_nearest E c = (c', Inr (pd, t, x))" "KSI_CalendarHashChain_getPublicationTime x = Inr i"
    "KSI_Integer_equals t i"
    using v unfolding KSI_VerificationRule_PublicationsFilePublicationTimeMatchesExtenderResponse_def
    by (subst (asm) passes_body) (auto simp: step_Inr intro!: ends_vbind)
  obtain ta where "t = Some ta" "i = Some ta" using n(3) by (auto simp: equals_Some)
  with nearest_held [OF a assms(3) n(1)] n(2) show ?thesis by (metis getter_eq_Inr option.inject)
qed

lemma NearestInput_passes:
  assumes a: "anchored E c0 sig root c" "uses_file E c0 pf" and "ext_of c = Some e"
    and v: "passes (KSI_VerificationRule_PublicationsFileExtendedSignatureInputHash E) c c'"
  shows "cal_inputHash e = Some root"
proof -
  obtain j pd t x h where n: "extend_to_nearest E c = (j, Inr (pd, t, x))" "KSI_CalendarHashChain_getInputHash x = Inr h"
    "initAggregationOutputHash (digest E) j = (c', Ok ())" "KSI_DataHash_equals (output_hash c') h"
    using v unfolding KSI_VerificationRule_PublicationsFileExtendedSignatureInputHash_def
    by (subst (asm) passes_body) (auto simp: step_Inr intro!: ends_vbind)
  have j: "x = Some e" "anchored E c0 sig root j" using nearest_held [OF a assms(3) n(1)] by auto
  then have "c' = j" "output_hash j = Some root" using init_anchored [OF j(2)] n(3) by (auto simp: anchored_def)
  then show ?thesis using n(2,4) j(1) by (auto simp: getter_eq_Inr equals_Some)
qed

lemma Suitable_passes:
  assumes "anchored E c0 sig root c" "uses_file E c0 pf"
    "passes (KSI_VerificationRule_PublicationsFileContainsSuitablePublication E) c c'"
  shows "anchored E c0 sig root c' \<and> ext_of c' = ext_of c"
  using assms(3) nearest_publication_of_Inr [OF assms(1,2)] anchored_filed [OF assms(1)]
  unfolding KSI_VerificationRule_PublicationsFileContainsSuitablePublication_def
  by (subst (asm) passes_body) (auto simp: step_Inr intro!: ends_vbind)

lemma Permitted_passes:
  "passes (extendingPermittedVerification st name) c c' \<longleftrightarrow> c' = c \<and> signature c \<noteq> None \<and> extendingAllowed c \<noteq> 0"
  by (auto simp: extendingPermittedVerification_def decides_rule step_Inr step_Inl)

lemma extendToPublication_sound:
  assumes a: "anchored E c0 sig root c" and f: "uses_file E c0 pf" and "ext_of c = None"
    and "concludes (extendToPublication E) c KSI_VER_RES_OK d"
  shows "extendingAllowed c0 \<noteq> 0 \<and>
     (\<exists>pub ext. nearest_publication pf sig (Some pub) \<and> extension_proves E sig root (publishedData pub) ext)"
proof -
  obtain c1 c2 c3 c4 where v:
    "passes (KSI_VerificationRule_PublicationsFileContainsSuitablePublication E) c c1" "extendingAllowed c1 \<noteq> 0"
    "passes (KSI_VerificationRule_PublicationsFileExtendedCalendarChainHashAlgorithmDeprecatedAtPubTime E) c1 c2"
    "passes (KSI_VerificationRule_PublicationsFilePublicationHashMatchesExtenderResponse E) c2 c3"
    "passes (KSI_VerificationRule_PublicationsFilePublicationTimeMatchesExtenderResponse E) c3 c4"
    "passes (KSI_VerificationRule_PublicationsFileExtendedSignatureInputHash E) c4 d"
    using assms(4) by (auto simp: extendToPublication_def concludes_OK Permitted_passes
        KSI_VerificationRule_PublicationsFileExtendingPermittedVerification_def)
  have 1: "anchored E c0 sig root c1" "ext_of c1 = None" using Suitable_passes [OF a f v(1)] assms(3) by auto
  obtain pub p ext where 2: "nearest_publication pf sig (Some pub)" "publishedData pub = Some p" "extension_of E sig (pd_time p) ext"
    "calendar_algorithms wasDeprecatedAt ext" "anchored E c0 sig root c2" "ext_of c2 = Some ext"
    using NearestAlgorithms_passes [OF 1(1) f 1(2) v(3)] by blast
  note same = nearest_publication_iff [OF 2(1)]
  obtain h e where 3: "KSI_CalendarHashChain_aggregate (digest E) ext = Ok (Some h, e)" "pd_imprint p = Some h"
    "anchored E c0 sig root c3" "ext_of c3 = Some e"
    using NearestHash_passes [OF 2(5) f 2(6) v(4)] same 2(2) by auto
  obtain t where 4: "pd_time p = Some t" "publicationTime e = Some t" "anchored E c0 sig root c4" "ext_of c4 = Some e"
    using NearestTime_passes [OF 3(3) f 3(4) v(5)] same 2(2) by auto
  have 5: "cal_inputHash e = Some root" by (rule NearestInput_passes [OF 4(3) f 4(4) v(6)])
  have "publicationTime ext = Some t" "cal_inputHash ext = Some root"
    using same_calendar_aggregate [OF 3(1)] 4(2) 5 by (simp_all add: same_calendar_def)
  then have "extension_proves E sig root (publishedData pub) ext"
    using 2 3(1,2) 4(1) by (auto simp: extension_proves_def publishes_def)
  moreover have "extendingAllowed c0 \<noteq> 0" using v(2) 1(1) by (simp add: anchored_def)
  ultimately show ?thesis using 2(1) by blast
qed

section \<open>The publication record stays\<close>

definition pub_of :: "KSI_VerificationContext \<Rightarrow> KSI_PublicationRecord option option" where
  "pub_of c = map_option publication (signature c)"

lemma pub_vbind:
  assumes "pub_of (fst m) = p" "\<And>i x. m = (i, Inr x) \<Longrightarrow> pub_of i = p \<Longrightarrow> pub_of (fst (k i x)) = p"
  shows "pub_of (fst (vbind m k)) = p"
  using assms by (cases m; cases "snd m") auto

lemma pub_steps [simp]:
  "pub_of (fst (attempt_on q)) = pub_of (fst q)"
  "pub_of (fst (initPublicationsFile E i)) = pub_of i"
  "pub_of (fst (getExtendedCalendarHashChain E i t)) = pub_of i"
  "pub_of (fst (extended_root E i k)) = pub_of i"
  "pub_of (fst (initAggregationOutputHash D i)) = pub_of i"
  "pub_of (set_chains i cs) = pub_of i" "pub_of (set_output_hash i h) = pub_of i"
  by (auto simp: pub_of_def attempt_on_def initPublicationsFile_def getExtendedCalendarHashChain_def initExtendedCalendarHashChain_def
      extended_root_def initAggregationOutputHash_def set_extended_def next_call_def set_output_hash_def set_chains_def
      option.map_comp comp_def
      split: option.splits sum.splits prod.splits run.splits)

lemma pub_calendar_root: "signature i = Some sig \<Longrightarrow> pub_of (fst (calendar_root_of D i sig)) = pub_of i"
  by (auto simp: pub_of_def calendar_root_of_def set_sig_def split: option.splits run.splits prod.splits)

lemma pub_helpers [simp]:
  "pub_of (fst (auth_certificate E i)) = pub_of i" "pub_of (fst (signature_publication i)) = pub_of i"
  "pub_of (fst (own_publication_time i sig)) = pub_of i"
  by (auto simp: auth_certificate_def signature_publication_def own_publication_time_def intro!: pub_vbind)

lemma pub_helpers2 [simp]:
  "pub_of (fst (same_time_publication E i)) = pub_of i"
  "pub_of (fst (nearest_publication_of E i)) = pub_of i" "pub_of (fst (extend_to_user E i)) = pub_of i"
  by (auto simp: same_time_publication_def nearest_publication_of_def extend_to_user_def intro!: pub_vbind)

lemma pub_helpers3 [simp]: "pub_of (fst (extend_to_nearest E i)) = pub_of i"
  by (auto simp: extend_to_nearest_def intro!: pub_vbind)

definition pub_kept :: "KSI_VerificationContext Verifier \<Rightarrow> bool" where
  "pub_kept v \<longleftrightarrow> (\<forall>c code d. decides v c code d \<longrightarrow> pub_of d = pub_of c)"

lemma pub_kept_rule: "(\<And>c. pub_of (fst (body c)) = pub_of c) \<Longrightarrow> pub_kept (verification_rule name st body)"
  by (auto simp: pub_kept_def decides_rule) (metis fst_conv)+

lemma pub_kept_array: "list_all pub_kept (basics rs) \<Longrightarrow> concludes rs c code d \<Longrightarrow> pub_of d = pub_of c"
  by (erule concludes_preserves [where R = "\<lambda>c d. pub_of d = pub_of c"]) (auto simp: list_all_iff pub_kept_def)

lemma fst_pair_steps [simp]: "pub_of (fst (case x of (a, b, c) \<Rightarrow> f a b c)) = (case x of (a, b, c) \<Rightarrow> pub_of (fst (f a b c)))"
  by (simp split: prod.split)

lemma pub_kept_pubFile: "list_all pub_kept (basics (publicationRecordRule_pubFile E))"
  by (simp add: table_defs)
     (auto simp: rule_defs split: sum.split option.split prod.split intro!: pub_kept_rule pub_vbind)

lemma pub_kept_user: "list_all pub_kept (basics (publicationRecordRule_pubString E))"
  by (simp add: table_defs)
     (auto simp: rule_defs split: sum.split option.split prod.split intro!: pub_kept_rule pub_vbind)

lemma attempt_on_eq_Inl: "attempt_on q = (j, Inl e) \<longleftrightarrow> (\<exists>s. q = (j, Inl s) \<and> e = internal s)"
  by (auto simp: attempt_on_def attempt_eq_Inl split: prod.splits)

lemmas on_steps = step_Inr step_Inl attempt_on_eq(1) attempt_on_eq_Inl

section \<open>Verification with a publications file\<close>

lemma anchored_init:
  assumes "anchored E c0 sig root c" "uses_file E c0 pf"
  shows "initPublicationsFile E c = (filed E c, Inr ())" "publicationsFile_of (filed E c) = Some pf"
  using initPublicationsFile_uses [OF anchored_file [OF assms] anchored_temp [OF assms(1)]] by simp_all

lemma ContainsPublication_decides:
  assumes "anchored E c0 sig root c" "uses_file E c0 pf"
  shows "decides (KSI_VerificationRule_PublicationsFileContainsSignaturePublication E) c code d \<Longrightarrow> d = filed E c"
    "decides (KSI_VerificationRule_PublicationsFileDoesNotContainSignaturePublication E) c code d \<Longrightarrow> d = filed E c"
  using anchored_init [OF assms]
  by (auto simp: KSI_VerificationRule_PublicationsFileContainsSignaturePublication_def
      KSI_VerificationRule_PublicationsFileDoesNotContainSignaturePublication_def same_time_publication_def signature_publication_def
      decides_rule on_steps)

lemma PublicationVerification_decides:
  assumes a: "anchored E c0 sig root c" "uses_file E c0 pf"
    and v: "decides (KSI_VerificationRule_PublicationsFileSignaturePublicationVerification E) c code d"
  shows "d = filed E c \<and> code \<noteq> KSI_VER_RES_NA \<and> (code = KSI_VER_RES_OK \<longrightarrow>
     (\<exists>pub pr. publication sig = Some pub \<and> KSI_PublicationsFile_findPublication (Some pf) (Some pub) = Inr (Some pr)))"
proof -
  obtain s where s: "signature c = Some s" "same_signature (digest E) sig s" using anchored_sig [OF a(1)] by blast
  show ?thesis using v anchored_init [OF a] s
    by (auto simp: KSI_VerificationRule_PublicationsFileSignaturePublicationVerification_def signature_publication_def
        decides_rule on_steps same_signature_def)
qed

lemma Deprecated_decides:
  assumes "decides (signatureCalendarChainHashAlgorithmDeprecatedAtPubTime st name) c code d"
  shows "d = c" "code = KSI_VER_RES_OK \<Longrightarrow> \<exists>s cal. signature c = Some s \<and> calendarChain s = Some cal \<and> calendar_algorithms wasDeprecatedAt cal"
  using assms Deprecated_passes [of st name c d]
  by (auto simp: signatureCalendarChainHashAlgorithmDeprecatedAtPubTime_def decides_rule on_steps)

lemma anchored_calendar:
  assumes "anchored E c0 sig root c" "signature c = Some s" "calendarChain s = Some k" "calendar_algorithms bad k"
  shows "\<exists>cal. calendarChain sig = Some cal \<and> calendar_algorithms bad cal"
  using assms by (auto simp: anchored_def same_signature_def same_calendar_def calendar_algorithms_def option_rel_Some2)

text \<open>The publications file confirms the publication record of the signature.\<close>

definition record_confirmed :: "KSI_PublicationsFile \<Rightarrow> KSI_Signature \<Rightarrow> bool" where
  "record_confirmed pf sig \<longleftrightarrow>
     (\<exists>pub pr cal. publication sig = Some pub \<and> KSI_PublicationsFile_findPublication (Some pf) (Some pub) = Inr (Some pr)
        \<and> calendarChain sig = Some cal \<and> calendar_algorithms wasDeprecatedAt cal)"

lemma suitablePubExist_context:
  assumes a: "anchored E c0 sig root c" and f: "uses_file E c0 pf"
    and v: "concludes (suitablePubExist_pubFile E) c code d"
  shows "anchored E c0 sig root d \<and> ext_of d = ext_of c"
proof -
  note a1 = anchored_filed [OF a]
  note a2 = anchored_filed [OF a1 [THEN conjunct1]]
  note p1 = ContainsPublication_decides(1) [OF a f]
  note p2 = PublicationVerification_decides [OF a1 [THEN conjunct1] f]
  show ?thesis using v p1 p2 a1 a2
    by (auto simp: suitablePubExist_pubFile_def concludes_simps
        KSI_VerificationRule_PublicationsFileSignatureCalendarChainHashAlgorithmDeprecatedAtPubTime_def dest!: Deprecated_decides(1))
qed

lemma suitablePubExist_sound:
  assumes a: "anchored E c0 sig root c" and f: "uses_file E c0 pf"
    and v: "concludes (suitablePubExist_pubFile E) c KSI_VER_RES_OK d"
  shows "record_confirmed pf sig"
proof -
  note a1 = anchored_filed [OF a, THEN conjunct1]
  note a2 = anchored_filed [OF a1, THEN conjunct1]
  obtain c2 s cal where c2: "passes (KSI_VerificationRule_PublicationsFileSignaturePublicationVerification E) (filed E c) c2"
    "signature c2 = Some s" "calendarChain s = Some cal" "calendar_algorithms wasDeprecatedAt cal"
    using v ContainsPublication_decides(1) [OF a f]
    by (auto simp: suitablePubExist_pubFile_def concludes_OK Deprecated_passes
        KSI_VerificationRule_PublicationsFileSignatureCalendarChainHashAlgorithmDeprecatedAtPubTime_def)
  from PublicationVerification_decides [OF a1 f c2(1)] anchored_calendar [OF a2, of s cal wasDeprecatedAt] c2 show ?thesis
    by (auto simp: record_confirmed_def)
qed

text \<open>The signature is confirmed by the publications file: through its own publication record, or through a chain of the
  extender to the nearest publication.\<close>

definition file_confirms :: "verify_env \<Rightarrow> KSI_PublicationsFile \<Rightarrow> KSI_VerificationContext \<Rightarrow> KSI_Signature \<Rightarrow> KSI_DataHash \<Rightarrow> bool" where
  "file_confirms E pf c sig root \<longleftrightarrow>
     record_confirmed pf sig
   \<or> extendingAllowed c \<noteq> 0 \<and>
     (\<exists>pub ext. nearest_publication pf sig (Some pub) \<and> extension_proves E sig root (publishedData pub) ext)"

lemma pubFile_sound:
  assumes a: "anchored E c0 sig root c" and f: "uses_file E c0 pf" and n: "ext_of c = None"
    and v: "concludes (publicationRecordRule_pubFile E) c KSI_VER_RES_OK d"
  shows "file_confirms E pf c0 sig root"
proof -
  have ext: "file_confirms E pf c0 sig root" if "concludes (extendToPublication E) e KSI_VER_RES_OK d'" "anchored E c0 sig root e" "ext_of e = None" for e d'
    using extendToPublication_sound [OF that(2) f that(3,1)] by (simp add: file_confirms_def)
  have missing: "file_confirms E pf c0 sig root" if "concludes (suitablePubMissing_pubFile E) e KSI_VER_RES_OK d'" "anchored E c0 sig root e" "ext_of e = None" for e d'
    using that(1) ContainsPublication_decides(2) [OF that(2) f] anchored_filed [OF that(2)] that(3) ext
    by (auto simp: suitablePubMissing_pubFile_def concludes_OK)
  have exist: "file_confirms E pf c0 sig root" if "concludes (suitablePubExist_pubFile E) e KSI_VER_RES_OK d'" "anchored E c0 sig root e" for e d'
    using suitablePubExist_sound [OF that(2) f that(1)] by (simp add: file_confirms_def)
  note keep = suitablePubExist_context [OF _ f]
  show ?thesis
  proof (cases "concludes (sigPubRecExist_pubFile E) c KSI_VER_RES_OK d")
    case True
    then show ?thesis using exist [OF _ a] missing keep [OF a] n
      by (auto simp: sigPubRecExist_pubFile_def concludes_OK presence_defs presence_decides)
  next
    case False
    then obtain e where e: "concludes (sigPubRecExist_pubFile E) c KSI_VER_RES_NA e" "concludes (sigPubRecMissing_pubFile E) e KSI_VER_RES_OK d"
      using v by (auto simp: publicationRecordRule_pubFile_def concludes_OK)
    obtain s where s: "signature c = Some s" using anchored_sig [OF a] by blast
    have "list_all pub_kept (basics (sigPubRecExist_pubFile E))"
      using pub_kept_pubFile [of E] by (simp add: publicationRecordRule_pubFile_def)
    from pub_kept_array [OF this e(1)] e(2) s have "publication s = None"
      by (auto simp: sigPubRecMissing_pubFile_def concludes_OK presence_defs presence_decides pub_of_def split: if_splits)
    then have "e = c" using e(1) s by (auto simp: sigPubRecExist_pubFile_def concludes_guard_NA presence_defs presence_decides)
    then show ?thesis using e(2) a n ext
      by (auto simp: sigPubRecMissing_pubFile_def concludes_OK presence_defs presence_decides)
  qed
qed


lemma accepted_anchored:
  assumes "signature c = Some sig" "parsed_signature sig" "accepts (predefined_policies E) p c" "p < length (predefined_policies E)"
    and "pol_rules (predefined_policies E ! p) = Some (KSI_RULE_TYPE_COMPOSITE_AND (internalRules E) # rs)" "rs \<noteq> []"
  obtains root d e where "internally_valid (digest E) c sig" "signature_root (digest E) sig root" "anchored E c sig root d" "ext_of d = None"
    "concludes rs d KSI_VER_RES_OK e"
proof -
  have fresh: "list_all fresh_chain (elements (aggregationChainList sig))"
    using assms(2) by (auto simp: parsed_signature_def list_all_iff)
  obtain d e where d: "concludes (internalRules E) (begin_verification c) KSI_VER_RES_OK d" "concludes rs d KSI_VER_RES_OK e"
    using accepts_predefined [OF assms(4), of c] assms(3,5,6) by (auto simp: concludes_both)
  have b: "signature (begin_verification c) = Some sig" "tempData (begin_verification c) = Some VerificationTempData_empty"
    using assms by (simp_all add: begin_verification_def)
  have "internally_valid (digest E) c sig" using internalRules_OK [OF b fresh, of E] d(1) by auto
  then show ?thesis using anchored_internal [OF assms(1,2) d(1)] d(2) that by metis
qed

lemma concludes_single: "concludes [KSI_RULE_TYPE_COMPOSITE_AND rs] d KSI_VER_RES_OK e \<longleftrightarrow> concludes rs d KSI_VER_RES_OK e"
  by (auto simp: concludes_OK)

text \<open>C4. Verification with a publications file is sound.  A signature that is accepted under the publications-file-based
  policy is internally valid, and the publications file confirms it: it has a publication of the time and hash of
  the publication record in the signature, whose calendar chain uses no deprecated algorithm; or, when extending is
  allowed, the extender has sent a calendar chain that leads from the root of the aggregation chains to the hash and
  time of the publication nearest to the signing time, without a deprecated algorithm.\<close>

theorem publications_file_sound:
  assumes "signature c = Some sig" and "parsed_signature sig" and "uses_file E c pf"
    and "accepts (predefined_policies E) 4 c"
  shows "internally_valid (digest E) c sig \<and> (\<exists>root. signature_root (digest E) sig root \<and> file_confirms E pf c sig root)"
proof -
  have p: "4 < length (predefined_policies E)"
    "pol_rules (predefined_policies E ! 4) = Some (KSI_RULE_TYPE_COMPOSITE_AND (internalRules E) # [KSI_RULE_TYPE_COMPOSITE_AND (publicationRecordRule_pubFile E)])"
    by (simp_all add: predefined_policies_def publicationsFileBasedRules_def)
  obtain root d e where "internally_valid (digest E) c sig" "signature_root (digest E) sig root" "anchored E c sig root d" "ext_of d = None"
    "concludes (publicationRecordRule_pubFile E) d KSI_VER_RES_OK e"
    by (rule accepted_anchored [OF assms(1,2,4) p]) (auto simp: concludes_single)
  then show ?thesis using pubFile_sound [OF _ assms(3)] by blast
qed

section \<open>Verification with a publication of the user\<close>

lemma held_extended:
  assumes "anchored E c0 sig root c" "ext_of c = Some e"
  shows "getExtendedCalendarHashChain E c t = (c, Inr (Some e))"
  using anchored_temp [OF assms(1)] anchored_sig [OF assms(1)] assms(2)
  by (auto simp: getExtendedCalendarHashChain_def ext_of_def)

lemma extend_to_user_Inr:
  "extend_to_user E c = (j, Inr (t, ext)) \<longleftrightarrow>
     (\<exists>usr. userPublication c = Some usr \<and> pd_time usr = Some t \<and> getExtendedCalendarHashChain E c (Some t) = (j, Inr ext))"
  by (auto simp: extend_to_user_def step_Inr attempt_on_eq getter_eq_Inr)

lemma user_held:
  assumes "anchored E c0 sig root c" "ext_of c = Some e" "extend_to_user E c = (j, Inr (t, ext))"
  shows "j = c \<and> ext = Some e \<and> (\<exists>usr. userPublication c0 = Some usr \<and> pd_time usr = Some t)"
  using assms(3) held_extended [OF assms(1,2)] assms(1) by (auto simp: extend_to_user_Inr anchored_def)

lemma UserAlgorithms_passes:
  assumes a: "anchored E c0 sig root c" and "ext_of c = None"
    and v: "passes (KSI_VerificationRule_UserProvidedPublicationExtendedCalendarChainHashAlgorithmDeprecatedAtPubTime E) c c'"
  shows "\<exists>usr t ext. userPublication c0 = Some usr \<and> pd_time usr = Some t \<and> extension_of E sig (Some t) ext
     \<and> calendar_algorithms wasDeprecatedAt ext \<and> anchored E c0 sig root c' \<and> ext_of c' = Some ext"
proof -
  obtain t e b where n: "extend_to_user E c = (c', Inr (t, e))" "calendarChainAggrAlgorithmState e wasDeprecatedAt = Inr b" "\<not> b"
    using v unfolding KSI_VerificationRule_UserProvidedPublicationExtendedCalendarChainHashAlgorithmDeprecatedAtPubTime_def
    by (subst (asm) passes_body) (auto simp: step_Inr intro!: ends_vbind)
  obtain ext where e: "e = Some ext" "calendar_algorithms wasDeprecatedAt ext" using algorithmState_Inr [OF n(2,3)] by blast
  show ?thesis using n(1) getExtended_Some [OF a] e assms(2) a by (auto simp: extend_to_user_Inr anchored_def)
qed

lemma UserHash_passes:
  assumes a: "anchored E c0 sig root c" and "ext_of c = Some e"
    and v: "passes (KSI_VerificationRule_UserProvidedPublicationHashMatchesExtendedResponse E) c c'"
  shows "\<exists>usr h e'. userPublication c0 = Some usr \<and> KSI_CalendarHashChain_aggregate (digest E) e = Ok (Some h, e') \<and> pd_imprint usr = Some h
     \<and> anchored E c0 sig root c' \<and> ext_of c' = Some e'"
proof -
  obtain j t x h i where n: "extend_to_user E c = (j, Inr (t, x))" "extended_root E j x = (c', Ok h)"
    "KSI_PublicationData_getImprint (userPublication c') = Inr i" "KSI_DataHash_equals h i"
    using v unfolding KSI_VerificationRule_UserProvidedPublicationHashMatchesExtendedResponse_def
    by (subst (asm) passes_body) (auto simp: step_Inr intro!: ends_vbind)
  from user_held [OF a assms(2) n(1)] have j: "j = c" "x = Some e" by auto
  obtain e' where e': "KSI_CalendarHashChain_aggregate (digest E) e = Ok (h, e')" "c' = set_extended c (Some e')"
    using extended_root_Ok [of E c e c' h] n(2) j by auto
  then show ?thesis using anchored_set_extended [OF a, of "Some e'"] n(3,4)
    by (auto simp: getter_eq_Inr equals_Some anchored_def)
qed

lemma UserTime_passes:
  assumes a: "anchored E c0 sig root c" and "ext_of c = Some e"
    and v: "passes (KSI_VerificationRule_UserProvidedPublicationTimeMatchesExtendedResponse E) c c'"
  shows "c' = c \<and> (\<exists>usr t s. userPublication c0 = Some usr \<and> pd_time usr = Some t \<and> publicationTime e = Some t
     \<and> KSI_Signature_getSigningTime sig = Inr (Some s) \<and> cal_aggregationTime e = Some s)"
proof -
  obtain s where s: "signature c = Some s" "same_signature (digest E) sig s" using anchored_sig [OF a] by blast
  obtain t x i st et where n: "extend_to_user E c = (c', Inr (t, x))" "KSI_CalendarHashChain_getPublicationTime x = Inr i"
    "KSI_Integer_equals (Some t) i" "KSI_Signature_getSigningTime s = Inr st" "KSI_CalendarHashChain_getAggregationTime x = Inr et"
    "KSI_Integer_equals st et"
    using v s unfolding KSI_VerificationRule_UserProvidedPublicationTimeMatchesExtendedResponse_def
    by (subst (asm) passes_body) (auto simp: step_Inr intro!: ends_vbind)
  from user_held [OF a assms(2) n(1)] n signingTime_same [OF s(2)] show ?thesis by (auto simp: getter_eq_Inr equals_Some)
qed

lemma UserInput_passes:
  assumes a: "anchored E c0 sig root c" and "ext_of c = Some e"
    and v: "passes (KSI_VerificationRule_UserProvidedPublicationExtendedSignatureInputHash E) c c'"
  shows "cal_inputHash e = Some root"
proof -
  obtain j t x h where n: "extend_to_user E c = (j, Inr (t, x))" "KSI_CalendarHashChain_getInputHash x = Inr h"
    "initAggregationOutputHash (digest E) j = (c', Ok ())" "KSI_DataHash_equals (output_hash c') h"
    using v unfolding KSI_VerificationRule_UserProvidedPublicationExtendedSignatureInputHash_def
    by (subst (asm) passes_body) (auto simp: step_Inr intro!: ends_vbind)
  have j: "x = Some e" "j = c" using user_held [OF a assms(2) n(1)] by auto
  then have "c' = c" "output_hash c = Some root" using init_anchored [OF a] n(3) a by (auto simp: anchored_def)
  then show ?thesis using n(2,4) j(1) by (auto simp: getter_eq_Inr equals_Some)
qed

lemma UserCreation_passes:
  assumes a: "anchored E c0 sig root c"
    and v: "passes KSI_VerificationRule_UserProvidedPublicationCreationTimeVerification c c'"
  shows "c' = c \<and> (\<exists>usr s t. userPublication c0 = Some usr \<and> pd_time usr = Some t \<and> extension_start sig = Inr s
     \<and> KSI_Integer_compare s (Some t) = - 1)"
proof -
  obtain s where s: "signature c = Some s" "same_signature (digest E) sig s" using anchored_sig [OF a] by blast
  show ?thesis using v s a extension_start_same [OF s(2)]
    unfolding KSI_VerificationRule_UserProvidedPublicationCreationTimeVerification_def
    by (subst (asm) passes_body) (auto simp: step_Inr anchored_def intro!: ends_vbind)
qed

text \<open>A chain of the extender leads from the root of the aggregation chains to the publication of the user, from the
  signing time on.\<close>

definition user_extension :: "verify_env \<Rightarrow> KSI_VerificationContext \<Rightarrow> KSI_Signature \<Rightarrow> KSI_DataHash \<Rightarrow> bool" where
  "user_extension E c sig root \<longleftrightarrow>
     extendingAllowed c \<noteq> 0 \<and>
     (\<exists>usr ext s t. userPublication c = Some usr \<and> extension_proves E sig root (Some usr) ext
        \<and> KSI_Signature_getSigningTime sig = Inr (Some s) \<and> cal_aggregationTime ext = Some s
        \<and> pd_time usr = Some t \<and> (\<exists>start. extension_start sig = Inr start \<and> KSI_Integer_compare start (Some t) = - 1))"

lemma extendToUserPublication_sound:
  assumes a: "anchored E c0 sig root c" and "ext_of c = None"
    and "concludes (extendToUserPublication E) c KSI_VER_RES_OK d"
  shows "user_extension E c0 sig root"
proof -
  obtain c2 c3 c4 where v: "passes KSI_VerificationRule_UserProvidedPublicationCreationTimeVerification c c" "extendingAllowed c \<noteq> 0"
    "passes (KSI_VerificationRule_UserProvidedPublicationExtendedCalendarChainHashAlgorithmDeprecatedAtPubTime E) c c2"
    "passes (KSI_VerificationRule_UserProvidedPublicationHashMatchesExtendedResponse E) c2 c3"
    "passes (KSI_VerificationRule_UserProvidedPublicationTimeMatchesExtendedResponse E) c3 c4"
    "passes (KSI_VerificationRule_UserProvidedPublicationExtendedSignatureInputHash E) c4 d"
    using assms(3) UserCreation_passes [OF a] by (auto simp: extendToUserPublication_def concludes_OK Permitted_passes
        KSI_VerificationRule_UserProvidedPublicationExtendingPermittedVerification_def)
  obtain usr t ext where 1: "userPublication c0 = Some usr" "pd_time usr = Some t" "extension_of E sig (Some t) ext"
    "calendar_algorithms wasDeprecatedAt ext" "anchored E c0 sig root c2" "ext_of c2 = Some ext"
    using UserAlgorithms_passes [OF a assms(2) v(3)] by blast
  obtain h e where 2: "KSI_CalendarHashChain_aggregate (digest E) ext = Ok (Some h, e)" "pd_imprint usr = Some h"
    "anchored E c0 sig root c3" "ext_of c3 = Some e"
    using UserHash_passes [OF 1(5,6) v(4)] 1(1) by auto
  obtain s where 3: "c4 = c3" "publicationTime e = Some t" "KSI_Signature_getSigningTime sig = Inr (Some s)" "cal_aggregationTime e = Some s"
    using UserTime_passes [OF 2(3,4) v(5)] 1(1,2) by auto
  have 4: "cal_inputHash e = Some root" using UserInput_passes [OF 2(3,4)] v(6) 3(1) by simp
  have "publicationTime ext = Some t" "cal_inputHash ext = Some root" "cal_aggregationTime ext = Some s"
    using same_calendar_aggregate [OF 2(1)] 3 4 by (simp_all add: same_calendar_def)
  then show ?thesis using 1 2(1,2) 3(3) UserCreation_passes [OF a v(1)] v(2) a
    by (auto simp: user_extension_def extension_proves_def publishes_def anchored_def)
qed

lemma UserExistence_passes:
  "passes KSI_VerificationRule_UserProvidedPublicationExistence c d \<longleftrightarrow>
     d = c \<and> signature c \<noteq> None \<and> (\<exists>usr t h. userPublication c = Some usr \<and> pd_time usr = Some t \<and> pd_imprint usr = Some h)"
  by (auto simp: KSI_VerificationRule_UserProvidedPublicationExistence_def decides_rule on_steps split: option.splits)

lemma UserPubTime_decides:
  assumes "decides KSI_VerificationRule_UserProvidedPublicationTimeVerification c code d"
  shows "d = c"
  using assms by (auto simp: KSI_VerificationRule_UserProvidedPublicationTimeVerification_def decides_rule on_steps)

lemma UserPubTime_passes:
  "passes KSI_VerificationRule_UserProvidedPublicationTimeVerification c d \<longleftrightarrow>
     d = c \<and> (\<exists>s usr pub p t. signature c = Some s \<and> userPublication c = Some usr \<and> publication s = Some pub \<and> publishedData pub = Some p
        \<and> pd_time p = Some t \<and> pd_time usr = Some t)"
  by (auto simp: KSI_VerificationRule_UserProvidedPublicationTimeVerification_def decides_rule on_steps getter_eq_Inr
      KSI_Integer_compare_def split: if_splits)

lemma UserPubHash_decides:
  assumes "decides KSI_VerificationRule_UserProvidedPublicationHashVerification c code d"
  shows "d = c"
  using assms by (auto simp: KSI_VerificationRule_UserProvidedPublicationHashVerification_def decides_rule on_steps)

lemma UserPubHash_passes:
  "passes KSI_VerificationRule_UserProvidedPublicationHashVerification c d \<longleftrightarrow>
     d = c \<and> (\<exists>s usr pub p h. signature c = Some s \<and> userPublication c = Some usr \<and> publication s = Some pub \<and> publishedData pub = Some p
        \<and> pd_imprint p = Some h \<and> pd_imprint usr = Some h)"
  by (auto simp: KSI_VerificationRule_UserProvidedPublicationHashVerification_def decides_rule on_steps getter_eq_Inr equals_Some)

lemma TimeDoesNotSuit_decides:
  assumes "decides KSI_VerificationRule_UserProvidedPublicationTimeDoesNotSuit c code d"
  shows "d = c"
  using assms by (auto simp: KSI_VerificationRule_UserProvidedPublicationTimeDoesNotSuit_def decides_rule on_steps split: option.splits if_splits)

text \<open>The publication record of the signature has the time and the hash of the publication of the user.\<close>

definition record_is :: "KSI_Signature \<Rightarrow> KSI_PublicationData \<Rightarrow> bool" where
  "record_is sig usr \<longleftrightarrow>
     (\<exists>pub p t h cal. publication sig = Some pub \<and> publishedData pub = Some p \<and> pd_time p = Some t \<and> pd_time usr = Some t
        \<and> pd_imprint p = Some h \<and> pd_imprint usr = Some h \<and> calendarChain sig = Some cal \<and> calendar_algorithms wasDeprecatedAt cal)"

definition user_confirms :: "verify_env \<Rightarrow> KSI_VerificationContext \<Rightarrow> KSI_Signature \<Rightarrow> KSI_DataHash \<Rightarrow> bool" where
  "user_confirms E c sig root \<longleftrightarrow> (\<exists>usr. userPublication c = Some usr \<and> record_is sig usr) \<or> user_extension E c sig root"

lemma anchored_publication: "anchored E c0 sig root c \<Longrightarrow> signature c = Some s \<Longrightarrow> publication s = publication sig"
  by (auto simp: anchored_def same_signature_def)

lemma same_calendar_algorithms: "same_calendar D a b \<Longrightarrow> calendar_algorithms bad b \<longleftrightarrow> calendar_algorithms bad a"
  by (simp add: same_calendar_def calendar_algorithms_def)

lemma userPubExist_context: "concludes (suitablePubExist E) c code d \<Longrightarrow> d = c"
  by (auto simp: suitablePubExist_def concludes_simps KSI_VerificationRule_UserProvidedPublicationSignatureCalendarChainHashAlgorithmDeprecatedAtPubTime_def
      dest!: UserPubTime_decides UserPubHash_decides Deprecated_decides(1))

lemma userPubExist_OK:
  assumes "anchored E c0 sig root c"
  shows "concludes (suitablePubExist E) c KSI_VER_RES_OK d \<longleftrightarrow> d = c \<and> (\<exists>usr. userPublication c0 = Some usr \<and> record_is sig usr)"
proof -
  obtain s where s: "signature c = Some s" "same_signature (digest E) sig s" using anchored_sig [OF assms] by blast
  have cal: "(\<exists>cal. calendarChain s = Some cal \<and> calendar_algorithms wasDeprecatedAt cal)
      \<longleftrightarrow> (\<exists>cal. calendarChain sig = Some cal \<and> calendar_algorithms wasDeprecatedAt cal)"
    using s(2) by (cases "calendarChain sig"; cases "calendarChain s") (auto simp: same_signature_def same_calendar_algorithms)
  show ?thesis using assms s anchored_publication [OF assms s(1)] cal
    by (auto simp: suitablePubExist_def concludes_OK UserPubTime_passes UserPubHash_passes Deprecated_passes record_is_def anchored_def
        KSI_VerificationRule_UserProvidedPublicationSignatureCalendarChainHashAlgorithmDeprecatedAtPubTime_def)
qed

lemma pubString_sound:
  assumes a: "anchored E c0 sig root c" and n: "ext_of c = None"
    and v: "concludes (publicationRecordRule_pubString E) c KSI_VER_RES_OK d"
  shows "user_confirms E c0 sig root"
proof -
  have ext: "user_confirms E c0 sig root" if "concludes (extendToUserPublication E) c KSI_VER_RES_OK d'" for d'
    using extendToUserPublication_sound [OF a n that] by (simp add: user_confirms_def)
  have missing: "user_confirms E c0 sig root" if "concludes (suitablePubMissing E) c KSI_VER_RES_OK d'" for d'
    using that ext by (auto simp: suitablePubMissing_def concludes_OK dest!: TimeDoesNotSuit_decides)
  have exist: "user_confirms E c0 sig root" if "concludes (suitablePubExist E) c KSI_VER_RES_OK d'" for d'
    using that by (simp add: userPubExist_OK [OF a] user_confirms_def)
  show ?thesis
  proof (cases "concludes (sigPubRecExist E) c KSI_VER_RES_OK d")
    case True
    then show ?thesis using exist missing userPubExist_context [of E c]
      by (auto simp: sigPubRecExist_def concludes_OK presence_defs presence_decides)
  next
    case False
    then obtain e where e: "concludes (sigPubRecExist E) c KSI_VER_RES_NA e" "concludes (sigPubRecMissing E) e KSI_VER_RES_OK d"
      using v by (auto simp: publicationRecordRule_pubString_def concludes_OK)
    obtain s where s: "signature c = Some s" using anchored_sig [OF a] by blast
    have "list_all pub_kept (basics (sigPubRecExist E))"
      using pub_kept_user [of E] by (simp add: publicationRecordRule_pubString_def)
    from pub_kept_array [OF this e(1)] e(2) s have "publication s = None"
      by (auto simp: sigPubRecMissing_def concludes_OK presence_defs presence_decides pub_of_def split: if_splits)
    then have "e = c" using e(1) s by (auto simp: sigPubRecExist_def concludes_guard_NA presence_defs presence_decides)
    then show ?thesis using e(2) ext
      by (auto simp: sigPubRecMissing_def concludes_OK presence_defs presence_decides)
  qed
qed

text \<open>C16. Verification with a publication of the user is sound.  A signature that is accepted under the policy of the
  user's publication is internally valid, and that publication confirms it: it has the time and the hash of the
  publication record in the signature, whose calendar chain uses no deprecated algorithm; or, when extending is
  allowed and the publication is later than the signing, the extender has sent a calendar chain that leads from the root
  of the aggregation chains at the signing time to the hash and time of the publication, without a deprecated algorithm.\<close>

theorem user_publication_sound:
  assumes "signature c = Some sig" and "parsed_signature sig" and "accepts (predefined_policies E) 5 c"
  shows "internally_valid (digest E) c sig \<and> (\<exists>root. signature_root (digest E) sig root \<and> user_confirms E c sig root)"
proof -
  have p: "5 < length (predefined_policies E)"
    "pol_rules (predefined_policies E ! 5) = Some (KSI_RULE_TYPE_COMPOSITE_AND (internalRules E) # 
      [KSI_RULE_TYPE_BASIC KSI_VerificationRule_UserProvidedPublicationExistence, KSI_RULE_TYPE_COMPOSITE_AND (publicationRecordRule_pubString E)])"
    by (simp_all add: predefined_policies_def userProvidedPublicationBasedRules_def)
  obtain root d e where "internally_valid (digest E) c sig" "signature_root (digest E) sig root" "anchored E c sig root d" "ext_of d = None"
    "concludes (publicationRecordRule_pubString E) d KSI_VER_RES_OK e"
    by (rule accepted_anchored [OF assms(1-3) p]) (auto simp: concludes_OK UserExistence_passes)
  then show ?thesis using pubString_sound by blast
qed

section \<open>Signatures with a confirmed publication record are accepted\<close>

lemma accepted_if:
  assumes "signature c = Some sig" "parsed_signature sig" "internally_valid (digest E) c sig" "p < length (predefined_policies E)"
    and "pol_rules (predefined_policies E ! p) = Some (KSI_RULE_TYPE_COMPOSITE_AND (internalRules E) # rs)" "rs \<noteq> []"
    and tail: "\<And>root d. anchored E c sig root d \<Longrightarrow> \<exists>e. concludes rs d KSI_VER_RES_OK e"
  shows "accepts (predefined_policies E) p c"
proof -
  have fresh: "list_all fresh_chain (elements (aggregationChainList sig))"
    using assms(2) by (auto simp: parsed_signature_def list_all_iff)
  have b: "signature (begin_verification c) = Some sig" "tempData (begin_verification c) = Some VerificationTempData_empty"
    using assms by (simp_all add: begin_verification_def)
  obtain d where d: "concludes (internalRules E) (begin_verification c) KSI_VER_RES_OK d"
    using internalRules_OK [OF b fresh, of E] assms(3) by (auto simp: internally_valid_begin)
  obtain root where "anchored E c sig root d" using anchored_internal [OF assms(1,2) d] by blast
  then obtain e where "concludes rs d KSI_VER_RES_OK e" using tail by blast
  with d show ?thesis using accepts_predefined [OF assms(4), of c] assms(5,6) by (simp add: concludes_both) blast
qed

lemma user_record_rules:
  assumes a: "anchored E c sig root d" and "userPublication c = Some usr" "record_is sig usr"
  shows "\<exists>e. concludes [KSI_RULE_TYPE_BASIC KSI_VerificationRule_UserProvidedPublicationExistence,
      KSI_RULE_TYPE_COMPOSITE_AND (publicationRecordRule_pubString E)] d KSI_VER_RES_OK e"
proof -
  obtain s where s: "signature d = Some s" using anchored_sig [OF a] by blast
  have "publication s \<noteq> None" using anchored_publication [OF a s] assms(3) by (auto simp: record_is_def)
  then have "concludes (sigPubRecExist E) d KSI_VER_RES_OK d"
    using s userPubExist_OK [OF a] assms(2,3) by (auto simp: sigPubRecExist_def concludes_OK presence_defs presence_decides)
  moreover have "passes KSI_VerificationRule_UserProvidedPublicationExistence d d"
    using s a assms(2,3) by (auto simp: UserExistence_passes anchored_def record_is_def)
  ultimately show ?thesis by (auto simp: concludes_OK publicationRecordRule_pubString_def)
qed

lemma user_record_accepted:
  assumes "signature c = Some sig" "parsed_signature sig" "internally_valid (digest E) c sig" "userPublication c = Some usr" "record_is sig usr"
  shows "accepts (predefined_policies E) 5 c"
proof (rule accepted_if [OF assms(1-3) _ _ _ user_record_rules [OF _ assms(4,5)]])
qed (simp_all add: predefined_policies_def userProvidedPublicationBasedRules_def)

lemma file_record_accepted:
  assumes "signature c = Some sig" "parsed_signature sig" "internally_valid (digest E) c sig" "uses_file E c pf" "record_confirmed pf sig"
    and at: "publication sig = Some pub" "publishedData pub = Some p" "pd_time p = Some t"
      "KSI_PublicationsFile_findPublicationByTime (Some pf) (Some t) = Inr (Some q)"
  shows "accepts (predefined_policies E) 4 c"
proof (rule accepted_if [OF assms(1-3)])
  fix root d
  assume a: "anchored E c sig root d"
  note a1 = anchored_filed [OF a, THEN conjunct1]
  note a2 = anchored_filed [OF a1, THEN conjunct1]
  obtain s where s: "signature d = Some s" using anchored_sig [OF a] by blast
  obtain s1 where s1: "signature (filed E d) = Some s1" using anchored_sig [OF a1] by blast
  obtain s2 where s2: "signature (filed E (filed E d)) = Some s2" "same_signature (digest E) sig s2" using anchored_sig [OF a2] by blast
  obtain pr cal where r: "KSI_PublicationsFile_findPublication (Some pf) (Some pub) = Inr (Some pr)"
    "calendarChain sig = Some cal" "calendar_algorithms wasDeprecatedAt cal"
    using assms(5) at(1) by (auto simp: record_confirmed_def)
  note pubs = anchored_publication [OF a s] anchored_publication [OF a1 s1]
  have 1: "passes (KSI_VerificationRule_PublicationsFileContainsSignaturePublication E) d (filed E d)"
    using s pubs at anchored_init [OF a assms(4)] anchored_temp [OF a]
    by (auto simp: KSI_VerificationRule_PublicationsFileContainsSignaturePublication_def same_time_publication_def
        signature_publication_def decides_rule on_steps getter_eq_Inr)
  have 2: "passes (KSI_VerificationRule_PublicationsFileSignaturePublicationVerification E) (filed E d) (filed E (filed E d))"
    using s1 pubs r(1) at anchored_init [OF a1 assms(4)] anchored_temp [OF a1]
    by (auto simp: KSI_VerificationRule_PublicationsFileSignaturePublicationVerification_def
        signature_publication_def decides_rule on_steps getter_eq_Inr)
  have 3: "passes (signatureCalendarChainHashAlgorithmDeprecatedAtPubTime st name) (filed E (filed E d)) (filed E (filed E d))" for st name
    using s2 r(2,3) same_calendar_algorithms by (auto simp: Deprecated_passes same_signature_def option_rel_Some1)
  have "concludes (suitablePubExist_pubFile E) d KSI_VER_RES_OK (filed E (filed E d))"
    using 1 2 3 by (auto simp: suitablePubExist_pubFile_def concludes_OK
        KSI_VerificationRule_PublicationsFileSignatureCalendarChainHashAlgorithmDeprecatedAtPubTime_def)
  then have "concludes (sigPubRecExist_pubFile E) d KSI_VER_RES_OK (filed E (filed E d))"
    using s pubs(1) at(1) by (auto simp: sigPubRecExist_pubFile_def concludes_OK presence_defs presence_decides)
  then show "\<exists>e. concludes [KSI_RULE_TYPE_COMPOSITE_AND (publicationRecordRule_pubFile E)] d KSI_VER_RES_OK e"
    by (auto simp: concludes_OK publicationRecordRule_pubFile_def)
qed (simp_all add: predefined_policies_def publicationsFileBasedRules_def)

lemma sample_parsed: "parsed_signature (sample_signed pub rec)"
  by (simp add: parsed_signature_def fresh_chain_def KSI_AggregationHashChain_new_def sample_defs)

lemma sample_algorithms: "calendar_algorithms wasDeprecatedAt sample_calendar"
  by (simp add: calendar_algorithms_def left_algorithms_def sample_defs)

definition sample_user_context :: KSI_VerificationContext where
  "sample_user_context = sample_context\<lparr>userPublication := Some sample_publication\<rparr>"

lemma sample_record: "record_is sample_signature sample_publication"
  using sample_algorithms by (simp add: record_is_def sample_signature_def sample_signed_def sample_publication_def)

theorem user_publication_sound_witness:
  "\<exists>root. signature_root sample_digest sample_signature root \<and> user_confirms sample_env sample_user_context sample_signature root"
proof -
  have "internally_valid sample_digest sample_user_context sample_signature"
    using sample_valid sample_published by (simp add: sample_signature_def sample_user_context_def sample_context_def)
  then have "accepts (predefined_policies sample_env) 5 sample_user_context"
    using sample_parsed sample_record
    by (intro user_record_accepted [of _ sample_signature _ sample_publication])
       (simp_all add: sample_user_context_def sample_context_def sample_env_def sample_signature_def)
  then show ?thesis
    using user_publication_sound [of sample_user_context sample_signature sample_env] sample_parsed
    by (simp add: sample_user_context_def sample_context_def sample_env_def sample_signature_def)
qed

definition sample_publications :: KSI_PublicationsFile where
  "sample_publications = \<lparr>certificates = None, publications = map_option (\<lambda>r. [r]) (publication sample_signature), certConstraints = None\<rparr>"

definition sample_file_context :: KSI_VerificationContext where
  "sample_file_context = sample_context\<lparr>userPublicationsFile := Some sample_publications\<rparr>"

theorem publications_file_sound_witness:
  "\<exists>root. signature_root sample_digest sample_signature root
     \<and> file_confirms sample_env sample_publications sample_file_context sample_signature root"
proof -
  let ?pr = "\<lparr>publishedData = Some sample_publication, publicationRef = None, repositoryUriList = None\<rparr>"
  have f: "KSI_PublicationsFile_findPublication (Some sample_publications) (Some ?pr) = Inr (Some ?pr)"
    "KSI_PublicationsFile_findPublicationByTime (Some sample_publications) (Some 1) = Inr (Some ?pr)"
    by code_simp+
  have u: "uses_file sample_env sample_file_context sample_publications" by (simp add: uses_file_def sample_file_context_def)
  have sig: "signature sample_file_context = Some sample_signature" "publication sample_signature = Some ?pr"
    by (simp_all add: sample_file_context_def sample_context_def sample_signature_def sample_signed_def)
  have "internally_valid (digest sample_env) sample_file_context sample_signature"
    using sample_valid sample_published by (simp add: sample_signature_def sample_file_context_def sample_context_def sample_env_def)
  moreover have "record_confirmed sample_publications sample_signature"
    using f(1) sig(2) sample_algorithms by (simp add: record_confirmed_def) (simp add: sample_signature_def sample_signed_def)
  moreover have p: "parsed_signature sample_signature" by (simp add: sample_signature_def sample_parsed)
  moreover have "pd_time sample_publication = Some 1" by (simp add: sample_publication_def)
  ultimately have "accepts (predefined_policies sample_env) 4 sample_file_context"
    using file_record_accepted [OF sig(1) _ _ u _ sig(2) _ _ f(2), of sample_publication] by simp
  then show ?thesis
    using publications_file_sound [OF sig(1) p u] by (simp add: sample_env_def)
qed

end
