(* ===== verification/Base32.thy ===== *)
theory Base32
  imports DataHash
begin

text \<open>
  The base-32 codec of \<^verbatim>\<open>src/src/ksi/base32.c\<close>, in which publications are printed: the bit buffer of the decoder,
  the bit reader of the encoder, the grouping with dashes and the padding.

  Both routines write into a buffer whose size they compute first; a write behind its end is \<open>Fault\<close>.  The counters of
  bits are \<^verbatim>\<open>int\<close> in the decoder and \<^verbatim>\<open>size_t\<close> in the encoder, and numbers here, which is the same for texts of fewer than
  \<open>2 ^ 31 / 5\<close> characters.  Texts are those of the \<open>C\<close> locale, without their terminator.
\<close>

section \<open>The decoder\<close>

definition base32EncodeTable :: string where
  "base32EncodeTable = ''ABCDEFGHIJKLMNOPQRSTUVWXYZ234567''"

text \<open>The entries are of type \<^verbatim>\<open>unsigned char\<close>: the marks of the digits without a value are \<open>255\<close>.\<close>

definition base32NumDecTable :: "byte list" where
  "base32NumDecTable = [-1, -1, 26, 27, 28, 29, 30, 31, -1, -1]"

primrec makeMask :: "nat \<Rightarrow> int" where
  "makeMask 0 = 0"
| "makeMask (Suc n) = push_bit 1 (makeMask n) OR 1"

definition or_byte :: "bytes \<Rightarrow> nat \<Rightarrow> int \<Rightarrow> bytes run" where
  "or_byte buf i v = (if i < length buf then Ok (buf[i := buf ! i OR word_of_int v]) else Fault)"

definition addBits :: "bytes \<Rightarrow> nat \<Rightarrow> int \<Rightarrow> (bytes \<times> nat) run" where
  "addBits buf bits_decoded bits =
     (if bits < 0 then Ok (buf, bits_decoded)
      else
        let room = 8 - bits_decoded mod 8;
            bits_to_first_byte = (if room > 5 then 5 else room);
            shift_count = 8 - bits_to_first_byte - bits_decoded mod 8;
            buf_idx = bits_decoded div 8;
            selected_bits = drop_bit (5 - bits_to_first_byte) (bits AND push_bit (5 - bits_to_first_byte) (makeMask bits_to_first_byte))
        in run_bind (or_byte buf buf_idx (push_bit shift_count selected_bits)) (\<lambda>buf.
             let bits_decoded = bits_decoded + bits_to_first_byte in
             if bits_to_first_byte < 5 then
               let bits_to_second_byte = 5 - bits_to_first_byte;
                   shift_count = 8 - bits_to_second_byte;
                   selected_bits = bits AND drop_bit (5 - bits_to_second_byte) (push_bit (5 - bits_to_second_byte) (makeMask bits_to_second_byte))
               in run_bind (or_byte buf (buf_idx + 1) (push_bit shift_count selected_bits)) (\<lambda>buf. Ok (buf, bits_decoded + bits_to_second_byte))
             else Ok (buf, bits_decoded)))"

definition isdigit :: "char \<Rightarrow> bool" where
  "isdigit c \<longleftrightarrow> 48 \<le> (of_char c :: nat) \<and> (of_char c :: nat) \<le> 57"

fun decodeLoop :: "string \<Rightarrow> bytes \<Rightarrow> nat \<Rightarrow> (bytes \<times> nat) run" where
  "decodeLoop [] tmp bits_decoded = Ok (tmp, bits_decoded)"
| "decodeLoop (ch # base32) tmp bits_decoded =
     (let c = toupper ch in
      if c = CHR ''='' then Ok (tmp, bits_decoded)
      else if c = CHR ''-'' then decodeLoop base32 tmp bits_decoded
      else if isdigit c then
        run_bind (addBits tmp bits_decoded (uint (base32NumDecTable ! (of_char c - 48)))) (\<lambda>(tmp, bits_decoded). decodeLoop base32 tmp bits_decoded)
      else if 65 \<le> (of_char c :: nat) \<and> (of_char c :: nat) \<le> 90 then
        run_bind (addBits tmp bits_decoded (int (of_char c) - 65)) (\<lambda>(tmp, bits_decoded). decodeLoop base32 tmp bits_decoded)
      else Err KSI_INVALID_FORMAT)"

definition KSI_base32Decode :: "string option \<Rightarrow> bytes run" where
  "KSI_base32Decode base32 =
     (case base32 of None \<Rightarrow> Err KSI_INVALID_ARGUMENT
      | Some s \<Rightarrow> run_bind (decodeLoop s (replicate (length s * 5 div 8 + 2) 0) 0) (\<lambda>(tmp, bits_decoded). Ok (take (bits_decoded div 8) tmp)))"

section \<open>The encoder\<close>

text \<open>The next five bits, or \<open>-1\<close> behind the data; bits that are missing in the last group are zero.\<close>

definition readNextBits :: "bytes \<Rightarrow> nat \<Rightarrow> int" where
  "readNextBits data bits_read =
     (let byte_to_read = bits_read div 8 in
      if byte_to_read \<ge> length data then -1
      else
        let room = 8 - (bits_read - byte_to_read * 8);
            first_byte_bits = (if room > 5 then 5 else room);
            shift_count = 8 - bits_read mod 8 - first_byte_bits;
            ret = drop_bit shift_count (uint (data ! byte_to_read) AND push_bit shift_count (makeMask first_byte_bits));
            byte_to_read = byte_to_read + 1
        in if first_byte_bits < 5 then
             let second_byte_bits = 5 - first_byte_bits;
                 ret = push_bit second_byte_bits ret
             in if byte_to_read < length data then
                  let shift_count = 8 - second_byte_bits in
                  ret OR drop_bit shift_count (uint (data ! byte_to_read) AND push_bit shift_count (makeMask second_byte_bits))
                else ret
           else ret)"

text \<open>\<^verbatim>\<open>tmp[ret_len++] = c\<close> for a buffer of \<^verbatim>\<open>buf_len\<close> characters; \<open>tmp\<close> holds the characters written so far.\<close>

definition put_char :: "nat \<Rightarrow> string \<Rightarrow> char \<Rightarrow> string run" where
  "put_char buf_len tmp c = (if length tmp < buf_len then Ok (tmp @ [c]) else Fault)"

lemma readNextBits_end: "readNextBits data r \<noteq> -1 \<Longrightarrow> r div 8 < length data"
  by (auto simp: readNextBits_def Let_def split: if_splits)

function encodeLoop :: "bytes \<Rightarrow> nat \<Rightarrow> nat \<Rightarrow> nat \<Rightarrow> string \<Rightarrow> (string \<times> nat) run" where
  "encodeLoop data group_len buf_len bits_read tmp =
     (let next_bits = readNextBits data bits_read in
      if next_bits = -1 then Ok (tmp, bits_read)
      else
        run_bind (put_char buf_len tmp (base32EncodeTable ! nat next_bits)) (\<lambda>tmp.
        run_bind (if group_len > 0 \<and> length tmp mod (group_len + 1) = group_len \<and> bits_read + 5 < length data * 8
                  then put_char buf_len tmp (CHR ''-'') else Ok tmp) (\<lambda>tmp.
        encodeLoop data group_len buf_len (bits_read + 5) tmp)))"
  by pat_completeness auto
termination
  by (relation "measure (\<lambda>(data, g, n, r, tmp). length data * 8 - r)")
     (auto simp: Let_def dest: readNextBits_end)

function padLoop :: "nat \<Rightarrow> nat \<Rightarrow> nat \<Rightarrow> string \<Rightarrow> string run" where
  "padLoop group_len buf_len bits_read tmp =
     (if bits_read mod 40 \<noteq> 0 then
        run_bind (put_char buf_len tmp (CHR ''='')) (\<lambda>tmp.
        run_bind (if length tmp mod (group_len + 1) = group_len \<and> bits_read mod 40 \<noteq> 35
                  then put_char buf_len tmp (CHR ''-'') else Ok tmp) (\<lambda>tmp.
        padLoop group_len buf_len (bits_read + 5) tmp))
      else Ok tmp)"
  by pat_completeness auto
termination
  by (relation "measure (\<lambda>(g, n, r, tmp). n - length tmp)") (auto simp: put_char_def split: if_splits)

declare encodeLoop.simps [simp del] padLoop.simps [simp del]

definition KSI_base32Encode :: "bytes option \<Rightarrow> nat \<Rightarrow> string run" where
  "KSI_base32Encode data group_len =
     (case data of None \<Rightarrow> Err KSI_INVALID_ARGUMENT
      | Some bs \<Rightarrow>
          if bs = [] then Err KSI_INVALID_ARGUMENT
          else
            let buf_len = (length bs * 8 + 39) div 40 * 8;
                buf_len = (if group_len > 0 then buf_len + (buf_len - 1) div group_len else buf_len);
                buf_len = buf_len + 1
            in run_bind (encodeLoop bs group_len buf_len 0 []) (\<lambda>(tmp, bits_read).
               run_bind (padLoop group_len buf_len bits_read tmp) (\<lambda>tmp.
               run_bind (put_char buf_len tmp (CHR 0x00)) (\<lambda>_. Ok tmp))))"

section \<open>Bits\<close>

text \<open>Bit \<open>k\<close> of a byte string, counted from the most significant bit of its first byte.\<close>

definition data_bit :: "bytes \<Rightarrow> nat \<Rightarrow> bool" where
  "data_bit bs k \<longleftrightarrow> k div 8 < length bs \<and> bit (bs ! (k div 8)) (7 - k mod 8)"

lemma makeMask_eq: "makeMask n = mask n"
  by (induction n) (simp_all add: mask_Suc_double push_bit_eq_mult mult.commute or.commute)

lemma bit_makeMask [simp]: "bit (makeMask n) k \<longleftrightarrow> k < n"
  by (simp add: makeMask_eq bit_mask_iff)

lemma data_bit_at: "c < 8 \<Longrightarrow> data_bit bs (8 * q + c) \<longleftrightarrow> q < length bs \<and> bit (bs ! q) (7 - c)"
  by (simp add: data_bit_def)

lemma data_bit_eqI:
  assumes "length xs = length ys" "\<And>k. k < 8 * length ys \<Longrightarrow> data_bit xs k \<longleftrightarrow> data_bit ys k"
  shows "xs = ys"
proof (rule nth_equalityI [OF assms(1)])
  fix i assume i: "i < length xs"
  show "xs ! i = ys ! i"
  proof (rule bit_word_eqI)
    fix n assume "n < LENGTH(8)"
    then have n: "n < 8" by simp
    then have "8 * i + (7 - n) < 8 * length ys" using i assms(1) by simp
    from assms(2) [OF this] show "bit (xs ! i) n \<longleftrightarrow> bit (ys ! i) n"
      using n i assms(1) data_bit_at [of "7 - n"] by simp
  qed
qed

lemma five_bits: 
  assumes "(0::int) \<le> v" "\<And>k. bit v k \<Longrightarrow> k < 5"
  shows "v < 32"
proof -
  have "take_bit 5 v = v" by (rule bit_eqI) (use assms(2) in \<open>auto simp: bit_simps\<close>)
  then show "v < 32" using take_bit_int_less_exp [of 5 v] by simp
qed

lemma readNextBits_one:
  assumes "q < length data" "c \<le> 3"
  shows "readNextBits data (8 * q + c) = drop_bit (3 - c) (uint (data ! q) AND push_bit (3 - c) (makeMask 5))"
  using assms by (auto simp: readNextBits_def Let_def)

lemma readNextBits_two:
  assumes "q < length data" "3 < c" "c < 8"
  shows "readNextBits data (8 * q + c) =
     (push_bit (c - 3) (uint (data ! q) AND makeMask (8 - c)) OR
       (if q + 1 < length data then drop_bit (11 - c) (uint (data ! (q + 1)) AND push_bit (11 - c) (makeMask (c - 3))) else 0))"
  using assms by (auto simp: readNextBits_def Let_def)

lemma readNextBits_bits:
  assumes "q < length data" "c < 8"
  shows "0 \<le> readNextBits data (8 * q + c)" "bit (readNextBits data (8 * q + c)) k \<longleftrightarrow> k < 5 \<and> data_bit data (8 * q + c + 4 - k)"
proof -
  show "0 \<le> readNextBits data (8 * q + c)"
    using assms by (cases "c \<le> 3") (simp_all add: readNextBits_one readNextBits_two or_nonnegative_int_iff)
  show "bit (readNextBits data (8 * q + c)) k \<longleftrightarrow> k < 5 \<and> data_bit data (8 * q + c + 4 - k)"
  proof (cases "c \<le> 3")
    case True
    have "8 * q + c + 4 - k = 8 * q + (c + 4 - k)" "7 - (c + 4 - k) = 3 - c + k" if "k < 5" using that True by auto
    then show ?thesis using assms True data_bit_at [of "c + 4 - k" data q]
      by (cases "k < 5") (auto simp: readNextBits_one bit_simps)
  next
    case False
    have lo: "8 * q + c + 4 - k = 8 * (q + 1) + (c - 4 - k)" "7 - (c - 4 - k) = 11 - c + k" if "k < c - 3" using that False assms by auto
    have hi: "8 * q + c + 4 - k = 8 * q + (c + 4 - k)" "7 - (c + 4 - k) = k - (c - 3)" "c + 4 - k < 8" if "\<not> k < c - 3" "k < 5"
      using that False by auto
    show ?thesis
    proof (cases "k < c - 3")
      case True
      then have "data_bit data (8 * q + c + 4 - k) \<longleftrightarrow> q + 1 < length data \<and> bit (data ! (q + 1)) (11 - c + k)"
        using lo data_bit_at [of "c - 4 - k" data "q + 1"] assms by simp
      then show ?thesis using True assms False by (auto simp: readNextBits_two bit_simps)
    next
      case F: False
      then have "k < 5 \<Longrightarrow> data_bit data (8 * q + c + 4 - k) \<longleftrightarrow> bit (data ! q) (k - (c - 3))"
        using hi data_bit_at [of "c + 4 - k" data q] assms by simp
      then show ?thesis using F assms False
        by (auto simp: readNextBits_two bit_simps)
    qed
  qed
qed

lemma or_byte_ok: "i < length buf \<Longrightarrow> or_byte buf i v = Ok (buf[i := buf ! i OR word_of_int v])"
  by (simp add: or_byte_def)

lemma addBits_one:
  assumes "q < length buf" "c \<le> 3" "0 \<le> v"
  shows "addBits buf (8 * q + c) v = Ok (buf[q := buf ! q OR word_of_int (push_bit (3 - c) (v AND makeMask 5))], 8 * q + c + 5)"
  using assms by (auto simp: addBits_def Let_def or_byte_ok)

lemma addBits_two:
  assumes "q + 1 < length buf" "3 < c" "c < 8" "0 \<le> v"
  shows "addBits buf (8 * q + c) v =
     Ok (buf[q := buf ! q OR word_of_int (drop_bit (c - 3) (v AND push_bit (c - 3) (makeMask (8 - c)))),
             q + 1 := buf ! (q + 1) OR word_of_int (push_bit (11 - c) (v AND makeMask (c - 3)))], 8 * q + c + 5)"
  using assms by (auto simp: addBits_def Let_def or_byte_ok drop_bit_push_bit_int)

lemma addBits_ok:
  assumes "d div 8 + 1 < length buf" "0 \<le> v"
  obtains buf' where "addBits buf d v = Ok (buf', d + 5)" "length buf' = length buf"
    "\<And>k. data_bit buf' k \<longleftrightarrow> data_bit buf k \<or> d \<le> k \<and> k < d + 5 \<and> bit v (d + 4 - k)"
proof -
  obtain q c where d: "d = 8 * q + c" "c < 8" by (metis mult_div_mod_eq mod_less_divisor zero_less_numeral)
  have q: "q + 1 < length buf" using assms(1) d by simp
  show thesis
  proof (cases "c \<le> 3")
    case True
    let ?b = "buf[q := buf ! q OR word_of_int (push_bit (3 - c) (v AND makeMask 5))]"
    have "data_bit ?b k \<longleftrightarrow> data_bit buf k \<or> d \<le> k \<and> k < d + 5 \<and> bit v (d + 4 - k)" for k
    proof -
      obtain p e where k: "k = 8 * p + e" "e < 8" by (metis mult_div_mod_eq mod_less_divisor zero_less_numeral)
      show ?thesis
      proof (cases "p = q")
        case T: True
        then show ?thesis using k d q True
          by (auto simp: data_bit_at bit_simps nth_list_update add.commute [of 4 c])
      next
        case False
        then have "\<not> (d \<le> k \<and> k < d + 5)" using k d True by auto
        then show ?thesis using False k by (auto simp: data_bit_at)
      qed
    qed
    then show thesis using that [of ?b] addBits_one [of q buf c v] q True assms(2) d(1) by simp
  next
    case False
    let ?b = "buf[q := buf ! q OR word_of_int (drop_bit (c - 3) (v AND push_bit (c - 3) (makeMask (8 - c)))),
             q + 1 := buf ! (q + 1) OR word_of_int (push_bit (11 - c) (v AND makeMask (c - 3)))]"
    have "data_bit ?b k \<longleftrightarrow> data_bit buf k \<or> d \<le> k \<and> k < d + 5 \<and> bit v (d + 4 - k)" for k
    proof -
      obtain p e where k: "k = 8 * p + e" "e < 8" by (metis mult_div_mod_eq mod_less_divisor zero_less_numeral)
      consider "p = q" | "p = q + 1" | "p \<noteq> q" "p \<noteq> q + 1" by blast
      then show ?thesis
      proof cases
        case 1
        then show ?thesis using k d q False
          by (auto simp: data_bit_at bit_simps nth_list_update add.commute [of 4 c])
      next
        case 2
        then have "data_bit ?b k \<longleftrightarrow> data_bit buf k \<or> bit (push_bit (11 - c) (v AND makeMask (c - 3))) (7 - e)"
          using k d q False by (auto simp: data_bit_at bit_simps nth_list_update simp del: mult_Suc_right)
        moreover have "bit (push_bit (11 - c) (v AND makeMask (c - 3))) (7 - e) \<longleftrightarrow> e < c - 3 \<and> bit v (c - 4 - e)"
          using d(2) False k(2) by (auto simp: bit_simps)
        moreover have "d \<le> k \<and> k < d + 5 \<longleftrightarrow> e < c - 3" "d + 4 - k = c - 4 - e" using 2 d k False by auto
        ultimately show ?thesis by auto
      next
        case 3
        then have "\<not> (d \<le> k \<and> k < d + 5)" using k d False by auto
        then show ?thesis using 3 k by (auto simp: data_bit_at)
      qed
    qed
    then show thesis using that [of ?b] addBits_two [of q buf c v] q False d assms(2) by simp
  qed
qed

section \<open>The decoder collects the bits of the symbols\<close>

fun addAll :: "int list \<Rightarrow> bytes \<Rightarrow> nat \<Rightarrow> (bytes \<times> nat) run" where
  "addAll [] buf d = Ok (buf, d)"
| "addAll (v # vs) buf d = run_bind (addBits buf d v) (\<lambda>(buf, d). addAll vs buf d)"

lemma addAll_ok:
  assumes "(d + 5 * length vs) div 8 + 1 < length buf" "\<forall>v\<in>set vs. 0 \<le> v"
  obtains buf' where "addAll vs buf d = Ok (buf', d + 5 * length vs)" "length buf' = length buf"
    "\<And>k. data_bit buf' k \<longleftrightarrow> data_bit buf k \<or> d \<le> k \<and> k < d + 5 * length vs \<and> bit (vs ! ((k - d) div 5)) (4 - (k - d) mod 5)"
  using assms
proof (induction vs arbitrary: buf d thesis)
  case (Cons v vs)
  have "d div 8 + 1 < length buf" using Cons.prems(2) by simp
  moreover have "0 \<le> v" using Cons.prems(3) by simp
  ultimately obtain b where b: "addBits buf d v = Ok (b, d + 5)" "length b = length buf"
    "\<And>k. data_bit b k \<longleftrightarrow> data_bit buf k \<or> d \<le> k \<and> k < d + 5 \<and> bit v (d + 4 - k)"
    using addBits_ok by blast
  have "((d + 5) + 5 * length vs) div 8 + 1 < length b" "\<forall>v\<in>set vs. 0 \<le> v"
    using Cons.prems(2,3) b(2) by (simp_all add: algebra_simps)
  then obtain b' where b': "addAll vs b (d + 5) = Ok (b', (d + 5) + 5 * length vs)" "length b' = length b"
    "\<And>k. data_bit b' k \<longleftrightarrow> data_bit b k \<or> d + 5 \<le> k \<and> k < (d + 5) + 5 * length vs \<and> bit (vs ! ((k - (d + 5)) div 5)) (4 - (k - (d + 5)) mod 5)"
    using Cons.IH by blast
  have "data_bit b' k \<longleftrightarrow> data_bit buf k \<or> d \<le> k \<and> k < d + 5 * length (v # vs) \<and> bit ((v # vs) ! ((k - d) div 5)) (4 - (k - d) mod 5)" for k
  proof (cases "d + 5 \<le> k")
    case True
    then obtain j where j: "k = d + 5 + j" using le_Suc_ex by blast
    have "(k - d) div 5 = Suc (j div 5)" "(k - d) mod 5 = j mod 5" using j by simp_all
    then show ?thesis using b(3) [of k] b'(3) [of k] j by simp
  next
    case False
    then have "(k - d) div 5 = 0" "d \<le> k \<Longrightarrow> (k - d) mod 5 = k - d" by simp_all
    then show ?thesis using False b(3) [of k] b'(3) [of k] by (auto simp: add.commute [of 4 d])
  qed
  then show ?case using Cons.prems(1) [of b'] b b' by (simp add: algebra_simps)
next
  case Nil
  then show ?case by (metis addAll.simps(1) add.right_neutral list.size(3) mult_0_right not_less)
qed

text \<open>The value of a symbol: digits without a value count as \<open>255\<close>, whose low five bits are those of \<^verbatim>\<open>7\<close>.\<close>

definition symbol_value :: "char \<Rightarrow> int" where
  "symbol_value c = (if isdigit c then uint (base32NumDecTable ! (of_char c - 48)) else int (of_char c) - 65)"

definition is_symbol :: "char \<Rightarrow> bool" where
  "is_symbol c \<longleftrightarrow> isdigit c \<or> 65 \<le> (of_char c :: nat) \<and> (of_char c :: nat) \<le> 90"

lemma symbol_value_nonneg: "is_symbol c \<Longrightarrow> 0 \<le> symbol_value c"
  by (auto simp: is_symbol_def symbol_value_def)

lemma is_symbol_plain: "is_symbol c \<Longrightarrow> c \<noteq> CHR ''='' \<and> c \<noteq> CHR ''-''"
  by (auto simp: is_symbol_def isdigit_def)

lemma decodeLoop_Cons:
  "decodeLoop (ch # s) buf d =
     (if toupper ch = CHR ''='' then Ok (buf, d)
      else if toupper ch = CHR ''-'' then decodeLoop s buf d
      else if is_symbol (toupper ch) then run_bind (addBits buf d (symbol_value (toupper ch))) (\<lambda>(buf, d). decodeLoop s buf d)
      else Err KSI_INVALID_FORMAT)"
  by (auto simp: Let_def is_symbol_def symbol_value_def)

text \<open>The symbols in front of the padding, without the dashes.\<close>

definition symbols :: "string \<Rightarrow> string" where
  "symbols s = filter (\<lambda>c. c \<noteq> CHR ''-'') (takeWhile (\<lambda>c. c \<noteq> CHR ''='') (map toupper s))"

lemma decodeLoop_symbols:
  "list_all is_symbol (symbols s) \<Longrightarrow> decodeLoop s buf d = addAll (map symbol_value (symbols s)) buf d"
proof (induction s arbitrary: buf d)
  case (Cons c s)
  then show ?case
    unfolding decodeLoop_Cons by (auto simp: symbols_def intro!: run_bind_cong)
qed (simp add: symbols_def)

lemma decodeLoop_bad:
  assumes "\<not> list_all is_symbol (symbols s)" "(d + 5 * length s) div 8 + 1 < length buf"
  shows "decodeLoop s buf d = Err KSI_INVALID_FORMAT"
  using assms
proof (induction s arbitrary: buf d)
  case (Cons c s)
  show ?case
  proof (cases "is_symbol (toupper c)")
    case True
    have "d div 8 \<le> (d + 5 * length (c # s)) div 8" by (intro div_le_mono) simp
    then obtain b where "addBits buf d (symbol_value (toupper c)) = Ok (b, d + 5)" "length b = length buf"
      using addBits_ok [of d buf "symbol_value (toupper c)"] Cons.prems(2) symbol_value_nonneg [OF True] by auto
    then show ?thesis using True Cons is_symbol_plain [OF True] unfolding decodeLoop_Cons by (auto simp: symbols_def)
  next
    case False
    then show ?thesis using Cons unfolding decodeLoop_Cons by (auto simp: symbols_def)
  qed
qed (simp add: symbols_def)

lemma decode_runs: "KSI_base32Decode (Some s) \<noteq> Fault"
  and decode_error: "KSI_base32Decode (Some s) = Err e \<longleftrightarrow> e = KSI_INVALID_FORMAT \<and> \<not> list_all is_symbol (symbols s)"
proof -
  let ?buf = "replicate (length s * 5 div 8 + 2) (0::byte)"
  have l: "length (symbols s) \<le> length s"
    unfolding symbols_def by (metis length_filter_le length_map length_takeWhile_le order_trans)
  have fit: "(0 + 5 * length s) div 8 + 1 < length ?buf" by (simp add: mult.commute)
  have "(0 + 5 * length (map symbol_value (symbols s))) div 8 + 1 < length ?buf"
    using l by (simp add: mult.commute less_Suc_eq_le div_le_mono)
  then have ok: "\<exists>b. decodeLoop s ?buf 0 = Ok b" if "list_all is_symbol (symbols s)"
    unfolding decodeLoop_symbols [OF that] using that symbol_value_nonneg
    by (elim addAll_ok) (auto simp: list_all_iff simp del: replicate_Suc)
  then show "KSI_base32Decode (Some s) \<noteq> Fault"
    "KSI_base32Decode (Some s) = Err e \<longleftrightarrow> e = KSI_INVALID_FORMAT \<and> \<not> list_all is_symbol (symbols s)"
    using decodeLoop_bad [OF _ fit] by (cases "list_all is_symbol (symbols s)"; force simp: KSI_base32Decode_def)+
qed

text \<open>The text of a byte string decodes to its first bytes.\<close>

lemma decode_bits:
  assumes "map symbol_value (symbols s) = vs" "list_all is_symbol (symbols s)" "length vs = (8 * length data + 4) div 5"
    and bits: "\<And>i k. i < length vs \<Longrightarrow> k < 5 \<Longrightarrow> bit (vs ! i) k \<longleftrightarrow> data_bit data (5 * i + 4 - k)"
  shows "KSI_base32Decode (Some s) = Ok data"
proof -
  let ?buf = "replicate (length s * 5 div 8 + 2) (0::byte)"
  have "length vs \<le> length s"
    unfolding assms(1) [symmetric] symbols_def by (metis length_filter_le length_map length_takeWhile_le order_trans)
  then have fit: "(0 + 5 * length vs) div 8 + 1 < length ?buf" by (simp add: mult.commute less_Suc_eq_le div_le_mono)
  have "\<forall>v\<in>set vs. 0 \<le> v" using assms(1,2) symbol_value_nonneg by (auto simp: list_all_iff)
  then obtain b where b: "addAll vs ?buf 0 = Ok (b, 0 + 5 * length vs)" "length b = length ?buf"
    "\<And>k. data_bit b k \<longleftrightarrow> data_bit ?buf k \<or> 0 \<le> k \<and> k < 0 + 5 * length vs \<and> bit (vs ! ((k - 0) div 5)) (4 - (k - 0) mod 5)"
    using addAll_ok [OF fit] by metis
  have n: "5 * length vs div 8 = length data" "8 * length data \<le> 5 * length vs" unfolding assms(3) by presburger+
  have "take (length data) b = data"
  proof (rule data_bit_eqI)
    show len: "length (take (length data) b) = length data" using fit b(2) n(1) by simp
    fix k assume k: "k < 8 * length data"
    then have "k div 8 < length data" by simp
    then have "data_bit (take (length data) b) k \<longleftrightarrow> data_bit b k" using len by (auto simp: data_bit_def)
    also have "\<dots> \<longleftrightarrow> bit (vs ! (k div 5)) (4 - k mod 5)"
      using b(3) [of k] k n(2) by (auto simp: data_bit_def nth_Cons split: if_splits nat.splits)
    also have "\<dots> \<longleftrightarrow> data_bit data (5 * (k div 5) + 4 - (4 - k mod 5))"
      using bits [of "k div 5" "4 - k mod 5"] k n(2) by simp
    also have "5 * (k div 5) + 4 - (4 - k mod 5) = k" by presburger
    finally show "data_bit (take (length data) b) k \<longleftrightarrow> data_bit data k" .
  qed
  then show ?thesis using b(1) n(1) decodeLoop_symbols [OF assms(2)] assms(1) by (simp add: KSI_base32Decode_def)
qed

section \<open>The encoder\<close>

lemma readNextBits_digit:
  assumes "5 * i < 8 * length data"
  shows "0 \<le> readNextBits data (5 * i)" "readNextBits data (5 * i) < 32"
    "\<And>k. bit (readNextBits data (5 * i)) k \<longleftrightarrow> k < 5 \<and> data_bit data (5 * i + 4 - k)"
proof -
  obtain q c where d: "5 * i = 8 * q + c" "c < 8" by (metis mult_div_mod_eq mod_less_divisor zero_less_numeral)
  then have q: "q < length data" using assms by simp
  show "0 \<le> readNextBits data (5 * i)" and b: "\<And>k. bit (readNextBits data (5 * i)) k \<longleftrightarrow> k < 5 \<and> data_bit data (5 * i + 4 - k)"
    using readNextBits_bits [OF q d(2)] d(1) by simp_all
  then show "readNextBits data (5 * i) < 32" using five_bits by blast
qed

lemma readNextBits_stops: "8 * length data \<le> r \<Longrightarrow> readNextBits data r = -1"
  using div_le_mono [of "8 * length data" r 8] by (simp add: readNextBits_def)

lemma table_symbols: "list_all (\<lambda>n. toupper (base32EncodeTable ! n) = base32EncodeTable ! n \<and> is_symbol (base32EncodeTable ! n)
     \<and> symbol_value (base32EncodeTable ! n) = int n) [0..<32]"
  by code_simp

lemma table_symbol:
  assumes "0 \<le> v" "v < 32"
  shows "toupper (base32EncodeTable ! nat v) = base32EncodeTable ! nat v" "is_symbol (base32EncodeTable ! nat v)"
    "symbol_value (base32EncodeTable ! nat v) = v"
  using table_symbols assms unfolding list_all_iff set_upt by (auto dest!: bspec [where x = "nat v"])

text \<open>The bound that keeps the writes inside the buffer: with \<open>n\<close> symbols and padding characters there are at most
  \<open>n div g\<close> dashes, and the last group has none.\<close>

lemma dash_room:
  assumes "d * g \<le> n" "n < B" "0 < (g::nat)"
  shows "n + d < B + (B - 1) div g + 1" "n + 1 + d < B + (B - 1) div g + 1"
proof -
  have "d \<le> n div g" using assms by (simp add: less_eq_div_iff_mult_less_eq)
  also have "n div g \<le> (B - 1) div g" using assms by (intro div_le_mono) simp
  finally show "n + d < B + (B - 1) div g + 1" "n + 1 + d < B + (B - 1) div g + 1" using assms(2) by linarith+
qed

lemma dash_step:
  assumes "d * g \<le> n" "(n + 1 + d) mod (g + 1) = g" "0 < (g::nat)"
  shows "(d + 1) * g \<le> n + 1"
proof -
  define k where "k = (n + 1 + d) div (g + 1)"
  have k: "n + 1 + d = k * (g + 1) + g" using assms(2) unfolding k_def by (metis div_mult_mod_eq)
  have "d \<le> k"
  proof (rule ccontr)
    assume "\<not> d \<le> k"
    then have "(k + 1) * (g + 1) \<le> d * (g + 1)" by (intro mult_le_mono1) simp
    then show False using assms(1) k by (simp add: algebra_simps)
  qed
  then have "d * (g + 1) \<le> k * (g + 1)" by (rule mult_le_mono1)
  then show ?thesis using k by (simp add: algebra_simps)
qed

text \<open>The text written so far has \<open>n\<close> characters that are no dash.\<close>

definition room_for :: "nat \<Rightarrow> nat \<Rightarrow> nat \<Rightarrow> string \<Rightarrow> bool" where
  "room_for g B n tmp \<longleftrightarrow> (\<exists>d. length tmp = n + d \<and> d * g \<le> n \<and> (n = B \<longrightarrow> d * g < B))"

definition buffer_size :: "nat \<Rightarrow> nat \<Rightarrow> nat" where
  "buffer_size g B = B + (B - 1) div g + 1"

lemma put_step:
  assumes "room_for g B n tmp" "n < B" "0 < g" and dash: "b \<Longrightarrow> n + 1 < B"
  shows "run_bind (put_char (buffer_size g B) tmp c) (\<lambda>t.
      run_bind (if length t mod (g + 1) = g \<and> b then put_char (buffer_size g B) t (CHR ''-'') else Ok t) f)
    = f (tmp @ c # (if length (tmp @ [c]) mod (g + 1) = g \<and> b then [CHR ''-''] else []))"
    "room_for g B (n + 1) (tmp @ c # (if length (tmp @ [c]) mod (g + 1) = g \<and> b then [CHR ''-''] else []))"
proof -
  obtain d where d: "length tmp = n + d" "d * g \<le> n" using assms(1) by (auto simp: room_for_def)
  note r = dash_room [OF d(2) assms(2,3)]
  show "run_bind (put_char (buffer_size g B) tmp c) (\<lambda>t.
      run_bind (if length t mod (g + 1) = g \<and> b then put_char (buffer_size g B) t (CHR ''-'') else Ok t) f)
    = f (tmp @ c # (if length (tmp @ [c]) mod (g + 1) = g \<and> b then [CHR ''-''] else []))"
    using r d(1) by (auto simp: put_char_def buffer_size_def)
  show "room_for g B (n + 1) (tmp @ c # (if length (tmp @ [c]) mod (g + 1) = g \<and> b then [CHR ''-''] else []))"
  proof (cases "length (tmp @ [c]) mod (g + 1) = g \<and> b")
    case True
    then have "(d + 1) * g \<le> n + 1" using dash_step [OF d(2) _ assms(3)] d(1) by simp
    then show ?thesis unfolding room_for_def using True d dash by (intro exI [of _ "d + 1"]) simp
  next
    case False
    then show ?thesis unfolding room_for_def if_not_P [OF False] using d assms(2) by (intro exI [of _ d]) simp
  qed
qed

definition digit :: "bytes \<Rightarrow> nat \<Rightarrow> char" where
  "digit data i = base32EncodeTable ! nat (readNextBits data (5 * i))"

lemma digit_symbol:
  assumes "5 * i < 8 * length data"
  shows "toupper (digit data i) = digit data i" "is_symbol (digit data i)" "symbol_value (digit data i) = readNextBits data (5 * i)"
  using table_symbol readNextBits_digit [OF assms] by (simp_all add: digit_def)

lemma encodeLoop_ok:
  assumes "i \<le> m" "m = (8 * length data + 4) div 5" "m \<le> B" "0 < g" "room_for g B i tmp"
  obtains ext where "encodeLoop data g (buffer_size g B) (5 * i) tmp = Ok (tmp @ ext, 5 * m)" "room_for g B m (tmp @ ext)"
    "filter (\<lambda>c. c \<noteq> CHR ''-'') ext = map (digit data) [i..<m]" "set ext \<subseteq> insert (CHR ''-'') (digit data ` {i..<m})"
  using assms(1,5)
proof (induction "m - i" arbitrary: i tmp thesis)
  case 0
  then have "i = m" "8 * length data \<le> 5 * m" using assms(2) by simp_all
  then show ?case using 0 readNextBits_stops [of data "5 * m"] by (subst (asm) encodeLoop.simps) simp
next
  case (Suc x)
  have i: "5 * i < 8 * length data" "i < m" using Suc.hyps(2) assms(2) by simp_all
  let ?b = "5 * i + 5 < length data * 8"
  let ?t = "tmp @ digit data i # (if length (tmp @ [digit data i]) mod (g + 1) = g \<and> ?b then [CHR ''-''] else [])"
  have b: "?b \<Longrightarrow> i + 1 < B" using assms(2,3) by linarith
  note step = put_step [where b = ?b and c = "digit data i", OF Suc.prems(3) _ assms(4) b]
  have B: "i < B" using i(2) assms(3) by simp
  have n: "readNextBits data (5 * i) \<noteq> -1" using readNextBits_digit(1) [OF i(1)] by auto
  have s: "encodeLoop data g (buffer_size g B) (5 * i) tmp = encodeLoop data g (buffer_size g B) (5 * (i + 1)) ?t"
  proof -
    have "encodeLoop data g (buffer_size g B) (5 * i) tmp =
        run_bind (put_char (buffer_size g B) tmp (digit data i)) (\<lambda>t.
        run_bind (if length t mod (g + 1) = g \<and> ?b then put_char (buffer_size g B) t (CHR ''-'') else Ok t)
          (encodeLoop data g (buffer_size g B) (5 * (i + 1))))"
      using n assms(4) by (subst encodeLoop.simps) (simp add: digit_def Let_def add.commute)
    then show ?thesis by (rule trans [OF _ step(1) [OF B]])
  qed
  obtain ext where e: "encodeLoop data g (buffer_size g B) (5 * (i + 1)) ?t = Ok (?t @ ext, 5 * m)" "room_for g B m (?t @ ext)"
    "filter (\<lambda>c. c \<noteq> CHR ''-'') ext = map (digit data) [i + 1..<m]" "set ext \<subseteq> insert (CHR ''-'') (digit data ` {i + 1..<m})"
  proof (rule Suc.hyps(1) [of "i + 1" ?t])
    show "x = m - (i + 1)" "i + 1 \<le> m" using Suc.hyps(2) i(2) by simp_all
  qed (use that step(2) [OF B] in blast)+
  have "digit data i \<noteq> CHR ''-''" using is_symbol_plain digit_symbol [OF i(1)] by blast
  moreover have "[i..<m] = i # [i + 1..<m]" "{i..<m} = insert i {i + 1..<m}" using i(2) by (auto simp: upt_conv_Cons)
  ultimately show ?case
    using e s by (intro Suc.prems(1) [of "drop (length tmp) (?t @ ext)"]) auto
qed

lemma pad_mod: "5 * (n::nat) mod 40 = 5 * (n mod 8)"
  using mult_mod_right [of 5 n 8] by simp

lemma pad_count:
  assumes "B mod 8 = 0" "n < B" "B < n + 8"
  shows "5 * n mod 40 \<noteq> 0" "5 * n mod 40 \<noteq> 35 \<Longrightarrow> n + 1 < (B::nat)"
proof -
  have "n mod 8 \<noteq> 0"
  proof
    assume "n mod 8 = 0"
    then have "8 dvd B - n" using assms(1) by (intro dvd_diff_nat) (simp_all add: dvd_eq_mod_eq_0)
    then show False using dvd_imp_le [of 8 "B - n"] assms(2,3) by simp
  qed
  then show "5 * n mod 40 \<noteq> 0" by (simp add: pad_mod)
  assume "5 * n mod 40 \<noteq> 35"
  then have "n mod 8 \<noteq> 7" by (simp add: pad_mod)
  moreover have "n mod 8 = 7" if "n + 1 = B" using assms(1) unfolding that [symmetric] by presburger
  ultimately show "n + 1 < B" using assms(2) by fastforce
qed

lemma padLoop_ok:
  assumes "n \<le> B" "B mod 8 = 0" "B < n + 8" "0 < g" "room_for g B n tmp"
  obtains ext where "padLoop g (buffer_size g B) (5 * n) tmp = Ok (tmp @ ext)" "room_for g B B (tmp @ ext)" "ext = [] \<or> hd ext = CHR ''=''"
  using assms(1,3,5)
proof (induction "B - n" arbitrary: n tmp thesis)
  case 0
  then have "n = B" "5 * B mod 40 = 0" using assms(2) pad_mod [of B] by simp_all
  moreover have "padLoop g (buffer_size g B) (5 * B) tmp = Ok tmp"
    using \<open>5 * B mod 40 = 0\<close> by (subst padLoop.simps) simp
  ultimately show ?case using "0.prems"(1) [of "[]"] "0.prems"(4) by simp
next
  case (Suc x)
  have n: "n < B" using Suc.hyps(2) by simp
  have m: "5 * n mod 40 \<noteq> 0" by (rule pad_count(1) [OF assms(2) n Suc.prems(3)])
  let ?b = "5 * n mod 40 \<noteq> 35"
  let ?t = "tmp @ CHR ''='' # (if length (tmp @ [CHR ''='']) mod (g + 1) = g \<and> ?b then [CHR ''-''] else [])"
  have b: "?b \<Longrightarrow> n + 1 < B" by (rule pad_count(2) [OF assms(2) n Suc.prems(3)])
  note step = put_step [where b = ?b and c = "CHR ''=''", OF Suc.prems(4) n assms(4) b]
  have s: "padLoop g (buffer_size g B) (5 * n) tmp = padLoop g (buffer_size g B) (5 * (n + 1)) ?t"
  proof -
    have "padLoop g (buffer_size g B) (5 * n) tmp =
        run_bind (put_char (buffer_size g B) tmp (CHR ''='')) (\<lambda>t.
        run_bind (if length t mod (g + 1) = g \<and> ?b then put_char (buffer_size g B) t (CHR ''-'') else Ok t)
          (padLoop g (buffer_size g B) (5 * (n + 1))))"
      using m by (subst padLoop.simps) (simp add: add.commute)
    then show ?thesis by (rule trans [OF _ step(1)])
  qed
  obtain ext where e: "padLoop g (buffer_size g B) (5 * (n + 1)) ?t = Ok (?t @ ext)" "room_for g B B (?t @ ext)"
  proof (rule Suc.hyps(1) [of "n + 1" ?t])
    show "x = B - (n + 1)" "n + 1 \<le> B" "B < n + 1 + 8" using Suc.hyps(2) Suc.prems(3) n by simp_all
  qed (use that step(2) in blast)+
  then show ?case using s by (intro Suc.prems(1) [of "drop (length tmp) (?t @ ext)"]) simp_all
qed

section \<open>Round trip\<close>

lemma symbols_padded:
  assumes "CHR ''='' \<notin> set ext" "\<forall>c\<in>set ext. toupper c = c" "pad = [] \<or> hd pad = CHR ''=''"
  shows "symbols (ext @ pad) = filter (\<lambda>c. c \<noteq> CHR ''-'') ext"
proof -
  have "toupper (CHR ''='') = CHR ''=''" by code_simp
  then have "takeWhile (\<lambda>c. c \<noteq> CHR ''='') (map toupper pad) = []" using assms(3) by (cases pad) auto
  moreover have "map toupper ext = ext" using assms(2) by (simp add: map_idI)
  moreover have "takeWhile (\<lambda>c. c \<noteq> CHR ''='') (ext @ map toupper pad) = ext @ takeWhile (\<lambda>c. c \<noteq> CHR ''='') (map toupper pad)"
    using assms(1) by (intro takeWhile_append2) auto
  ultimately show ?thesis by (simp add: symbols_def)
qed

lemma text_length:
  assumes "0 < n" "m = (8 * n + 4) div 5" "B = (n * 8 + 39) div 40 * 8"
  shows "m \<le> B" "B mod 8 = 0" "B < m + (8::nat)"
proof -
  define a b where "a = n div 5" "b = n mod 5"
  have n: "n = 5 * a + b" "b < 5" by (simp_all add: a_b_def)
  have m: "m = 8 * a + (8 * b + 4) div 5" unfolding assms(2) n(1) by simp
  have B: "B = 8 * a + (8 * b + 39) div 40 * 8" 
  proof -
    have "n * 8 + 39 = (8 * b + 39) + a * 40" using n(1) by simp
    then have "(n * 8 + 39) div 40 = a + (8 * b + 39) div 40" by (simp only: div_mult_self1 zero_neq_numeral [symmetric] not_False_eq_True)
    then show ?thesis unfolding assms(3) by simp
  qed
  have "b = 0 \<or> b = 1 \<or> b = 2 \<or> b = 3 \<or> b = 4" using n(2) by arith
  then show "m \<le> B" "B mod 8 = 0" "B < m + 8" unfolding m B by auto
qed

lemma encode_eq:
  assumes "data \<noteq> []" "0 < g"
  shows "KSI_base32Encode (Some data) g =
     run_bind (encodeLoop data g (buffer_size g ((length data * 8 + 39) div 40 * 8)) 0 []) (\<lambda>(tmp, bits_read).
     run_bind (padLoop g (buffer_size g ((length data * 8 + 39) div 40 * 8)) bits_read tmp) (\<lambda>tmp.
     run_bind (put_char (buffer_size g ((length data * 8 + 39) div 40 * 8)) tmp (CHR 0x00)) (\<lambda>_. Ok tmp)))"
  using assms by (simp add: KSI_base32Encode_def buffer_size_def Let_def)

lemma encode_decode:
  assumes "data \<noteq> []" "0 < g"
  obtains s where "KSI_base32Encode (Some data) g = Ok s" "KSI_base32Decode (Some s) = Ok data"
proof -
  define B where "B = (length data * 8 + 39) div 40 * 8"
  define m where "m = (8 * length data + 4) div 5"
  have l: "0 < length data" using assms(1) by simp
  note B = text_length [OF l m_def B_def]
  have "0 < m" using l unfolding m_def by (simp only: div_greater_zero_iff) arith
  then have "room_for g B 0 []" using B(1) by (simp add: room_for_def)
  then obtain ext where e: "encodeLoop data g (buffer_size g B) (5 * 0) [] = Ok ([] @ ext, 5 * m)" "room_for g B m ([] @ ext)"
    "filter (\<lambda>c. c \<noteq> CHR ''-'') ext = map (digit data) [0..<m]" "set ext \<subseteq> insert (CHR ''-'') (digit data ` {0..<m})"
    using encodeLoop_ok [OF _ m_def B(1) assms(2)] by blast
  obtain pad where p: "padLoop g (buffer_size g B) (5 * m) ([] @ ext) = Ok (([] @ ext) @ pad)" "room_for g B B (([] @ ext) @ pad)"
    "pad = [] \<or> hd pad = CHR ''=''"
    using padLoop_ok [OF B assms(2) e(2)] by blast
  have d: "5 * i < 8 * length data" if "i < m" for i using that unfolding m_def by simp
  have "toupper (CHR ''-'') = CHR ''-''" by code_simp
  then have up: "\<forall>c\<in>set ext. toupper c = c"
    using e(4) digit_symbol(1) [OF d] by auto
  have "CHR ''='' \<notin> set ext"
  proof
    assume "CHR ''='' \<in> set ext"
    then obtain i where "i < m" "CHR ''='' = digit data i" using e(4) by auto
    then show False using digit_symbol(2) [OF d] is_symbol_plain by metis
  qed
  then have s: "symbols (ext @ pad) = map (digit data) [0..<m]" using symbols_padded [OF _ up p(3)] e(3) by simp
  have "length (ext @ pad) < buffer_size g B"
  proof -
    obtain k where k: "length (ext @ pad) = B + k" "k * g < B" using p(2) by (auto simp: room_for_def)
    then have "k \<le> (B - 1) div g" using assms(2) by (simp add: less_eq_div_iff_mult_less_eq)
    then show ?thesis using k(1) by (simp add: buffer_size_def)
  qed
  then have "KSI_base32Encode (Some data) g = Ok (ext @ pad)"
    using e(1) p(1) unfolding encode_eq [OF assms] B_def [symmetric] by (simp add: put_char_def)
  moreover have "KSI_base32Decode (Some (ext @ pad)) = Ok data"
  proof (rule decode_bits)
    show "list_all is_symbol (symbols (ext @ pad))" using s digit_symbol [OF d] by (auto simp: list_all_iff)
    show "bit (map symbol_value (symbols (ext @ pad)) ! i) k \<longleftrightarrow> data_bit data (5 * i + 4 - k)"
      if "i < length (map symbol_value (symbols (ext @ pad)))" "k < 5" for i k
      using that digit_symbol(3) [OF d] readNextBits_digit(3) [OF d] by (simp add: s)
  qed (simp_all add: s m_def)
  ultimately show thesis using that by blast
qed

lemma toupper_again: "toupper (toupper c) = toupper c"
  by (auto simp: toupper_def)

lemma decode_upper: "KSI_base32Decode (Some (map toupper t)) = KSI_base32Decode (Some t)"
proof -
  have "decodeLoop (map toupper t) buf d = decodeLoop t buf d" for buf d
    by (induction t arbitrary: buf d) (auto simp: Let_def toupper_again intro!: run_bind_cong)
  then show ?thesis by (simp add: KSI_base32Decode_def)
qed



text \<open>The digits that base 32 does not use are accepted: each counts as a \<^verbatim>\<open>7\<close>.  And without grouping, the
  encoder puts dashes between the padding characters, for which its buffer has no room.\<close>

lemma addBits_255: "addBits buf d 255 = addBits buf d 31"
proof -
  have "d mod 8 < 8" by simp
  then have "d mod 8 = 0 \<or> d mod 8 = 1 \<or> d mod 8 = 2 \<or> d mod 8 = 3 \<or> d mod 8 = 4 \<or> d mod 8 = 5 \<or> d mod 8 = 6 \<or> d mod 8 = 7"
    by linarith
  then show ?thesis
    by (elim disjE) (simp_all add: addBits_def Let_def makeMask_eq mask_eq_exp_minus_1 push_bit_eq_mult drop_bit_eq_div)
qed

definition seven_for :: "char \<Rightarrow> char" where
  "seven_for c = (if c \<in> {CHR ''0'', CHR ''1'', CHR ''8'', CHR ''9''} then CHR ''7'' else c)"

lemma seven_for_cases:
  "c \<in> {CHR ''0'', CHR ''1'', CHR ''8'', CHR ''9''} \<Longrightarrow> is_symbol (toupper c) \<and> symbol_value (toupper c) = 255"
  "is_symbol (toupper (CHR ''7''))" "symbol_value (toupper (CHR ''7'')) = 31"
  by (auto simp: is_symbol_def isdigit_def toupper_def symbol_value_def base32NumDecTable_def unsigned_minus_1_eq_mask mask_eq_exp_minus_1)

lemma decodeLoop_seven: "decodeLoop (map seven_for s) buf d = decodeLoop s buf d"
proof (induction s arbitrary: buf d)
  case (Cons c s)
  show ?case
  proof (cases "c \<in> {CHR ''0'', CHR ''1'', CHR ''8'', CHR ''9''}")
    case True
    from addBits_255 [of buf d] show ?thesis using True seven_for_cases is_symbol_plain [of "toupper c"] is_symbol_plain [of "toupper (CHR ''7'')"] Cons.IH
      by (auto simp: decodeLoop_Cons seven_for_def simp del: decodeLoop.simps intro!: run_bind_cong)
  next
    case False
    then show ?thesis using Cons.IH by (auto simp: decodeLoop_Cons seven_for_def simp del: decodeLoop.simps intro!: run_bind_cong)
  qed
qed simp

text \<open>Limits of the base-32 codec: a text with digits outside the alphabet decodes like the text with a \<^verbatim>\<open>7\<close> in
  their place, instead of being refused; and the encoder called without grouping writes behind its buffer as soon as
  there is more than one padding character.\<close>

theorem base32_limits:
  "KSI_base32Decode (Some (map seven_for s)) = KSI_base32Decode (Some s) \<and> KSI_base32Encode (Some [b]) 0 = Fault"
proof
  show "KSI_base32Decode (Some (map seven_for s)) = KSI_base32Decode (Some s)"
    by (simp add: KSI_base32Decode_def decodeLoop_seven)
  show "KSI_base32Encode (Some [b]) 0 = Fault"
  proof -
    have "readNextBits [b] 0 \<noteq> -1" "readNextBits [b] 5 \<noteq> -1" "readNextBits [b] 10 = -1"
      using readNextBits_digit(1) [of 0 "[b]"] readNextBits_digit(1) [of 1 "[b]"] readNextBits_stops [of "[b]" 10] by auto
    then show ?thesis
      by (simp add: KSI_base32Encode_def encodeLoop.simps [of _ _ _ 0] encodeLoop.simps [of _ _ _ 5] encodeLoop.simps [of _ _ _ 10]
          padLoop.simps Let_def put_char_def)
  qed
qed

end
