(* ===== verification/Crc32.thy ===== *)
theory Crc32
  imports KsiPrelude
begin

text \<open>
  The checksum of \<^verbatim>\<open>src/src/ksi/crc32.c\<close> that protects publication strings: the table-driven loop, its equality with
  the bitwise cyclic redundancy check of the reflected polynomial, and the errors it detects.  \<^verbatim>\<open>unsigned long\<close> has
  64 bits here, the entries of the table have 32.
\<close>

section \<open>The loop\<close>

definition crc32_table :: "u32 list" where
  "crc32_table =
    [0x00000000, 0x77073096, 0xee0e612c, 0x990951ba, 0x076dc419, 0x706af48f, 0xe963a535, 0x9e6495a3,
     0x0edb8832, 0x79dcb8a4, 0xe0d5e91e, 0x97d2d988, 0x09b64c2b, 0x7eb17cbd, 0xe7b82d07, 0x90bf1d91,
     0x1db71064, 0x6ab020f2, 0xf3b97148, 0x84be41de, 0x1adad47d, 0x6ddde4eb, 0xf4d4b551, 0x83d385c7,
     0x136c9856, 0x646ba8c0, 0xfd62f97a, 0x8a65c9ec, 0x14015c4f, 0x63066cd9, 0xfa0f3d63, 0x8d080df5,
     0x3b6e20c8, 0x4c69105e, 0xd56041e4, 0xa2677172, 0x3c03e4d1, 0x4b04d447, 0xd20d85fd, 0xa50ab56b,
     0x35b5a8fa, 0x42b2986c, 0xdbbbc9d6, 0xacbcf940, 0x32d86ce3, 0x45df5c75, 0xdcd60dcf, 0xabd13d59,
     0x26d930ac, 0x51de003a, 0xc8d75180, 0xbfd06116, 0x21b4f4b5, 0x56b3c423, 0xcfba9599, 0xb8bda50f,
     0x2802b89e, 0x5f058808, 0xc60cd9b2, 0xb10be924, 0x2f6f7c87, 0x58684c11, 0xc1611dab, 0xb6662d3d,
     0x76dc4190, 0x01db7106, 0x98d220bc, 0xefd5102a, 0x71b18589, 0x06b6b51f, 0x9fbfe4a5, 0xe8b8d433,
     0x7807c9a2, 0x0f00f934, 0x9609a88e, 0xe10e9818, 0x7f6a0dbb, 0x086d3d2d, 0x91646c97, 0xe6635c01,
     0x6b6b51f4, 0x1c6c6162, 0x856530d8, 0xf262004e, 0x6c0695ed, 0x1b01a57b, 0x8208f4c1, 0xf50fc457,
     0x65b0d9c6, 0x12b7e950, 0x8bbeb8ea, 0xfcb9887c, 0x62dd1ddf, 0x15da2d49, 0x8cd37cf3, 0xfbd44c65,
     0x4db26158, 0x3ab551ce, 0xa3bc0074, 0xd4bb30e2, 0x4adfa541, 0x3dd895d7, 0xa4d1c46d, 0xd3d6f4fb,
     0x4369e96a, 0x346ed9fc, 0xad678846, 0xda60b8d0, 0x44042d73, 0x33031de5, 0xaa0a4c5f, 0xdd0d7cc9,
     0x5005713c, 0x270241aa, 0xbe0b1010, 0xc90c2086, 0x5768b525, 0x206f85b3, 0xb966d409, 0xce61e49f,
     0x5edef90e, 0x29d9c998, 0xb0d09822, 0xc7d7a8b4, 0x59b33d17, 0x2eb40d81, 0xb7bd5c3b, 0xc0ba6cad,
     0xedb88320, 0x9abfb3b6, 0x03b6e20c, 0x74b1d29a, 0xead54739, 0x9dd277af, 0x04db2615, 0x73dc1683,
     0xe3630b12, 0x94643b84, 0x0d6d6a3e, 0x7a6a5aa8, 0xe40ecf0b, 0x9309ff9d, 0x0a00ae27, 0x7d079eb1,
     0xf00f9344, 0x8708a3d2, 0x1e01f268, 0x6906c2fe, 0xf762575d, 0x806567cb, 0x196c3671, 0x6e6b06e7,
     0xfed41b76, 0x89d32be0, 0x10da7a5a, 0x67dd4acc, 0xf9b9df6f, 0x8ebeeff9, 0x17b7be43, 0x60b08ed5,
     0xd6d6a3e8, 0xa1d1937e, 0x38d8c2c4, 0x4fdff252, 0xd1bb67f1, 0xa6bc5767, 0x3fb506dd, 0x48b2364b,
     0xd80d2bda, 0xaf0a1b4c, 0x36034af6, 0x41047a60, 0xdf60efc3, 0xa867df55, 0x316e8eef, 0x4669be79,
     0xcb61b38c, 0xbc66831a, 0x256fd2a0, 0x5268e236, 0xcc0c7795, 0xbb0b4703, 0x220216b9, 0x5505262f,
     0xc5ba3bbe, 0xb2bd0b28, 0x2bb45a92, 0x5cb36a04, 0xc2d7ffa7, 0xb5d0cf31, 0x2cd99e8b, 0x5bdeae1d,
     0x9b64c2b0, 0xec63f226, 0x756aa39c, 0x026d930a, 0x9c0906a9, 0xeb0e363f, 0x72076785, 0x05005713,
     0x95bf4a82, 0xe2b87a14, 0x7bb12bae, 0x0cb61b38, 0x92d28e9b, 0xe5d5be0d, 0x7cdcefb7, 0x0bdbdf21,
     0x86d3d2d4, 0xf1d4e242, 0x68ddb3f8, 0x1fda836e, 0x81be16cd, 0xf6b9265b, 0x6fb077e1, 0x18b74777,
     0x88085ae6, 0xff0f6a70, 0x66063bca, 0x11010b5c, 0x8f659eff, 0xf862ae69, 0x616bffd3, 0x166ccf45,
     0xa00ae278, 0xd70dd2ee, 0x4e048354, 0x3903b3c2, 0xa7672661, 0xd06016f7, 0x4969474d, 0x3e6e77db,
     0xaed16a4a, 0xd9d65adc, 0x40df0b66, 0x37d83bf0, 0xa9bcae53, 0xdebb9ec5, 0x47b2cf7f, 0x30b5ffe9,
     0xbdbdf21c, 0xcabac28a, 0x53b39330, 0x24b4a3a6, 0xbad03605, 0xcdd70693, 0x54de5729, 0x23d967bf,
     0xb3667a2e, 0xc4614ab8, 0x5d681b02, 0x2a6f2b94, 0xb40bbe37, 0xc30c8ea1, 0x5a05df1b, 0x2d02ef8d]"

fun crcLoop :: "bytes \<Rightarrow> u64 \<Rightarrow> u64" where
  "crcLoop [] retval = retval"
| "crcLoop (p # ps) retval = crcLoop ps (ucast (crc32_table ! unat ((retval XOR ucast p) AND 0xff)) XOR drop_bit 8 retval)"

definition KSI_crc32 :: "bytes \<Rightarrow> u64 \<Rightarrow> u64" where
  "KSI_crc32 data ival = crcLoop data (ival XOR 0xffffffff) XOR 0xffffffff"

section \<open>The bitwise check\<close>

definition crc_bit :: "u64 \<Rightarrow> u64" where
  "crc_bit r = drop_bit 1 r XOR (if bit r 0 then 0xedb88320 else 0)"

definition crc_byte :: "u64 \<Rightarrow> u64" where
  "crc_byte r = (crc_bit ^^ 8) r"

definition crc_reference :: "bytes \<Rightarrow> u64 \<Rightarrow> u64" where
  "crc_reference data ival = foldl (\<lambda>r p. crc_byte (r XOR ucast p)) (ival XOR 0xffffffff) data XOR 0xffffffff"

text \<open>The same check on integers, on which the entries of the table are computed.\<close>

primrec crc_steps :: "nat \<Rightarrow> int \<Rightarrow> int" where
  "crc_steps 0 r = r"
| "crc_steps (Suc n) r = crc_steps n (if even r then r div 2 else xor (r div 2) 0xedb88320)"

lemma uint_crc_bit: "uint (crc_bit r) = (if even (uint r) then uint r div 2 else xor (uint r div 2) 0xedb88320)"
proof -
  have "uint (drop_bit 1 r) = uint r div 2"
  proof -
    have "take_bit 64 (uint r) = uint r" by (rule take_bit_int_eq_self) (use unsigned_less [of r, where ?'a = int] in simp_all)
    then show ?thesis by (simp only: unsigned_drop_bit_eq) (simp add: drop_bit_int_def)
  qed
  moreover have "bit r 0 \<longleftrightarrow> odd (uint r)" by (metis bit_0 bit_uint_iff bit_imp_le_length)
  ultimately show ?thesis by (simp add: crc_bit_def unsigned_xor_eq)
qed

lemma uint_crc_steps: "uint ((crc_bit ^^ n) r) = crc_steps n (uint r)"
  by (induction n arbitrary: r) (simp_all add: funpow_Suc_right uint_crc_bit del: funpow.simps(2))

lemma crc32_table_steps: "map uint crc32_table = map (crc_steps 8) (map int [0..<256])"
  by code_simp

lemma crc32_table_entry:
  assumes "i < 256"
  shows "(ucast (crc32_table ! i) :: u64) = crc_byte (of_nat i)"
proof -
  have l: "length crc32_table = 256" using arg_cong [OF crc32_table_steps, of length] by simp
  have "uint (crc32_table ! i) = crc_steps 8 (int i)"
    using arg_cong [OF crc32_table_steps, of "\<lambda>l. l ! i"] assms l by simp
  also have "\<dots> = uint (crc_byte (of_nat i))"
    using assms by (simp add: crc_byte_def uint_crc_steps unsigned_of_nat take_bit_nat_eq_self)
  finally show ?thesis by (metis uint_word_of_int_eq word_of_int_uint unsigned_word_eqI unsigned_ucast_eq ucast_eq)
qed

section \<open>Linearity\<close>

lemma crc_bit_xor: "crc_bit (a XOR b) = crc_bit a XOR crc_bit b"
  by (rule bit_word_eqI) (auto simp: crc_bit_def bit_simps)

lemma crc_power_xor: "(crc_bit ^^ n) (a XOR b) = (crc_bit ^^ n) a XOR (crc_bit ^^ n) b"
  by (induction n) (simp_all add: crc_bit_xor)

lemma crc_power_shift: "(\<And>k. k < n \<Longrightarrow> \<not> bit r k) \<Longrightarrow> (crc_bit ^^ n) r = drop_bit n r"
proof (induction n)
  case (Suc n)
  then have "(crc_bit ^^ n) r = drop_bit n r" "\<not> bit (drop_bit n r) 0" by (simp_all add: bit_simps)
  then have "(crc_bit ^^ Suc n) r = drop_bit 1 (drop_bit n r)" by (simp add: crc_bit_def [of "drop_bit n r"])
  then show ?case by (simp add: drop_bit_drop_bit del: drop_bit_Suc)
qed simp

lemma crc_byte_split: "crc_byte (r XOR ucast (p :: byte)) = ucast (crc32_table ! unat ((r XOR ucast p) AND 0xff)) XOR drop_bit 8 (r :: u64)"
proof -
  let ?x = "r XOR ucast (p :: byte)"
  have m: "(0xff :: u64) = mask 8" by (simp add: mask_eq_exp_minus_1)
  have x: "?x = (?x AND mask 8) XOR (?x AND NOT (mask 8))" by (rule bit_word_eqI) (auto simp: bit_simps)
  have "(crc_bit ^^ 8) (?x AND NOT (mask 8)) = drop_bit 8 (?x AND NOT (mask 8))" by (rule crc_power_shift) (simp add: bit_simps)
  also have "\<dots> = drop_bit 8 r" by (rule bit_word_eqI) (auto simp: bit_simps dest: bit_imp_le_length)
  finally have hi: "crc_byte (?x AND NOT (mask 8)) = drop_bit 8 r" by (simp add: crc_byte_def)
  have "unat (?x AND mask 8) < 256" using and_mask_less' [of 8 ?x] by (simp add: word_less_nat_alt)
  then have lo: "crc_byte (?x AND mask 8) = ucast (crc32_table ! unat (?x AND mask 8))" using crc32_table_entry by simp
  have "crc_byte ?x = crc_byte (?x AND mask 8) XOR crc_byte (?x AND NOT (mask 8))"
    unfolding crc_byte_def crc_power_xor [symmetric] using x by simp
  then show ?thesis unfolding m using hi lo by simp
qed

section \<open>What the check detects\<close>

lemma crcLoop_foldl: "crcLoop data r = foldl (\<lambda>r p. crc_byte (r XOR ucast p)) r data"
  by (induction data arbitrary: r) (simp_all add: crc_byte_split)

lemma crcLoop_append: "crcLoop (xs @ ys) r = crcLoop ys (crcLoop xs r)"
  by (simp add: crcLoop_foldl)

definition crc_state :: "u64 \<Rightarrow> bool" where
  "crc_state r \<longleftrightarrow> (\<forall>k\<ge>32. \<not> bit r k)"

lemma poly_bits: "bit (0xedb88320 :: u64) 31" "32 \<le> k \<Longrightarrow> \<not> bit (0xedb88320 :: u64) k"
proof -
  show "bit (0xedb88320 :: u64) 31" by simp
  have "(0xedb88320 :: u64) = take_bit 32 0xedb88320" by simp
  then show "32 \<le> k \<Longrightarrow> \<not> bit (0xedb88320 :: u64) k" by (metis bit_take_bit_iff not_le)
qed

lemma crc_stateI: "(r :: u64) < 2 ^ 32 \<Longrightarrow> crc_state r"
proof -
  assume "r < 2 ^ 32"
  then have "take_bit 32 r = r" by (simp add: take_bit_eq_mask less_mask_eq)
  then show ?thesis unfolding crc_state_def by (metis bit_take_bit_iff not_le)
qed

lemma crc_state_step: "crc_state r \<Longrightarrow> crc_state (crc_bit r)"
  using poly_bits by (auto simp: crc_state_def crc_bit_def bit_simps)

lemma crc_state_power: "crc_state r \<Longrightarrow> crc_state ((crc_bit ^^ n) r)"
  by (induction n) (simp_all add: crc_state_step)

lemma crc_state_xor: "crc_state a \<Longrightarrow> crc_state b \<Longrightarrow> crc_state (a XOR b)"
  by (simp add: crc_state_def bit_simps)

lemma crc_state_byte: "crc_state (ucast (p :: byte))"
  by (auto simp: crc_state_def bit_simps dest: bit_imp_le_length)

text \<open>The lowest bit of a state is the highest bit of the next one, so no step forgets anything.\<close>

lemma crc_bit_inj:
  assumes "crc_state a" "crc_state b" "crc_bit a = crc_bit b"
  shows "a = b"
proof (rule bit_word_eqI)
  fix n assume "n < LENGTH(64)"
  have top: "bit (crc_bit r) 31 \<longleftrightarrow> bit r 0" if "crc_state r" for r
    using that poly_bits(1) by (auto simp: crc_bit_def crc_state_def bit_simps)
  then have low: "bit a 0 = bit b 0" using assms by metis
  have "bit a (Suc k) = bit b (Suc k)" for k
    using arg_cong [OF assms(3), of "\<lambda>w. bit w k"] low by (auto simp: crc_bit_def bit_simps split: if_splits)
  then show "bit a n \<longleftrightarrow> bit b n" using low by (cases n) simp_all
qed

lemma crc_power_inj:
  "crc_state a \<Longrightarrow> crc_state b \<Longrightarrow> (crc_bit ^^ n) a = (crc_bit ^^ n) b \<Longrightarrow> a = b"
  by (induction n) (auto dest!: crc_bit_inj [rotated 2] intro: crc_state_power)

lemma crcLoop_state: "crc_state r \<Longrightarrow> crc_state (crcLoop data r)"
  by (induction data arbitrary: r) (simp_all add: crc_byte_split [symmetric] crc_byte_def crc_state_power crc_state_xor crc_state_byte)

lemma xor_cancel: "(a :: 'a::len word) XOR c = b XOR c \<Longrightarrow> a = b" "c XOR a = c XOR b \<Longrightarrow> a = b"
proof -
  show 1: "a = b" if "a XOR c = b XOR c" using arg_cong [OF that, of "\<lambda>w. w XOR c"] by (simp add: xor.assoc)
  show "a = b" if "c XOR a = c XOR b" using that by (intro 1) (simp add: xor.commute)
qed

lemma crcLoop_inj: "crc_state a \<Longrightarrow> crc_state b \<Longrightarrow> crcLoop data a = crcLoop data b \<Longrightarrow> a = b"
proof (induction data rule: rev_induct)
  case (snoc p ps)
  then have "crc_byte (crcLoop ps a XOR ucast p) = crc_byte (crcLoop ps b XOR ucast p)" by (simp add: crcLoop_foldl)
  then have "crcLoop ps a XOR ucast p = crcLoop ps b XOR ucast p"
    unfolding crc_byte_def by (rule crc_power_inj [rotated 2]) (use snoc.prems in \<open>simp_all add: crc_state_xor crc_state_byte crcLoop_state\<close>)
  then have "crcLoop ps a = crcLoop ps b" by (rule xor_cancel(1))
  then show ?case using snoc by simp
qed simp

text \<open>The bytes of a text as one little-endian number: the check of up to eight bytes is that many steps on the state and
  this number.\<close>

primrec le_word :: "bytes \<Rightarrow> u64" where
  "le_word [] = 0"
| "le_word (p # ps) = ucast p XOR push_bit 8 (le_word ps)"

lemma crc_power_push: "(crc_bit ^^ 8) (push_bit 8 (w :: u64)) = w" if "\<And>k. bit w k \<Longrightarrow> k < 56"
proof -
  have "(crc_bit ^^ 8) (push_bit 8 w) = drop_bit 8 (push_bit 8 w)" by (rule crc_power_shift) (simp add: bit_simps)
  also have "\<dots> = w" by (rule bit_word_eqI) (use that in \<open>auto simp: bit_simps\<close>)
  finally show ?thesis .
qed

lemma bit_le_word: "bit (le_word ps) k \<Longrightarrow> k < 8 * length ps"
proof (induction ps arbitrary: k)
  case (Cons p ps)
  then show ?case using bit_imp_le_length [of p k] by (fastforce simp: bit_simps)
qed simp

lemma crcLoop_word: "length ps \<le> 4 \<Longrightarrow> crcLoop ps r = (crc_bit ^^ (8 * length ps)) (r XOR le_word ps)"
proof (induction ps arbitrary: r)
  case (Cons p ps)
  have w: "crc_byte (push_bit 8 (le_word ps)) = le_word ps"
    unfolding crc_byte_def by (rule crc_power_push) (use bit_le_word [of ps] Cons.prems in fastforce)
  have "crcLoop (p # ps) r = (crc_bit ^^ (8 * length ps)) (crc_byte (r XOR ucast p) XOR crc_byte (push_bit 8 (le_word ps)))"
    using Cons by (simp add: crc_byte_split w)
  also have "\<dots> = (crc_bit ^^ (8 * length ps)) (crc_byte (r XOR le_word (p # ps)))"
    by (simp add: crc_byte_def crc_power_xor [symmetric] xor.assoc)
  also have "\<dots> = (crc_bit ^^ (8 * length (p # ps))) (r XOR le_word (p # ps))"
  proof -
    have "8 * length (p # ps) = 8 * length ps + 8" by simp
    then show ?thesis by (simp only: funpow_add o_apply crc_byte_def)
  qed
  finally show ?case .
qed simp

lemma le_word_inj: "length xs = length ys \<Longrightarrow> length xs \<le> 4 \<Longrightarrow> le_word xs = le_word ys \<Longrightarrow> xs = ys"
proof (induction xs ys rule: list_induct2)
  case (Cons x xs y ys)
  have b: "bit x k = bit y k" if "k < 8" for k
    using arg_cong [OF Cons.prems(2), of "\<lambda>w. bit w k"] that by (simp add: bit_simps)
  have "bit (le_word xs) k = bit (le_word ys) k" for k
  proof (cases "k < 32")
    case True
    then show ?thesis using arg_cong [OF Cons.prems(2), of "\<lambda>w. bit w (k + 8)"] bit_imp_le_length [of x "k + 8"] bit_imp_le_length [of y "k + 8"]
      by (auto simp: bit_simps)
  next
    case False
    then show ?thesis using bit_le_word [of xs k] bit_le_word [of ys k] Cons by auto
  qed
  then have "xs = ys" using Cons by (simp add: bit_word_eqI)
  moreover have "x = y" by (rule bit_word_eqI) (use b in simp)
  ultimately show ?case by simp
qed simp

lemma crc_burst:
  assumes "crc_state ival" "length xs = length ys" "length xs \<le> 4" "xs \<noteq> ys"
  shows "KSI_crc32 (pre @ xs @ suf) ival \<noteq> KSI_crc32 (pre @ ys @ suf) ival"
proof
  assume e: "KSI_crc32 (pre @ xs @ suf) ival = KSI_crc32 (pre @ ys @ suf) ival"
  let ?r = "crcLoop pre (ival XOR 0xffffffff)"
  have m: "(0xffffffff :: u64) = mask 32" by (simp add: mask_eq_exp_minus_1)
  have s: "crc_state ?r" unfolding m by (rule crcLoop_state) (use assms(1) in \<open>auto simp: crc_state_def bit_simps\<close>)
  have w: "crc_state (le_word zs)" if "length zs \<le> 4" for zs using bit_le_word [of zs] that by (fastforce simp: crc_state_def)
  have "crcLoop suf (crcLoop xs ?r) = crcLoop suf (crcLoop ys ?r)"
    using e unfolding KSI_crc32_def crcLoop_append by (rule xor_cancel(1))
  then have "crcLoop xs ?r = crcLoop ys ?r" using crcLoop_inj crcLoop_state s by blast
  then have "?r XOR le_word xs = ?r XOR le_word ys"
    using assms(2,3) crc_power_inj [OF crc_state_xor [OF s w] crc_state_xor [OF s w]] by (simp add: crcLoop_word)
  then have "le_word xs = le_word ys" by (rule xor_cancel(2))
  then show False using le_word_inj assms by blast
qed

lemma crc_bounded: "crc_state ival \<Longrightarrow> KSI_crc32 data ival < 2 ^ 32"
proof -
  assume a: "crc_state ival"
  have m: "(0xffffffff :: u64) = mask 32" by (simp add: mask_eq_exp_minus_1)
  have "crc_state (KSI_crc32 data ival)"
    unfolding KSI_crc32_def m by (intro crc_state_xor crcLoop_state) (use a in \<open>auto simp: crc_state_def bit_simps\<close>)
  then have "take_bit 32 (KSI_crc32 data ival) = KSI_crc32 data ival"
    by (intro bit_word_eqI) (auto simp: crc_state_def bit_simps not_le [symmetric])
  then have "unat (KSI_crc32 data ival) = take_bit 32 (unat (KSI_crc32 data ival))" by (metis unsigned_take_bit_eq)
  then have "unat (KSI_crc32 data ival) < 2 ^ 32" by (metis take_bit_nat_less_exp)
  then show ?thesis by (simp add: word_less_nat_alt)
qed

text \<open>C31. The checksum of publication strings.  The table-driven loop computes the bitwise cyclic redundancy check of the
  reflected polynomial \<^verbatim>\<open>0xedb88320\<close>, for every text and every initial value; and the checks of two texts of one length
  that differ in at most four adjacent bytes differ.\<close>

theorem crc32_correct:
  assumes "ival < 2 ^ 32" and "length xs = length ys" and "length xs \<le> 4" and "xs \<noteq> ys"
  shows "KSI_crc32 data ival = crc_reference data ival \<and> KSI_crc32 data ival < 2 ^ 32
       \<and> KSI_crc32 (pre @ xs @ suf) ival \<noteq> KSI_crc32 (pre @ ys @ suf) ival"
proof -
  have "crc_state ival" using assms(1) by (rule crc_stateI)
  then show ?thesis using crc_burst crc_bounded assms by (simp add: KSI_crc32_def crc_reference_def crcLoop_foldl)
qed

theorem crc32_correct_witness: "KSI_crc32 [49, 50] 0 \<noteq> KSI_crc32 [49, 51] 0"
  using crc32_correct [of 0 "[50]" "[51]" "[]" "[49]" "[]"] by simp

end
