(* ===== verification/PublicationString.thy ===== *)
theory PublicationString
  imports PublicationsFile Base32 Crc32
begin

text \<open>
  Publication strings of \<^verbatim>\<open>src/src/ksi/publicationsfile.c\<close>: the time and the hash of a publication with a checksum behind
  them, in base 32, and the search for a publication by such a string.
\<close>

section \<open>Strings\<close>

text \<open>The loops \<^verbatim>\<open>v <<= 8; v |= b[i]\<close> and \<^verbatim>\<open>b[i] = v & 0xff; v >>= 8\<close>, the second from the last byte on.\<close>

definition load_be :: "bytes \<Rightarrow> u64" where
  "load_be bs = foldl (\<lambda>v b. push_bit 8 v OR ucast b) 0 bs"

fun store_be :: "nat \<Rightarrow> u64 \<Rightarrow> bytes" where
  "store_be 0 v = []"
| "store_be (Suc n) v = store_be n (drop_bit 8 v) @ [ucast (v AND 0xff)]"

definition KSI_PublicationData_fromBase32 :: "string option \<Rightarrow> KSI_PublicationData run" where
  "KSI_PublicationData_fromBase32 publication =
     (case publication of None \<Rightarrow> Err KSI_INVALID_ARGUMENT
      | Some s \<Rightarrow>
          run_bind (KSI_base32Decode (Some s)) (\<lambda>bin.
          if length bin < 13 then Err KSI_INVALID_FORMAT
          else if KSI_crc32 (take (length bin - 4) bin) 0 \<noteq> load_be (drop (length bin - 4) bin) then Err KSI_INVALID_FORMAT
          else
            let tm = load_be (take 8 bin); algo_id = int (unat (bin ! 8)); hash_size = KSI_getHashLength algo_id in
            if hash_size = 0 then Err KSI_UNAVAILABLE_HASH_ALGORITHM
            else if length bin \<noteq> 8 + 1 + hash_size + 4 then Err KSI_INVALID_FORMAT
            else run_bind (run_of (KSI_DataHash_fromImprint (take (hash_size + 1) (drop 8 bin)))) (\<lambda>pubHash.
              Ok \<lparr>pd_time = Some tm, pd_imprint = Some pubHash, pd_baseTlv = None\<rparr>)))"

definition KSI_PublicationData_toBase32 :: "KSI_PublicationData option \<Rightarrow> string run" where
  "KSI_PublicationData_toBase32 pubData =
     (case pubData of None \<Rightarrow> Err KSI_INVALID_ARGUMENT
      | Some pd \<Rightarrow>
          run_bind (run_of (KSI_DataHash_getImprint (pd_imprint pd))) (\<lambda>imprint.
          let bin = store_be 8 (KSI_Integer_getUInt64 (pd_time pd)) @ imprint in
          KSI_base32Encode (Some (bin @ store_be 4 (KSI_crc32 bin 0))) 6))"

definition KSI_PublicationRecord_toBase32 :: "KSI_PublicationRecord option \<Rightarrow> string run" where
  "KSI_PublicationRecord_toBase32 pubRec =
     (case pubRec of None \<Rightarrow> Err KSI_INVALID_ARGUMENT | Some r \<Rightarrow> KSI_PublicationData_toBase32 (publishedData r))"

definition KSI_PublicationsFile_getPublicationDataByPublicationString ::
    "KSI_PublicationsFile option \<Rightarrow> string option \<Rightarrow> KSI_PublicationRecord option run" where
  "KSI_PublicationsFile_getPublicationDataByPublicationString pubFile pubString =
     (if pubFile = None \<or> pubString = None then Err KSI_INVALID_ARGUMENT
      else
        run_bind (KSI_PublicationData_fromBase32 pubString) (\<lambda>findPubData.
        run_bind (run_of (KSI_PublicationData_getImprint (Some findPubData))) (\<lambda>findImprint.
        run_bind (run_of (KSI_PublicationData_getTime (Some findPubData))) (\<lambda>findTime.
        run_bind (run_of (KSI_PublicationsFile_getPublicationDataByTime pubFile findTime)) (\<lambda>tmpPubRec.
        case tmpPubRec of
          None \<Rightarrow> Ok None
        | Some r \<Rightarrow>
            run_bind (run_of (KSI_PublicationRecord_getPublishedData (Some r))) (\<lambda>tmpPubData.
            run_bind (run_of (KSI_PublicationData_getImprint tmpPubData)) (\<lambda>tmpImprint.
            if \<not> KSI_DataHash_equals findImprint tmpImprint then Err KSI_INVALID_PUBLICATION else Ok (Some r))))))))"

section \<open>Round trip\<close>

lemma load_be_snoc: "load_be (bs @ [b]) = push_bit 8 (load_be bs) OR ucast b"
  by (simp add: load_be_def)

lemma length_store_be [simp]: "length (store_be n v) = n"
  by (induction n arbitrary: v) simp_all

lemma load_store_be: "load_be (store_be n v) = take_bit (8 * n) v"
proof (induction n arbitrary: v)
  case (Suc n)
  have m: "(0xff :: u64) = mask 8" by (simp add: mask_eq_exp_minus_1)
  have "load_be (store_be (Suc n) v) = push_bit 8 (take_bit (8 * n) (drop_bit 8 v)) OR ucast (ucast (v AND mask 8) :: byte)"
    by (simp only: store_be.simps load_be_snoc Suc m)
  also have "\<dots> = take_bit (8 * Suc n) v"
    by (rule bit_word_eqI) (auto simp: bit_simps dest: bit_imp_le_length)
  finally show ?case .
qed (simp add: load_be_def)

lemma load_store_64: "load_be (store_be 8 v) = v"
  by (simp add: load_store_be) (rule take_bit_word_eq_self, simp)

lemma load_store_crc: "load_be (store_be 4 (KSI_crc32 data 0)) = KSI_crc32 data 0"
proof -
  have "KSI_crc32 data 0 < 2 ^ 32" by (rule crc_bounded) (simp add: crc_state_def)
  then show ?thesis by (simp add: load_store_be take_bit_eq_mask less_mask_eq)
qed

lemma publication_parsed:
  assumes "KSI_base32Decode (Some s) = Ok (store_be 8 t @ h @ store_be 4 (KSI_crc32 (store_be 8 t @ h) 0))" "imprint_ok h"
  shows "KSI_PublicationData_fromBase32 (Some s) = Ok \<lparr>pd_time = Some t, pd_imprint = Some h, pd_baseTlv = None\<rparr>"
proof -
  obtain a d where h: "h = a # d" "length d = KSI_getHashLength (int (unat a))" "KSI_getHashLength (int (unat a)) \<noteq> 0"
    using assms(2) hash_length_bounds [of "int (unat (hd h))"] by (cases h) (auto simp: imprint_ok_def)
  have "KSI_DataHash_fromImprint h = Inr h" using assms(2) by (simp add: fromImprint_iff)
  then show ?thesis using assms(1) h
    by (simp add: KSI_PublicationData_fromBase32_def load_store_crc load_store_64 nth_append Let_def)
qed

lemma publication_printed:
  assumes "pd_imprint pd = Some h" "imprint_ok h"
  obtains s where "KSI_PublicationData_toBase32 (Some pd) = Ok s"
    "KSI_PublicationData_fromBase32 (Some s) = Ok \<lparr>pd_time = Some (KSI_Integer_getUInt64 (pd_time pd)), pd_imprint = Some h, pd_baseTlv = None\<rparr>"
proof -
  let ?bin = "store_be 8 (KSI_Integer_getUInt64 (pd_time pd)) @ h"
  have "?bin @ store_be 4 (KSI_crc32 ?bin 0) \<noteq> []" using assms(2) by (auto simp: imprint_ok_def)
  then obtain s where "KSI_base32Encode (Some (?bin @ store_be 4 (KSI_crc32 ?bin 0))) 6 = Ok s"
    "KSI_base32Decode (Some s) = Ok (?bin @ store_be 4 (KSI_crc32 ?bin 0))"
    using encode_decode [of _ 6] by (metis zero_less_numeral)
  then show thesis using that [of s] publication_parsed [OF _ assms(2), of s] assms(1)
    by (simp add: KSI_PublicationData_toBase32_def KSI_DataHash_getImprint_def Let_def)
qed

lemma checksum_fails:
  assumes "KSI_base32Decode (Some t) = Ok (bin @ crc)" "length crc = 4" "KSI_crc32 bin 0 \<noteq> load_be crc"
  shows "KSI_PublicationData_fromBase32 (Some t) = Err KSI_INVALID_FORMAT"
  using assms by (simp add: KSI_PublicationData_fromBase32_def)

lemma checksum_holds:
  assumes "KSI_base32Decode (Some t) = Ok (bin @ crc)" "length crc = 4" "KSI_PublicationData_fromBase32 (Some t) = Ok pd"
  shows "KSI_crc32 bin 0 = load_be crc"
  using assms checksum_fails by fastforce

text \<open>C22. Publication strings.  A publication with a well-formed imprint is printed as a string from which its time and
  imprint are read back, whatever else the object holds.  With that string the search of a publications file returns the
  publication it finds for the time, if the imprint is the same, and reports an invalid publication otherwise.\<close>

theorem publication_string_roundtrip:
  assumes "pd_imprint pd = Some h" and "imprint_ok h"
  shows "\<exists>s. KSI_PublicationData_toBase32 (Some pd) = Ok s
     \<and> KSI_PublicationData_fromBase32 (Some s) = Ok \<lparr>pd_time = Some (KSI_Integer_getUInt64 (pd_time pd)), pd_imprint = Some h, pd_baseTlv = None\<rparr>
     \<and> KSI_PublicationsFile_getPublicationDataByPublicationString (Some pf) (Some s) =
         (case KSI_PublicationsFile_getPublicationDataByTime (Some pf) (Some (KSI_Integer_getUInt64 (pd_time pd))) of
            Inl e \<Rightarrow> Err e
          | Inr None \<Rightarrow> Ok None
          | Inr (Some r) \<Rightarrow>
              (case publishedData r of None \<Rightarrow> Err KSI_INVALID_ARGUMENT
               | Some p \<Rightarrow> if pd_imprint p = Some h then Ok (Some r) else Err KSI_INVALID_PUBLICATION))"
proof -
  obtain s where s: "KSI_PublicationData_toBase32 (Some pd) = Ok s"
    "KSI_PublicationData_fromBase32 (Some s) = Ok \<lparr>pd_time = Some (KSI_Integer_getUInt64 (pd_time pd)), pd_imprint = Some h, pd_baseTlv = None\<rparr>"
    using publication_printed [OF assms] .
  show ?thesis
    by (intro exI [of _ s] conjI s)
       (auto simp: KSI_PublicationsFile_getPublicationDataByPublicationString_def s(2) getter_def dataHash_equals_iff split: sum.split option.split)
qed

theorem publication_string_roundtrip_witness:
  "\<exists>s. KSI_PublicationData_toBase32 (Some \<lparr>pd_time = None, pd_imprint = Some (1 # replicate 32 7), pd_baseTlv = None\<rparr>) = Ok s
     \<and> KSI_PublicationsFile_getPublicationDataByPublicationString (Some sample_file) (Some s) = Ok None"
proof -
  have "imprint_ok (1 # replicate 32 7)" by (simp add: imprint_ok_def valid_ids hash_lengths)
  moreover have "KSI_PublicationsFile_getPublicationDataByTime (Some sample_file) (Some 0) = Inr None" by code_simp
  ultimately show ?thesis
    using publication_string_roundtrip [of "\<lparr>pd_time = None, pd_imprint = Some (1 # replicate 32 7), pd_baseTlv = None\<rparr>" "1 # replicate 32 7" sample_file]
    by (auto simp: KSI_Integer_getUInt64_def)
qed

text \<open>C32. Errors in publication strings are detected.  When a publication string is accepted, then every string that
  decodes to the same bytes but for a change within four adjacent bytes in front of the checksum is refused as
  malformed.\<close>

theorem publication_string_errors:
  assumes "KSI_PublicationData_fromBase32 (Some s) = Ok pd" and "KSI_base32Decode (Some s) = Ok (pre @ xs @ suf @ crc)"
    and "KSI_base32Decode (Some t) = Ok (pre @ ys @ suf @ crc)"
    and "length crc = 4" and "length xs = length ys" and "length xs \<le> 4" and "xs \<noteq> ys"
  shows "KSI_PublicationData_fromBase32 (Some t) = Err KSI_INVALID_FORMAT"
proof -
  have "KSI_crc32 (pre @ xs @ suf) 0 = load_be crc"
    using checksum_holds [of s "pre @ xs @ suf" crc pd] assms by simp
  moreover have "KSI_crc32 (pre @ xs @ suf) 0 \<noteq> KSI_crc32 (pre @ ys @ suf) 0"
    by (rule crc_burst) (use assms in \<open>simp_all add: crc_state_def\<close>)
  ultimately show ?thesis
    using checksum_fails [of t "pre @ ys @ suf" crc] assms by simp
qed

theorem publication_string_errors_witness:
  "\<exists>s t pd. KSI_PublicationData_fromBase32 (Some s) = Ok pd \<and> KSI_PublicationData_fromBase32 (Some t) = Err KSI_INVALID_FORMAT"
proof -
  let ?h = "1 # replicate 32 (7::byte)"
  let ?crc = "store_be 4 (KSI_crc32 (store_be 8 0 @ ?h) 0)"
  obtain s where s: "KSI_base32Decode (Some s) = Ok (store_be 8 0 @ ?h @ ?crc)"
    using encode_decode [of "store_be 8 0 @ ?h @ ?crc" 6] by auto
  have "imprint_ok ?h" by (simp add: imprint_ok_def valid_ids hash_lengths)
  then have ok: "KSI_PublicationData_fromBase32 (Some s) = Ok \<lparr>pd_time = Some 0, pd_imprint = Some ?h, pd_baseTlv = None\<rparr>"
    using publication_parsed s by blast
  obtain t where t: "KSI_base32Decode (Some t) = Ok ([] @ store_be 8 1 @ ?h @ ?crc)"
    using encode_decode [of "store_be 8 1 @ ?h @ ?crc" 6] by auto
  have b: "store_be 8 0 = replicate 7 0 @ [0] @ []" "store_be 8 1 = replicate 7 0 @ [1] @ []"
    by (simp_all add: eval_nat_numeral)
  have "KSI_PublicationData_fromBase32 (Some t) = Err KSI_INVALID_FORMAT"
    using publication_string_errors [OF ok, of "replicate 7 0" "[0]" ?h ?crc t "[1]"] s t b by simp
  with ok show ?thesis by blast
qed

end
