(* ===== verification/TlvTemplate.thy ===== *)
theory TlvTemplate
  imports TlvElement
begin

text \<open>
  The template engine of \<^verbatim>\<open>src/src/ksi/tlv_template.c\<close>, with which every structured object of the library is read from
  and written to TLVs: a template lists the elements of an object with their tags, their accessors and the constraints on
  their occurrence.

  A \<^verbatim>\<open>void *\<close> object is a value of the type \<open>'o\<close>, which the users of the engine choose; accessors, constructors and
  converters are the function pointers of the template, and a null pointer is \<open>None\<close>.  An array of templates is a list,
  whose terminator is an entry of tag zero, as in the source.  Templates are finite trees, so parsing follows their
  structure.  Reading changes a TLV: its payload is split into nested TLVs, or put together again, so every reader returns the
  TLV as it leaves it.  The trace of tags that the engine keeps for its error messages is left out.
\<close>

section \<open>Checks\<close>

text \<open>The checks of the code, with the outcomes of element operations.\<close>

definition run_check :: "bool \<Rightarrow> ksi_err \<Rightarrow> 'a run \<Rightarrow> 'a run" where
  "run_check bad e k = (if bad then Err e else k)"

definition run_ptr :: "'a option \<Rightarrow> ksi_err \<Rightarrow> ('a \<Rightarrow> 'b run) \<Rightarrow> 'b run" where
  "run_ptr p e k = (case p of None \<Rightarrow> Err e | Some x \<Rightarrow> k x)"

lemma run_check_simps [simp]: "run_check True e k = Err e" "run_check False e k = k" by (simp_all add: run_check_def)

lemma run_check_eq_Ok [simp]: "run_check b e k = Ok y \<longleftrightarrow> \<not> b \<and> k = Ok y" by (simp add: run_check_def)

lemma run_ptr_simps [simp]: "run_ptr None e k = Err e" "run_ptr (Some x) e k = k x" by (simp_all add: run_ptr_def)

lemma run_ptr_eq_Ok: "run_ptr p e k = Ok y \<longleftrightarrow> (\<exists>x. p = Some x \<and> k x = Ok y)" by (cases p) simp_all

lemma run_bind_assoc: "run_bind (run_bind m f) g = run_bind m (\<lambda>x. run_bind (f x) g)" by (cases m) simp_all

lemma run_check_cong [fundef_cong]:
  "b = b' \<Longrightarrow> e = e' \<Longrightarrow> (\<not> b' \<Longrightarrow> k = k') \<Longrightarrow> run_check b e k = run_check b' e' k'"
  by (cases b') simp_all

lemma run_ptr_cong [fundef_cong]:
  "p = p' \<Longrightarrow> e = e' \<Longrightarrow> (\<And>x. p' = Some x \<Longrightarrow> k x = k' x) \<Longrightarrow> run_ptr p e k = run_ptr p' e' k'"
  by (cases p') simp_all

section \<open>Templates\<close>

text \<open>\<^verbatim>\<open>listNew\<close> stands for the constructor and the destructor of a list, which the engine requires together.\<close>

datatype (dead 'o) KSI_TlvTemplate = KSI_TlvTemplate
  (tmpl_type: int) (tmpl_tag: u32) (tmpl_flags: u32)
  (getValue: "('o \<Rightarrow> 'o option run) option") (setValue: "('o \<Rightarrow> 'o \<Rightarrow> 'o run) option")
  (construct_new: "'o run") (subTemplate: "'o KSI_TlvTemplate list")
  (listAppend: "('o \<Rightarrow> 'o \<Rightarrow> 'o run) option") (multiple: bool) (listNew: "'o run option")
  (listLength: "('o \<Rightarrow> nat) option") (listElementAt: "'o \<Rightarrow> nat \<Rightarrow> 'o run")
  (fromTlv: "(KSI_TLV \<Rightarrow> ('o \<times> KSI_TLV) run) option") (toTlv: "('o \<Rightarrow> u32 \<Rightarrow> bool \<Rightarrow> bool \<Rightarrow> KSI_TLV run) option")
  (parser: "(bytes \<Rightarrow> 'o run) option")

definition KSI_TLV_TEMPLATE_OBJECT :: int where "KSI_TLV_TEMPLATE_OBJECT = 1"
definition KSI_TLV_TEMPLATE_COMPOSITE :: int where "KSI_TLV_TEMPLATE_COMPOSITE = 2"
definition MAX_TEMPLATE_SIZE :: nat where "MAX_TEMPLATE_SIZE = 0xff"

datatype tmpl_flag =
    FLG_FORWARD | FLG_NONCRITICAL | FLG_MANDATORY | FLG_LEAST_ONE_G0 | FLG_LEAST_ONE_G1 | FLG_MORE_DEFS | FLG_NO_SERIALIZE
  | FLG_MOST_ONE_G0 | FLG_MOST_ONE_G1 | FLG_FIXED_ORDER | FLG_FIRST | FLG_LAST | FLG_NO_VALUE

fun flag_value :: "tmpl_flag \<Rightarrow> u32" where
  "flag_value FLG_FORWARD = 0x01"
| "flag_value FLG_NONCRITICAL = 0x02"
| "flag_value FLG_MANDATORY = 0x04"
| "flag_value FLG_LEAST_ONE_G0 = 0x08"
| "flag_value FLG_LEAST_ONE_G1 = 0x10"
| "flag_value FLG_MORE_DEFS = 0x20"
| "flag_value FLG_NO_SERIALIZE = 0x40"
| "flag_value FLG_MOST_ONE_G0 = 0x80"
| "flag_value FLG_MOST_ONE_G1 = 0x100"
| "flag_value FLG_FIXED_ORDER = 0x200"
| "flag_value FLG_FIRST = 0x400"
| "flag_value FLG_LAST = 0x800"
| "flag_value FLG_NO_VALUE = 0x1000"

definition IS_FLAG_SET :: "'o KSI_TlvTemplate \<Rightarrow> tmpl_flag \<Rightarrow> bool" where
  "IS_FLAG_SET t flg \<longleftrightarrow> tmpl_flags t AND flag_value flg \<noteq> 0"

definition getTemplateLength :: "'o KSI_TlvTemplate list \<Rightarrow> nat" where
  "getTemplateLength tmpl = length (takeWhile (\<lambda>t. tmpl_tag t \<noteq> 0) tmpl)"

section \<open>Extraction\<close>

definition storeObjectValue :: "'o KSI_TlvTemplate \<Rightarrow> 'o \<Rightarrow> 'o \<Rightarrow> 'o run" where
  "storeObjectValue t ob val =
     run_ptr (setValue t) KSI_UNKNOWN_ERROR (\<lambda>set_value.
       case listAppend t of
         Some list_append \<Rightarrow>
           run_ptr (getValue t) KSI_UNKNOWN_ERROR (\<lambda>get_value.
           run_bind (get_value ob) (\<lambda>listp.
           run_bind (case listp of Some l \<Rightarrow> Ok l | None \<Rightarrow> run_ptr (listNew t) KSI_INVALID_ARGUMENT (\<lambda>r. r)) (\<lambda>l.
           run_bind (list_append l val) (\<lambda>l. set_value ob l))))
       | None \<Rightarrow> set_value ob val)"

definition extractObject :: "'o KSI_TlvTemplate \<Rightarrow> 'o \<Rightarrow> KSI_TLV \<Rightarrow> ('o \<times> KSI_TLV) run" where
  "extractObject t ob tlv =
     (if fromTlv t = None \<and> parser t = None then Err KSI_UNKNOWN_ERROR
      else
        run_bind (case parser t of
                    Some parse \<Rightarrow>
                      (case KSI_TLV_getRawValue tlv of
                         (Some e, raw, tlv) \<Rightarrow> Err e
                       | (None, raw, tlv) \<Rightarrow> run_bind (parse raw) (\<lambda>tmp. Ok (tmp, tlv)))
                  | None \<Rightarrow> the (fromTlv t) tlv) (\<lambda>(tmp, tlv).
        run_bind (storeObjectValue t ob tmp) (\<lambda>ob. Ok (ob, tlv))))"

text \<open>\<open>sub\<close> is the extraction into an object with the sub-template of an entry.\<close>

definition extractComposite ::
    "('o KSI_TlvTemplate \<Rightarrow> 'o \<Rightarrow> KSI_TLV \<Rightarrow> ('o \<times> KSI_TLV) run) \<Rightarrow> 'o KSI_TlvTemplate \<Rightarrow> 'o \<Rightarrow> KSI_TLV \<Rightarrow> ('o \<times> KSI_TLV) run" where
  "extractComposite sub t ob tlv =
     run_bind (construct_new t) (\<lambda>tmp.
     run_bind (sub t tmp tlv) (\<lambda>(tmp, tlv).
     run_bind (storeObjectValue t ob tmp) (\<lambda>ob. Ok (ob, tlv))))"

record generator_state =
  templateHit :: "bool list"
  groupHit :: "bool \<times> bool"
  oneOf :: "bool \<times> bool"
  tmplStart :: nat
  maxOrder :: nat
  firstHit :: bool
  lastHit :: bool

text \<open>What is done with an element that matches entry \<open>i\<close>.\<close>

definition matchedEntry ::
    "('o KSI_TlvTemplate \<Rightarrow> 'o \<Rightarrow> KSI_TLV \<Rightarrow> ('o \<times> KSI_TLV) run) \<Rightarrow> 'o KSI_TlvTemplate \<Rightarrow> nat \<Rightarrow> KSI_TLV
       \<Rightarrow> 'o \<Rightarrow> generator_state \<Rightarrow> ('o \<times> KSI_TLV \<times> generator_state) run" where
  "matchedEntry sub t i tlv ob st =
     (let st = st\<lparr>templateHit := (templateHit st)[i := True],
                  groupHit := (fst (groupHit st) \<or> IS_FLAG_SET t FLG_LEAST_ONE_G0, snd (groupHit st) \<or> IS_FLAG_SET t FLG_LEAST_ONE_G1)\<rparr> in
      run_check (IS_FLAG_SET t FLG_FIXED_ORDER \<and> i < maxOrder st) KSI_INVALID_FORMAT (
      let st = (if IS_FLAG_SET t FLG_FIXED_ORDER then st\<lparr>maxOrder := i\<rparr> else st) in
      run_check (IS_FLAG_SET t FLG_FIRST \<and> firstHit st) KSI_INVALID_FORMAT (
      let st = st\<lparr>firstHit := True\<rparr> in
      run_check (lastHit st) KSI_INVALID_FORMAT (
      let st = st\<lparr>lastHit := IS_FLAG_SET t FLG_LAST\<rparr> in
      run_check (IS_FLAG_SET t FLG_MOST_ONE_G0 \<and> fst (oneOf st)) KSI_INVALID_FORMAT (
      run_check (IS_FLAG_SET t FLG_MOST_ONE_G1 \<and> snd (oneOf st)) KSI_INVALID_FORMAT (
      let st = st\<lparr>oneOf := (fst (oneOf st) \<or> IS_FLAG_SET t FLG_MOST_ONE_G0, snd (oneOf st) \<or> IS_FLAG_SET t FLG_MOST_ONE_G1)\<rparr> in
      run_bind (case getValue t of None \<Rightarrow> Ok None | Some get_value \<Rightarrow> get_value ob) (\<lambda>valuep.
      run_check (valuep \<noteq> None \<and> \<not> multiple t) KSI_INVALID_FORMAT (
      run_bind (if tmpl_type t = KSI_TLV_TEMPLATE_OBJECT then extractObject t ob tlv
             else if tmpl_type t = KSI_TLV_TEMPLATE_COMPOSITE then extractComposite sub t ob tlv
             else Err KSI_UNKNOWN_ERROR) (\<lambda>(ob, tlv). Ok (ob, tlv, st))))))))))"

text \<open>The search for the entries of an element, from entry \<open>i\<close> on; the number counts the matches.\<close>

function entryLoop ::
    "('o KSI_TlvTemplate \<Rightarrow> 'o \<Rightarrow> KSI_TLV \<Rightarrow> ('o \<times> KSI_TLV) run) \<Rightarrow> 'o KSI_TlvTemplate list \<Rightarrow> nat \<Rightarrow> KSI_TLV
       \<Rightarrow> 'o \<Rightarrow> generator_state \<Rightarrow> nat \<Rightarrow> ('o \<times> KSI_TLV \<times> generator_state \<times> nat) run" where
  "entryLoop sub tmpl i tlv ob st matchCount =
     (if i < getTemplateLength tmpl then
        let t = tmpl ! i in
        if tmpl_tag t \<noteq> tlv_tag tlv then entryLoop sub tmpl (Suc i) tlv ob st matchCount
        else
          let st = (if i = tmplStart st \<and> \<not> multiple t then st\<lparr>tmplStart := Suc (tmplStart st)\<rparr> else st) in
          run_bind (matchedEntry sub t i tlv ob st) (\<lambda>(ob, tlv, st).
            if IS_FLAG_SET t FLG_MORE_DEFS then entryLoop sub tmpl (Suc i) tlv ob st (Suc matchCount)
            else Ok (ob, tlv, st, Suc matchCount))
      else Ok (ob, tlv, st, matchCount))"
  by pat_completeness auto
termination by (relation "measure (\<lambda>(sub, tmpl, i, tlv, ob, st, n). getTemplateLength tmpl - i)") auto

declare entryLoop.simps [simp del]

text \<open>The elements come from a generator: what its calls return, up to the one that reports the end.  The last component are the
  elements as they are left.\<close>

fun generatorLoop ::
    "('o KSI_TlvTemplate \<Rightarrow> 'o \<Rightarrow> KSI_TLV \<Rightarrow> ('o \<times> KSI_TLV) run) \<Rightarrow> 'o KSI_TlvTemplate list \<Rightarrow> KSI_TLV run list
       \<Rightarrow> 'o \<Rightarrow> generator_state \<Rightarrow> ('o \<times> generator_state \<times> KSI_TLV list) run" where
  "generatorLoop sub tmpl [] ob st = Ok (ob, st, [])"
| "generatorLoop sub tmpl (g # gs) ob st =
     run_bind g (\<lambda>tlv.
     run_bind (entryLoop sub tmpl (tmplStart st) tlv ob st 0) (\<lambda>(ob, tlv, st, matchCount).
     run_check (matchCount = 0 \<and> \<not> isNonCritical tlv) KSI_INVALID_FORMAT (
     run_bind (generatorLoop sub tmpl gs ob st) (\<lambda>(ob, st, tlvs). Ok (ob, st, tlv # tlvs)))))"

definition missingEntry :: "'o KSI_TlvTemplate list \<Rightarrow> generator_state \<Rightarrow> nat \<Rightarrow> bool" where
  "missingEntry tmpl st i \<longleftrightarrow>
     IS_FLAG_SET (tmpl ! i) FLG_MANDATORY \<and> \<not> templateHit st ! i
   \<or> IS_FLAG_SET (tmpl ! i) FLG_LEAST_ONE_G0 \<and> \<not> fst (groupHit st)
   \<or> IS_FLAG_SET (tmpl ! i) FLG_LEAST_ONE_G1 \<and> \<not> snd (groupHit st)"

definition generator_start :: generator_state where
  "generator_start = \<lparr>templateHit = replicate MAX_TEMPLATE_SIZE False, groupHit = (False, False), oneOf = (False, False),
     tmplStart = 0, maxOrder = 0, firstHit = False, lastHit = False\<rparr>"

definition extractWith ::
    "('o KSI_TlvTemplate \<Rightarrow> 'o \<Rightarrow> KSI_TLV \<Rightarrow> ('o \<times> KSI_TLV) run) \<Rightarrow> 'o \<Rightarrow> KSI_TLV run list \<Rightarrow> 'o KSI_TlvTemplate list
       \<Rightarrow> ('o \<times> KSI_TLV list) run" where
  "extractWith sub ob gen tmpl =
     run_check (getTemplateLength tmpl = 0) KSI_INVALID_ARGUMENT (
     run_check (getTemplateLength tmpl > MAX_TEMPLATE_SIZE) KSI_INVALID_ARGUMENT (
     run_bind (generatorLoop sub tmpl gen ob generator_start) (\<lambda>(ob, st, tlvs).
     run_check (\<exists>i<getTemplateLength tmpl. missingEntry tmpl st i) KSI_INVALID_FORMAT (Ok (ob, tlvs)))))"

lemma getTemplateLength_le: "getTemplateLength tmpl \<le> length tmpl"
  by (simp add: getTemplateLength_def length_takeWhile_le)

lemma matchedEntry_cong [fundef_cong]:
  assumes "t = t'" "i = i'" "tlv = tlv'" "ob = ob'" "st = st'" "\<And>p v. sub t' p v = sub' t' p v"
  shows "matchedEntry sub t i tlv ob st = matchedEntry sub' t' i' tlv' ob' st'"
proof -
  have "extractComposite sub t = extractComposite sub' t" using assms(1,6) by (intro ext) (simp add: extractComposite_def)
  then show ?thesis using assms(1-5) by (simp add: matchedEntry_def)
qed

lemma entryLoop_sub:
  assumes "\<And>t p v. t \<in> set tmpl \<Longrightarrow> sub t p v = sub' t p v"
  shows "entryLoop sub tmpl i tlv ob st n = entryLoop sub' tmpl i tlv ob st n"
proof (induction "getTemplateLength tmpl - i" arbitrary: i tlv ob st n rule: less_induct)
  case less
  show ?case
  proof (cases "i < getTemplateLength tmpl")
    case True
    then have "tmpl ! i \<in> set tmpl" using getTemplateLength_le [of tmpl] by simp
    then have m: "matchedEntry sub (tmpl ! i) i tlv ob s = matchedEntry sub' (tmpl ! i) i tlv ob s" for s
      using assms by (intro matchedEntry_cong) auto
    have "entryLoop sub tmpl (Suc i) v p s k = entryLoop sub' tmpl (Suc i) v p s k" for v p s k
      using less True by simp
    with m show ?thesis
      by (subst (1 2) entryLoop.simps) (auto simp: Let_def intro!: run_bind_cong)
  next
    case False
    then show ?thesis by (subst (1 2) entryLoop.simps) simp
  qed
qed

lemma generatorLoop_sub:
  assumes "\<And>t p v. t \<in> set tmpl \<Longrightarrow> sub t p v = sub' t p v"
  shows "generatorLoop sub tmpl gs ob st = generatorLoop sub' tmpl gs ob st"
  using entryLoop_sub [of tmpl sub sub'] assms by (induction gs arbitrary: ob st) (auto intro!: run_bind_cong split: prod.splits)

lemma extractWith_cong [fundef_cong]:
  assumes "ob = ob'" "gen = gen'" "tmpl = tmpl'" "\<And>t p v. t \<in> set tmpl' \<Longrightarrow> sub t p v = sub' t p v"
  shows "extractWith sub ob gen tmpl = extractWith sub' ob' gen' tmpl'"
  using generatorLoop_sub [of tmpl' sub sub'] assms by (simp add: extractWith_def)

lemma sub_template_smaller: "t \<in> set tmpl \<Longrightarrow> size_list size (subTemplate t) < size_list size tmpl"
proof -
  assume "t \<in> set tmpl"
  moreover have "size_list size (subTemplate t) < size t" by (cases t) simp
  ultimately show ?thesis using size_list_estimation [of t tmpl "size_list size (subTemplate t)" size] by simp
qed

function extractTlv :: "'o \<Rightarrow> KSI_TLV \<Rightarrow> 'o KSI_TlvTemplate list \<Rightarrow> ('o \<times> KSI_TLV) run" where
  "extractTlv ob tlv tmpl =
     run_bind (run_of (KSI_TLV_getNestedList tlv)) (\<lambda>(l, tlv).
     run_bind (extractWith (\<lambda>t tmp tlv. extractTlv tmp tlv (subTemplate t)) ob (map Ok l) tmpl) (\<lambda>(ob, l).
       Ok (ob, set_nested (Some l) tlv)))"
  by pat_completeness auto
termination
  by (relation "measure (\<lambda>(ob, tlv, tmpl). size_list size tmpl)") (auto intro: sub_template_smaller)

declare extractTlv.simps [simp del]

definition KSI_TlvTemplate_extract :: "'o option \<Rightarrow> KSI_TLV option \<Rightarrow> 'o KSI_TlvTemplate list option \<Rightarrow> ('o \<times> KSI_TLV) run" where
  "KSI_TlvTemplate_extract ob tlv tmpl =
     run_ptr ob KSI_INVALID_ARGUMENT (\<lambda>ob.
     run_ptr tlv KSI_INVALID_ARGUMENT (\<lambda>tlv.
     run_ptr tmpl KSI_INVALID_ARGUMENT (\<lambda>tmpl. extractTlv ob tlv tmpl)))"

definition KSI_TlvTemplate_parse :: "bytes option \<Rightarrow> 'o KSI_TlvTemplate list option \<Rightarrow> 'o option \<Rightarrow> 'o run" where
  "KSI_TlvTemplate_parse raw tmpl ob =
     run_ptr raw KSI_INVALID_ARGUMENT (\<lambda>raw.
     run_ptr tmpl KSI_INVALID_ARGUMENT (\<lambda>tmpl.
     run_ptr ob KSI_INVALID_ARGUMENT (\<lambda>ob.
     run_bind (run_of (KSI_TLV_parseBlob2 (Some raw) False)) (\<lambda>tlv.
     run_bind (extractTlv ob tlv tmpl) (\<lambda>(ob, tlv). Ok ob)))))"

definition KSI_TlvTemplate_extractGenerator ::
    "'o option \<Rightarrow> KSI_TLV run list option \<Rightarrow> 'o KSI_TlvTemplate list option \<Rightarrow> 'o run" where
  "KSI_TlvTemplate_extractGenerator ob gen tmpl =
     run_ptr ob KSI_INVALID_ARGUMENT (\<lambda>ob.
     run_ptr gen KSI_INVALID_ARGUMENT (\<lambda>gen.
     run_ptr tmpl KSI_INVALID_ARGUMENT (\<lambda>tmpl.
     run_bind (extractWith (\<lambda>t tmp tlv. extractTlv tmp tlv (subTemplate t)) ob gen tmpl) (\<lambda>(ob, tlvs). Ok ob))))"

section \<open>Construction\<close>

text \<open>The loops over the elements of a list: each is converted and appended.\<close>

fun appendLoop :: "nat \<Rightarrow> nat \<Rightarrow> (nat \<Rightarrow> KSI_TLV run) \<Rightarrow> KSI_TLV \<Rightarrow> KSI_TLV run" where
  "appendLoop j 0 element tlv = Ok tlv"
| "appendLoop j (Suc n) element tlv =
     run_bind (element j) (\<lambda>tmp.
     run_bind (run_of (KSI_TLV_appendNestedTlv (Some tlv) (Some tmp))) (\<lambda>tlv. appendLoop (Suc j) n element tlv))"

text \<open>\<open>sub\<close> is the construction from an object with the sub-template of an entry.\<close>

definition constructEntry ::
    "(KSI_TLV \<Rightarrow> 'o \<Rightarrow> KSI_TLV run) \<Rightarrow> 'o KSI_TlvTemplate \<Rightarrow> 'o \<Rightarrow> KSI_TLV \<Rightarrow> KSI_TLV run" where
  "constructEntry sub t payloadp tlv =
     (let isNc = IS_FLAG_SET t FLG_NONCRITICAL; isFwd = IS_FLAG_SET t FLG_FORWARD in
      if tmpl_type t = KSI_TLV_TEMPLATE_OBJECT then
        run_ptr (toTlv t) KSI_UNKNOWN_ERROR (\<lambda>to_tlv.
          case listLength t of
            Some len \<Rightarrow>
              appendLoop 0 (len payloadp) (\<lambda>j. run_bind (listElementAt t payloadp j) (\<lambda>listElement. to_tlv listElement (tmpl_tag t) isNc isFwd)) tlv
          | None \<Rightarrow> run_bind (to_tlv payloadp (tmpl_tag t) isNc isFwd) (\<lambda>tmp. run_of (KSI_TLV_appendNestedTlv (Some tlv) (Some tmp))))
      else if tmpl_type t = KSI_TLV_TEMPLATE_COMPOSITE then
        (case listLength t of
           Some len \<Rightarrow>
             appendLoop 0 (len payloadp) (\<lambda>j.
               let tmp = KSI_TLV_new (tmpl_tag t) isNc isFwd in
               run_bind (listElementAt t payloadp j) (\<lambda>listElement. sub tmp listElement)) tlv
         | None \<Rightarrow>
             let tmp = KSI_TLV_new (tmpl_tag t) isNc isFwd in
             run_bind (if IS_FLAG_SET t FLG_NO_VALUE then Ok tmp else sub tmp payloadp) (\<lambda>tmp. run_of (KSI_TLV_appendNestedTlv (Some tlv) (Some tmp))))
      else Err KSI_UNKNOWN_ERROR)"

definition emptyList :: "'o KSI_TlvTemplate \<Rightarrow> 'o \<Rightarrow> bool" where
  "emptyList t payloadp = (case listLength t of None \<Rightarrow> False | Some len \<Rightarrow> len payloadp = 0)"

definition constructStep ::
    "(KSI_TLV \<Rightarrow> 'o \<Rightarrow> KSI_TLV run) \<Rightarrow> 'o KSI_TlvTemplate \<Rightarrow> nat \<Rightarrow> 'o
       \<Rightarrow> KSI_TLV \<Rightarrow> generator_state \<Rightarrow> (KSI_TLV \<times> generator_state) run" where
  "constructStep sub t i ob tlv st =
     (if IS_FLAG_SET t FLG_NO_SERIALIZE then Ok (tlv, st)
      else
        run_bind ((the (getValue t)) ob) (\<lambda>payloadp.
          case payloadp of None \<Rightarrow> Ok (tlv, st)
          | Some p \<Rightarrow>
              run_check (IS_FLAG_SET t FLG_LEAST_ONE_G0 \<and> emptyList t p) KSI_INVALID_FORMAT (
              run_check (IS_FLAG_SET t FLG_LEAST_ONE_G1 \<and> emptyList t p) KSI_INVALID_FORMAT (
              run_check (IS_FLAG_SET t FLG_MOST_ONE_G0 \<and> fst (oneOf st)) KSI_INVALID_FORMAT (
              run_check (IS_FLAG_SET t FLG_MOST_ONE_G1 \<and> snd (oneOf st)) KSI_INVALID_FORMAT (
              let st = st\<lparr>templateHit := (templateHit st)[i := True],
                          groupHit := (fst (groupHit st) \<or> IS_FLAG_SET t FLG_LEAST_ONE_G0, snd (groupHit st) \<or> IS_FLAG_SET t FLG_LEAST_ONE_G1),
                          oneOf := (fst (oneOf st) \<or> IS_FLAG_SET t FLG_MOST_ONE_G0 \<and> \<not> emptyList t p,
                                    snd (oneOf st) \<or> IS_FLAG_SET t FLG_MOST_ONE_G1 \<and> \<not> emptyList t p)\<rparr> in
              run_bind (constructEntry sub t p tlv) (\<lambda>tlv. Ok (tlv, st))))))))"

fun constructLoop ::
    "('o KSI_TlvTemplate \<Rightarrow> KSI_TLV \<Rightarrow> 'o \<Rightarrow> KSI_TLV run) \<Rightarrow> 'o KSI_TlvTemplate list \<Rightarrow> nat \<Rightarrow> 'o
       \<Rightarrow> KSI_TLV \<Rightarrow> generator_state \<Rightarrow> (KSI_TLV \<times> generator_state) run" where
  "constructLoop sub [] i ob tlv st = Ok (tlv, st)"
| "constructLoop sub (t # ts) i ob tlv st =
     run_bind (constructStep (sub t) t i ob tlv st) (\<lambda>(tlv, st). constructLoop sub ts (Suc i) ob tlv st)"

definition constructWith ::
    "('o KSI_TlvTemplate \<Rightarrow> KSI_TLV \<Rightarrow> 'o \<Rightarrow> KSI_TLV run) \<Rightarrow> KSI_TLV \<Rightarrow> 'o \<Rightarrow> 'o KSI_TlvTemplate list \<Rightarrow> KSI_TLV run" where
  "constructWith sub tlv ob tmpl =
     run_check (getTemplateLength tmpl = 0) KSI_INVALID_ARGUMENT (
     run_check (getTemplateLength tmpl > MAX_TEMPLATE_SIZE) KSI_INVALID_ARGUMENT (
     run_bind (constructLoop sub (take (getTemplateLength tmpl) tmpl) 0 ob tlv generator_start) (\<lambda>(tlv, st).
     run_check (\<exists>i<getTemplateLength tmpl. missingEntry tmpl st i) KSI_INVALID_FORMAT (Ok tlv))))"

lemma constructLoop_sub:
  assumes "\<And>t p v. t \<in> set tmpl \<Longrightarrow> sub t p v = sub' t p v"
  shows "constructLoop sub tmpl i ob tlv st = constructLoop sub' tmpl i ob tlv st"
  using assms
proof (induction tmpl arbitrary: i tlv st)
  case (Cons t ts)
  then have "sub t = sub' t" by (intro ext) simp
  then show ?case using Cons by (auto intro!: run_bind_cong split: prod.splits)
qed simp

lemma constructWith_cong [fundef_cong]:
  assumes "tlv = tlv'" "ob = ob'" "tmpl = tmpl'" "\<And>t p v. t \<in> set tmpl' \<Longrightarrow> sub t p v = sub' t p v"
  shows "constructWith sub tlv ob tmpl = constructWith sub' tlv' ob' tmpl'"
proof -
  have "constructLoop sub (take (getTemplateLength tmpl') tmpl') 0 ob' tlv' generator_start
      = constructLoop sub' (take (getTemplateLength tmpl') tmpl') 0 ob' tlv' generator_start"
    by (rule constructLoop_sub) (auto intro: assms(4) dest: in_set_takeD)
  then show ?thesis unfolding constructWith_def assms(1-3) by (rule arg_cong)
qed

function constructTlv :: "KSI_TLV \<Rightarrow> 'o \<Rightarrow> 'o KSI_TlvTemplate list \<Rightarrow> KSI_TLV run" where
  "constructTlv tlv ob tmpl =
     constructWith (\<lambda>t tmp ob. constructTlv tmp ob (subTemplate t)) tlv ob tmpl"
  by pat_completeness auto
termination
  by (relation "measure (\<lambda>(tlv, ob, tmpl). size_list size tmpl)") (auto intro: sub_template_smaller)

declare constructTlv.simps [simp del]

definition KSI_TlvTemplate_construct :: "KSI_TLV option \<Rightarrow> 'o option \<Rightarrow> 'o KSI_TlvTemplate list option \<Rightarrow> KSI_TLV run" where
  "KSI_TlvTemplate_construct tlv ob tmpl =
     run_ptr tlv KSI_INVALID_ARGUMENT (\<lambda>tlv.
     run_ptr ob KSI_INVALID_ARGUMENT (\<lambda>ob.
     run_ptr tmpl KSI_INVALID_ARGUMENT (\<lambda>tmpl. constructTlv tlv ob tmpl)))"

definition KSI_TlvTemplate_serializeObject ::
    "'o option \<Rightarrow> u32 \<Rightarrow> bool \<Rightarrow> bool \<Rightarrow> 'o KSI_TlvTemplate list option \<Rightarrow> bytes run" where
  "KSI_TlvTemplate_serializeObject obj tg isNc isFwd tmpl =
     run_ptr obj KSI_INVALID_ARGUMENT (\<lambda>obj.
     run_ptr tmpl KSI_INVALID_ARGUMENT (\<lambda>tmpl.
     run_bind (KSI_TlvTemplate_construct (Some (KSI_TLV_new tg isNc isFwd)) (Some obj) (Some tmpl)) (\<lambda>tlv. run_of (KSI_TLV_serialize tlv))))"

definition KSI_TlvTemplate_writeBytes ::
    "'o option \<Rightarrow> u32 \<Rightarrow> bool \<Rightarrow> bool \<Rightarrow> 'o KSI_TlvTemplate list option \<Rightarrow> bytes option \<Rightarrow> bool \<Rightarrow> bool \<Rightarrow> (bytes option \<times> nat) run" where
  "KSI_TlvTemplate_writeBytes obj tg isNc isFwd tmpl raw hdr move =
     run_ptr obj KSI_INVALID_ARGUMENT (\<lambda>obj.
     run_ptr tmpl KSI_INVALID_ARGUMENT (\<lambda>tmpl.
     run_bind (KSI_TlvTemplate_construct (Some (KSI_TLV_new tg isNc isFwd)) (Some obj) (Some tmpl)) (\<lambda>tlv. run_of (KSI_TLV_writeBytes tlv raw hdr move))))"

end
