(* ===== verification/TemplateGrammar.thy ===== *)
theory TemplateGrammar
  imports TlvTemplate
begin

text \<open>
  What the template engine of \<^verbatim>\<open>src/src/ksi/tlv_template.c\<close> accepts.  A template is a grammar for the sequence of its
  elements (\<open>in_order\<close>, \<open>is_complete\<close>); the state of the parser tracks the entries met so far (\<open>tracks\<close>).  Two results carry the
  templates of the library: \<open>extractWith_invariant\<close>, for what every stored element preserves, and, under the contract of
  accessors stated by the locale \<open>template_accessors\<close>, \<open>extractWith_iff\<close>: sequences of critical elements are accepted exactly when
  they follow the grammar and every element converts.
\<close>

section \<open>The grammar of a template\<close>

text \<open>The conversion and storing of one element, without the constraints on its occurrence.\<close>

definition storeElement ::
    "('o KSI_TlvTemplate \<Rightarrow> 'o \<Rightarrow> KSI_TLV \<Rightarrow> ('o \<times> KSI_TLV) run) \<Rightarrow> 'o KSI_TlvTemplate \<Rightarrow> 'o \<Rightarrow> KSI_TLV \<Rightarrow> ('o \<times> KSI_TLV) run" where
  "storeElement sub t ob tlv =
     (if tmpl_type t = KSI_TLV_TEMPLATE_OBJECT then extractObject t ob tlv
      else if tmpl_type t = KSI_TLV_TEMPLATE_COMPOSITE then extractComposite sub t ob tlv
      else Err KSI_UNKNOWN_ERROR)"

text \<open>Templates with one entry for each tag.\<close>

definition plain_template :: "'o KSI_TlvTemplate list \<Rightarrow> bool" where
  "plain_template tmpl \<longleftrightarrow> tmpl \<noteq> [] \<and> length tmpl \<le> MAX_TEMPLATE_SIZE \<and> distinct (map tmpl_tag tmpl)
     \<and> (\<forall>t\<in>set tmpl. tmpl_tag t \<noteq> 0 \<and> \<not> IS_FLAG_SET t FLG_MORE_DEFS)"

lemma plain_length: "plain_template tmpl \<Longrightarrow> getTemplateLength tmpl = length tmpl"
  by (simp add: plain_template_def getTemplateLength_def takeWhile_eq_all_conv [THEN iffD2])

lemma plain_tags:
  "plain_template tmpl \<Longrightarrow> i < length tmpl \<Longrightarrow> j < length tmpl \<Longrightarrow> tmpl_tag (tmpl ! i) = tmpl_tag (tmpl ! j) \<Longrightarrow> i = j"
  unfolding plain_template_def by (metis length_map nth_eq_iff_index_eq nth_map)

text \<open>The entry an element belongs to.\<close>

definition entry_of :: "'o KSI_TlvTemplate list \<Rightarrow> KSI_TLV \<Rightarrow> nat option" where
  "entry_of tmpl tlv = find (\<lambda>i. tmpl_tag (tmpl ! i) = tlv_tag tlv) [0..<length tmpl]"

lemma entry_of_Some:
  assumes "plain_template tmpl"
  shows "entry_of tmpl tlv = Some i \<longleftrightarrow> i < length tmpl \<and> tmpl_tag (tmpl ! i) = tlv_tag tlv"
proof
  show "entry_of tmpl tlv = Some i \<Longrightarrow> i < length tmpl \<and> tmpl_tag (tmpl ! i) = tlv_tag tlv"
    by (auto simp: entry_of_def find_Some_iff)
  assume i: "i < length tmpl \<and> tmpl_tag (tmpl ! i) = tlv_tag tlv"
  then have "\<forall>j<i. tmpl_tag (tmpl ! j) \<noteq> tlv_tag tlv" using plain_tags [OF assms] by (metis less_trans less_irrefl)
  then show "entry_of tmpl tlv = Some i" using i unfolding entry_of_def find_Some_iff by (intro exI [of _ i]) simp
qed

lemma entry_of_None: "entry_of tmpl tlv = None \<longleftrightarrow> (\<forall>i<length tmpl. tmpl_tag (tmpl ! i) \<noteq> tlv_tag tlv)"
  by (auto simp: entry_of_def find_None_iff)

text \<open>The constraints on the sequence of the entries that elements belong to, in the order of the elements: an entry for the
  first or the last position stands there, entries of fixed order follow each other, of an exclusive group there is at most
  one element, and of an entry that is no list at most one.\<close>

definition in_order :: "'o KSI_TlvTemplate list \<Rightarrow> nat list \<Rightarrow> bool" where
  "in_order tmpl hits \<longleftrightarrow>
     (\<forall>k<length hits. IS_FLAG_SET (tmpl ! (hits ! k)) FLG_FIRST \<longrightarrow> k = 0)
   \<and> (\<forall>k<length hits. IS_FLAG_SET (tmpl ! (hits ! k)) FLG_LAST \<longrightarrow> Suc k = length hits)
   \<and> sorted (filter (\<lambda>i. IS_FLAG_SET (tmpl ! i) FLG_FIXED_ORDER) hits)
   \<and> length (filter (\<lambda>i. IS_FLAG_SET (tmpl ! i) FLG_MOST_ONE_G0) hits) \<le> 1
   \<and> length (filter (\<lambda>i. IS_FLAG_SET (tmpl ! i) FLG_MOST_ONE_G1) hits) \<le> 1
   \<and> distinct (filter (\<lambda>i. \<not> multiple (tmpl ! i)) hits)"

text \<open>The entries and groups that must occur do.\<close>

definition is_complete :: "'o KSI_TlvTemplate list \<Rightarrow> nat list \<Rightarrow> bool" where
  "is_complete tmpl hits \<longleftrightarrow>
     (\<forall>i<length tmpl. (IS_FLAG_SET (tmpl ! i) FLG_MANDATORY \<longrightarrow> i \<in> set hits)
        \<and> (IS_FLAG_SET (tmpl ! i) FLG_LEAST_ONE_G0 \<longrightarrow> (\<exists>j\<in>set hits. IS_FLAG_SET (tmpl ! j) FLG_LEAST_ONE_G0))
        \<and> (IS_FLAG_SET (tmpl ! i) FLG_LEAST_ONE_G1 \<longrightarrow> (\<exists>j\<in>set hits. IS_FLAG_SET (tmpl ! j) FLG_LEAST_ONE_G1)))"

definition may_follow :: "'o KSI_TlvTemplate list \<Rightarrow> nat list \<Rightarrow> nat \<Rightarrow> bool" where
  "may_follow tmpl hits i \<longleftrightarrow>
     (IS_FLAG_SET (tmpl ! i) FLG_FIXED_ORDER \<longrightarrow> (\<forall>j\<in>set hits. IS_FLAG_SET (tmpl ! j) FLG_FIXED_ORDER \<longrightarrow> j \<le> i))
   \<and> (IS_FLAG_SET (tmpl ! i) FLG_FIRST \<longrightarrow> hits = [])
   \<and> (\<forall>j\<in>set hits. \<not> IS_FLAG_SET (tmpl ! j) FLG_LAST)
   \<and> (IS_FLAG_SET (tmpl ! i) FLG_MOST_ONE_G0 \<longrightarrow> (\<forall>j\<in>set hits. \<not> IS_FLAG_SET (tmpl ! j) FLG_MOST_ONE_G0))
   \<and> (IS_FLAG_SET (tmpl ! i) FLG_MOST_ONE_G1 \<longrightarrow> (\<forall>j\<in>set hits. \<not> IS_FLAG_SET (tmpl ! j) FLG_MOST_ONE_G1))
   \<and> (\<not> multiple (tmpl ! i) \<longrightarrow> i \<notin> set hits)"

lemma all_less_snoc: "(\<forall>k<length (xs @ [x]). P k) \<longleftrightarrow> (\<forall>k<length xs. P k) \<and> P (length xs)"
  by (auto simp: less_Suc_eq)

lemma at_most_one_snoc: "length (filter P (xs @ [x])) \<le> 1 \<longleftrightarrow> length (filter P xs) \<le> 1 \<and> (P x \<longrightarrow> (\<forall>y\<in>set xs. \<not> P y))"
  by (auto simp: filter_empty_conv)

lemma in_order_snoc: "in_order tmpl (hits @ [i]) \<longleftrightarrow> in_order tmpl hits \<and> may_follow tmpl hits i"
proof -
  have f: "(\<forall>k<length (hits @ [i]). IS_FLAG_SET (tmpl ! ((hits @ [i]) ! k)) FLG_FIRST \<longrightarrow> k = 0) \<longleftrightarrow>
      (\<forall>k<length hits. IS_FLAG_SET (tmpl ! (hits ! k)) FLG_FIRST \<longrightarrow> k = 0) \<and> (IS_FLAG_SET (tmpl ! i) FLG_FIRST \<longrightarrow> hits = [])"
    unfolding all_less_snoc by (auto simp: nth_append)
  have l: "(\<forall>k<length (hits @ [i]). IS_FLAG_SET (tmpl ! ((hits @ [i]) ! k)) FLG_LAST \<longrightarrow> Suc k = length (hits @ [i])) \<longleftrightarrow>
      (\<forall>k<length hits. IS_FLAG_SET (tmpl ! (hits ! k)) FLG_LAST \<longrightarrow> Suc k = length hits) \<and> (\<forall>j\<in>set hits. \<not> IS_FLAG_SET (tmpl ! j) FLG_LAST)"
    unfolding all_less_snoc by (auto simp: nth_append in_set_conv_nth dest: nth_mem)
  have s: "sorted (filter P (hits @ [i])) \<longleftrightarrow> sorted (filter P hits) \<and> (P i \<longrightarrow> (\<forall>j\<in>set hits. P j \<longrightarrow> j \<le> i))" for P
    by (auto simp: sorted_append)
  have d: "distinct (filter P (hits @ [i])) \<longleftrightarrow> distinct (filter P hits) \<and> (P i \<longrightarrow> i \<notin> set hits)" for P by auto
  show ?thesis unfolding in_order_def may_follow_def f l s at_most_one_snoc d by blast
qed

lemma in_order_Nil [simp]: "in_order tmpl []" by (simp add: in_order_def)

lemma in_order_prefix: "in_order tmpl (hits @ hs) \<Longrightarrow> in_order tmpl hits"
  by (induction hs rule: rev_induct) (simp_all add: in_order_snoc append_assoc [symmetric] del: append_assoc)

section \<open>The parser follows the grammar\<close>

text \<open>The state of the parser behind elements of given entries.\<close>

definition tracks :: "'o KSI_TlvTemplate list \<Rightarrow> nat list \<Rightarrow> generator_state \<Rightarrow> bool" where
  "tracks tmpl hits st \<longleftrightarrow>
     length (templateHit st) = MAX_TEMPLATE_SIZE \<and> (\<forall>i<length tmpl. templateHit st ! i \<longleftrightarrow> i \<in> set hits)
   \<and> fst (groupHit st) = (\<exists>j\<in>set hits. IS_FLAG_SET (tmpl ! j) FLG_LEAST_ONE_G0)
   \<and> snd (groupHit st) = (\<exists>j\<in>set hits. IS_FLAG_SET (tmpl ! j) FLG_LEAST_ONE_G1)
   \<and> fst (oneOf st) = (\<exists>j\<in>set hits. IS_FLAG_SET (tmpl ! j) FLG_MOST_ONE_G0)
   \<and> snd (oneOf st) = (\<exists>j\<in>set hits. IS_FLAG_SET (tmpl ! j) FLG_MOST_ONE_G1)
   \<and> (\<forall>i<tmplStart st. i < length tmpl \<and> \<not> multiple (tmpl ! i) \<and> i \<in> set hits)
   \<and> maxOrder st = (case rev (filter (\<lambda>i. IS_FLAG_SET (tmpl ! i) FLG_FIXED_ORDER) hits) of [] \<Rightarrow> 0 | i # _ \<Rightarrow> i)
   \<and> firstHit st = (hits \<noteq> []) \<and> lastHit st = (\<exists>j\<in>set hits. IS_FLAG_SET (tmpl ! j) FLG_LAST)"

lemma tracks_start: "tracks tmpl [] generator_start" if "length tmpl \<le> MAX_TEMPLATE_SIZE"
  using that by (simp add: tracks_def generator_start_def)

lemma tracks_skip:
  "tracks tmpl hits st \<Longrightarrow> i < length tmpl \<Longrightarrow> \<not> multiple (tmpl ! i) \<Longrightarrow> i = tmplStart st \<Longrightarrow> i \<in> set hits
   \<Longrightarrow> tracks tmpl hits (st\<lparr>tmplStart := Suc (tmplStart st)\<rparr>)"
  by (auto simp: tracks_def less_Suc_eq)

definition hit_state :: "'o KSI_TlvTemplate \<Rightarrow> nat \<Rightarrow> generator_state \<Rightarrow> generator_state" where
  "hit_state t i st = st\<lparr>templateHit := (templateHit st)[i := True],
     groupHit := (fst (groupHit st) \<or> IS_FLAG_SET t FLG_LEAST_ONE_G0, snd (groupHit st) \<or> IS_FLAG_SET t FLG_LEAST_ONE_G1),
     maxOrder := (if IS_FLAG_SET t FLG_FIXED_ORDER then i else maxOrder st), firstHit := True, lastHit := IS_FLAG_SET t FLG_LAST,
     oneOf := (fst (oneOf st) \<or> IS_FLAG_SET t FLG_MOST_ONE_G0, snd (oneOf st) \<or> IS_FLAG_SET t FLG_MOST_ONE_G1)\<rparr>"

definition state_allows :: "'o KSI_TlvTemplate \<Rightarrow> nat \<Rightarrow> generator_state \<Rightarrow> bool" where
  "state_allows t i st \<longleftrightarrow>
     \<not> (IS_FLAG_SET t FLG_FIXED_ORDER \<and> i < maxOrder st) \<and> \<not> (IS_FLAG_SET t FLG_FIRST \<and> firstHit st) \<and> \<not> lastHit st
   \<and> \<not> (IS_FLAG_SET t FLG_MOST_ONE_G0 \<and> fst (oneOf st)) \<and> \<not> (IS_FLAG_SET t FLG_MOST_ONE_G1 \<and> snd (oneOf st))"

lemma matchedEntry_eq:
  assumes "getValue t = Some g" "g ob = Ok valuep"
  shows "matchedEntry sub t i tlv ob st =
     (if state_allows t i st \<and> (valuep \<noteq> None \<longrightarrow> multiple t)
      then run_bind (storeElement sub t ob tlv) (\<lambda>(p, tlv). Ok (p, tlv, hit_state t i st)) else Err KSI_INVALID_FORMAT)"
  using assms unfolding matchedEntry_def storeElement_def [symmetric]
  by (cases st) (auto simp: Let_def state_allows_def hit_state_def run_check_def)

lemma sorted_last_max:
  assumes "sorted xs" "i < (case rev xs of [] \<Rightarrow> 0 | m # _ \<Rightarrow> m)"
  shows "\<exists>j\<in>set xs. i < (j :: nat)"
  using assms(2) by (cases xs rule: rev_cases) auto

lemma sorted_last_bound:
  assumes "sorted xs" "\<not> i < (case rev xs of [] \<Rightarrow> 0 | m # _ \<Rightarrow> m)" "j \<in> set xs"
  shows "j \<le> (i :: nat)"
  using assms by (cases xs rule: rev_cases) (auto simp: sorted_append)

lemma state_allows_iff:
  assumes "tracks tmpl hits st" "in_order tmpl hits"
  shows "state_allows (tmpl ! i) i st \<and> (\<not> multiple (tmpl ! i) \<longrightarrow> i \<notin> set hits) \<longleftrightarrow> may_follow tmpl hits i"
proof -
  let ?P = "\<lambda>i. IS_FLAG_SET (tmpl ! i) FLG_FIXED_ORDER"
  have s: "sorted (filter ?P hits)" using assms(2) by (simp add: in_order_def)
  have m: "maxOrder st = (case rev (filter ?P hits) of [] \<Rightarrow> 0 | i # _ \<Rightarrow> i)" using assms(1) by (simp add: tracks_def)
  have o: "\<not> i < maxOrder st \<longleftrightarrow> (\<forall>j\<in>set hits. ?P j \<longrightarrow> j \<le> i)"
    using sorted_last_max [OF s, of i] sorted_last_bound [OF s, of i] unfolding m by fastforce
  show ?thesis using assms(1) o by (auto simp: state_allows_def may_follow_def tracks_def)
qed

lemma tracks_start_skip:
  assumes "tracks tmpl (hits @ [i]) (hit_state t i st)" "i < length tmpl"
  shows "tracks tmpl (hits @ [i]) (hit_state t i (if i = tmplStart st \<and> \<not> multiple (tmpl ! i) then st\<lparr>tmplStart := Suc (tmplStart st)\<rparr> else st))"
proof (cases "i = tmplStart st \<and> \<not> multiple (tmpl ! i)")
  case True
  have "tmplStart (hit_state t i st) = tmplStart st" by (simp add: hit_state_def)
  then have "tracks tmpl (hits @ [i]) ((hit_state t i st)\<lparr>tmplStart := Suc (tmplStart st)\<rparr>)"
    using tracks_skip [OF assms conjunct2 [OF True]] True by simp
  moreover have "(hit_state t i st)\<lparr>tmplStart := Suc (tmplStart st)\<rparr> = hit_state t i (st\<lparr>tmplStart := Suc (tmplStart st)\<rparr>)"
    by (cases st) (simp add: hit_state_def)
  ultimately show ?thesis unfolding if_P [OF True] by simp
next
  case False
  show ?thesis unfolding if_not_P [OF False] by (rule assms(1))
qed

text \<open>The search of the entry for an element.\<close>

lemma entryLoop_none:
  assumes "plain_template tmpl" "\<forall>i<length tmpl. k \<le> i \<longrightarrow> tmpl_tag (tmpl ! i) \<noteq> tlv_tag tlv"
  shows "entryLoop sub tmpl k tlv ob st n = Ok (ob, tlv, st, n)"
  using assms(2)
proof (induction "length tmpl - k" arbitrary: k)
  case 0
  then show ?case using plain_length [OF assms(1)] by (subst entryLoop.simps) simp
next
  case (Suc x)
  then have "entryLoop sub tmpl (Suc k) tlv ob st n = Ok (ob, tlv, st, n)" by simp
  then show ?case using plain_length [OF assms(1)] Suc.prems Suc.hyps(2) by (subst entryLoop.simps) simp
qed

lemma entryLoop_found:
  assumes p: "plain_template tmpl" and i: "i < length tmpl" "tmpl_tag (tmpl ! i) = tlv_tag tlv" "k \<le> i"
  shows "entryLoop sub tmpl k tlv ob st n =
     run_bind (matchedEntry sub (tmpl ! i) i tlv ob (if i = tmplStart st \<and> \<not> multiple (tmpl ! i) then st\<lparr>tmplStart := Suc (tmplStart st)\<rparr> else st))
       (\<lambda>(ob, tlv, st). Ok (ob, tlv, st, Suc n))"
  using i(3)
proof (induction "i - k" arbitrary: k)
  case 0
  have "\<not> IS_FLAG_SET (tmpl ! i) FLG_MORE_DEFS" using p i by (simp add: plain_template_def)
  then show ?case using 0 plain_length [OF p] i by (subst entryLoop.simps) (simp add: Let_def)
next
  case (Suc x)
  have k: "k < length tmpl" "k \<noteq> i" using Suc i by simp_all
  then have "tmpl_tag (tmpl ! k) \<noteq> tlv_tag tlv"
    using plain_tags [OF p k(1) i(1)] i(2) by auto
  moreover note k(1)
  ultimately show ?case using Suc plain_length [OF p] by (subst entryLoop.simps) simp
qed

text \<open>Converting and storing all elements, without the constraints.\<close>

fun store_all ::
    "('o KSI_TlvTemplate \<Rightarrow> 'o \<Rightarrow> KSI_TLV \<Rightarrow> ('o \<times> KSI_TLV) run) \<Rightarrow> 'o KSI_TlvTemplate list \<Rightarrow> nat list \<Rightarrow> KSI_TLV list \<Rightarrow> 'o
       \<Rightarrow> ('o \<times> KSI_TLV list) run" where
  "store_all sub tmpl (i # hits) (tlv # ts) p =
     run_bind (storeElement sub (tmpl ! i) p tlv) (\<lambda>(p, tlv).
     run_bind (store_all sub tmpl hits ts p) (\<lambda>(p, ts). Ok (p, tlv # ts)))"
| "store_all sub tmpl hits ts p = Ok (p, [])"

section \<open>Invariants of extraction\<close>

lemma matchedEntry_Ok:
  assumes "matchedEntry sub t i tlv ob st = Ok (ob', tlv', st')"
  shows "storeElement sub t ob tlv = Ok (ob', tlv') \<and> st' = hit_state t i st \<and> state_allows t i st"
  using assms unfolding matchedEntry_def storeElement_def [symmetric]
  by (cases st) (auto simp: Let_def state_allows_def hit_state_def run_bind_eq_Ok)

lemma tracks_allowed:
  assumes "tracks tmpl hits st" "i < length tmpl" "length tmpl \<le> MAX_TEMPLATE_SIZE" "state_allows (tmpl ! i) i st"
  shows "tracks tmpl (hits @ [i]) (hit_state (tmpl ! i) i st)"
  using assms by (auto simp: tracks_def hit_state_def nth_list_update state_allows_def split: list.splits)

lemma entryLoop_Ok:
  assumes p: "plain_template tmpl" and t: "tracks tmpl hits st"
    and e: "entryLoop sub tmpl (tmplStart st) tlv ob st 0 = Ok (ob', tlv', st', n)"
  shows "(ob' = ob \<and> st' = st) \<or> (\<exists>i<length tmpl. storeElement sub (tmpl ! i) ob tlv = Ok (ob', tlv') \<and> state_allows (tmpl ! i) i st
     \<and> tracks tmpl (hits @ [i]) st')"
proof (cases "\<exists>i<length tmpl. tmplStart st \<le> i \<and> tmpl_tag (tmpl ! i) = tlv_tag tlv")
  case True
  then obtain i where i: "i < length tmpl" "tmpl_tag (tmpl ! i) = tlv_tag tlv" "tmplStart st \<le> i" by blast
  let ?st = "if i = tmplStart st \<and> \<not> multiple (tmpl ! i) then st\<lparr>tmplStart := Suc (tmplStart st)\<rparr> else st"
  from e have "matchedEntry sub (tmpl ! i) i tlv ob ?st = Ok (ob', tlv', st')"
    unfolding entryLoop_found [OF p i] by (auto simp: run_bind_eq_Ok)
  note m' = matchedEntry_Ok [OF this]
  note m = conjunct1 [OF m'] conjunct1 [OF conjunct2 [OF m']] conjunct2 [OF conjunct2 [OF m']]
  moreover have "state_allows (tmpl ! i) i st" using m(3) by (simp add: state_allows_def split: if_splits)
  moreover have "length tmpl \<le> MAX_TEMPLATE_SIZE" using p by (simp add: plain_template_def)
  ultimately have "tracks tmpl (hits @ [i]) st'" using tracks_start_skip [OF tracks_allowed [OF t i(1)] i(1)] by simp
  then show ?thesis using m(1) \<open>state_allows (tmpl ! i) i st\<close> i(1) by blast
next
  case False
  then have "entryLoop sub tmpl (tmplStart st) tlv ob st 0 = Ok (ob, tlv, st, 0)" by (intro entryLoop_none [OF p]) blast
  then show ?thesis using e by simp
qed

text \<open>What every stored element preserves holds of the object in the end, with the entries of its elements known to be
  complete and exclusive.\<close>

definition exclusive :: "'o KSI_TlvTemplate list \<Rightarrow> nat list \<Rightarrow> bool" where
  "exclusive tmpl hits \<longleftrightarrow>
     length (filter (\<lambda>i. IS_FLAG_SET (tmpl ! i) FLG_MOST_ONE_G0) hits) \<le> 1
   \<and> length (filter (\<lambda>i. IS_FLAG_SET (tmpl ! i) FLG_MOST_ONE_G1) hits) \<le> 1"

lemma exclusive_snoc:
  assumes "tracks tmpl hits st" "exclusive tmpl hits" "state_allows (tmpl ! i) i st"
  shows "exclusive tmpl (hits @ [i])"
  using assms unfolding exclusive_def at_most_one_snoc by (auto simp: tracks_def state_allows_def)

lemma generatorLoop_invariant:
  assumes p: "plain_template tmpl"
    and step: "\<And>hits ob i tlv ob' tlv'. I hits ob \<Longrightarrow> i < length tmpl \<Longrightarrow> storeElement sub (tmpl ! i) ob tlv = Ok (ob', tlv')
      \<Longrightarrow> exclusive tmpl (hits @ [i]) \<Longrightarrow> I (hits @ [i]) ob'"
    and "tracks tmpl hits st" "exclusive tmpl hits" "I hits ob" "generatorLoop sub tmpl gen ob st = Ok (q, st', left)"
  shows "\<exists>hits'. I hits' q \<and> tracks tmpl hits' st' \<and> exclusive tmpl hits'"
  using assms(3-)
proof (induction gen arbitrary: hits st ob left)
  case (Cons g gs)
  obtain tlv ob1 tlv1 st1 n left1 where g: "entryLoop sub tmpl (tmplStart st) tlv ob st 0 = Ok (ob1, tlv1, st1, n)"
    "generatorLoop sub tmpl gs ob1 st1 = Ok (q, st', left1)"
    using Cons.prems(4) by (auto simp: run_bind_eq_Ok)
  from entryLoop_Ok [OF p Cons.prems(1) g(1)] show ?case
  proof
    assume "ob1 = ob \<and> st1 = st"
    then show ?thesis using Cons.IH [OF Cons.prems(1-3)] g(2) by simp
  next
    assume "\<exists>i<length tmpl. storeElement sub (tmpl ! i) ob tlv = Ok (ob1, tlv1) \<and> state_allows (tmpl ! i) i st \<and> tracks tmpl (hits @ [i]) st1"
    then obtain i where i: "i < length tmpl" "storeElement sub (tmpl ! i) ob tlv = Ok (ob1, tlv1)" "state_allows (tmpl ! i) i st"
      "tracks tmpl (hits @ [i]) st1" by blast
    have x: "exclusive tmpl (hits @ [i])" by (rule exclusive_snoc [OF Cons.prems(1,2) i(3)])
    show ?thesis by (rule Cons.IH [OF i(4) x step [OF Cons.prems(3) i(1,2) x] g(2)])
  qed
qed auto

lemma missing_complete:
  assumes "plain_template tmpl" "tracks tmpl hits st"
  shows "(\<exists>i<getTemplateLength tmpl. missingEntry tmpl st i) \<longleftrightarrow> \<not> is_complete tmpl hits"
  using assms(2) unfolding plain_length [OF assms(1)] by (auto simp: missingEntry_def is_complete_def tracks_def)

lemma extractWith_invariant:
  assumes "extractWith sub ob gen tmpl = Ok (q, left)" "plain_template tmpl" "I [] ob"
    and "\<And>hits ob i tlv ob' tlv'. I hits ob \<Longrightarrow> i < length tmpl \<Longrightarrow> storeElement sub (tmpl ! i) ob tlv = Ok (ob', tlv')
      \<Longrightarrow> exclusive tmpl (hits @ [i]) \<Longrightarrow> I (hits @ [i]) ob'"
  shows "\<exists>hits. I hits q \<and> is_complete tmpl hits \<and> exclusive tmpl hits"
proof -
  obtain st where st: "generatorLoop sub tmpl gen ob generator_start = Ok (q, st, left)"
    "\<not> (\<exists>i<getTemplateLength tmpl. missingEntry tmpl st i)"
    using assms(1) by (auto simp: extractWith_def run_bind_eq_Ok)
  have t: "tracks tmpl [] generator_start" using assms(2) by (intro tracks_start) (simp add: plain_template_def)
  have "\<exists>hits. I hits q \<and> tracks tmpl hits st \<and> exclusive tmpl hits"
    by (rule generatorLoop_invariant [OF assms(2) _ t _ _ st(1)]) (auto simp: exclusive_def intro: assms(3) dest: assms(4))
  then obtain hits where "I hits q" "tracks tmpl hits st" "exclusive tmpl hits" by blast
  then show ?thesis using missing_complete [OF assms(2)] st(2) by blast
qed

section \<open>Objects with fields\<close>

text \<open>What the parser relies on in the accessors of a template: reading a field does not fail, storing an element sets its
  field and leaves the fields of the other entries as they are.  \<open>valid\<close> are the objects of the template's type.\<close>

definition has_value :: "'o KSI_TlvTemplate \<Rightarrow> 'o \<Rightarrow> bool" where
  "has_value t p \<longleftrightarrow> (\<exists>g v. getValue t = Some g \<and> g p = Ok (Some v))"

locale template_accessors =
  fixes sub :: "'o KSI_TlvTemplate \<Rightarrow> 'o \<Rightarrow> KSI_TLV \<Rightarrow> ('o \<times> KSI_TLV) run" and tmpl :: "'o KSI_TlvTemplate list" and valid :: "'o \<Rightarrow> bool"
  assumes plain: "plain_template tmpl"
    and readable: "t \<in> set tmpl \<Longrightarrow> valid p \<Longrightarrow> \<exists>g v. getValue t = Some g \<and> g p = Ok v"
    and stored_valid: "t \<in> set tmpl \<Longrightarrow> valid p \<Longrightarrow> storeElement sub t p tlv = Ok (p', tlv') \<Longrightarrow> valid p'"
    and stored_value: "t \<in> set tmpl \<Longrightarrow> valid p \<Longrightarrow> storeElement sub t p tlv = Ok (p', tlv') \<Longrightarrow> \<not> multiple t \<Longrightarrow> has_value t p'"
    and stored_others: "t \<in> set tmpl \<Longrightarrow> u \<in> set tmpl \<Longrightarrow> t \<noteq> u \<Longrightarrow> valid p \<Longrightarrow> storeElement sub t p tlv = Ok (p', tlv') \<Longrightarrow> \<not> multiple u
      \<Longrightarrow> has_value u p' = has_value u p"
begin

definition holds :: "nat list \<Rightarrow> 'o \<Rightarrow> bool" where
  "holds hits p \<longleftrightarrow> valid p \<and> (\<forall>i<length tmpl. \<not> multiple (tmpl ! i) \<longrightarrow> (has_value (tmpl ! i) p \<longleftrightarrow> i \<in> set hits))"

lemma holds_stored:
  assumes "holds hits p" "i < length tmpl" "storeElement sub (tmpl ! i) p tlv = Ok (p', tlv')"
  shows "holds (hits @ [i]) p'"
proof -
  have v: "valid p" using assms(1) by (simp add: holds_def)
  have "has_value (tmpl ! j) p' \<longleftrightarrow> j \<in> set (hits @ [i])" if j: "j < length tmpl" "\<not> multiple (tmpl ! j)" for j
  proof (cases "j = i")
    case True
    then show ?thesis using stored_value [OF nth_mem [OF assms(2)] v assms(3)] j by simp
  next
    case False
    then have "tmpl ! i \<noteq> tmpl ! j" using plain_tags [OF plain assms(2) j(1)] by auto
    then show ?thesis using stored_others [OF nth_mem [OF assms(2)] nth_mem [OF j(1)] _ v assms(3) j(2)] assms(1) j False
      by (simp add: holds_def)
  qed
  then show ?thesis using stored_valid [OF nth_mem [OF assms(2)] v assms(3)] by (simp add: holds_def)
qed

text \<open>The next critical element: stored when it may follow, refused otherwise.\<close>

lemma element_step:
  assumes t: "tracks tmpl hits st" "in_order tmpl hits" and h: "holds hits p"
  shows "(case entry_of tmpl tlv of
     None \<Rightarrow> entryLoop sub tmpl (tmplStart st) tlv p st 0 = Ok (p, tlv, st, 0)
   | Some i \<Rightarrow>
       if may_follow tmpl hits i then
         (\<exists>st'. tracks tmpl (hits @ [i]) st' \<and>
            entryLoop sub tmpl (tmplStart st) tlv p st 0 = run_bind (storeElement sub (tmpl ! i) p tlv) (\<lambda>(p, tlv). Ok (p, tlv, st', 1)))
       else entryLoop sub tmpl (tmplStart st) tlv p st 0 = Err KSI_INVALID_FORMAT
          \<or> entryLoop sub tmpl (tmplStart st) tlv p st 0 = Ok (p, tlv, st, 0))"
proof (cases "entry_of tmpl tlv")
  case None
  then have "entryLoop sub tmpl (tmplStart st) tlv p st 0 = Ok (p, tlv, st, 0)"
    by (intro entryLoop_none [OF plain]) (simp add: entry_of_None)
  then show ?thesis using None by simp
next
  case (Some i)
  then have i: "i < length tmpl" "tmpl_tag (tmpl ! i) = tlv_tag tlv" by (simp_all add: entry_of_Some [OF plain])
  let ?st = "if i = tmplStart st \<and> \<not> multiple (tmpl ! i) then st\<lparr>tmplStart := Suc (tmplStart st)\<rparr> else st"
  have len: "length tmpl \<le> MAX_TEMPLATE_SIZE" using plain by (simp add: plain_template_def)
  show ?thesis
  proof (cases "i < tmplStart st")
    case True
    then have "\<not> multiple (tmpl ! i)" "i \<in> set hits" using t(1) by (auto simp: tracks_def)
    then have "\<not> may_follow tmpl hits i" by (simp add: may_follow_def)
    moreover have "entryLoop sub tmpl (tmplStart st) tlv p st 0 = Ok (p, tlv, st, 0)"
      using True plain_tags [OF plain _ i(1)] i(2) by (intro entryLoop_none [OF plain]) (metis leD)
    ultimately show ?thesis using Some by simp
  next
    case False
    obtain g v where g: "getValue (tmpl ! i) = Some g" "g p = Ok v"
      using readable [OF nth_mem [OF i(1)], of p] h by (auto simp: holds_def)
    have hv: "\<not> multiple (tmpl ! i) \<Longrightarrow> v \<noteq> None \<longleftrightarrow> i \<in> set hits" using h i(1) g by (auto simp: holds_def has_value_def)
    have "state_allows (tmpl ! i) i ?st = state_allows (tmpl ! i) i st" by (simp add: state_allows_def)
    then have allows: "state_allows (tmpl ! i) i ?st \<and> (v \<noteq> None \<longrightarrow> multiple (tmpl ! i)) \<longleftrightarrow> may_follow tmpl hits i"
      using state_allows_iff [OF t, of i] hv by auto
    have e: "entryLoop sub tmpl (tmplStart st) tlv p st 0 =
        (if may_follow tmpl hits i then run_bind (storeElement sub (tmpl ! i) p tlv) (\<lambda>(p, tlv). Ok (p, tlv, hit_state (tmpl ! i) i ?st, 1))
         else Err KSI_INVALID_FORMAT)"
      using entryLoop_found [OF plain i, of "tmplStart st"] False matchedEntry_eq [OF g, of sub i tlv ?st] allows
      by (simp add: run_bind_assoc case_prod_unfold)
    have "tracks tmpl (hits @ [i]) (hit_state (tmpl ! i) i ?st)" if "may_follow tmpl hits i"
      using tracks_start_skip [OF tracks_allowed [OF t(1) i(1) len conjunct1 [OF state_allows_iff [OF t, THEN iffD2, OF that]]] i(1)] .
    then show ?thesis using Some e by auto
  qed
qed

lemma generatorLoop_follows:
  assumes "tracks tmpl hits st" "in_order tmpl hits" "holds hits p" "\<forall>t\<in>set ts. \<not> isNonCritical t"
    and "generatorLoop sub tmpl (map Ok ts) p st = Ok (q, st', left)"
  shows "\<exists>new. map (entry_of tmpl) ts = map Some new \<and> in_order tmpl (hits @ new) \<and> store_all sub tmpl new ts p = Ok (q, left)
     \<and> tracks tmpl (hits @ new) st'"
  using assms
proof (induction ts arbitrary: hits st p left)
  case Nil
  then show ?case by (intro exI [of _ "[]"]) simp
next
  case (Cons tlv ts)
  note step = element_step [OF Cons.prems(1-3), of tlv]
  have c: "\<not> isNonCritical tlv" using Cons.prems(4) by simp
  obtain i where i: "entry_of tmpl tlv = Some i" "may_follow tmpl hits i"
    using step Cons.prems(5) c by (cases "entry_of tmpl tlv") (auto split: if_splits)
  then obtain st1 where st1: "tracks tmpl (hits @ [i]) st1"
    "entryLoop sub tmpl (tmplStart st) tlv p st 0 = run_bind (storeElement sub (tmpl ! i) p tlv) (\<lambda>(p, tlv). Ok (p, tlv, st1, 1))"
    using step by auto
  then obtain p1 tlv1 left1 where p1: "storeElement sub (tmpl ! i) p tlv = Ok (p1, tlv1)" "left = tlv1 # left1"
    "generatorLoop sub tmpl (map Ok ts) p1 st1 = Ok (q, st', left1)"
    using Cons.prems(5) by (auto simp: run_bind_eq_Ok)
  have "holds (hits @ [i]) p1" using holds_stored [OF Cons.prems(3) _ p1(1)] i(1) by (simp add: entry_of_Some [OF plain])
  moreover have "in_order tmpl (hits @ [i])" using Cons.prems(2) i(2) by (simp add: in_order_snoc)
  ultimately obtain new where "map (entry_of tmpl) ts = map Some new" "in_order tmpl ((hits @ [i]) @ new)"
    "store_all sub tmpl new ts p1 = Ok (q, left1)" "tracks tmpl ((hits @ [i]) @ new) st'"
    using Cons.IH [OF st1(1) _ _ _ p1(3)] Cons.prems(4) by auto
  then show ?case using i(1) p1(1,2) by (intro exI [of _ "i # new"]) simp
qed

lemma generatorLoop_accepts:
  assumes "tracks tmpl hits st" "in_order tmpl (hits @ new)" "holds hits p" "\<forall>t\<in>set ts. \<not> isNonCritical t"
    and "map (entry_of tmpl) ts = map Some new" "store_all sub tmpl new ts p = Ok (q, left)"
  shows "\<exists>st'. generatorLoop sub tmpl (map Ok ts) p st = Ok (q, st', left) \<and> tracks tmpl (hits @ new) st'"
  using assms
proof (induction ts arbitrary: hits st p new left)
  case (Cons tlv ts)
  obtain i new' where n: "new = i # new'" "entry_of tmpl tlv = Some i" "map (entry_of tmpl) ts = map Some new'"
    using Cons.prems(5) by (cases new) auto
  obtain p1 tlv1 left1 where p1: "storeElement sub (tmpl ! i) p tlv = Ok (p1, tlv1)" "store_all sub tmpl new' ts p1 = Ok (q, left1)" "left = tlv1 # left1"
    using Cons.prems(6) n(1) by (auto simp: run_bind_eq_Ok)
  have o: "in_order tmpl ((hits @ [i]) @ new')" using Cons.prems(2) n(1) by simp
  then have m: "in_order tmpl hits" "may_follow tmpl hits i" using in_order_prefix [OF o] by (simp_all add: in_order_snoc)
  obtain st1 where st1: "tracks tmpl (hits @ [i]) st1"
    "entryLoop sub tmpl (tmplStart st) tlv p st 0 = run_bind (storeElement sub (tmpl ! i) p tlv) (\<lambda>(p, tlv). Ok (p, tlv, st1, 1))"
    using element_step [OF Cons.prems(1) m(1) Cons.prems(3), of tlv] n(2) m(2) by auto
  have "holds (hits @ [i]) p1" using holds_stored [OF Cons.prems(3) _ p1(1)] n(2) by (simp add: entry_of_Some [OF plain])
  then obtain st' where "generatorLoop sub tmpl (map Ok ts) p1 st1 = Ok (q, st', left1)" "tracks tmpl ((hits @ [i]) @ new') st'"
    using Cons.IH [OF st1(1) o _ _ n(3) p1(2)] Cons.prems(4) by auto
  then show ?case using st1(2) p1(1,3) n(1) by simp
qed auto

lemma extractWith_iff:
  assumes "valid p" "\<forall>t\<in>set tmpl. \<not> has_value t p" "\<forall>t\<in>set ts. \<not> isNonCritical t"
  shows "extractWith sub p (map Ok ts) tmpl = Ok (q, left) \<longleftrightarrow>
     (\<exists>hits. map (entry_of tmpl) ts = map Some hits \<and> in_order tmpl hits \<and> is_complete tmpl hits \<and> store_all sub tmpl hits ts p = Ok (q, left))"
proof -
  have len: "tmpl \<noteq> []" "length tmpl \<le> MAX_TEMPLATE_SIZE" using plain by (simp_all add: plain_template_def)
  have t: "tracks tmpl [] generator_start" by (rule tracks_start [OF len(2)])
  have h: "holds [] p" using assms(1,2) by (simp add: holds_def)
  have e: "extractWith sub p (map Ok ts) tmpl = Ok (q, left) \<longleftrightarrow>
      (\<exists>st. generatorLoop sub tmpl (map Ok ts) p generator_start = Ok (q, st, left) \<and> \<not> (\<exists>i<getTemplateLength tmpl. missingEntry tmpl st i))"
    using len plain_length [OF plain] by (auto simp: extractWith_def run_bind_eq_Ok)
  show ?thesis
  proof
    assume "extractWith sub p (map Ok ts) tmpl = Ok (q, left)"
    then show "\<exists>hits. map (entry_of tmpl) ts = map Some hits \<and> in_order tmpl hits \<and> is_complete tmpl hits \<and> store_all sub tmpl hits ts p = Ok (q, left)"
      using generatorLoop_follows [OF t in_order_Nil h assms(3)] missing_complete [OF plain] unfolding e by fastforce
  next
    assume "\<exists>hits. map (entry_of tmpl) ts = map Some hits \<and> in_order tmpl hits \<and> is_complete tmpl hits \<and> store_all sub tmpl hits ts p = Ok (q, left)"
    then obtain hits where g: "map (entry_of tmpl) ts = map Some hits" "in_order tmpl hits" "is_complete tmpl hits" "store_all sub tmpl hits ts p = Ok (q, left)"
      by blast
    from generatorLoop_accepts [OF t _ h assms(3) g(1,4)] g(2)
    obtain st where "generatorLoop sub tmpl (map Ok ts) p generator_start = Ok (q, st, left)" "tracks tmpl hits st" by auto
    then show "extractWith sub p (map Ok ts) tmpl = Ok (q, left)" unfolding e using missing_complete [OF plain] g(3) by blast
  qed
qed

end

end
