(* ===== verification/SignatureTemplates.thy ===== *)
theory SignatureTemplates
  imports TemplateGrammar SignatureData MetaData
begin

text \<open>
  The templates of \<^verbatim>\<open>src/src/ksi/tlv_template.c\<close> and \<^verbatim>\<open>signature_builder.c\<close> from which a signature is read and written, with
  the macros of \<^verbatim>\<open>tlv_template.h\<close> that build their entries and the converters of \<^verbatim>\<open>hashchain.c\<close>, \<^verbatim>\<open>types.c\<close> and
  \<^verbatim>\<open>publicationsfile.c\<close> they refer to.

  \<open>ksi_object\<close> are the objects behind a \<^verbatim>\<open>void *\<close> pointer.  An accessor that gets an object of another type than its own
  reads memory it must not, which is the outcome \<open>Fault\<close>.
\<close>

section \<open>Objects\<close>

record KSI_AggregationAuthRec =
  aar_aggregationTime :: "KSI_Integer option"
  chainIndexesList :: "KSI_Integer list option"
  aar_inputHash :: "KSI_DataHash option"
  aar_signatureData :: "KSI_PKISignedData option"

text \<open>The signature object with the record that no rule reads and the TLV it was read from.\<close>

record KSI_SignatureObject = KSI_Signature +
  aggregationAuthRec :: "KSI_AggregationAuthRec option"
  baseTlv :: "KSI_TLV option"

datatype ksi_object =
    IntegerO KSI_Integer | OctetStringO KSI_OctetString | Utf8StringO KSI_Utf8String | DataHashO KSI_DataHash
  | MetaDataElementO KSI_TlvElement | ListO "ksi_object list" | PublicationDataO KSI_PublicationData
  | PublicationRecordO KSI_PublicationRecord | HashChainLinkO KSI_HashChainLink
  | AggregationHashChainO KSI_AggregationHashChain | CalendarHashChainO KSI_CalendarHashChain
  | PKISignedDataO KSI_PKISignedData | CalendarAuthRecO KSI_CalendarAuthRec | AggregationAuthRecO KSI_AggregationAuthRec
  | RFC3161O KSI_RFC3161 | SignatureO KSI_SignatureObject

text \<open>A C type: how its values become objects and which value an object is.\<close>

datatype 'a ctype = CType (wrap: "'a \<Rightarrow> ksi_object") (unwrap: "ksi_object \<Rightarrow> 'a option")

definition ty_Integer :: "KSI_Integer ctype" where
  "ty_Integer = CType IntegerO (\<lambda>x. case x of IntegerO v \<Rightarrow> Some v | _ \<Rightarrow> None)"
definition ty_OctetString :: "KSI_OctetString ctype" where
  "ty_OctetString = CType OctetStringO (\<lambda>x. case x of OctetStringO v \<Rightarrow> Some v | _ \<Rightarrow> None)"
definition ty_Utf8String :: "KSI_Utf8String ctype" where
  "ty_Utf8String = CType Utf8StringO (\<lambda>x. case x of Utf8StringO v \<Rightarrow> Some v | _ \<Rightarrow> None)"
definition ty_DataHash :: "KSI_DataHash ctype" where
  "ty_DataHash = CType DataHashO (\<lambda>x. case x of DataHashO v \<Rightarrow> Some v | _ \<Rightarrow> None)"
definition ty_MetaDataElement :: "KSI_TlvElement ctype" where
  "ty_MetaDataElement = CType MetaDataElementO (\<lambda>x. case x of MetaDataElementO v \<Rightarrow> Some v | _ \<Rightarrow> None)"
definition ty_PublicationData :: "KSI_PublicationData ctype" where
  "ty_PublicationData = CType PublicationDataO (\<lambda>x. case x of PublicationDataO v \<Rightarrow> Some v | _ \<Rightarrow> None)"
definition ty_PublicationRecord :: "KSI_PublicationRecord ctype" where
  "ty_PublicationRecord = CType PublicationRecordO (\<lambda>x. case x of PublicationRecordO v \<Rightarrow> Some v | _ \<Rightarrow> None)"
definition ty_HashChainLink :: "KSI_HashChainLink ctype" where
  "ty_HashChainLink = CType HashChainLinkO (\<lambda>x. case x of HashChainLinkO v \<Rightarrow> Some v | _ \<Rightarrow> None)"
definition ty_AggregationHashChain :: "KSI_AggregationHashChain ctype" where
  "ty_AggregationHashChain = CType AggregationHashChainO (\<lambda>x. case x of AggregationHashChainO v \<Rightarrow> Some v | _ \<Rightarrow> None)"
definition ty_CalendarHashChain :: "KSI_CalendarHashChain ctype" where
  "ty_CalendarHashChain = CType CalendarHashChainO (\<lambda>x. case x of CalendarHashChainO v \<Rightarrow> Some v | _ \<Rightarrow> None)"
definition ty_PKISignedData :: "KSI_PKISignedData ctype" where
  "ty_PKISignedData = CType PKISignedDataO (\<lambda>x. case x of PKISignedDataO v \<Rightarrow> Some v | _ \<Rightarrow> None)"
definition ty_CalendarAuthRec :: "KSI_CalendarAuthRec ctype" where
  "ty_CalendarAuthRec = CType CalendarAuthRecO (\<lambda>x. case x of CalendarAuthRecO v \<Rightarrow> Some v | _ \<Rightarrow> None)"
definition ty_AggregationAuthRec :: "KSI_AggregationAuthRec ctype" where
  "ty_AggregationAuthRec = CType AggregationAuthRecO (\<lambda>x. case x of AggregationAuthRecO v \<Rightarrow> Some v | _ \<Rightarrow> None)"
definition ty_RFC3161 :: "KSI_RFC3161 ctype" where
  "ty_RFC3161 = CType RFC3161O (\<lambda>x. case x of RFC3161O v \<Rightarrow> Some v | _ \<Rightarrow> None)"
definition ty_Signature :: "KSI_SignatureObject ctype" where
  "ty_Signature = CType SignatureO (\<lambda>x. case x of SignatureO v \<Rightarrow> Some v | _ \<Rightarrow> None)"

definition ty_List :: "'a ctype \<Rightarrow> 'a list ctype" where
  "ty_List ty = CType (\<lambda>l. ListO (map (wrap ty) l)) (\<lambda>x. case x of ListO l \<Rightarrow> those (map (unwrap ty) l) | _ \<Rightarrow> None)"

lemmas ty_defs = ty_Integer_def ty_OctetString_def ty_Utf8String_def ty_DataHash_def ty_MetaDataElement_def ty_PublicationData_def
  ty_PublicationRecord_def ty_HashChainLink_def ty_AggregationHashChain_def ty_CalendarHashChain_def ty_PKISignedData_def
  ty_CalendarAuthRec_def ty_AggregationAuthRec_def ty_RFC3161_def ty_Signature_def

text \<open>\<^verbatim>\<open>KSI_IMPLEMENT_GETTER\<close> and \<^verbatim>\<open>KSI_IMPLEMENT_SETTER\<close> on objects.\<close>

definition get_field :: "'r ctype \<Rightarrow> 'v ctype \<Rightarrow> ('r \<Rightarrow> 'v option) \<Rightarrow> ksi_object \<Rightarrow> ksi_object option run" where
  "get_field tr tv field ob = (case unwrap tr ob of None \<Rightarrow> Fault | Some r \<Rightarrow> Ok (map_option (wrap tv) (field r)))"

definition set_field :: "'r ctype \<Rightarrow> 'v ctype \<Rightarrow> (('v option \<Rightarrow> 'v option) \<Rightarrow> 'r \<Rightarrow> 'r) \<Rightarrow> ksi_object \<Rightarrow> ksi_object \<Rightarrow> ksi_object run" where
  "set_field tr tv upd ob v =
     (case (unwrap tr ob, unwrap tv v) of (Some r, Some x) \<Rightarrow> Ok (wrap tr (upd (\<lambda>_. Some x) r)) | _ \<Rightarrow> Fault)"

section \<open>The macros\<close>

text \<open>The converters of a type: from a TLV, and to one with a given tag and flags.\<close>

type_synonym from_fun = "KSI_TLV \<Rightarrow> (ksi_object \<times> KSI_TLV) run"
type_synonym to_fun = "ksi_object \<Rightarrow> u32 \<Rightarrow> bool \<Rightarrow> bool \<Rightarrow> KSI_TLV run"

definition from_value :: "'a ctype \<Rightarrow> (KSI_TLV \<Rightarrow> 'a ksi_result \<times> KSI_TLV) \<Rightarrow> from_fun" where
  "from_value ty f tlv = (let (r, tlv) = f tlv in run_bind (run_of r) (\<lambda>x. Ok (wrap ty x, tlv)))"

definition to_value :: "'a ctype \<Rightarrow> ('a option \<Rightarrow> u32 \<Rightarrow> bool \<Rightarrow> bool \<Rightarrow> KSI_TLV ksi_result) \<Rightarrow> to_fun" where
  "to_value ty f ob tg nc fwd = (case unwrap ty ob of None \<Rightarrow> Fault | Some x \<Rightarrow> run_of (f (Some x) tg nc fwd))"

definition flags :: "tmpl_flag list \<Rightarrow> u32" where
  "flags fs = foldr (\<lambda>f w. flag_value f OR w) fs 0"

definition KSI_TLV_OBJECT ::
    "u32 \<Rightarrow> tmpl_flag list \<Rightarrow> (ksi_object \<Rightarrow> ksi_object option run) \<Rightarrow> (ksi_object \<Rightarrow> ksi_object \<Rightarrow> ksi_object run)
       \<Rightarrow> from_fun \<Rightarrow> to_fun \<Rightarrow> ksi_object KSI_TlvTemplate" where
  "KSI_TLV_OBJECT tg flg gttr sttr from to =
     KSI_TlvTemplate KSI_TLV_TEMPLATE_OBJECT tg (flags flg) (Some gttr) (Some sttr) Fault [] None False None None (\<lambda>_ _. Fault)
       (Some from) (Some to) None"

text \<open>The template of a composite object is used for its description only.\<close>

definition KSI_TLV_COMPOSITE_OBJECT ::
    "u32 \<Rightarrow> tmpl_flag list \<Rightarrow> (ksi_object \<Rightarrow> ksi_object option run) \<Rightarrow> (ksi_object \<Rightarrow> ksi_object \<Rightarrow> ksi_object run)
       \<Rightarrow> from_fun \<Rightarrow> to_fun \<Rightarrow> ksi_object KSI_TlvTemplate list \<Rightarrow> ksi_object KSI_TlvTemplate" where
  "KSI_TLV_COMPOSITE_OBJECT tg flg gttr sttr from to tmpl =
     KSI_TlvTemplate KSI_TLV_TEMPLATE_OBJECT tg (flags flg) (Some gttr) (Some sttr) Fault tmpl None False None None (\<lambda>_ _. Fault)
       (Some from) (Some to) None"

definition KSI_TLV_UTF8_STRING where
  "KSI_TLV_UTF8_STRING tg flg gttr sttr =
     KSI_TLV_OBJECT tg flg gttr sttr (from_value ty_Utf8String KSI_Utf8String_fromTlv) (to_value ty_Utf8String KSI_Utf8String_toTlv)"

definition KSI_TLV_INTEGER where
  "KSI_TLV_INTEGER tg flg gttr sttr =
     KSI_TLV_OBJECT tg flg gttr sttr (from_value ty_Integer KSI_Integer_fromTlv) (to_value ty_Integer KSI_Integer_toTlv)"

definition KSI_TLV_OCTET_STRING where
  "KSI_TLV_OCTET_STRING tg flg gttr sttr =
     KSI_TLV_OBJECT tg flg gttr sttr (from_value ty_OctetString KSI_OctetString_fromTlv) (to_value ty_OctetString KSI_OctetString_toTlv)"

definition KSI_TLV_IMPRINT where
  "KSI_TLV_IMPRINT tg flg gttr sttr =
     KSI_TLV_OBJECT tg flg gttr sttr (from_value ty_DataHash KSI_DataHash_fromTlv) (to_value ty_DataHash KSI_DataHash_toTlv)"

text \<open>Lists of objects; their functions are those of \<^verbatim>\<open>KSI_List\<close>.\<close>

definition list_append :: "ksi_object \<Rightarrow> ksi_object \<Rightarrow> ksi_object run" where
  "list_append l v = (case l of ListO xs \<Rightarrow> Ok (ListO (xs @ [v])) | _ \<Rightarrow> Fault)"

definition obj_list_length :: "ksi_object \<Rightarrow> nat" where
  "obj_list_length l = (case l of ListO xs \<Rightarrow> length xs | _ \<Rightarrow> 0)"

definition list_elementAt :: "ksi_object \<Rightarrow> nat \<Rightarrow> ksi_object run" where
  "list_elementAt l i =
     (case l of ListO xs \<Rightarrow> run_check (i \<ge> length xs) KSI_BUFFER_OVERFLOW (Ok (xs ! i)) | _ \<Rightarrow> Fault)"

definition KSI_TLV_OBJECT_LIST ::
    "u32 \<Rightarrow> tmpl_flag list \<Rightarrow> (ksi_object \<Rightarrow> ksi_object option run) \<Rightarrow> (ksi_object \<Rightarrow> ksi_object \<Rightarrow> ksi_object run)
       \<Rightarrow> from_fun \<Rightarrow> to_fun \<Rightarrow> ksi_object KSI_TlvTemplate" where
  "KSI_TLV_OBJECT_LIST tg flg gttr sttr from to =
     KSI_TlvTemplate KSI_TLV_TEMPLATE_OBJECT tg (flags flg) (Some gttr) (Some sttr) Fault [] (Some list_append) True
       (Some (Ok (ListO []))) (Some obj_list_length) list_elementAt (Some from) (Some to) None"

definition KSI_TLV_INTEGER_LIST where
  "KSI_TLV_INTEGER_LIST tg flg gttr sttr =
     KSI_TLV_OBJECT_LIST tg flg gttr sttr (from_value ty_Integer KSI_Integer_fromTlv) (to_value ty_Integer KSI_Integer_toTlv)"

definition KSI_TLV_COMPOSITE ::
    "u32 \<Rightarrow> tmpl_flag list \<Rightarrow> (ksi_object \<Rightarrow> ksi_object option run) \<Rightarrow> (ksi_object \<Rightarrow> ksi_object \<Rightarrow> ksi_object run)
       \<Rightarrow> ksi_object \<Rightarrow> ksi_object KSI_TlvTemplate list \<Rightarrow> ksi_object KSI_TlvTemplate" where
  "KSI_TLV_COMPOSITE tg flg gttr sttr sub_new sub_template =
     KSI_TlvTemplate KSI_TLV_TEMPLATE_COMPOSITE tg (flags flg) (Some gttr) (Some sttr) (Ok sub_new) sub_template None False None None
       (\<lambda>_ _. Fault) None None None"

definition KSI_TLV_COMPOSITE_LIST ::
    "u32 \<Rightarrow> tmpl_flag list \<Rightarrow> (ksi_object \<Rightarrow> ksi_object option run) \<Rightarrow> (ksi_object \<Rightarrow> ksi_object \<Rightarrow> ksi_object run)
       \<Rightarrow> ksi_object \<Rightarrow> ksi_object KSI_TlvTemplate list \<Rightarrow> ksi_object KSI_TlvTemplate" where
  "KSI_TLV_COMPOSITE_LIST tg flg gttr sttr sub_new sub_template =
     KSI_TlvTemplate KSI_TLV_TEMPLATE_COMPOSITE tg (flags flg) (Some gttr) (Some sttr) (Ok sub_new) sub_template (Some list_append) True
       (Some (Ok (ListO []))) (Some obj_list_length) list_elementAt None None None"

abbreviation FLG_MANDATORY_MOST_ONE_G0 :: "tmpl_flag list" where
  "FLG_MANDATORY_MOST_ONE_G0 \<equiv> [FLG_LEAST_ONE_G0, FLG_MOST_ONE_G0]"

section \<open>Metadata\<close>

definition metaData_get ::
    "'v ctype \<Rightarrow> (KSI_TlvElement \<Rightarrow> u32 \<Rightarrow> ('v option \<times> KSI_TlvElement) run) \<Rightarrow> u32 \<Rightarrow> ksi_object \<Rightarrow> ksi_object option run" where
  "metaData_get tv get tg ob =
     (case unwrap ty_MetaDataElement ob of None \<Rightarrow> Fault
      | Some m \<Rightarrow> run_bind (get m tg) (\<lambda>(v, m). Ok (map_option (wrap tv) v)))"

definition metaData_set ::
    "'v ctype \<Rightarrow> (KSI_TlvElement \<Rightarrow> u32 \<Rightarrow> 'v option \<Rightarrow> KSI_TlvElement run) \<Rightarrow> u32 \<Rightarrow> ksi_object \<Rightarrow> ksi_object \<Rightarrow> ksi_object run" where
  "metaData_set tv put tg ob v =
     (case (unwrap ty_MetaDataElement ob, unwrap tv v) of
        (Some m, Some x) \<Rightarrow> run_bind (put m tg (Some x)) (\<lambda>m. Ok (wrap ty_MetaDataElement m)) | _ \<Rightarrow> Fault)"

definition KSI_MetaDataElement_template :: "ksi_object KSI_TlvTemplate list" where
  "KSI_MetaDataElement_template =
     [KSI_TLV_OCTET_STRING 0x1E [FLG_FIRST] (metaData_get ty_OctetString KSI_TlvElement_getOctetString 0x1E)
        (metaData_set ty_OctetString KSI_TlvElement_setOctetString 0x1E),
      KSI_TLV_UTF8_STRING 0x01 [FLG_MANDATORY] (metaData_get ty_Utf8String KSI_TlvElement_getUtf8String 0x01)
        (metaData_set ty_Utf8String KSI_TlvElement_setUtf8String 0x01),
      KSI_TLV_UTF8_STRING 0x02 [] (metaData_get ty_Utf8String KSI_TlvElement_getUtf8String 0x02)
        (metaData_set ty_Utf8String KSI_TlvElement_setUtf8String 0x02),
      KSI_TLV_INTEGER 0x03 [] (metaData_get ty_Integer KSI_TlvElement_getInteger 0x03)
        (metaData_set ty_Integer KSI_TlvElement_setInteger 0x03),
      KSI_TLV_INTEGER 0x04 [] (metaData_get ty_Integer KSI_TlvElement_getInteger 0x04)
        (metaData_set ty_Integer KSI_TlvElement_setInteger 0x04)]"

definition metaDataElementTlv_verify :: "KSI_TLV option \<Rightarrow> KSI_TLV run" where
  "metaDataElementTlv_verify tlv =
     run_ptr tlv KSI_INVALID_ARGUMENT (\<lambda>tlv.
     run_bind (KSI_TlvTemplate_extract (Some (MetaDataElementO KSI_MetaDataElement_new)) (Some tlv) (Some KSI_MetaDataElement_template))
       (\<lambda>(tmp, tlv). Ok tlv))"

text \<open>The verification leaves the TLV split into its elements, so that its raw value is put together again.\<close>

definition KSI_MetaDataElement_fromTlv :: "KSI_TLV option \<Rightarrow> (KSI_TlvElement \<times> KSI_TLV) run" where
  "KSI_MetaDataElement_fromTlv tlv =
     run_ptr tlv KSI_INVALID_ARGUMENT (\<lambda>tlv.
     run_bind (metaDataElementTlv_verify (Some tlv)) (\<lambda>tlv.
     (case KSI_TLV_getRawValue tlv of
        (Some e, raw, tlv) \<Rightarrow> Err e
      | (None, raw, tlv) \<Rightarrow>
          run_bind
            (KSI_TlvElement_detach
               (KSI_TlvElement (ftlv_zero\<lparr>tag := tlv_tag tlv, is_fwd := isForwardable tlv, is_nc := isNonCritical tlv, dat_len := length raw\<rparr>)
                  raw False None))
            (\<lambda>m. Ok (m, tlv)))))"

section \<open>Links of hash chains\<close>

definition KSI_HashChainLink_template :: "ksi_object KSI_TlvTemplate list" where
  "KSI_HashChainLink_template =
     [KSI_TLV_INTEGER 0x01 [] (get_field ty_HashChainLink ty_Integer levelCorrection)
        (set_field ty_HashChainLink ty_Integer levelCorrection_update),
      KSI_TLV_IMPRINT 0x02 FLG_MANDATORY_MOST_ONE_G0 (get_field ty_HashChainLink ty_DataHash imprint)
        (set_field ty_HashChainLink ty_DataHash imprint_update),
      KSI_TLV_OBJECT 0x03 FLG_MANDATORY_MOST_ONE_G0 (get_field ty_HashChainLink ty_OctetString legacyId)
        (set_field ty_HashChainLink ty_OctetString legacyId_update)
        (from_value ty_OctetString KSI_HashChainLink_LegacyId_fromTlv) (to_value ty_OctetString KSI_HashChainLink_LegacyId_toTlv),
      KSI_TLV_COMPOSITE_OBJECT 0x04 FLG_MANDATORY_MOST_ONE_G0 (get_field ty_HashChainLink ty_MetaDataElement metaData)
        (set_field ty_HashChainLink ty_MetaDataElement metaData_update)
        (\<lambda>tlv. run_bind (KSI_MetaDataElement_fromTlv (Some tlv)) (\<lambda>(m, tlv). Ok (MetaDataElementO m, tlv)))
        (\<lambda>ob tg nc fwd. case unwrap ty_MetaDataElement ob of None \<Rightarrow> Fault | Some m \<Rightarrow> KSI_MetaDataElement_toTlv m)
        KSI_MetaDataElement_template]"

definition KSI_HashChainLink_fromTlv :: "KSI_TLV option \<Rightarrow> (KSI_HashChainLink \<times> KSI_TLV) run" where
  "KSI_HashChainLink_fromTlv tlv =
     run_ptr tlv KSI_INVALID_ARGUMENT (\<lambda>tlv.
     run_check (tlv_tag tlv \<noteq> 0x07 \<and> tlv_tag tlv \<noteq> 0x08) KSI_INVALID_FORMAT (
     let left = (tlv_tag tlv = 0x07) in
     run_bind (KSI_TlvTemplate_extract (Some (HashChainLinkO KSI_HashChainLink_new)) (Some tlv) (Some KSI_HashChainLink_template)) (\<lambda>(tmp, tlv).
       (case unwrap ty_HashChainLink tmp of None \<Rightarrow> Fault | Some tmp \<Rightarrow> Ok (tmp\<lparr>isLeft := left\<rparr>, tlv)))))"

definition KSI_HashChainLink_toTlv :: "KSI_HashChainLink option \<Rightarrow> bool \<Rightarrow> bool \<Rightarrow> KSI_TLV run" where
  "KSI_HashChainLink_toTlv link nc fwd =
     run_ptr link KSI_INVALID_ARGUMENT (\<lambda>link.
       KSI_TlvTemplate_construct (Some (KSI_TLV_new (if isLeft link then 0x07 else 0x08) nc fwd)) (Some (HashChainLinkO link))
         (Some KSI_HashChainLink_template))"

text \<open>The converters of links as the templates refer to them.\<close>

definition from_HashChainLink :: from_fun where
  "from_HashChainLink tlv = run_bind (KSI_HashChainLink_fromTlv (Some tlv)) (\<lambda>(l, tlv). Ok (HashChainLinkO l, tlv))"

definition to_HashChainLink :: to_fun where
  "to_HashChainLink ob tg nc fwd =
     (case unwrap ty_HashChainLink ob of None \<Rightarrow> Fault | Some l \<Rightarrow> KSI_HashChainLink_toTlv (Some l) nc fwd)"

section \<open>Publications\<close>

definition KSI_PublicationData_new :: KSI_PublicationData where
  "KSI_PublicationData_new = \<lparr>pd_time = None, pd_imprint = None, pd_baseTlv = None\<rparr>"

definition KSI_PublicationData_template :: "ksi_object KSI_TlvTemplate list" where
  "KSI_PublicationData_template =
     [KSI_TLV_INTEGER 0x02 [FLG_MANDATORY] (get_field ty_PublicationData ty_Integer pd_time)
        (set_field ty_PublicationData ty_Integer pd_time_update),
      KSI_TLV_IMPRINT 0x04 [FLG_MANDATORY] (get_field ty_PublicationData ty_DataHash pd_imprint)
        (set_field ty_PublicationData ty_DataHash pd_imprint_update)]"

text \<open>\<^verbatim>\<open>KSI_IMPLEMENT_FROMTLV\<close> with a copy of the TLV, as the extraction leaves it, and \<^verbatim>\<open>KSI_IMPLEMENT_TOTLV\<close>.\<close>

definition KSI_PublicationData_fromTlv :: "KSI_TLV option \<Rightarrow> (KSI_PublicationData \<times> KSI_TLV) run" where
  "KSI_PublicationData_fromTlv tlv =
     run_ptr tlv KSI_INVALID_ARGUMENT (\<lambda>tlv.
     run_check (tlv_tag tlv \<noteq> 0x10) KSI_INVALID_FORMAT (
     run_bind (KSI_TlvTemplate_extract (Some (PublicationDataO KSI_PublicationData_new)) (Some tlv) (Some KSI_PublicationData_template)) (\<lambda>(tmp, tlv).
     run_bind (run_of (KSI_TLV_clone tlv)) (\<lambda>base.
       (case unwrap ty_PublicationData tmp of None \<Rightarrow> Fault | Some tmp \<Rightarrow> Ok (tmp\<lparr>pd_baseTlv := Some base\<rparr>, tlv))))))"

definition KSI_PublicationData_toTlv :: "KSI_PublicationData option \<Rightarrow> u32 \<Rightarrow> bool \<Rightarrow> bool \<Rightarrow> KSI_TLV run" where
  "KSI_PublicationData_toTlv data tg nc fwd =
     run_ptr data KSI_INVALID_ARGUMENT (\<lambda>data.
       KSI_TlvTemplate_construct (Some (KSI_TLV_new tg nc fwd)) (Some (PublicationDataO data)) (Some KSI_PublicationData_template))"

definition KSI_PublicationRecord_new :: KSI_PublicationRecord where
  "KSI_PublicationRecord_new = \<lparr>publishedData = None, publicationRef = None, repositoryUriList = None\<rparr>"

definition KSI_PublicationRecord_template :: "ksi_object KSI_TlvTemplate list" where
  "KSI_PublicationRecord_template =
     [KSI_TLV_COMPOSITE 0x10 [FLG_MANDATORY] (get_field ty_PublicationRecord ty_PublicationData publishedData)
        (set_field ty_PublicationRecord ty_PublicationData publishedData_update) (PublicationDataO KSI_PublicationData_new)
        KSI_PublicationData_template,
      KSI_TLV_OBJECT_LIST 0x09 [] (get_field ty_PublicationRecord (ty_List ty_Utf8String) publicationRef)
        (set_field ty_PublicationRecord (ty_List ty_Utf8String) publicationRef_update)
        (from_value ty_Utf8String KSI_Utf8StringNZ_fromTlv) (to_value ty_Utf8String KSI_Utf8StringNZ_toTlv),
      KSI_TLV_OBJECT_LIST 0x0a [] (get_field ty_PublicationRecord (ty_List ty_Utf8String) repositoryUriList)
        (set_field ty_PublicationRecord (ty_List ty_Utf8String) repositoryUriList_update)
        (from_value ty_Utf8String KSI_Utf8StringNZ_fromTlv) (to_value ty_Utf8String KSI_Utf8StringNZ_toTlv)]"

section \<open>Signed data and authentication records\<close>

definition KSI_PKISignedData_new :: KSI_PKISignedData where
  "KSI_PKISignedData_new = \<lparr>sig_type = None, signatureValue = None, sd_certId = None, certRepositoryUri = None\<rparr>"

definition KSI_CalAuthRecPKISignedData_template :: "ksi_object KSI_TlvTemplate list" where
  "KSI_CalAuthRecPKISignedData_template =
     [KSI_TLV_UTF8_STRING 0x01 [FLG_MANDATORY] (get_field ty_PKISignedData ty_Utf8String sig_type)
        (set_field ty_PKISignedData ty_Utf8String sig_type_update),
      KSI_TLV_OCTET_STRING 0x02 [FLG_MANDATORY] (get_field ty_PKISignedData ty_OctetString signatureValue)
        (set_field ty_PKISignedData ty_OctetString signatureValue_update),
      KSI_TLV_OCTET_STRING 0x03 [FLG_MANDATORY] (get_field ty_PKISignedData ty_OctetString sd_certId)
        (set_field ty_PKISignedData ty_OctetString sd_certId_update),
      KSI_TLV_OBJECT 0x04 [] (get_field ty_PKISignedData ty_Utf8String certRepositoryUri)
        (set_field ty_PKISignedData ty_Utf8String certRepositoryUri_update)
        (from_value ty_Utf8String KSI_Utf8StringNZ_fromTlv) (to_value ty_Utf8String KSI_Utf8StringNZ_toTlv)]"

definition KSI_AggrAuthRecPKISignedData_template :: "ksi_object KSI_TlvTemplate list" where
  "KSI_AggrAuthRecPKISignedData_template =
     [KSI_TLV_UTF8_STRING 0x01 [FLG_MANDATORY] (get_field ty_PKISignedData ty_Utf8String sig_type)
        (set_field ty_PKISignedData ty_Utf8String sig_type_update),
      KSI_TLV_OCTET_STRING 0x02 [FLG_MANDATORY] (get_field ty_PKISignedData ty_OctetString signatureValue)
        (set_field ty_PKISignedData ty_OctetString signatureValue_update),
      KSI_TLV_OCTET_STRING 0x03 [FLG_MANDATORY] (get_field ty_PKISignedData ty_OctetString sd_certId)
        (set_field ty_PKISignedData ty_OctetString sd_certId_update),
      KSI_TLV_OBJECT 0x04 [] (get_field ty_PKISignedData ty_Utf8String certRepositoryUri)
        (set_field ty_PKISignedData ty_Utf8String certRepositoryUri_update)
        (from_value ty_Utf8String KSI_Utf8StringNZ_fromTlv) (to_value ty_Utf8String KSI_Utf8StringNZ_toTlv)]"

definition KSI_AggregationAuthRec_new :: KSI_AggregationAuthRec where
  "KSI_AggregationAuthRec_new =
     \<lparr>aar_aggregationTime = None, chainIndexesList = None, aar_inputHash = None, aar_signatureData = None\<rparr>"

definition KSI_AggregationAuthRec_template :: "ksi_object KSI_TlvTemplate list" where
  "KSI_AggregationAuthRec_template =
     [KSI_TLV_INTEGER 0x02 [FLG_MANDATORY] (get_field ty_AggregationAuthRec ty_Integer aar_aggregationTime)
        (set_field ty_AggregationAuthRec ty_Integer aar_aggregationTime_update),
      KSI_TLV_INTEGER_LIST 0x03 [FLG_MANDATORY] (get_field ty_AggregationAuthRec (ty_List ty_Integer) chainIndexesList)
        (set_field ty_AggregationAuthRec (ty_List ty_Integer) chainIndexesList_update),
      KSI_TLV_IMPRINT 0x05 [FLG_MANDATORY] (get_field ty_AggregationAuthRec ty_DataHash aar_inputHash)
        (set_field ty_AggregationAuthRec ty_DataHash aar_inputHash_update),
      KSI_TLV_COMPOSITE 0x0b [FLG_MANDATORY] (get_field ty_AggregationAuthRec ty_PKISignedData aar_signatureData)
        (set_field ty_AggregationAuthRec ty_PKISignedData aar_signatureData_update) (PKISignedDataO KSI_PKISignedData_new)
        KSI_AggrAuthRecPKISignedData_template]"

definition KSI_CalendarAuthRec_new :: KSI_CalendarAuthRec where
  "KSI_CalendarAuthRec_new = \<lparr>pubData = None, signatureData = None\<rparr>"

definition KSI_CalendarAuthRec_template :: "ksi_object KSI_TlvTemplate list" where
  "KSI_CalendarAuthRec_template =
     [KSI_TLV_COMPOSITE_OBJECT 0x10 [FLG_FORWARD, FLG_MANDATORY] (get_field ty_CalendarAuthRec ty_PublicationData pubData)
        (set_field ty_CalendarAuthRec ty_PublicationData pubData_update)
        (\<lambda>tlv. run_bind (KSI_PublicationData_fromTlv (Some tlv)) (\<lambda>(d, tlv). Ok (PublicationDataO d, tlv)))
        (\<lambda>ob tg nc fwd. case unwrap ty_PublicationData ob of None \<Rightarrow> Fault | Some d \<Rightarrow> KSI_PublicationData_toTlv (Some d) tg nc fwd)
        KSI_PublicationData_template,
      KSI_TLV_COMPOSITE 0x0b [FLG_MANDATORY] (get_field ty_CalendarAuthRec ty_PKISignedData signatureData)
        (set_field ty_CalendarAuthRec ty_PKISignedData signatureData_update) (PKISignedDataO KSI_PKISignedData_new)
        KSI_CalAuthRecPKISignedData_template]"

section \<open>Chains\<close>

definition KSI_AggregationHashChain_template :: "ksi_object KSI_TlvTemplate list" where
  "KSI_AggregationHashChain_template =
     [KSI_TLV_INTEGER 0x02 [FLG_MANDATORY] (get_field ty_AggregationHashChain ty_Integer aggregationTime)
        (set_field ty_AggregationHashChain ty_Integer aggregationTime_update),
      KSI_TLV_INTEGER_LIST 0x03 [FLG_MANDATORY] (get_field ty_AggregationHashChain (ty_List ty_Integer) chainIndex)
        (set_field ty_AggregationHashChain (ty_List ty_Integer) chainIndex_update),
      KSI_TLV_OCTET_STRING 0x04 [] (get_field ty_AggregationHashChain ty_OctetString inputData)
        (set_field ty_AggregationHashChain ty_OctetString inputData_update),
      KSI_TLV_IMPRINT 0x05 [FLG_MANDATORY] (get_field ty_AggregationHashChain ty_DataHash inputHash)
        (set_field ty_AggregationHashChain ty_DataHash inputHash_update),
      KSI_TLV_INTEGER 0x06 [FLG_MANDATORY] (get_field ty_AggregationHashChain ty_Integer aggrHashId)
        (set_field ty_AggregationHashChain ty_Integer aggrHashId_update),
      KSI_TLV_OBJECT_LIST 0x07 [FLG_LEAST_ONE_G0] (get_field ty_AggregationHashChain (ty_List ty_HashChainLink) chain)
        (set_field ty_AggregationHashChain (ty_List ty_HashChainLink) chain_update) from_HashChainLink to_HashChainLink,
      KSI_TLV_OBJECT_LIST 0x08 [FLG_LEAST_ONE_G0, FLG_NO_SERIALIZE] (get_field ty_AggregationHashChain (ty_List ty_HashChainLink) chain)
        (set_field ty_AggregationHashChain (ty_List ty_HashChainLink) chain_update) from_HashChainLink to_HashChainLink]"

definition KSI_CalendarHashChain_template :: "ksi_object KSI_TlvTemplate list" where
  "KSI_CalendarHashChain_template =
     [KSI_TLV_INTEGER 0x01 [FLG_MANDATORY] (get_field ty_CalendarHashChain ty_Integer publicationTime)
        (set_field ty_CalendarHashChain ty_Integer publicationTime_update),
      KSI_TLV_INTEGER 0x02 [] (get_field ty_CalendarHashChain ty_Integer cal_aggregationTime)
        (set_field ty_CalendarHashChain ty_Integer cal_aggregationTime_update),
      KSI_TLV_IMPRINT 0x05 [FLG_MANDATORY] (get_field ty_CalendarHashChain ty_DataHash cal_inputHash)
        (set_field ty_CalendarHashChain ty_DataHash cal_inputHash_update),
      KSI_TLV_OBJECT_LIST 0x07 [FLG_LEAST_ONE_G0] (get_field ty_CalendarHashChain (ty_List ty_HashChainLink) hashChain)
        (set_field ty_CalendarHashChain (ty_List ty_HashChainLink) hashChain_update)
        (from_value ty_HashChainLink KSI_CalendarHashChainLink_fromTlv)
        (to_value ty_HashChainLink (\<lambda>l tg. KSI_CalendarHashChainLink_toTlv l)),
      KSI_TLV_OBJECT_LIST 0x08 [FLG_LEAST_ONE_G0, FLG_NO_SERIALIZE] (get_field ty_CalendarHashChain (ty_List ty_HashChainLink) hashChain)
        (set_field ty_CalendarHashChain (ty_List ty_HashChainLink) hashChain_update)
        (from_value ty_HashChainLink KSI_CalendarHashChainLink_fromTlv)
        (to_value ty_HashChainLink (\<lambda>l tg. KSI_CalendarHashChainLink_toTlv l))]"

definition KSI_RFC3161_new :: KSI_RFC3161 where
  "KSI_RFC3161_new = \<lparr>rfc_aggregationTime = None, rfc_chainIndex = None, rfc_inputHash = None, tstInfoPrefix = None, tstInfoSuffix = None,
     tstInfoAlgo = None, sigAttrPrefix = None, sigAttrSuffix = None, sigAttrAlgo = None\<rparr>"

definition KSI_RFC3161_template :: "ksi_object KSI_TlvTemplate list" where
  "KSI_RFC3161_template =
     [KSI_TLV_INTEGER 0x02 [FLG_MANDATORY] (get_field ty_RFC3161 ty_Integer rfc_aggregationTime)
        (set_field ty_RFC3161 ty_Integer rfc_aggregationTime_update),
      KSI_TLV_INTEGER_LIST 0x03 [FLG_MANDATORY] (get_field ty_RFC3161 (ty_List ty_Integer) rfc_chainIndex)
        (set_field ty_RFC3161 (ty_List ty_Integer) rfc_chainIndex_update),
      KSI_TLV_IMPRINT 0x05 [FLG_MANDATORY] (get_field ty_RFC3161 ty_DataHash rfc_inputHash)
        (set_field ty_RFC3161 ty_DataHash rfc_inputHash_update),
      KSI_TLV_OCTET_STRING 0x10 [FLG_MANDATORY] (get_field ty_RFC3161 ty_OctetString tstInfoPrefix)
        (set_field ty_RFC3161 ty_OctetString tstInfoPrefix_update),
      KSI_TLV_OCTET_STRING 0x11 [FLG_MANDATORY] (get_field ty_RFC3161 ty_OctetString tstInfoSuffix)
        (set_field ty_RFC3161 ty_OctetString tstInfoSuffix_update),
      KSI_TLV_INTEGER 0x12 [FLG_MANDATORY] (get_field ty_RFC3161 ty_Integer tstInfoAlgo)
        (set_field ty_RFC3161 ty_Integer tstInfoAlgo_update),
      KSI_TLV_OCTET_STRING 0x13 [FLG_MANDATORY] (get_field ty_RFC3161 ty_OctetString sigAttrPrefix)
        (set_field ty_RFC3161 ty_OctetString sigAttrPrefix_update),
      KSI_TLV_OCTET_STRING 0x14 [FLG_MANDATORY] (get_field ty_RFC3161 ty_OctetString sigAttrSuffix)
        (set_field ty_RFC3161 ty_OctetString sigAttrSuffix_update),
      KSI_TLV_INTEGER 0x15 [FLG_MANDATORY] (get_field ty_RFC3161 ty_Integer sigAttrAlgo)
        (set_field ty_RFC3161 ty_Integer sigAttrAlgo_update)]"

section \<open>Signatures\<close>

definition KSI_Signature_new :: KSI_SignatureObject where
  "KSI_Signature_new = \<lparr>calendarChain = None, aggregationChainList = None, rfc3161 = None, calendarAuthRec = None,
     publication = None, aggregationAuthRec = None, baseTlv = None\<rparr>"

definition KSI_Signature_template :: "ksi_object KSI_TlvTemplate list" where
  "KSI_Signature_template =
     [KSI_TLV_COMPOSITE_LIST 0x0801 [FLG_MANDATORY] (get_field ty_Signature (ty_List ty_AggregationHashChain) aggregationChainList)
        (set_field ty_Signature (ty_List ty_AggregationHashChain) aggregationChainList_update)
        (AggregationHashChainO KSI_AggregationHashChain_new) KSI_AggregationHashChain_template,
      KSI_TLV_COMPOSITE 0x0802 [] (get_field ty_Signature ty_CalendarHashChain calendarChain)
        (set_field ty_Signature ty_CalendarHashChain calendarChain_update)
        (CalendarHashChainO KSI_CalendarHashChain_new) KSI_CalendarHashChain_template,
      KSI_TLV_COMPOSITE 0x0803 [FLG_MOST_ONE_G0] (get_field ty_Signature ty_PublicationRecord publication)
        (set_field ty_Signature ty_PublicationRecord publication_update)
        (PublicationRecordO KSI_PublicationRecord_new) KSI_PublicationRecord_template,
      KSI_TLV_COMPOSITE 0x0804 [] (get_field ty_Signature ty_AggregationAuthRec aggregationAuthRec)
        (set_field ty_Signature ty_AggregationAuthRec aggregationAuthRec_update)
        (AggregationAuthRecO KSI_AggregationAuthRec_new) KSI_AggregationAuthRec_template,
      KSI_TLV_COMPOSITE 0x0805 [FLG_MOST_ONE_G0] (get_field ty_Signature ty_CalendarAuthRec calendarAuthRec)
        (set_field ty_Signature ty_CalendarAuthRec calendarAuthRec_update)
        (CalendarAuthRecO KSI_CalendarAuthRec_new) KSI_CalendarAuthRec_template,
      KSI_TLV_COMPOSITE 0x0806 [] (get_field ty_Signature ty_RFC3161 rfc3161)
        (set_field ty_Signature ty_RFC3161 rfc3161_update) (RFC3161O KSI_RFC3161_new) KSI_RFC3161_template]"

section \<open>Storing elements\<close>

definition ctype_ok :: "'a ctype \<Rightarrow> bool" where
  "ctype_ok ty \<longleftrightarrow> (\<forall>x v. unwrap ty x = Some v \<longleftrightarrow> x = wrap ty v)"

lemma ctypes_ok [simp]:
  "ctype_ok ty_Integer" "ctype_ok ty_OctetString" "ctype_ok ty_Utf8String" "ctype_ok ty_DataHash" "ctype_ok ty_MetaDataElement"
  "ctype_ok ty_PublicationData" "ctype_ok ty_PublicationRecord" "ctype_ok ty_HashChainLink" "ctype_ok ty_AggregationHashChain"
  "ctype_ok ty_CalendarHashChain" "ctype_ok ty_PKISignedData" "ctype_ok ty_CalendarAuthRec" "ctype_ok ty_AggregationAuthRec"
  "ctype_ok ty_RFC3161" "ctype_ok ty_Signature"
  by (auto simp: ctype_ok_def ty_defs split: ksi_object.splits)

lemma those_eq_Some: "those (map f xs) = Some ys \<longleftrightarrow> list_all2 (\<lambda>x y. f x = Some y) xs ys"
  by (induction xs arbitrary: ys) (auto simp: list_all2_Cons1 split: option.splits)

lemma ctype_ok_List [simp]:
  assumes "ctype_ok ty"
  shows "ctype_ok (ty_List ty)"
proof -
  have "list_all2 (\<lambda>x y. unwrap ty x = Some y) xs ys \<longleftrightarrow> xs = map (wrap ty) ys" for xs ys
    using assms by (induction ys arbitrary: xs) (auto simp: ctype_ok_def list_all2_Cons2)
  then show ?thesis by (auto simp: ctype_ok_def ty_List_def those_eq_Some split: ksi_object.splits)
qed

lemma unwrap_iff: "ctype_ok ty \<Longrightarrow> unwrap ty x = Some v \<longleftrightarrow> x = wrap ty v" by (simp add: ctype_ok_def)

lemma wrap_inj: "ctype_ok ty \<Longrightarrow> wrap ty x = wrap ty y \<longleftrightarrow> x = y" unfolding ctype_ok_def by (metis option.inject)

lemma unwrap_wrap: "ctype_ok ty \<Longrightarrow> unwrap ty (wrap ty v) = Some v" by (simp add: ctype_ok_def)

lemma unwrap_None: "ctype_ok ty \<Longrightarrow> unwrap ty x = None \<Longrightarrow> x \<noteq> wrap ty v" by (auto simp: unwrap_wrap)

lemma set_field_Ok:
  assumes "ctype_ok tr" "ctype_ok tv"
  shows "set_field tr tv upd ob x = Ok ob' \<longleftrightarrow> (\<exists>r v. ob = wrap tr r \<and> x = wrap tv v \<and> ob' = wrap tr (upd (\<lambda>_. Some v) r))"
proof (cases "unwrap tr ob"; cases "unwrap tv x")
  fix r v assume "unwrap tr ob = Some r" "unwrap tv x = Some v"
  then show ?thesis using assms by (auto simp: set_field_def unwrap_iff unwrap_wrap wrap_inj)
qed (use assms in \<open>auto simp: set_field_def unwrap_wrap\<close>)

lemma get_field_wrap: "ctype_ok tr \<Longrightarrow> get_field tr tv field (wrap tr r) = Ok (map_option (wrap tv) (field r))"
  by (simp add: get_field_def unwrap_wrap)

lemma from_value_Ok: "ctype_ok ty \<Longrightarrow> from_value ty f tlv = Ok (wrap ty v, tlv') \<longleftrightarrow> f tlv = (Inr v, tlv')"
  by (auto simp: from_value_def run_bind_eq_Ok run_of_eq_Ok wrap_inj split: prod.splits)

lemma store_object:
  assumes "ctype_ok tr" "ctype_ok tv"
  shows "storeElement sub (KSI_TLV_OBJECT tg flg g (set_field tr tv upd) from to) ob tlv = Ok (ob', tlv') \<longleftrightarrow>
     (\<exists>r v. ob = wrap tr r \<and> from tlv = Ok (wrap tv v, tlv') \<and> ob' = wrap tr (upd (\<lambda>_. Some v) r))"
  using assms by (auto simp: storeElement_def KSI_TLV_OBJECT_def extractObject_def storeObjectValue_def run_bind_eq_Ok set_field_Ok)

lemma store_composite_object:
  assumes "ctype_ok tr" "ctype_ok tv"
  shows "storeElement sub (KSI_TLV_COMPOSITE_OBJECT tg flg g (set_field tr tv upd) from to tmpl) ob tlv = Ok (ob', tlv') \<longleftrightarrow>
     (\<exists>r v. ob = wrap tr r \<and> from tlv = Ok (wrap tv v, tlv') \<and> ob' = wrap tr (upd (\<lambda>_. Some v) r))"
  using assms by (auto simp: storeElement_def KSI_TLV_COMPOSITE_OBJECT_def extractObject_def storeObjectValue_def run_bind_eq_Ok set_field_Ok)

lemma store_composite:
  assumes "ctype_ok tr" "ctype_ok tv"
  shows "storeElement sub (KSI_TLV_COMPOSITE tg flg g (set_field tr tv upd) new tmpl) ob tlv = Ok (ob', tlv') \<longleftrightarrow>
     (\<exists>r v. ob = wrap tr r \<and> sub (KSI_TLV_COMPOSITE tg flg g (set_field tr tv upd) new tmpl) new tlv = Ok (wrap tv v, tlv')
        \<and> ob' = wrap tr (upd (\<lambda>_. Some v) r))"
  using assms by (auto simp: storeElement_def KSI_TLV_COMPOSITE_def KSI_TLV_TEMPLATE_OBJECT_def KSI_TLV_TEMPLATE_COMPOSITE_def
      extractComposite_def storeObjectValue_def run_bind_eq_Ok set_field_Ok)

text \<open>Storing into a list appends to it, or starts it.\<close>

definition append_field :: "'r ctype \<Rightarrow> 'v ctype \<Rightarrow> ('r \<Rightarrow> 'v list option) \<Rightarrow> (('v list option \<Rightarrow> 'v list option) \<Rightarrow> 'r \<Rightarrow> 'r) \<Rightarrow> ksi_object \<Rightarrow> ksi_object \<Rightarrow> ksi_object run" where
  "append_field tr tv field upd ob x =
     run_bind (get_field tr (ty_List tv) field ob) (\<lambda>listp.
     run_bind (case listp of Some l \<Rightarrow> Ok l | None \<Rightarrow> Ok (ListO [])) (\<lambda>l.
     run_bind (list_append l x) (\<lambda>l. set_field tr (ty_List tv) upd ob l)))"

lemma wrap_List: "wrap (ty_List tv) l = ListO (map (wrap tv) l)" by (simp add: ty_List_def)

lemma append_field_Ok:
  assumes "ctype_ok tr" "ctype_ok tv"
  shows "append_field tr tv field upd ob x = Ok ob' \<longleftrightarrow>
     (\<exists>r v. ob = wrap tr r \<and> x = wrap tv v \<and> ob' = wrap tr (upd (\<lambda>_. Some (elements (field r) @ [v])) r))"
proof (cases "unwrap tr ob")
  case None
  then have "ob \<noteq> wrap tr r" for r by (rule unwrap_None [OF assms(1)])
  then show ?thesis using None by (simp add: append_field_def get_field_def)
next
  case (Some r)
  then have ob: "ob = wrap tr r" by (rule unwrap_iff [OF assms(1), THEN iffD1])
  have e1: "append_field tr tv field upd ob x = set_field tr (ty_List tv) upd ob (ListO (map (wrap tv) (elements (field r)) @ [x]))"
    unfolding ob append_field_def get_field_wrap [OF assms(1)] by (cases "field r") (simp_all add: wrap_List list_append_def elements_def)
  have e2: "ListO (map (wrap tv) (elements (field r)) @ [x]) = wrap (ty_List tv) l \<longleftrightarrow> (\<exists>v. x = wrap tv v \<and> l = elements (field r) @ [v])" for l
  proof (cases l rule: rev_cases)
    case (snoc l' v)
    have "map (wrap tv) (elements (field r)) = map (wrap tv) l' \<longleftrightarrow> elements (field r) = l'"
      by (intro inj_map_eq_map injI) (simp add: wrap_inj [OF assms(2)])
    then show ?thesis unfolding snoc wrap_List ksi_object.inject map_append list.map append1_eq_conv wrap_inj [OF assms(2)] by blast
  qed (simp add: wrap_List)
  have "append_field tr tv field upd ob x = Ok ob' \<longleftrightarrow>
      (\<exists>l. ListO (map (wrap tv) (elements (field r)) @ [x]) = wrap (ty_List tv) l \<and> ob' = wrap tr (upd (\<lambda>_. Some l) r))"
    unfolding e1 set_field_Ok [OF assms(1) ctype_ok_List [OF assms(2)]] unfolding ob wrap_inj [OF assms(1)] by blast
  then have "append_field tr tv field upd ob x = Ok ob' \<longleftrightarrow>
      (\<exists>v. x = wrap tv v \<and> ob' = wrap tr (upd (\<lambda>_. Some (elements (field r) @ [v])) r))"
    unfolding e2 by blast
  moreover have "ob = wrap tr r' \<longleftrightarrow> r' = r" for r' unfolding ob wrap_inj [OF assms(1)] by (rule eq_commute)
  ultimately show ?thesis by simp
qed

lemma store_list_value:
  assumes "getValue t = Some (get_field tr (ty_List tv) field)" "setValue t = Some (set_field tr (ty_List tv) upd)"
    "listAppend t = Some list_append" "listNew t = Some (Ok (ListO []))"
  shows "storeObjectValue t ob = append_field tr tv field upd ob"
  using assms by (intro ext) (simp add: storeObjectValue_def append_field_def cong: option.case_cong)

lemma store_object_list:
  assumes "ctype_ok tr" "ctype_ok tv"
  shows "storeElement sub (KSI_TLV_OBJECT_LIST tg flg (get_field tr (ty_List tv) field) (set_field tr (ty_List tv) upd) from to) ob tlv = Ok (ob', tlv') \<longleftrightarrow>
     (\<exists>r v. ob = wrap tr r \<and> from tlv = Ok (wrap tv v, tlv') \<and> ob' = wrap tr (upd (\<lambda>_. Some (elements (field r) @ [v])) r))"
proof -
  have "storeElement sub (KSI_TLV_OBJECT_LIST tg flg (get_field tr (ty_List tv) field) (set_field tr (ty_List tv) upd) from to) ob tlv
      = run_bind (from tlv) (\<lambda>(x, tlv). run_bind (append_field tr tv field upd ob x) (\<lambda>ob. Ok (ob, tlv)))"
    by (subst store_list_value [symmetric, where t = "KSI_TLV_OBJECT_LIST tg flg (get_field tr (ty_List tv) field) (set_field tr (ty_List tv) upd) from to"])
       (simp_all add: storeElement_def KSI_TLV_OBJECT_LIST_def extractObject_def)
  then show ?thesis using assms by (auto simp: run_bind_eq_Ok append_field_Ok)
qed

lemma store_composite_list:
  assumes "ctype_ok tr" "ctype_ok tv"
  shows "storeElement sub (KSI_TLV_COMPOSITE_LIST tg flg (get_field tr (ty_List tv) field) (set_field tr (ty_List tv) upd) new tmpl) ob tlv = Ok (ob', tlv') \<longleftrightarrow>
     (\<exists>r v. ob = wrap tr r
        \<and> sub (KSI_TLV_COMPOSITE_LIST tg flg (get_field tr (ty_List tv) field) (set_field tr (ty_List tv) upd) new tmpl) new tlv = Ok (wrap tv v, tlv')
        \<and> ob' = wrap tr (upd (\<lambda>_. Some (elements (field r) @ [v])) r))"
proof -
  let ?t = "KSI_TLV_COMPOSITE_LIST tg flg (get_field tr (ty_List tv) field) (set_field tr (ty_List tv) upd) new tmpl"
  have "storeElement sub ?t ob tlv = run_bind (sub ?t new tlv) (\<lambda>(x, tlv). run_bind (append_field tr tv field upd ob x) (\<lambda>ob. Ok (ob, tlv)))"
    by (subst store_list_value [symmetric, where t = ?t])
       (simp_all add: storeElement_def KSI_TLV_COMPOSITE_LIST_def KSI_TLV_TEMPLATE_OBJECT_def KSI_TLV_TEMPLATE_COMPOSITE_def extractComposite_def)
  then show ?thesis using assms by (auto simp: run_bind_eq_Ok append_field_Ok)
qed

lemmas store_entry = KSI_TLV_INTEGER_def KSI_TLV_UTF8_STRING_def KSI_TLV_OCTET_STRING_def KSI_TLV_IMPRINT_def KSI_TLV_INTEGER_LIST_def
  store_object store_composite_object store_composite store_object_list store_composite_list from_value_Ok

end
