(* ===== verification/ParsedObjects.thy ===== *)
theory ParsedObjects
  imports SignatureTemplates ExtensionGuarantees
begin

text \<open>
  What is known of an object that the template engine has filled from a TLV with one of the templates of the library, whatever
  the TLV was: the mandatory fields are there, lists that must have elements have some, hash values are well-formed imprints, and
  a link has exactly one value.
\<close>

section \<open>What a parsed object has\<close>

definition one_value :: "KSI_HashChainLink \<Rightarrow> bool" where
  "one_value k \<longleftrightarrow> length (filter id [imprint k \<noteq> None, legacyId k \<noteq> None, metaData k \<noteq> None]) = 1"

definition parsed_hash :: "KSI_DataHash option \<Rightarrow> bool" where
  "parsed_hash h \<longleftrightarrow> (\<exists>x. h = Some x \<and> imprint_ok x)"

definition parsed_link :: "KSI_HashChainLink \<Rightarrow> bool" where
  "parsed_link k \<longleftrightarrow> one_value k \<and> (imprint k \<noteq> None \<longrightarrow> parsed_hash (imprint k))"

definition parsed_chain :: "KSI_AggregationHashChain \<Rightarrow> bool" where
  "parsed_chain c \<longleftrightarrow> aggregationTime c \<noteq> None \<and> elements (chainIndex c) \<noteq> [] \<and> parsed_hash (inputHash c) \<and> aggrHashId c \<noteq> None
     \<and> elements (chain c) \<noteq> [] \<and> list_all parsed_link (elements (chain c)) \<and> fresh_chain c"

definition calendar_link :: "KSI_HashChainLink \<Rightarrow> bool" where
  "calendar_link k \<longleftrightarrow> parsed_hash (imprint k) \<and> legacyId k = None \<and> metaData k = None \<and> levelCorrection k = None"

definition parsed_calendar :: "KSI_CalendarHashChain \<Rightarrow> bool" where
  "parsed_calendar c \<longleftrightarrow> publicationTime c \<noteq> None \<and> parsed_hash (cal_inputHash c) \<and> elements (hashChain c) \<noteq> []
     \<and> list_all calendar_link (elements (hashChain c)) \<and> cal_outputHash c = None"

definition parsed_publication :: "KSI_PublicationData \<Rightarrow> bool" where
  "parsed_publication pd \<longleftrightarrow> pd_time pd \<noteq> None \<and> parsed_hash (pd_imprint pd)"

definition parsed_signed_data :: "KSI_PKISignedData \<Rightarrow> bool" where
  "parsed_signed_data d \<longleftrightarrow> sig_type d \<noteq> None \<and> signatureValue d \<noteq> None \<and> sd_certId d \<noteq> None"

definition parsed_auth_rec :: "KSI_CalendarAuthRec \<Rightarrow> bool" where
  "parsed_auth_rec a \<longleftrightarrow> (\<exists>pd d. pubData a = Some pd \<and> parsed_publication pd \<and> pd_baseTlv pd \<noteq> None
     \<and> signatureData a = Some d \<and> parsed_signed_data d)"

definition parsed_record :: "KSI_PublicationRecord \<Rightarrow> bool" where
  "parsed_record r \<longleftrightarrow> (\<exists>pd. publishedData r = Some pd \<and> parsed_publication pd)"

definition parsed_rfc3161 :: "KSI_RFC3161 \<Rightarrow> bool" where
  "parsed_rfc3161 r \<longleftrightarrow> rfc_aggregationTime r \<noteq> None \<and> elements (rfc_chainIndex r) \<noteq> [] \<and> parsed_hash (rfc_inputHash r)
     \<and> tstInfoPrefix r \<noteq> None \<and> tstInfoSuffix r \<noteq> None \<and> tstInfoAlgo r \<noteq> None
     \<and> sigAttrPrefix r \<noteq> None \<and> sigAttrSuffix r \<noteq> None \<and> sigAttrAlgo r \<noteq> None"

section \<open>Extraction by template\<close>

lemma DataHash_fromTlv_ok: "KSI_DataHash_fromTlv t = (Inr h, t') \<Longrightarrow> imprint_ok h"
  by (auto simp: KSI_DataHash_fromTlv_def with_raw_def fromImprint_iff split: prod.splits option.splits)

lemma IS_FLAG_SET_flags: "IS_FLAG_SET (KSI_TlvTemplate ty tg (flags fs) a b c d e f g h i j k l) flg \<longleftrightarrow> flg \<in> set fs"
proof -
  have "flags fs AND flag_value flg \<noteq> 0 \<longleftrightarrow> flg \<in> set fs" for fs
  proof (induction fs)
    case (Cons x fs)
    have "flag_value x AND flag_value flg \<noteq> 0 \<longleftrightarrow> x = flg" by (cases x; cases flg) simp_all
    moreover have "(a OR b) AND c = 0 \<longleftrightarrow> a AND c = 0 \<and> b AND c = 0" for a b c :: u32
      by (simp add: bit.conj_disj_distrib2 or_eq_0_iff)
    ultimately show ?case using Cons by (simp add: flags_def) blast
  qed (simp add: flags_def)
  then show ?thesis by (simp add: IS_FLAG_SET_def)
qed

lemmas macro_defs = KSI_TLV_OBJECT_def KSI_TLV_COMPOSITE_OBJECT_def KSI_TLV_OBJECT_LIST_def KSI_TLV_COMPOSITE_def KSI_TLV_COMPOSITE_LIST_def KSI_TLV_INTEGER_def
  KSI_TLV_UTF8_STRING_def KSI_TLV_OCTET_STRING_def KSI_TLV_IMPRINT_def KSI_TLV_INTEGER_LIST_def

lemma macro_flags [simp]:
  "IS_FLAG_SET (KSI_TLV_OBJECT tg fs g s fr to) flg \<longleftrightarrow> flg \<in> set fs"
  "IS_FLAG_SET (KSI_TLV_COMPOSITE_OBJECT tg fs g s fr to tm) flg \<longleftrightarrow> flg \<in> set fs"
  "IS_FLAG_SET (KSI_TLV_OBJECT_LIST tg fs g s fr to) flg \<longleftrightarrow> flg \<in> set fs"
  "IS_FLAG_SET (KSI_TLV_COMPOSITE tg fs g s n tm) flg \<longleftrightarrow> flg \<in> set fs"
  "IS_FLAG_SET (KSI_TLV_COMPOSITE_LIST tg fs g s n tm) flg \<longleftrightarrow> flg \<in> set fs"
  "IS_FLAG_SET (KSI_TLV_INTEGER tg fs g s) flg \<longleftrightarrow> flg \<in> set fs"
  "IS_FLAG_SET (KSI_TLV_UTF8_STRING tg fs g s) flg \<longleftrightarrow> flg \<in> set fs"
  "IS_FLAG_SET (KSI_TLV_OCTET_STRING tg fs g s) flg \<longleftrightarrow> flg \<in> set fs"
  "IS_FLAG_SET (KSI_TLV_IMPRINT tg fs g s) flg \<longleftrightarrow> flg \<in> set fs"
  "IS_FLAG_SET (KSI_TLV_INTEGER_LIST tg fs g s) flg \<longleftrightarrow> flg \<in> set fs"
  unfolding macro_defs IS_FLAG_SET_flags by (rule refl)+

lemma macro_tags [simp]:
  "tmpl_tag (KSI_TLV_OBJECT tg fs g s fr to) = tg" "tmpl_tag (KSI_TLV_COMPOSITE_OBJECT tg fs g s fr to tm) = tg" "tmpl_tag (KSI_TLV_OBJECT_LIST tg fs g s fr to) = tg"
  "tmpl_tag (KSI_TLV_COMPOSITE tg fs g s n tm) = tg" "tmpl_tag (KSI_TLV_COMPOSITE_LIST tg fs g s n tm) = tg"
  "tmpl_tag (KSI_TLV_INTEGER tg fs g s) = tg" "tmpl_tag (KSI_TLV_UTF8_STRING tg fs g s) = tg"
  "tmpl_tag (KSI_TLV_OCTET_STRING tg fs g s) = tg" "tmpl_tag (KSI_TLV_IMPRINT tg fs g s) = tg"
  "tmpl_tag (KSI_TLV_INTEGER_LIST tg fs g s) = tg"
  by (simp_all add: macro_defs)

lemma macro_multiple [simp]:
  "\<not> multiple (KSI_TLV_OBJECT tg fs g s fr to)" "\<not> multiple (KSI_TLV_COMPOSITE_OBJECT tg fs g s fr to tm)" "multiple (KSI_TLV_OBJECT_LIST tg fs g s fr to)"
  "\<not> multiple (KSI_TLV_COMPOSITE tg fs g s n tm)" "multiple (KSI_TLV_COMPOSITE_LIST tg fs g s n tm)"
  "\<not> multiple (KSI_TLV_INTEGER tg fs g s)" "\<not> multiple (KSI_TLV_UTF8_STRING tg fs g s)"
  "\<not> multiple (KSI_TLV_OCTET_STRING tg fs g s)" "\<not> multiple (KSI_TLV_IMPRINT tg fs g s)"
  "multiple (KSI_TLV_INTEGER_LIST tg fs g s)"
  by (simp_all add: macro_defs)

lemma macro_sub [simp]: "subTemplate (KSI_TLV_COMPOSITE tg fs g s n tm) = tm" "subTemplate (KSI_TLV_COMPOSITE_LIST tg fs g s n tm) = tm"
  by (simp_all add: macro_defs)

lemma macro_get [simp]:
  "getValue (KSI_TLV_OBJECT tg fs g s fr to) = Some g" "getValue (KSI_TLV_COMPOSITE_OBJECT tg fs g s fr to tm) = Some g" "getValue (KSI_TLV_OBJECT_LIST tg fs g s fr to) = Some g"
  "getValue (KSI_TLV_COMPOSITE tg fs g s n tm) = Some g" "getValue (KSI_TLV_COMPOSITE_LIST tg fs g s n tm) = Some g"
  "getValue (KSI_TLV_INTEGER tg fs g s) = Some g" "getValue (KSI_TLV_UTF8_STRING tg fs g s) = Some g"
  "getValue (KSI_TLV_OCTET_STRING tg fs g s) = Some g" "getValue (KSI_TLV_IMPRINT tg fs g s) = Some g"
  "getValue (KSI_TLV_INTEGER_LIST tg fs g s) = Some g"
  by (simp_all add: macro_defs)

lemmas template_defs = KSI_PublicationData_template_def KSI_PublicationRecord_template_def KSI_CalAuthRecPKISignedData_template_def
  KSI_AggrAuthRecPKISignedData_template_def KSI_AggregationAuthRec_template_def KSI_CalendarAuthRec_template_def
  KSI_HashChainLink_template_def KSI_AggregationHashChain_template_def KSI_CalendarHashChain_template_def KSI_RFC3161_template_def
  KSI_Signature_template_def

lemma plain_templates [simp]:
  "plain_template KSI_PublicationData_template" "plain_template KSI_PublicationRecord_template"
  "plain_template KSI_CalAuthRecPKISignedData_template" "plain_template KSI_AggrAuthRecPKISignedData_template"
  "plain_template KSI_AggregationAuthRec_template" "plain_template KSI_CalendarAuthRec_template"
  "plain_template KSI_HashChainLink_template" "plain_template KSI_AggregationHashChain_template"
  "plain_template KSI_CalendarHashChain_template" "plain_template KSI_RFC3161_template" "plain_template KSI_Signature_template"
  by (simp_all add: plain_template_def template_defs MAX_TEMPLATE_SIZE_def)

abbreviation sub_extract :: "ksi_object KSI_TlvTemplate \<Rightarrow> ksi_object \<Rightarrow> KSI_TLV \<Rightarrow> (ksi_object \<times> KSI_TLV) run" where
  "sub_extract \<equiv> \<lambda>t tmp tlv. extractTlv tmp tlv (subTemplate t)"

lemma extractTlv_Ok: "extractTlv ob tlv tmpl = Ok (q, tlv') \<Longrightarrow> \<exists>ts left. extractWith sub_extract ob (map Ok ts) tmpl = Ok (q, left)"
  by (subst (asm) extractTlv.simps) (auto simp: run_bind_eq_Ok)

text \<open>Extraction into a record: \<open>P hits r\<close> relates the record to the entries met so far.\<close>

lemma enumerate_all: "list_all (\<lambda>(i, t). Q i t) (enumerate 0 xs) \<longleftrightarrow> (\<forall>i<length xs. Q i (xs ! i))"
  by (auto simp: list_all_iff in_set_enumerate_eq)

lemma enumerate_ex: "list_ex (\<lambda>(i, t). Q i t) (enumerate 0 xs) \<longleftrightarrow> (\<exists>i<length xs. Q i (xs ! i))"
  unfolding list_ex_iff by (auto simp: in_set_enumerate_eq)

definition entries_met :: "'o KSI_TlvTemplate list \<Rightarrow> nat set \<Rightarrow> bool" where
  "entries_met tmpl hits \<longleftrightarrow>
     list_all (\<lambda>(i, t). (IS_FLAG_SET t FLG_MANDATORY \<longrightarrow> i \<in> hits)
       \<and> (IS_FLAG_SET t FLG_LEAST_ONE_G0 \<longrightarrow> list_ex (\<lambda>(j, u). IS_FLAG_SET u FLG_LEAST_ONE_G0 \<and> j \<in> hits) (enumerate 0 tmpl))
       \<and> (IS_FLAG_SET t FLG_MOST_ONE_G0 \<longrightarrow>
            list_all (\<lambda>(j, u). IS_FLAG_SET u FLG_MOST_ONE_G0 \<and> i \<in> hits \<and> j \<in> hits \<longrightarrow> i = j) (enumerate 0 tmpl)))
     (enumerate 0 tmpl)"

lemma at_most_one_eq:
  assumes "length (filter P xs) \<le> 1" "P x" "P y" "x \<in> set xs" "y \<in> set xs"
  shows "x = y"
proof -
  have "x \<in> set (filter P xs)" "y \<in> set (filter P xs)" using assms by simp_all
  then show ?thesis using assms(1) by (cases "filter P xs") auto
qed

lemma entries_met_if:
  assumes "is_complete tmpl hits" "exclusive tmpl hits" "\<forall>i\<in>set hits. i < length tmpl"
  shows "entries_met tmpl (set hits)"
  unfolding entries_met_def enumerate_all enumerate_ex
  using assms at_most_one_eq [of "\<lambda>i. IS_FLAG_SET (tmpl ! i) FLG_MOST_ONE_G0" hits]
  unfolding is_complete_def exclusive_def by blast

lemma met_least:
  assumes "entries_met tmpl hits" "i < length tmpl" "IS_FLAG_SET (tmpl ! i) FLG_LEAST_ONE_G0"
  shows "\<exists>j<length tmpl. IS_FLAG_SET (tmpl ! j) FLG_LEAST_ONE_G0 \<and> j \<in> hits"
  using assms unfolding entries_met_def enumerate_all enumerate_ex by blast

lemma met_most:
  assumes "entries_met tmpl hits" "i < length tmpl" "j < length tmpl" "IS_FLAG_SET (tmpl ! i) FLG_MOST_ONE_G0"
    "IS_FLAG_SET (tmpl ! j) FLG_MOST_ONE_G0" "i \<in> hits" "j \<in> hits"
  shows "i = j"
  using assms unfolding entries_met_def enumerate_all by blast

lemma extract_record:
  assumes "extractTlv (C r) tlv tmpl = Ok (q, tlv')" "plain_template tmpl" "P {} r"
    and step: "list_all (\<lambda>(i, t). \<forall>hits r tlv ob' tlv'. P hits r \<longrightarrow> storeElement sub_extract t (C r) tlv = Ok (ob', tlv') \<longrightarrow>
      (\<exists>r'. ob' = C r' \<and> P (insert i hits) r')) (enumerate 0 tmpl)"
  shows "\<exists>r hits. q = C r \<and> P hits r \<and> entries_met tmpl hits"
proof -
  obtain ts left where e: "extractWith sub_extract (C r) (map Ok ts) tmpl = Ok (q, left)" using extractTlv_Ok [OF assms(1)] by blast
  let ?I = "\<lambda>hits ob. \<exists>r. ob = C r \<and> P (set hits) r \<and> (\<forall>i\<in>set hits. i < length tmpl)"
  have "\<exists>hits. ?I hits q \<and> is_complete tmpl hits \<and> exclusive tmpl hits"
  proof (rule extractWith_invariant [OF e assms(2)])
    show "?I [] (C r)" using assms(3) by auto
    fix hits ob i tlv ob' tlv'
    assume h: "?I hits ob" "i < length tmpl" "storeElement sub_extract (tmpl ! i) ob tlv = Ok (ob', tlv')"
    then obtain r where r: "ob = C r" "P (set hits) r" "\<forall>i\<in>set hits. i < length tmpl" by blast
    then have "\<exists>r'. ob' = C r' \<and> P (insert i (set hits)) r'" using step h(2,3) unfolding enumerate_all by blast
    then show "?I (hits @ [i]) ob'" using r(3) h(2) by auto
  qed
  then show ?thesis using entries_met_if by blast
qed

section \<open>The objects that are parsed\<close>

lemma wrap_simps [simp]:
  "wrap ty_Integer = IntegerO"
  "wrap ty_OctetString = OctetStringO"
  "wrap ty_Utf8String = Utf8StringO"
  "wrap ty_DataHash = DataHashO"
  "wrap ty_MetaDataElement = MetaDataElementO"
  "wrap ty_PublicationData = PublicationDataO"
  "wrap ty_PublicationRecord = PublicationRecordO"
  "wrap ty_HashChainLink = HashChainLinkO"
  "wrap ty_AggregationHashChain = AggregationHashChainO"
  "wrap ty_CalendarHashChain = CalendarHashChainO"
  "wrap ty_PKISignedData = PKISignedDataO"
  "wrap ty_CalendarAuthRec = CalendarAuthRecO"
  "wrap ty_AggregationAuthRec = AggregationAuthRecO"
  "wrap ty_RFC3161 = RFC3161O"
  "wrap ty_Signature = SignatureO"
  by (simp_all add: ty_defs)

lemma from_hash_ok: "from_value ty_DataHash KSI_DataHash_fromTlv tlv = Ok (DataHashO v, tlv') \<Longrightarrow> imprint_ok v"
  using from_value_Ok [of ty_DataHash KSI_DataHash_fromTlv tlv v] DataHash_fromTlv_ok by auto

lemma from_calendar_link:
  assumes "from_value ty_HashChainLink KSI_CalendarHashChainLink_fromTlv tlv = Ok (HashChainLinkO v, tlv')"
  shows "calendar_link v"
proof -
  have "KSI_CalendarHashChainLink_fromTlv tlv = (Inr v, tlv')"
    using assms from_value_Ok [of ty_HashChainLink KSI_CalendarHashChainLink_fromTlv tlv v tlv'] by simp
  then show ?thesis
    using DataHash_fromTlv_ok [of tlv]
    by (auto simp: KSI_CalendarHashChainLink_fromTlv_def calendar_link_def parsed_hash_def KSI_HashChainLink_new_def rbind_eq_Inr
        split: if_splits prod.splits)
qed

lemma parsed_publication_data:
  assumes "extractTlv (PublicationDataO KSI_PublicationData_new) tlv KSI_PublicationData_template = Ok (q, tlv')"
  shows "\<exists>pd. q = PublicationDataO pd \<and> parsed_publication pd"
proof -
  let ?P = "\<lambda>hits pd. (0 \<in> hits \<longrightarrow> pd_time pd \<noteq> None) \<and> (Suc 0 \<in> hits \<longrightarrow> parsed_hash (pd_imprint pd))"
  have "\<exists>pd hits. q = PublicationDataO pd \<and> ?P hits pd \<and> entries_met KSI_PublicationData_template hits"
    by (rule extract_record [where C = PublicationDataO, OF assms plain_templates(1)])
       (auto simp: KSI_PublicationData_template_def store_entry parsed_hash_def dest!: from_hash_ok)
  then show ?thesis by (auto simp: entries_met_def KSI_PublicationData_template_def parsed_publication_def)
qed

lemma publication_from_tlv:
  assumes "KSI_PublicationData_fromTlv (Some tlv) = Ok (pd, tlv')"
  shows "parsed_publication pd \<and> pd_baseTlv pd \<noteq> None"
  using assms parsed_publication_data
  by (auto simp: KSI_PublicationData_fromTlv_def KSI_TlvTemplate_extract_def run_bind_eq_Ok ty_PublicationData_def parsed_publication_def
      split: option.splits dest!: parsed_publication_data)

lemma parsed_publication_record:
  assumes "extractTlv (PublicationRecordO KSI_PublicationRecord_new) tlv KSI_PublicationRecord_template = Ok (q, tlv')"
  shows "\<exists>r. q = PublicationRecordO r \<and> parsed_record r"
proof -
  let ?P = "\<lambda>hits r. 0 \<in> hits \<longrightarrow> parsed_record r"
  have "\<exists>r hits. q = PublicationRecordO r \<and> ?P hits r \<and> entries_met KSI_PublicationRecord_template hits"
    by (rule extract_record [where C = PublicationRecordO, OF assms plain_templates(2)])
       (auto simp: KSI_PublicationRecord_template_def store_entry parsed_record_def dest!: parsed_publication_data)
  then show ?thesis by (auto simp: entries_met_def KSI_PublicationRecord_template_def)
qed

lemma parsed_cal_signed_data:
  assumes "extractTlv (PKISignedDataO KSI_PKISignedData_new) tlv KSI_CalAuthRecPKISignedData_template = Ok (q, tlv')"
  shows "\<exists>d. q = PKISignedDataO d \<and> parsed_signed_data d"
proof -
  let ?P = "\<lambda>hits d. (0 \<in> hits \<longrightarrow> sig_type d \<noteq> None) \<and> (Suc 0 \<in> hits \<longrightarrow> signatureValue d \<noteq> None) \<and> (Suc (Suc 0) \<in> hits \<longrightarrow> sd_certId d \<noteq> None)"
  have "\<exists>d hits. q = PKISignedDataO d \<and> ?P hits d \<and> entries_met KSI_CalAuthRecPKISignedData_template hits"
    by (rule extract_record [where C = PKISignedDataO, OF assms plain_templates(3)])
       (auto simp: KSI_CalAuthRecPKISignedData_template_def store_entry)
  then show ?thesis by (auto simp: entries_met_def KSI_CalAuthRecPKISignedData_template_def parsed_signed_data_def)
qed

lemma parsed_calendar_auth_rec:
  assumes "extractTlv (CalendarAuthRecO KSI_CalendarAuthRec_new) tlv KSI_CalendarAuthRec_template = Ok (q, tlv')"
  shows "\<exists>r. q = CalendarAuthRecO r \<and> parsed_auth_rec r"
proof -
  let ?P = "\<lambda>hits r. (0 \<in> hits \<longrightarrow> (\<exists>pd. pubData r = Some pd \<and> parsed_publication pd \<and> pd_baseTlv pd \<noteq> None))
    \<and> (Suc 0 \<in> hits \<longrightarrow> (\<exists>d. signatureData r = Some d \<and> parsed_signed_data d))"
  have "\<exists>r hits. q = CalendarAuthRecO r \<and> ?P hits r \<and> entries_met KSI_CalendarAuthRec_template hits"
    by (rule extract_record [where C = CalendarAuthRecO, OF assms plain_templates(6)])
       (auto simp: KSI_CalendarAuthRec_template_def store_entry run_bind_eq_Ok dest!: publication_from_tlv parsed_cal_signed_data)
  then show ?thesis by (auto simp: entries_met_def KSI_CalendarAuthRec_template_def parsed_auth_rec_def)
qed

lemma parsed_hash_chain_link:
  assumes "KSI_HashChainLink_fromTlv (Some tlv) = Ok (k, tlv')"
  shows "parsed_link k"
proof -
  let ?P = "\<lambda>hits k. (imprint k \<noteq> None \<longleftrightarrow> 1 \<in> hits) \<and> (legacyId k \<noteq> None \<longleftrightarrow> 2 \<in> hits) \<and> (metaData k \<noteq> None \<longleftrightarrow> 3 \<in> hits)
    \<and> (imprint k \<noteq> None \<longrightarrow> parsed_hash (imprint k))"
  obtain q tlv1 where q: "extractTlv (HashChainLinkO KSI_HashChainLink_new) tlv KSI_HashChainLink_template = Ok (q, tlv1)"
    "unwrap ty_HashChainLink q \<noteq> None" "k = (the (unwrap ty_HashChainLink q))\<lparr>isLeft := (tlv_tag tlv = 0x07)\<rparr>"
    using assms by (auto simp: KSI_HashChainLink_fromTlv_def KSI_TlvTemplate_extract_def run_bind_eq_Ok Let_def split: option.splits)
  have "\<exists>k hits. q = HashChainLinkO k \<and> ?P hits k \<and> entries_met KSI_HashChainLink_template hits"
    by (rule extract_record [where C = HashChainLinkO, OF q(1) plain_templates(7)], simp add: KSI_HashChainLink_new_def,
        simp add: KSI_HashChainLink_template_def eval_nat_numeral, intro conjI allI impI)
       (clarsimp simp: store_entry run_bind_eq_Ok parsed_hash_def dest!: from_hash_ok)+
  then obtain k' hits where k': "q = HashChainLinkO k'" "?P hits k'" "entries_met KSI_HashChainLink_template hits" by (elim exE conjE) simp
  note most = met_most [OF k'(3)] and least = met_least [OF k'(3), of 1]
  have t: "length KSI_HashChainLink_template = 4" "\<And>i. i \<in> {1, 2, 3} \<Longrightarrow> IS_FLAG_SET (KSI_HashChainLink_template ! i) FLG_MOST_ONE_G0"
    "\<And>i. i < 4 \<Longrightarrow> IS_FLAG_SET (KSI_HashChainLink_template ! i) FLG_LEAST_ONE_G0 \<Longrightarrow> i \<in> {1, 2, 3}"
    "IS_FLAG_SET (KSI_HashChainLink_template ! 1) FLG_LEAST_ONE_G0"
    by (auto simp: KSI_HashChainLink_template_def less_Suc_eq eval_nat_numeral)
  have "1 \<in> hits \<or> 2 \<in> hits \<or> 3 \<in> hits" using least t(1,3,4) by auto
  moreover have "\<not> (1 \<in> hits \<and> 2 \<in> hits)" "\<not> (1 \<in> hits \<and> 3 \<in> hits)" "\<not> (2 \<in> hits \<and> 3 \<in> hits)"
    using most [of 1 2] most [of 1 3] most [of 2 3] t(1,2) by auto
  ultimately have "parsed_link k'" using k'(2) unfolding parsed_link_def one_value_def by auto
  moreover have "k = k'\<lparr>isLeft := (tlv_tag tlv = 0x07)\<rparr>" using q(3) k'(1) by (simp add: ty_HashChainLink_def)
  ultimately show ?thesis by (simp add: parsed_link_def one_value_def)
qed

lemma from_link: "from_HashChainLink tlv = Ok (HashChainLinkO v, tlv') \<Longrightarrow> parsed_link v"
  by (auto simp: from_HashChainLink_def run_bind_eq_Ok dest: parsed_hash_chain_link)

lemma parsed_aggregation_chain:
  assumes "extractTlv (AggregationHashChainO KSI_AggregationHashChain_new) tlv KSI_AggregationHashChain_template = Ok (q, tlv')"
  shows "\<exists>c. q = AggregationHashChainO c \<and> parsed_chain c"
proof -
  let ?P = "\<lambda>hits c. (0 \<in> hits \<longrightarrow> aggregationTime c \<noteq> None) \<and> (1 \<in> hits \<longrightarrow> elements (chainIndex c) \<noteq> [])
    \<and> (3 \<in> hits \<longrightarrow> parsed_hash (inputHash c)) \<and> (4 \<in> hits \<longrightarrow> aggrHashId c \<noteq> None) \<and> (5 \<in> hits \<or> 6 \<in> hits \<longrightarrow> elements (chain c) \<noteq> [])
    \<and> list_all parsed_link (elements (chain c)) \<and> fresh_chain c"
  have "\<exists>c hits. q = AggregationHashChainO c \<and> ?P hits c \<and> entries_met KSI_AggregationHashChain_template hits"
    by (rule extract_record [where C = AggregationHashChainO, OF assms plain_templates(8)])
       (auto simp: KSI_AggregationHashChain_template_def KSI_AggregationHashChain_new_def store_entry parsed_hash_def fresh_chain_def elements_def
          eval_nat_numeral dest!: from_hash_ok from_link)
  then show ?thesis by (auto simp: entries_met_def KSI_AggregationHashChain_template_def parsed_chain_def eval_nat_numeral)
qed

lemma parsed_calendar_chain:
  assumes "extractTlv (CalendarHashChainO KSI_CalendarHashChain_new) tlv KSI_CalendarHashChain_template = Ok (q, tlv')"
  shows "\<exists>c. q = CalendarHashChainO c \<and> parsed_calendar c"
proof -
  let ?P = "\<lambda>hits c. (0 \<in> hits \<longrightarrow> publicationTime c \<noteq> None) \<and> (2 \<in> hits \<longrightarrow> parsed_hash (cal_inputHash c))
    \<and> (3 \<in> hits \<or> 4 \<in> hits \<longrightarrow> elements (hashChain c) \<noteq> []) \<and> list_all calendar_link (elements (hashChain c)) \<and> cal_outputHash c = None"
  have "\<exists>c hits. q = CalendarHashChainO c \<and> ?P hits c \<and> entries_met KSI_CalendarHashChain_template hits"
    by (rule extract_record [where C = CalendarHashChainO, OF assms plain_templates(9)])
       (auto simp: KSI_CalendarHashChain_template_def KSI_CalendarHashChain_new_def store_entry parsed_hash_def elements_def
          eval_nat_numeral dest!: from_hash_ok from_calendar_link)
  then show ?thesis by (auto simp: entries_met_def KSI_CalendarHashChain_template_def parsed_calendar_def eval_nat_numeral)
qed

lemma parsed_rfc3161_record:
  assumes "extractTlv (RFC3161O KSI_RFC3161_new) tlv KSI_RFC3161_template = Ok (q, tlv')"
  shows "\<exists>r. q = RFC3161O r \<and> parsed_rfc3161 r"
proof -
  let ?P = "\<lambda>hits r. (0 \<in> hits \<longrightarrow> rfc_aggregationTime r \<noteq> None) \<and> (1 \<in> hits \<longrightarrow> elements (rfc_chainIndex r) \<noteq> [])
    \<and> (2 \<in> hits \<longrightarrow> parsed_hash (rfc_inputHash r)) \<and> (3 \<in> hits \<longrightarrow> tstInfoPrefix r \<noteq> None) \<and> (4 \<in> hits \<longrightarrow> tstInfoSuffix r \<noteq> None)
    \<and> (5 \<in> hits \<longrightarrow> tstInfoAlgo r \<noteq> None) \<and> (6 \<in> hits \<longrightarrow> sigAttrPrefix r \<noteq> None) \<and> (7 \<in> hits \<longrightarrow> sigAttrSuffix r \<noteq> None)
    \<and> (8 \<in> hits \<longrightarrow> sigAttrAlgo r \<noteq> None)"
  have "\<exists>r hits. q = RFC3161O r \<and> ?P hits r \<and> entries_met KSI_RFC3161_template hits"
    by (rule extract_record [where C = RFC3161O, OF assms plain_templates(10)], simp,
        simp add: KSI_RFC3161_template_def eval_nat_numeral, intro conjI allI impI)
       (clarsimp simp: store_entry parsed_hash_def elements_def dest!: from_hash_ok)+
  then show ?thesis by (auto simp: entries_met_def KSI_RFC3161_template_def parsed_rfc3161_def eval_nat_numeral)
qed

end
