(* ===== verification/SignatureGrammar.thy ===== *)
theory SignatureGrammar
  imports ParsedObjects
begin

text \<open>
  The templates of the library meet the contract of accessors, so that each of them is a grammar in the sense of
  \<open>extractWith_iff\<close>.
\<close>

lemma get_field_simps [simp]:
  "get_field ty_PublicationData tv f1 (PublicationDataO r1) = Ok (map_option (wrap tv) (f1 r1))"
  "get_field ty_PublicationRecord tv f2 (PublicationRecordO r2) = Ok (map_option (wrap tv) (f2 r2))"
  "get_field ty_PKISignedData tv f3 (PKISignedDataO r3) = Ok (map_option (wrap tv) (f3 r3))"
  "get_field ty_CalendarAuthRec tv f4 (CalendarAuthRecO r4) = Ok (map_option (wrap tv) (f4 r4))"
  "get_field ty_HashChainLink tv f5 (HashChainLinkO r5) = Ok (map_option (wrap tv) (f5 r5))"
  "get_field ty_AggregationHashChain tv f6 (AggregationHashChainO r6) = Ok (map_option (wrap tv) (f6 r6))"
  "get_field ty_CalendarHashChain tv f7 (CalendarHashChainO r7) = Ok (map_option (wrap tv) (f7 r7))"
  "get_field ty_RFC3161 tv f8 (RFC3161O r8) = Ok (map_option (wrap tv) (f8 r8))"
  "get_field ty_Signature tv f9 (SignatureO r9) = Ok (map_option (wrap tv) (f9 r9))"
  by (simp_all add: get_field_def ty_defs)

lemma has_value_iff: "getValue t = Some g \<Longrightarrow> has_value t p \<longleftrightarrow> (\<exists>v. g p = Ok (Some v))"
  by (simp add: has_value_def)

lemma accessors_record:
  assumes "plain_template tmpl"
    and "list_all (\<lambda>t. \<forall>r. \<exists>g v. getValue t = Some g \<and> g (C r) = Ok v) tmpl"
    and "list_all (\<lambda>t. \<forall>r tlv ob' tlv'. storeElement sub_extract t (C r) tlv = Ok (ob', tlv') \<longrightarrow>
      (\<exists>r'. ob' = C r' \<and> (\<not> multiple t \<longrightarrow> has_value t (C r'))
         \<and> list_all (\<lambda>u. t \<noteq> u \<longrightarrow> \<not> multiple u \<longrightarrow> has_value u (C r') = has_value u (C r)) tmpl)) tmpl"
  shows "template_accessors sub_extract tmpl (\<lambda>ob. \<exists>r. ob = C r)"
proof
  show "\<exists>g v. getValue t = Some g \<and> g p = Ok v" if "t \<in> set tmpl" "\<exists>r. p = C r" for t p
    using that assms(2) by (auto simp: list_all_iff)
  fix t u p tlv p' tlv'
  assume t: "t \<in> set tmpl" "\<exists>r. p = C r" "storeElement sub_extract t p tlv = Ok (p', tlv')"
  then obtain r r' where r: "p = C r" "p' = C r'" "\<not> multiple t \<longrightarrow> has_value t (C r')"
    "list_all (\<lambda>u. t \<noteq> u \<longrightarrow> \<not> multiple u \<longrightarrow> has_value u (C r') = has_value u (C r)) tmpl"
    using assms(3) unfolding list_all_iff by metis
  then show "\<exists>r. p' = C r" by blast
  show "has_value t p'" if "\<not> multiple t" using r that by simp
  show "has_value u p' = has_value u p" if "u \<in> set tmpl" "t \<noteq> u" "\<not> multiple u" using r that by (simp add: list_all_iff)
qed (rule assms(1))

interpretation publication_template: template_accessors sub_extract KSI_PublicationData_template "\<lambda>ob. \<exists>r. ob = PublicationDataO r"
  by (rule accessors_record [OF plain_templates(1)]) (auto simp: KSI_PublicationData_template_def store_entry has_value_iff)

interpretation record_template: template_accessors sub_extract KSI_PublicationRecord_template "\<lambda>ob. \<exists>r. ob = PublicationRecordO r"
  by (rule accessors_record [OF plain_templates(2)]) (auto simp: KSI_PublicationRecord_template_def store_entry has_value_iff)

interpretation signed_data_template: template_accessors sub_extract KSI_CalAuthRecPKISignedData_template "\<lambda>ob. \<exists>r. ob = PKISignedDataO r"
  by (rule accessors_record [OF plain_templates(3)]) (auto simp: KSI_CalAuthRecPKISignedData_template_def store_entry has_value_iff)

interpretation auth_record_template: template_accessors sub_extract KSI_CalendarAuthRec_template "\<lambda>ob. \<exists>r. ob = CalendarAuthRecO r"
  by (rule accessors_record [OF plain_templates(6)]) (auto simp: KSI_CalendarAuthRec_template_def store_entry has_value_iff)

interpretation link_template: template_accessors sub_extract KSI_HashChainLink_template "\<lambda>ob. \<exists>r. ob = HashChainLinkO r"
  by (rule accessors_record [OF plain_templates(7)]) (auto simp: KSI_HashChainLink_template_def store_entry has_value_iff)

interpretation chain_template: template_accessors sub_extract KSI_AggregationHashChain_template "\<lambda>ob. \<exists>r. ob = AggregationHashChainO r"
  by (rule accessors_record [OF plain_templates(8)]) (auto simp: KSI_AggregationHashChain_template_def store_entry has_value_iff)

interpretation calendar_template: template_accessors sub_extract KSI_CalendarHashChain_template "\<lambda>ob. \<exists>r. ob = CalendarHashChainO r"
  by (rule accessors_record [OF plain_templates(9)]) (auto simp: KSI_CalendarHashChain_template_def store_entry has_value_iff)

interpretation rfc3161_template: template_accessors sub_extract KSI_RFC3161_template "\<lambda>ob. \<exists>r. ob = RFC3161O r"
  by (rule accessors_record [OF plain_templates(10)]) (auto simp: KSI_RFC3161_template_def store_entry has_value_iff)

interpretation signature_template: template_accessors sub_extract KSI_Signature_template "\<lambda>ob. \<exists>r. ob = SignatureO r"
  by (rule accessors_record [OF plain_templates(11)]) (auto simp: KSI_Signature_template_def store_entry has_value_iff)

section \<open>The grammar of a signature\<close>

definition element_reads :: "KSI_TLV \<Rightarrow> bool" where
  "element_reads t \<longleftrightarrow> (\<exists>e\<in>set KSI_Signature_template. tmpl_tag e = tlv_tag t
     \<and> (\<exists>new q. construct_new e = Ok new \<and> extractTlv new t (subTemplate e) = Ok q))"

definition signature_tags :: "u32 list \<Rightarrow> bool" where
  "signature_tags tags \<longleftrightarrow> set tags \<subseteq> {0x801, 0x802, 0x803, 0x804, 0x805, 0x806} \<and> 0x801 \<in> set tags
     \<and> distinct (filter (\<lambda>g. g \<noteq> 0x801) tags) \<and> \<not> (0x803 \<in> set tags \<and> 0x805 \<in> set tags)"

definition tag_at :: "nat \<Rightarrow> u32" where "tag_at i = tmpl_tag (KSI_Signature_template ! i)"

lemma less_6: "i < 6 \<longleftrightarrow> i = 0 \<or> i = 1 \<or> i = 2 \<or> i = 3 \<or> i = 4 \<or> i = (5 :: nat)"
  by arith

lemma six: "(\<forall>i<6. P i) \<longleftrightarrow> P 0 \<and> P 1 \<and> P 2 \<and> P 3 \<and> P 4 \<and> P (5 :: nat)"
  unfolding less_6 by blast

lemma tag_at_simps: "tag_at 0 = 0x801" "tag_at 1 = 0x802" "tag_at 2 = 0x803" "tag_at 3 = 0x804" "tag_at 4 = 0x805" "tag_at 5 = 0x806" "tag_at (Suc 0) = 0x802"
  by (simp_all add: tag_at_def KSI_Signature_template_def eval_nat_numeral)

lemma template_length: "length KSI_Signature_template = 6" by (simp add: KSI_Signature_template_def)

lemma template_flags:
  "\<forall>i<6. \<not> IS_FLAG_SET (KSI_Signature_template ! i) FLG_FIRST \<and> \<not> IS_FLAG_SET (KSI_Signature_template ! i) FLG_LAST
     \<and> \<not> IS_FLAG_SET (KSI_Signature_template ! i) FLG_FIXED_ORDER \<and> \<not> IS_FLAG_SET (KSI_Signature_template ! i) FLG_MOST_ONE_G1
     \<and> \<not> IS_FLAG_SET (KSI_Signature_template ! i) FLG_LEAST_ONE_G0 \<and> \<not> IS_FLAG_SET (KSI_Signature_template ! i) FLG_LEAST_ONE_G1
     \<and> (IS_FLAG_SET (KSI_Signature_template ! i) FLG_MOST_ONE_G0 \<longleftrightarrow> i = 2 \<or> i = 4)
     \<and> (IS_FLAG_SET (KSI_Signature_template ! i) FLG_MANDATORY \<longleftrightarrow> i = 0) \<and> (multiple (KSI_Signature_template ! i) \<longleftrightarrow> i = 0)"
  unfolding six by (simp add: KSI_Signature_template_def eval_nat_numeral)

lemma tag_at_inj: "inj_on tag_at {..<6}"
proof (rule inj_onI)
  show "i = j" if "i \<in> {..<6}" "j \<in> {..<6}" "tag_at i = tag_at j" for i j
    using that unfolding lessThan_iff less_6 by (elim disjE) (simp_all add: tag_at_simps)
qed

lemma hits_of_tags:
  assumes "set tags \<subseteq> {0x801, 0x802, 0x803, 0x804, 0x805, 0x806}"
  shows "\<exists>hits. set hits \<subseteq> {..<6} \<and> tags = map tag_at hits"
proof -
  have "{0x801, 0x802, 0x803, 0x804, 0x805, 0x806} = tag_at ` {..<6}"
  proof -
    have "{..<6} = {0, 1, 2, 3, 4, 5 :: nat}" unfolding lessThan_def less_6 by blast
    then show ?thesis by (simp add: tag_at_simps)
  qed
  then have "\<forall>g\<in>set tags. \<exists>i<6. g = tag_at i" using assms by auto
  then have "\<exists>f. \<forall>g\<in>set tags. f g < 6 \<and> g = tag_at (f g)" by metis
  then obtain f where "\<forall>g\<in>set tags. f g < 6 \<and> g = tag_at (f g)" by blast
  then show ?thesis by (intro exI [of _ "map f tags"]) (auto simp: map_idI)
qed

lemma distinct_at_most_one:
  assumes "distinct xs"
  shows "length (filter (\<lambda>i. i = a \<or> i = b) xs) \<le> 1 \<longleftrightarrow> \<not> (a \<in> set xs \<and> b \<in> set xs \<and> a \<noteq> b)"
proof -
  have "length (filter (\<lambda>i. i = a \<or> i = b) xs) = card ({a, b} \<inter> set xs)"
    using assms by (auto simp: distinct_card [symmetric] intro!: arg_cong [where f = card])
  then show ?thesis by (cases "a \<in> set xs"; cases "b \<in> set xs"; cases "a = b") (auto simp: card_insert_if)
qed

lemma grammar_tags:
  assumes "set hits \<subseteq> {..<6}"
  shows "in_order KSI_Signature_template hits \<and> is_complete KSI_Signature_template hits \<longleftrightarrow> signature_tags (map tag_at hits)"
proof -
  have f: "filter (\<lambda>i. \<not> multiple (KSI_Signature_template ! i)) hits = filter (\<lambda>i. i \<noteq> 0) hits"
    "filter (\<lambda>i. IS_FLAG_SET (KSI_Signature_template ! i) FLG_MOST_ONE_G0) hits = filter (\<lambda>i. i = 2 \<or> i = 4) hits"
    "filter (\<lambda>i. IS_FLAG_SET (KSI_Signature_template ! i) FLG_MOST_ONE_G1) hits = []"
    "filter (\<lambda>i. IS_FLAG_SET (KSI_Signature_template ! i) FLG_FIXED_ORDER) hits = []"
    using template_flags assms by (auto intro!: filter_cong simp: filter_empty_conv)
  have n: "hits ! k < 6" if "k < length hits" for k using that assms nth_mem by blast
  have g: "i \<in> set hits \<longleftrightarrow> tag_at i \<in> set (map tag_at hits)" if "i < 6" for i
    using that assms tag_at_inj by (auto simp: inj_on_def)
  have nine: "filter (\<lambda>g. g \<noteq> 0x801) (map tag_at hits) = map tag_at (filter (\<lambda>i. i \<noteq> 0) hits)"
  proof -
    have "tag_at i \<noteq> tag_at 0 \<longleftrightarrow> i \<noteq> 0" if "i \<in> set hits" for i
      using that assms inj_on_eq_iff [OF tag_at_inj, of i 0] by auto
    then have "filter ((\<lambda>g. g \<noteq> tag_at 0) \<circ> tag_at) hits = filter (\<lambda>i. i \<noteq> 0) hits" by (intro filter_cong) (simp_all only: o_def)
    then show ?thesis unfolding filter_map tag_at_simps(1) by simp
  qed
  have d: "distinct (filter (\<lambda>i. i \<noteq> 0) hits) \<longleftrightarrow> distinct (filter (\<lambda>g. g \<noteq> 0x801) (map tag_at hits))"
    unfolding nine distinct_map using inj_on_subset [OF tag_at_inj, of "set (filter (\<lambda>i. i \<noteq> 0) hits)"] assms by auto
  have e: "filter (\<lambda>i. i = 2 \<or> i = 4) hits = filter (\<lambda>i. i = 2 \<or> i = 4) (filter (\<lambda>i. i \<noteq> 0) hits)"
    by (simp cong: conj_cong) (auto intro!: filter_cong)
  have m: "length (filter (\<lambda>i. i = 2 \<or> i = 4) hits) \<le> 1 \<longleftrightarrow> \<not> (2 \<in> set hits \<and> 4 \<in> set hits)" if "distinct (filter (\<lambda>i. i \<noteq> 0) hits)"
    unfolding e distinct_at_most_one [OF that] by simp
  have t: "set (map tag_at hits) \<subseteq> {0x801, 0x802, 0x803, 0x804, 0x805, 0x806}"
    using assms unfolding set_map subset_iff lessThan_iff less_6 by (auto simp: tag_at_simps)
  have o: "in_order KSI_Signature_template hits \<longleftrightarrow> distinct (filter (\<lambda>i. i \<noteq> 0) hits) \<and> length (filter (\<lambda>i. i = 2 \<or> i = 4) hits) \<le> 1"
    unfolding in_order_def f using template_flags n by auto
  have c: "is_complete KSI_Signature_template hits \<longleftrightarrow> 0 \<in> set hits"
    unfolding is_complete_def template_length using template_flags by auto
  show ?thesis unfolding o c signature_tags_def using t d m g [of 0] g [of 2] g [of 4] by (auto simp: tag_at_simps)
qed

lemma aggregation_auth_rec_object:
  assumes "extractTlv (AggregationAuthRecO KSI_AggregationAuthRec_new) tlv KSI_AggregationAuthRec_template = Ok (q, tlv')"
  shows "\<exists>r. q = AggregationAuthRecO r"
proof -
  let ?P = "\<lambda>hits r. True"
  have "\<exists>r hits. q = AggregationAuthRecO r \<and> ?P hits r \<and> entries_met KSI_AggregationAuthRec_template hits"
    by (rule extract_record [where C = AggregationAuthRecO, OF assms plain_templates(5)])
       (auto simp: KSI_AggregationAuthRec_template_def store_entry)
  then show ?thesis by blast
qed

lemma construct_macro:
  "construct_new (KSI_TLV_COMPOSITE tg fs g s n tm) = Ok n" "construct_new (KSI_TLV_COMPOSITE_LIST tg fs g s n tm) = Ok n"
  by (simp_all add: macro_defs)

lemma object_kinds:
  "extractTlv (AggregationHashChainO KSI_AggregationHashChain_new) tlv KSI_AggregationHashChain_template = Ok (q, tlv') \<Longrightarrow> \<exists>r. q = AggregationHashChainO r"
  "extractTlv (CalendarHashChainO KSI_CalendarHashChain_new) tlv KSI_CalendarHashChain_template = Ok (q, tlv') \<Longrightarrow> \<exists>r. q = CalendarHashChainO r"
  "extractTlv (PublicationRecordO KSI_PublicationRecord_new) tlv KSI_PublicationRecord_template = Ok (q, tlv') \<Longrightarrow> \<exists>r. q = PublicationRecordO r"
  "extractTlv (CalendarAuthRecO KSI_CalendarAuthRec_new) tlv KSI_CalendarAuthRec_template = Ok (q, tlv') \<Longrightarrow> \<exists>r. q = CalendarAuthRecO r"
  "extractTlv (RFC3161O KSI_RFC3161_new) tlv KSI_RFC3161_template = Ok (q, tlv') \<Longrightarrow> \<exists>r. q = RFC3161O r"
  using parsed_aggregation_chain parsed_calendar_chain parsed_publication_record parsed_calendar_auth_rec parsed_rfc3161_record by blast+

lemma store_reads:
  assumes "i < 6"
  shows "(\<exists>s' tlv'. storeElement sub_extract (KSI_Signature_template ! i) (SignatureO s) tlv = Ok (SignatureO s', tlv')) \<longleftrightarrow>
     (\<exists>new q. construct_new (KSI_Signature_template ! i) = Ok new \<and> extractTlv new tlv (subTemplate (KSI_Signature_template ! i)) = Ok q)"
proof -
  have "\<forall>i<6. (\<exists>s' tlv'. storeElement sub_extract (KSI_Signature_template ! i) (SignatureO s) tlv = Ok (SignatureO s', tlv')) \<longleftrightarrow>
     (\<exists>new q. construct_new (KSI_Signature_template ! i) = Ok new \<and> extractTlv new tlv (subTemplate (KSI_Signature_template ! i)) = Ok q)"
    unfolding six
    by (auto simp: KSI_Signature_template_def store_entry eval_nat_numeral construct_macro
        dest: object_kinds aggregation_auth_rec_object)
  then show ?thesis using assms by blast
qed

lemma store_all_reads:
  assumes "length hits = length ts" "set hits \<subseteq> {..<6}"
  shows "(\<exists>q. store_all sub_extract KSI_Signature_template hits ts (SignatureO s) = Ok q) \<longleftrightarrow>
     list_all2 (\<lambda>i t. \<exists>new q. construct_new (KSI_Signature_template ! i) = Ok new \<and> extractTlv new t (subTemplate (KSI_Signature_template ! i)) = Ok q) hits ts"
  using assms
proof (induction hits ts arbitrary: s rule: list_induct2)
  case (Cons i hits t ts)
  let ?e = "KSI_Signature_template ! i"
  have i: "i < 6" and r: "set hits \<subseteq> {..<6}" using Cons.prems by auto
  show ?case
  proof (cases "\<exists>s' t'. storeElement sub_extract ?e (SignatureO s) t = Ok (SignatureO s', t')")
    case True
    then obtain s' t' where st: "storeElement sub_extract ?e (SignatureO s) t = Ok (SignatureO s', t')" by blast
    then have "(\<exists>q. store_all sub_extract KSI_Signature_template (i # hits) (t # ts) (SignatureO s) = Ok q)
        \<longleftrightarrow> (\<exists>q. store_all sub_extract KSI_Signature_template hits ts (SignatureO s') = Ok q)"
      by (auto simp: run_bind_eq_Ok)
    then show ?thesis using Cons.IH [OF r] store_reads [OF i, of s t] True by auto
  next
    case False
    have "storeElement sub_extract ?e (SignatureO s) t \<noteq> Ok q" for q
    proof
      assume q: "storeElement sub_extract ?e (SignatureO s) t = Ok q"
      then obtain p' t' where "storeElement sub_extract ?e (SignatureO s) t = Ok (p', t')" by (cases q) auto
      moreover from this have "\<exists>s'. p' = SignatureO s'"
        using signature_template.stored_valid [of ?e "SignatureO s" t p' t'] i by (auto simp: template_length)
      ultimately show False using False by blast
    qed
    then have "\<not> (\<exists>q. store_all sub_extract KSI_Signature_template (i # hits) (t # ts) (SignatureO s) = Ok q)"
      by (auto simp: run_bind_eq_Ok)
    then show ?thesis using store_reads [OF i, of s t] False by auto
  qed
qed simp

lemma entries_of_tags:
  "map (entry_of KSI_Signature_template) ts = map Some hits \<longleftrightarrow> set hits \<subseteq> {..<6} \<and> map tlv_tag ts = map tag_at hits"
proof -
  have "entry_of KSI_Signature_template t = Some i \<longleftrightarrow> i < 6 \<and> tlv_tag t = tag_at i" for t i
    using entry_of_Some [OF plain_templates(11)] by (auto simp: template_length tag_at_def)
  then show ?thesis
    by (induction ts hits rule: list_induct2') auto
qed

lemma signature_accepted:
  assumes "\<forall>t\<in>set ts. \<not> isNonCritical t"
  shows "(\<exists>q. extractWith sub_extract (SignatureO KSI_Signature_new) (map Ok ts) KSI_Signature_template = Ok q) \<longleftrightarrow>
     signature_tags (map tlv_tag ts) \<and> list_all element_reads ts"
proof -
  let ?p = "SignatureO KSI_Signature_new"
  have v: "\<exists>r. ?p = SignatureO r" by blast
  have n: "\<forall>t\<in>set KSI_Signature_template. \<not> has_value t ?p"
    by (auto simp: KSI_Signature_template_def has_value_iff KSI_Signature_new_def)
  note iff = signature_template.extractWith_iff [OF v n assms]
  have reads: "list_all2 (\<lambda>i t. \<exists>new q. construct_new (KSI_Signature_template ! i) = Ok new \<and> extractTlv new t (subTemplate (KSI_Signature_template ! i)) = Ok q) hits ts
      \<longleftrightarrow> list_all element_reads ts" if h: "set hits \<subseteq> {..<6}" "map tlv_tag ts = map tag_at hits" for hits
  proof -
    have "element_reads t \<longleftrightarrow> (\<exists>new q. construct_new (KSI_Signature_template ! i) = Ok new \<and> extractTlv new t (subTemplate (KSI_Signature_template ! i)) = Ok q)"
      if "i < 6" "tlv_tag t = tag_at i" for t i
    proof -
      have "e = KSI_Signature_template ! i" if "e \<in> set KSI_Signature_template" "tmpl_tag e = tlv_tag t" for e
        using that \<open>i < 6\<close> \<open>tlv_tag t = tag_at i\<close> plain_tags [OF plain_templates(11)]
        by (auto simp: in_set_conv_nth template_length tag_at_def)
      moreover have "KSI_Signature_template ! i \<in> set KSI_Signature_template" using that(1) by (simp add: template_length)
      ultimately show ?thesis using that(2) unfolding element_reads_def tag_at_def by metis
    qed
    then show ?thesis using h by (induction hits ts rule: list_induct2') auto
  qed
  show ?thesis
  proof
    assume "\<exists>q. extractWith sub_extract ?p (map Ok ts) KSI_Signature_template = Ok q"
    then obtain hits q where h: "set hits \<subseteq> {..<6}" "map tlv_tag ts = map tag_at hits" "in_order KSI_Signature_template hits"
      "is_complete KSI_Signature_template hits" "store_all sub_extract KSI_Signature_template hits ts ?p = Ok q"
      using iff unfolding entries_of_tags by (metis surj_pair)
    have "length hits = length ts" using arg_cong [OF h(2), of length] by simp
    then show "signature_tags (map tlv_tag ts) \<and> list_all element_reads ts"
      using grammar_tags [OF h(1)] h(2-5) reads [OF h(1,2)] store_all_reads [OF _ h(1), of ts KSI_Signature_new] by auto
  next
    assume r: "signature_tags (map tlv_tag ts) \<and> list_all element_reads ts"
    then obtain hits where h: "set hits \<subseteq> {..<6}" "map tlv_tag ts = map tag_at hits"
      using hits_of_tags [of "map tlv_tag ts"] by (auto simp: signature_tags_def)
    have "length hits = length ts" using arg_cong [OF h(2), of length] by simp
    then have "\<exists>q. store_all sub_extract KSI_Signature_template hits ts ?p = Ok q"
      using store_all_reads [OF _ h(1), of ts KSI_Signature_new] reads [OF h] r by auto
    then show "\<exists>q. extractWith sub_extract ?p (map Ok ts) KSI_Signature_template = Ok q"
      using iff grammar_tags [OF h(1)] h r unfolding entries_of_tags by (metis surj_pair)
  qed
qed

section \<open>Repeated elements\<close>

lemma generatorLoop_append:
  "generatorLoop sub tmpl (gs @ hs) ob st =
     run_bind (generatorLoop sub tmpl gs ob st) (\<lambda>(ob, st, l).
     run_bind (generatorLoop sub tmpl hs ob st) (\<lambda>(ob, st, l'). Ok (ob, st, l @ l')))"
proof (induction gs arbitrary: ob st)
  case Nil
  show ?case by (cases "generatorLoop sub tmpl hs ob st") auto
next
  case (Cons g gs)
  show ?case by (auto simp: Cons.IH run_bind_assoc run_check_def case_prod_unfold intro!: run_bind_cong)
qed

lemma entryLoop_start:
  assumes p: "plain_template tmpl" and e: "entryLoop sub tmpl (tmplStart st) tlv ob st 0 = Ok (ob', tlv', st', n)"
  shows "tmplStart st \<le> tmplStart st' \<and> (tmplStart st = 0 \<longrightarrow> tlv_tag tlv = tmpl_tag (tmpl ! 0) \<longrightarrow> \<not> multiple (tmpl ! 0) \<longrightarrow> 0 < tmplStart st')"
proof (cases "\<exists>i<length tmpl. tmplStart st \<le> i \<and> tmpl_tag (tmpl ! i) = tlv_tag tlv")
  case True
  then obtain i where i: "i < length tmpl" "tmpl_tag (tmpl ! i) = tlv_tag tlv" "tmplStart st \<le> i" by blast
  let ?st = "if i = tmplStart st \<and> \<not> multiple (tmpl ! i) then st\<lparr>tmplStart := Suc (tmplStart st)\<rparr> else st"
  from e have "matchedEntry sub (tmpl ! i) i tlv ob ?st = Ok (ob', tlv', st')"
    unfolding entryLoop_found [OF p i] by (auto simp: run_bind_eq_Ok)
  then have "st' = hit_state (tmpl ! i) i ?st" using matchedEntry_Ok by metis
  then have s: "tmplStart st' = tmplStart ?st" by (simp add: hit_state_def)
  moreover have "i = 0" if "tlv_tag tlv = tmpl_tag (tmpl ! 0)" using plain_tags [OF p i(1), of 0] i that by fastforce
  ultimately show ?thesis by auto
next
  case False
  have "tmpl \<noteq> []" using p by (simp add: plain_template_def)
  moreover have "entryLoop sub tmpl (tmplStart st) tlv ob st 0 = Ok (ob, tlv, st, 0)" using False by (intro entryLoop_none [OF p]) blast
  ultimately show ?thesis using e False by auto
qed

lemma generatorLoop_start:
  assumes p: "plain_template tmpl" and "\<not> multiple (tmpl ! 0)" and "generatorLoop sub tmpl (map Ok ts) ob st = Ok (q, st', left)"
  shows "tmplStart st \<le> tmplStart st' \<and> ((\<exists>t\<in>set ts. tlv_tag t = tmpl_tag (tmpl ! 0)) \<longrightarrow> 0 < tmplStart st')"
  using assms(3)
proof (induction ts arbitrary: ob st left)
  case (Cons t ts)
  obtain ob1 t1 st1 n left1 where "entryLoop sub tmpl (tmplStart st) t ob st 0 = Ok (ob1, t1, st1, n)"
    "generatorLoop sub tmpl (map Ok ts) ob1 st1 = Ok (q, st', left1)"
    using Cons.prems by (auto simp: run_bind_eq_Ok)
  then show ?case using entryLoop_start [OF p] Cons.IH assms(2) by fastforce
qed simp

lemma repeated_ignored:
  assumes p: "plain_template tmpl" "\<not> multiple (tmpl ! 0)" and e: "extractWith sub ob (map Ok ts) tmpl = Ok (q, left)"
    and t: "\<exists>t\<in>set ts. tlv_tag t = tmpl_tag (tmpl ! 0)" and d: "tlv_tag d = tmpl_tag (tmpl ! 0)" "isNonCritical d"
  shows "extractWith sub ob (map Ok (ts @ [d])) tmpl = Ok (q, left @ [d])"
proof -
  obtain st where st: "generatorLoop sub tmpl (map Ok ts) ob generator_start = Ok (q, st, left)"
    "\<not> (\<exists>i<getTemplateLength tmpl. missingEntry tmpl st i)" "getTemplateLength tmpl \<noteq> 0" "getTemplateLength tmpl \<le> MAX_TEMPLATE_SIZE"
    using e by (auto simp: extractWith_def run_bind_eq_Ok)
  have "0 < tmplStart st" using generatorLoop_start [OF p st(1)] t by blast
  then have "entryLoop sub tmpl (tmplStart st) d q st 0 = Ok (q, d, st, 0)"
    using plain_tags [OF p(1), of _ 0] d(1) p(1) by (intro entryLoop_none [OF p(1)]) (fastforce simp: plain_template_def)
  then have "generatorLoop sub tmpl (map Ok (ts @ [d])) ob generator_start = Ok (q, st, left @ [d])"
    using st(1) d(2) by (simp add: generatorLoop_append)
  then show ?thesis using st(2-4) by (simp add: extractWith_def)
qed

section \<open>A sample\<close>

definition raw_tlv :: "u32 \<Rightarrow> bytes \<Rightarrow> KSI_TLV" where
  "raw_tlv tg p = KSI_TLV False False tg BufNull None p 0"

definition nest_tlv :: "u32 \<Rightarrow> KSI_TLV list \<Rightarrow> KSI_TLV" where
  "nest_tlv tg l = KSI_TLV False False tg BufNull (Some l) [] 0"

definition sample_im :: bytes where "sample_im = 0 # replicate 20 1"

definition sample_chain_tlv :: KSI_TLV where
  "sample_chain_tlv = nest_tlv 0x801 [raw_tlv 2 [5], raw_tlv 3 [3], raw_tlv 5 sample_im, raw_tlv 6 [], nest_tlv 7 [raw_tlv 2 sample_im]]"

lemma raw_tlv_simps [simp]: "tlv_tag (raw_tlv tg p) = tg" "tlv_tag (nest_tlv tg l) = tg" "\<not> isNonCritical (raw_tlv tg p)" "\<not> isNonCritical (nest_tlv tg l)"
  "KSI_TLV_getNestedList (nest_tlv tg l) = Inr (l, nest_tlv tg l)" "set_nested (Some l') (nest_tlv tg l) = nest_tlv tg l'"
  by (simp_all add: raw_tlv_def nest_tlv_def KSI_TLV_getNestedList_def)

lemma raw_tlv_raw [simp]: "KSI_TLV_getRawValue (raw_tlv tg p) = (None, p, raw_tlv tg p)"
  by (simp add: KSI_TLV_getRawValue_def raw_tlv_def)

lemma sample_im_ok: "imprint_ok sample_im" by code_simp

lemma minsizes: "KSI_UINT64_MINSIZE 5 = 1" "KSI_UINT64_MINSIZE 3 = 1" by code_simp+

lemma raw_values [simp]:
  "KSI_DataHash_fromTlv (raw_tlv tg sample_im) = (Inr sample_im, raw_tlv tg sample_im)"
  "KSI_Integer_fromTlv (raw_tlv tg [5]) = (Inr 5, raw_tlv tg [5])" "KSI_Integer_fromTlv (raw_tlv tg [3]) = (Inr 3, raw_tlv tg [3])"
  "KSI_Integer_fromTlv (raw_tlv tg []) = (Inr 0, raw_tlv tg [])"
  using sample_im_ok fromImprint_iff [of sample_im] minsizes
  by (simp_all add: KSI_DataHash_fromTlv_def KSI_Integer_fromTlv_def with_raw_def decodeInt_def be_val_def)

context template_accessors
begin

lemma extract_accepts:
  assumes "valid p" "\<forall>t\<in>set tmpl. \<not> has_value t p" "\<forall>t\<in>set ts. \<not> isNonCritical t" "map (entry_of tmpl) ts = map Some hits"
    "in_order tmpl hits" "is_complete tmpl hits" "store_all sub tmpl hits ts p = Ok (q, left)"
  shows "extractWith sub p (map Ok ts) tmpl = Ok (q, left)"
  using extractWith_iff [OF assms(1-3)] assms(4-) by blast

end

lemma extract_nested:
  assumes "extractWith sub_extract p (map Ok l) tmpl = Ok (q, left)"
  shows "extractTlv p (nest_tlv tg l) tmpl = Ok (q, nest_tlv tg left)"
  using assms by (subst extractTlv.simps) simp

lemma sample_link:
  "extractTlv (HashChainLinkO KSI_HashChainLink_new) (nest_tlv 7 [raw_tlv 2 sample_im]) KSI_HashChainLink_template
     = Ok (HashChainLinkO (KSI_HashChainLink_new\<lparr>imprint := Some sample_im\<rparr>), nest_tlv 7 [raw_tlv 2 sample_im])"
proof (rule extract_nested, rule link_template.extract_accepts [where hits = "[1]"])
  show "map (entry_of KSI_HashChainLink_template) [raw_tlv 2 sample_im] = map Some [1]"
    by (simp add: entry_of_Some [OF plain_templates(7)]) (simp add: KSI_HashChainLink_template_def)
qed (auto simp: KSI_HashChainLink_template_def has_value_iff KSI_HashChainLink_new_def in_order_def is_complete_def less_Suc_eq run_bind_eq_Ok
      store_entry from_value_def)

lemma sample_link_from: "from_HashChainLink (nest_tlv 7 [raw_tlv 2 sample_im])
     = Ok (HashChainLinkO (KSI_HashChainLink_new\<lparr>imprint := Some sample_im, isLeft := True\<rparr>), nest_tlv 7 [raw_tlv 2 sample_im])"
  by (simp add: from_HashChainLink_def KSI_HashChainLink_fromTlv_def KSI_TlvTemplate_extract_def sample_link ty_HashChainLink_def)

definition sample_parsed_chain :: KSI_AggregationHashChain where
  "sample_parsed_chain = KSI_AggregationHashChain_new\<lparr>aggregationTime := Some 5, chainIndex := Some [3], inputHash := Some sample_im,
     aggrHashId := Some 0, chain := Some [KSI_HashChainLink_new\<lparr>imprint := Some sample_im, isLeft := True\<rparr>]\<rparr>"

lemma sample_chain:
  "extractTlv (AggregationHashChainO KSI_AggregationHashChain_new) sample_chain_tlv KSI_AggregationHashChain_template
     = Ok (AggregationHashChainO sample_parsed_chain, sample_chain_tlv)"
  unfolding sample_chain_tlv_def
proof (rule extract_nested, rule chain_template.extract_accepts [where hits = "[0, 1, 3, 4, 5]"])
  show "map (entry_of KSI_AggregationHashChain_template)
      [raw_tlv 2 [5], raw_tlv 3 [3], raw_tlv 5 sample_im, raw_tlv 6 [], nest_tlv 7 [raw_tlv 2 sample_im]] = map Some [0, 1, 3, 4, 5]"
    by (simp add: entry_of_Some [OF plain_templates(8)]) (simp add: KSI_AggregationHashChain_template_def)
qed (auto simp: KSI_AggregationHashChain_template_def has_value_iff KSI_AggregationHashChain_new_def in_order_def is_complete_def less_Suc_eq
      run_bind_eq_Ok store_entry from_value_def sample_parsed_chain_def elements_def sample_link_from)

definition sample_signature_tlv :: KSI_TLV where
  "sample_signature_tlv = nest_tlv 0x800 [sample_chain_tlv]"

lemma sample_chain_tlv_simps [simp]: "tlv_tag sample_chain_tlv = 0x801" "\<not> isNonCritical sample_chain_tlv"
  by (simp_all add: sample_chain_tlv_def)

lemma sample_signature_read:
  "extractTlv (SignatureO KSI_Signature_new) sample_signature_tlv KSI_Signature_template
     = Ok (SignatureO (KSI_Signature_new\<lparr>aggregationChainList := Some [sample_parsed_chain]\<rparr>), sample_signature_tlv)"
  unfolding sample_signature_tlv_def
proof (rule extract_nested, rule signature_template.extract_accepts [where hits = "[0]"])
  show "map (entry_of KSI_Signature_template) [sample_chain_tlv] = map Some [0]"
    by (simp add: entry_of_Some [OF plain_templates(11)]) (simp add: KSI_Signature_template_def)
qed (auto simp: KSI_Signature_template_def has_value_iff KSI_Signature_new_def in_order_def is_complete_def less_Suc_eq
      run_bind_eq_Ok store_entry elements_def sample_chain)

definition sample_pub_tlv :: KSI_TLV where
  "sample_pub_tlv = nest_tlv 0x10 [raw_tlv 2 [5], raw_tlv 4 sample_im]"

lemma sample_pub:
  "extractTlv (PublicationDataO KSI_PublicationData_new) sample_pub_tlv KSI_PublicationData_template
     = Ok (PublicationDataO (KSI_PublicationData_new\<lparr>pd_time := Some 5, pd_imprint := Some sample_im\<rparr>), sample_pub_tlv)"
  unfolding sample_pub_tlv_def
proof (rule extract_nested, rule publication_template.extract_accepts [where hits = "[0, 1]"])
  show "map (entry_of KSI_PublicationData_template) [raw_tlv 2 [5], raw_tlv 4 sample_im] = map Some [0, 1]"
    by (simp add: entry_of_Some [OF plain_templates(1)]) (simp add: KSI_PublicationData_template_def)
qed (auto simp: KSI_PublicationData_template_def has_value_iff KSI_PublicationData_new_def in_order_def is_complete_def less_Suc_eq
      run_bind_eq_Ok store_entry from_value_def)

section \<open>Properties\<close>

text \<open>C9. The grammar of a signature.  A TLV with critical elements only is read as a signature exactly when its elements are
  aggregation chains, at least one, and at most one each of a calendar chain, a publication record, an aggregation
  authentication record, a calendar authentication record and an RFC 3161 record, not both of a publication record and a calendar
  authentication record, in any order, and each element can be read by its own template.\<close>

theorem signature_grammar:
  assumes "KSI_TLV_getNestedList tlv = Inr (ts, tlv1)" and "\<forall>t\<in>set ts. \<not> isNonCritical t"
  shows "(\<exists>q. KSI_TlvTemplate_extract (Some (SignatureO KSI_Signature_new)) (Some tlv) (Some KSI_Signature_template) = Ok q) \<longleftrightarrow>
     signature_tags (map tlv_tag ts) \<and> list_all element_reads ts"
proof -
  have "(\<exists>q. KSI_TlvTemplate_extract (Some (SignatureO KSI_Signature_new)) (Some tlv) (Some KSI_Signature_template) = Ok q) \<longleftrightarrow>
      (\<exists>q. extractWith sub_extract (SignatureO KSI_Signature_new) (map Ok ts) KSI_Signature_template = Ok q)"
    using assms(1) by (auto simp: KSI_TlvTemplate_extract_def extractTlv.simps [of _ tlv] run_bind_eq_Ok)
  then show ?thesis using signature_accepted [OF assms(2)] by simp
qed

theorem signature_grammar_witness:
  "(\<exists>q. KSI_TlvTemplate_extract (Some (SignatureO KSI_Signature_new)) (Some sample_signature_tlv) (Some KSI_Signature_template) = Ok q)
   \<and> \<not> (\<exists>q. KSI_TlvTemplate_extract (Some (SignatureO KSI_Signature_new)) (Some (nest_tlv 0x800 [sample_chain_tlv, raw_tlv 0x803 [], raw_tlv 0x805 []]))
              (Some KSI_Signature_template) = Ok q)"
proof -
  have "element_reads sample_chain_tlv"
    unfolding element_reads_def by (rule bexI [of _ "KSI_Signature_template ! 0"]) (simp_all add: KSI_Signature_template_def construct_macro sample_chain)
  then have 1: "signature_tags (map tlv_tag [sample_chain_tlv]) \<and> list_all element_reads [sample_chain_tlv]" by (simp add: signature_tags_def)
  have 2: "\<not> signature_tags (map tlv_tag [sample_chain_tlv, raw_tlv 0x803 [], raw_tlv 0x805 []])" by (simp add: signature_tags_def)
  show ?thesis
    using signature_grammar [of sample_signature_tlv "[sample_chain_tlv]" sample_signature_tlv]
      signature_grammar [of "nest_tlv 0x800 [sample_chain_tlv, raw_tlv 0x803 [], raw_tlv 0x805 []]"
        "[sample_chain_tlv, raw_tlv 0x803 [], raw_tlv 0x805 []]" "nest_tlv 0x800 [sample_chain_tlv, raw_tlv 0x803 [], raw_tlv 0x805 []]"] 1 2
    by (simp add: sample_signature_tlv_def)
qed

text \<open>A repeated element can be ignored.  When the first entry of a template has been met, the search begins behind it: a second
  publication time that is marked as non-critical is not noticed, and the object has the first one.\<close>

theorem repeated_time_ignored:
  assumes "nested tlv = Some ts"
    and "KSI_TlvTemplate_extract (Some (PublicationDataO KSI_PublicationData_new)) (Some tlv) (Some KSI_PublicationData_template) = Ok (q, left)"
    and "\<exists>t\<in>set ts. tlv_tag t = 0x02" and "tlv_tag d = 0x02" and "isNonCritical d"
  shows "\<exists>left'. KSI_TlvTemplate_extract (Some (PublicationDataO KSI_PublicationData_new)) (Some (set_nested (Some (ts @ [d])) tlv))
     (Some KSI_PublicationData_template) = Ok (q, left')"
proof -
  have n: "KSI_TLV_getNestedList tlv = Inr (ts, tlv)" using assms(1) by (simp add: KSI_TLV_getNestedList_def)
  obtain l where l: "extractWith sub_extract (PublicationDataO KSI_PublicationData_new) (map Ok ts) KSI_PublicationData_template = Ok (q, l)"
    using assms(2) n by (auto simp: KSI_TlvTemplate_extract_def extractTlv.simps [of _ tlv] run_bind_eq_Ok)
  have t: "tmpl_tag (KSI_PublicationData_template ! 0) = 0x02" "\<not> multiple (KSI_PublicationData_template ! 0)"
    by (simp_all add: KSI_PublicationData_template_def)
  have "extractWith sub_extract (PublicationDataO KSI_PublicationData_new) (map Ok (ts @ [d])) KSI_PublicationData_template = Ok (q, l @ [d])"
    using assms(3-5) t(1) by (intro repeated_ignored [OF plain_templates(1) t(2) l]) simp_all
  moreover have "KSI_TLV_getNestedList (set_nested (Some (ts @ [d])) tlv) = Inr (ts @ [d], set_nested (Some (ts @ [d])) tlv)"
    by (cases tlv) (simp add: KSI_TLV_getNestedList_def)
  ultimately show ?thesis by (simp add: KSI_TlvTemplate_extract_def extractTlv.simps [of _ "set_nested (Some (ts @ [d])) tlv"])
qed

theorem repeated_time_ignored_witness:
  "\<exists>left. KSI_TlvTemplate_extract (Some (PublicationDataO KSI_PublicationData_new))
     (Some (nest_tlv 0x10 [raw_tlv 2 [5], raw_tlv 4 sample_im, KSI_TLV True False 2 BufNull None [3] 0])) (Some KSI_PublicationData_template)
     = Ok (PublicationDataO (KSI_PublicationData_new\<lparr>pd_time := Some 5, pd_imprint := Some sample_im\<rparr>), left)"
  using repeated_time_ignored [of sample_pub_tlv "[raw_tlv 2 [5], raw_tlv 4 sample_im]"
      "PublicationDataO (KSI_PublicationData_new\<lparr>pd_time := Some 5, pd_imprint := Some sample_im\<rparr>)" sample_pub_tlv
      "KSI_TLV True False 2 BufNull None [3] 0"] sample_pub
  by (simp add: KSI_TlvTemplate_extract_def) (simp add: sample_pub_tlv_def nest_tlv_def)


end
