(* ===== verification/SignatureBuilder.thy ===== *)
theory SignatureBuilder
  imports SignatureGrammar TreeBuilder KsiList
begin

text \<open>
  The signature builder of \<^verbatim>\<open>src/src/ksi/signature_builder.c\<close> and the parser, copy and serialization of a signature of
  \<^verbatim>\<open>signature.c\<close>.  A builder owns a signature object and the TLV it corresponds to; its operations change both.  An operation
  returns its outcome with the object as it leaves it, also when it fails.

  \<open>adr\<close> gives the addresses of the aggregation chains, by which chains without an index are ordered.
\<close>

section \<open>Steps on a signature\<close>

type_synonym 'a sig_step = "'a run \<times> KSI_SignatureObject"

definition sbind :: "'a run \<times> 's \<Rightarrow> ('a \<Rightarrow> 's \<Rightarrow> 'b run \<times> 's) \<Rightarrow> 'b run \<times> 's" where
  "sbind m k = (case m of (Ok x, s) \<Rightarrow> k x s | (Err e, s) \<Rightarrow> (Err e, s) | (Fault, s) \<Rightarrow> (Fault, s))"

definition scheck :: "bool \<Rightarrow> ksi_err \<Rightarrow> 's \<Rightarrow> 'b run \<times> 's \<Rightarrow> 'b run \<times> 's" where
  "scheck bad e s k = (if bad then (Err e, s) else k)"

text \<open>A call that does not change the signature.\<close>

definition pure :: "'a run \<Rightarrow> KSI_SignatureObject \<Rightarrow> 'a sig_step" where
  "pure r sig = (r, sig)"

section \<open>The TLV of a signature\<close>

text \<open>\<^verbatim>\<open>KSI_TLV_getNestedList\<close> on the TLV of the signature, which it splits.\<close>

definition base_nested :: "KSI_SignatureObject \<Rightarrow> KSI_TLV list sig_step" where
  "base_nested sig =
     (case baseTlv sig of None \<Rightarrow> (Err KSI_INVALID_ARGUMENT, sig)
      | Some b \<Rightarrow>
          (case KSI_TLV_getNestedList b of
             Inl e \<Rightarrow> (Err e, sig)
           | Inr (l, b) \<Rightarrow> (Ok l, sig\<lparr>baseTlv := Some b\<rparr>)))"

definition set_base_nested :: "KSI_TLV list \<Rightarrow> KSI_SignatureObject \<Rightarrow> KSI_SignatureObject" where
  "set_base_nested l sig = sig\<lparr>baseTlv := map_option (set_nested (Some l)) (baseTlv sig)\<rparr>"

text \<open>\<^verbatim>\<open>KSI_TLV_replaceNestedTlv\<close> for the element whose address was read at a position of the list.\<close>

definition replace_base :: "nat option \<Rightarrow> KSI_TLV \<Rightarrow> KSI_SignatureObject \<Rightarrow> unit sig_step" where
  "replace_base pos newTlv sig =
     (case (pos, Option.bind (baseTlv sig) nested) of
        (Some i, Some l) \<Rightarrow> (Ok (), set_base_nested (l[i := newTlv]) sig)
      | _ \<Rightarrow> (Err KSI_INVALID_ARGUMENT, sig))"

definition append_base :: "KSI_TLV \<Rightarrow> KSI_SignatureObject \<Rightarrow> unit sig_step" where
  "append_base newTlv sig =
     (case KSI_TLV_appendNestedTlv (baseTlv sig) (Some newTlv) of
        Inl e \<Rightarrow> (Err e, sig) | Inr b \<Rightarrow> (Ok (), sig\<lparr>baseTlv := Some b\<rparr>))"

definition removeCalAuthAndPublication :: "KSI_SignatureObject \<Rightarrow> unit sig_step" where
  "removeCalAuthAndPublication sig =
     sbind (base_nested sig) (\<lambda>l sig.
       (Ok (), (set_base_nested (filter (\<lambda>t. tlv_tag t \<noteq> 0x0803 \<and> tlv_tag t \<noteq> 0x0805) l) sig)\<lparr>calendarAuthRec := None, publication := None\<rparr>))"

text \<open>The position of the TLV that the loop ends with: the first calendar chain, or else the last element.\<close>

definition oldCalChain :: "KSI_TLV list \<Rightarrow> nat option" where
  "oldCalChain l =
     (if l = [] then None else Some (min (length (takeWhile (\<lambda>t. tlv_tag t \<noteq> 0x0802) l)) (length l - 1)))"

definition replaceCalendarChain :: "KSI_CalendarHashChain \<Rightarrow> KSI_SignatureObject \<Rightarrow> unit sig_step" where
  "replaceCalendarChain cal sig =
     sbind (base_nested sig) (\<lambda>l sig.
     sbind (pure (KSI_TlvTemplate_construct (Some (KSI_TLV_new 0x0802 False False)) (Some (CalendarHashChainO cal))
                    (Some KSI_CalendarHashChain_template)) sig) (\<lambda>newCalChainTlv sig.
     sbind (if calendarChain sig = None then append_base newCalChainTlv sig
            else replace_base (oldCalChain l) newCalChainTlv sig) (\<lambda>_ sig.
       (Ok (), sig\<lparr>calendarChain := Some cal\<rparr>))))"

section \<open>Level corrections\<close>

text \<open>\<^verbatim>\<open>add\<close> and \<^verbatim>\<open>sub\<close> of the source.\<close>

definition level_add :: "u64 \<Rightarrow> u64 \<Rightarrow> u64 ksi_result" where
  "level_add r l = (let t = r + l in if t < r \<or> t < l then Inl KSI_BUFFER_OVERFLOW else Inr t)"

definition level_sub :: "u64 \<Rightarrow> u64 \<Rightarrow> u64 ksi_result" where
  "level_sub r l = (if r < l then Inl KSI_INVALID_FORMAT else Inr (r - l))"

text \<open>The search for the TLV of a chain: the TLVs that are compared are split on the way.\<close>

fun findChain :: "KSI_AggregationHashChain \<Rightarrow> nat \<Rightarrow> KSI_TLV list \<Rightarrow> (nat option \<times> KSI_TLV list) run" where
  "findChain aggr i [] = Ok (None, [])"
| "findChain aggr i (t # ts) =
     (if tlv_tag t = 0x0801 then
        run_bind (KSI_TlvTemplate_extract (Some (AggregationHashChainO KSI_AggregationHashChain_new)) (Some t) (Some KSI_AggregationHashChain_template))
          (\<lambda>(ob, t).
             (case unwrap ty_AggregationHashChain ob of None \<Rightarrow> Fault
              | Some aggrFromTlv \<Rightarrow>
                  if KSI_AggregationHashChain_compare (Some aggr, 0) (Some aggrFromTlv, 1) = 0 then Ok (Some i, t # ts)
                  else run_bind (findChain aggr (Suc i) ts) (\<lambda>(pos, ts). Ok (pos, t # ts))))
      else run_bind (findChain aggr (Suc i) ts) (\<lambda>(pos, ts). Ok (pos, t # ts)))"

definition valid_level :: "u64 \<Rightarrow> bool" where
  "valid_level l = KSI_IS_VALID_TREE_LEVEL (int (unat l))"

definition updateLevelCorrection ::
    "u64 \<Rightarrow> (u64 \<Rightarrow> u64 \<Rightarrow> u64 ksi_result) \<Rightarrow> KSI_SignatureObject \<Rightarrow> unit sig_step" where
  "updateLevelCorrection rootLevel calcLevelCorrection sig =
     (if rootLevel = 0 then (Ok (), sig)
      else
        scheck (\<not> valid_level rootLevel) KSI_INVALID_FORMAT sig (
        sbind (pure (run_of (element_at (aggregationChainList sig) 0)) sig) (\<lambda>aggr sig.
        sbind (pure (run_of (element_at (chain aggr) 0)) sig) (\<lambda>link sig.
        sbind (pure (run_of (calcLevelCorrection (KSI_Integer_getUInt64 (levelCorrection link)) rootLevel)) sig) (\<lambda>lvlVal sig.
        scheck (\<not> valid_level lvlVal) KSI_INVALID_FORMAT sig (
        let aggr = aggr\<lparr>chain := Some (link\<lparr>levelCorrection := Some lvlVal\<rparr> # tl (elements (chain aggr)))\<rparr>;
            sig = sig\<lparr>aggregationChainList := Some (aggr # tl (elements (aggregationChainList sig)))\<rparr> in
        sbind (pure (KSI_TlvTemplate_construct (Some (KSI_TLV_new 0x0801 False False)) (Some (AggregationHashChainO aggr))
                       (Some KSI_AggregationHashChain_template)) sig) (\<lambda>newTlv sig.
        sbind (base_nested sig) (\<lambda>l sig.
        sbind (pure (findChain aggr 0 l) sig) (\<lambda>(pos, l) sig.
          replace_base pos newTlv (set_base_nested l sig))))))))))"

definition addRootLevel :: "u64 \<Rightarrow> KSI_SignatureObject \<Rightarrow> unit sig_step" where
  "addRootLevel rootLevel = updateLevelCorrection rootLevel level_add"

definition subRootLevel :: "u64 \<Rightarrow> KSI_SignatureObject \<Rightarrow> unit sig_step" where
  "subRootLevel rootLevel = updateLevelCorrection rootLevel level_sub"

section \<open>Appending a chain\<close>

definition addChainIndex :: "KSI_AggregationHashChain \<Rightarrow> KSI_AggregationHashChain ksi_result" where
  "addChainIndex c =
     check (chainIndex c \<noteq> None) KSI_INVALID_STATE (
     rbind (KSI_AggregationHashChain_calculateShape (Some c)) (\<lambda>tmp. Inr (c\<lparr>chainIndex := Some [tmp]\<rparr>)))"

text \<open>The chain is returned as it is changed.\<close>

definition appendAggregationChain :: "KSI_AggregationHashChain \<Rightarrow> KSI_SignatureObject \<Rightarrow> KSI_AggregationHashChain sig_step" where
  "appendAggregationChain aggr sig =
     (if elements (chain aggr) = [] then (Ok aggr, sig)
      else
        sbind (pure (run_of (KSI_Signature_getSigningTime (KSI_Signature.truncate sig))) sig) (\<lambda>pAggrTm sig.
        let aggr = aggr\<lparr>aggregationTime := pAggrTm\<rparr> in
        scheck (elements (aggregationChainList sig) = []) KSI_INVALID_STATE sig (
        sbind (pure (if chainIndex aggr = None then run_of (addChainIndex aggr) else Ok aggr) sig) (\<lambda>aggr sig.
        sbind (pure (run_of (element_at (aggregationChainList sig) 0)) sig) (\<lambda>pCurrent sig.
        let aggr = aggr\<lparr>chainIndex := Some (elements (chainIndex pCurrent) @ elements (chainIndex aggr))\<rparr>;
            sig = sig\<lparr>aggregationChainList := Some (aggr # elements (aggregationChainList sig))\<rparr> in
        sbind (pure (KSI_TlvTemplate_construct (Some (KSI_TLV_new 0x0801 False False)) (Some (AggregationHashChainO aggr))
                       (Some KSI_AggregationHashChain_template)) sig) (\<lambda>tlv sig.
        sbind (append_base tlv sig) (\<lambda>_ sig. (Ok aggr, sig))))))))"

section \<open>Closing\<close>

text \<open>\<^verbatim>\<open>KSI_List_sort\<close> of the list of aggregation chains, on its elements.  Chains are only ever added to the list, so an empty
  one has no array yet.\<close>

definition KSI_AggregationHashChainList_sort ::
    "(nat \<Rightarrow> u64) \<Rightarrow> KSI_AggregationHashChain list option \<Rightarrow> KSI_AggregationHashChain list ksi_result" where
  "KSI_AggregationHashChainList_sort adr l =
     the_ptr l KSI_INVALID_ARGUMENT (\<lambda>cs.
     check (cs = []) KSI_INVALID_STATE
       (Inr (map (\<lambda>e. the (fst (the (el_ptr e))))
          (qsort sortCmp (prepareLoop (\<lambda>a b. KSI_AggregationHashChain_compare (the a) (the b)) 0
             (map (\<lambda>(i, c). \<lparr>initialIdx = 0, el_ptr = Some (Some c, adr i), el_cmp = None\<rparr>) (enumerate 0 cs)))))))"

text \<open>The check for records without a calendar chain reports an error without storing it as the result, which then is the
  initial \<open>KSI_UNKNOWN_ERROR\<close>.\<close>

definition checkSignatureInternals :: "KSI_SignatureObject \<Rightarrow> ksi_status" where
  "checkSignatureInternals sig =
     (if elements (aggregationChainList sig) = [] then Some KSI_INVALID_FORMAT
      else if calendarChain sig = None \<and> (calendarAuthRec sig \<noteq> None \<or> publication sig \<noteq> None) then Some KSI_UNKNOWN_ERROR
      else if calendarAuthRec sig \<noteq> None \<and> publication sig \<noteq> None then Some KSI_INVALID_FORMAT
      else None)"

text \<open>\<^verbatim>\<open>KSI_SignatureBuilder_close\<close> up to the verification.  The flag tells whether the TLV was constructed here.\<close>

definition prepareSignature :: "(nat \<Rightarrow> u64) \<Rightarrow> u64 \<Rightarrow> KSI_SignatureObject \<Rightarrow> unit run \<times> KSI_SignatureObject \<times> bool" where
  "prepareSignature adr rootLevel sig =
     (case KSI_AggregationHashChainList_sort adr (aggregationChainList sig) of
        Inl e \<Rightarrow> (Err e, sig, False)
      | Inr cs \<Rightarrow>
          let sig = sig\<lparr>aggregationChainList := Some cs\<rparr> in
          (case checkSignatureInternals sig of
             Some e \<Rightarrow> (Err e, sig, False)
           | None \<Rightarrow>
               let built = (baseTlv sig = None);
                   (r, sig) =
                     sbind (case baseTlv sig of
                              Some b \<Rightarrow> (Ok (), sig)
                            | None \<Rightarrow>
                                sbind (pure (KSI_TlvTemplate_construct (Some (KSI_TLV_new 0x0800 False False)) (Some (SignatureO sig))
                                               (Some KSI_Signature_template)) sig) (\<lambda>b sig. (Ok (), sig\<lparr>baseTlv := Some b\<rparr>)))
                       (\<lambda>_ sig. if rootLevel \<noteq> 0 then addRootLevel rootLevel sig else (Ok (), sig)) in
               (r, sig, built)))"

text \<open>On an error, a TLV that was constructed is given up again.\<close>

definition give_up :: "bool \<Rightarrow> KSI_SignatureObject \<Rightarrow> KSI_SignatureObject" where
  "give_up built sig = (if built then sig\<lparr>baseTlv := None\<rparr> else sig)"

text \<open>The parser: a builder without verification is filled from the TLV and closed.\<close>

definition extractSignature :: "(nat \<Rightarrow> u64) \<Rightarrow> KSI_TLV option \<Rightarrow> (KSI_SignatureObject \<times> KSI_TLV) run" where
  "extractSignature adr tlv =
     run_ptr tlv KSI_INVALID_ARGUMENT (\<lambda>tlv.
     run_check (tlv_tag tlv \<noteq> 0x800) KSI_INVALID_FORMAT (
     run_bind (KSI_TlvTemplate_extract (Some (SignatureO KSI_Signature_new)) (Some tlv) (Some KSI_Signature_template)) (\<lambda>(ob, tlv).
     run_bind (run_of (KSI_TLV_clone tlv)) (\<lambda>base.
     (case unwrap ty_Signature ob of None \<Rightarrow> Fault
      | Some sig \<Rightarrow>
          (case prepareSignature adr 0 (sig\<lparr>baseTlv := Some base\<rparr>) of
             (Ok _, sig, _) \<Rightarrow> Ok (sig, tlv)
           | (Err e, sig, _) \<Rightarrow> Err e
           | (Fault, sig, _) \<Rightarrow> Fault))))))"

definition KSI_Signature_clone :: "(nat \<Rightarrow> u64) \<Rightarrow> KSI_SignatureObject \<Rightarrow> KSI_SignatureObject sig_step" where
  "KSI_Signature_clone adr sig =
     (case extractSignature adr (baseTlv sig) of
        Ok (tmp, tlv) \<Rightarrow> (Ok tmp, sig\<lparr>baseTlv := Some tlv\<rparr>)
      | Err e \<Rightarrow> (Err e, sig)
      | Fault \<Rightarrow> (Fault, sig))"

definition KSI_Signature_serialize :: "KSI_SignatureObject option \<Rightarrow> bytes run" where
  "KSI_Signature_serialize sig =
     run_ptr sig KSI_INVALID_ARGUMENT (\<lambda>sig.
       (case baseTlv sig of
          Some b \<Rightarrow> run_of (KSI_TLV_serialize b)
        | None \<Rightarrow> KSI_TlvTemplate_serializeObject (Some (SignatureO sig)) 0x0800 False False (Some KSI_Signature_template)))"

definition KSI_Signature_replacePublicationRecord :: "KSI_PublicationRecord option \<Rightarrow> KSI_SignatureObject \<Rightarrow> unit sig_step" where
  "KSI_Signature_replacePublicationRecord pubRec sig =
     (case pubRec of None \<Rightarrow> (Ok (), sig)
      | Some pubRec \<Rightarrow>
          sbind (removeCalAuthAndPublication sig) (\<lambda>_ sig.
          sbind (pure (KSI_TlvTemplate_construct (Some (KSI_TLV_new 0x0803 False False)) (Some (PublicationRecordO pubRec))
                         (Some KSI_PublicationRecord_template)) sig) (\<lambda>newPubTlv sig.
          sbind (base_nested sig) (\<lambda>nestedList sig.
            (Ok (), (set_base_nested (nestedList @ [newPubTlv]) sig)\<lparr>publication := Some pubRec\<rparr>)))))"

section \<open>Builders\<close>

text \<open>The signature moves out of the builder when it is closed.\<close>

record KSI_SignatureBuilder =
  noVerify :: bool
  builder_sig :: "KSI_SignatureObject option"

definition KSI_SignatureBuilder_open :: KSI_SignatureBuilder where
  "KSI_SignatureBuilder_open = \<lparr>noVerify = False, builder_sig = Some KSI_Signature_new\<rparr>"

text \<open>An operation on the signature of a builder.\<close>

definition on_sig :: "(KSI_SignatureObject \<Rightarrow> 'a sig_step) \<Rightarrow> KSI_SignatureBuilder \<Rightarrow> 'a run \<times> KSI_SignatureBuilder" where
  "on_sig f builder =
     (case builder_sig builder of None \<Rightarrow> (Fault, builder)
      | Some sig \<Rightarrow> (case f sig of (r, sig) \<Rightarrow> (r, builder\<lparr>builder_sig := Some sig\<rparr>)))"

definition KSI_SignatureBuilder_openFromSignature ::
    "(nat \<Rightarrow> u64) \<Rightarrow> KSI_SignatureObject \<Rightarrow> KSI_SignatureBuilder sig_step" where
  "KSI_SignatureBuilder_openFromSignature adr sig =
     sbind (KSI_Signature_clone adr sig) (\<lambda>tmp sig. (Ok \<lparr>noVerify = False, builder_sig = Some tmp\<rparr>, sig))"

definition KSI_SignatureBuilder_setCalendarHashChain ::
    "KSI_CalendarHashChain option \<Rightarrow> KSI_SignatureBuilder \<Rightarrow> unit run \<times> KSI_SignatureBuilder" where
  "KSI_SignatureBuilder_setCalendarHashChain cal builder =
     (case cal of None \<Rightarrow> (Err KSI_INVALID_ARGUMENT, builder)
      | Some cal \<Rightarrow> on_sig (\<lambda>sig. scheck (calendarChain sig \<noteq> None) KSI_INVALID_STATE sig (Ok (), sig\<lparr>calendarChain := Some cal\<rparr>)) builder)"

definition KSI_SignatureBuilder_applyCalendarHashChain ::
    "KSI_CalendarHashChain option \<Rightarrow> KSI_SignatureBuilder \<Rightarrow> unit run \<times> KSI_SignatureBuilder" where
  "KSI_SignatureBuilder_applyCalendarHashChain cal builder =
     (case cal of None \<Rightarrow> (Err KSI_INVALID_ARGUMENT, builder)
      | Some cal \<Rightarrow> on_sig (\<lambda>sig. sbind (replaceCalendarChain cal sig) (\<lambda>_ sig. removeCalAuthAndPublication sig)) builder)"

definition KSI_SignatureBuilder_addAggregationChain ::
    "KSI_AggregationHashChain option \<Rightarrow> KSI_SignatureBuilder \<Rightarrow> unit run \<times> KSI_SignatureBuilder" where
  "KSI_SignatureBuilder_addAggregationChain aggr builder =
     (case (aggr, builder_sig builder) of
        (None, _) \<Rightarrow> (Err KSI_INVALID_ARGUMENT, builder)
      | (_, None) \<Rightarrow> (Err KSI_INVALID_STATE, builder)
      | (Some aggr, Some sig) \<Rightarrow>
          (Ok (), builder\<lparr>builder_sig := Some (sig\<lparr>aggregationChainList := Some (elements (aggregationChainList sig) @ [aggr])\<rparr>)\<rparr>))"

definition KSI_SignatureBuilder_setCalendarAuthRecord ::
    "KSI_CalendarAuthRec option \<Rightarrow> KSI_SignatureBuilder \<Rightarrow> unit run \<times> KSI_SignatureBuilder" where
  "KSI_SignatureBuilder_setCalendarAuthRecord calAuth builder =
     (case (calAuth, builder_sig builder) of
        (None, _) \<Rightarrow> (Err KSI_INVALID_ARGUMENT, builder)
      | (_, None) \<Rightarrow> (Err KSI_INVALID_STATE, builder)
      | (Some calAuth, Some sig) \<Rightarrow>
          if calendarAuthRec sig \<noteq> None then (Err KSI_INVALID_STATE, builder)
          else (Ok (), builder\<lparr>builder_sig := Some (sig\<lparr>calendarAuthRec := Some calAuth\<rparr>)\<rparr>))"

definition KSI_SignatureBuilder_setPublication ::
    "KSI_PublicationRecord option \<Rightarrow> KSI_SignatureBuilder \<Rightarrow> unit run \<times> KSI_SignatureBuilder" where
  "KSI_SignatureBuilder_setPublication pub builder =
     (case (pub, builder_sig builder) of
        (None, _) \<Rightarrow> (Err KSI_INVALID_ARGUMENT, builder)
      | (_, None) \<Rightarrow> (Err KSI_INVALID_STATE, builder)
      | (Some pub, Some sig) \<Rightarrow>
          if publication sig \<noteq> None then (Err KSI_INVALID_STATE, builder)
          else (Ok (), builder\<lparr>builder_sig := Some (sig\<lparr>publication := Some pub\<rparr>)\<rparr>))"

definition KSI_SignatureBuilder_setRFC3161 ::
    "KSI_RFC3161 option \<Rightarrow> KSI_SignatureBuilder \<Rightarrow> unit run \<times> KSI_SignatureBuilder" where
  "KSI_SignatureBuilder_setRFC3161 rfc builder =
     (case (rfc, builder_sig builder) of
        (None, _) \<Rightarrow> (Err KSI_INVALID_ARGUMENT, builder)
      | (_, None) \<Rightarrow> (Err KSI_INVALID_STATE, builder)
      | (Some rfc, Some sig) \<Rightarrow>
          if rfc3161 sig \<noteq> None then (Err KSI_INVALID_STATE, builder)
          else (Ok (), builder\<lparr>builder_sig := Some (sig\<lparr>rfc3161 := Some rfc\<rparr>)\<rparr>))"

text \<open>The root level of the chain that is appended is taken off the first link of the signature.\<close>

definition KSI_SignatureBuilder_appendAggregationChain ::
    "(int \<Rightarrow> bytes \<Rightarrow> bytes) \<Rightarrow> KSI_AggregationHashChain \<Rightarrow> KSI_SignatureBuilder \<Rightarrow> KSI_AggregationHashChain run \<times> KSI_SignatureBuilder" where
  "KSI_SignatureBuilder_appendAggregationChain D aggr builder =
     (case KSI_AggregationHashChain_aggregate D aggr 0 of
        (Ok (rootLevel, _), aggr) \<Rightarrow>
          on_sig (\<lambda>sig.
            sbind (if rootLevel \<noteq> 0 then subRootLevel (of_int rootLevel) sig else (Ok (), sig)) (\<lambda>_ sig.
              appendAggregationChain aggr sig)) builder
      | (Err e, aggr) \<Rightarrow> (Err e, builder)
      | (Fault, aggr) \<Rightarrow> (Fault, builder))"

text \<open>Closing a builder.  \<open>c\<close> carries what the library context keeps; \<open>None\<close> would be a verification that does not end.\<close>

definition verify_clone ::
    "verify_env \<Rightarrow> KSI_VerificationContext \<Rightarrow> KSI_SignatureObject \<Rightarrow> unit run option" where
  "verify_clone E c clone =
     (case KSI_SignatureVerifier_verify (predefined_policies E) (Some 1)
             ((KSI_VerificationContext_init c)\<lparr>signature := Some (KSI_Signature.truncate clone)\<rparr>) of
        None \<Rightarrow> None
      | Some (Ok result, _) \<Rightarrow>
          Some (if resultCode (finalResult result) \<noteq> KSI_VER_RES_OK then Err KSI_VERIFICATION_FAILURE else Ok ())
      | Some (Err e, _) \<Rightarrow> Some (Err e)
      | Some (Fault, _) \<Rightarrow> Some Fault)"

definition close_builder ::
    "verify_env \<Rightarrow> KSI_VerificationContext \<Rightarrow> (nat \<Rightarrow> u64) \<Rightarrow> bool \<Rightarrow> KSI_SignatureObject \<Rightarrow> unit sig_step option" where
  "close_builder E c adr no_verify sig =
     (if no_verify then Some (Ok (), sig)
      else
        (case KSI_Signature_clone adr sig of
           (Ok clone, sig) \<Rightarrow> map_option (\<lambda>r. (r, sig)) (verify_clone E c clone)
         | (Err e, sig) \<Rightarrow> Some (Err e, sig)
         | (Fault, sig) \<Rightarrow> Some (Fault, sig)))"

definition KSI_SignatureBuilder_close ::
    "verify_env \<Rightarrow> KSI_VerificationContext \<Rightarrow> (nat \<Rightarrow> u64) \<Rightarrow> u64 \<Rightarrow> KSI_SignatureBuilder
       \<Rightarrow> (KSI_SignatureObject run \<times> KSI_SignatureBuilder) option" where
  "KSI_SignatureBuilder_close E c adr rootLevel builder =
     (case builder_sig builder of None \<Rightarrow> Some (Fault, builder)
      | Some sig \<Rightarrow>
          (case prepareSignature adr rootLevel sig of
             (Ok _, sig, built) \<Rightarrow>
               map_option (\<lambda>(r, sig).
                 (case r of
                    Ok _ \<Rightarrow> (Ok sig, builder\<lparr>builder_sig := None\<rparr>)
                  | Err e \<Rightarrow> (Err e, builder\<lparr>builder_sig := Some (give_up built sig)\<rparr>)
                  | Fault \<Rightarrow> (Fault, builder\<lparr>builder_sig := Some (give_up built sig)\<rparr>)))
                 (close_builder E c adr (noVerify builder) sig)
           | (Err e, sig, built) \<Rightarrow> Some (Err e, builder\<lparr>builder_sig := Some (give_up built sig)\<rparr>)
           | (Fault, sig, built) \<Rightarrow> Some (Fault, builder\<lparr>builder_sig := Some (give_up built sig)\<rparr>)))"

definition KSI_SignatureBuilder_createSignatureWithAggregationChain ::
    "verify_env \<Rightarrow> KSI_VerificationContext \<Rightarrow> (nat \<Rightarrow> u64) \<Rightarrow> KSI_AggregationHashChain \<Rightarrow> KSI_SignatureBuilder
       \<Rightarrow> KSI_SignatureObject run option" where
  "KSI_SignatureBuilder_createSignatureWithAggregationChain E c adr aggr builder =
     (case builder_sig builder of None \<Rightarrow> Some (Err KSI_INVALID_ARGUMENT)
      | Some sig \<Rightarrow>
          (case fst (KSI_SignatureBuilder_openFromSignature adr sig) of
             Ok tmpBuilder \<Rightarrow>
               (case KSI_SignatureBuilder_appendAggregationChain (digest E) aggr tmpBuilder of
                  (Ok _, tmpBuilder) \<Rightarrow> map_option fst (KSI_SignatureBuilder_close E c adr 0 tmpBuilder)
                | (Err e, _) \<Rightarrow> Some (Err e)
                | (Fault, _) \<Rightarrow> Some Fault)
           | Err e \<Rightarrow> Some (Err e)
           | Fault \<Rightarrow> Some Fault))"

section \<open>What a parsed signature has\<close>

definition index_length :: "KSI_AggregationHashChain \<Rightarrow> u64" where
  "index_length c = of_nat (length (elements (chainIndex c)))"

definition signature_wf :: "KSI_SignatureObject \<Rightarrow> bool" where
  "signature_wf sig \<longleftrightarrow>
     elements (aggregationChainList sig) \<noteq> [] \<and> list_all parsed_chain (elements (aggregationChainList sig))
   \<and> sorted_wrt (\<lambda>a b. index_length b \<le> index_length a) (elements (aggregationChainList sig))
   \<and> (\<forall>c. calendarChain sig = Some c \<longrightarrow> parsed_calendar c)
   \<and> (\<forall>r. publication sig = Some r \<longrightarrow> parsed_record r \<and> calendarChain sig \<noteq> None \<and> calendarAuthRec sig = None)
   \<and> (\<forall>a. calendarAuthRec sig = Some a \<longrightarrow> parsed_auth_rec a \<and> calendarChain sig \<noteq> None)
   \<and> (\<forall>r. rfc3161 sig = Some r \<longrightarrow> parsed_rfc3161 r)"

definition records_parsed :: "KSI_SignatureObject \<Rightarrow> bool" where
  "records_parsed sig \<longleftrightarrow>
     list_all parsed_chain (elements (aggregationChainList sig))
   \<and> (\<forall>c. calendarChain sig = Some c \<longrightarrow> parsed_calendar c)
   \<and> (\<forall>r. publication sig = Some r \<longrightarrow> parsed_record r)
   \<and> (\<forall>a. calendarAuthRec sig = Some a \<longrightarrow> parsed_auth_rec a)
   \<and> (\<forall>r. rfc3161 sig = Some r \<longrightarrow> parsed_rfc3161 r)"

lemma parsed_signature_object:
  assumes "extractTlv (SignatureO KSI_Signature_new) tlv KSI_Signature_template = Ok (q, tlv')"
  shows "\<exists>s. q = SignatureO s \<and> records_parsed s"
proof -
  have "\<exists>s hits. q = SignatureO s \<and> records_parsed s \<and> entries_met KSI_Signature_template hits"
    by (rule extract_record [where C = SignatureO and P = "\<lambda>hits. records_parsed", OF assms plain_templates(11)],
        simp add: records_parsed_def KSI_Signature_new_def elements_def,
        simp add: KSI_Signature_template_def, intro conjI allI impI)
       (auto simp: store_entry records_parsed_def elements_def
          dest!: parsed_aggregation_chain parsed_calendar_chain parsed_publication_record parsed_calendar_auth_rec parsed_rfc3161_record)
  then show ?thesis by blast
qed

lemma parsed_has_index: "parsed_chain c \<Longrightarrow> \<exists>l. chainIndex c = Some l"
  by (cases "chainIndex c") (auto simp: parsed_chain_def elements_def)

lemma sort_chains_ok:
  assumes "KSI_AggregationHashChainList_sort adr l = Inr cs'" "list_all parsed_chain (elements l)"
  shows "elements l \<noteq> [] \<and> set cs' = set (elements l) \<and> sorted_wrt (\<lambda>a b. index_length b \<le> index_length a) cs'"
proof -
  obtain cs where l: "l = Some cs" "cs \<noteq> []" using assms(1) by (cases l) (auto simp: KSI_AggregationHashChainList_sort_def)
  let ?es = "map (\<lambda>(i, c). \<lparr>initialIdx = 0, el_ptr = Some (Some c, adr i), el_cmp = None\<rparr>) (enumerate 0 cs)"
  let ?c = "\<lambda>a b. KSI_AggregationHashChain_compare (the a) (the b)"
  let ?key = "\<lambda>p. - uint (index_length (the (fst (the p))))"
  have e: "p \<in> el_ptr ` set ?es \<Longrightarrow> \<exists>c\<in>set cs. \<exists>x. p = Some (Some c, x)" for p
    by (auto simp: in_set_enumerate_eq)
  have key: "(?c p q < 0 \<longleftrightarrow> ?key p < ?key q) \<and> (?c p q = 0 \<longleftrightarrow> ?key p = ?key q)" if pq: "p \<in> el_ptr ` set ?es" "q \<in> el_ptr ` set ?es" for p q
  proof -
    obtain a x b y where ab: "p = Some (Some a, x)" "q = Some (Some b, y)" "a \<in> set cs" "b \<in> set cs" using e [OF pq(1)] e [OF pq(2)] by blast
    have "parsed_chain a" "parsed_chain b" using ab(3,4) assms(2) l(1) by (simp_all add: list_all_iff elements_def)
    then obtain la lb where "chainIndex a = Some la" "chainIndex b = Some lb" using parsed_has_index by blast
    then show ?thesis using ab(1,2)
      by (auto simp: KSI_AggregationHashChain_compare_def intCmp_def index_length_def elements_def word_less_def word_uint_eq_iff)
  qed
  have s: "map el_ptr (qsort sortCmp (prepareLoop ?c 0 ?es)) = sort_key ?key (map el_ptr ?es)" by (rule qsort_prepared [OF key])
  have c: "cs' = map (\<lambda>p. the (fst (the p))) (sort_key ?key (map el_ptr ?es))"
    using assms(1) l unfolding s [symmetric] by (auto simp: KSI_AggregationHashChainList_sort_def o_def)
  have "sorted (map ?key (sort_key ?key (map el_ptr ?es)))" by simp
  then have "sorted_wrt (\<lambda>a b. index_length b \<le> index_length a) cs'"
    unfolding c sorted_map sorted_wrt_map by (simp add: word_le_def)
  moreover have m: "map (\<lambda>p. the (fst (the p))) (map el_ptr ?es) = cs" by (simp add: o_def case_prod_unfold)
  have "set cs' = set (map (\<lambda>p. the (fst (the p))) (map el_ptr ?es))" unfolding c set_map set_sort by (rule refl)
  then have "set cs' = set cs" unfolding m .
  ultimately show ?thesis using l by (simp add: elements_def)
qed

lemma prepared_parsed:
  assumes "prepareSignature adr 0 sig = (Ok u, sig', built)" "records_parsed sig" "baseTlv sig \<noteq> None"
  shows "signature_wf sig' \<and> baseTlv sig' = baseTlv sig"
proof -
  obtain cs' where cs: "KSI_AggregationHashChainList_sort adr (aggregationChainList sig) = Inr cs'"
    "checkSignatureInternals (sig\<lparr>aggregationChainList := Some cs'\<rparr>) = None" "sig' = sig\<lparr>aggregationChainList := Some cs'\<rparr>"
    using assms(1,3) by (auto simp: prepareSignature_def Let_def sbind_def split: sum.splits option.splits)
  have "list_all parsed_chain (elements (aggregationChainList sig))" using assms(2) by (simp add: records_parsed_def)
  from sort_chains_ok [OF cs(1) this] this have "set cs' \<noteq> {}" "list_all parsed_chain cs'" "sorted_wrt (\<lambda>a b. index_length b \<le> index_length a) cs'"
    by (simp_all add: list_all_iff)
  then show ?thesis using cs(2) assms(2) unfolding cs(3)
    by (auto simp: signature_wf_def records_parsed_def checkSignatureInternals_def elements_def split: if_splits)
qed

lemma extracted_wf:
  assumes "extractSignature adr tlv = Ok (sig, tlv')"
  shows "signature_wf sig \<and> baseTlv sig \<noteq> None"
proof -
  obtain t ob left base sig1 where e: "extractTlv (SignatureO KSI_Signature_new) t KSI_Signature_template = Ok (ob, left)" "unwrap ty_Signature ob = Some sig1"
    and r: "(case prepareSignature adr 0 (sig1\<lparr>baseTlv := Some base\<rparr>) of
               (Ok u, sig, b) \<Rightarrow> Ok (sig, left) | (Err e, sig, b) \<Rightarrow> Err e | (Fault, sig, b) \<Rightarrow> Fault) = Ok (sig, tlv')"
    using assms by (auto simp: extractSignature_def run_ptr_eq_Ok KSI_TlvTemplate_extract_def run_bind_eq_Ok split: option.splits)
  obtain built where p: "prepareSignature adr 0 (sig1\<lparr>baseTlv := Some base\<rparr>) = (Ok (), sig, built)"
    using r by (auto split: prod.splits run.splits)
  have "records_parsed sig1" using parsed_signature_object [OF e(1)] e(2) by (auto simp: ty_Signature_def)
  then have "records_parsed (sig1\<lparr>baseTlv := Some base\<rparr>)" by (simp add: records_parsed_def)
  then show ?thesis using prepared_parsed [OF p] by simp
qed

lemma wf_parsed_signature: "signature_wf sig \<Longrightarrow> parsed_signature (KSI_Signature.truncate sig)"
  by (simp add: signature_wf_def parsed_signature_def KSI_Signature.truncate_def list_all_iff parsed_chain_def)

end
