(* ===== verification/BuilderGuarantees.thy ===== *)
theory BuilderGuarantees
  imports SignatureBuilder
begin

text \<open>
  What the signature builder of \<^verbatim>\<open>src/src/ksi/signature_builder.c\<close> guarantees: a signature that a builder returns is internally
  valid as it parses, adding the level of a tree root shifts the levels of the chains, and a chain appended in front of a
  signature joins up to the same root.
\<close>

section \<open>A closed signature\<close>

lemma internal_accepts:
  assumes "list_all fresh_chain (elements (aggregationChainList sig))"
  shows "accepts (predefined_policies E) 1 (d\<lparr>signature := Some sig\<rparr>) \<longleftrightarrow> internally_valid (digest E) d sig"
proof -
  let ?c = "d\<lparr>signature := Some sig\<rparr>"
  have b: "signature (begin_verification ?c) = Some sig" "tempData (begin_verification ?c) = Some VerificationTempData_empty"
    by (simp_all add: begin_verification_def)
  have "internally_valid (digest E) ?c sig \<longleftrightarrow> internally_valid (digest E) d sig"
    by (simp add: internally_valid_def input_ok_def level_fits_def)
  then show ?thesis
    using accepts_predefined [of 1 E ?c] internalRules_OK [OF b assms, of E] by (simp add: predefined_policies_def)
qed

lemma wf_fresh: "signature_wf sig \<Longrightarrow> list_all fresh_chain (elements (aggregationChainList (KSI_Signature.truncate sig)))"
  using wf_parsed_signature by (auto simp: parsed_signature_def list_all_iff)

lemma verify_clone_accepts:
  "verify_clone E c clone = Some (Ok ()) \<longleftrightarrow>
     accepts (predefined_policies E) 1 ((KSI_VerificationContext_init c)\<lparr>signature := Some (KSI_Signature.truncate clone)\<rparr>)"
  by (auto simp: verify_clone_def accepts_def split: option.splits prod.splits run.splits if_splits)

lemma verify_clone_iff:
  "signature_wf clone \<Longrightarrow> verify_clone E c clone = Some (Ok ()) \<longleftrightarrow>
     internally_valid (digest E) (KSI_VerificationContext_init c) (KSI_Signature.truncate clone)"
  unfolding verify_clone_accepts using internal_accepts [OF wf_fresh] by blast

lemma cloned_ok:
  "KSI_Signature_clone adr sig = (Ok clone, sig') \<longleftrightarrow>
     (\<exists>t. extractSignature adr (baseTlv sig) = Ok (clone, t) \<and> sig' = sig\<lparr>baseTlv := Some t\<rparr>)"
  by (auto simp: KSI_Signature_clone_def split: run.splits prod.splits)

lemma closed_ok:
  "KSI_SignatureBuilder_close E c adr rootLevel builder = Some (Ok sig, builder') \<longleftrightarrow>
     (\<exists>s s1 built. builder_sig builder = Some s \<and> prepareSignature adr rootLevel s = (Ok (), s1, built)
        \<and> close_builder E c adr (noVerify builder) s1 = Some (Ok (), sig) \<and> builder' = builder\<lparr>builder_sig := None\<rparr>)"
proof (cases "builder_sig builder")
  case (Some s)
  obtain r s1 built where p: "prepareSignature adr rootLevel s = (r, s1, built)" by (metis prod_cases3)
  show ?thesis using Some p
    by (cases r; cases "close_builder E c adr (noVerify builder) s1")
       (auto simp: KSI_SignatureBuilder_close_def split: prod.splits run.splits)
qed (simp add: KSI_SignatureBuilder_close_def)

lemma close_verified:
  "close_builder E c adr False s1 = Some (Ok u, sig) \<longleftrightarrow>
     (\<exists>clone. KSI_Signature_clone adr s1 = (Ok clone, sig) \<and> verify_clone E c clone = Some (Ok u))"
  by (auto simp: close_builder_def split: prod.splits run.splits)

text \<open>C7. Only internally valid signatures leave a builder.  When a builder that verifies is closed, the signature it returns has
  been parsed again from its TLV, the object the parser made is well formed, and it is internally valid; the builder has given
  the signature away.  Conversely, a prepared signature whose TLV parses to an internally valid object is always returned.\<close>

theorem closed_signature_valid:
  assumes "\<not> noVerify builder" and "builder_sig builder = Some s" and "prepareSignature adr rootLevel s = (Ok (), s1, built)"
  shows "(\<exists>builder'. KSI_SignatureBuilder_close E c adr rootLevel builder = Some (Ok sig, builder') \<and> builder_sig builder' = None) \<longleftrightarrow>
     (\<exists>clone tlv. extractSignature adr (baseTlv s1) = Ok (clone, tlv) \<and> signature_wf clone
        \<and> internally_valid (digest E) (KSI_VerificationContext_init c) (KSI_Signature.truncate clone)
        \<and> sig = s1\<lparr>baseTlv := Some tlv\<rparr>)"
proof -
  have "(\<exists>builder'. KSI_SignatureBuilder_close E c adr rootLevel builder = Some (Ok sig, builder') \<and> builder_sig builder' = None) \<longleftrightarrow>
      close_builder E c adr False s1 = Some (Ok (), sig)"
    using assms by (auto simp: closed_ok)
  then show ?thesis
    unfolding close_verified cloned_ok using extracted_wf verify_clone_iff by blast
qed


lemma sample_signature_clone: "\<exists>base. KSI_TLV_clone sample_signature_tlv = Inr base \<and> nested base \<noteq> None"
proof -
  have "tlv_ok sample_signature_tlv"
    by (simp add: sample_signature_tlv_def sample_chain_tlv_def nest_tlv_def raw_tlv_def length_tlv_header sample_im_def HDR_LEN_def)
  then obtain base where "KSI_TLV_clone sample_signature_tlv = Inr base" "tree_of base = tree_of sample_signature_tlv" using clone_tree by blast
  moreover from this(2) have "nested base \<noteq> None" by (cases base) (auto simp: sample_signature_tlv_def nest_tlv_def split: option.splits)
  ultimately show ?thesis by blast
qed

definition sample_object :: "KSI_TLV \<Rightarrow> KSI_SignatureObject" where
  "sample_object b = KSI_Signature_new\<lparr>aggregationChainList := Some [sample_parsed_chain], baseTlv := Some b\<rparr>"

lemma qsort_single: "qsort cmp [x] = [x]"
  by (simp add: qsort_def)

lemma sample_prepared: "prepareSignature adr 0 (sample_object b) = (Ok (), sample_object b, False)"
  by (simp add: prepareSignature_def KSI_AggregationHashChainList_sort_def sample_object_def checkSignatureInternals_def elements_def
      KSI_Signature_new_def sbind_def qsort_single)

lemma sample_extracted: "\<exists>base. nested base \<noteq> None \<and> extractSignature adr (Some sample_signature_tlv) = Ok (sample_object base, sample_signature_tlv)"
proof -
  obtain base where "KSI_TLV_clone sample_signature_tlv = Inr base" "nested base \<noteq> None" using sample_signature_clone by blast
  moreover have "tlv_tag sample_signature_tlv = 0x800" by (simp add: sample_signature_tlv_def)
  moreover have "KSI_Signature_new\<lparr>aggregationChainList := Some [sample_parsed_chain]\<rparr>\<lparr>baseTlv := Some base\<rparr> = sample_object base"
    by (simp add: sample_object_def)
  ultimately show ?thesis
    by (intro exI [of _ base]) (simp add: extractSignature_def KSI_TlvTemplate_extract_def sample_signature_read ty_Signature_def sample_prepared)
qed

lemma sample_chain_checks:
  "KSI_HashChain_aggregate sample_digest (chain sample_parsed_chain) (inputHash sample_parsed_chain) 0 0 = Ok (1, Some (0 # replicate 20 43))"
  "shape_bits (elements (chain sample_parsed_chain)) = 3" "\<not> wasDeprecatedAt 0 5"
  by code_simp+

lemma sample_object_valid: "internally_valid sample_digest (KSI_VerificationContext_init c) (KSI_Signature.truncate (sample_object b))"
proof -
  let ?sig = "KSI_Signature.truncate (sample_object b)"
  note s = sample_object_def sample_parsed_chain_def KSI_Signature_new_def KSI_Signature.truncate_def KSI_HashChainLink_new_def KSI_AggregationHashChain_new_def
  have i: "input_ok sample_digest (KSI_VerificationContext_init c) ?sig"
    using sample_chain_checks(3)
    by (simp add: input_ok_def document_ok_def level_fits_def rfc_algorithms_ok_def KSI_Signature_getDocumentHash_def KSI_VerificationContext_init_def
        KSI_Signature_getSigningTime_def to_time_def KSI_Integer_getUInt64_def s element_at_def sample_im_def)
  have c: "chains_ok ?sig [sample_parsed_chain]"
    using sample_chain_checks(2,3)
    by (simp add: chains_ok_def metadata_ok_def chain_algorithm_ok_def shape_ok_def rfc_agrees_def s
        to_int_def to_time_def KSI_Integer_getUInt64_def)
  have n: "map nested_chain [sample_parsed_chain] = [sample_parsed_chain]"
    by (simp add: nested_chain_def nested_link_def s)
  have j: "RuleFacts.joined sample_digest [sample_parsed_chain] 0 None (Some (0 # replicate 20 43))"
    using sample_chain_checks(1) by (intro joined_Cons [where a = 0] joined_Nil) (simp_all add: sample_parsed_chain_def to_int_def)
  show ?thesis unfolding internally_valid_def using i c n j by (intro exI conjI) (auto simp: s)
qed

theorem closed_signature_valid_witness:
  "\<exists>sig builder'. KSI_SignatureBuilder_close sample_env sample_context (\<lambda>_. 0) 0 \<lparr>noVerify = False, builder_sig = Some (sample_object sample_signature_tlv)\<rparr>
     = Some (Ok sig, builder') \<and> builder_sig builder' = None"
proof -
  obtain base where x: "extractSignature (\<lambda>_. 0) (Some sample_signature_tlv) = Ok (sample_object base, sample_signature_tlv)"
    using sample_extracted by blast
  have b: "baseTlv (sample_object sample_signature_tlv) = Some sample_signature_tlv" "digest sample_env = sample_digest"
    by (simp_all add: sample_object_def sample_env_def)
  show ?thesis
    using closed_signature_valid [of "\<lparr>noVerify = False, builder_sig = Some (sample_object sample_signature_tlv)\<rparr>" "sample_object sample_signature_tlv"
        "\<lambda>_. 0" 0 "sample_object sample_signature_tlv" False sample_env sample_context "sample_object sample_signature_tlv\<lparr>baseTlv := Some sample_signature_tlv\<rparr>"]
      sample_prepared sample_object_valid [of sample_context base] x extracted_wf [OF x] b by auto
qed

text \<open>C18. What the parser delivers.  A signature that is extracted from a TLV keeps a TLV of its own, has at least one
  aggregation chain, each with an index, an input hash and links and without a kept result, the chains are sorted by the length
  of their index, the longest first, and a publication or an authentication record comes with a calendar chain and never with
  the other.  So it meets what the verification policies ask of a signature.\<close>

theorem parsed_signature_wf:
  assumes "extractSignature adr tlv = Ok (sig, tlv')"
  shows "signature_wf sig \<and> baseTlv sig \<noteq> None \<and> parsed_signature (KSI_Signature.truncate sig)"
  using extracted_wf [OF assms] wf_parsed_signature by blast

theorem parsed_signature_wf_witness:
  "\<exists>sig tlv'. extractSignature (\<lambda>_. 0) (Some sample_signature_tlv) = Ok (sig, tlv') \<and> signature_wf sig"
proof -
  obtain base where "extractSignature (\<lambda>_. 0) (Some sample_signature_tlv) = Ok (sample_object base, sample_signature_tlv)"
    using sample_extracted by blast
  with parsed_signature_wf [OF this] show ?thesis by blast
qed

section \<open>Levels\<close>

lemma sbind_eq_Ok: "sbind m k = (Ok y, s') \<longleftrightarrow> (\<exists>x s. m = (Ok x, s) \<and> k x s = (Ok y, s'))"
  by (cases m; cases "fst m") (auto simp: sbind_def)

lemma scheck_eq_Ok [simp]: "scheck b e s k = (Ok y, s') \<longleftrightarrow> \<not> b \<and> k = (Ok y, s')"
  by (simp add: scheck_def)

lemma pure_eq_Ok [simp]: "pure r s = (Ok x, s') \<longleftrightarrow> r = Ok x \<and> s' = s"
  by (auto simp: pure_def)

text \<open>The operations on the TLV leave the objects alone.\<close>

lemma base_ops:
  "base_nested sig = (r, sig') \<Longrightarrow> KSI_Signature.truncate sig' = KSI_Signature.truncate sig"
  "replace_base pos t sig = (u, sig') \<Longrightarrow> KSI_Signature.truncate sig' = KSI_Signature.truncate sig"
  "append_base t sig = (u, sig') \<Longrightarrow> KSI_Signature.truncate sig' = KSI_Signature.truncate sig"
  "KSI_Signature.truncate (set_base_nested l sig) = KSI_Signature.truncate sig"
  by (auto simp: base_nested_def replace_base_def append_base_def set_base_nested_def KSI_Signature.truncate_def
      split: option.splits sum.splits prod.splits)

definition corrected :: "u64 \<Rightarrow> KSI_AggregationHashChain \<Rightarrow> KSI_AggregationHashChain" where
  "corrected l c = c\<lparr>chain := map_option (\<lambda>ls. (hd ls)\<lparr>levelCorrection := Some l\<rparr> # tl ls) (chain c)\<rparr>"

definition first_correction :: "KSI_AggregationHashChain \<Rightarrow> u64" where
  "first_correction c = KSI_Integer_getUInt64 (levelCorrection (hd (elements (chain c))))"

lemma element_at_0: "element_at l 0 = Inr x \<longleftrightarrow> (\<exists>xs. l = Some (x # xs))"
  by (cases l; cases "the l") (auto simp: element_at_def)

lemma level_updated:
  assumes "updateLevelCorrection l calc sig = (Ok u, sig')" "l \<noteq> 0"
  shows "\<exists>c cs v. aggregationChainList sig = Some (c # cs) \<and> elements (chain c) \<noteq> [] \<and> calc (first_correction c) l = Inr v
     \<and> valid_level l \<and> valid_level v
     \<and> KSI_Signature.truncate sig' = (KSI_Signature.truncate sig)\<lparr>aggregationChainList := Some (corrected v c # cs)\<rparr>"
proof -
  obtain c cs link ls v where c: "aggregationChainList sig = Some (c # cs)" "chain c = Some (link # ls)" "valid_level l" "valid_level v"
    "calc (KSI_Integer_getUInt64 (levelCorrection link)) l = Inr v"
    and t: "KSI_Signature.truncate sig' = KSI_Signature.truncate
      (sig\<lparr>aggregationChainList := Some (c\<lparr>chain := Some (link\<lparr>levelCorrection := Some v\<rparr> # ls)\<rparr> # cs)\<rparr>)"
    using assms by (fastforce simp: updateLevelCorrection_def sbind_eq_Ok element_at_0 run_of_eq_Ok elements_def base_ops Let_def dest!: base_ops(1,2))
  have "c\<lparr>chain := Some (link\<lparr>levelCorrection := Some v\<rparr> # ls)\<rparr> = corrected v c" using c(2) by (simp add: corrected_def)
  then show ?thesis using c t by (auto simp: first_correction_def elements_def KSI_Signature.truncate_def)
qed

lemma shifted_aggregate:
  assumes "unat v' < 0x400" "unat v' = unat (first_correction c) + k" "elements (chain c) \<noteq> []"
  shows "KSI_HashChain_aggregate D (chain (corrected v' c)) h 0 a = KSI_HashChain_aggregate D (chain c) h (int k) a"
proof -
  obtain link ls where ls: "chain c = Some (link # ls)"
    using assms(3) by (cases "chain c"; cases "elements (chain c)") (auto simp: elements_def)
  let ?v = "KSI_Integer_getUInt64 (levelCorrection link)"
  have v: "unat v' < 0x400" "unat v' = unat ?v + k" using assms(1,2) ls
    by (simp_all add: first_correction_def elements_def)
  have w: "to_int x = int (unat x)" if "unat x < 0x400" for x
    using that by (intro to_int_small) simp
  have i: "int_wrap i = i" if "0 \<le> i" "i < 0x1000" for i
    using that by (intro int_wrap_id) simp_all
  have e: "int_wrap (0 + int_wrap (int m + 1)) = int_wrap (int k + int_wrap (int n + 1))" if "m < 0x400" "m = n + k" for m n
    using that by (simp add: i)
  have p: "aggregate_prepare False (link\<lparr>levelCorrection := Some v'\<rparr>) (st\<lparr>level := 0\<rparr>) = aggregate_prepare False link (st\<lparr>level := int k\<rparr>)" for st
  proof -
    have t: "to_int v' = int (unat v')" "to_int ?v = int (unat ?v)" using v by (simp_all only: w)
    have "int_wrap (0 + int_wrap (int (unat v') + 1)) = int_wrap (int k + int_wrap (int (unat ?v) + 1))"
      using v e by blast
    then show ?thesis unfolding aggregate_prepare_def by (simp add: t KSI_Integer_getUInt64_def [of "Some _"])
  qed
  have "dataHasher_addLinkImprint hsr (link\<lparr>levelCorrection := Some v'\<rparr>) = dataHasher_addLinkImprint hsr link" for hsr
    by (simp add: dataHasher_addLinkImprint_def linkImprint_def)
  with p have s: "aggregate_step D inh False (link\<lparr>levelCorrection := Some v'\<rparr>) (st\<lparr>level := 0\<rparr>) =
      aggregate_step D inh False link (st\<lparr>level := int k\<rparr>)" for inh st
    by (simp add: aggregate_step_def cong: if_cong)
  show ?thesis using s [of _ "\<lparr>level = 0, ag_hsr = None, ag_hsh = None, ag_algo = a\<rparr>"] ls
    by (simp add: KSI_HashChain_aggregate_def aggregateChain_def corrected_def split: option.splits)
qed


lemma valid_level_less: "valid_level v \<Longrightarrow> unat v \<le> 0xff"
  unfolding valid_level_def KSI_IS_VALID_TREE_LEVEL_def by linarith

lemma corrected_simps [simp]:
  "inputHash (corrected v c) = inputHash c" "aggrHashId (corrected v c) = aggrHashId c" "chainIndex (corrected v c) = chainIndex c"
  by (simp_all add: corrected_def)

lemma level_add_Inr: "level_add r l = Inr t \<Longrightarrow> unat t = unat r + unat l"
  by (auto simp: level_add_def Let_def not_less unat_plus_simple split: if_splits)

lemma level_sub_Inr: "level_sub r l = Inr t \<Longrightarrow> unat r = unat t + unat l"
  by (auto simp: level_sub_def not_less word_le_nat_alt unat_sub split: if_splits)

lemma joined_shift:
  assumes "\<And>a. KSI_HashChain_aggregate D (chain c') (inputHash c') k' a = KSI_HashChain_aggregate D (chain c) (inputHash c) k a"
    "inputHash c' = inputHash c" "aggrHashId c' = aggrHashId c" "0 \<le> k \<and> k \<le> 0xff" "0 \<le> k' \<and> k' \<le> 0xff"
  shows "RuleFacts.joined D (c' # cs) k' h r \<longleftrightarrow> RuleFacts.joined D (c # cs) k h r"
  using assms by (simp add: joined_Cons_iff)

text \<open>C19. The root level of a tree.  Adding the level of a tree root to a signature only changes the correction of the first link,
  and the chains of the result lead from level zero to what the original chains lead to from the level of the root: whatever the
  hash function and the root, the one sequence joins up to it exactly when the other does.\<close>

theorem root_level_added:
  assumes "addRootLevel l sig = (Ok u, sig')" and "l \<noteq> 0"
  shows "\<exists>c c' cs. aggregationChainList sig = Some (c # cs) \<and>
     KSI_Signature.truncate sig' = (KSI_Signature.truncate sig)\<lparr>aggregationChainList := Some (c' # cs)\<rparr> \<and> unat l \<le> 0xff \<and>
     (\<forall>D h r. RuleFacts.joined D (c' # cs) 0 h r \<longleftrightarrow> RuleFacts.joined D (c # cs) (int (unat l)) h r)"
proof -
  obtain c cs v where c: "aggregationChainList sig = Some (c # cs)" "elements (chain c) \<noteq> []" "level_add (first_correction c) l = Inr v"
    "valid_level l" "valid_level v" "KSI_Signature.truncate sig' = (KSI_Signature.truncate sig)\<lparr>aggregationChainList := Some (corrected v c # cs)\<rparr>"
    using level_updated [OF assms(1) [unfolded addRootLevel_def] assms(2)] by blast
  have l: "int (unat l) \<le> 0xff" "unat v < 0x400" using valid_level_less [OF c(4)] valid_level_less [OF c(5)] by linarith+
  then have "RuleFacts.joined D (corrected v c # cs) 0 h r \<longleftrightarrow> RuleFacts.joined D (c # cs) (int (unat l)) h r" for D h r
    using shifted_aggregate [OF l(2) level_add_Inr [OF c(3)] c(2)] by (intro joined_shift) simp_all
  moreover have "unat l \<le> 0xff" using l(1) by linarith
  ultimately show ?thesis using c(1,6) by blast
qed


lemma corrected_twice: "corrected v (corrected w c) = corrected v c"
  by (cases "chain c") (simp_all add: corrected_def)

lemma reduced_aggregate:
  assumes "level_sub (first_correction c) l = Inr v" "valid_level v" "valid_level l" "elements (chain c) \<noteq> []"
  shows "KSI_HashChain_aggregate D (chain (corrected v c)) h (int (unat l)) a = KSI_HashChain_aggregate D (chain c) h 0 a"
proof -
  let ?f = "first_correction c"
  have f: "unat ?f = unat v + unat l" "unat ?f < 0x400"
    using level_sub_Inr [OF assms(1)] valid_level_less [OF assms(2)] valid_level_less [OF assms(3)] by simp_all
  have n: "elements (chain (corrected v c)) \<noteq> []" "first_correction (corrected v c) = v"
    using assms(4) by (cases "chain c"; simp add: corrected_def elements_def first_correction_def KSI_Integer_getUInt64_def)+
  have "KSI_HashChain_aggregate D (chain (corrected v c)) h (int (unat l)) a = KSI_HashChain_aggregate D (chain (corrected ?f (corrected v c))) h 0 a"
    using f n by (intro shifted_aggregate [symmetric]) simp_all
  also have "\<dots> = KSI_HashChain_aggregate D (chain c) h 0 a"
    unfolding corrected_twice using shifted_aggregate [OF f(2), of c 0] assms(4) by simp
  finally show ?thesis .
qed

lemma int_wrap_range: "- (2 ^ 31) \<le> int_wrap n \<and> int_wrap n < 2 ^ 31"
  using sint_greater_eq [of "word_of_int n :: 32 word"] sint_lt [of "word_of_int n :: 32 word"] by (simp add: int_wrap_def)

lemma aggregateLoop_range:
  assumes "aggregateLoop D i False ls st = Ok st'" "- (2 ^ 31) \<le> level st \<and> level st < 2 ^ 31"
  shows "- (2 ^ 31) \<le> level st' \<and> level st' < 2 ^ 31"
  using assms
proof (induction ls arbitrary: st)
  case (Cons l ls)
  obtain st1 where s: "aggregate_step D i False l st = Ok st1" "aggregateLoop D i False ls st1 = Ok st'"
    using Cons.prems by (auto simp: run_bind_eq_Ok)
  then have "- (2 ^ 31) \<le> level st1 \<and> level st1 < 2 ^ 31"
    using int_wrap_range by (auto simp: aggregate_step_def aggregate_prepare_def run_bind_eq_Ok Let_def split: if_splits)
  then show ?case using Cons.IH s(2) by blast
qed simp

lemma aggregate_range:
  assumes "KSI_HashChain_aggregate D ls h 0 a = Ok (l, h')"
  shows "- (2 ^ 31) \<le> l \<and> l < 2 ^ 31"
  using assms aggregateLoop_range by (fastforce simp: KSI_HashChain_aggregate_def aggregateChain_def run_bind_eq_Ok split: option.splits)

lemma appended:
  assumes "appendAggregationChain aggr sig = (Ok aggr', sig')" "elements (chain aggr) \<noteq> []"
  shows "\<exists>c cs i. aggregationChainList sig = Some (c # cs) \<and> aggregationChainList sig' = Some (aggr' # c # cs)
     \<and> chain aggr' = chain aggr \<and> inputHash aggr' = inputHash aggr \<and> aggrHashId aggr' = aggrHashId aggr
     \<and> KSI_Signature_getSigningTime (KSI_Signature.truncate sig) = Inr (aggregationTime aggr')
     \<and> chainIndex aggr' = Some (elements (chainIndex c) @ i)
     \<and> (if chainIndex aggr = None then i = [shape_bits (elements (chain aggr))] else chainIndex aggr = Some i)
     \<and> KSI_Signature_getSigningTime (KSI_Signature.truncate sig') = KSI_Signature_getSigningTime (KSI_Signature.truncate sig)"
proof -
  obtain t a1 c cs where t: "KSI_Signature_getSigningTime (KSI_Signature.truncate sig) = Inr t"
    and a: "(if chainIndex aggr = None then run_of (addChainIndex (aggr\<lparr>aggregationTime := t\<rparr>)) else Ok (aggr\<lparr>aggregationTime := t\<rparr>)) = Ok a1"
    and c: "aggregationChainList sig = Some (c # cs)" "aggr' = a1\<lparr>chainIndex := Some (elements (chainIndex c) @ elements (chainIndex a1))\<rparr>"
    and s: "KSI_Signature.truncate sig' = KSI_Signature.truncate (sig\<lparr>aggregationChainList := Some (aggr' # c # cs)\<rparr>)"
    using assms
    by (fastforce simp: appendAggregationChain_def sbind_eq_Ok element_at_0 run_of_eq_Ok elements_def [of "aggregationChainList _"] Let_def dest!: base_ops(3))
  have s': "aggregationChainList sig' = Some (aggr' # c # cs)" using s by (simp add: KSI_Signature.truncate_def)
  have "elements (chainIndex a1) = (if chainIndex aggr = None then [shape_bits (elements (chain aggr))] else elements (chainIndex aggr))"
    "chain a1 = chain aggr" "inputHash a1 = inputHash aggr" "aggrHashId a1 = aggrHashId aggr" "aggregationTime a1 = t"
    using a by (auto simp: addChainIndex_def run_of_eq_Ok rbind_eq_Inr KSI_AggregationHashChain_calculateShape_def elements_def Let_def split: if_splits)
  moreover have "KSI_Signature_getSigningTime (KSI_Signature.truncate sig') = Inr t"
    using t s \<open>aggregationTime a1 = t\<close> c
    by (auto simp: KSI_Signature_getSigningTime_def KSI_Signature.truncate_def element_at_def split: option.splits)
  ultimately show ?thesis using t c s' by (auto simp: elements_def split: option.splits)
qed


lemma level_taken_off:
  assumes "(if l \<noteq> 0 then subRootLevel (of_int l) sig else (Ok (), sig)) = (Ok (), sig1)"
    "aggregationChainList sig = Some (c # cs)" "RuleFacts.joined D (c # cs) 0 None r" "- (2 ^ 31) \<le> l \<and> l < 2 ^ 31"
  shows "\<exists>c'. aggregationChainList sig1 = Some (c' # cs) \<and> RuleFacts.joined D (c' # cs) l (inputHash c) r \<and> chainIndex c' = chainIndex c
     \<and> KSI_Signature_getSigningTime (KSI_Signature.truncate sig1) = KSI_Signature_getSigningTime (KSI_Signature.truncate sig)"
proof (cases "l = 0")
  case True
  then show ?thesis using assms by (auto simp: joined_Cons_iff)
next
  case False
  have n: "(of_int l :: u64) \<noteq> 0" using False assms(4) by (auto simp: word_of_int_eq_0_iff dest: zdvd_imp_le)
  obtain v where v: "elements (chain c) \<noteq> []" "level_sub (first_correction c) (of_int l) = Inr v" "valid_level (of_int l)" "valid_level v"
    "KSI_Signature.truncate sig1 = (KSI_Signature.truncate sig)\<lparr>aggregationChainList := Some (corrected v c # cs)\<rparr>"
    using level_updated [of "of_int l" level_sub sig "()" sig1] assms(1,2) False n by (auto simp: subRootLevel_def)
  have u: "int (unat (of_int l :: u64)) = l mod 2 ^ 64" by (simp add: unsigned_of_int take_bit_eq_mod)
  have "int (unat (of_int l :: u64)) \<le> 0xff" using valid_level_less [OF v(3)] by linarith
  moreover have "l mod 2 ^ 64 = l + 2 ^ 64" if "l < 0"
    using that assms(4) mod_pos_pos_trivial [of "l + 2 ^ 64" "2 ^ 64"] by simp
  ultimately have "0 \<le> l" using u assms(4) by (cases "l < 0") simp_all
  then have l: "int (unat (of_int l :: u64)) = l" "0 \<le> l \<and> l \<le> 0xff"
    using u assms(4) \<open>int (unat (of_int l :: u64)) \<le> 0xff\<close> by simp_all
  have "RuleFacts.joined D (corrected v c # cs) l (inputHash c) r"
    using assms(3) reduced_aggregate [OF v(2,4,3,1)] l by (auto simp: joined_Cons_iff)
  moreover have "aggregationChainList sig1 = Some (corrected v c # cs)" using v(5) by (simp add: KSI_Signature.truncate_def)
  moreover have "aggregationTime (corrected v c) = aggregationTime c" by (simp add: corrected_def)
  ultimately show ?thesis using v(5) assms(2)
    by (intro exI [of _ "corrected v c"]) (auto simp: KSI_Signature_getSigningTime_def KSI_Signature.truncate_def element_at_def split: option.splits)
qed



section \<open>Samples\<close>

lemma append_nested_new [simp]: "KSI_TLV_appendNestedTlv (Some (KSI_TLV_new tg False False)) (Some t) = Inr (nest_tlv tg [t])"
  "KSI_TLV_appendNestedTlv (Some (nest_tlv tg l)) (Some t) = Inr (nest_tlv tg (l @ [t]))"
  by (simp_all add: KSI_TLV_appendNestedTlv_def KSI_TLV_new_def nest_tlv_def)
lemma integer_toTlv: "\<exists>t. KSI_Integer_toTlv (Some n) tg False False = Inr t"
  using toTlv_encodes by blast
lemma hash_toTlv: "length h \<le> 0xffff \<Longrightarrow> \<exists>t. KSI_DataHash_toTlv (Some h) tg False False = Inr t"
  using setRawValue_new by (fastforce simp: KSI_DataHash_toTlv_def KSI_DataHash_getImprint_def)

lemma wrap_list: "wrap (ty_List ty) l = ListO (map (wrap ty) l)"
  by (simp add: ty_List_def)

lemma unwrap_simps:
  "unwrap ty_HashChainLink (HashChainLinkO l) = Some l" "unwrap ty_Integer (IntegerO n) = Some n" "unwrap ty_DataHash (DataHashO h) = Some h"
  "unwrap ty_AggregationHashChain (AggregationHashChainO a) = Some a"
  by (simp_all add: ty_defs)

lemmas construct_simps = constructWith_def constructStep_def constructEntry_def KSI_TLV_INTEGER_def KSI_TLV_IMPRINT_def KSI_TLV_OBJECT_def
   KSI_TLV_COMPOSITE_OBJECT_def KSI_TLV_INTEGER_LIST_def KSI_TLV_OBJECT_LIST_def KSI_TLV_OCTET_STRING_def IS_FLAG_SET_flags get_field_def to_value_def
   generator_start_def missingEntry_def emptyList_def KSI_TLV_TEMPLATE_OBJECT_def getTemplateLength_def MAX_TEMPLATE_SIZE_def wrap_simps unwrap_simps wrap_list

lemma link_constructed:
  assumes "imprint link = Some h" "length h \<le> 0xffff" "legacyId link = None" "metaData link = None"
  shows "\<exists>t. constructTlv (KSI_TLV_new 7 False False) (HashChainLinkO link) KSI_HashChainLink_template = Ok t"
proof -
  obtain b where b: "KSI_DataHash_toTlv (Some h) 2 False False = Inr b" using hash_toTlv [OF assms(2)] by blast
  show ?thesis
  proof (cases "levelCorrection link")
    case None
    then show ?thesis using assms b
      by (subst constructTlv.simps) (simp add: KSI_HashChainLink_template_def construct_simps Ex_less_Suc)
  next
    case (Some l)
    obtain a where "KSI_Integer_toTlv (Some l) 1 False False = Inr a" using integer_toTlv by blast
    then show ?thesis using assms b Some
      by (subst constructTlv.simps) (simp add: KSI_HashChainLink_template_def construct_simps Ex_less_Suc)
  qed
qed

lemma sample_im_length: "length sample_im \<le> 0xffff" by (simp add: sample_im_def)

lemma chain_constructed:
  assumes "imprint link = Some h" "length h \<le> 0xffff" "legacyId link = None" "metaData link = None" "isLeft link"
    and "aggregationTime c = Some 5" "chainIndex c = Some [3] \<or> chainIndex c = Some [3, 3]" "inputHash c = Some sample_im" "inputData c = None"
      "aggrHashId c = Some 0" "chain c = Some [link]"
  shows "\<exists>t. KSI_TlvTemplate_construct (Some (KSI_TLV_new 0x801 False False)) (Some (AggregationHashChainO c)) (Some KSI_AggregationHashChain_template) = Ok t"
proof -
  obtain t where t: "to_HashChainLink (HashChainLinkO link) 7 False False = Ok t"
    using link_constructed [OF assms(1-4)] assms(5)
    by (auto simp: to_HashChainLink_def KSI_HashChainLink_toTlv_def KSI_TlvTemplate_construct_def ty_HashChainLink_def)
  obtain a b c d where "KSI_Integer_toTlv (Some 5) 2 False False = Inr a" "KSI_Integer_toTlv (Some 3) 3 False False = Inr b"
     "KSI_Integer_toTlv (Some 0) 6 False False = Inr c" "KSI_DataHash_toTlv (Some sample_im) 5 False False = Inr d"
    using integer_toTlv hash_toTlv [of sample_im 5] sample_im_length by metis
  then show ?thesis using t assms(6-11) unfolding KSI_TlvTemplate_construct_def run_ptr_simps
    by (subst constructTlv.simps)
       (auto simp: KSI_AggregationHashChain_template_def construct_simps Ex_less_Suc obj_list_length_def list_elementAt_def)
qed

text \<open>A signature whose first link has a level correction.\<close>

definition sample_corrected_tlv :: KSI_TLV where
  "sample_corrected_tlv = nest_tlv 0x801 [raw_tlv 2 [5], raw_tlv 3 [3], raw_tlv 5 sample_im, raw_tlv 6 [], nest_tlv 7 [raw_tlv 1 [3], raw_tlv 2 sample_im]]"

definition sample_corrected :: KSI_AggregationHashChain where
  "sample_corrected = corrected 3 sample_parsed_chain"

definition sample_corrected_object :: KSI_SignatureObject where
  "sample_corrected_object = KSI_Signature_new\<lparr>aggregationChainList := Some [sample_corrected], baseTlv := Some (nest_tlv 0x800 [sample_corrected_tlv])\<rparr>"

lemma sample_corrected_link: "from_HashChainLink (nest_tlv 7 [raw_tlv 1 [3], raw_tlv 2 sample_im])
     = Ok (HashChainLinkO (KSI_HashChainLink_new\<lparr>levelCorrection := Some 3, imprint := Some sample_im, isLeft := True\<rparr>), nest_tlv 7 [raw_tlv 1 [3], raw_tlv 2 sample_im])"
proof -
  have "extractTlv (HashChainLinkO KSI_HashChainLink_new) (nest_tlv 7 [raw_tlv 1 [3], raw_tlv 2 sample_im]) KSI_HashChainLink_template
     = Ok (HashChainLinkO (KSI_HashChainLink_new\<lparr>levelCorrection := Some 3, imprint := Some sample_im\<rparr>), nest_tlv 7 [raw_tlv 1 [3], raw_tlv 2 sample_im])"
  proof (rule extract_nested, rule link_template.extract_accepts [where hits = "[0, 1]"])
    show "map (entry_of KSI_HashChainLink_template) [raw_tlv 1 [3], raw_tlv 2 sample_im] = map Some [0, 1]"
      by (simp add: entry_of_Some [OF plain_templates(7)]) (simp add: KSI_HashChainLink_template_def)
  qed (auto simp: KSI_HashChainLink_template_def has_value_iff KSI_HashChainLink_new_def in_order_def is_complete_def less_Suc_eq run_bind_eq_Ok
        store_entry from_value_def)
  then show ?thesis
    by (simp add: from_HashChainLink_def KSI_HashChainLink_fromTlv_def KSI_TlvTemplate_extract_def ty_HashChainLink_def)
qed

lemma sample_corrected_chain:
  "extractTlv (AggregationHashChainO KSI_AggregationHashChain_new) sample_corrected_tlv KSI_AggregationHashChain_template
     = Ok (AggregationHashChainO sample_corrected, sample_corrected_tlv)"
  unfolding sample_corrected_tlv_def
proof (rule extract_nested, rule chain_template.extract_accepts [where hits = "[0, 1, 3, 4, 5]"])
  show "map (entry_of KSI_AggregationHashChain_template)
      [raw_tlv 2 [5], raw_tlv 3 [3], raw_tlv 5 sample_im, raw_tlv 6 [], nest_tlv 7 [raw_tlv 1 [3], raw_tlv 2 sample_im]] = map Some [0, 1, 3, 4, 5]"
    by (simp add: entry_of_Some [OF plain_templates(8)]) (simp add: KSI_AggregationHashChain_template_def)
qed (auto simp: KSI_AggregationHashChain_template_def has_value_iff KSI_AggregationHashChain_new_def in_order_def is_complete_def less_Suc_eq
      run_bind_eq_Ok store_entry from_value_def sample_parsed_chain_def elements_def sample_corrected_link sample_corrected_def corrected_def)


lemma nested_nest_tlv [simp]: "nested (nest_tlv tg l) = Some l"
  by (simp add: nest_tlv_def)

lemma sample_level_updated:
  assumes "calc 3 1 = Inr v" "valid_level v"
  shows "\<exists>t. updateLevelCorrection 1 calc sample_corrected_object =
     (Ok (), sample_corrected_object\<lparr>aggregationChainList := Some [corrected v sample_parsed_chain], baseTlv := Some (nest_tlv 0x800 [t])\<rparr>)"
proof -
  let ?link = "\<lparr>isLeft = True, levelCorrection = Some v, legacyId = None, metaData = None, imprint = Some sample_im\<rparr>"
  let ?c = "sample_parsed_chain\<lparr>chainIndex := Some [3], chain := Some [?link]\<rparr>"
  have c: "corrected v sample_parsed_chain = ?c" "sample_corrected = sample_parsed_chain\<lparr>chain := Some [?link\<lparr>levelCorrection := Some 3\<rparr>]\<rparr>"
    by (simp_all add: corrected_def sample_parsed_chain_def sample_corrected_def KSI_HashChainLink_new_def)
  obtain t where t: "KSI_TlvTemplate_construct (Some (KSI_TLV_new 0x801 False False)) (Some (AggregationHashChainO ?c)) (Some KSI_AggregationHashChain_template) = Ok t"
    using chain_constructed [of ?link sample_im ?c] sample_im_length by (auto simp: sample_parsed_chain_def KSI_AggregationHashChain_new_def)
  have "chainIndex sample_corrected = Some [3]" by (simp add: sample_corrected_def sample_parsed_chain_def)
  then have f: "findChain ?c 0 [sample_corrected_tlv] = Ok (Some 0, [sample_corrected_tlv])"
    by (simp add: KSI_TlvTemplate_extract_def sample_corrected_chain ty_AggregationHashChain_def KSI_AggregationHashChain_compare_def intCmp_def)
       (simp add: sample_corrected_tlv_def)
  have o: "sample_parsed_chain\<lparr>chain := Some [?link]\<rparr> = ?c" by (simp add: sample_parsed_chain_def)
  have "valid_level 1" by (simp add: valid_level_def KSI_IS_VALID_TREE_LEVEL_def)
  then show ?thesis using assms t f o unfolding c(1)
    by (intro exI [of _ t]) (simp add: updateLevelCorrection_def sample_corrected_object_def c(2) element_at_def sbind_def pure_def scheck_def KSI_Integer_getUInt64_def elements_def
        base_nested_def replace_base_def set_base_nested_def Let_def del: findChain.simps)
qed


theorem root_level_added_witness:
  "\<exists>sig'. addRootLevel 1 sample_corrected_object = (Ok (), sig') \<and>
     (\<exists>c'. aggregationChainList sig' = Some [c'] \<and>
        (\<forall>D h r. RuleFacts.joined D [c'] 0 h r \<longleftrightarrow> RuleFacts.joined D [sample_corrected] 1 h r))"
proof -
  have "level_add 3 1 = Inr 4" "valid_level 4" by (simp_all add: level_add_def valid_level_def KSI_IS_VALID_TREE_LEVEL_def)
  from sample_level_updated [of level_add 4, OF this] obtain sig' where s: "addRootLevel 1 sample_corrected_object = (Ok (), sig')"
    unfolding addRootLevel_def by blast
  from root_level_added [OF s] show ?thesis using s
    by (auto simp: sample_corrected_object_def KSI_Signature.truncate_def)
qed

definition constant_digest :: "int \<Rightarrow> bytes \<Rightarrow> bytes" where
  "constant_digest a m = replicate (KSI_getHashLength a) 1"

definition sample_leaf :: KSI_AggregationHashChain where
  "sample_leaf = sample_parsed_chain\<lparr>chainIndex := None\<rparr>"

lemma constant_checks:
  "KSI_HashChain_aggregate constant_digest (chain sample_corrected) (inputHash sample_corrected) 0 0 = Ok (4, Some sample_im)"
  "KSI_AggregationHashChain_aggregate constant_digest sample_leaf 0 =
     (Ok (1, Some sample_im), sample_leaf\<lparr>outputHash := Some sample_im, outputLevel := 1, inputLevel := 0, released := False\<rparr>)"
  "KSI_HashChain_aggregate constant_digest (chain sample_leaf) (inputHash sample_leaf) 0 0 = Ok (1, Some sample_im)"
  "KSI_AggregationHashChain_calculateShape (Some sample_leaf) = Inr 3"
  by code_simp+

lemma sample_appended:
  "\<exists>aggr' builder'. KSI_SignatureBuilder_appendAggregationChain constant_digest sample_leaf
     \<lparr>noVerify = False, builder_sig = Some sample_corrected_object\<rparr> = (Ok aggr', builder')"
proof -
  have "level_sub 3 1 = Inr 2" "valid_level 2" by (simp_all add: level_sub_def valid_level_def KSI_IS_VALID_TREE_LEVEL_def)
  from sample_level_updated [of level_sub 2, OF this] obtain t where s: "subRootLevel 1 sample_corrected_object =
     (Ok (), sample_corrected_object\<lparr>aggregationChainList := Some [corrected 2 sample_parsed_chain], baseTlv := Some (nest_tlv 0x800 [t])\<rparr>)"
    unfolding subRootLevel_def by blast
  let ?a = "sample_leaf\<lparr>outputHash := Some sample_im, outputLevel := 1, inputLevel := 0, released := False\<rparr>"
  let ?b = "?a\<lparr>aggregationTime := Some 5, chainIndex := Some [3, 3]\<rparr>"
  let ?s = "sample_corrected_object\<lparr>aggregationChainList := Some [corrected 2 sample_parsed_chain], baseTlv := Some (nest_tlv 0x800 [t])\<rparr>"
  obtain u where u: "KSI_TlvTemplate_construct (Some (KSI_TLV_new 0x801 False False)) (Some (AggregationHashChainO ?b)) (Some KSI_AggregationHashChain_template) = Ok u"
    using chain_constructed [of "KSI_HashChainLink_new\<lparr>imprint := Some sample_im, isLeft := True\<rparr>" sample_im ?b] sample_im_length
    by (auto simp: sample_leaf_def sample_parsed_chain_def KSI_AggregationHashChain_new_def KSI_HashChainLink_new_def)
  have "elements (chain ?a) \<noteq> []" "chainIndex ?a = None" by (simp_all add: sample_leaf_def sample_parsed_chain_def elements_def)
  moreover have "KSI_Signature_getSigningTime (KSI_Signature.truncate ?s) = Inr (Some 5)" "elements (chainIndex (corrected 2 sample_parsed_chain)) = [3]"
    by (simp_all add: KSI_Signature_getSigningTime_def KSI_Signature.truncate_def sample_corrected_object_def KSI_Signature_new_def element_at_def
        corrected_def sample_parsed_chain_def elements_def)
  moreover have "addChainIndex (?a\<lparr>aggregationTime := Some 5\<rparr>) = Inr (?a\<lparr>aggregationTime := Some 5, chainIndex := Some [3]\<rparr>)"
    using constant_checks(4) by (simp add: addChainIndex_def KSI_AggregationHashChain_calculateShape_def sample_leaf_def)
  ultimately have "\<exists>sig'. appendAggregationChain ?a ?s = (Ok ?b, sig')" using u
    by (simp add: appendAggregationChain_def sbind_def pure_def scheck_def element_at_def elements_def Let_def append_base_def)
  then show ?thesis using s constant_checks(2)
    by (auto simp: KSI_SignatureBuilder_appendAggregationChain_def on_sig_def sbind_def)
qed



lemma sort_chains_total: "cs \<noteq> [] \<Longrightarrow> \<exists>x xs. KSI_AggregationHashChainList_sort adr (Some cs) = Inr (x # xs)"
proof -
  assume "cs \<noteq> []"
  then obtain cs' where c: "KSI_AggregationHashChainList_sort adr (Some cs) = Inr cs'" by (auto simp: KSI_AggregationHashChainList_sort_def)
  have "length (prepareLoop cmp i es) = length es" for cmp i and es :: "'a listEl_st list"
    by (induction es arbitrary: i) simp_all
  then have "length cs' = length cs" using c by (auto simp: KSI_AggregationHashChainList_sort_def split: if_splits)
  then show ?thesis using c \<open>cs \<noteq> []\<close> by (cases cs') auto
qed

text \<open>C40. What a builder refuses.  Without a list of chains or with an empty one, with a publication or an authentication record but
  no calendar chain, or with both records, closing a builder fails without verification and the builder keeps the signature.  The
  missing calendar chain is reported as an unknown error.\<close>

theorem builder_refuses:
  assumes "builder_sig builder = Some sig"
  shows "let chains = aggregationChainList sig; records = (calendarAuthRec sig \<noteq> None \<or> publication sig \<noteq> None) in
     \<forall>e. ((chains = None \<and> e = KSI_INVALID_ARGUMENT) \<or> (chains = Some [] \<and> e = KSI_INVALID_STATE)
        \<or> (elements chains \<noteq> [] \<and> calendarChain sig = None \<and> records \<and> e = KSI_UNKNOWN_ERROR)
        \<or> (elements chains \<noteq> [] \<and> calendarChain sig \<noteq> None \<and> calendarAuthRec sig \<noteq> None \<and> publication sig \<noteq> None \<and> e = KSI_INVALID_FORMAT)) \<longrightarrow>
       (\<exists>builder'. KSI_SignatureBuilder_close E c adr l builder = Some (Err e, builder') \<and> builder_sig builder' \<noteq> None)"
proof (cases "aggregationChainList sig")
  case None
  then show ?thesis using assms
    by (simp add: KSI_SignatureBuilder_close_def prepareSignature_def KSI_AggregationHashChainList_sort_def elements_def)
next
  case (Some cs)
  show ?thesis
  proof (cases "cs = []")
    case True
    then show ?thesis using assms Some
      by (simp add: KSI_SignatureBuilder_close_def prepareSignature_def KSI_AggregationHashChainList_sort_def elements_def)
  next
    case False
    obtain x xs where "KSI_AggregationHashChainList_sort adr (Some cs) = Inr (x # xs)" using sort_chains_total [OF False] by blast
    then show ?thesis using assms Some False
      by (auto simp: KSI_SignatureBuilder_close_def prepareSignature_def checkSignatureInternals_def elements_def Let_def)
  qed
qed

theorem builder_refuses_witness:
  "\<exists>builder'. KSI_SignatureBuilder_close sample_env sample_context (\<lambda>_. 0) 0
     \<lparr>noVerify = False, builder_sig = Some ((sample_object sample_signature_tlv)\<lparr>publication := Some KSI_PublicationRecord_new\<rparr>)\<rparr>
       = Some (Err KSI_UNKNOWN_ERROR, builder') \<and> builder_sig builder' \<noteq> None"
  using builder_refuses [of "\<lparr>noVerify = False, builder_sig = Some ((sample_object sample_signature_tlv)\<lparr>publication := Some KSI_PublicationRecord_new\<rparr>)\<rparr>"
      _ sample_env sample_context "\<lambda>_. 0" 0]
  by (simp add: sample_object_def KSI_Signature_new_def elements_def Let_def)

end
