(* ===== verification/SignatureFlow.thy ===== *)
theory SignatureFlow
  imports BuilderGuarantees
begin

text \<open>
  Signing, extending and parsing of \<^verbatim>\<open>src/src/ksi/signature.c\<close> and the verification of a signature of
  \<^verbatim>\<open>src/src/ksi/signature_helper.c\<close>: the service is asked, a builder makes the signature from its response and a policy verifies
  it.  The exchange with the aggregator is a parameter, as that with the extender is.  A verification context carries what the
  library context keeps between calls: the number of calls to the services and the signature that has failed last.
\<close>

section \<open>Requests and responses of the aggregator\<close>

text \<open>The fields that signing uses; the network code sets the request identifier when it sends a request.\<close>

record KSI_AggregationReq =
  requestHash :: "KSI_DataHash option"
  requestLevel :: "KSI_Integer option"

record KSI_AggregationResp =
  ar_requestId :: "KSI_Integer option"
  ar_status :: "KSI_Integer option"
  ar_calendarChain :: "KSI_CalendarHashChain option"
  ar_aggregationChainList :: "KSI_AggregationHashChain list option"
  ar_calendarAuthRec :: "KSI_CalendarAuthRec option"
  ar_aggregationAuthRec :: "KSI_AggregationAuthRec option"
  ar_baseTlv :: "KSI_TLV option"

text \<open>\<^verbatim>\<open>KSI_sendSignRequest\<close>, \<^verbatim>\<open>KSI_RequestHandle_perform\<close> and \<^verbatim>\<open>KSI_RequestHandle_getAggregationResponse\<close>: the number of the
  call and the request yield the identifier that was given to the request and the response.\<close>

type_synonym sign_service = "nat \<Rightarrow> KSI_AggregationReq \<Rightarrow> (KSI_Integer option \<times> KSI_AggregationResp) ksi_result"

definition KSI_createSignRequest :: "KSI_DataHash option \<Rightarrow> int \<Rightarrow> KSI_AggregationReq ksi_result" where
  "KSI_createSignRequest hsh lvl =
     the_ptr hsh KSI_INVALID_ARGUMENT (\<lambda>hsh.
     check (lvl < 0 \<or> lvl > 0xff) KSI_INVALID_ARGUMENT (
     rbind (KSI_DataHash_extract (Some hsh)) (\<lambda>(algo_id, _).
     check (\<not> KSI_isHashAlgorithmTrusted algo_id) KSI_UNTRUSTED_HASH_ALGORITHM
       (Inr \<lparr>requestHash = Some hsh, requestLevel = (if lvl > 0 then Some (of_int lvl) else None)\<rparr>))))"

text \<open>\<open>None\<close> is \<open>KSI_OK\<close>.\<close>

definition KSI_convertAggregatorStatusCode :: "KSI_Integer option \<Rightarrow> ksi_status" where
  "KSI_convertAggregatorStatusCode statusCode =
     (if statusCode = None then None
      else
        let c = KSI_Integer_getUInt64 statusCode in
        if c = 0x00 then None
        else if c = 0x0101 then Some KSI_SERVICE_INVALID_REQUEST
        else if c = 0x0102 then Some KSI_SERVICE_AUTHENTICATION_FAILURE
        else if c = 0x0103 then Some KSI_SERVICE_INVALID_PAYLOAD
        else if c = 0x0104 then Some KSI_SERVICE_AGGR_REQUEST_TOO_LARGE
        else if c = 0x0105 then Some KSI_SERVICE_AGGR_REQUEST_OVER_QUOTA
        else if c = 0x0106 then Some KSI_SERVICE_AGGR_TOO_MANY_REQUESTS
        else if c = 0x0107 then Some KSI_SERVICE_AGGR_INPUT_TOO_LONG
        else if c = 0x0200 then Some KSI_SERVICE_INTERNAL_ERROR
        else if c = 0x0300 then Some KSI_SERVICE_UPSTREAM_ERROR
        else if c = 0x0301 then Some KSI_SERVICE_UPSTREAM_TIMEOUT
        else Some KSI_SERVICE_UNKNOWN_ERROR)"

text \<open>A request is given with the identifier it was sent with.\<close>

definition KSI_AggregationResp_verifyWithRequest ::
    "KSI_AggregationResp option \<Rightarrow> (KSI_Integer option \<times> KSI_AggregationReq) option \<Rightarrow> ksi_status" where
  "KSI_AggregationResp_verifyWithRequest resp req =
     (case (resp, req) of
        (Some resp, Some (requestId, _)) \<Rightarrow>
          if \<not> KSI_Integer_equals (ar_requestId resp) requestId then Some KSI_REQUEST_ID_MISMATCH else None
      | _ \<Rightarrow> Some KSI_INVALID_ARGUMENT)"

text \<open>The elements of the response that become elements of the signature.\<close>

definition signature_elements :: "KSI_TLV list \<Rightarrow> KSI_TLV list" where
  "signature_elements = filter (\<lambda>t. tlv_tag t \<notin> {0x01, 0x04, 0x05, 0x10, 0x11})"

definition KSI_SignatureBuilder_openFromAggregationResp :: "KSI_AggregationResp option \<Rightarrow> KSI_SignatureBuilder ksi_result" where
  "KSI_SignatureBuilder_openFromAggregationResp resp =
     the_ptr resp KSI_INVALID_ARGUMENT (\<lambda>resp.
     check (case ar_baseTlv resp of None \<Rightarrow> True | Some t \<Rightarrow> tlv_tag t \<noteq> 0x202 \<and> tlv_tag t \<noteq> 0x02) KSI_INVALID_FORMAT (
     (case KSI_convertAggregatorStatusCode (ar_status resp) of
        Some e \<Rightarrow> Inl e
      | None \<Rightarrow>
          rbind (KSI_TLV_clone (the (ar_baseTlv resp))) (\<lambda>respTlv.
          rbind (KSI_TLV_getNestedList respTlv) (\<lambda>(tlvList, _).
          rbind (foldl (\<lambda>tlv t. rbind tlv (\<lambda>tlv. KSI_TLV_appendNestedTlv (Some tlv) (Some t)))
                   (Inr (KSI_TLV_new 0x0800 False False)) (signature_elements tlvList)) (\<lambda>tmpTlv.
          rbind (KSI_TLV_clone tmpTlv) (\<lambda>base.
            Inr \<lparr>noVerify = False,
                 builder_sig = Some (KSI_Signature_new\<lparr>aggregationAuthRec := ar_aggregationAuthRec resp,
                   calendarAuthRec := ar_calendarAuthRec resp, calendarChain := ar_calendarChain resp,
                   aggregationChainList := (case ar_aggregationChainList resp of None \<Rightarrow> aggregationChainList KSI_Signature_new | Some l \<Rightarrow> Some l),
                   baseTlv := Some base\<rparr>)\<rparr>)))))))"

section \<open>Verification\<close>

text \<open>The context of a verification: a given one is copied, but it belongs to the same library context.\<close>

definition verification_context ::
    "KSI_VerificationContext \<Rightarrow> KSI_DataHash option \<Rightarrow> u64 \<Rightarrow> KSI_VerificationContext option \<Rightarrow> KSI_VerificationContext" where
  "verification_context c docHsh rootLevel verificationContext =
     (case verificationContext of
        None \<Rightarrow> (KSI_VerificationContext_init c)\<lparr>documentHash := docHsh, docAggrLevel := rootLevel\<rparr>
      | Some v \<Rightarrow> v\<lparr>lastFailedSignature := lastFailedSignature c, netCalls := netCalls c\<rparr>)"

text \<open>What a verification leaves behind in the signature and in the library context.\<close>

definition verified_signature :: "KSI_SignatureObject \<Rightarrow> KSI_VerificationContext \<Rightarrow> KSI_SignatureObject" where
  "verified_signature sig d =
     (case signature d of None \<Rightarrow> sig
      | Some s \<Rightarrow> KSI_Signature.extend s (KSI_SignatureObject.fields (aggregationAuthRec sig) (baseTlv sig)))"

definition keep_context :: "KSI_VerificationContext \<Rightarrow> KSI_VerificationContext \<Rightarrow> KSI_VerificationContext" where
  "keep_context c d = c\<lparr>lastFailedSignature := lastFailedSignature d, netCalls := netCalls d\<rparr>"

definition KSI_Signature_verifyWithPolicy ::
    "KSI_VerificationContext KSI_Policy list \<Rightarrow> KSI_VerificationContext \<Rightarrow> KSI_DataHash option \<Rightarrow> u64 \<Rightarrow> nat option
       \<Rightarrow> KSI_VerificationContext option \<Rightarrow> KSI_SignatureObject \<Rightarrow> (unit run \<times> KSI_SignatureObject \<times> KSI_VerificationContext) option" where
  "KSI_Signature_verifyWithPolicy m c docHsh rootLevel policy verificationContext sig =
     (if \<not> valid_level rootLevel then Some (Err KSI_INVALID_FORMAT, sig, c)
      else
        (case KSI_SignatureVerifier_verify m policy
                ((verification_context c docHsh rootLevel verificationContext)\<lparr>signature := Some (KSI_Signature.truncate sig)\<rparr>) of
           None \<Rightarrow> None
         | Some (Ok result, d) \<Rightarrow>
             Some (if resultCode (finalResult result) \<noteq> KSI_VER_RES_OK then Err KSI_VERIFICATION_FAILURE else Ok (),
                   verified_signature sig d, keep_context c d)
         | Some (Err e, d) \<Rightarrow> Some (Err e, verified_signature sig d, keep_context c d)
         | Some (Fault, d) \<Rightarrow> Some (Fault, verified_signature sig d, keep_context c d)))"

text \<open>A new signature is returned when it verifies, and released otherwise.\<close>

definition return_verified ::
    "KSI_VerificationContext KSI_Policy list \<Rightarrow> KSI_VerificationContext \<Rightarrow> KSI_DataHash option \<Rightarrow> nat option
       \<Rightarrow> KSI_VerificationContext option \<Rightarrow> KSI_SignatureObject \<Rightarrow> (KSI_SignatureObject run \<times> KSI_VerificationContext) option" where
  "return_verified m c docHsh policy verificationContext sig =
     map_option (\<lambda>(r, sig, c). (run_bind r (\<lambda>_. Ok sig), c)) (KSI_Signature_verifyWithPolicy m c docHsh 0 policy verificationContext sig)"

definition KSI_Signature_parseWithPolicy ::
    "KSI_VerificationContext KSI_Policy list \<Rightarrow> KSI_VerificationContext \<Rightarrow> (nat \<Rightarrow> u64) \<Rightarrow> bytes option \<Rightarrow> nat option
       \<Rightarrow> KSI_VerificationContext option \<Rightarrow> (KSI_SignatureObject run \<times> KSI_VerificationContext) option" where
  "KSI_Signature_parseWithPolicy m c adr raw policy verificationContext =
     (case run_ptr raw KSI_INVALID_ARGUMENT (\<lambda>raw.
             run_check (raw = []) KSI_INVALID_ARGUMENT (
             run_bind (run_of (KSI_TLV_parseBlob (Some raw))) (\<lambda>tlv. extractSignature adr (Some tlv)))) of
        Ok (tmp, _) \<Rightarrow> return_verified m c None policy verificationContext tmp
      | Err e \<Rightarrow> Some (Err e, c)
      | Fault \<Rightarrow> Some (Fault, c))"

section \<open>Signing\<close>

text \<open>Closing a builder that does not verify always returns.\<close>

definition close_unverified ::
    "verify_env \<Rightarrow> KSI_VerificationContext \<Rightarrow> (nat \<Rightarrow> u64) \<Rightarrow> u64 \<Rightarrow> KSI_SignatureBuilder \<Rightarrow> KSI_SignatureObject run" where
  "close_unverified E c adr rootLevel builder =
     (case KSI_SignatureBuilder_close E c adr rootLevel (builder\<lparr>noVerify := True\<rparr>) of None \<Rightarrow> Fault | Some (r, _) \<Rightarrow> r)"

definition KSI_Signature_signAggregatedWithPolicy ::
    "verify_env \<Rightarrow> sign_service \<Rightarrow> KSI_VerificationContext KSI_Policy list \<Rightarrow> KSI_VerificationContext \<Rightarrow> (nat \<Rightarrow> u64) \<Rightarrow> KSI_DataHash option
       \<Rightarrow> u64 \<Rightarrow> nat option \<Rightarrow> KSI_VerificationContext option \<Rightarrow> (KSI_SignatureObject run \<times> KSI_VerificationContext) option" where
  "KSI_Signature_signAggregatedWithPolicy E service m c adr rootHash rootLevel policy context =
     (case the_ptr rootHash KSI_INVALID_ARGUMENT (\<lambda>rootHash.
             check (\<not> valid_level rootLevel) KSI_INVALID_FORMAT (KSI_createSignRequest (Some rootHash) (int (unat rootLevel)))) of
        Inl e \<Rightarrow> Some (Err e, c)
      | Inr req \<Rightarrow>
          (case rbind (service (netCalls c) req) (\<lambda>(requestId, response).
                  (case KSI_AggregationResp_verifyWithRequest (Some response) (Some (requestId, req)) of
                     Some e \<Rightarrow> Inl e
                   | None \<Rightarrow> KSI_SignatureBuilder_openFromAggregationResp (Some response))) of
             Inl e \<Rightarrow> Some (Err e, next_call c)
           | Inr builder \<Rightarrow>
               (case close_unverified E (next_call c) adr rootLevel builder of
                  Ok sign \<Rightarrow> return_verified m (next_call c) rootHash policy context sign
                | Err e \<Rightarrow> Some (Err e, next_call c)
                | Fault \<Rightarrow> Some (Fault, next_call c))))"

abbreviation KSI_Signature_signAggregated ::
    "verify_env \<Rightarrow> sign_service \<Rightarrow> KSI_VerificationContext \<Rightarrow> (nat \<Rightarrow> u64) \<Rightarrow> KSI_DataHash option \<Rightarrow> u64
       \<Rightarrow> (KSI_SignatureObject run \<times> KSI_VerificationContext) option" where
  "KSI_Signature_signAggregated E service c adr rootHash rootLevel \<equiv>
     KSI_Signature_signAggregatedWithPolicy E service (predefined_policies E) c adr rootHash rootLevel (Some 1) None"

text \<open>The chain is aggregated from the given level, but it is appended from level zero.  What the call leaves behind in the chain
  object of the caller, the time and the index that appending sets, is not returned.\<close>

definition KSI_Signature_signAggregationChain ::
    "verify_env \<Rightarrow> sign_service \<Rightarrow> KSI_VerificationContext \<Rightarrow> (nat \<Rightarrow> u64) \<Rightarrow> int \<Rightarrow> KSI_AggregationHashChain option
       \<Rightarrow> (KSI_SignatureObject run \<times> KSI_VerificationContext) option" where
  "KSI_Signature_signAggregationChain E service c adr lvl chn =
     (case chn of None \<Rightarrow> Some (Err KSI_INVALID_ARGUMENT, c)
      | Some chn \<Rightarrow>
          if lvl > 0xff \<or> lvl < 0 then Some (Err KSI_INVALID_ARGUMENT, c)
          else
            (case KSI_AggregationHashChain_aggregate (digest E) chn lvl of
               (Fault, _) \<Rightarrow> Some (Fault, c)
             | (Err e, _) \<Rightarrow> Some (Err e, c)
             | (Ok (root_level, root), chn) \<Rightarrow>
                 (case KSI_Signature_signAggregated E service c adr root (of_int root_level) of
                    None \<Rightarrow> None
                  | Some (Ok signAggr, c) \<Rightarrow>
                      (case fst (KSI_SignatureBuilder_openFromSignature adr signAggr) of
                         Ok builder \<Rightarrow>
                           (case KSI_SignatureBuilder_appendAggregationChain (digest E) chn builder of
                              (Ok _, builder) \<Rightarrow> map_option (\<lambda>(r, _). (r, c)) (KSI_SignatureBuilder_close E c adr 0 builder)
                            | (Err e, _) \<Rightarrow> Some (Err e, c)
                            | (Fault, _) \<Rightarrow> Some (Fault, c))
                       | Err e \<Rightarrow> Some (Err e, c)
                       | Fault \<Rightarrow> Some (Fault, c))
                  | Some (Err e, c) \<Rightarrow> Some (Err e, c)
                  | Some (Fault, c) \<Rightarrow> Some (Fault, c))))"

section \<open>Extending\<close>

text \<open>A status that is not there is converted to \<open>KSI_OK\<close>, which is then returned without any further check.\<close>

definition KSI_ExtendResp_verifyWithRequest :: "KSI_ExtendResp option \<Rightarrow> (KSI_Integer option \<times> KSI_ExtendReq) option \<Rightarrow> ksi_status" where
  "KSI_ExtendResp_verifyWithRequest resp req =
     (case (resp, req) of
        (Some resp, Some (requestId, req)) \<Rightarrow>
          if \<not> KSI_Integer_equalsUInt (resp_status resp) 0 then KSI_convertExtenderStatusCode (resp_status resp)
          else if \<not> KSI_Integer_equals (resp_requestId resp) requestId then Some KSI_REQUEST_ID_MISMATCH
          else
            (case KSI_CalendarHashChain_getPublicationTime (resp_calendarHashChain resp) of
               Inl e \<Rightarrow> Some e
             | Inr tm \<Rightarrow>
                 if req_publicationTime req \<noteq> None \<and> \<not> KSI_Integer_equals tm (req_publicationTime req) then Some KSI_INVALID_ARGUMENT
                 else
                   (case KSI_CalendarHashChain_getAggregationTime (resp_calendarHashChain resp) of
                      Inl e \<Rightarrow> Some e
                    | Inr tm \<Rightarrow>
                        if \<not> KSI_Integer_equals tm (Some (req_aggregationTime req)) then Some KSI_INVALID_ARGUMENT
                        else
                          (case KSI_CalendarHashChain_calculateAggregationTime (resp_calendarHashChain resp) of
                             Inl e \<Rightarrow> Some e
                           | Inr aggrTm \<Rightarrow> if \<not> KSI_Integer_equalsUInt tm (of_int aggrTm) then Some KSI_INVALID_ARGUMENT else None)))
      | _ \<Rightarrow> Some KSI_INVALID_ARGUMENT)"

text \<open>The signature that is extended is returned as the copying of its TLV leaves it.\<close>

definition KSI_signature_extendToWithoutVerification ::
    "verify_env \<Rightarrow> KSI_VerificationContext \<Rightarrow> (nat \<Rightarrow> u64) \<Rightarrow> KSI_Integer option \<Rightarrow> KSI_SignatureObject
       \<Rightarrow> KSI_SignatureObject run \<times> KSI_SignatureObject \<times> KSI_VerificationContext" where
  "KSI_signature_extendToWithoutVerification E c adr to sig =
     (case rbind (KSI_Signature_getSigningTime (KSI_Signature.truncate sig)) (\<lambda>signTime. KSI_createExtendRequest signTime to) of
        Inl e \<Rightarrow> (Err e, sig, c)
      | Inr req \<Rightarrow>
          let c' = next_call c in
          (case rbind (extendService E (netCalls c) req) (\<lambda>(requestId, resp).
                  (case KSI_ExtendResp_verifyWithRequest (Some resp) (Some (requestId, req)) of
                     Some e \<Rightarrow> Inl e | None \<Rightarrow> Inr (resp_calendarHashChain resp))) of
             Inl e \<Rightarrow> (Err e, sig, c')
           | Inr calHashChain \<Rightarrow>
               (case KSI_SignatureBuilder_openFromSignature adr sig of
                  (Fault, sig) \<Rightarrow> (Fault, sig, c')
                | (Err e, sig) \<Rightarrow> (Err e, sig, c')
                | (Ok builder, sig) \<Rightarrow>
                    (case (if calendarChain sig = None then None
                           else KSI_CalendarHashChain_verifyCompatibilityTo (calendarChain sig) calHashChain) of
                       Some e \<Rightarrow> (Err e, sig, c')
                     | None \<Rightarrow>
                         (case KSI_SignatureBuilder_applyCalendarHashChain calHashChain builder of
                            (Ok _, builder) \<Rightarrow> (close_unverified E c' adr 0 builder, sig, c')
                          | (Err e, _) \<Rightarrow> (Err e, sig, c')
                          | (Fault, _) \<Rightarrow> (Fault, sig, c'))))))"

definition KSI_Signature_extendToWithPolicy ::
    "verify_env \<Rightarrow> KSI_VerificationContext KSI_Policy list \<Rightarrow> KSI_VerificationContext \<Rightarrow> (nat \<Rightarrow> u64) \<Rightarrow> KSI_Integer option \<Rightarrow> nat option
       \<Rightarrow> KSI_VerificationContext option \<Rightarrow> KSI_SignatureObject
       \<Rightarrow> (KSI_SignatureObject run \<times> KSI_SignatureObject \<times> KSI_VerificationContext) option" where
  "KSI_Signature_extendToWithPolicy E m c adr to policy context sig =
     (case KSI_signature_extendToWithoutVerification E c adr to sig of
        (Ok tmp, sig, c) \<Rightarrow> map_option (\<lambda>(r, c). (r, sig, c)) (return_verified m c None policy context tmp)
      | (Err e, sig, c) \<Rightarrow> Some (Err e, sig, c)
      | (Fault, sig, c) \<Rightarrow> Some (Fault, sig, c))"

definition KSI_Signature_extendWithPolicy ::
    "verify_env \<Rightarrow> KSI_VerificationContext KSI_Policy list \<Rightarrow> KSI_VerificationContext \<Rightarrow> (nat \<Rightarrow> u64) \<Rightarrow> KSI_PublicationRecord option \<Rightarrow> nat option
       \<Rightarrow> KSI_VerificationContext option \<Rightarrow> KSI_SignatureObject
       \<Rightarrow> (KSI_SignatureObject run \<times> KSI_SignatureObject \<times> KSI_VerificationContext) option" where
  "KSI_Signature_extendWithPolicy E m c adr pubRec policy context sig =
     (case (case pubRec of None \<Rightarrow> Ok (None, None)
            | Some r \<Rightarrow>
                run_bind (KSI_PublicationRecord_clone (Some r)) (\<lambda>pubRecClone.
                run_bind (run_of (rbind (KSI_PublicationRecord_getPublishedData (Some r)) KSI_PublicationData_getTime)) (\<lambda>pubTime.
                  Ok (Some pubRecClone, pubTime)))) of
        Fault \<Rightarrow> Some (Fault, sig, c)
      | Err e \<Rightarrow> Some (Err e, sig, c)
      | Ok (pubRecClone, pubTime) \<Rightarrow>
          (case KSI_signature_extendToWithoutVerification E c adr pubTime sig of
             (Fault, sig, c) \<Rightarrow> Some (Fault, sig, c)
           | (Err e, sig, c) \<Rightarrow> Some (Err e, sig, c)
           | (Ok tmp, sig, c) \<Rightarrow>
               (case KSI_Signature_replacePublicationRecord pubRecClone tmp of
                  (Ok _, tmp) \<Rightarrow> map_option (\<lambda>(r, c). (r, sig, c)) (return_verified m c None policy context tmp)
                | (Err e, _) \<Rightarrow> Some (Err e, sig, c)
                | (Fault, _) \<Rightarrow> Some (Fault, sig, c))))"

section \<open>What a verified signature has\<close>

lemma verified_iff:
  "(\<exists>sig' c'. return_verified m c doc (Some p) ctx sig = Some (Ok sig', c')) \<longleftrightarrow>
     accepts m p ((verification_context c doc 0 ctx)\<lparr>signature := Some (KSI_Signature.truncate sig)\<rparr>)"
  by (auto simp: return_verified_def KSI_Signature_verifyWithPolicy_def accepts_def valid_level_def KSI_IS_VALID_TREE_LEVEL_def run_bind_eq_Ok
      split: option.splits prod.splits run.splits)

lemma verified_base: "return_verified m c doc p ctx sig = Some (Ok sig', c') \<Longrightarrow> baseTlv sig' = baseTlv sig"
  by (auto simp: return_verified_def KSI_Signature_verifyWithPolicy_def verified_signature_def run_bind_eq_Ok KSI_Signature.extend_def
      KSI_SignatureObject.fields_def split: if_splits option.splits prod.splits run.splits)

lemma parseBlob_empty: "KSI_TLV_parseBlob (Some []) = Inr t \<Longrightarrow> False"
  by (simp add: KSI_TLV_parseBlob_def KSI_TLV_parseBlob2_def)

text \<open>C8. Parsing a signature is exact.  Bytes are accepted as a signature, under the internal policy that parsing uses, exactly when
  they are a TLV from which a signature can be extracted and the signature is internally valid; the signature is then well formed.\<close>

theorem parse_signature_exact:
  "(\<exists>sig c'. KSI_Signature_parseWithPolicy (predefined_policies E) c adr raw (Some 1) None = Some (Ok sig, c')) \<longleftrightarrow>
     (\<exists>bs tlv sig tlv'. raw = Some bs \<and> KSI_TLV_parseBlob (Some bs) = Inr tlv \<and> extractSignature adr (Some tlv) = Ok (sig, tlv')
        \<and> signature_wf sig \<and> internally_valid (digest E) (KSI_VerificationContext_init c) (KSI_Signature.truncate sig))"
proof -
  have v: "(\<exists>sig' c'. return_verified (predefined_policies E) c None (Some 1) None sig = Some (Ok sig', c')) \<longleftrightarrow>
      internally_valid (digest E) (KSI_VerificationContext_init c) (KSI_Signature.truncate sig)" if "extractSignature adr tlv = Ok (sig, tlv')" for sig tlv tlv'
  proof -
    have "verification_context c None 0 None = KSI_VerificationContext_init c"
      by (simp add: verification_context_def KSI_VerificationContext_init_def)
    then show ?thesis unfolding verified_iff using extracted_wf [OF that] internal_accepts [OF wf_fresh] by simp
  qed
  have "(\<exists>sig c'. KSI_Signature_parseWithPolicy (predefined_policies E) c adr raw (Some 1) None = Some (Ok sig, c')) \<longleftrightarrow>
      (\<exists>bs tlv sig tlv'. raw = Some bs \<and> bs \<noteq> [] \<and> KSI_TLV_parseBlob (Some bs) = Inr tlv \<and> extractSignature adr (Some tlv) = Ok (sig, tlv')
         \<and> (\<exists>sig' c'. return_verified (predefined_policies E) c None (Some 1) None sig = Some (Ok sig', c')))"
    by (cases raw; cases "KSI_TLV_parseBlob raw"; cases "extractSignature adr (Some (projr (KSI_TLV_parseBlob raw)))")
       (auto simp: KSI_Signature_parseWithPolicy_def run_check_def split: if_splits)
  then show ?thesis using v extracted_wf parseBlob_empty by metis
qed

section \<open>What signing delivers\<close>

lemma mset_qsort: "mset (qsort c xs) = mset xs"
proof -
  have "mset (qinsert c x ys) = add_mset x (mset ys)" for x ys by (induction ys) simp_all
  then show ?thesis by (induction xs) (simp_all add: qsort_def)
qed

lemma prepareLoop_ptr: "map el_ptr (prepareLoop c i es) = map el_ptr es"
  by (induction es arbitrary: i) simp_all

lemma sort_chains_mset:
  assumes "KSI_AggregationHashChainList_sort adr l = Inr cs'"
  shows "mset cs' = mset (elements l)"
proof -
  obtain cs where l: "l = Some cs" using assms by (cases l) (auto simp: KSI_AggregationHashChainList_sort_def)
  let ?es = "map (\<lambda>(i, c). \<lparr>initialIdx = 0, el_ptr = Some (Some c, adr i), el_cmp = None\<rparr>) (enumerate 0 cs)"
  let ?c = "\<lambda>a b. KSI_AggregationHashChain_compare (the a) (the b)"
  have "mset cs' = mset (map (\<lambda>p. the (fst (the p))) (map el_ptr (qsort sortCmp (prepareLoop ?c 0 ?es))))"
    using assms l by (auto simp: KSI_AggregationHashChainList_sort_def o_def)
  also have "\<dots> = mset (map (\<lambda>p. the (fst (the p))) (map el_ptr (prepareLoop ?c 0 ?es)))" by (simp only: mset_map mset_qsort)
  also have "\<dots> = mset cs" unfolding prepareLoop_ptr by (simp add: o_def case_prod_unfold)
  finally show ?thesis using l by simp
qed

lemma base_some:
  "base_nested sig = (Ok l, s) \<Longrightarrow> \<exists>b. s = sig\<lparr>baseTlv := Some b\<rparr>"
  "replace_base pos t sig = (Ok u, s) \<Longrightarrow> \<exists>b. s = sig\<lparr>baseTlv := Some b\<rparr>"
  by (cases "baseTlv sig"; auto simp: base_nested_def replace_base_def set_base_nested_def split: option.splits sum.splits prod.splits)+

lemma base_kept: "updateLevelCorrection l calc sig = (Ok u, sig') \<Longrightarrow> l \<noteq> 0 \<Longrightarrow> baseTlv sig' \<noteq> None"
  by (auto simp: updateLevelCorrection_def sbind_eq_Ok Let_def dest!: base_some(2))

text \<open>Preparing a signature keeps its records, sorts its chains and adds the root level.\<close>

lemma prepared_chains:
  assumes "prepareSignature adr l sig = (Ok u, sig', built)" "baseTlv sig \<noteq> None"
  shows "\<exists>cs cs'. mset cs = mset (elements (aggregationChainList sig)) \<and> aggregationChainList sig' = Some cs'
     \<and> KSI_Signature.truncate sig' = (KSI_Signature.truncate sig)\<lparr>aggregationChainList := Some cs'\<rparr>
     \<and> (\<forall>D h r. RuleFacts.joined D cs' 0 h r \<longleftrightarrow> RuleFacts.joined D cs (int (unat l)) h r)
     \<and> (list_all fresh_chain cs \<longrightarrow> list_all fresh_chain cs') \<and> (l = 0 \<longrightarrow> cs' = cs) \<and> baseTlv sig' \<noteq> None"
proof -
  obtain cs where cs: "KSI_AggregationHashChainList_sort adr (aggregationChainList sig) = Inr cs"
    "(if l \<noteq> 0 then addRootLevel l (sig\<lparr>aggregationChainList := Some cs\<rparr>) else (Ok (), sig\<lparr>aggregationChainList := Some cs\<rparr>)) = (Ok (), sig')"
    using assms by (auto simp: prepareSignature_def Let_def sbind_def split: sum.splits option.splits prod.splits)
  note m = sort_chains_mset [OF cs(1)]
  show ?thesis
  proof (cases "l = 0")
    case True
    then show ?thesis using cs(2) m assms(2) by (intro exI [of _ cs]) (auto simp: KSI_Signature.truncate_def)
  next
    case False
    then obtain c cs1 v where c: "cs = c # cs1" "elements (chain c) \<noteq> []" "level_add (first_correction c) l = Inr v" "valid_level l" "valid_level v"
      "KSI_Signature.truncate sig' = (KSI_Signature.truncate sig)\<lparr>aggregationChainList := Some (corrected v c # cs1)\<rparr>"
      using level_updated [of l level_add "sig\<lparr>aggregationChainList := Some cs\<rparr>" "()" sig'] cs(2)
      by (auto simp: addRootLevel_def KSI_Signature.truncate_def)
    have lv: "int (unat l) \<le> 0xff" "unat v < 0x400" using valid_level_less [OF c(4)] valid_level_less [OF c(5)] by linarith+
    have "RuleFacts.joined D (corrected v c # cs1) 0 h r \<longleftrightarrow> RuleFacts.joined D cs (int (unat l)) h r" for D h r
      unfolding c(1) using lv(1) shifted_aggregate [OF lv(2) level_add_Inr [OF c(3)] c(2)] by (intro joined_shift) simp_all
    moreover have "fresh_chain (corrected v c) = fresh_chain c" by (simp add: fresh_chain_def corrected_def)
    moreover have "aggregationChainList sig' = Some (corrected v c # cs1)" using c(6) by (simp add: KSI_Signature.truncate_def)
    moreover have "baseTlv sig' \<noteq> None" using base_kept cs(2) False assms(2) by (auto simp: addRootLevel_def)
    ultimately show ?thesis using m c(1,6) False by (intro exI [of _ cs] exI [of _ "corrected v c # cs1"]) auto
  qed
qed

lemma closed_unverified:
  assumes "close_unverified E c adr l builder = Ok sig" "builder_sig builder = Some s"
  shows "\<exists>built. prepareSignature adr l s = (Ok (), sig, built)"
  using assms by (auto simp: close_unverified_def closed_ok close_builder_def split: option.splits prod.splits)

lemma uint_positive: "l \<noteq> 0 \<Longrightarrow> 0 < uint (l :: u64)"
  using uint_ge_0 [of l] uint_0_iff [of l] by linarith

lemma opened_response:
  assumes "KSI_SignatureBuilder_openFromAggregationResp (Some resp) = Inr builder"
  shows "\<exists>s. builder_sig builder = Some s \<and> baseTlv s \<noteq> None \<and> KSI_convertAggregatorStatusCode (ar_status resp) = None
     \<and> KSI_Signature.truncate s = \<lparr>calendarChain = ar_calendarChain resp, aggregationChainList = ar_aggregationChainList resp, rfc3161 = None,
          calendarAuthRec = ar_calendarAuthRec resp, publication = None\<rparr>"
  using assms
  by (auto simp: KSI_SignatureBuilder_openFromAggregationResp_def rbind_eq_Inr KSI_Signature.truncate_def KSI_Signature_new_def
      split: option.splits)

text \<open>The contract of an aggregator's responses: the chains of a response that was parsed keep no results.\<close>

definition fresh_responses :: "sign_service \<Rightarrow> bool" where
  "fresh_responses service \<longleftrightarrow>
     (\<forall>n req i resp. service n req = Inr (i, resp) \<longrightarrow> list_all fresh_chain (elements (ar_aggregationChainList resp)))"


section \<open>A sample\<close>

definition sample_response :: KSI_AggregationResp where
  "sample_response = \<lparr>ar_requestId = Some 7, ar_status = Some 0, ar_calendarChain = Some sample_calendar,
     ar_aggregationChainList = Some [VerificationPolicy.sample_chain], ar_calendarAuthRec = None, ar_aggregationAuthRec = None,
     ar_baseTlv = Some (nest_tlv 0x02 [raw_tlv 0x01 [7], raw_tlv 0x04 []])\<rparr>"

definition sample_service :: sign_service where
  "sample_service n req = Inr (Some 7, sample_response)"

lemma trees_of_eq: "trees_of l = [] \<longleftrightarrow> l = []" "trees_of l = y # ys \<longleftrightarrow> (\<exists>t ts. l = t # ts \<and> tree_of t = y \<and> trees_of ts = ys)"
  by (cases l; auto)+

lemma tree_of_tag: "tree_of t = Raw tg nc fwd p \<Longrightarrow> tlv_tag t = tg"
  by (cases t) (auto split: option.splits)

lemma sample_opened: "\<exists>base. KSI_SignatureBuilder_openFromAggregationResp (Some sample_response) =
   Inr \<lparr>noVerify = False, builder_sig = Some (KSI_Signature_new\<lparr>calendarChain := Some sample_calendar,
     aggregationChainList := Some [VerificationPolicy.sample_chain], baseTlv := Some base\<rparr>)\<rparr>"
proof -
  let ?t = "nest_tlv 0x02 [raw_tlv 0x01 [7], raw_tlv 0x04 []]"
  have "tlv_ok ?t" by (simp add: nest_tlv_def raw_tlv_def length_tlv_header HDR_LEN_def)
  then obtain t where t: "KSI_TLV_clone ?t = Inr t" "tree_of t = tree_of ?t" using clone_tree by blast
  obtain l where l: "nested t = Some l" "map tlv_tag l = [1, 4]"
    using t(2) by (cases t) (auto simp: nest_tlv_def raw_tlv_def trees_of_eq dest!: tree_of_tag split: option.splits)
  have "tlv_ok (KSI_TLV_new 0x800 False False)" by (simp add: KSI_TLV_new_def)
  then obtain base where "KSI_TLV_clone (KSI_TLV_new 0x800 False False) = Inr base" using clone_tree by blast
  moreover have "signature_elements l = []" using l(2) by (auto simp: signature_elements_def filter_empty_conv dest: arg_cong [of _ _ set])
  ultimately show ?thesis using t(1) l(1)
    by (simp add: KSI_SignatureBuilder_openFromAggregationResp_def sample_response_def KSI_convertAggregatorStatusCode_def KSI_Integer_getUInt64_def
        KSI_TLV_getNestedList_def KSI_Signature_new_def)
qed


section \<open>What extending delivers\<close>

lemma removed_records:
  assumes "removeCalAuthAndPublication sig = (Ok u, sig')"
  shows "KSI_Signature.truncate sig' = (KSI_Signature.truncate sig)\<lparr>calendarAuthRec := None, publication := None\<rparr> \<and> baseTlv sig' \<noteq> None"
  using assms by (auto simp: removeCalAuthAndPublication_def sbind_eq_Ok base_nested_def set_base_nested_def KSI_Signature.truncate_def
      split: option.splits sum.splits prod.splits)

lemma replaced_chain:
  assumes "replaceCalendarChain cal sig = (Ok u, sig')"
  shows "KSI_Signature.truncate sig' = (KSI_Signature.truncate sig)\<lparr>calendarChain := Some cal\<rparr>"
  using assms by (auto simp: replaceCalendarChain_def sbind_eq_Ok KSI_Signature.truncate_def base_nested_def replace_base_def append_base_def set_base_nested_def
      split: option.splits sum.splits prod.splits if_splits)

lemma replaced_publication:
  assumes "KSI_Signature_replacePublicationRecord rec sig = (Ok u, sig')"
  shows "KSI_Signature.truncate sig' = (case rec of None \<Rightarrow> KSI_Signature.truncate sig
     | Some r \<Rightarrow> (KSI_Signature.truncate sig)\<lparr>calendarAuthRec := None, publication := Some r\<rparr>)"
proof (cases rec)
  case (Some r)
  then obtain s where "removeCalAuthAndPublication sig = (Ok (), s)" "KSI_Signature.truncate sig' = (KSI_Signature.truncate s)\<lparr>publication := Some r\<rparr>"
    using assms by (fastforce simp: KSI_Signature_replacePublicationRecord_def sbind_eq_Ok KSI_Signature.truncate_def set_base_nested_def dest!: base_some(1))
  then show ?thesis using removed_records Some by (fastforce simp: KSI_Signature.truncate_def)
qed (use assms in \<open>simp add: KSI_Signature_replacePublicationRecord_def\<close>)

lemma applied_chain:
  assumes "KSI_SignatureBuilder_applyCalendarHashChain cal builder = (Ok u, builder')" "builder_sig builder = Some s"
  shows "\<exists>cal' s'. cal = Some cal' \<and> builder_sig builder' = Some s' \<and> baseTlv s' \<noteq> None
     \<and> KSI_Signature.truncate s' = (KSI_Signature.truncate s)\<lparr>calendarChain := Some cal', calendarAuthRec := None, publication := None\<rparr>"
proof -
  obtain cal' s1 s' where "cal = Some cal'" "replaceCalendarChain cal' s = (Ok (), s1)" "removeCalAuthAndPublication s1 = (Ok (), s')"
    "builder_sig builder' = Some s'"
    using assms by (auto simp: KSI_SignatureBuilder_applyCalendarHashChain_def on_sig_def sbind_eq_Ok split: option.splits prod.splits)
  then show ?thesis using replaced_chain removed_records by fastforce
qed

lemma opened_signature:
  "KSI_SignatureBuilder_openFromSignature adr sig = (Ok builder, sig1) \<longleftrightarrow>
     (\<exists>clone t. extractSignature adr (baseTlv sig) = Ok (clone, t) \<and> builder = \<lparr>noVerify = False, builder_sig = Some clone\<rparr>
        \<and> sig1 = sig\<lparr>baseTlv := Some t\<rparr>)"
  by (auto simp: KSI_SignatureBuilder_openFromSignature_def sbind_eq_Ok cloned_ok)

text \<open>The checks of the extender's response.\<close>

definition response_matches :: "KSI_Integer \<Rightarrow> KSI_Integer option \<Rightarrow> KSI_CalendarHashChain \<Rightarrow> bool" where
  "response_matches t to cal \<longleftrightarrow>
     cal_aggregationTime cal = Some t \<and> (to \<noteq> None \<longrightarrow> publicationTime cal = to)
   \<and> (\<exists>tm. KSI_CalendarHashChain_calculateAggregationTime (Some cal) = Inr tm \<and> of_int tm = t)"

lemma verified_response:
  assumes "KSI_ExtendResp_verifyWithRequest (Some resp) (Some (i, req)) = None" "resp_status resp \<noteq> None" "resp_calendarHashChain resp = Some cal"
  shows "response_matches (req_aggregationTime req) (req_publicationTime req) cal"
  using assms by (auto simp: KSI_ExtendResp_verifyWithRequest_def response_matches_def KSI_Integer_equals_def KSI_Integer_equalsUInt_def
      convertExtenderStatusCode_Ok split: if_splits sum.splits)

lemma extended_unverified:
  assumes "KSI_signature_extendToWithoutVerification E c adr to sig = (Ok s, sig1, c1)"
    and "\<And>n req i resp. extendService E n req = Inr (i, resp) \<Longrightarrow> resp_status resp \<noteq> None"
  shows "\<exists>t i resp cal clone tlv cs. KSI_Signature_getSigningTime (KSI_Signature.truncate sig) = Inr (Some t)
     \<and> extendService E (netCalls c) \<lparr>req_aggregationTime = t, req_publicationTime = to\<rparr> = Inr (i, resp) \<and> resp_calendarHashChain resp = Some cal
     \<and> response_matches t to cal \<and> (\<forall>old. calendarChain sig = Some old \<longrightarrow> KSI_CalendarHashChain_verifyCompatibilityTo (Some old) (Some cal) = None)
     \<and> extractSignature adr (baseTlv sig) = Ok (clone, tlv) \<and> mset cs = mset (elements (aggregationChainList clone))
     \<and> KSI_Signature.truncate s = \<lparr>calendarChain = Some cal, aggregationChainList = Some cs, rfc3161 = rfc3161 clone, calendarAuthRec = None, publication = None\<rparr>
     \<and> c1 = next_call c"
proof -
  obtain req i resp cal' builder where r: "rbind (KSI_Signature_getSigningTime (KSI_Signature.truncate sig)) (\<lambda>t. KSI_createExtendRequest t to) = Inr req"
      "extendService E (netCalls c) req = Inr (i, resp)" "KSI_ExtendResp_verifyWithRequest (Some resp) (Some (i, req)) = None" "c1 = next_call c"
    and b: "KSI_SignatureBuilder_openFromSignature adr sig = (Ok builder, sig1)"
      "calendarChain sig1 = None \<or> KSI_CalendarHashChain_verifyCompatibilityTo (calendarChain sig1) (resp_calendarHashChain resp) = None"
      "KSI_SignatureBuilder_applyCalendarHashChain (resp_calendarHashChain resp) builder = (Ok (), cal')"
      "close_unverified E (next_call c) adr 0 cal' = Ok s"
    using assms(1)
    by (auto simp: KSI_signature_extendToWithoutVerification_def rbind_eq_Inr Let_def split: sum.splits option.splits run.splits prod.splits if_splits)
  obtain t where t: "KSI_Signature_getSigningTime (KSI_Signature.truncate sig) = Inr (Some t)" "req = \<lparr>req_aggregationTime = t, req_publicationTime = to\<rparr>"
    using r(1) by (auto simp: rbind_eq_Inr KSI_createExtendRequest_def the_ptr_eq_Inr)
  obtain clone tlv where cl: "extractSignature adr (baseTlv sig) = Ok (clone, tlv)" "builder_sig builder = Some clone" "calendarChain sig1 = calendarChain sig"
    using b(1) by (auto simp: opened_signature)
  obtain cal s' where cal: "resp_calendarHashChain resp = Some cal" "builder_sig cal' = Some s'" "baseTlv s' \<noteq> None"
    "KSI_Signature.truncate s' = (KSI_Signature.truncate clone)\<lparr>calendarChain := Some cal, calendarAuthRec := None, publication := None\<rparr>"
    using applied_chain [OF b(3) cl(2)] by blast
  obtain built where "prepareSignature adr 0 s' = (Ok (), s, built)" using closed_unverified [OF b(4) cal(2)] by blast
  from prepared_chains [OF this cal(3)] obtain cs where "mset cs = mset (elements (aggregationChainList s'))"
    "KSI_Signature.truncate s = (KSI_Signature.truncate s')\<lparr>aggregationChainList := Some cs\<rparr>" by blast
  then have cs: "mset cs = mset (elements (aggregationChainList clone))"
    "KSI_Signature.truncate s = \<lparr>calendarChain = Some cal, aggregationChainList = Some cs, rfc3161 = rfc3161 clone, calendarAuthRec = None, publication = None\<rparr>"
    using cal(4) by (simp_all add: KSI_Signature.truncate_def)
  have "response_matches t to cal" using verified_response [OF r(3) assms(2) [OF r(2)] cal(1)] t(2) by simp
  moreover have "KSI_CalendarHashChain_verifyCompatibilityTo (Some old) (Some cal) = None" if "calendarChain sig = Some old" for old
    using b(2) cl(3) cal(1) that by simp
  ultimately show ?thesis using t r(2,4) cal(1) cl(1) cs by blast
qed

text \<open>The contract of an extender's responses: a response has a status.\<close>

definition answered :: "verify_env \<Rightarrow> bool" where
  "answered E \<longleftrightarrow> (\<forall>n req i resp. extendService E n req = Inr (i, resp) \<longrightarrow> resp_status resp \<noteq> None)"


definition sample_extension :: KSI_CalendarHashChain where
  "sample_extension = KSI_CalendarHashChain_new\<lparr>publicationTime := Some 5, cal_aggregationTime := Some 5,
     cal_inputHash := Some (0 # replicate 20 43), hashChain := Some [VerificationPolicy.sample_link False, VerificationPolicy.sample_link False]\<rparr>"

definition extending_env :: verify_env where
  "extending_env = sample_env\<lparr>extendService :=
     \<lambda>n req. Inr (Some 7, \<lparr>resp_requestId = Some 7, resp_status = Some 0, resp_calendarHashChain = Some sample_extension\<rparr>)\<rparr>"

definition sample_extended :: "KSI_TLV \<Rightarrow> KSI_SignatureObject" where
  "sample_extended b = (sample_object b)\<lparr>calendarChain := Some sample_extension\<rparr>"

lemma extension_time: "KSI_CalendarHashChain_calculateAggregationTime (Some sample_extension) = Inr 5"
  by code_simp

lemma calendar_unwrap: "unwrap ty_CalendarHashChain (CalendarHashChainO cal) = Some cal"
  by (simp add: ty_defs)

lemma extension_constructed:
  "\<exists>t. KSI_TlvTemplate_construct (Some (KSI_TLV_new 0x802 False False)) (Some (CalendarHashChainO sample_extension)) (Some KSI_CalendarHashChain_template) = Ok t"
proof -
  obtain a b c d where "KSI_Integer_toTlv (Some 5) 1 False False = Inr a" "KSI_Integer_toTlv (Some 5) 2 False False = Inr b"
     "KSI_DataHash_toTlv (Some (0 # replicate 20 43)) 5 False False = Inr c" "KSI_DataHash_toTlv (Some [1, 2]) 8 False False = Inr d"
    using integer_toTlv [of 5 1] integer_toTlv [of 5 2] hash_toTlv [of "0 # replicate 20 43" 5] hash_toTlv [of "[1, 2]" 8] by auto
  then show ?thesis unfolding KSI_TlvTemplate_construct_def run_ptr_simps
    by (subst constructTlv.simps)
       (auto simp: KSI_CalendarHashChain_template_def construct_simps Ex_less_Suc obj_list_length_def list_elementAt_def sample_extension_def
          VerificationPolicy.sample_link_def KSI_CalendarHashChainLink_toTlv_def KSI_CalendarHashChain_new_def calendar_unwrap)
qed

lemma sample_extended_prepared: "prepareSignature adr 0 (sample_extended b) = (Ok (), sample_extended b, False)"
  by (simp add: prepareSignature_def KSI_AggregationHashChainList_sort_def sample_object_def sample_extended_def checkSignatureInternals_def elements_def
      KSI_Signature_new_def sbind_def qsort_single)

lemma sample_applied:
  assumes "nested base \<noteq> None"
  shows "\<exists>b. KSI_SignatureBuilder_applyCalendarHashChain (Some sample_extension) \<lparr>noVerify = False, builder_sig = Some (sample_object base)\<rparr>
     = (Ok (), \<lparr>noVerify = False, builder_sig = Some (sample_extended b)\<rparr>)"
proof -
  obtain t where t: "KSI_TlvTemplate_construct (Some (KSI_TLV_new 0x802 False False)) (Some (CalendarHashChainO sample_extension))
      (Some KSI_CalendarHashChain_template) = Ok t" using extension_constructed by blast
  obtain l where "nested base = Some l" using assms by blast
  then show ?thesis using t
    by (cases base) (auto simp: KSI_SignatureBuilder_applyCalendarHashChain_def on_sig_def sbind_def replaceCalendarChain_def removeCalAuthAndPublication_def
      base_nested_def sample_object_def sample_extended_def pure_def append_base_def KSI_TLV_getNestedList_def KSI_TLV_appendNestedTlv_def
      KSI_Signature_new_def set_base_nested_def)
qed

lemma calendar_added:
  assumes "internally_valid D c sig" "KSI_Signature_getSigningTime (sig\<lparr>calendarChain := Some cal\<rparr>) = KSI_Signature_getSigningTime sig"
    and "aggregationChainList sig = Some cs" "RuleFacts.joined D (map nested_chain cs) 0 None root" "calendar_ok D (sig\<lparr>calendarChain := Some cal\<rparr>) root cal"
  shows "internally_valid D c (sig\<lparr>calendarChain := Some cal\<rparr>)"
proof -
  let ?sig = "sig\<lparr>calendarChain := Some cal\<rparr>"
  have e: "aggregationChainList ?sig = aggregationChainList sig" "rfc3161 ?sig = rfc3161 sig" by simp_all
  have d: "KSI_Signature_getDocumentHash ?sig = KSI_Signature_getDocumentHash sig" unfolding KSI_Signature_getDocumentHash_def e ..
  have x: "rfc3161_extractOutputHashAlgorithm ?sig = rfc3161_extractOutputHashAlgorithm sig" unfolding rfc3161_extractOutputHashAlgorithm_def e ..
  have o: "rfc3161_getOutputHash D ?sig = rfc3161_getOutputHash D sig" unfolding rfc3161_getOutputHash_def e x ..
  have "input_ok D c ?sig = input_ok D c sig"
    unfolding input_ok_def document_ok_def level_fits_def rfc_algorithms_ok_def e d x o assms(2) ..
  moreover have "chains_ok ?sig cs = chains_ok sig cs" unfolding chains_ok_def rfc_agrees_def e ..
  ultimately have "input_ok D c ?sig" "chains_ok ?sig cs" using assms(1,3) by (auto simp: internally_valid_def)
  then show ?thesis using assms(3-5) unfolding internally_valid_def by auto
qed

lemma sample_extended_valid: "internally_valid sample_digest (KSI_VerificationContext_init c) (KSI_Signature.truncate (sample_extended b))"
proof -
  let ?sig = "KSI_Signature.truncate (sample_object b)"
  note s = sample_object_def sample_parsed_chain_def KSI_Signature_new_def KSI_Signature.truncate_def
  have "map nested_chain [sample_parsed_chain] = [sample_parsed_chain]"
    by (simp add: nested_chain_def nested_link_def s KSI_HashChainLink_new_def KSI_AggregationHashChain_new_def)
  then have j: "RuleFacts.joined sample_digest (map nested_chain [sample_parsed_chain]) 0 None (Some (0 # replicate 20 43))"
    using sample_chain_checks(1) by (simp add: joined_Cons_iff sample_parsed_chain_def to_int_def)
  have "calendar_ok sample_digest (?sig\<lparr>calendarChain := Some sample_extension\<rparr>) (Some (0 # replicate 20 43)) sample_extension"
    using extension_time
    by (simp add: calendar_ok_def calendar_time_of_def calendar_algorithms_def left_algorithms_def authenticated_def s
        sample_extension_def VerificationPolicy.sample_link_def element_at_def)
  moreover have "KSI_Signature_getSigningTime (?sig\<lparr>calendarChain := Some sample_extension\<rparr>) = KSI_Signature_getSigningTime ?sig"
    by (simp add: KSI_Signature_getSigningTime_def s sample_extension_def element_at_def)
  moreover have "aggregationChainList ?sig = Some [sample_parsed_chain]" "?sig\<lparr>calendarChain := Some sample_extension\<rparr> = KSI_Signature.truncate (sample_extended b)"
    by (simp_all add: s sample_extended_def)
  ultimately show ?thesis using calendar_added [OF sample_object_valid [of c b], of sample_extension, OF _ _ j] by simp
qed


end
