(* ===== verification/GeneralPolicy.thy ===== *)
theory GeneralPolicy
  imports ExtensionGuarantees
begin

text \<open>
  What the general policy of \<^verbatim>\<open>src/src/ksi/policy.c\<close> guarantees.  It evaluates the rules of the internal policy again in front of each
  alternative, on a signature whose objects keep the results of the first time; the root these results lead to stays the same.
\<close>

section \<open>Chains that keep their results\<close>

text \<open>The kept results of the chains join, from a level and a hash value up to a root.\<close>

fun kept_results :: "KSI_AggregationHashChain list \<Rightarrow> int \<Rightarrow> KSI_DataHash option \<Rightarrow> KSI_DataHash option \<Rightarrow> bool" where
  "kept_results [] lvl h r \<longleftrightarrow> h = r"
| "kept_results (c # cs) lvl h r \<longleftrightarrow>
     (h = None \<or> h = inputHash c) \<and> outputHash c \<noteq> None \<and> \<not> released c \<and> inputLevel c = lvl \<and> 0 \<le> lvl \<and> lvl \<le> 0xff
   \<and> kept_results cs (outputLevel c) (outputHash c) r"

lemma kept_consistent: "kept_results cs lvl h r \<Longrightarrow> consistencyLoop D cs lvl h = (cs, Inr r)"
  by (induction cs arbitrary: lvl h) (auto simp: KSI_AggregationHashChain_aggregate_def dataHash_equals_iff)

lemma aggregate_keeps_result:
  assumes "KSI_AggregationHashChain_aggregate D c lvl = (Ok (lvl', h'), c')" "h' \<noteq> None"
  shows "outputHash c' = h' \<and> outputLevel c' = lvl' \<and> inputLevel c' = lvl \<and> inputHash c' = inputHash c \<and> \<not> released c' \<and> 0 \<le> lvl \<and> lvl \<le> 0xff"
  using assms by (auto simp: KSI_AggregationHashChain_aggregate_def Let_def split: if_splits run.splits prod.splits)

lemma consistent_kept:
  assumes "consistencyLoop D cs lvl h = (cs', Inr r)" "list_all (\<lambda>c. fresh_chain c \<and> elements (chain c) \<noteq> []) cs"
  shows "kept_results cs' lvl h r"
  using assms
proof (induction cs arbitrary: lvl h cs')
  case (Cons c cs)
  then obtain lvl' h' c' cs'' where a: "KSI_AggregationHashChain_aggregate D c lvl = (Ok (lvl', h'), c')"
    "consistencyLoop D cs lvl' h' = (cs'', Inr r)" "cs' = c' # cs''" "h = None \<or> h = inputHash c"
    by (auto simp: dataHash_equals_iff split: if_splits prod.splits run.splits)
  have "joined D [c] lvl None h'"
    using aggregate_fresh [of c D lvl lvl' h'] a(1) Cons.prems(2) by (auto simp: joined_Cons_iff)
  then have "h' \<noteq> None" using joined_root [of D "[c]" lvl None h'] Cons.prems(2) by auto
  then show ?case using aggregate_keeps_result [OF a(1)] a(2-4) Cons by auto
qed simp

definition keeps_results :: "KSI_DataHash \<Rightarrow> KSI_VerificationContext \<Rightarrow> bool" where
  "keeps_results root c \<longleftrightarrow> output_hash c = Some root
     \<and> (\<forall>s. signature c = Some s \<longrightarrow> kept_results (elements (aggregationChainList s)) 0 None (Some root))"

lemma kept_metaData: "metaDataChainLoop cs = (cs', x) \<Longrightarrow> kept_results cs lvl h r \<Longrightarrow> kept_results cs' lvl h r"
  by (induction cs arbitrary: cs' lvl h x) (auto simp: Let_def split: prod.splits sum.splits)

definition keeps :: "KSI_VerificationContext \<Rightarrow> KSI_VerificationContext \<Rightarrow> bool" where
  "keeps c d \<longleftrightarrow> (\<forall>root. keeps_results root c \<longrightarrow> keeps_results root d)"

lemma keeps_refl [simp]: "keeps c c" by (simp add: keeps_def)
lemma keeps_trans: "keeps a b \<Longrightarrow> keeps b c \<Longrightarrow> keeps a c" by (simp add: keeps_def)

lemma keeps_vbind:
  assumes "keeps c (fst m)" "\<And>i x. m = (i, Inr x) \<Longrightarrow> keeps c i \<Longrightarrow> keeps c (fst (k i x))"
  shows "keeps c (fst (vbind m k))"
  using assms by (cases m; cases "snd m") auto

lemma keeps_init: "keeps c i \<Longrightarrow> keeps c (fst (initAggregationOutputHash D i))"
  unfolding keeps_def using init_kept by (metis keeps_results_def)

lemma keeps_rooted: "keeps c (rooted D c)"
proof (cases "rooted D c = c")
  case False
  then obtain s cal where "signature c = Some s" "rooted D c = set_sig c (s\<lparr>calendarChain := cal\<rparr>)"
    by (auto simp: rooted_def split: option.splits run.splits prod.splits)
  then show ?thesis by (simp add: keeps_def keeps_results_def) (simp add: set_sig_def)
qed simp

lemma keeps_calendar: "keeps c i \<Longrightarrow> signature i = Some sig \<Longrightarrow> keeps c (fst (calendar_root_of D i sig))"
  using keeps_trans [OF _ keeps_rooted] by (simp add: calendar_root_of_eq)

lemma keeps_rule:
  assumes "\<And>c. keeps c (fst (body c))" "decides (verification_rule name st body) c code d"
  shows "keeps c d"
  using assms(1) [of c] assms(2) by (auto simp: decides_rule)

lemma keeps_set_chains:
  assumes "\<And>root sig. signature i = Some sig \<Longrightarrow> kept_results (elements (aggregationChainList sig)) 0 None (Some root) \<Longrightarrow> kept_results cs 0 None (Some root)"
    and "keeps c i"
  shows "keeps c (set_chains i cs)"
proof -
  have "keeps_results root (set_chains i cs)" if k: "keeps_results root i" for root
    unfolding keeps_results_def
  proof (intro conjI allI impI)
    note r = k [unfolded keeps_results_def, THEN conjunct2, rule_format]
    show "output_hash (set_chains i cs) = Some root" using k [unfolded keeps_results_def, THEN conjunct1] by simp
    fix s assume "signature (set_chains i cs) = Some s"
    then obtain sig where s: "signature i = Some sig" "aggregationChainList s = map_option (\<lambda>_. cs) (aggregationChainList sig)"
      by (cases "signature i") (auto simp: set_chains_def)
    have "aggregationChainList sig \<noteq> None" using r [OF s(1)] by (cases "aggregationChainList sig") (simp_all add: elements_def)
    then have "elements (aggregationChainList s) = cs" using s(2) by (cases "aggregationChainList sig") simp_all
    then show "kept_results (elements (aggregationChainList s)) 0 None (Some root)" using assms(1) [OF s(1) r [OF s(1)]] by (simp only:)
  qed
  then have "keeps i (set_chains i cs)" unfolding keeps_def by blast
  then show ?thesis by (rule keeps_trans [OF assms(2)])
qed

lemma keeps_metaData: "decides KSI_VerificationRule_AggregationChainMetaDataVerification c code d \<Longrightarrow> keeps c d"
  unfolding KSI_VerificationRule_AggregationChainMetaDataVerification_def
  by (erule keeps_rule [rotated], intro keeps_vbind)
     (auto simp: sig_of_eq_Inr split: prod.split intro!: keeps_vbind keeps_set_chains, rule kept_metaData)

lemma keeps_consistency: "decides (KSI_VerificationRule_AggregationHashChainConsistency D) c code d \<Longrightarrow> keeps c d"
proof -
  assume d: "decides (KSI_VerificationRule_AggregationHashChainConsistency D) c code d"
  have "keeps_results root d" if k: "keeps_results root c" for root
  proof (cases "signature c")
    case None
    then show ?thesis using d k by (auto simp: KSI_VerificationRule_AggregationHashChainConsistency_def decides_rule sig_of_def non_null_def)
  next
    case (Some s)
    then have "consistencyLoop D (elements (aggregationChainList s)) 0 None = (elements (aggregationChainList s), Inr (Some root))"
      using k kept_consistent by (simp add: keeps_results_def)
    moreover have "set_chains c (elements (aggregationChainList s)) = c" using Some by (cases "aggregationChainList s") (simp_all add: set_chains_def elements_def)
    moreover obtain t where "tempData c = Some t" "aggregationOutputHash t = Some root" using k by (auto simp: keeps_results_def output_hash_def split: option.splits)
    moreover from this have "set_output_hash c (Some root) = c" by (cases t) (simp add: set_output_hash_def)
    ultimately show ?thesis using d k Some
      by (auto simp: KSI_VerificationRule_AggregationHashChainConsistency_def decides_rule sig_of_def temp_of_def non_null_def)
  qed
  then show ?thesis by (simp add: keeps_def)
qed

lemma keeps_internal:
  assumes "concludes rs c code d" "set (basics rs) \<subseteq> set (basics (internalRules E))"
  shows "keeps c d"
proof (rule concludes_preserves [OF assms(1)])
  have [simp]: "\<forall>c code d. decides KSI_VerificationRule_AggregationChainMetaDataVerification c code d \<longrightarrow> keeps c d"
    "\<forall>c code d. decides (KSI_VerificationRule_AggregationHashChainConsistency D) c code d \<longrightarrow> keeps c d" for D
    using keeps_metaData keeps_consistency by blast+
  have "list_all (\<lambda>v. \<forall>c code d. decides v c code d \<longrightarrow> keeps c d) (basics (internalRules E))"
    by (simp add: table_defs)
       (auto simp: rule_defs sig_of_eq_Inr split: sum.split elim!: keeps_rule [rotated] intro!: keeps_vbind keeps_init keeps_calendar)
  then show "keeps c d" if "v \<in> set (basics rs)" "decides v c code d" for v c code d
    using that assms(2) by (auto simp: list_all_iff)
qed (rule keeps_trans)

lemma basics_drop: "set (basics (drop n rs)) \<subseteq> set (basics rs)"
proof (induction rs arbitrary: n)
  case (Cons r rs)
  then show ?case by (cases n; cases r) auto
qed simp

text \<open>A context behind internal verification in which the results are kept; internal verification leaves such a context again.\<close>

definition settled :: "verify_env \<Rightarrow> KSI_VerificationContext \<Rightarrow> KSI_Signature \<Rightarrow> KSI_DataHash \<Rightarrow> KSI_VerificationContext \<Rightarrow> bool" where
  "settled E c0 sig root c \<longleftrightarrow> anchored E c0 sig root c \<and> keeps_results root c"

lemma settled_internal:
  assumes "signature c = Some sig" "parsed_signature sig" "concludes (internalRules E) (begin_verification c) KSI_VER_RES_OK d"
  obtains root where "signature_root (digest E) sig root" "settled E c sig root d" "ext_of d = None"
proof -
  have b: "signature (begin_verification c) = Some sig" "tempData (begin_verification c) = Some VerificationTempData_empty"
    using assms(1) by (simp_all add: begin_verification_def)
  obtain root' where a: "anchored E c sig root' d" "ext_of d = None" using anchored_internal [OF assms] by blast
  obtain root cs e where e: "signature_root (digest E) sig root"
    "consistencyLoop (digest E) (map nested_chain (elements (aggregationChainList sig))) 0 None = (cs, Inr (Some root))"
    "signature e = Some (sig\<lparr>aggregationChainList := Some cs\<rparr>)" "output_hash e = Some root" "concludes (drop 10 (internalRules E)) e KSI_VER_RES_OK d"
    using internal_tail [OF b assms(2,3)] by blast
  have "fresh_chain (nested_chain k) \<and> elements (chain (nested_chain k)) \<noteq> []" if "k \<in> set (elements (aggregationChainList sig))" for k
    using assms(2) that by (cases "chain k") (auto simp: parsed_signature_def fresh_chain_def nested_chain_def)
  then have "list_all (\<lambda>c. fresh_chain c \<and> elements (chain c) \<noteq> []) (map nested_chain (elements (aggregationChainList sig)))"
    by (simp add: list_all_iff)
  from consistent_kept [OF e(2) this] have "keeps_results root e" using e(3,4) by (simp add: keeps_results_def)
  then have k: "keeps_results root d" using keeps_internal [OF e(5) basics_drop] by (simp add: keeps_def)
  then have "root' = root" using a(1) by (simp add: keeps_results_def anchored_def)
  then show ?thesis using that e(1) a k by (simp add: settled_def)
qed

lemma settled_again:
  assumes "settled E c0 sig root c" "concludes (internalRules E) c code d"
  shows "settled E c0 sig root d \<and> ext_of d = ext_of c"
proof -
  have k: "keeps_results root d" using keeps_internal [OF assms(2) subset_refl] assms(1) by (simp add: settled_def keeps_def)
  obtain s t where s: "signature c = Some s" "same_signature (digest E) sig s" "tempData c = Some t"
    using assms(1) anchored_sig anchored_temp by (fastforce simp: settled_def)
  obtain s' t' where s': "signature d = Some s'" "same_signature (digest E) s s'" "tempData d = Some t'" "same_temp t t'"
    using frameE [OF frame_internal [OF assms(2)] s(1,3)] by metis
  have "anchored E c0 sig root d"
    using frame_internal [OF assms(2)] s' same_signature_trans [OF s(2) s'(2)] assms(1) k
    by (simp add: anchored_def frame_def settled_def keeps_results_def)
  then show ?thesis using k s(3) s'(3,4) by (simp add: settled_def ext_of_def same_temp_def)
qed

section \<open>What the alternatives leave alone\<close>

definition held :: "(int \<Rightarrow> bytes \<Rightarrow> bytes) \<Rightarrow> KSI_VerificationContext \<Rightarrow> KSI_VerificationContext \<Rightarrow> bool" where
  "held D c d \<longleftrightarrow> rel_option (same_signature D) (signature c) (signature d) \<and> userPublicationsFile d = userPublicationsFile c
     \<and> userPublication d = userPublication c \<and> (tempData d = None \<longleftrightarrow> tempData c = None)"

lemma held_refl [simp]: "held D c c" by (simp add: held_def option.rel_refl)
lemma held_trans: "held D a b \<Longrightarrow> held D b c \<Longrightarrow> held D a c"
  by (auto simp: held_def intro: rel_option_trans [OF same_signature_trans])

lemma held_same:
  "signature d = signature c \<Longrightarrow> userPublicationsFile d = userPublicationsFile c \<Longrightarrow> userPublication d = userPublication c \<Longrightarrow> (tempData d = None \<longleftrightarrow> tempData c = None) \<Longrightarrow> held D c d"
  by (simp add: held_def option.rel_refl)

lemma held_frame: "frame D c d \<Longrightarrow> held D c d"
  by (cases "tempData c"; cases "tempData d") (auto simp: frame_def held_def)

lemma held_vbind:
  assumes "held D c (fst m)" "\<And>i x. m = (i, Inr x) \<Longrightarrow> held D c i \<Longrightarrow> held D c (fst (k i x))"
  shows "held D c (fst (vbind m k))"
  using assms by (cases m; cases "snd m") auto

lemma held_attempt: "held D c (fst q) \<Longrightarrow> held D c (fst (attempt_on q))"
  by (cases q) (simp add: attempt_on_def)

lemma held_file: "held D c i \<Longrightarrow> held D c (fst (initPublicationsFile E i))"
  by (erule held_trans, rule held_same) (simp_all add: filed_simps [unfolded filed_def])

lemma held_keeps_extended: "held D c i \<Longrightarrow> held D c (fst (getExtendedCalendarHashChain E i t))"
  by (erule held_trans, rule held_same)
     (auto simp: getExtendedCalendarHashChain_def initExtendedCalendarHashChain_def set_extended_def next_call_def split: option.splits sum.splits prod.splits)

lemma held_root: "held D c i \<Longrightarrow> held D c (fst (extended_root E i k))"
  by (erule held_trans, rule held_same)
     (auto simp: extended_root_def set_extended_def split: option.splits run.splits prod.splits)

lemma held_init: "held D c i \<Longrightarrow> held D c (fst (initAggregationOutputHash D' i))"
  by (rule held_trans [OF _ held_frame [OF frame_initAggregationOutputHash]])

lemma held_calendar: "held D c i \<Longrightarrow> signature i = Some sig \<Longrightarrow> held D c (fst (calendar_root_of D i sig))"
  by (rule held_trans [OF _ held_frame [OF frame_calendar_root]])

lemmas held_steps = held_vbind held_attempt held_file held_keeps_extended held_root held_init held_calendar

lemma held_helpers:
  "held D c i \<Longrightarrow> held D c (fst (signature_publication i))" "held D c i \<Longrightarrow> held D c (fst (own_publication_time i sig))"
  by (auto simp: signature_publication_def own_publication_time_def intro!: held_steps)

lemma held_helpers2:
  "held D c i \<Longrightarrow> held D c (fst (same_time_publication E i))" "held D c i \<Longrightarrow> held D c (fst (nearest_publication_of E i))"
  by (auto simp: same_time_publication_def nearest_publication_of_def intro!: held_steps held_helpers)

lemma held_helpers3: "held D c i \<Longrightarrow> held D c (fst (extend_to_nearest E i))" "held D c i \<Longrightarrow> held D c (fst (extend_to_user E i))"
  by (auto simp: extend_to_nearest_def extend_to_user_def intro!: held_steps held_helpers held_helpers2)

lemma held_rule:
  assumes "\<And>c. held D c (fst (body c))" "decides (verification_rule name st body) c code d"
  shows "held D c d"
  using assms(1) [of c] assms(2) by (auto simp: decides_rule)

lemma held_records:
  assumes "concludes rs c code d" "rs = publicationRecordRule_pubFile E \<or> rs = publicationRecordRule_pubString E"
  shows "held (digest E) c d"
proof (rule concludes_preserves [OF assms(1)])
  have "list_all (\<lambda>v. \<forall>c code d. decides v c code d \<longrightarrow> held (digest E) c d) (basics (publicationRecordRule_pubFile E))"
    "list_all (\<lambda>v. \<forall>c code d. decides v c code d \<longrightarrow> held (digest E) c d) (basics (publicationRecordRule_pubString E))"
    by (simp_all add: table_defs)
       (auto simp: rule_defs sig_of_eq_Inr split: sum.split option.split prod.split elim!: held_rule [rotated]
          intro!: held_steps held_helpers held_helpers2 held_helpers3)
  then show "held (digest E) c d" if "v \<in> set (basics rs)" "decides v c code d" for v c code d
    using that assms(2) by (auto simp: list_all_iff)
qed (rule held_trans)

section \<open>The general policy\<close>

lemma general_key:
  assumes "settled E c0 sig root c" "held (digest E) c d" "concludes (keyBasedRules E) d KSI_VER_RES_OK e" "uses_file E c0 pf"
  shows "key_valid E pf sig"
proof -
  obtain d1 where d1: "concludes (internalRules E) d KSI_VER_RES_OK d1" "concludes (drop 1 (keyBasedRules E)) d1 KSI_VER_RES_OK e"
    using assms(3) by (auto simp: keyBasedRules_def concludes_both)
  have a: "anchored E c0 sig root c" using assms(1) by (simp add: settled_def)
  obtain s where s: "signature c = Some s" "same_signature (digest E) sig s" using anchored_sig [OF a] by blast
  have h: "held (digest E) c d1" using held_trans [OF assms(2) held_frame [OF frame_internal [OF d1(1)]]] .
  then obtain s1 where s1: "signature d1 = Some s1" "same_signature (digest E) s s1" using s(1) by (auto simp: held_def option_rel_Some1)
  have t: "tempData d1 \<noteq> None" using h anchored_temp [OF a] by (simp add: held_def)
  have "uses_file E d1 pf" using h a assms(4) by (simp add: held_def anchored_def uses_file_def)
  then have "key_valid E pf s1" using keyRules_OK [OF _ s1(1) t] d1(2) by blast
  then show ?thesis using key_valid_same [OF same_signature_trans [OF s(2) s1(2)]] by simp
qed

lemma user_NA:
  assumes "settled E c0 sig root c" "ext_of c = None" "concludes (userProvidedPublicationBasedRules E) c KSI_VER_RES_NA d" "userPublication d = None"
  shows "settled E c0 sig root d \<and> ext_of d = None"
proof (cases "concludes (internalRules E) c KSI_VER_RES_NA d")
  case True
  then show ?thesis using settled_again [OF assms(1)] assms(2) by simp
next
  case False
  then obtain d1 d2 where d: "concludes (internalRules E) c KSI_VER_RES_OK d1"
    "decides KSI_VerificationRule_UserProvidedPublicationExistence d1 KSI_VER_RES_NA d
     \<or> passes KSI_VerificationRule_UserProvidedPublicationExistence d1 d2 \<and> concludes (publicationRecordRule_pubString E) d2 KSI_VER_RES_NA d"
    using assms(3) by (auto simp: userProvidedPublicationBasedRules_def concludes_simps)
  have "decides KSI_VerificationRule_UserProvidedPublicationExistence d1 KSI_VER_RES_NA d"
    using d(2) held_records [of "publicationRecordRule_pubString E" d2 KSI_VER_RES_NA d E] assms(4) by (auto simp: UserExistence_passes held_def)
  then have "d = d1" by (auto simp: KSI_VerificationRule_UserProvidedPublicationExistence_def decides_rule on_steps split: option.splits)
  then show ?thesis using settled_again [OF assms(1) d(1)] assms(2) by simp
qed

lemma RequireNoUser_passes: "passes KSI_VerificationRule_RequireNoUserProvidedPublication c d \<longleftrightarrow> d = c \<and> signature c \<noteq> None \<and> userPublication c = None"
  by (auto simp: KSI_VerificationRule_RequireNoUserProvidedPublication_def decides_rule on_steps)

lemma general_alternatives:
  assumes "concludes (drop 1 (generalRules E)) d KSI_VER_RES_OK e"
  shows "concludes (userProvidedPublicationBasedRules E) d KSI_VER_RES_OK e
     \<or> (\<exists>d1. concludes (userProvidedPublicationBasedRules E) d KSI_VER_RES_NA d1 \<and> userPublication d1 = None
          \<and> (concludes (publicationsFileBasedRules E) d1 KSI_VER_RES_OK e
            \<or> (\<exists>d2. concludes (publicationsFileBasedRules E) d1 KSI_VER_RES_NA d2 \<and> concludes (keyBasedRules E) d2 KSI_VER_RES_OK e)))"
  using assms by (auto simp: generalRules_def concludes_simps RequireNoUser_passes)

text \<open>C2. The general policy is sound.  A signature that is accepted under the general policy, with which documents are verified, is
  internally valid, and it is confirmed: by the user's publication, when there is one, and otherwise by the publications file,
  through its own publication record or through a calendar chain of the extender, or by a valid authentication record.\<close>

theorem general_policy_sound:
  assumes "signature c = Some sig" and "parsed_signature sig" and "uses_file E c pf" and "accepts (predefined_policies E) 6 c"
  shows "internally_valid (digest E) c sig
     \<and> (\<exists>root. signature_root (digest E) sig root
          \<and> (if userPublication c \<noteq> None then user_confirms E c sig root else file_confirms E pf c sig root \<or> key_valid E pf sig))"
proof -
  have fresh: "list_all fresh_chain (elements (aggregationChainList sig))" using assms(2) by (auto simp: parsed_signature_def list_all_iff)
  have b: "signature (begin_verification c) = Some sig" "tempData (begin_verification c) = Some VerificationTempData_empty"
    using assms(1) by (simp_all add: begin_verification_def)
  obtain d e where d: "concludes (internalRules E) (begin_verification c) KSI_VER_RES_OK d" "concludes (drop 1 (generalRules E)) d KSI_VER_RES_OK e"
    using accepts_predefined [of 6 E c] assms(4) by (auto simp: predefined_policies_def generalRules_def concludes_both)
  have valid: "internally_valid (digest E) c sig" using internalRules_OK [OF b fresh, of E] d(1) by auto
  obtain root where r: "signature_root (digest E) sig root" "settled E c sig root d" "ext_of d = None" using settled_internal [OF assms(1,2) d(1)] by blast
  consider "concludes (userProvidedPublicationBasedRules E) d KSI_VER_RES_OK e"
    | d1 where "concludes (userProvidedPublicationBasedRules E) d KSI_VER_RES_NA d1" "userPublication d1 = None"
        "concludes (publicationsFileBasedRules E) d1 KSI_VER_RES_OK e"
    | d1 d2 where "concludes (userProvidedPublicationBasedRules E) d KSI_VER_RES_NA d1" "userPublication d1 = None"
        "concludes (publicationsFileBasedRules E) d1 KSI_VER_RES_NA d2" "concludes (keyBasedRules E) d2 KSI_VER_RES_OK e"
    using general_alternatives [OF d(2)] by blast
  then show ?thesis
  proof cases
    case 1
    then obtain d1 d2 where 2: "concludes (internalRules E) d KSI_VER_RES_OK d1" "passes KSI_VerificationRule_UserProvidedPublicationExistence d1 d2"
      "concludes (publicationRecordRule_pubString E) d2 KSI_VER_RES_OK e"
      by (auto simp: userProvidedPublicationBasedRules_def concludes_OK)
    then have 3: "settled E c sig root d2" "ext_of d2 = None" "userPublication d2 \<noteq> None"
      using settled_again [OF r(2) 2(1)] r(3) by (auto simp: UserExistence_passes)
    then have "user_confirms E c sig root" using pubString_sound [OF _ _ 2(3)] by (simp add: settled_def)
    then show ?thesis using valid r(1) 3 by (auto simp: settled_def anchored_def)
  next
    case 2
    then have s: "settled E c sig root d1" "ext_of d1 = None" using user_NA [OF r(2,3)] by blast+
    obtain d2 where d2: "concludes (internalRules E) d1 KSI_VER_RES_OK d2" "concludes (publicationRecordRule_pubFile E) d2 KSI_VER_RES_OK e"
      using 2(3) by (auto simp: publicationsFileBasedRules_def concludes_OK)
    have "file_confirms E pf c sig root" using pubFile_sound [OF _ assms(3) _ d2(2)] settled_again [OF s(1) d2(1)] s(2) by (simp add: settled_def)
    then show ?thesis using valid r(1) s 2(2) by (auto simp: settled_def anchored_def)
  next
    case 3
    then have s: "settled E c sig root d1" "ext_of d1 = None" using user_NA [OF r(2,3)] by blast+
    have "held (digest E) d1 d2"
      using 3(3) held_trans [OF held_frame [OF frame_internal] held_records [of "publicationRecordRule_pubFile E"]] held_frame [OF frame_internal]
      by (auto simp: publicationsFileBasedRules_def concludes_simps)
    then have "key_valid E pf sig" using general_key [OF s(1) _ 3(4) assms(3)] by blast
    then show ?thesis using valid r(1) s 3(2) by (auto simp: settled_def anchored_def)
  qed
qed

section \<open>A sample\<close>

lemma publishes_same:
  assumes "same_calendar D a b"
  shows "publishes D b pd = publishes D a pd"
proof -
  have "(\<exists>k. KSI_CalendarHashChain_aggregate D b = Ok (h, k)) \<longleftrightarrow> (\<exists>k. KSI_CalendarHashChain_aggregate D a = Ok (h, k))" for h
    using assms by (cases "KSI_CalendarHashChain_aggregate D b"; cases "KSI_CalendarHashChain_aggregate D a") (auto simp: same_calendar_def)
  then show ?thesis using assms unfolding publishes_def same_calendar_def by metis
qed

lemma sample_again:
  assumes c: "signature c = Some s" "same_signature sample_digest (sample_signed pub rec) s" "aggregationChainList s = Some [b]" "same_chain VerificationPolicy.sample_chain b"
    and "tempData c = Some t" "kept_results [b] 0 None (Some (1 # replicate 32 5))" "documentHash c = Some [1, 9]" "docAggrLevel c = 0"
    and "authenticated sample_digest (sample_signed pub rec) sample_calendar"
  shows "\<exists>d. concludes (internalRules sample_env) c KSI_VER_RES_OK d"
proof -
  obtain cal where cal: "calendarChain s = Some cal" "same_calendar sample_digest sample_calendar cal" "rfc3161 s = None" "publication s = pub" "calendarAuthRec s = rec"
    using c(2) by (auto simp: same_signature_def sample_signed_def option_rel_Some1)
  have b: "inputHash b = Some [1, 9]" "chain b = chain VerificationPolicy.sample_chain" "aggrHashId b = Some 1" "aggregationTime b = Some 1" "chainIndex b = Some [3]"
    using c(4) by (simp_all add: same_chain_def sample_chain_def KSI_AggregationHashChain_new_def)
  have i: "input_ok sample_digest c s"
    using sample_checks(5) assms(7,8) cal(1-3) c(3) b
    by (simp add: input_ok_def document_ok_def level_fits_def rfc_algorithms_ok_def KSI_Signature_getDocumentHash_def same_calendar_def
        KSI_Signature_getSigningTime_def to_time_def KSI_Integer_getUInt64_def sample_defs element_at_def)
  have n: "nested_chain b = b" using b(2) by (cases b) (simp add: nested_chain_def nested_link_def sample_defs)
  have m: "metadata_ok b" "chain_algorithm_ok b" "shape_ok b"
    using sample_checks(4,5) b by (simp_all add: metadata_ok_def chain_algorithm_ok_def shape_ok_def to_int_def to_time_def KSI_Integer_getUInt64_def sample_defs)
  have "KSI_CalendarHashChain_calculateAggregationTime (Some cal) = KSI_CalendarHashChain_calculateAggregationTime (Some sample_calendar)"
    using cal(2) by (simp add: same_calendar_def KSI_CalendarHashChain_calculateAggregationTime_def)
  moreover have "authenticated sample_digest s cal"
    using assms(9) cal(4,5) publishes_same [OF cal(2)] by (simp add: authenticated_def sample_signed_def split: option.splits)
  ultimately have k: "calendar_ok sample_digest s (Some (1 # replicate 32 5)) cal"
    using sample_checks(3) cal(2) b c(3) same_calendar_algorithms [OF cal(2)]
    by (simp add: calendar_ok_def calendar_time_of_def same_calendar_def calendar_algorithms_def left_algorithms_def sample_defs element_at_def)
  have "set_chains c [b] = c" using c(1,3) by (simp add: set_chains_def)
  moreover have "\<exists>d. concludes (tail_rules sample_env) c KSI_VER_RES_OK d"
    using tail_rules_run [OF c(1,3) assms(5), of sample_env] m kept_consistent [OF assms(6)] k cal(1,3)
    by (simp add: rfc_agrees_def sample_env_def)
  ultimately show ?thesis using front_rules_OK [OF c(1), of sample_env] i m(1) n c(3) by (simp add: sample_env_def)
qed

definition sample_general_context :: KSI_VerificationContext where
  "sample_general_context = sample_user_context\<lparr>userPublicationsFile := Some sample_publications\<rparr>"

theorem general_policy_sound_witness:
  "\<exists>root. signature_root sample_digest sample_signature root \<and> user_confirms sample_env sample_general_context sample_signature root"
proof -
  let ?E = sample_env and ?c = sample_general_context and ?sig = sample_signature
  have p: "parsed_signature ?sig" by (simp add: sample_signature_def sample_parsed)
  have sig: "signature ?c = Some ?sig" "documentHash ?c = Some [1, 9]" "docAggrLevel ?c = 0" "userPublication ?c = Some sample_publication"
    by (simp_all add: sample_general_context_def sample_user_context_def sample_context_def)
  have b: "signature (begin_verification ?c) = Some ?sig" "tempData (begin_verification ?c) = Some VerificationTempData_empty"
    using sig(1) by (simp_all add: begin_verification_def)
  have v: "internally_valid sample_digest ?c ?sig"
    using sample_valid sample_published by (simp add: sample_signature_def sample_general_context_def sample_user_context_def sample_context_def)
  obtain d where d: "concludes (internalRules ?E) (begin_verification ?c) KSI_VER_RES_OK d"
    using internalRules_OK [OF b, of ?E] v sample_fresh by (auto simp: internally_valid_begin sample_env_def sample_signature_def)
  obtain root cs e where e: "signature_root (digest ?E) ?sig root"
    "consistencyLoop (digest ?E) (map nested_chain (elements (aggregationChainList ?sig))) 0 None = (cs, Inr (Some root))"
    "signature e = Some (?sig\<lparr>aggregationChainList := Some cs\<rparr>)" "output_hash e = Some root" "concludes (drop 10 (internalRules ?E)) e KSI_VER_RES_OK d"
    using internal_tail [OF b p d] by blast
  have n: "map nested_chain (elements (aggregationChainList ?sig)) = [VerificationPolicy.sample_chain]"
    by (simp add: nested_chain_def nested_link_def sample_defs KSI_AggregationHashChain_new_def)
  obtain k where k: "cs = [k]" "same_chain VerificationPolicy.sample_chain k"
    using consistencyLoop_same [OF e(2)] unfolding n by (auto simp: list_all2_Cons1)
  have root: "root = 1 # replicate 32 5"
    using e(1) sample_checks(1) unfolding signature_root_def n
    by (simp add: joined_Cons_iff sample_env_def) (simp add: sample_chain_def to_int_def)
  have "list_all (\<lambda>c. fresh_chain c \<and> elements (chain c) \<noteq> []) [VerificationPolicy.sample_chain]"
    by (simp add: fresh_chain_def KSI_AggregationHashChain_new_def sample_defs)
  then have kr: "kept_results [k] 0 None (Some root)" using consistent_kept [OF e(2)] k(1) unfolding n by simp
  have "chains_of d = Some (Some [k])" using keeps_chains_last [OF e(5)] e(3,4) k(1) by (simp add: keeps_chains_def chains_of_def)
  then obtain s where s: "signature d = Some s" "aggregationChainList s = Some [k]" by (auto simp: chains_of_def)
  obtain root' where st: "settled ?E ?c ?sig root' d" "ext_of d = None" using settled_internal [OF sig(1) p d] by blast
  have an: "anchored ?E ?c ?sig root' d" using st(1) by (simp add: settled_def)
  have same: "same_signature sample_digest ?sig s" using anchored_sig [OF an] s(1) by (simp add: sample_env_def)
  obtain t where t: "tempData d = Some t" using anchored_temp [OF an] by blast
  have fr: "documentHash d = Some [1, 9]" "docAggrLevel d = 0" using frame_internal [OF d] sig by (simp_all add: frame_def begin_verification_def)
  obtain d1 where d1: "concludes (internalRules ?E) d KSI_VER_RES_OK d1"
    using sample_again [OF s(1) same [unfolded sample_signature_def] s(2) k(2) t kr [unfolded root] fr] sample_published by (auto simp: sample_signature_def)
  have a1: "anchored ?E ?c ?sig root' d1" using settled_again [OF st(1) d1] by (simp add: settled_def)
  obtain d2 where "concludes (userProvidedPublicationBasedRules ?E) d KSI_VER_RES_OK d2"
    using user_record_rules [OF a1 sig(4) sample_record] d1 by (auto simp: userProvidedPublicationBasedRules_def concludes_both)
  then have "concludes (generalRules ?E) (begin_verification ?c) KSI_VER_RES_OK d2"
    using d by (auto simp: generalRules_def concludes_simps)
  then have "accepts (predefined_policies ?E) 6 ?c" using accepts_predefined [of 6 ?E ?c] by (auto simp: predefined_policies_def)
  moreover have "uses_file ?E ?c sample_publications" by (simp add: uses_file_def sample_general_context_def)
  ultimately show ?thesis using general_policy_sound [OF sig(1) p, of ?E sample_publications] sig(4) by (simp add: sample_env_def)
qed

end
